(* ===== verification/Py_Prelude.thy ===== *)
theory Py_Prelude
  imports Main "HOL-Library.Word"
begin

text \<open>
  Shared vocabulary of the development: bytes and Python strings, the integer packers of the
  \<^verbatim>\<open>struct\<close> module, slices and slice assignment on byte arrays, the string and
  bytes methods the sources call, and the result type of code that may raise.

  A Python \<^verbatim>\<open>bytes\<close> is a list of 8-bit words.  A Python
  \<^verbatim>\<open>str\<close> is a list of code points (natural numbers), so that
  \<^verbatim>\<open>len\<close> counts what Python counts; \<open>lit\<close> turns an Isabelle string literal
  into one.
\<close>

section \<open>Collections of rewrite rules\<close>

named_theorems bytes_simps \<open>lengths and values of packed integers, slices and padding\<close>
named_theorems exec_simps \<open>equations that evaluate closed byte-level terms\<close>

section \<open>Types\<close>

type_synonym byte = "8 word"
type_synonym bytes = "byte list"
type_synonym pystr = "nat list"

abbreviation lit :: "string \<Rightarrow> pystr" where
  "lit s \<equiv> map of_char s"

abbreviation blit :: "string \<Rightarrow> bytes" where
  "blit s \<equiv> map of_char s"

section \<open>Big- and little-endian unsigned integers\<close>

fun le_bytes :: "nat \<Rightarrow> nat \<Rightarrow> bytes" where
  "le_bytes 0 n = []"
| "le_bytes (Suc k) n = word_of_nat n # le_bytes k (n div 256)"

fun le_val :: "bytes \<Rightarrow> nat" where
  "le_val [] = 0"
| "le_val (b # bs) = unat b + 256 * le_val bs"

definition be_bytes :: "nat \<Rightarrow> nat \<Rightarrow> bytes" where
  "be_bytes k n = rev (le_bytes k n)"

definition be_val :: "bytes \<Rightarrow> nat" where
  "be_val bs = le_val (rev bs)"

lemma length_le_bytes [simp, bytes_simps]: "length (le_bytes k n) = k"
  by (induction k arbitrary: n) auto

lemma length_be_bytes [simp, bytes_simps]: "length (be_bytes k n) = k"
  by (simp add: be_bytes_def)

lemma unat_word_of_nat_byte [simp, bytes_simps]: "unat (word_of_nat n :: byte) = n mod 256"
  by (simp add: unat_of_nat)

lemma byte_less_256 [simp]: "unat (b :: byte) < 256"
proof -
  have "unat b < 2 ^ LENGTH(8)" by (rule unsigned_less)
  then show ?thesis by simp
qed

lemma le_val_le_bytes [simp, bytes_simps]: "le_val (le_bytes k n) = n mod 256 ^ k"
proof (induction k arbitrary: n)
  case 0
  then show ?case by simp
next
  case (Suc k)
  then show ?case by (simp add: mod_mult2_eq)
qed

lemma be_val_be_bytes [simp, bytes_simps]: "be_val (be_bytes k n) = n mod 256 ^ k"
  by (simp add: be_val_def be_bytes_def)

lemma le_val_less: "le_val bs < 256 ^ length bs"
proof (induction bs)
  case Nil
  then show ?case by simp
next
  case (Cons b bs)
  have "unat b < 256" by simp
  moreover have "le_val bs + 1 \<le> 256 ^ length bs" using Cons by simp
  ultimately have "unat b + 256 * le_val bs < 256 * 256 ^ length bs"
    by linarith
  then show ?case by simp
qed

lemma be_val_less: "be_val bs < 256 ^ length bs"
  using le_val_less [of "rev bs"] by (simp add: be_val_def)

lemma le_bytes_le_val: "length bs = k \<Longrightarrow> le_bytes k (le_val bs) = bs"
proof (induction bs arbitrary: k)
  case Nil
  then show ?case by simp
next
  case (Cons b bs)
  have b: "unat b < 256" by simp
  have "(unat b + 256 * le_val bs) div 256 = le_val bs"
    using b by simp
  moreover have "(word_of_nat (unat b + 256 * le_val bs) :: byte) = b"
    by (rule word_unat_eq_iff [THEN iffD2]) (simp only: unat_word_of_nat_byte, simp add: b)
  ultimately show ?case using Cons by (cases k) auto
qed

lemma be_bytes_be_val: "length bs = k \<Longrightarrow> be_bytes k (be_val bs) = bs"
  using le_bytes_le_val [of "rev bs" k] by (simp add: be_bytes_def be_val_def)

lemma le_bytes_inject:
  assumes "le_bytes k m = le_bytes k n" and "m < 256 ^ k" and "n < 256 ^ k"
  shows "m = n"
proof -
  have "le_val (le_bytes k m) = le_val (le_bytes k n)" using assms(1) by simp
  then show ?thesis using assms(2,3) by simp
qed

section \<open>Slices\<close>

text \<open>
  \<open>py_slice a b xs\<close> is \<^verbatim>\<open>xs[a:b]\<close> for \<open>0 \<le> a\<close>: indices beyond the end are clamped.
  \<open>put_slice a b v xs\<close> is the slice assignment \<^verbatim>\<open>xs[a:b] = v\<close> on a
  \<^verbatim>\<open>bytearray\<close>: a value of another length than the slice changes the length of the
  array, as in Python.
\<close>

definition py_slice :: "nat \<Rightarrow> nat \<Rightarrow> 'a list \<Rightarrow> 'a list" where
  "py_slice a b xs = take (b - a) (drop a xs)"

definition put_slice :: "nat \<Rightarrow> nat \<Rightarrow> 'a list \<Rightarrow> 'a list \<Rightarrow> 'a list" where
  "put_slice a b v xs = take a xs @ v @ drop (max a b) xs"

text \<open>\<^verbatim>\<open>struct.pack_into\<close> at a fixed offset: it overwrites in place.\<close>

definition pack_at :: "nat \<Rightarrow> 'a list \<Rightarrow> 'a list \<Rightarrow> 'a list" where
  "pack_at off v xs = put_slice off (off + length v) v xs"

lemma length_py_slice [simp, bytes_simps]: "length (py_slice a b xs) = min (b - a) (length xs - a)"
  by (simp add: py_slice_def)

lemma length_put_slice [bytes_simps]:
  "b \<le> length xs \<Longrightarrow> length v = b - a \<Longrightarrow> a \<le> b \<Longrightarrow> length (put_slice a b v xs) = length xs"
  by (simp add: put_slice_def)

lemma length_pack_at [bytes_simps]:
  "off + length v \<le> length xs \<Longrightarrow> length (pack_at off v xs) = length xs"
  by (simp add: pack_at_def put_slice_def)

lemma slice_append_left: "length xs = n \<Longrightarrow> py_slice 0 n (xs @ ys) = xs"
  by (simp add: py_slice_def)

lemma slice_append_right: "length xs \<le> a \<Longrightarrow> py_slice a b (xs @ ys) = py_slice (a - length xs) (b - length xs) ys"
  by (simp add: py_slice_def)

lemma slice_put_slice_same:
  "a + length v \<le> length xs \<Longrightarrow> b = a + length v \<Longrightarrow> py_slice a b (put_slice a b v xs) = v"
  by (simp add: py_slice_def put_slice_def)

lemma slice_put_slice_before:
  assumes "d \<le> a" and "b = a + length v" and "b \<le> length xs"
  shows "py_slice c d (put_slice a b v xs) = py_slice c d xs"
proof -
  have "take d (put_slice a b v xs) = take d xs"
    using assms by (simp add: put_slice_def)
  then show ?thesis
    by (metis drop_take py_slice_def)
qed

lemma slice_put_slice_after:
  assumes "b \<le> c" and "b = a + length v" and "b \<le> length xs"
  shows "py_slice c d (put_slice a b v xs) = py_slice c d xs"
proof -
  have "drop c (put_slice a b v xs) = drop c xs"
    using assms by (simp add: put_slice_def max_def)
  then show ?thesis by (simp add: py_slice_def)
qed

lemma slice_pack_at_same [bytes_simps]:
  "off + length v \<le> length xs \<Longrightarrow> b = off + length v \<Longrightarrow> py_slice off b (pack_at off v xs) = v"
  by (simp add: pack_at_def slice_put_slice_same)

lemma slice_pack_at_before [bytes_simps]:
  "d \<le> off \<Longrightarrow> off + length v \<le> length xs \<Longrightarrow> py_slice c d (pack_at off v xs) = py_slice c d xs"
  by (simp add: pack_at_def slice_put_slice_before)

lemma slice_pack_at_after [bytes_simps]:
  "off + length v \<le> c \<Longrightarrow> off + length v \<le> length xs \<Longrightarrow> py_slice c d (pack_at off v xs) = py_slice c d xs"
  by (simp add: pack_at_def slice_put_slice_after)

section \<open>Padding and stripping\<close>

definition ljust :: "nat \<Rightarrow> 'a \<Rightarrow> 'a list \<Rightarrow> 'a list" where
  "ljust w c xs = xs @ replicate (w - length xs) c"

definition rjust :: "nat \<Rightarrow> 'a \<Rightarrow> 'a list \<Rightarrow> 'a list" where
  "rjust w c xs = replicate (w - length xs) c @ xs"

definition lstrip_by :: "('a \<Rightarrow> bool) \<Rightarrow> 'a list \<Rightarrow> 'a list" where
  "lstrip_by P xs = dropWhile P xs"

definition rstrip_by :: "('a \<Rightarrow> bool) \<Rightarrow> 'a list \<Rightarrow> 'a list" where
  "rstrip_by P xs = rev (dropWhile P (rev xs))"

definition strip_by :: "('a \<Rightarrow> bool) \<Rightarrow> 'a list \<Rightarrow> 'a list" where
  "strip_by P xs = rstrip_by P (lstrip_by P xs)"

lemma length_ljust [simp, bytes_simps]: "length (ljust w c xs) = max w (length xs)"
  by (simp add: ljust_def max_def)

lemma length_rjust [simp, bytes_simps]: "length (rjust w c xs) = max w (length xs)"
  by (simp add: rjust_def max_def)

lemma rstrip_by_append_all: "(\<forall>x \<in> set ys. P x) \<Longrightarrow> rstrip_by P (xs @ ys) = rstrip_by P xs"
  by (simp add: rstrip_by_def dropWhile_append)

lemma rstrip_by_id: "xs = [] \<or> \<not> P (last xs) \<Longrightarrow> rstrip_by P xs = xs"
  by (cases xs rule: rev_cases) (auto simp: rstrip_by_def)

text \<open>White space: \<^verbatim>\<open>str.strip\<close> and \<^verbatim>\<open>bytes.strip\<close> differ.  The code points
  above 160 are those Python's \<^verbatim>\<open>str.isspace\<close> accepts.\<close>

definition ws_chars :: "nat list" where
  "ws_chars = [9, 10, 11, 12, 13, 28, 29, 30, 31, 32, 133, 160, 5760,
     8192, 8193, 8194, 8195, 8196, 8197, 8198, 8199, 8200, 8201, 8202,
     8232, 8233, 8239, 8287, 12288]"

definition is_space :: "nat \<Rightarrow> bool" where
  "is_space c \<longleftrightarrow> c \<in> set ws_chars"

definition is_bspace :: "byte \<Rightarrow> bool" where
  "is_bspace b \<longleftrightarrow> unat b \<in> set [9, 10, 11, 12, 13, 32]"

abbreviation py_strip :: "pystr \<Rightarrow> pystr" where
  "py_strip \<equiv> strip_by is_space"

text \<open>\<^verbatim>\<open>str.upper\<close>: the ASCII letters are written out; the mapping of the other code
  points is the Unicode character database, a parameter \<open>uc\<close> of the functions that use it.\<close>

definition upper_cp :: "(nat \<Rightarrow> pystr) \<Rightarrow> nat \<Rightarrow> pystr" where
  "upper_cp uc c = (if c < 128 then [if 97 \<le> c \<and> c \<le> 122 then c - 32 else c] else uc c)"

definition py_upper :: "(nat \<Rightarrow> pystr) \<Rightarrow> pystr \<Rightarrow> pystr" where
  "py_upper uc s = concat (map (upper_cp uc) s)"

definition is_ascii :: "pystr \<Rightarrow> bool" where
  "is_ascii s \<longleftrightarrow> (\<forall>c \<in> set s. c < 128)"

section \<open>Searching and splitting\<close>

definition starts_with :: "'a list \<Rightarrow> 'a list \<Rightarrow> bool" where
  "starts_with p xs \<longleftrightarrow> take (length p) xs = p"

fun find_sub :: "'a list \<Rightarrow> 'a list \<Rightarrow> nat option" where
  "find_sub p [] = (if p = [] then Some 0 else None)"
| "find_sub p (x # xs) =
     (if starts_with p (x # xs) then Some 0 else map_option Suc (find_sub p xs))"

fun split_on :: "'a \<Rightarrow> 'a list \<Rightarrow> 'a list list" where
  "split_on c [] = [[]]"
| "split_on c (x # xs) =
     (if x = c then [] # split_on c xs
      else case split_on c xs of [] \<Rightarrow> [[x]] | y # ys \<Rightarrow> (x # y) # ys)"

fun join_with :: "'a list \<Rightarrow> 'a list list \<Rightarrow> 'a list" where
  "join_with c [] = []"
| "join_with c [x] = x"
| "join_with c (x # y # ys) = x @ c @ join_with c (y # ys)"

lemma split_on_nonempty [simp]: "split_on c xs \<noteq> []"
  by (induction xs) (auto split: list.splits)

lemma starts_with_append [simp]: "starts_with p (p @ xs)"
  by (simp add: starts_with_def)

lemma starts_with_iff: "starts_with p xs \<longleftrightarrow> (\<exists>ys. xs = p @ ys)"
  by (metis append_take_drop_id starts_with_append starts_with_def)

lemma join_split_on: "join_with [c] (split_on c xs) = xs"
proof (induction xs)
  case Nil
  then show ?case by simp
next
  case (Cons x xs)
  then show ?case
    by (cases "([c], split_on c xs)" rule: join_with.cases) auto
qed

lemma split_on_no_sep: "c \<notin> set xs \<Longrightarrow> split_on c xs = [xs]"
  by (induction xs) auto

lemma split_on_append_sep:
  "c \<notin> set xs \<Longrightarrow> split_on c (xs @ c # ys) = xs # split_on c ys"
  by (induction xs) auto

section \<open>Hexadecimal and decimal digits\<close>

definition hex_digit :: "nat \<Rightarrow> nat" where
  "hex_digit d = (if d < 10 then 48 + d else 55 + d)"

fun dec_digits :: "nat \<Rightarrow> pystr" where
  "dec_digits n = (if n < 10 then [48 + n] else dec_digits (n div 10) @ [48 + n mod 10])"

declare dec_digits.simps [simp del]

definition is_digit :: "nat \<Rightarrow> bool" where
  "is_digit c \<longleftrightarrow> 48 \<le> c \<and> c \<le> 57"

definition digits_val :: "pystr \<Rightarrow> nat" where
  "digits_val s = foldl (\<lambda>acc c. acc * 10 + (c - 48)) 0 s"

lemma digits_val_snoc [simp]: "digits_val (s @ [c]) = digits_val s * 10 + (c - 48)"
  by (simp add: digits_val_def)

lemma dec_digits_nonempty [simp]: "dec_digits n \<noteq> []"
  by (subst dec_digits.simps) simp

lemma dec_digits_are_digits: "c \<in> set (dec_digits n) \<Longrightarrow> is_digit c"
proof (induction n rule: dec_digits.induct)
  case (1 n)
  show ?case
  proof (cases "n < 10")
    case True
    with "1.prems" show ?thesis by (auto simp: dec_digits.simps [of n] is_digit_def)
  next
    case False
    with "1.prems" have "c \<in> set (dec_digits (n div 10)) \<or> c = 48 + n mod 10"
      by (auto simp: dec_digits.simps [of n])
    with "1.IH" [OF False] show ?thesis
      using mod_less_divisor [of 10 n] by (auto simp: is_digit_def)
  qed
qed

lemma digits_val_dec_digits [simp]: "digits_val (dec_digits n) = n"
proof (induction n rule: dec_digits.induct)
  case (1 n)
  show ?case
  proof (cases "n < 10")
    case True
    then show ?thesis by (simp add: dec_digits.simps [of n] digits_val_def)
  next
    case False
    with "1.IH" show ?thesis by (simp add: dec_digits.simps [of n])
  qed
qed

lemma dec_digits_bound: "n < 10 ^ length (dec_digits n)"
proof (induction n rule: dec_digits.induct)
  case (1 n)
  show ?case
  proof (cases "n < 10")
    case True
    then show ?thesis by (simp add: dec_digits.simps [of n])
  next
    case False
    with "1.IH" have "n div 10 < 10 ^ length (dec_digits (n div 10))" by simp
    with False show ?thesis by (simp add: dec_digits.simps [of n] div_less_iff_less_mult mult.commute)
  qed
qed

lemma length_dec_digits_le: "0 < k \<Longrightarrow> n < 10 ^ k \<Longrightarrow> length (dec_digits n) \<le> k"
proof (induction n arbitrary: k rule: dec_digits.induct)
  case (1 n)
  show ?case
  proof (cases "n < 10")
    case True
    with "1.prems" show ?thesis by (simp add: dec_digits.simps [of n])
  next
    case False
    then obtain j where j: "k = Suc j" "0 < j"
      using "1.prems" by (cases k; cases "k - 1") auto
    then have "n div 10 < 10 ^ j"
      using "1.prems" by (simp add: div_less_iff_less_mult mult.commute)
    with "1.IH" [OF False j(2)] False j show ?thesis by (simp add: dec_digits.simps [of n])
  qed
qed

text \<open>\<^verbatim>\<open>int(s)\<close> for a decimal string of ASCII digits: surrounding white space, a sign and single
  underscores between digits are accepted.\<close>

fun int_body :: "pystr \<Rightarrow> bool \<Rightarrow> nat \<Rightarrow> nat option" where
  "int_body [] prev acc = (if prev then Some acc else None)"
| "int_body (c # cs) prev acc =
     (if is_digit c then int_body cs True (acc * 10 + (c - 48))
      else if c = 95 \<and> prev then int_body cs False acc else None)"

definition py_int :: "pystr \<Rightarrow> int option" where
  "py_int s =
     (case py_strip s of
        [] \<Rightarrow> None
      | c # cs \<Rightarrow>
          if c = 43 then map_option int (int_body cs False 0)
          else if c = 45 then map_option (\<lambda>n. - int n) (int_body cs False 0)
          else map_option int (int_body (c # cs) False 0))"

lemma int_body_digits:
  "\<forall>c \<in> set s. is_digit c \<Longrightarrow> s \<noteq> [] \<or> b \<Longrightarrow>
     int_body s b acc = Some (foldl (\<lambda>a c. a * 10 + (c - 48)) acc s)"
  by (induction s arbitrary: b acc) auto

lemma digit_not_space: "is_digit c \<Longrightarrow> \<not> is_space c"
  by (auto simp: is_digit_def is_space_def ws_chars_def)

lemma strip_digits: "\<forall>c \<in> set s. is_digit c \<Longrightarrow> py_strip s = s"
proof -
  assume d: "\<forall>c \<in> set s. is_digit c"
  have "dropWhile is_space t = t" if "\<forall>c \<in> set t. is_digit c" for t
    using that by (cases t) (auto simp: digit_not_space)
  with d show ?thesis by (simp add: strip_by_def lstrip_by_def rstrip_by_def)
qed

lemma py_int_dec_digits [simp]: "py_int (dec_digits n) = Some (int n)"
proof -
  have d: "\<forall>c \<in> set (dec_digits n). is_digit c" by (simp add: dec_digits_are_digits)
  obtain c cs where c: "dec_digits n = c # cs" by (cases "dec_digits n") auto
  have "c \<noteq> 43 \<and> c \<noteq> 45" using d c by (auto simp: is_digit_def)
  moreover have "int_body (c # cs) False 0 = Some n"
    using int_body_digits [OF d, of False 0] digits_val_dec_digits [of n] c
    by (simp add: digits_val_def)
  ultimately show ?thesis
    using strip_digits [OF d] by (simp add: py_int_def c)
qed

section \<open>Text encodings\<close>

definition latin1_decode :: "bytes \<Rightarrow> pystr" where
  "latin1_decode bs = map unat bs"

definition ascii_replace :: "bytes \<Rightarrow> pystr" where
  "ascii_replace bs = map (\<lambda>b. if unat b < 128 then unat b else 65533) bs"

definition ascii_decode :: "bytes \<Rightarrow> pystr option" where
  "ascii_decode bs = (if \<forall>b \<in> set bs. unat b < 128 then Some (map unat bs) else None)"

definition ascii_encode :: "pystr \<Rightarrow> bytes option" where
  "ascii_encode s = (if is_ascii s then Some (map word_of_nat s) else None)"

text \<open>UTF-16 in either byte order, given the two-byte packer and reader of a code unit.  A
  code point above 0xFFFF is a surrogate pair; a lone surrogate is an error in both
  directions, as it is for Python's strict \<^verbatim>\<open>utf-16-le\<close> codec.\<close>

definition is_surrogate :: "nat \<Rightarrow> bool" where
  "is_surrogate c \<longleftrightarrow> 0xD800 \<le> c \<and> c < 0xE000"

fun utf16_units :: "pystr \<Rightarrow> nat list option" where
  "utf16_units [] = Some []"
| "utf16_units (c # cs) =
     (if is_surrogate c \<or> 0x110000 \<le> c then None
      else case utf16_units cs of None \<Rightarrow> None
      | Some us \<Rightarrow>
          if c < 0x10000 then Some (c # us)
          else Some ((0xD800 + (c - 0x10000) div 0x400) # (0xDC00 + (c - 0x10000) mod 0x400) # us))"

fun utf16_cps :: "nat list \<Rightarrow> pystr option" where
  "utf16_cps [] = Some []"
| "utf16_cps (u # us) =
     (if \<not> is_surrogate u then map_option ((#) u) (utf16_cps us)
      else if u < 0xDC00 then
        (case us of [] \<Rightarrow> None
         | v # vs \<Rightarrow>
             if 0xDC00 \<le> v \<and> v < 0xE000
             then map_option ((#) (0x10000 + (u - 0xD800) * 0x400 + (v - 0xDC00))) (utf16_cps vs)
             else None)
      else None)"

fun units_of_le :: "bytes \<Rightarrow> nat list option" where
  "units_of_le [] = Some []"
| "units_of_le [b] = None"
| "units_of_le (a # b # bs) = map_option ((#) (le_val [a, b])) (units_of_le bs)"

fun units_of_be :: "bytes \<Rightarrow> nat list option" where
  "units_of_be [] = Some []"
| "units_of_be [b] = None"
| "units_of_be (a # b # bs) = map_option ((#) (be_val [a, b])) (units_of_be bs)"

definition utf16le_encode :: "pystr \<Rightarrow> bytes option" where
  "utf16le_encode s = map_option (\<lambda>us. concat (map (le_bytes 2) us)) (utf16_units s)"

definition utf16be_encode :: "pystr \<Rightarrow> bytes option" where
  "utf16be_encode s = map_option (\<lambda>us. concat (map (be_bytes 2) us)) (utf16_units s)"

definition utf16le_decode :: "bytes \<Rightarrow> pystr option" where
  "utf16le_decode bs = Option.bind (units_of_le bs) utf16_cps"

definition utf16be_decode :: "bytes \<Rightarrow> pystr option" where
  "utf16be_decode bs = Option.bind (units_of_be bs) utf16_cps"

lemma utf16_units_bound: "utf16_units s = Some us \<Longrightarrow> u \<in> set us \<Longrightarrow> u < 65536"
proof (induction s arbitrary: us)
  case Nil
  then show ?case by simp
next
  case (Cons c cs)
  have "(c - 0x10000) mod 0x400 < 0x400" by simp
  moreover have "c < 0x110000 \<Longrightarrow> (c - 0x10000) div 0x400 < 0x400" by linarith
  ultimately show ?case using Cons
    by (auto split: if_splits option.splits)
qed

lemma utf16_cps_units: "utf16_units s = Some us \<Longrightarrow> utf16_cps us = Some s"
proof (induction s arbitrary: us)
  case Nil
  then show ?case by simp
next
  case (Cons c cs)
  then obtain vs where vs: "utf16_units cs = Some vs" and ok: "\<not> is_surrogate c" "c < 0x110000"
    by (auto split: if_splits option.splits)
  from vs have IH: "utf16_cps vs = Some cs" by (rule Cons.IH)
  show ?case
  proof (cases "c < 0x10000")
    case True
    with Cons.prems vs ok IH show ?thesis by auto
  next
    case False
    define d where "d = c - 0x10000"
    have d: "d div 0x400 < 0x400" "d mod 0x400 < 0x400" "c = d + 0x10000"
      using ok False by (auto simp: d_def)
    have us: "us = (0xD800 + d div 0x400) # (0xDC00 + d mod 0x400) # vs"
      using Cons.prems vs ok False by (auto simp: d_def)
    have "0x10000 + d div 0x400 * 0x400 + d mod 0x400 = c"
      using d(3) by simp
    with us d(1,2) IH show ?thesis
      by (simp add: is_surrogate_def)
  qed
qed

lemma units_of_le_concat:
  "(\<forall>u \<in> set us. u < 65536) \<Longrightarrow> units_of_le (concat (map (le_bytes 2) us)) = Some us"
  by (induction us) (auto simp: numeral_2_eq_2)

lemma units_of_be_concat:
  "(\<forall>u \<in> set us. u < 65536) \<Longrightarrow> units_of_be (concat (map (be_bytes 2) us)) = Some us"
  by (induction us) (auto simp: numeral_2_eq_2 be_bytes_def be_val_def)

lemma utf16le_roundtrip: "utf16le_encode s = Some bs \<Longrightarrow> utf16le_decode bs = Some s"
  using utf16_units_bound [of s]
  by (auto simp: utf16le_encode_def utf16le_decode_def units_of_le_concat utf16_cps_units)

lemma utf16be_roundtrip: "utf16be_encode s = Some bs \<Longrightarrow> utf16be_decode bs = Some s"
  using utf16_units_bound [of s]
  by (auto simp: utf16be_encode_def utf16be_decode_def units_of_be_concat utf16_cps_units)

lemma length_concat_le2 [simp]: "length (concat (map (le_bytes 2) us)) = 2 * length us"
  by (induction us) auto

lemma length_concat_be2 [simp]: "length (concat (map (be_bytes 2) us)) = 2 * length us"
  by (induction us) auto

end
