(* ===== verification/Rfc_Exceptions.thy ===== *)
theory Rfc_Exceptions
  imports Py_Prelude "HOL-Library.Sublist"
begin

text \<open>
  The exceptions of \<^verbatim>\<open>src/saprfclib/exceptions.py\<close> and the built-in ones the modelled
  code raises, as one datatype; the class hierarchy as the method resolution order of each
  class, so that an \<^verbatim>\<open>except C\<close> clause is the test \<open>isinstance\<close>; and the diagnostic
  strings the constructors build.  A routine that may raise returns a value of
  \<open>'a res\<close>, with \<open>Inl\<close> for the exception.

  Of the exceptions whose message is a fixed diagnostic text only the class is kept.
\<close>

section \<open>The exceptions\<close>

record abap_info =
  key :: "pystr option"
  msg_class :: "pystr option"
  msg_type :: "pystr option"
  msg_number :: "pystr option"
  msg_v1 :: "pystr option"
  msg_v2 :: "pystr option"
  msg_v3 :: "pystr option"
  msg_v4 :: "pystr option"
  message :: "pystr option"

record pool_diag =
  pd_discarded :: nat
  pd_active :: nat
  pd_idle :: nat
  pd_max_size :: nat

datatype exn =
    ValueError | UnicodeError | KeyError | IndexError | TypeError | RuntimeError | OverflowError
  | StructError | EOFError | IncompleteReadError | OSError | TimeoutError | OtherException
  | DecompressError | CompressError
  | SapRfcError pystr
  | IncompleteDescriptorError
  | AbapApplicationError abap_info
  | AbapSystemFailure abap_info
  | CommunicationError pystr
  | TransactionalError
  | RetryExhausted "pystr option" "pystr option" "pystr option" "pystr option"
  | SncError "pystr option" "nat option" "nat option"
  | WebSocketError
  | ProxyError pystr
  | PoolTimeoutError pool_diag
  | MessageServerHttpError

type_synonym 'a res = "exn + 'a"

text \<open>Stateful code: the state survives an exception, as it does in Python.\<close>

type_synonym ('s, 'a) act = "'s \<Rightarrow> 'a res \<times> 's"

text \<open>Sequencing: the first exception wins, as it does for consecutive statements.\<close>

fun bind_res :: "'a res \<Rightarrow> ('a \<Rightarrow> 'b res) \<Rightarrow> 'b res" where
  "bind_res (Inl e) f = Inl e"
| "bind_res (Inr x) f = f x"

fun map_res :: "('a \<Rightarrow> 'b) \<Rightarrow> 'a res \<Rightarrow> 'b res" where
  "map_res f (Inl e) = Inl e"
| "map_res f (Inr x) = Inr (f x)"

fun seq_res :: "'a res list \<Rightarrow> 'a list res" where
  "seq_res [] = Inr []"
| "seq_res (Inl e # rs) = Inl e"
| "seq_res (Inr x # rs) = map_res ((#) x) (seq_res rs)"

definition opt_res :: "exn \<Rightarrow> 'a option \<Rightarrow> 'a res" where
  "opt_res e x = (case x of None \<Rightarrow> Inl e | Some y \<Rightarrow> Inr y)"

lemma opt_res_simps [simp]: "opt_res e None = Inl e" "opt_res e (Some y) = Inr y"
  by (simp_all add: opt_res_def)

lemma bind_res_Inr: "bind_res r f = Inr y \<longleftrightarrow> (\<exists>x. r = Inr x \<and> f x = Inr y)"
  by (cases r) auto

lemma map_res_Inr: "map_res f r = Inr y \<longleftrightarrow> (\<exists>x. r = Inr x \<and> y = f x)"
  by (cases r) auto

lemma seq_res_all_Inr: "seq_res (map Inr xs) = Inr xs"
  by (induction xs) auto

lemma seq_res_append:
  "seq_res (xs @ ys) = bind_res (seq_res xs) (\<lambda>a. map_res ((@) a) (seq_res ys))"
proof (induction xs rule: seq_res.induct)
  case 1
  then show ?case by (cases "seq_res ys") auto
next
  case (3 x rs)
  then show ?case by (cases "seq_res rs"; cases "seq_res ys") auto
qed auto

lemma seq_res_Inr_Cons:
  "seq_res (r # rs) = Inr ys \<longleftrightarrow> (\<exists>x xs. r = Inr x \<and> seq_res rs = Inr xs \<and> ys = x # xs)"
  by (cases r) (auto simp: map_res_Inr)

section \<open>The class hierarchy\<close>

datatype exn_class =
    C_Exception | C_ValueError | C_UnicodeError | C_KeyError | C_IndexError | C_LookupError
  | C_TypeError | C_RuntimeError | C_OverflowError | C_ArithmeticError | C_StructError | C_EOFError
  | C_IncompleteReadError | C_OSError | C_TimeoutError | C_DecompressError | C_CompressError
  | C_SapRfcError | C_IncompleteDescriptorError | C_AbapApplicationError | C_AbapSystemFailure
  | C_CommunicationError | C_TransactionalError | C_RetryExhausted | C_SncError | C_WebSocketError
  | C_ProxyError | C_PoolTimeoutError | C_MessageServerHttpError

fun class_of :: "exn \<Rightarrow> exn_class" where
  "class_of ValueError = C_ValueError"
| "class_of UnicodeError = C_UnicodeError"
| "class_of KeyError = C_KeyError"
| "class_of IndexError = C_IndexError"
| "class_of TypeError = C_TypeError"
| "class_of RuntimeError = C_RuntimeError"
| "class_of OverflowError = C_OverflowError"
| "class_of StructError = C_StructError"
| "class_of EOFError = C_EOFError"
| "class_of IncompleteReadError = C_IncompleteReadError"
| "class_of OSError = C_OSError"
| "class_of TimeoutError = C_TimeoutError"
| "class_of OtherException = C_Exception"
| "class_of DecompressError = C_DecompressError"
| "class_of CompressError = C_CompressError"
| "class_of (SapRfcError m) = C_SapRfcError"
| "class_of IncompleteDescriptorError = C_IncompleteDescriptorError"
| "class_of (AbapApplicationError i) = C_AbapApplicationError"
| "class_of (AbapSystemFailure i) = C_AbapSystemFailure"
| "class_of (CommunicationError m) = C_CommunicationError"
| "class_of TransactionalError = C_TransactionalError"
| "class_of (RetryExhausted t u k c) = C_RetryExhausted"
| "class_of (SncError m a b) = C_SncError"
| "class_of WebSocketError = C_WebSocketError"
| "class_of (ProxyError m) = C_ProxyError"
| "class_of (PoolTimeoutError d) = C_PoolTimeoutError"
| "class_of MessageServerHttpError = C_MessageServerHttpError"

text \<open>The \<^verbatim>\<open>__mro__\<close> of each class, from its \<^verbatim>\<open>class C(bases)\<close> line.\<close>

fun mro :: "exn_class \<Rightarrow> exn_class list" where
  "mro C_Exception = [C_Exception]"
| "mro C_UnicodeError = [C_UnicodeError, C_ValueError, C_Exception]"
| "mro C_KeyError = [C_KeyError, C_LookupError, C_Exception]"
| "mro C_IndexError = [C_IndexError, C_LookupError, C_Exception]"
| "mro C_OverflowError = [C_OverflowError, C_ArithmeticError, C_Exception]"
| "mro C_IncompleteReadError = [C_IncompleteReadError, C_EOFError, C_Exception]"
| "mro C_TimeoutError = [C_TimeoutError, C_OSError, C_Exception]"
| "mro C_IncompleteDescriptorError =
     [C_IncompleteDescriptorError, C_SapRfcError, C_ValueError, C_Exception]"
| "mro C_AbapApplicationError = [C_AbapApplicationError, C_SapRfcError, C_Exception]"
| "mro C_AbapSystemFailure = [C_AbapSystemFailure, C_SapRfcError, C_Exception]"
| "mro C_CommunicationError = [C_CommunicationError, C_SapRfcError, C_Exception]"
| "mro C_TransactionalError = [C_TransactionalError, C_SapRfcError, C_Exception]"
| "mro C_RetryExhausted = [C_RetryExhausted, C_TransactionalError, C_SapRfcError, C_Exception]"
| "mro C_SncError = [C_SncError, C_SapRfcError, C_Exception]"
| "mro C_WebSocketError = [C_WebSocketError, C_SapRfcError, C_Exception]"
| "mro C_ProxyError = [C_ProxyError, C_SapRfcError, C_Exception]"
| "mro C_PoolTimeoutError = [C_PoolTimeoutError, C_SapRfcError, C_Exception]"
| "mro C_MessageServerHttpError = [C_MessageServerHttpError, C_SapRfcError, C_Exception]"
| "mro c = [c, C_Exception]"

definition isinstance :: "exn \<Rightarrow> exn_class \<Rightarrow> bool" where
  "isinstance e c \<longleftrightarrow> c \<in> set (mro (class_of e))"

lemma isinstance_Exception [simp]: "isinstance e C_Exception"
  by (cases e) (simp_all add: isinstance_def)

section \<open>Diagnostic strings\<close>

text \<open>Python's truth value of an optional string.\<close>

fun truthy :: "pystr option \<Rightarrow> bool" where
  "truthy None = False"
| "truthy (Some s) = (s \<noteq> [])"

definition present :: "pystr option list \<Rightarrow> pystr list" where
  "present ps = map the (filter truthy ps)"

definition abap_variables :: "abap_info \<Rightarrow> pystr list" where
  "abap_variables i = present [msg_v1 i, msg_v2 i, msg_v3 i, msg_v4 i]"

definition abap_application_parts :: "abap_info \<Rightarrow> pystr list" where
  "abap_application_parts i =
     present [key i, message i] @
     (if message i = None then
        (if truthy (msg_class i) \<and> truthy (msg_number i) then
           [lit ''message '' @ the (msg_class i) @ lit ''/'' @ the (msg_number i) @
            (if truthy (msg_type i) then lit '' type '' @ the (msg_type i) else [])]
         else []) @
        (if abap_variables i \<noteq> [] then [join_with (lit '' '') (abap_variables i)] else [])
      else [])"

definition abap_application_str :: "abap_info \<Rightarrow> pystr" where
  "abap_application_str i = join_with (lit '': '') (abap_application_parts i)"

definition opt_str :: "pystr option \<Rightarrow> pystr" where
  "opt_str m = (case m of None \<Rightarrow> [] | Some s \<Rightarrow> s)"

definition retry_exhausted_str ::
  "pystr option \<Rightarrow> pystr option \<Rightarrow> pystr option \<Rightarrow> pystr option \<Rightarrow> pystr" where
  "retry_exhausted_str tid unit_id unit_type cause =
     (let id_part =
        (case tid of
           Some t \<Rightarrow> lit ''tRFC '' @ t
         | None \<Rightarrow>
           (case unit_id of
              Some u \<Rightarrow>
                lit ''bgRFC unit '' @ u @
                (case unit_type of Some k \<Rightarrow> lit '' ('' @ k @ lit '')'' | None \<Rightarrow> [])
            | None \<Rightarrow> lit ''transactional call''));
          cause_part = (case cause of Some c \<Rightarrow> lit '': '' @ c | None \<Rightarrow> [])
      in id_part @ lit '' exhausted'' @ cause_part)"

definition hex8 :: "nat \<Rightarrow> pystr" where
  "hex8 n =
     map (\<lambda>i. let d = n div 16 ^ (7 - i) mod 16 in if d < 10 then 48 + d else 87 + d) [0..<8]"

text \<open>\<^verbatim>\<open>SncError.__init__\<close>: the two GSS status codes (\<^verbatim>\<open>OM_uint32\<close>, below
  \<open>2 ^ 32\<close>) in eight hexadecimal digits each.\<close>

definition snc_error_str :: "pystr option \<Rightarrow> nat option \<Rightarrow> nat option \<Rightarrow> pystr" where
  "snc_error_str m major minor =
     (if truthy m then the m
      else lit ''GSS error major=0x'' @ hex8 (case major of None \<Rightarrow> 0 | Some n \<Rightarrow> n) @
           lit '' minor=0x'' @ hex8 (case minor of None \<Rightarrow> 0 | Some n \<Rightarrow> n))"

section \<open>Lemmas\<close>

lemma sublist_join: "v \<in> set vs \<Longrightarrow> sublist v (join_with c vs)"
proof (induction c vs rule: join_with.induct)
  case (3 c x y ys)
  show ?case
  proof (cases "v = x")
    case True
    then show ?thesis by simp
  next
    case False
    with "3" have "sublist v (join_with c (y # ys))" by simp
    then show ?thesis by (simp add: sublist_append)
  qed
qed (auto)

lemma in_present: "Some v \<in> set ps \<Longrightarrow> v \<noteq> [] \<Longrightarrow> v \<in> set (present ps)"
  by (force simp: present_def)

lemma variable_occurs:
  assumes "Some v \<in> {msg_v1 i, msg_v2 i, msg_v3 i, msg_v4 i}" and "v \<noteq> []"
    and "message i = None"
  shows "sublist v (abap_application_str i)"
proof -
  have v: "v \<in> set (abap_variables i)"
    unfolding abap_variables_def using assms(1,2) by (intro in_present) auto
  then have "abap_variables i \<noteq> []" by auto
  then have "join_with (lit '' '') (abap_variables i) \<in> set (abap_application_parts i)"
    using assms(3) by (simp add: abap_application_parts_def)
  then have "sublist (join_with (lit '' '') (abap_variables i)) (abap_application_str i)"
    unfolding abap_application_str_def by (rule sublist_join)
  with sublist_join [OF v] show ?thesis by (rule sublist_order.order.trans)
qed

lemma key_occurs:
  assumes "key i = Some v" and "v \<noteq> []"
  shows "sublist v (abap_application_str i)"
proof -
  have "v \<in> set (abap_application_parts i)"
    using assms by (auto simp: abap_application_parts_def intro: in_present)
  then show ?thesis
    unfolding abap_application_str_def by (rule sublist_join)
qed

end
