(* ===== verification/Tlv_Stream.thy ===== *)
theory Tlv_Stream
  imports Rfc_Exceptions
begin

text \<open>
  The tag-length-value records of the RFC wire format: the writers
  \<^verbatim>\<open>invoke.tlv_record\<close>, \<^verbatim>\<open>connection._tlv\<close> and \<^verbatim>\<open>connection._tlv_ext\<close>, and the walkers over
  a record stream, \<^verbatim>\<open>invoke._parse_tlv_stream\<close>, \<^verbatim>\<open>invoke.tlv_stream_status\<close> and
  \<^verbatim>\<open>session.Session._parse_tlv\<close>.

  A walker of the source keeps a position \<^verbatim>\<open>pos\<close> into the payload; here it is the function's
  argument, the rest of the payload from \<^verbatim>\<open>pos\<close> on.  One turn of the loop up to the point where
  the record's value is known is the same text in five walkers; it is \<open>tlv_step\<close>.
\<close>

section \<open>Writers\<close>

definition tlv_record_body :: "nat \<Rightarrow> bytes \<Rightarrow> bytes" where
  "tlv_record_body tag data =
     (if length data \<ge> 0xFFFF
      then be_bytes 2 tag @ be_bytes 2 0xFFFF @ be_bytes 4 (length data) @ data @ be_bytes 2 tag
      else be_bytes 2 tag @ be_bytes 2 (length data) @ data @ be_bytes 2 tag)"

definition tlv_record :: "nat \<Rightarrow> bytes \<Rightarrow> bytes res" where
  "tlv_record tag data =
     (if tag \<ge> 0x10000 then Inl OverflowError
      else if length data \<ge> 2 ^ 32 then Inl StructError
      else Inr (tlv_record_body tag data))"

definition tlv_open :: "nat \<Rightarrow> bytes \<Rightarrow> bytes res" where
  "tlv_open tag value =
     (if tag \<ge> 0x10000 \<or> length value \<ge> 0x10000 then Inl OverflowError
      else Inr (be_bytes 2 tag @ be_bytes 2 (length value) @ value))"

definition tlv_ext :: "nat \<Rightarrow> bytes \<Rightarrow> bytes res" where
  "tlv_ext tag value =
     (if tag \<ge> 0x10000 \<or> length value \<ge> 0x10000 then Inl OverflowError
      else Inr (be_bytes 2 tag @ be_bytes 2 (length value) @ value @ be_bytes 2 tag))"

text \<open>A stream of records and the terminator the parsers stop at.\<close>

definition tlv_records :: "(nat \<times> bytes) list \<Rightarrow> bytes" where
  "tlv_records rs = concat (map (\<lambda>(t, v). tlv_record_body t v) rs)"

definition ok_record :: "nat \<times> bytes \<Rightarrow> bool" where
  "ok_record r \<longleftrightarrow> fst r < 0xFFFF \<and> length (snd r) < 2 ^ 32"

abbreviation tlv_end :: bytes where
  "tlv_end \<equiv> [0xFF, 0xFF]"

section \<open>One turn of a walker\<close>

datatype tlv_turn =
    T_End                        \<comment> \<open>fewer than four bytes are left\<close>
  | T_Terminator                 \<comment> \<open>the tag is 0xFFFF\<close>
  | T_Short nat                  \<comment> \<open>extended form, but no room for its length field\<close>
  | T_Overrun nat                \<comment> \<open>the value runs past the end\<close>
  | T_Record nat nat bytes bytes \<comment> \<open>tag, header width, value, bytes after the close tag\<close>

definition skip_close :: "nat \<Rightarrow> bytes \<Rightarrow> bytes" where
  "skip_close tag r = (if 2 \<le> length r \<and> be_val (take 2 r) = tag then drop 2 r else r)"

definition tlv_step :: "bytes \<Rightarrow> tlv_turn" where
  "tlv_step d =
     (if length d < 4 then T_End
      else let tag = be_val (py_slice 0 2 d); len = be_val (py_slice 2 4 d) in
        if tag = 0xFFFF then T_Terminator
        else if len = 0xFFFF \<and> length d < 8 then T_Short tag
        else let h = (if len = 0xFFFF then 8 else 4);
                 n = (if len = 0xFFFF then be_val (py_slice 4 8 d) else len) in
          if h + n > length d then T_Overrun tag
          else T_Record tag h (py_slice h (h + n) d) (skip_close tag (drop (h + n) d)))"

text \<open>\<^verbatim>\<open>Session._parse_tlv\<close> has no extended form.\<close>

definition tlv_step_simple :: "bytes \<Rightarrow> tlv_turn" where
  "tlv_step_simple d =
     (if length d < 4 then T_End
      else let tag = be_val (py_slice 0 2 d); len = be_val (py_slice 2 4 d) in
        if tag = 0xFFFF then T_Terminator
        else if 4 + len > length d then T_Overrun tag
        else T_Record tag 4 (py_slice 4 (4 + len) d) (skip_close tag (drop (4 + len) d)))"

lemma length_skip_close: "length (skip_close tag r) \<le> length r"
  by (simp add: skip_close_def)

lemma tlv_step_decreases: "tlv_step d = T_Record t h v rest \<Longrightarrow> length rest < length d"
  by (auto simp: tlv_step_def Let_def split: if_splits
      intro!: le_less_trans [OF length_skip_close])

lemma tlv_step_simple_decreases:
  "tlv_step_simple d = T_Record t h v rest \<Longrightarrow> length rest < length d"
  by (auto simp: tlv_step_simple_def Let_def split: if_splits
      intro!: le_less_trans [OF length_skip_close])

section \<open>The walkers\<close>

text \<open>\<^verbatim>\<open>invoke._parse_tlv_stream\<close>: the last value of a repeated tag wins.\<close>

function parse_tlv_stream_from :: "(nat \<rightharpoonup> bytes) \<Rightarrow> bytes \<Rightarrow> (nat \<rightharpoonup> bytes) res" where
  "parse_tlv_stream_from out d =
     (case tlv_step d of
        T_End \<Rightarrow> Inr out
      | T_Terminator \<Rightarrow> Inr out
      | T_Short t \<Rightarrow> Inl ValueError
      | T_Overrun t \<Rightarrow> Inl ValueError
      | T_Record t h v rest \<Rightarrow> parse_tlv_stream_from (out(t \<mapsto> v)) rest)"
  by pat_completeness auto
termination
  by (relation "measure (\<lambda>(out, d). length d)") (auto dest: tlv_step_decreases)

definition parse_tlv_stream :: "bytes \<Rightarrow> (nat \<rightharpoonup> bytes) res" where
  "parse_tlv_stream data = parse_tlv_stream_from Map.empty data"

function session_parse_tlv_from :: "(nat \<rightharpoonup> bytes) \<Rightarrow> bytes \<Rightarrow> (nat \<rightharpoonup> bytes) res" where
  "session_parse_tlv_from out d =
     (case tlv_step_simple d of
        T_End \<Rightarrow> Inr out
      | T_Terminator \<Rightarrow> Inr out
      | T_Short t \<Rightarrow> Inr out
      | T_Overrun t \<Rightarrow> Inl ValueError
      | T_Record t h v rest \<Rightarrow> session_parse_tlv_from (out(t \<mapsto> v)) rest)"
  by pat_completeness auto
termination
  by (relation "measure (\<lambda>(out, d). length d)") (auto dest: tlv_step_simple_decreases)

definition session_parse_tlv :: "bytes \<Rightarrow> (nat \<rightharpoonup> bytes) res" where
  "session_parse_tlv payload = session_parse_tlv_from Map.empty payload"

datatype tlv_status = Complete | Truncated | Not_Tlv

function tlv_stream_status_from :: "bool \<Rightarrow> bytes \<Rightarrow> tlv_status" where
  "tlv_stream_status_from records d =
     (case tlv_step d of
        T_Terminator \<Rightarrow> Complete
      | T_Record t h v rest \<Rightarrow> tlv_stream_status_from True rest
      | T_End \<Rightarrow> if records then Truncated else Not_Tlv
      | T_Short t \<Rightarrow> if records then Truncated else Not_Tlv
      | T_Overrun t \<Rightarrow> if records then Truncated else Not_Tlv)"
  by pat_completeness auto
termination
  by (relation "measure (\<lambda>(r, d). length d)") (auto dest: tlv_step_decreases)

definition tlv_stream_status :: "bytes \<Rightarrow> tlv_status" where
  "tlv_stream_status tlv = tlv_stream_status_from False tlv"

declare parse_tlv_stream_from.simps [simp del] session_parse_tlv_from.simps [simp del]
  tlv_stream_status_from.simps [simp del]

section \<open>Records are read back as they were written\<close>

lemma length_tlv_record_body:
  "length (tlv_record_body t v) = (if length v \<ge> 0xFFFF then 10 else 6) + length v"
  by (simp add: tlv_record_body_def)

lemma be_val_2 [simp]: "n < 0x10000 \<Longrightarrow> be_val (be_bytes 2 n) = n"
  by simp

lemma be_val_4 [simp]: "n < 0x100000000 \<Longrightarrow> be_val (be_bytes 4 n) = n"
  by simp

lemma skip_close_record: "t < 0x10000 \<Longrightarrow> skip_close t (be_bytes 2 t @ rest) = rest"
  by (simp add: skip_close_def)

lemma tlv_step_short_form:
  assumes "t < 0xFFFF" and "n < 0xFFFF"
  shows "tlv_step (be_bytes 2 t @ be_bytes 2 n @ r) =
    (if length r < n then T_Overrun t else T_Record t 4 (take n r) (skip_close t (drop n r)))"
  using assms by (simp add: tlv_step_def py_slice_def)

lemma tlv_step_long_form:
  assumes "t < 0xFFFF" and "n < 2 ^ 32"
  shows "tlv_step (be_bytes 2 t @ be_bytes 2 0xFFFF @ be_bytes 4 n @ r) =
    (if length r < n then T_Overrun t else T_Record t 8 (take n r) (skip_close t (drop n r)))"
  using assms by (simp add: tlv_step_def py_slice_def)

lemma tlv_step_record:
  assumes "ok_record (t, v)"
  shows "tlv_step (tlv_record_body t v @ rest)
       = T_Record t (if length v \<ge> 0xFFFF then 8 else 4) v rest"
proof (cases "length v \<ge> 0xFFFF")
  case True
  have "tlv_record_body t v @ rest =
      be_bytes 2 t @ be_bytes 2 0xFFFF @ be_bytes 4 (length v) @ v @ be_bytes 2 t @ rest"
    using True by (simp add: tlv_record_body_def)
  with assms True show ?thesis
    by (simp add: tlv_step_long_form ok_record_def skip_close_record)
next
  case False
  have "tlv_record_body t v @ rest = be_bytes 2 t @ be_bytes 2 (length v) @ v @ be_bytes 2 t @ rest"
    using False by (simp add: tlv_record_body_def)
  with assms False show ?thesis
    by (simp add: tlv_step_short_form ok_record_def skip_close_record)
qed

lemma tlv_step_terminator: "tlv_step (tlv_end @ x # y # rest) = T_Terminator"
  by (simp add: tlv_step_def py_slice_def be_val_def)

lemma tlv_records_Cons: "tlv_records ((t, v) # rs) = tlv_record_body t v @ tlv_records rs"
  by (simp add: tlv_records_def)

lemma tlv_records_Nil [simp]: "tlv_records [] = []"
  by (simp add: tlv_records_def)

lemma tlv_records_append: "tlv_records (rs @ ss) = tlv_records rs @ tlv_records ss"
  by (simp add: tlv_records_def)

lemma parse_tlv_stream_from_records:
  assumes "\<forall>r \<in> set rs. ok_record r"
  shows "parse_tlv_stream_from out (tlv_records rs @ rest)
       = parse_tlv_stream_from (out ++ map_of (rev rs)) rest"
  using assms
proof (induction rs arbitrary: out)
  case Nil
  then show ?case by simp
next
  case (Cons r rs)
  obtain t v where r: "r = (t, v)" by (cases r)
  have "parse_tlv_stream_from out (tlv_records (r # rs) @ rest)
      = parse_tlv_stream_from (out(t \<mapsto> v)) (tlv_records rs @ rest)"
    using Cons.prems r
    by (subst parse_tlv_stream_from.simps) (simp add: tlv_records_Cons tlv_step_record)
  also have "\<dots> = parse_tlv_stream_from (out(t \<mapsto> v) ++ map_of (rev rs)) rest"
    using Cons by simp
  also have "out(t \<mapsto> v) ++ map_of (rev rs) = out ++ map_of (rev (r # rs))"
    by (simp add: r map_of_append)
  finally show ?case .
qed

lemma parse_tlv_stream_from_terminator:
  "parse_tlv_stream_from out (tlv_end @ x # y # rest) = Inr out"
  by (simp add: parse_tlv_stream_from.simps tlv_step_terminator del: append.simps)

lemma parse_tlv_stream_written:
  assumes "\<forall>r \<in> set rs. ok_record r"
  shows "parse_tlv_stream (tlv_records rs @ tlv_end @ x # y # rest) = Inr (map_of (rev rs))"
  using assms
  by (simp add: parse_tlv_stream_def parse_tlv_stream_from_records parse_tlv_stream_from_terminator
      del: append.simps)

text \<open>On short records the two parsers agree.\<close>

lemma tlv_step_simple_record:
  assumes "ok_record (t, v)" and "length v < 0xFFFF"
  shows "tlv_step_simple (tlv_record_body t v @ rest) = T_Record t 4 v rest"
proof -
  have "tlv_record_body t v @ rest = be_bytes 2 t @ be_bytes 2 (length v) @ v @ be_bytes 2 t @ rest"
    using assms(2) by (simp add: tlv_record_body_def)
  with assms show ?thesis
    by (simp add: tlv_step_simple_def ok_record_def py_slice_def skip_close_def)
qed

lemma session_parse_tlv_from_records:
  assumes "\<forall>r \<in> set rs. ok_record r \<and> length (snd r) < 0xFFFF"
  shows "session_parse_tlv_from out (tlv_records rs @ rest)
       = session_parse_tlv_from (out ++ map_of (rev rs)) rest"
  using assms
proof (induction rs arbitrary: out)
  case Nil
  then show ?case by simp
next
  case (Cons r rs)
  obtain t v where r: "r = (t, v)" by (cases r)
  have "session_parse_tlv_from out (tlv_records (r # rs) @ rest)
      = session_parse_tlv_from (out(t \<mapsto> v)) (tlv_records rs @ rest)"
    using Cons.prems r
    by (subst session_parse_tlv_from.simps) (simp add: tlv_records_Cons tlv_step_simple_record)
  also have "\<dots> = session_parse_tlv_from (out(t \<mapsto> v) ++ map_of (rev rs)) rest"
    using Cons by simp
  also have "out(t \<mapsto> v) ++ map_of (rev rs) = out ++ map_of (rev (r # rs))"
    by (simp add: r map_of_append)
  finally show ?case .
qed

section \<open>Status of a stream and of its prefixes\<close>

lemma tlv_step_few: "length d < 4 \<Longrightarrow> tlv_step d = T_End"
  by (simp add: tlv_step_def)

lemma tlv_step_no_length: "t < 0xFFFF \<Longrightarrow> length r < 4 \<Longrightarrow>
    tlv_step (be_bytes 2 t @ be_bytes 2 0xFFFF @ r) = T_Short t"
  by (simp add: tlv_step_def py_slice_def)

text \<open>A record cut short either stops the walk or leaves at most one byte of its close tag.\<close>

lemma take_headed: "length h \<le> k \<Longrightarrow> take k (h @ r) = h @ take (k - length h) r"
  by simp

lemma tlv_step_prefix_record:
  assumes ok: "ok_record (t, v)" and k: "k < length (tlv_record_body t v)"
  shows "tlv_step (take k (tlv_record_body t v)) \<in> {T_End, T_Short t, T_Overrun t} \<or>
    (\<exists>h rest. tlv_step (take k (tlv_record_body t v)) = T_Record t h v rest \<and> length rest < 4)"
proof (cases "k < 4")
  case True
  then show ?thesis by (simp add: tlv_step_few)
next
  case k4: False
  let ?r = "v @ be_bytes 2 t"
  have close: "length (skip_close t (drop n (take j ?r))) < 4" if "length v \<le> n" for n j
    using that by (intro le_less_trans [OF length_skip_close]) auto
  show ?thesis
  proof (cases "length v \<ge> 0xFFFF")
    case False
    have "take k (tlv_record_body t v) = be_bytes 2 t @ be_bytes 2 (length v) @ take (k - 4) ?r"
      using False k4 by (simp add: tlv_record_body_def)
    with ok False close [of "length v" "k - 4"] show ?thesis
      by (auto simp: tlv_step_short_form ok_record_def)
  next
    case True
    show ?thesis
    proof (cases "k < 8")
      case k8: True
      have "take k (tlv_record_body t v)
          = be_bytes 2 t @ be_bytes 2 0xFFFF @ take (k - 4) (be_bytes 4 (length v) @ ?r)"
        using True k4 by (simp add: tlv_record_body_def)
      with ok k8 show ?thesis
        by (simp add: tlv_step_no_length ok_record_def del: take_append)
    next
      case k8: False
      have "take k (tlv_record_body t v)
          = be_bytes 2 t @ be_bytes 2 0xFFFF @ be_bytes 4 (length v) @ take (k - 8) ?r"
        using True k8 by (simp add: tlv_record_body_def)
      with ok True close [of "length v" "k - 8"] show ?thesis
        by (auto simp: tlv_step_long_form ok_record_def)
    qed
  qed
qed

lemma status_prefix_record:
  assumes "ok_record (t, v)" and "k < length (tlv_record_body t v)"
  shows "tlv_stream_status_from True (take k (tlv_record_body t v)) = Truncated"
  using tlv_step_prefix_record [OF assms]
  by (auto simp: tlv_stream_status_from.simps [of True] tlv_step_few)

lemma status_records:
  assumes "\<forall>r \<in> set rs. ok_record r"
  shows "tlv_stream_status_from b (tlv_records rs @ rest)
       = tlv_stream_status_from (b \<or> rs \<noteq> []) rest"
  using assms
proof (induction rs arbitrary: b)
  case Nil
  then show ?case by simp
next
  case (Cons r rs)
  obtain t v where r: "r = (t, v)" by (cases r)
  have "tlv_stream_status_from b (tlv_records (r # rs) @ rest)
      = tlv_stream_status_from True (tlv_records rs @ rest)"
    using Cons.prems r
    by (subst tlv_stream_status_from.simps) (simp add: tlv_records_Cons tlv_step_record)
  with Cons show ?case by simp
qed

lemma status_terminated:
  "tlv_stream_status_from b (tlv_end @ x # y # rest) = Complete"
  by (simp add: tlv_stream_status_from.simps tlv_step_terminator del: append.simps)

text \<open>A proper prefix of a stream that holds its first record is in sync and short.\<close>

lemma status_proper_prefix:
  assumes "\<forall>r \<in> set rs. ok_record r" and "k < length (tlv_records rs) + 4"
  shows "tlv_stream_status_from True (take k (tlv_records rs @ tlv_end @ [x, y] @ rest)) = Truncated"
  using assms
proof (induction rs arbitrary: k)
  case Nil
  then show ?case
    by (subst tlv_stream_status_from.simps) (simp add: tlv_step_few)
next
  case (Cons r rs)
  obtain t v where r: "r = (t, v)" by (cases r)
  have ok: "ok_record (t, v)" using Cons.prems r by simp
  let ?b = "tlv_record_body t v" and ?tl = "tlv_records rs @ tlv_end @ [x, y] @ rest"
  show ?case
  proof (cases "k < length ?b")
    case True
    then have "take k (tlv_records (r # rs) @ tlv_end @ [x, y] @ rest) = take k ?b"
      by (simp add: r tlv_records_Cons)
    with status_prefix_record [OF ok True] show ?thesis by simp
  next
    case False
    then have "take k (tlv_records (r # rs) @ tlv_end @ [x, y] @ rest)
        = tlv_records [r] @ take (k - length ?b) ?tl"
      by (simp add: r tlv_records_Cons)
    moreover have "tlv_stream_status_from True (take (k - length ?b) ?tl) = Truncated"
      using Cons.prems False by (intro Cons.IH) (auto simp: r tlv_records_Cons)
    ultimately show ?thesis
      using Cons.prems status_records [of "[r]" True] by simp
  qed
qed

section \<open>Properties\<close>

lemma written_bodies:
  assumes "\<forall>(t, v) \<in> set rs. t < 0xFFFF" and "seq_res (map (\<lambda>(t, v). tlv_record t v) rs) = Inr bodies"
  shows "concat bodies = tlv_records rs" and "\<forall>r \<in> set rs. ok_record r"
proof -
  have "concat bodies = tlv_records rs \<and> (\<forall>r \<in> set rs. ok_record r)"
    using assms
  proof (induction rs arbitrary: bodies)
    case (Cons r rs)
    obtain t v where r: "r = (t, v)" by fastforce
    obtain b bs where b: "tlv_record t v = Inr b" "bodies = b # bs"
        "seq_res (map (\<lambda>(t, v). tlv_record t v) rs) = Inr bs"
      using Cons.prems(2) by (auto simp: r seq_res_Inr_Cons)
    then show ?case
      using Cons.IH [OF _ b(3)] Cons.prems(1)
      by (auto simp: r tlv_record_def tlv_records_Cons ok_record_def split: if_splits)
  qed simp
  then show "concat bodies = tlv_records rs" and "\<forall>r \<in> set rs. ok_record r" by blast+
qed

text \<open>The response parser reads what the record writer wrote.  For every list of records with
  tags below 0xFFFF that the writer accepts (values past 65534 bytes in the extended length form
  included), the written stream followed by a terminator and anything after it parses to the map
  of the records in which the last value of a repeated tag wins.\<close>

lemma records_parse_back:
  assumes "\<forall>(t, v) \<in> set rs. t < 0xFFFF" and "seq_res (map (\<lambda>(t, v). tlv_record t v) rs) = Inr bodies"
  shows "parse_tlv_stream (concat bodies @ tlv_end @ x # y # rest) = Inr (map_of (rev rs))"
  using parse_tlv_stream_written [OF written_bodies(2) [OF assms]] written_bodies(1) [OF assms]
  by presburger

end
