(* ===== verification/Language_Codes.thy ===== *)
theory Language_Codes
  imports Rfc_Exceptions
begin

text \<open>
  \<^verbatim>\<open>src/saprfclib/language.py\<close>: the conversion between one-character SAP language codes and
  two-character ISO codes, and the normalisation of the logon language.  The upper-casing of
  code points outside ASCII is the parameter \<open>uc\<close>.
\<close>

section \<open>The table\<close>

definition sap_to_iso_table :: "(string \<times> string) list" where
  "sap_to_iso_table =
    [(''A'', ''AR''), (''B'', ''HE''), (''C'', ''CS''), (''D'', ''DE''), (''E'', ''EN''),
     (''F'', ''FR''), (''G'', ''EL''), (''H'', ''HU''), (''I'', ''IT''), (''J'', ''JA''),
     (''K'', ''DA''), (''L'', ''PL''), (''M'', ''ZF''), (''N'', ''NL''), (''O'', ''NO''),
     (''P'', ''PT''), (''Q'', ''SK''), (''R'', ''RU''), (''S'', ''ES''), (''T'', ''TR''),
     (''U'', ''FI''), (''V'', ''SV''), (''W'', ''BG''), (''X'', ''LT''), (''Y'', ''LV''),
     (''0'', ''SR''), (''1'', ''ZH''), (''2'', ''TH''), (''3'', ''KO''), (''4'', ''RO''),
     (''5'', ''SL''), (''6'', ''HR''), (''7'', ''MS''), (''8'', ''UK''), (''9'', ''ET'')]"

definition SAP_TO_ISO :: "pystr \<rightharpoonup> pystr" where
  "SAP_TO_ISO = map_of (map (\<lambda>(s, i). (lit s, lit i)) sap_to_iso_table)"

text \<open>A dict comprehension over the inverted pairs: a later pair would win.\<close>

definition ISO_TO_SAP :: "pystr \<rightharpoonup> pystr" where
  "ISO_TO_SAP = map_of (rev (map (\<lambda>(s, i). (lit i, lit s)) sap_to_iso_table))"

section \<open>The conversions\<close>

definition language_iso_to_sap :: "(nat \<Rightarrow> pystr) \<Rightarrow> pystr \<Rightarrow> pystr res" where
  "language_iso_to_sap uc iso_code =
     (let code = py_upper uc (py_strip iso_code) in
      if length code \<noteq> 2 then Inl ValueError
      else opt_res ValueError (ISO_TO_SAP code))"

definition language_sap_to_iso :: "(nat \<Rightarrow> pystr) \<Rightarrow> pystr \<Rightarrow> pystr res" where
  "language_sap_to_iso uc sap_code =
     (let code = py_upper uc (py_strip sap_code) in
      if length code \<noteq> 1 then Inl ValueError
      else opt_res ValueError (SAP_TO_ISO code))"

definition normalize_logon_language :: "(nat \<Rightarrow> pystr) \<Rightarrow> pystr \<Rightarrow> pystr res" where
  "normalize_logon_language uc lang =
     (let code = py_upper uc (py_strip lang) in
      if length code = 2 then
        bind_res (language_iso_to_sap uc code)
          (\<lambda>c. if is_ascii c then Inr c else Inl ValueError)
      else if length code \<noteq> 1 then Inl ValueError
      else if is_ascii code then Inr code else Inl ValueError)"

text \<open>\<^verbatim>\<open>connection._encode_logon_language\<close>\<close>

definition encode_logon_language :: "(nat \<Rightarrow> pystr) \<Rightarrow> pystr \<Rightarrow> bytes res" where
  "encode_logon_language uc lang =
     bind_res (normalize_logon_language uc lang) (\<lambda>c. opt_res UnicodeError (ascii_encode c))"

section \<open>Facts of the table\<close>

lemma table_entries:
  "\<forall>(s, i) \<in> set sap_to_iso_table.
     length s = 1 \<and> length i = 2 \<and> is_ascii (lit s) \<and>
     py_upper uc (py_strip (lit i)) = lit i \<and> py_upper uc (py_strip (lit s)) = lit s"
  by (simp add: sap_to_iso_table_def is_ascii_def py_upper_def upper_cp_def strip_by_def
      lstrip_by_def rstrip_by_def is_space_def ws_chars_def)

lemma distinct_sap: "distinct (map fst sap_to_iso_table)"
  by (simp add: sap_to_iso_table_def)

lemma distinct_iso: "distinct (map snd sap_to_iso_table)"
  by (simp add: sap_to_iso_table_def)

lemma inj_lit: "inj (lit :: string \<Rightarrow> pystr)"
  by (rule inj_mapI) (simp add: inj_def)

lemma SAP_TO_ISO_iff:
  "SAP_TO_ISO c = Some d \<longleftrightarrow> (\<exists>(s, i) \<in> set sap_to_iso_table. c = lit s \<and> d = lit i)"
proof -
  have "distinct (map fst (map (\<lambda>(s, i). (lit s, lit i)) sap_to_iso_table))"
    using distinct_sap inj_lit
    by (simp add: comp_def case_prod_beta distinct_map inj_on_def inj_def)
  then show ?thesis
    by (auto simp: SAP_TO_ISO_def map_of_eq_Some_iff)
qed

lemma ISO_TO_SAP_iff:
  "ISO_TO_SAP d = Some c \<longleftrightarrow> (\<exists>(s, i) \<in> set sap_to_iso_table. c = lit s \<and> d = lit i)"
proof -
  have "distinct (map fst (rev (map (\<lambda>(s, i). (lit i, lit s)) sap_to_iso_table)))"
    using distinct_iso inj_lit
    by (simp add: comp_def case_prod_beta rev_map [symmetric] distinct_map inj_on_def inj_def)
  then show ?thesis
    by (auto simp: ISO_TO_SAP_def map_of_eq_Some_iff)
qed

lemma tables_inverse: "SAP_TO_ISO c = Some d \<longleftrightarrow> ISO_TO_SAP d = Some c"
  by (simp only: SAP_TO_ISO_iff ISO_TO_SAP_iff)

lemma ISO_TO_SAP_shape:
  "ISO_TO_SAP d = Some c \<Longrightarrow>
     length c = 1 \<and> length d = 2 \<and> is_ascii c \<and>
     py_upper uc (py_strip c) = c \<and> py_upper uc (py_strip d) = d"
  using table_entries [of uc] by (force simp: ISO_TO_SAP_iff)

lemma iso_to_sap_then_back:
  assumes "language_iso_to_sap uc d = Inr c"
  shows "language_sap_to_iso uc c = Inr (py_upper uc (py_strip d))"
proof -
  from assms have "ISO_TO_SAP (py_upper uc (py_strip d)) = Some c"
    by (auto simp: language_iso_to_sap_def Let_def opt_res_def split: if_splits option.splits)
  then have "SAP_TO_ISO c = Some (py_upper uc (py_strip d))" and "length c = 1 \<and>
      py_upper uc (py_strip c) = c"
    using ISO_TO_SAP_shape [of "py_upper uc (py_strip d)" c uc] by (simp_all add: tables_inverse)
  then show ?thesis by (simp add: language_sap_to_iso_def)
qed

lemma sap_to_iso_then_back:
  assumes "language_sap_to_iso uc c = Inr d"
  shows "language_iso_to_sap uc d = Inr (py_upper uc (py_strip c))"
proof -
  from assms have "SAP_TO_ISO (py_upper uc (py_strip c)) = Some d"
    by (auto simp: language_sap_to_iso_def Let_def opt_res_def split: if_splits option.splits)
  then have i: "ISO_TO_SAP d = Some (py_upper uc (py_strip c))"
    by (simp add: tables_inverse)
  with ISO_TO_SAP_shape [OF i, of uc] show ?thesis
    by (simp add: language_iso_to_sap_def)
qed

text \<open>Whatever form the caller gives, the logon records carry exactly one byte.\<close>

lemma normalize_one_char:
  "normalize_logon_language uc lang = Inr c \<Longrightarrow> \<exists>x < 128. c = [x]"
proof -
  assume n: "normalize_logon_language uc lang = Inr c"
  then have "length c = 1 \<and> is_ascii c"
    by (auto simp: normalize_logon_language_def Let_def bind_res_Inr language_iso_to_sap_def
        opt_res_def dest: ISO_TO_SAP_shape [of _ _ uc] split: if_splits option.splits)
  then show ?thesis
    by (cases c) (auto simp: is_ascii_def)
qed

lemma encode_logon_language_one_byte:
  "encode_logon_language uc lang = Inr bs \<Longrightarrow> length bs = 1"
  by (auto simp: encode_logon_language_def bind_res_Inr opt_res_def ascii_encode_def
      dest!: normalize_one_char split: option.splits if_splits)

lemma encode_logon_language_no_unicode_error:
  "encode_logon_language uc lang \<noteq> Inl UnicodeError"
  by (cases "normalize_logon_language uc lang")
     (auto simp: encode_logon_language_def ascii_encode_def is_ascii_def
       normalize_logon_language_def language_iso_to_sap_def Let_def opt_res_def
       dest: normalize_one_char split: if_splits option.splits)

section \<open>Properties\<close>

text \<open>The language codes convert back and forth.  Whatever a conversion accepts, the conversion in
  the other direction accepts its result and gives the trimmed, upper case code it started from;
  and a logon language that is accepted is encoded as exactly one ASCII byte.\<close>

theorem language_codes_inverse:
  "(language_iso_to_sap uc d = Inr c \<longrightarrow> language_sap_to_iso uc c = Inr (py_upper uc (py_strip d))) \<and>
   (language_sap_to_iso uc c = Inr d \<longrightarrow> language_iso_to_sap uc d = Inr (py_upper uc (py_strip c))) \<and>
   (\<forall>bs. encode_logon_language uc lang = Inr bs \<longrightarrow> length bs = 1)"
  using iso_to_sap_then_back sap_to_iso_then_back encode_logon_language_one_byte by blast

end
