(* ===== verification/Scramble.thy ===== *)
theory Scramble
  imports Rfc_Exceptions
begin

unbundle bit_operations_syntax

text \<open>
  The password scrambling of \<^verbatim>\<open>src/saprfclib/connection.py\<close>, on 32-bit words as the source
  masks them.  The source updates a buffer in place; here the scrambled bytes are returned.  The
  random seed is an argument.
\<close>

definition AB_SCRAMBLE_KT :: "byte list" where
  "AB_SCRAMBLE_KT =
     [0xf0, 0xed, 0x53, 0xb8, 0x32, 0x44, 0xf1, 0xf8, 0x76, 0xc6, 0x79, 0x59, 0xfd, 0x4f, 0x13, 0xa2,
      0xc1, 0x51, 0x95, 0xec, 0x54, 0x83, 0xc2, 0x34, 0x77, 0x49, 0x43, 0xa2, 0x7d, 0xe2, 0x65, 0x96,
      0x5e, 0x53, 0x98, 0x78, 0x9a, 0x17, 0xa3, 0x3c, 0xd3, 0x83, 0xa8, 0xb8, 0x29, 0xfb, 0xdc, 0xa5,
      0x55, 0xd7, 0x02, 0x77, 0x84, 0x13, 0xac, 0xdd, 0xf9, 0xb8, 0x31, 0x16, 0x61, 0x0e, 0x6d, 0xfa]"

fun scramble_from :: "32 word \<Rightarrow> nat \<Rightarrow> 32 word \<Rightarrow> nat \<Rightarrow> bytes \<Rightarrow> bytes" where
  "scramble_from seed k ck i [] = []"
| "scramble_from seed k ck i (b # bs) =
     (b XOR (ucast (ck * word_of_nat i) XOR AB_SCRAMBLE_KT ! k))
       # scramble_from seed ((k + 1) mod 64) (ck + seed) (i + 1) bs"

definition scramble_index :: "32 word \<Rightarrow> nat" where
  "scramble_index seed = unat ((drop_bit 5 seed XOR seed * 2 XOR seed) AND 0x3F)"

definition ab_scramble :: "bytes \<Rightarrow> 32 word \<Rightarrow> bytes" where
  "ab_scramble buf seed = scramble_from seed (scramble_index seed) 0xFFFFFFFF 0 buf"

definition latin1_replace :: "pystr \<Rightarrow> bytes" where
  "latin1_replace s = map (\<lambda>c. if c < 256 then word_of_nat c else 63) s"

definition latin1_encode :: "pystr \<Rightarrow> bytes option" where
  "latin1_encode s = (if \<forall>c \<in> set s. c < 256 then Some (map word_of_nat s) else None)"

definition scramble_password :: "pystr \<Rightarrow> 32 word \<Rightarrow> bytes" where
  "scramble_password passwd seed = le_bytes 4 (unat seed) @ ab_scramble (latin1_replace passwd) seed"

definition scramble_password_ws :: "pystr \<Rightarrow> 32 word \<Rightarrow> bytes res" where
  "scramble_password_ws passwd seed =
     map_res (\<lambda>body. le_bytes 4 (unat seed) @ ab_scramble body seed)
       (opt_res UnicodeError (latin1_encode passwd))"

section \<open>Scrambling twice is the identity\<close>

lemma scramble_from_twice: "scramble_from seed k ck i (scramble_from seed k ck i buf) = buf"
  by (induction buf arbitrary: k ck i) (simp_all add: xor.assoc)

lemma ab_scramble_twice: "ab_scramble (ab_scramble buf seed) seed = buf"
  by (simp add: ab_scramble_def scramble_from_twice)

lemma length_scramble_from [simp]: "length (scramble_from seed k ck i buf) = length buf"
  by (induction buf arbitrary: k ck i) auto

lemma length_ab_scramble [simp]: "length (ab_scramble buf seed) = length buf"
  by (simp add: ab_scramble_def)

lemma scramble_index_less: "scramble_index seed < 64"
proof -
  have "unat (w AND 0x3F) \<le> unat (0x3F :: 32 word)" for w :: "32 word"
    by (rule word_le_nat_alt [THEN iffD1]) (rule word_and_le1)
  then show ?thesis
    unfolding scramble_index_def by (rule le_less_trans) simp
qed

text \<open>The seed in front of the body is what the receiver reads back.\<close>

lemma scramble_password_seed:
  "le_val (take 4 (scramble_password p seed)) = unat seed"
proof -
  have "unat seed < 2 ^ LENGTH(32)" by (rule unsigned_less)
  then show ?thesis by (simp add: scramble_password_def)
qed

end
