(* ===== verification/Rfc_Errors.thy ===== *)
theory Rfc_Errors
  imports Tlv_Stream
begin

text \<open>
  The classification of a reply's errors in \<^verbatim>\<open>src/saprfclib/invoke.py\<close>: the width-detecting
  decoder of error texts, the gateway's error record, and \<^verbatim>\<open>raise_for_rfc_error\<close>.  The
  replacing UTF-8 decoder is the parameter \<open>u8\<close>; of the two diagnostics for an unreadable
  reply only the exception's class is kept.
\<close>

section \<open>Tags\<close>

definition TAG_EXCEPTION_NUMBER :: nat where "TAG_EXCEPTION_NUMBER = 0x0417"
definition TAG_EXCEPTION_KEY :: nat where "TAG_EXCEPTION_KEY = 0x0401"
definition TAG_EXCEPTION_KEY_ALT :: nat where "TAG_EXCEPTION_KEY_ALT = 0x0403"
definition TAG_EXCEPTION_MSG_CLASS :: nat where "TAG_EXCEPTION_MSG_CLASS = 0x0415"
definition TAG_EXCEPTION_MSG_TYPE :: nat where "TAG_EXCEPTION_MSG_TYPE = 0x0416"
definition TAG_EXCEPTION_MSG_NUMBER :: nat where "TAG_EXCEPTION_MSG_NUMBER = 0x0417"
definition TAG_EXCEPTION_MSG_V1 :: nat where "TAG_EXCEPTION_MSG_V1 = 0x0411"
definition TAG_EXCEPTION_MSG_V2 :: nat where "TAG_EXCEPTION_MSG_V2 = 0x0412"
definition TAG_EXCEPTION_MSG_V3 :: nat where "TAG_EXCEPTION_MSG_V3 = 0x0413"
definition TAG_EXCEPTION_MSG_V4 :: nat where "TAG_EXCEPTION_MSG_V4 = 0x0414"
definition TAG_EXCEPTION_TEXT :: nat where "TAG_EXCEPTION_TEXT = 0x0402"
definition TAG_RETURN_CODE :: nat where "TAG_RETURN_CODE = 0x0420"

lemmas error_tag_defs =
  TAG_EXCEPTION_NUMBER_def TAG_EXCEPTION_KEY_def TAG_EXCEPTION_KEY_ALT_def
  TAG_EXCEPTION_MSG_CLASS_def TAG_EXCEPTION_MSG_TYPE_def TAG_EXCEPTION_MSG_NUMBER_def
  TAG_EXCEPTION_MSG_V1_def TAG_EXCEPTION_MSG_V2_def TAG_EXCEPTION_MSG_V3_def
  TAG_EXCEPTION_MSG_V4_def TAG_EXCEPTION_TEXT_def TAG_RETURN_CODE_def

section \<open>Text decoders\<close>

definition is_pad :: "nat \<Rightarrow> bool" where
  "is_pad c \<longleftrightarrow> c = 0 \<or> c = 32"

definition decode_ascii :: "bytes option \<Rightarrow> pystr" where
  "decode_ascii value =
     (case value of None \<Rightarrow> [] | Some v \<Rightarrow> rstrip_by is_pad (ascii_replace v))"

definition decode_utf16le :: "bytes option \<Rightarrow> pystr" where
  "decode_utf16le value =
     (case value of None \<Rightarrow> []
      | Some v \<Rightarrow>
          if even (length v)
          then (case utf16le_decode v of
                  Some s \<Rightarrow> rstrip_by is_pad s
                | None \<Rightarrow> rstrip_by is_pad (ascii_replace v))
          else rstrip_by is_pad (ascii_replace v))"

text \<open>\<^verbatim>\<open>value[1::2]\<close>\<close>

fun odd_bytes :: "'a list \<Rightarrow> 'a list" where
  "odd_bytes (a # b # xs) = b # odd_bytes xs"
| "odd_bytes xs = []"

definition decode_error_text :: "bytes option \<Rightarrow> pystr" where
  "decode_error_text value =
     (case value of None \<Rightarrow> []
      | Some v \<Rightarrow>
          if v = [] then []
          else if 2 \<le> length v \<and> even (length v) \<and> (\<forall>b \<in> set (odd_bytes v). b = 0)
          then (case utf16le_decode v of Some s \<Rightarrow> rstrip_by is_pad s | None \<Rightarrow> [])
          else rstrip_by is_pad (latin1_decode v))"

section \<open>The gateway's error record\<close>

definition GATEWAY_ERROR_MARKER :: bytes where "GATEWAY_ERROR_MARKER = blit ''*ERR*''"

definition parse_gateway_error :: "(bytes \<Rightarrow> pystr) \<Rightarrow> bytes \<Rightarrow> pystr option" where
  "parse_gateway_error u8 payload =
     (if \<not> starts_with GATEWAY_ERROR_MARKER payload then None
      else
        let fields = split_on 0 payload;
            parts = filter (\<lambda>t. t \<noteq> [])
              (map (\<lambda>i. py_strip (u8 (fields ! i))) (filter (\<lambda>i. i < length fields) [2, 4, 5]))
        in if parts \<noteq> [] then Some (join_with (lit '' | '') parts)
           else Some (take 200 (u8 payload)))"

section \<open>Classification\<close>

definition or_none :: "pystr \<Rightarrow> pystr option" where
  "or_none s = (if s = [] then None else Some s)"

definition error_info :: "(nat \<rightharpoonup> bytes) \<Rightarrow> pystr option \<Rightarrow> pystr option \<Rightarrow> abap_info" where
  "error_info tags k m =
     \<lparr>key = k,
      msg_class = or_none (decode_error_text (tags TAG_EXCEPTION_MSG_CLASS)),
      msg_type = or_none (decode_error_text (tags TAG_EXCEPTION_MSG_TYPE)),
      msg_number = or_none (decode_error_text (tags TAG_EXCEPTION_MSG_NUMBER)),
      msg_v1 = or_none (decode_error_text (tags TAG_EXCEPTION_MSG_V1)),
      msg_v2 = or_none (decode_error_text (tags TAG_EXCEPTION_MSG_V2)),
      msg_v3 = or_none (decode_error_text (tags TAG_EXCEPTION_MSG_V3)),
      msg_v4 = or_none (decode_error_text (tags TAG_EXCEPTION_MSG_V4)),
      message = m\<rparr>"

definition raise_for_tags :: "(nat \<rightharpoonup> bytes) \<Rightarrow> unit res" where
  "raise_for_tags tags =
     (if tags TAG_EXCEPTION_NUMBER \<noteq> None then
        let key1 = decode_error_text (tags TAG_EXCEPTION_KEY);
            key2 = (if key1 \<noteq> [] then key1 else decode_error_text (tags TAG_EXCEPTION_KEY_ALT))
        in Inl (AbapApplicationError
             (error_info tags (or_none key2) (or_none (decode_error_text (tags TAG_EXCEPTION_TEXT)))))
      else
        (case tags TAG_RETURN_CODE of
           None \<Rightarrow> Inr ()
         | Some rc \<Rightarrow>
             if length rc \<noteq> 4 then Inl ValueError
             else if be_val rc \<noteq> 0 then
               let text = decode_error_text (tags TAG_EXCEPTION_TEXT) in
               Inl (AbapSystemFailure (error_info tags None
                 (Some (if text \<noteq> [] then text
                        else lit ''RFC return code '' @ dec_digits (be_val rc)))))
             else Inr ()))"

definition raise_for_rfc_error ::
  "(bytes \<Rightarrow> pystr) \<Rightarrow> bytes \<Rightarrow> (nat \<rightharpoonup> bytes) option \<Rightarrow> unit res" where
  "raise_for_rfc_error u8 resp pre =
     (case parse_gateway_error u8 resp of
        Some text \<Rightarrow> Inl (CommunicationError
          (lit ''the SAP gateway rejected the frame: '' @ text @
           lit ''. The conversation is gone; this connection should be discarded rather than retried.''))
      | None \<Rightarrow>
          (case pre of
             Some tags \<Rightarrow> raise_for_tags tags
           | None \<Rightarrow>
               (case parse_tlv_stream resp of
                  Inl e \<Rightarrow> Inl (CommunicationError (lit ''the response is not a readable RFC message''))
                | Inr tags \<Rightarrow> raise_for_tags tags)))"

section \<open>Lemmas\<close>

lemma even_length_induct [consumes 1, case_names Nil Two]:
  assumes "even (length xs)" and "P []"
    and "\<And>a b ys. even (length ys) \<Longrightarrow> P ys \<Longrightarrow> P (a # b # ys)"
  shows "P xs"
  using assms(1)
proof (induction xs rule: length_induct)
  case (1 xs)
  show ?case
  proof (cases xs rule: odd_bytes.cases)
    case (1 a b ys)
    then show ?thesis using "1.prems" "1.IH" assms(3) by simp
  qed (use assms(2) "1.prems" in auto)
qed

lemma utf16le_decode_single_byte:
  assumes "even (length v)" and "\<forall>b \<in> set (odd_bytes v). b = 0"
  shows "\<exists>s. utf16le_decode v = Some s"
proof -
  have "\<exists>us. units_of_le v = Some us \<and> (\<forall>u \<in> set us. u < 256)"
    using assms by (induction v rule: even_length_induct) auto
  moreover have "utf16_cps us = Some us" if "\<forall>u \<in> set us. u < 256" for us
    using that by (induction us) (auto simp: is_surrogate_def)
  ultimately show ?thesis
    by (auto simp: utf16le_decode_def)
qed

text \<open>Both widths of an ASCII text decode to the text.\<close>

lemma utf16_units_ascii: "is_ascii s \<Longrightarrow> utf16_units s = Some s"
  by (induction s) (auto simp: is_ascii_def is_surrogate_def)

lemma odd_bytes_units:
  "odd_bytes (concat (map (le_bytes 2) us)) = map (\<lambda>u. word_of_nat (u div 256)) us"
  by (induction us) (simp_all add: numeral_2_eq_2)

lemma narrow_units:
  "utf16_units s = Some us \<Longrightarrow> (\<forall>u \<in> set us. u < 256) \<longleftrightarrow> (\<forall>c \<in> set s. c < 256)"
proof (induction s arbitrary: us)
  case (Cons c s)
  then show ?case by (auto split: if_splits option.splits)
qed simp

text \<open>A text written in UTF-16 is read back if none of its characters needs the high byte, and as noise otherwise.\<close>

lemma decode_error_text_written:
  assumes "utf16le_encode s = Some v"
  shows "decode_error_text (Some v) = rstrip_by is_pad (if \<forall>c \<in> set s. c < 256 then s else latin1_decode v)"
proof -
  obtain us where us: "utf16_units s = Some us" "v = concat (map (le_bytes 2) us)"
    using assms by (auto simp: utf16le_encode_def)
  have dec: "utf16le_decode v = Some s" using assms by (rule utf16le_roundtrip)
  have "word_of_nat (u div 256) = (0 :: byte) \<longleftrightarrow> u < 256" if "u \<in> set us" for u
  proof -
    have "u div 256 < 256" using utf16_units_bound [OF us(1) that] by simp
    then have "256 dvd u div 256 \<longleftrightarrow> u div 256 = 0" by (auto dest: dvd_imp_le)
    then show ?thesis by (simp add: word_of_nat_eq_0_iff div_eq_0_iff)
  qed
  then have "(\<forall>b \<in> set (odd_bytes v). b = 0) \<longleftrightarrow> (\<forall>u \<in> set us. u < 256)"
    unfolding us(2) odd_bytes_units by auto
  also have "\<dots> \<longleftrightarrow> (\<forall>c \<in> set s. c < 256)" by (rule narrow_units [OF us(1)])
  finally have n: "(\<forall>b \<in> set (odd_bytes v). b = 0) \<longleftrightarrow> (\<forall>c \<in> set s. c < 256)" .
  show ?thesis
  proof (cases "us = []")
    case True
    with us have "s = []" by (cases s) (auto split: if_splits option.splits)
    with True show ?thesis by (simp add: decode_error_text_def us(2) rstrip_by_def)
  next
    case False
    then have "1 \<le> length us" by (cases us) simp_all
    moreover have "length v = 2 * length us" by (simp add: us(2) length_concat comp_def sum_list_triv)
    ultimately have "v \<noteq> []" "2 \<le> length v" "even (length v)" by (auto simp: Suc_le_eq)
    moreover have "(2 \<le> length v \<and> even (length v) \<and> (\<forall>b \<in> set (odd_bytes v). b = 0)) \<longleftrightarrow> (\<forall>c \<in> set s. c < 256)"
      using n calculation by blast
    ultimately show ?thesis
      unfolding decode_error_text_def option.case by (simp only: if_False dec option.case if_distrib [of "rstrip_by is_pad"])
  qed
qed

lemma decode_error_text_utf16:
  assumes "is_ascii s" and "utf16le_encode s = Some v"
  shows "decode_error_text (Some v) = rstrip_by is_pad s"
  using decode_error_text_written [OF assms(2)] assms(1) by (auto simp: is_ascii_def split: if_splits)

lemma raise_for_tags_cases:
  "raise_for_tags tags = Inr () \<longleftrightarrow>
     tags TAG_EXCEPTION_NUMBER = None \<and>
     (case tags TAG_RETURN_CODE of None \<Rightarrow> True | Some rc \<Rightarrow> rc = [0, 0, 0, 0])"
proof (cases "tags TAG_EXCEPTION_NUMBER")
  case None
  show ?thesis
  proof (cases "tags TAG_RETURN_CODE")
    case (Some rc)
    have "rc = [0, 0, 0, 0]" if "length rc = 4" "be_val rc = 0"
    proof -
      have "rc = be_bytes 4 0" using be_bytes_be_val [OF that(1)] that(2) by simp
      moreover have "be_bytes 4 0 = [0, 0, 0, 0]" by code_simp
      ultimately show ?thesis by simp
    qed
    moreover have "be_val [0, 0, 0, 0] = 0" by (simp add: be_val_def)
    ultimately show ?thesis using None Some by (auto simp: raise_for_tags_def Let_def)
  qed (simp add: raise_for_tags_def None)
qed (simp add: raise_for_tags_def Let_def)

text \<open>The reader that a reply's records reach, in terms of the records.\<close>

definition reply_tags :: "(nat \<times> bytes) list \<Rightarrow> (nat \<rightharpoonup> bytes)" where
  "reply_tags rs = map_of (rev rs)"

lemma raise_for_rfc_error_written:
  assumes "\<forall>r \<in> set rs. ok_record r"
    and "\<not> starts_with GATEWAY_ERROR_MARKER (tlv_records rs @ tlv_end @ [x, y] @ rest)"
  shows "raise_for_rfc_error u8 (tlv_records rs @ tlv_end @ [x, y] @ rest) None
       = raise_for_tags (reply_tags rs)"
  using assms parse_tlv_stream_written [OF assms(1), of x y rest]
  by (simp add: raise_for_rfc_error_def parse_gateway_error_def reply_tags_def)

section \<open>Properties\<close>

text \<open>An error reply is always raised and a good one never is.  For any written record stream that
  is not a gateway error, checking the reply raises an application error exactly when the message
  number is there, otherwise fails for a return code that is not four bytes, raises a system
  failure exactly when the return code is not zero, and passes in all other cases.\<close>

lemma error_classification:
  assumes "\<forall>r \<in> set rs. ok_record r"
    and "\<not> starts_with GATEWAY_ERROR_MARKER (tlv_records rs @ tlv_end @ [x, y] @ rest)"
    and "tags = map_of (rev rs)"
    and "outcome = raise_for_rfc_error u8 (tlv_records rs @ tlv_end @ [x, y] @ rest) None"
  shows "(if tags TAG_EXCEPTION_NUMBER \<noteq> None then \<exists>i. outcome = Inl (AbapApplicationError i)
    else case tags TAG_RETURN_CODE of
      None \<Rightarrow> outcome = Inr ()
    | Some rc \<Rightarrow>
        if length rc \<noteq> 4 then outcome = Inl ValueError
        else if rc = [0, 0, 0, 0] then outcome = Inr ()
        else \<exists>i. outcome = Inl (AbapSystemFailure i))"
proof -
  have o: "outcome = raise_for_tags tags"
    using raise_for_rfc_error_written [OF assms(1,2), of u8]
    by (simp add: assms(3,4) reply_tags_def)
  show ?thesis
    unfolding o using raise_for_tags_cases [of tags]
    by (auto simp: raise_for_tags_def Let_def split: option.splits if_splits)
qed

end
