(* ===== verification/Client_Session.thy ===== *)
theory Client_Session
  imports Rfc_Errors
begin

text \<open>
  \<^verbatim>\<open>src/saprfclib/session.py\<close>: the client's handshake state machine, without I/O.  Every
  public operation of the class is a function on the record \<open>session\<close>; \<open>session_step\<close> is the
  relation "one operation of the API", and the invariants are proved over the sessions it
  reaches from a fresh one.
\<close>

section \<open>State\<close>

datatype session_state =
    DISCONNECTED | CONNECTED | NI_VERSIONED | GW_CONNECTED | GW_DONE | LOGGED_IN | READY
  | IN_CALL | CLOSED | BROKEN | WS_PENDING

record conn_attrs =
  sys_id :: pystr
  sys_number :: pystr
  partner_host :: pystr
  ca_client :: pystr
  ca_user :: pystr
  ca_language :: pystr
  partner_rel :: pystr
  kernel_rel :: pystr
  ca_codepage :: pystr
  unicode_mode :: bool
  rfc_role :: pystr

record session =
  state :: session_state
  broken_reason :: pystr
  attributes :: "conn_attrs option"
  codepage :: "pystr option"
  handle :: "bytes option"
  allow_restricted_logon :: bool

definition new_session :: "bool \<Rightarrow> session" where
  "new_session restricted =
     \<lparr>state = DISCONNECTED, broken_reason = [], attributes = None, codepage = None,
      handle = None, allow_restricted_logon = restricted\<rparr>"

section \<open>NI version request\<close>

definition ipv4_octets :: "pystr option \<Rightarrow> bytes" where
  "ipv4_octets local_ip =
     (let fallback = [127, 0, 0, 1] in
      case local_ip of
        None \<Rightarrow> fallback
      | Some s \<Rightarrow>
          if s = [] then fallback
          else
            let parts = split_on 46 s in
            if length parts = 4 then
              (case those (map py_int parts) of
                 None \<Rightarrow> fallback
               | Some octets \<Rightarrow>
                   if \<forall>o1 \<in> set octets. 0 \<le> o1 \<and> o1 \<le> 255
                   then map (\<lambda>o1. word_of_nat (nat o1)) octets else fallback)
            else fallback)"

definition build_ni_version_request :: "pystr option \<Rightarrow> bytes" where
  "build_ni_version_request local_ip =
     (let b0 = replicate 64 0;
          b1 = pack_at 0 (be_bytes 2 0x0203) b0;
          b2 = put_slice 2 6 (ipv4_octets local_ip) b1;
          b3 = put_slice 10 18 (blit ''python3'' @ [0]) b2;
          b4 = put_slice 20 24 (blit ''1100'') b3;
          b5 = pack_at 28 (be_bytes 2 0x0006) b4;
          b6 = put_slice 30 54 (blit ''titan   python3         '') b5;
          b7 = pack_at 54 (be_bytes 2 0x06CB) b6;
          b8 = pack_at 56 (be_bytes 2 0xFFFF) b7
      in b8)"

definition session_start :: "pystr option \<Rightarrow> session \<Rightarrow> bytes \<times> session" where
  "session_start local_ip s = (build_ni_version_request local_ip, s\<lparr>state := CONNECTED\<rparr>)"

section \<open>Handlers of the server's frames\<close>

definition handle_ni_version_response :: "bytes \<Rightarrow> (session, bytes) act" where
  "handle_ni_version_response data s =
     (if length data < 24 then (Inl ValueError, s)
      else case ascii_decode (py_slice 20 24 data) of
        None \<Rightarrow> (Inl UnicodeError, s)
      | Some cp \<Rightarrow> (Inr [], s\<lparr>codepage := Some cp, state := NI_VERSIONED\<rparr>))"

definition handle_gw_connect_response :: "bytes \<Rightarrow> (session, bytes) act" where
  "handle_gw_connect_response data s =
     (if length data < 48 then (Inl ValueError, s)
      else (Inr [], s\<lparr>handle := Some (py_slice 40 48 data), state := GW_CONNECTED\<rparr>))"

definition handle_gw_done :: "bytes \<Rightarrow> (session, bytes) act" where
  "handle_gw_done data s =
     (if length data < 73 then (Inl ValueError, s)
      else (Inr [], s\<lparr>state := GW_DONE\<rparr>))"

definition CODEPAGE_UTF16LE :: pystr where "CODEPAGE_UTF16LE = lit ''4103''"

definition is_live_reply :: "bytes \<Rightarrow> bool" where
  "is_live_reply data \<longleftrightarrow> 2 \<le> length data \<and> be_val (py_slice 0 2 data) = 0x06CB"

definition logon_attributes :: "(bytes option \<Rightarrow> pystr) \<Rightarrow> (nat \<rightharpoonup> bytes) \<Rightarrow> pystr \<Rightarrow> conn_attrs" where
  "logon_attributes dec tags cp =
     \<lparr>sys_id = dec (tags 0x0450), sys_number = dec (tags 0x0452),
      partner_host = dec (tags 0x0453), ca_client = dec (tags 0x0151),
      ca_user = dec (tags 0x0150), ca_language = dec (tags 0x0152),
      partner_rel = dec (tags 0x0012), kernel_rel = dec (tags 0x0013),
      ca_codepage = cp, unicode_mode = (cp = CODEPAGE_UTF16LE), rfc_role = lit ''C''\<rparr>"

text \<open>The attributes a logon reply yields, or the exception it raises; the handler stores the
  attributes and makes the session READY (by way of LOGGED_IN, in two assignments).\<close>

definition logon_outcome :: "(bytes \<Rightarrow> pystr) \<Rightarrow> bytes \<Rightarrow> session \<Rightarrow> conn_attrs res" where
  "logon_outcome u8 data s =
     (let is_live = is_live_reply data;
          tlv_data = (if is_live then drop 80 data else data) in
      bind_res (session_parse_tlv tlv_data) (\<lambda>tags.
        let has_error = (tags TAG_EXCEPTION_NUMBER \<noteq> None \<or> tags TAG_EXCEPTION_TEXT \<noteq> None);
            logon_completed = (tags TAG_RETURN_CODE \<noteq> None) in
        if has_error \<and> \<not> (allow_restricted_logon s \<and> logon_completed) then
          bind_res (raise_for_rfc_error u8 tlv_data (Some tags)) (\<lambda>_. Inl ValueError)
        else
          let cp = (case codepage s of None \<Rightarrow> [] | Some c \<Rightarrow> c);
              uni = (cp = CODEPAGE_UTF16LE) in
          if is_live \<and> cp \<noteq> [] \<and> \<not> uni then Inl ValueError
          else
            let dec = (if is_live \<and> uni then decode_utf16le else decode_ascii) in
            Inr (logon_attributes dec tags cp)))"

definition handle_logon_response :: "(bytes \<Rightarrow> pystr) \<Rightarrow> bytes \<Rightarrow> (session, bytes) act" where
  "handle_logon_response u8 data s =
     (case logon_outcome u8 data s of
        Inl e \<Rightarrow> (Inl e, s)
      | Inr a \<Rightarrow> (Inr [], s\<lparr>attributes := Some a, state := READY\<rparr>))"

definition session_feed :: "(bytes \<Rightarrow> pystr) \<Rightarrow> bytes \<Rightarrow> (session, bytes) act" where
  "session_feed u8 data s =
     (case state s of
        CONNECTED \<Rightarrow> handle_ni_version_response data s
      | NI_VERSIONED \<Rightarrow> handle_gw_connect_response data s
      | GW_CONNECTED \<Rightarrow> handle_gw_done data s
      | GW_DONE \<Rightarrow> handle_logon_response u8 data s
      | _ \<Rightarrow> (Inl ValueError, s))"

section \<open>State guards\<close>

definition require_state :: "session_state list \<Rightarrow> session \<Rightarrow> unit res" where
  "require_state allowed s =
     (if state s = BROKEN \<and> BROKEN \<notin> set allowed then Inl ValueError
      else if state s \<notin> set allowed then Inl ValueError
      else Inr ())"

definition mark_in_call :: "(session, unit) act" where
  "mark_in_call s =
     (case require_state [READY] s of
        Inl e \<Rightarrow> (Inl e, s) | Inr _ \<Rightarrow> (Inr (), s\<lparr>state := IN_CALL\<rparr>))"

definition mark_ready :: "(session, unit) act" where
  "mark_ready s =
     (case require_state [IN_CALL] s of
        Inl e \<Rightarrow> (Inl e, s) | Inr _ \<Rightarrow> (Inr (), s\<lparr>state := READY\<rparr>))"

definition mark_broken :: "pystr \<Rightarrow> session \<Rightarrow> session" where
  "mark_broken reason s = s\<lparr>state := BROKEN, broken_reason := reason\<rparr>"

definition begin_ws_session :: "session \<Rightarrow> session" where
  "begin_ws_session s = s\<lparr>state := WS_PENDING\<rparr>"

definition complete_ws_first_call :: "conn_attrs \<Rightarrow> pystr \<Rightarrow> session \<Rightarrow> session" where
  "complete_ws_first_call attrs cp s =
     s\<lparr>codepage := Some cp, attributes := Some attrs, state := READY\<rparr>"

definition complete_ws_handshake :: "conn_attrs \<Rightarrow> pystr \<Rightarrow> session \<Rightarrow> session" where
  "complete_ws_handshake attrs cp s =
     s\<lparr>codepage := Some cp, attributes := Some attrs, state := READY\<rparr>"

section \<open>Closing\<close>

text \<open>What \<^verbatim>\<open>Connection.close\<close> of \<^verbatim>\<open>src/saprfclib/connection.py\<close> does to the session of its connection,
  from whatever state; the transport is closed beside it.\<close>

definition close_session :: "session \<Rightarrow> session" where
  "close_session s = s\<lparr>state := CLOSED\<rparr>"

section \<open>The API as a step relation\<close>

datatype session_op =
    Do_Start "pystr option" | Do_Feed bytes | Do_In_Call | Do_Ready | Do_Broken pystr | Do_Close
  | Do_Ws_Begin | Do_Ws_First conn_attrs pystr | Do_Ws_Handshake conn_attrs pystr

inductive session_step :: "(bytes \<Rightarrow> pystr) \<Rightarrow> session \<Rightarrow> session_op \<Rightarrow> session \<Rightarrow> bool" for u8 where
  st_start: "session_step u8 s (Do_Start ip) (snd (session_start ip s))"
| st_feed: "session_step u8 s (Do_Feed data) (snd (session_feed u8 data s))"
| st_in_call: "session_step u8 s Do_In_Call (snd (mark_in_call s))"
| st_ready: "session_step u8 s Do_Ready (snd (mark_ready s))"
| st_broken: "session_step u8 s (Do_Broken reason) (mark_broken reason s)"
| st_close: "session_step u8 s Do_Close (close_session s)"
| st_ws_begin: "session_step u8 s Do_Ws_Begin (begin_ws_session s)"
| st_ws_first: "session_step u8 s (Do_Ws_First attrs cp) (complete_ws_first_call attrs cp s)"
| st_ws_handshake: "session_step u8 s (Do_Ws_Handshake attrs cp) (complete_ws_handshake attrs cp s)"

inductive session_reach :: "(bytes \<Rightarrow> pystr) \<Rightarrow> session \<Rightarrow> bool" for u8 where
  sr_new: "session_reach u8 (new_session restricted)"
| sr_step: "session_reach u8 s \<Longrightarrow> session_step u8 s op t \<Longrightarrow> session_reach u8 t"

inductive_cases session_stepE: "session_step u8 s op t"

lemmas session_op_defs = session_start_def mark_in_call_def mark_ready_def mark_broken_def
  close_session_def require_state_def begin_ws_session_def complete_ws_first_call_def
  complete_ws_handshake_def

section \<open>The version request has a fixed length\<close>

lemma those_length: "those xs = Some ys \<Longrightarrow> length ys = length xs"
  by (induction xs arbitrary: ys) (auto split: option.splits)

lemma length_ipv4_octets [simp]: "length (ipv4_octets ip) = 4"
  by (auto simp: ipv4_octets_def Let_def dest!: those_length split: option.splits)

lemma length_ni_version_request: "length (build_ni_version_request ip) = 64"
  by (simp add: build_ni_version_request_def Let_def length_put_slice length_pack_at)

lemma ni_version_request_ip: "py_slice 2 6 (build_ni_version_request ip) = ipv4_octets ip"
  by (simp add: build_ni_version_request_def Let_def length_put_slice length_pack_at
      slice_pack_at_before slice_put_slice_before slice_put_slice_same)

text \<open>Whatever the four octets are, they are read back from the dotted form.\<close>

definition dotted :: "nat list \<Rightarrow> pystr" where
  "dotted ns = join_with [46] (map dec_digits ns)"

lemma dot_not_in_digits: "46 \<notin> set (dec_digits n)"
  using dec_digits_are_digits [of 46 n] by (auto simp: is_digit_def)

lemma split_dotted:
  "split_on 46 (dotted [a, b, c, d]) = map dec_digits [a, b, c, d]"
  by (simp add: dotted_def split_on_append_sep dot_not_in_digits split_on_no_sep)

lemma ipv4_octets_dotted:
  assumes "a < 256" "b < 256" "c < 256" "d < 256"
  shows "ipv4_octets (Some (dotted [a, b, c, d])) = map word_of_nat [a, b, c, d]"
proof -
  have ne: "dotted [a, b, c, d] \<noteq> []" by (simp add: dotted_def)
  have o1: "those (map py_int (split_on 46 (dotted [a, b, c, d]))) = Some [int a, int b, int c, int d]"
    and l: "length (split_on 46 (dotted [a, b, c, d])) = 4"
    by (simp_all add: split_dotted)
  have r: "\<forall>x \<in> set [int a, int b, int c, int d]. 0 \<le> x \<and> x \<le> 255" using assms by simp
  show ?thesis
    unfolding ipv4_octets_def Let_def option.case if_not_P [OF ne] if_P [OF l] o1 if_P [OF r]
    by simp
qed

section \<open>A failed feed leaves the session as it was\<close>

lemmas handler_defs = session_feed_def handle_ni_version_response_def
  handle_gw_connect_response_def handle_gw_done_def handle_logon_response_def

lemma feed_error_unchanged: "fst (session_feed u8 data s) = Inl e \<Longrightarrow> snd (session_feed u8 data s) = s"
  by (cases "state s") (auto simp: handler_defs split: option.splits sum.splits)

lemma feed_sends_nothing: "fst (session_feed u8 data s) = Inr out \<Longrightarrow> out = []"
  by (cases "state s") (auto simp: handler_defs split: option.splits sum.splits if_splits)

text \<open>What a logon that reaches READY has established.\<close>

lemma logon_ready:
  assumes "logon_outcome u8 data s = Inr a" and "codepage s = Some cp" and "cp \<noteq> []"
  obtains tags where
    "session_parse_tlv (if is_live_reply data then drop 80 data else data) = Inr tags"
    "(tags TAG_EXCEPTION_NUMBER = None \<and> tags TAG_EXCEPTION_TEXT = None) \<or>
     (allow_restricted_logon s \<and> tags TAG_RETURN_CODE \<noteq> None)"
    "is_live_reply data \<Longrightarrow> cp = CODEPAGE_UTF16LE"
    "a = logon_attributes (if is_live_reply data then decode_utf16le else decode_ascii) tags cp"
proof -
  obtain tags where t: "session_parse_tlv (if is_live_reply data then drop 80 data else data) = Inr tags"
    using assms by (auto simp: logon_outcome_def Let_def bind_res_Inr)
  have g: "(tags TAG_EXCEPTION_NUMBER = None \<and> tags TAG_EXCEPTION_TEXT = None) \<or>
     (allow_restricted_logon s \<and> tags TAG_RETURN_CODE \<noteq> None)"
    "is_live_reply data \<longrightarrow> cp = CODEPAGE_UTF16LE"
    "a = logon_attributes (if is_live_reply data \<and> cp = CODEPAGE_UTF16LE then decode_utf16le else decode_ascii) tags cp"
    using assms t by (auto simp: logon_outcome_def Let_def bind_res_Inr split: if_splits)
  show thesis using that [OF t g(1)] g(2,3) by auto
qed

section \<open>Frames a session accepts\<close>

lemma feed_version:
  "state s = CONNECTED \<Longrightarrow> 24 \<le> length f \<Longrightarrow> ascii_decode (py_slice 20 24 f) = Some cp \<Longrightarrow>
   session_feed u8 f s = (Inr [], s\<lparr>codepage := Some cp, state := NI_VERSIONED\<rparr>)"
  by (simp add: session_feed_def handle_ni_version_response_def)

lemma feed_gateway:
  "state s = NI_VERSIONED \<Longrightarrow> 48 \<le> length f \<Longrightarrow>
   session_feed u8 f s = (Inr [], s\<lparr>handle := Some (py_slice 40 48 f), state := GW_CONNECTED\<rparr>)"
  by (simp add: session_feed_def handle_gw_connect_response_def)

lemma feed_done:
  "state s = GW_CONNECTED \<Longrightarrow> 73 \<le> length f \<Longrightarrow> session_feed u8 f s = (Inr [], s\<lparr>state := GW_DONE\<rparr>)"
  by (simp add: session_feed_def handle_gw_done_def)

lemma feed_logon:
  "state s = GW_DONE \<Longrightarrow> logon_outcome u8 f s = Inr a \<Longrightarrow>
   session_feed u8 f s = (Inr [], s\<lparr>attributes := Some a, state := READY\<rparr>)"
  by (simp add: session_feed_def handle_logon_response_def)

section \<open>Invariant of the reachable sessions\<close>

definition session_inv :: "session \<Rightarrow> bool" where
  "session_inv s \<longleftrightarrow>
     (state s \<in> {NI_VERSIONED, GW_CONNECTED, GW_DONE} \<longrightarrow>
        (\<exists>cp. codepage s = Some cp \<and> length cp = 4 \<and> is_ascii cp)) \<and>
     (state s \<in> {GW_CONNECTED, GW_DONE} \<longrightarrow> (\<exists>h. handle s = Some h \<and> length h = 8)) \<and>
     (\<forall>h. handle s = Some h \<longrightarrow> length h = 8) \<and>
     (state s \<in> {READY, IN_CALL} \<longrightarrow> attributes s \<noteq> None) \<and>
     state s \<noteq> LOGGED_IN"

lemma session_inv_new: "session_inv (new_session r)"
  by (simp add: session_inv_def new_session_def)

lemma ascii_decode_slice:
  "ascii_decode (py_slice 20 24 data) = Some cp \<Longrightarrow> 24 \<le> length data \<Longrightarrow> length cp = 4 \<and> is_ascii cp"
  by (auto simp: ascii_decode_def is_ascii_def split: if_splits)

lemma session_inv_ni: "session_inv s \<Longrightarrow> session_inv (snd (handle_ni_version_response data s))"
proof (cases "length data < 24 \<or> ascii_decode (py_slice 20 24 data) = None")
  case False
  then obtain cp where cp: "ascii_decode (py_slice 20 24 data) = Some cp" "24 \<le> length data" by auto
  assume "session_inv s"
  then show ?thesis
    using ascii_decode_slice [OF cp] cp by (simp add: handle_ni_version_response_def session_inv_def)
qed (auto simp: handle_ni_version_response_def)

lemma session_inv_gw: "state s = NI_VERSIONED \<Longrightarrow> session_inv s \<Longrightarrow>
    session_inv (snd (handle_gw_connect_response data s))"
  by (auto simp: handle_gw_connect_response_def session_inv_def)

lemma session_inv_done: "state s = GW_CONNECTED \<Longrightarrow> session_inv s \<Longrightarrow>
    session_inv (snd (handle_gw_done data s))"
  by (auto simp: handle_gw_done_def session_inv_def)

lemma session_inv_logon: "session_inv s \<Longrightarrow> session_inv (snd (handle_logon_response u8 data s))"
  by (auto simp: handle_logon_response_def session_inv_def split: sum.splits)

lemma session_inv_feed: "session_inv s \<Longrightarrow> session_inv (snd (session_feed u8 data s))"
  by (cases "state s") (simp_all add: session_feed_def session_inv_ni session_inv_gw
      session_inv_done session_inv_logon)

lemma session_inv_step: "session_step u8 s op t \<Longrightarrow> session_inv s \<Longrightarrow> session_inv t"
proof (induction rule: session_step.induct)
  case (st_feed s data)
  then show ?case by (rule session_inv_feed)
qed (auto simp: session_inv_def session_op_defs)

lemma session_reach_inv: "session_reach u8 s \<Longrightarrow> session_inv s"
  by (induction rule: session_reach.induct) (auto intro: session_inv_new session_inv_step)

section \<open>Operations refused\<close>

lemma feed_refused:
  "state s \<notin> {CONNECTED, NI_VERSIONED, GW_CONNECTED, GW_DONE} \<Longrightarrow> session_feed u8 data s = (Inl ValueError, s)"
  by (cases "state s") (simp_all add: session_feed_def)

lemma call_refused:
  "state s \<noteq> READY \<Longrightarrow> mark_in_call s = (Inl ValueError, s)"
  "state s \<noteq> IN_CALL \<Longrightarrow> mark_ready s = (Inl ValueError, s)"
  by (simp_all add: mark_in_call_def mark_ready_def require_state_def)

section \<open>BROKEN refuses every guarded operation\<close>

lemma broken_refuses:
  assumes "state s = BROKEN"
  shows "session_feed u8 data s = (Inl ValueError, s)"
    and "mark_in_call s = (Inl ValueError, s)"
    and "mark_ready s = (Inl ValueError, s)"
  using assms by (simp_all add: session_feed_def mark_in_call_def mark_ready_def require_state_def)

text \<open>The unguarded operations are another matter: they leave BROKEN.\<close>

lemma broken_left_by_unguarded:
  "state (snd (session_start ip (mark_broken r s))) = CONNECTED"
  "state (complete_ws_handshake a cp (mark_broken r s)) = READY"
  by (simp_all add: session_start_def complete_ws_handshake_def mark_broken_def)

section \<open>Properties\<close>


definition sample_version_reply :: bytes where
  "sample_version_reply = replicate 20 0 @ blit ''4103'' @ replicate 40 0"

lemma sample_version_fed:
  "session_feed latin1_decode sample_version_reply (snd (session_start None (new_session False))) =
    (Inr [], (new_session False)\<lparr>codepage := Some CODEPAGE_UTF16LE, state := NI_VERSIONED\<rparr>)"
  by (subst feed_version [of _ _ CODEPAGE_UTF16LE])
    (simp_all add: session_start_def new_session_def sample_version_reply_def py_slice_def
      ascii_decode_def CODEPAGE_UTF16LE_def)


text \<open>A frame the session rejects leaves it unchanged, and a session marked broken rejects
  everything that is guarded: feeding bytes, starting a call and ending one all raise and change
  nothing.\<close>

lemma rejected_input_changes_nothing:
  "(fst (session_feed u8 data s) = Inl e \<longrightarrow> snd (session_feed u8 data s) = s) \<and>
   session_feed u8 data (mark_broken reason s) = (Inl ValueError, mark_broken reason s) \<and>
   mark_in_call (mark_broken reason s) = (Inl ValueError, mark_broken reason s) \<and>
   mark_ready (mark_broken reason s) = (Inl ValueError, mark_broken reason s)"
  using feed_error_unchanged [of u8 data s e] broken_refuses [of "mark_broken reason s"]
  by (simp add: mark_broken_def)



text \<open>The handshake completes.  From a started session four acceptable frames (a version reply with
  an ASCII code page, a connect reply of 48 bytes or more, a done frame of 73 or more, and a logon
  reply that yields attributes) lead to a ready session with those attributes, and the session has
  never asked for bytes to be sent in between.\<close>

lemma handshake_completes:
  assumes "24 \<le> length f1" and "ascii_decode (py_slice 20 24 f1) = Some cp"
    and "48 \<le> length f2" and "73 \<le> length f3"
    and "logon_outcome u8 f4 \<lparr>state = GW_DONE, broken_reason = broken_reason s, attributes = attributes s,
      codepage = Some cp, handle = Some (py_slice 40 48 f2),
      allow_restricted_logon = allow_restricted_logon s\<rparr> = Inr a"
  shows "\<exists>s1 s2 s3 s4. session_feed u8 f1 (snd (session_start ip s)) = (Inr [], s1) \<and>
    session_feed u8 f2 s1 = (Inr [], s2) \<and> session_feed u8 f3 s2 = (Inr [], s3) \<and>
    session_feed u8 f4 s3 = (Inr [], s4) \<and> state s4 = READY \<and> attributes s4 = Some a \<and>
    codepage s4 = Some cp \<and> handle s4 = Some (py_slice 40 48 f2)"
proof -
  let ?s3 = "\<lparr>state = GW_DONE, broken_reason = broken_reason s, attributes = attributes s,
      codepage = Some cp, handle = Some (py_slice 40 48 f2),
      allow_restricted_logon = allow_restricted_logon s\<rparr>"
  have "session_feed u8 f1 (snd (session_start ip s)) = (Inr [], s\<lparr>codepage := Some cp, state := NI_VERSIONED\<rparr>)"
    using feed_version [OF _ assms(1,2), of "snd (session_start ip s)"] by (simp add: session_start_def)
  moreover have "session_feed u8 f2 (s\<lparr>codepage := Some cp, state := NI_VERSIONED\<rparr>)
      = (Inr [], s\<lparr>codepage := Some cp, handle := Some (py_slice 40 48 f2), state := GW_CONNECTED\<rparr>)"
    using feed_gateway [OF _ assms(3), of "s\<lparr>codepage := Some cp, state := NI_VERSIONED\<rparr>"] by simp
  moreover have "session_feed u8 f3 (s\<lparr>codepage := Some cp, handle := Some (py_slice 40 48 f2), state := GW_CONNECTED\<rparr>)
      = (Inr [], ?s3)"
    using feed_done [OF _ assms(4), of "s\<lparr>codepage := Some cp, handle := Some (py_slice 40 48 f2), state := GW_CONNECTED\<rparr>"]
    by simp
  moreover have "session_feed u8 f4 ?s3 = (Inr [], ?s3\<lparr>attributes := Some a, state := READY\<rparr>)"
    using feed_logon [OF _ assms(5)] by simp
  ultimately show ?thesis by fastforce
qed

end
