(* ===== verification/Gw_Frames.thy ===== *)
theory Gw_Frames
  imports Tlv_Stream Language_Codes Scramble Client_Session
begin

text \<open>
  The frames \<^verbatim>\<open>src/saprfclib/connection.py\<close> builds around the session: gateway connect, info and
  done, the logon and call frames, the logon bodies of both transports, and the handshake legs.

  The host name, the random bytes and the seed of the password are arguments.  A
  \<^verbatim>\<open>bytearray\<close> filled by slice assignments is \<open>put_slice\<close> on a list of zeros: a value of
  another length than its slice resizes the frame, as in Python.
\<close>

section \<open>Constants\<close>

definition GW_TYPE_CONNECT :: nat where "GW_TYPE_CONNECT = 0x0601"
definition GW_TYPE_DONE :: nat where "GW_TYPE_DONE = 0x0605"
definition GW_TYPE_INFO :: nat where "GW_TYPE_INFO = 0x060F"
definition GW_TYPE_RFC :: nat where "GW_TYPE_RFC = 0x06CB"
definition GW_VERSION :: nat where "GW_VERSION = 0x0200"
definition GW_FLAGS :: nat where "GW_FLAGS = 0xFFFF0000"
definition GW_HDR_APPC_VER :: nat where "GW_HDR_APPC_VER = 8"
definition GW_HDR_MAX_LEN :: nat where "GW_HDR_MAX_LEN = 0x50C"
definition GW_CLIENT_TAIL :: nat where "GW_CLIENT_TAIL = 0xFFFF0004"
definition GW_CLIENT_TAIL_SNC :: nat where "GW_CLIENT_TAIL_SNC = 0xFFFF0009"
definition INVOKE_FOOTER_MAGIC :: bytes where "INVOKE_FOOTER_MAGIC = [0, 0, 0x85, 0]"
definition RFC_MARKER :: bytes where "RFC_MARKER = [0xFF, 0xFF, 0, 4]"
definition COM_HEAD :: bytes where "COM_HEAD = [0xD9, 0xC6, 0xC3] @ replicate 9 0xF0"
definition TLV_CAPS :: bytes where "TLV_CAPS = [3, 1, 1, 1, 1, 1, 0, 0]"
definition TLV_VER :: bytes where "TLV_VER = [0, 0, 0x0E, 0x0B]"
definition TLV_CP :: bytes where "TLV_CP = [4, 1, 0, 3, 0, 0x0A, 2, 0, 0, 0, 0x23]"
definition TLV_PROG :: bytes where "TLV_PROG = blit ''<unknown>''"
definition TLV_REL :: bytes where "TLV_REL = blit ''754''"
definition RFCPING_NAME :: bytes where "RFCPING_NAME = blit ''RFCPING''"
definition MAX_FUNC_NAME_LEN :: nat where "MAX_FUNC_NAME_LEN = 30"

definition ascii_enc_replace :: "pystr \<Rightarrow> bytes" where
  "ascii_enc_replace s = map (\<lambda>c. if c < 128 then word_of_nat c else 63) s"

definition ascii_bytes :: "pystr \<Rightarrow> bytes res" where
  "ascii_bytes s = opt_res UnicodeError (ascii_encode s)"

section \<open>System numbers\<close>

definition validate_sysnr :: "int \<Rightarrow> nat res" where
  "validate_sysnr v = (if 0 \<le> v \<and> v \<le> 99 then Inr (nat v) else Inl ValueError)"

definition two_digits :: "nat \<Rightarrow> pystr" where
  "two_digits n = rjust 2 48 (dec_digits n)"

section \<open>Gateway control frames\<close>

definition gw_header :: "nat \<Rightarrow> nat \<Rightarrow> bytes" where
  "gw_header width gw_type =
     pack_at 4 (be_bytes 4 GW_FLAGS) (pack_at 2 (be_bytes 2 GW_VERSION)
       (pack_at 0 (be_bytes 2 gw_type) (replicate width 0)))"

definition GW_CONNECT_FIXED :: bytes where
  "GW_CONNECT_FIXED = [0, 0, 1, 0, 0, 0, 0, 0, 0xC0, 0, 0, 0, 0, 4, 0, 0, 0, 0, 1, 0x75]"

definition hex_upper_bytes :: "bytes \<Rightarrow> bytes" where
  "hex_upper_bytes bs =
     concat (map (\<lambda>b. [word_of_nat (hex_digit (unat b div 16)), word_of_nat (hex_digit (unat b mod 16))]) bs)"

definition build_gw_connect_request ::
    "bytes \<Rightarrow> pystr \<Rightarrow> pystr \<Rightarrow> int \<Rightarrow> bool \<Rightarrow> bytes res" where
  "build_gw_connect_request rnd hostname gwhost sysnr snc =
     bind_res (ascii_bytes (ljust 8 32 (take 8 gwhost))) (\<lambda>host8.
     bind_res (validate_sysnr sysnr) (\<lambda>nr.
     bind_res (ascii_bytes gwhost) (\<lambda>host.
       let p = gw_header 453 GW_TYPE_CONNECT;
           p = put_slice 8 28 (if snc then GW_CONNECT_FIXED[2 := 0x21] else GW_CONNECT_FIXED) p;
           p = put_slice 28 36 [0, 0, 5, 0, 0, 0, 0, 0] p;
           p = put_slice 40 48 (replicate 8 0x20) p;
           p = put_slice 48 56 (blit ''NWRFC   '') p;
           p = put_slice 56 64 host8 p;
           p = put_slice 64 72 (map word_of_nat (lit ''sapdp'' @ two_digits nr @ lit '' '')) p;
           p = put_slice 72 80 [0x49, 1, 0, 0, 0, 0, 0xFF, 0xFF] p;
           p = put_slice 80 85 (blit ''NWRFC'') p;
           p = put_slice 85 112 (replicate 27 0x20) p;
           p = put_slice 112 114 [1, 1] p;
           p = put_slice 114 118 (blit ''CPIC'') p;
           p = put_slice 122 154 (hex_upper_bytes rnd) p;
           p = put_slice 156 172 [0, 1, 0xFF, 0xFF, 0xFF, 0xFE, 0xFF, 0xFF, 0xFF, 0xFE, 2, 0, 0, 0, 0, 0] p;
           ip = host @ [0];
           p = put_slice 185 (185 + min (length ip) 16) (take 16 ip) p;
           hn = ascii_enc_replace hostname @ [0];
           p = put_slice 329 (329 + min (length hn) 16) (take 16 hn) p;
           svc = map word_of_nat (lit ''sapdp'' @ two_digits nr @ [0]);
           p = put_slice 389 (389 + min (length svc) 8) (take 8 svc) p
       in Inr p)))"

definition client_tail :: "bool \<Rightarrow> bytes" where
  "client_tail snc = be_bytes 4 (if snc then GW_CLIENT_TAIL_SNC else GW_CLIENT_TAIL)"

definition build_gw_info :: "bytes \<Rightarrow> pystr \<Rightarrow> bool \<Rightarrow> bytes res" where
  "build_gw_info h gwhost snc =
     bind_res (ascii_bytes (ljust 8 32 (take 8 gwhost))) (\<lambda>host8.
     bind_res (ascii_bytes gwhost) (\<lambda>ip.
       let p = gw_header 224 GW_TYPE_INFO;
           p = put_slice 8 12 [0, 0, 1, 0] p;
           p = put_slice 24 28 [0, 0, 0, 0x90] p;
           p = put_slice 28 32 [0, 0, 4, 0] p;
           p = put_slice 40 48 h p;
           p = put_slice 48 56 host8 p;
           p = pack_at 56 (be_bytes 4 (length gwhost)) p;
           p = pack_at 76 (client_tail snc) p
       in Inr (put_slice 80 192 (take 112 (ip @ replicate (112 - length ip) 0x20)) p)))"

definition build_gw_done_client :: "bytes \<Rightarrow> bool \<Rightarrow> bytes" where
  "build_gw_done_client h snc =
     (let p = gw_header 80 GW_TYPE_DONE;
          p = put_slice 28 32 [0, 0, 1, 0] p;
          p = put_slice 40 48 h p
      in pack_at 76 (client_tail snc) p)"

definition rfc_header :: "bytes \<Rightarrow> bytes" where
  "rfc_header h =
     (let p = gw_header 76 GW_TYPE_RFC;
          p = pack_at 24 (be_bytes 4 GW_HDR_APPC_VER) p;
          p = pack_at 28 (be_bytes 4 GW_HDR_MAX_LEN) p
      in put_slice 40 48 h p)"

definition build_logon_frame :: "bytes \<Rightarrow> bytes \<Rightarrow> bool \<Rightarrow> bytes" where
  "build_logon_frame h tlv_body snc = rfc_header h @ client_tail snc @ COM_HEAD @ tlv_body"

definition build_invoke_frame :: "bytes \<Rightarrow> bytes \<Rightarrow> bytes res" where
  "build_invoke_frame h tlv_body =
     (if length tlv_body < 2 ^ 32
      then Inr (rfc_header h @ RFC_MARKER @ tlv_body
                @ be_bytes 4 (length tlv_body) @ INVOKE_FOOTER_MAGIC)
      else Inl StructError)"

text \<open>What is handed to the transport: under SNC only the body.\<close>

definition invoke_wire :: "bool \<Rightarrow> bytes \<Rightarrow> bytes" where
  "invoke_wire snc_mode frame = (if snc_mode then drop 80 frame else frame)"

section \<open>Logon bodies\<close>

definition join_res :: "bytes res list \<Rightarrow> bytes res" where
  "join_res parts = map_res concat (seq_res parts)"

text \<open>\<^verbatim>\<open>local_ip\<close> is a parameter of the builder and does not occur in the body: tag 0x0007 is
  the constant loopback address.\<close>

definition build_logon_request ::
    "(nat \<Rightarrow> pystr) \<Rightarrow> bytes \<Rightarrow> pystr \<Rightarrow> 32 word \<Rightarrow> pystr \<Rightarrow> pystr option \<Rightarrow> pystr option
     \<Rightarrow> pystr \<Rightarrow> bytes \<Rightarrow> pystr \<Rightarrow> bytes res" where
  "build_logon_request uc token hostname seed client user passwd local_ip program_name lang =
     join_res
       ([tlv_ext 0x0101 TLV_CAPS, tlv_ext 0x0103 TLV_VER, tlv_ext 0x0106 TLV_CP,
         tlv_ext 0x0514 token, tlv_ext 0x0114 (ascii_enc_replace client)]
        @ (case user of None \<Rightarrow> [] | Some u \<Rightarrow> [tlv_ext 0x0111 (ascii_enc_replace u)])
        @ (case passwd of None \<Rightarrow> [] | Some p \<Rightarrow> [tlv_ext 0x0117 (scramble_password p seed)])
        @ [bind_res (encode_logon_language uc lang) (tlv_ext 0x0115),
           tlv_ext 0x0501 [1], tlv_ext 0x0007 (blit ''127.0.0.1''),
           bind_res (encode_logon_language uc lang) (tlv_ext 0x0011),
           tlv_ext 0x0012 TLV_REL, tlv_ext 0x0013 TLV_REL,
           tlv_ext 0x0008 (ascii_enc_replace hostname), tlv_ext 0x0006 TLV_PROG,
           tlv_ext 0x0130 program_name, tlv_ext 0x0502 [], tlv_ext 0x000B TLV_REL,
           tlv_ext 0x0102 RFCPING_NAME,
           Inr [0xFF, 0xFF, 0, 0], Inr [0xFF, 0xFF, 0, 0, 0, 0xF8, 0, 0, 0x85, 0]])"

definition latin1 :: "pystr \<Rightarrow> bytes res" where
  "latin1 s = opt_res UnicodeError (latin1_encode s)"

definition ws_text :: "nat \<Rightarrow> pystr \<Rightarrow> bytes res" where
  "ws_text tag s = bind_res (latin1 s) (tlv_ext tag)"

definition build_ws_logon_message ::
    "(nat \<Rightarrow> pystr) \<Rightarrow> pystr \<Rightarrow> 32 word \<Rightarrow> pystr \<Rightarrow> pystr \<Rightarrow> pystr \<Rightarrow> pystr \<Rightarrow> pystr \<Rightarrow> pystr
     \<Rightarrow> pystr \<Rightarrow> bytes res" where
  "build_ws_logon_message uc hostname seed func_name user passwd client lang local_ip prog_name =
     (let fname = py_upper uc func_name in
      if length fname > MAX_FUNC_NAME_LEN then Inl ValueError
      else bind_res (scramble_password_ws passwd seed) (\<lambda>pw.
        join_res
          [tlv_ext 0x0101 TLV_CAPS, tlv_ext 0x0103 TLV_VER, tlv_ext 0x0106 TLV_CP,
           ws_text 0x0114 client, ws_text 0x0111 user, tlv_ext 0x0117 pw,
           bind_res (encode_logon_language uc lang) (tlv_ext 0x0115),
           tlv_ext 0x0501 [1], ws_text 0x0007 local_ip,
           bind_res (encode_logon_language uc lang) (tlv_ext 0x0011),
           tlv_ext 0x0012 TLV_REL, tlv_ext 0x0013 TLV_REL,
           ws_text 0x0008 (take 32 hostname), tlv_ext 0x0006 TLV_PROG,
           ws_text 0x0130 prog_name, tlv_ext 0x0502 [], tlv_ext 0x000B TLV_REL,
           ws_text 0x0102 fname, Inr [0xFF, 0xFF, 0, 0, 0xFF, 0xFF]]))"

section \<open>Credentials and handshake legs\<close>

definition resolve_credentials ::
    "pystr option \<Rightarrow> pystr option \<Rightarrow> bool \<Rightarrow> (pystr option \<times> pystr option) res" where
  "resolve_credentials user passwd has_snc =
     (if has_snc then Inr (user, passwd)
      else if user = None \<and> passwd = None then Inr (None, None)
      else if user = None \<or> passwd = None then Inl ValueError
      else Inr (user, passwd))"

record logon_params =
  lp_client :: pystr
  lp_user :: "pystr option"
  lp_passwd :: "pystr option"
  lp_gwhost :: pystr
  lp_sysnr :: int
  lp_local_ip :: pystr
  lp_lang :: pystr
  lp_snc :: bool
  lp_hostname :: pystr
  lp_rnd :: bytes
  lp_seed :: "32 word"

definition build_leg_requests ::
    "(nat \<Rightarrow> pystr) \<Rightarrow> session_state \<Rightarrow> bytes option \<Rightarrow> logon_params \<Rightarrow> bytes list res" where
  "build_leg_requests uc prev session_handle p =
     (let h = (case session_handle of None \<Rightarrow> blit ''00000000'' | Some h \<Rightarrow> if h = [] then blit ''00000000'' else h)
      in case prev of
        CONNECTED \<Rightarrow>
          map_res (\<lambda>f. [f]) (build_gw_connect_request (lp_rnd p) (lp_hostname p) (lp_gwhost p)
            (lp_sysnr p) (lp_snc p))
      | NI_VERSIONED \<Rightarrow>
          map_res (\<lambda>f. [f, build_gw_done_client h (lp_snc p)]) (build_gw_info h (lp_gwhost p) (lp_snc p))
      | GW_CONNECTED \<Rightarrow>
          map_res (\<lambda>tlv. [if lp_snc p then COM_HEAD @ tlv else build_logon_frame h tlv False])
            (build_logon_request uc (lp_rnd p) (lp_hostname p) (lp_seed p) (lp_client p) (lp_user p)
              (lp_passwd p) (lp_local_ip p) (blit ''python3'') (lp_lang p))
      | _ \<Rightarrow> Inr [])"

end
