(* ===== verification/Rfc_Trace.thy ===== *)
theory Rfc_Trace
  imports Tlv_Stream
begin

text \<open>
  \<^verbatim>\<open>src/saprfclib/trace.py\<close>: the trace writer and the redaction of password records in the
  frames it dumps.  The open file is the list of lines written so far, \<open>None\<close> once closed; the
  time stamp and the thread id of a line are the argument \<open>stamp\<close>.
\<close>

section \<open>Redaction\<close>

definition TAG_PASSWORD :: nat where "TAG_PASSWORD = 0x0117"

definition GW_HEADER_LEN :: nat where "GW_HEADER_LEN = 80"

function redact_records :: "bytes \<Rightarrow> bytes" where
  "redact_records d =
     (case tlv_step d of
        T_Record t h v rest \<Rightarrow>
          take h d @ (if t = TAG_PASSWORD then replicate (length v) 0 else v) @
          take (length d - length rest - (h + length v)) (drop (h + length v) d) @
          redact_records rest
      | _ \<Rightarrow> d)"
  by pat_completeness auto
termination
  by (relation "measure length") (auto dest: tlv_step_decreases)

declare redact_records.simps [simp del]

definition redact :: "bytes \<Rightarrow> bytes" where
  "redact payload =
     (let body_at = (if take 1 payload = [6] \<and> length payload > GW_HEADER_LEN
                     then GW_HEADER_LEN else 0)
      in take body_at payload @ redact_records (drop body_at payload))"

section \<open>The hexadecimal dump\<close>

definition hex_byte :: "byte \<Rightarrow> pystr" where
  "hex_byte b = [hex_digit (unat b div 16), hex_digit (unat b mod 16)]"

fun hex_upper :: "nat \<Rightarrow> pystr" where
  "hex_upper n = (if n < 16 then [hex_digit n] else hex_upper (n div 16) @ [hex_digit (n mod 16)])"

declare hex_upper.simps [simp del]

definition dump_char :: "byte \<Rightarrow> nat" where
  "dump_char b = (if 32 \<le> unat b \<and> unat b < 127 then unat b else 46)"

definition dump_line :: "nat \<Rightarrow> bytes \<Rightarrow> pystr" where
  "dump_line off d =
     (let chunk = ljust 16 0 d;
          groups = join_with (lit '' '')
            (map (\<lambda>i. concat (map hex_byte (py_slice i (i + 4) chunk))) [0, 4, 8, 12])
      in rjust 6 48 (hex_upper off) @ lit '' | '' @ groups @ lit '' |'' @
         ljust 16 32 (map dump_char d) @ lit ''|'')"

function hexdump_from :: "nat \<Rightarrow> bytes \<Rightarrow> pystr list" where
  "hexdump_from off d =
     (if d = [] then [] else dump_line off (take 16 d) # hexdump_from (off + 16) (drop 16 d))"
  by pat_completeness auto
termination
  by (relation "measure (\<lambda>(off, d). length d)") auto

declare hexdump_from.simps [simp del]

definition hexdump :: "bytes \<Rightarrow> pystr list" where
  "hexdump data = hexdump_from 0 data"

section \<open>The trace file\<close>

definition TRACE_BRIEF :: nat where "TRACE_BRIEF = 1"
definition TRACE_FULL :: nat where "TRACE_FULL = 3"

record rfc_trace =
  level :: nat
  fh :: "pystr list option"

definition trace_close :: "rfc_trace \<Rightarrow> rfc_trace" where
  "trace_close t = t\<lparr>fh := None\<rparr>"

definition trace_emit :: "pystr \<Rightarrow> rfc_trace \<Rightarrow> rfc_trace" where
  "trace_emit text t = (case fh t of None \<Rightarrow> t | Some ls \<Rightarrow> t\<lparr>fh := Some (ls @ [text])\<rparr>)"

definition trace_emits :: "pystr list \<Rightarrow> rfc_trace \<Rightarrow> rfc_trace" where
  "trace_emits ls t = fold trace_emit ls t"

definition trace_log :: "pystr \<Rightarrow> pystr \<Rightarrow> nat \<Rightarrow> rfc_trace \<Rightarrow> rfc_trace" where
  "trace_log stamp text lvl t =
     (if level t < lvl then t else trace_emit (stamp @ lit '' '' @ text) t)"

definition trace_frame :: "pystr \<Rightarrow> pystr \<Rightarrow> bytes \<Rightarrow> nat \<Rightarrow> rfc_trace \<Rightarrow> rfc_trace" where
  "trace_frame stamp direction payload socket_id t =
     (if level t < TRACE_FULL then t
      else
        let safe = redact payload in
        trace_emits
          ([lit ''>> HEXDUMP'',
            stamp @ lit '' '' @ direction @ lit '' '' @ dec_digits (length payload) @
              lit '' bytes on Socket '' @ dec_digits socket_id]
           @ hexdump safe @
           [lit ''<< HEXDUMP'', []]) t)"

section \<open>Redaction of a stream of records\<close>

definition redact_value :: "nat \<Rightarrow> bytes \<Rightarrow> bytes" where
  "redact_value t v = (if t = TAG_PASSWORD then replicate (length v) 0 else v)"

lemma length_redact_value [simp]: "length (redact_value t v) = length v"
  by (simp add: redact_value_def)

lemma redact_records_record:
  assumes "ok_record (t, v)"
  shows "redact_records (tlv_record_body t v @ rest)
       = tlv_record_body t (redact_value t v) @ redact_records rest"
proof -
  let ?h = "if length v \<ge> 0xFFFF then 8 else 4 :: nat"
  have hd: "take ?h (tlv_record_body t (redact_value t v)) = take ?h (tlv_record_body t v)"
    by (simp add: tlv_record_body_def)
  have tail: "drop (?h + length v) (tlv_record_body t v @ rest) = be_bytes 2 t @ rest"
    and two: "length (tlv_record_body t v @ rest) - length rest - (?h + length v) = 2"
    and front: "take ?h (tlv_record_body t v @ rest) = take ?h (tlv_record_body t v)"
    by (simp_all add: tlv_record_body_def)
  have "redact_records (tlv_record_body t v @ rest)
      = take ?h (tlv_record_body t v) @ redact_value t v @ be_bytes 2 t @ redact_records rest"
    by (subst redact_records.simps)
       (simp only: tlv_step_record [OF assms] tlv_turn.case tail two front redact_value_def [symmetric],
        simp)
  also have "\<dots> = tlv_record_body t (redact_value t v) @ redact_records rest"
    using hd by (simp add: tlv_record_body_def)
  finally show ?thesis .
qed

lemma redact_records_stream:
  assumes "\<forall>r \<in> set rs. ok_record r"
  shows "redact_records (tlv_records rs @ rest)
       = tlv_records (map (\<lambda>(t, v). (t, redact_value t v)) rs) @ redact_records rest"
  using assms
proof (induction rs)
  case Nil
  then show ?case by simp
next
  case (Cons r rs)
  then show ?case
    by (cases r) (simp add: tlv_records_Cons redact_records_record)
qed

lemma redact_records_terminator:
  "redact_records (tlv_end @ x # y # rest) = tlv_end @ x # y # rest"
  by (simp add: redact_records.simps tlv_step_terminator del: append.simps)

lemma length_redact_records: "length (redact_records d) = length d"
proof (induction d rule: redact_records.induct)
  case (1 d)
  show ?case
  proof (cases "tlv_step d")
    case (T_Record t h v rest)
    have "h + length v + length rest \<le> length d"
    proof -
      from T_Record have "v = py_slice h (h + length v) d" "h + length v \<le> length d"
        "rest = skip_close t (drop (h + length v) d)"
        by (auto simp: tlv_step_def Let_def split: if_splits)
      then show ?thesis using length_skip_close [of t "drop (h + length v) d"] by simp
    qed
    with "1.IH" [OF T_Record] T_Record show ?thesis
      by (subst redact_records.simps) simp
  qed (simp_all add: redact_records.simps)
qed

lemma length_redact: "length (redact payload) = length payload"
  by (simp add: redact_def Let_def length_redact_records)

text \<open>The dump of a frame is a function of the redacted frame and its length.\<close>

lemma trace_frame_redacted:
  assumes "redact p = redact q"
  shows "trace_frame stamp dir p sid t = trace_frame stamp dir q sid t"
proof -
  have "length p = length q" using length_redact [of p] length_redact [of q] assms by simp
  with assms show ?thesis by (simp add: trace_frame_def Let_def)
qed

lemma trace_emit_closed [simp]: "fh t = None \<Longrightarrow> trace_emit l t = t"
  by (simp add: trace_emit_def)

lemma trace_emits_open: "fh t = Some ls \<Longrightarrow> fh (trace_emits ms t) = Some (ls @ ms)"
  by (induction ms arbitrary: t ls) (auto simp: trace_emits_def trace_emit_def)

lemma trace_emits_closed: "fh t = None \<Longrightarrow> trace_emits ms t = t"
  by (induction ms) (auto simp: trace_emits_def)

section \<open>Properties\<close>

text \<open>A body is found behind an 80-byte gateway header, or at the start when there is none.\<close>

definition framed :: "bytes \<Rightarrow> (nat \<times> bytes) list \<Rightarrow> bool" where
  "framed hdr rs \<longleftrightarrow>
     (if hdr = [] then rs \<noteq> [] \<and> fst (hd rs) div 256 \<noteq> 6 else length hdr = 80 \<and> take 1 hdr = [6])"

lemma first_of_stream:
  "t < 0xFFFF \<Longrightarrow> take 1 (tlv_records ((t, v) # rs) @ z) = [word_of_nat (t div 256)]"
proof -
  have "be_bytes 2 t = [word_of_nat (t div 256), word_of_nat t]"
    by (simp only: be_bytes_def numeral_2_eq_2) simp
  then show ?thesis by (simp add: tlv_records_Cons tlv_record_body_def)
qed

lemma redact_framed:
  assumes "framed hdr rs" and "\<forall>r \<in> set rs. ok_record r"
  shows "redact (hdr @ tlv_records rs @ tlv_end @ x # y # rest) =
    hdr @ tlv_records (map (\<lambda>(t, v). (t, redact_value t v)) rs) @ tlv_end @ x # y # rest"
proof -
  have body: "redact_records (tlv_records rs @ tlv_end @ x # y # rest) =
      tlv_records (map (\<lambda>(t, v). (t, redact_value t v)) rs) @ tlv_end @ x # y # rest"
    by (simp add: redact_records_stream [OF assms(2)] redact_records_terminator del: append.simps)
  show ?thesis
  proof (cases "hdr = []")
    case True
    then obtain t v rs' where rs: "rs = (t, v) # rs'" "t div 256 \<noteq> 6"
      using assms(1) by (cases rs) (auto simp: framed_def)
    have t: "t < 0xFFFF" using assms(2) by (simp add: rs ok_record_def)
    then have "unat (word_of_nat (t div 256) :: byte) = t div 256" by (simp add: unsigned_of_nat take_bit_eq_mod)
    moreover have "unat (6 :: byte) = 6" by simp
    ultimately have "word_of_nat (t div 256) \<noteq> (6 :: byte)" using rs(2) by metis
    then have "take 1 (tlv_records rs @ tlv_end @ x # y # rest) \<noteq> [6]"
      using first_of_stream [OF t] by (simp add: rs)
    then show ?thesis using body by (simp add: True redact_def)
  next
    case False
    then have h: "length hdr = 80" "take 1 hdr = [6]" using assms(1) by (simp_all add: framed_def)
    then show ?thesis using body by (simp add: redact_def GW_HEADER_LEN_def)
  qed
qed

text \<open>The trace of a record stream does not show the password.  Two streams, bare or behind a
  gateway header of 80 bytes, that differ only in a password value of the same length leave the
  same trace file, whatever the level, the direction and the socket.\<close>

lemma trace_hides_password:
  assumes "\<forall>r \<in> set (rs @ (TAG_PASSWORD, p) # ss). ok_record r" and "length p = length q"
    and "framed hdr (rs @ (TAG_PASSWORD, p) # ss)"
  shows "trace_frame stamp dir (hdr @ tlv_records (rs @ (TAG_PASSWORD, p) # ss) @ tlv_end @ x # y # rest) sid t =
    trace_frame stamp dir (hdr @ tlv_records (rs @ (TAG_PASSWORD, q) # ss) @ tlv_end @ x # y # rest) sid t"
proof (rule trace_frame_redacted)
  have "framed hdr (rs @ (TAG_PASSWORD, q) # ss)"
    using assms(3) by (cases rs) (auto simp: framed_def)
  moreover have "\<forall>r \<in> set (rs @ (TAG_PASSWORD, q) # ss). ok_record r"
    using assms(1,2) by (auto simp: ok_record_def)
  ultimately show "redact (hdr @ tlv_records (rs @ (TAG_PASSWORD, p) # ss) @ tlv_end @ x # y # rest) =
      redact (hdr @ tlv_records (rs @ (TAG_PASSWORD, q) # ss) @ tlv_end @ x # y # rest)"
    using assms by (simp add: redact_framed redact_value_def del: append.simps)
qed

end
