(* ===== verification/Logon_Bodies.thy ===== *)
theory Logon_Bodies
  imports Gw_Frames Rfc_Trace
begin

text \<open>
  What the logon bodies of \<^verbatim>\<open>src/saprfclib/connection.py\<close> carry, read back with the library's own
  walkers, and what the trace of \<^verbatim>\<open>src/saprfclib/trace.py\<close> makes of the frames around them.
\<close>

section \<open>Widths of the gateway frames\<close>

lemma length_gw_header [simp]: "4 + 4 \<le> w \<Longrightarrow> length (gw_header w t) = w"
  by (simp add: gw_header_def length_pack_at)

lemma length_client_tail [simp]: "length (client_tail snc) = 4"
  by (simp add: client_tail_def)

lemma length_rfc_header: "length h = 8 \<Longrightarrow> length (rfc_header h) = 76"
  by (simp add: rfc_header_def Let_def length_put_slice length_pack_at)

lemma length_gw_done_client: "length h = 8 \<Longrightarrow> length (build_gw_done_client h snc) = 80"
  by (simp add: build_gw_done_client_def Let_def length_put_slice length_pack_at)

lemma ascii_bytes_length: "ascii_bytes s = Inr b \<Longrightarrow> length b = length s"
  by (auto simp: ascii_bytes_def opt_res_def ascii_encode_def split: option.splits if_splits)

lemma length_gw_info:
  assumes "build_gw_info h gwhost snc = Inr f" and "length h = 8"
  shows "length f = 224"
  using assms
  by (auto simp: build_gw_info_def bind_res_Inr Let_def length_put_slice length_pack_at
      dest!: ascii_bytes_length)

lemma length_two_digits: "n \<le> 99 \<Longrightarrow> length (two_digits n) = 2"
  using length_dec_digits_le [of 2 n] by (simp add: two_digits_def)

lemma length_hex_upper_bytes: "length (hex_upper_bytes bs) = 2 * length bs"
  by (induction bs) (auto simp: hex_upper_bytes_def)

lemma put_slice_keeps_length:
  "length xs = n \<Longrightarrow> b \<le> n \<Longrightarrow> a \<le> b \<Longrightarrow> length v = b - a \<Longrightarrow> length (put_slice a b v xs) = n"
  by (simp add: length_put_slice)

lemma length_gw_connect:
  assumes "build_gw_connect_request rnd hn gwhost nr snc = Inr f" and "length rnd = 16"
  shows "length f = 453"
proof -
  obtain host8 n host where parts: "ascii_bytes (ljust 8 32 (take 8 gwhost)) = Inr host8"
      "validate_sysnr nr = Inr n" "ascii_bytes gwhost = Inr host"
    using assms(1) by (auto simp: build_gw_connect_request_def bind_res_Inr Let_def)
  have n: "n \<le> 99" using parts(2) by (auto simp: validate_sysnr_def split: if_splits)
  have l: "length host8 = 8" "length (hex_upper_bytes rnd) = 32"
    using ascii_bytes_length [OF parts(1)] assms(2) by (auto simp: length_hex_upper_bytes)
  have f: "length GW_CONNECT_FIXED = 20" "length (GW_CONNECT_FIXED[2 := 0x21]) = 20"
    by (simp_all add: GW_CONNECT_FIXED_def)
  note sizes = l f length_two_digits [OF n]
  have "f = f \<longrightarrow> length f = 453"
    using assms(1) [unfolded build_gw_connect_request_def parts bind_res.simps Let_def, symmetric]
    by (simp only: sum.inject) (intro impI put_slice_keeps_length; simp add: sizes)
  then show ?thesis by simp
qed

section \<open>Logon bodies as records\<close>

lemma tlv_ext_record:
  "t < 0x10000 \<Longrightarrow> length v < 0xFFFF \<Longrightarrow> tlv_ext t v = Inr (tlv_record_body t v)"
  by (simp add: tlv_ext_def tlv_record_body_def)

lemma join_res_Inr: "join_res (map Inr bs) = Inr (concat bs)"
  by (simp add: join_res_def seq_res_all_Inr)

text \<open>The records of the classic logon, in order.\<close>

definition logon_records ::
    "bytes \<Rightarrow> pystr \<Rightarrow> 32 word \<Rightarrow> pystr \<Rightarrow> pystr option \<Rightarrow> pystr option \<Rightarrow> bytes \<Rightarrow> bytes
     \<Rightarrow> (nat \<times> bytes) list" where
  "logon_records token hostname seed client user passwd program_name lang_byte =
     [(0x0101, TLV_CAPS), (0x0103, TLV_VER), (0x0106, TLV_CP), (0x0514, token),
      (0x0114, ascii_enc_replace client)]
     @ (case user of None \<Rightarrow> [] | Some u \<Rightarrow> [(0x0111, ascii_enc_replace u)])
     @ (case passwd of None \<Rightarrow> [] | Some p \<Rightarrow> [(0x0117, scramble_password p seed)])
     @ [(0x0115, lang_byte), (0x0501, [1]), (0x0007, blit ''127.0.0.1''), (0x0011, lang_byte),
        (0x0012, TLV_REL), (0x0013, TLV_REL), (0x0008, ascii_enc_replace hostname),
        (0x0006, TLV_PROG), (0x0130, program_name), (0x0502, []), (0x000B, TLV_REL),
        (0x0102, RFCPING_NAME)]"

lemmas logon_constants =
  TLV_CAPS_def TLV_VER_def TLV_CP_def TLV_REL_def TLV_PROG_def RFCPING_NAME_def

lemma length_ascii_enc_replace [simp]: "length (ascii_enc_replace s) = length s"
  by (simp add: ascii_enc_replace_def)

lemma length_scramble_password [simp]: "length (scramble_password p seed) = 4 + length p"
  by (simp add: scramble_password_def latin1_replace_def)

definition short_texts :: "bytes \<Rightarrow> pystr \<Rightarrow> pystr \<Rightarrow> pystr option \<Rightarrow> pystr option \<Rightarrow> bytes \<Rightarrow> bool" where
  "short_texts token hostname client user passwd program_name \<longleftrightarrow>
     length token < 0xFFFF \<and> length hostname < 0xFFFF \<and> length client < 0xFFFF \<and>
     (case user of None \<Rightarrow> True | Some u \<Rightarrow> length u < 0xFFFF) \<and>
     (case passwd of None \<Rightarrow> True | Some p \<Rightarrow> length p < 0xFFF0) \<and> length program_name < 0xFFFF"

lemma logon_records_ok:
  assumes "short_texts token hostname client user passwd prog" and "length lb = 1"
  shows "\<forall>r \<in> set (logon_records token hostname seed client user passwd prog lb).
    ok_record r \<and> length (snd r) < 0xFFFF"
  using assms
  by (auto simp: logon_records_def short_texts_def ok_record_def logon_constants split: option.splits)

definition LOGON_TRAILER :: bytes where
  "LOGON_TRAILER = [0xFF, 0xFF, 0, 0] @ [0xFF, 0xFF, 0, 0, 0, 0xF8, 0, 0, 0x85, 0]"

lemma seq_res_Inr_Cons': "seq_res (Inr x # rs) = map_res ((#) x) (seq_res rs)"
  by simp

lemma build_logon_request_records:
  assumes "encode_logon_language uc lang = Inr lb"
    and "short_texts token hostname client user passwd prog"
  shows "build_logon_request uc token hostname seed client user passwd local_ip prog lang =
    Inr (tlv_records (logon_records token hostname seed client user passwd prog lb) @ LOGON_TRAILER)"
proof -
  have lb: "length lb = 1" using encode_logon_language_one_byte [OF assms(1)] .
  note ok = logon_records_ok [OF assms(2) lb, of seed]
  have t: "tlv_ext (fst r) (snd r) = Inr (tlv_record_body (fst r) (snd r))"
    if "r \<in> set (logon_records token hostname seed client user passwd prog lb)" for r
    using ok that by (intro tlv_ext_record) (auto simp: ok_record_def)
  have "build_logon_request uc token hostname seed client user passwd local_ip prog lang =
      join_res (map (\<lambda>r. tlv_ext (fst r) (snd r))
          (logon_records token hostname seed client user passwd prog lb)
        @ [Inr [0xFF, 0xFF, 0, 0], Inr [0xFF, 0xFF, 0, 0, 0, 0xF8, 0, 0, 0x85, 0]])"
    unfolding build_logon_request_def assms(1) logon_records_def
    by (cases user; cases passwd) simp_all
  also have "\<dots> = join_res (map Inr (map (\<lambda>r. tlv_record_body (fst r) (snd r))
          (logon_records token hostname seed client user passwd prog lb)
        @ [[0xFF, 0xFF, 0, 0], [0xFF, 0xFF, 0, 0, 0, 0xF8, 0, 0, 0x85, 0]]))"
    using t by (intro arg_cong [where f = join_res]) simp
  also have "\<dots> = Inr (tlv_records (logon_records token hostname seed client user passwd prog lb)
      @ LOGON_TRAILER)"
    unfolding join_res_Inr by (simp add: tlv_records_def LOGON_TRAILER_def case_prod_unfold)
  finally show ?thesis .
qed

text \<open>The body read back: user and password are where the receiver looks for them.\<close>

lemma parse_logon_request:
  assumes "encode_logon_language uc lang = Inr lb"
    and "short_texts token hostname client user passwd prog"
    and "build_logon_request uc token hostname seed client user passwd local_ip prog lang = Inr body"
  shows "\<exists>tags. parse_tlv_stream body = Inr tags \<and>
    tags 0x0111 = map_option ascii_enc_replace user \<and>
    tags 0x0117 = map_option (\<lambda>p. scramble_password p seed) passwd \<and>
    tags 0x0114 = Some (ascii_enc_replace client) \<and> tags 0x0102 = Some RFCPING_NAME"
proof -
  have lb: "length lb = 1" using encode_logon_language_one_byte [OF assms(1)] .
  let ?rs = "logon_records token hostname seed client user passwd prog lb"
  have ok: "\<forall>r \<in> set ?rs. ok_record r" using logon_records_ok [OF assms(2) lb, of seed] by blast
  have body: "body = tlv_records ?rs @ tlv_end @ 0 # 0 # [0xFF, 0xFF, 0, 0, 0, 0xF8, 0, 0, 0x85, 0]"
    using build_logon_request_records [OF assms(1,2)] assms(3) by (simp add: LOGON_TRAILER_def)
  have "parse_tlv_stream body = Inr (map_of (rev ?rs))"
    unfolding body by (rule parse_tlv_stream_written [OF ok])
  moreover have "map_of (rev ?rs) 0x0111 = map_option ascii_enc_replace user"
    "map_of (rev ?rs) 0x0117 = map_option (\<lambda>p. scramble_password p seed) passwd"
    "map_of (rev ?rs) 0x0114 = Some (ascii_enc_replace client)"
    "map_of (rev ?rs) 0x0102 = Some RFCPING_NAME"
    by (simp_all add: logon_records_def split: option.splits)
  ultimately show ?thesis by blast
qed

section \<open>What the trace keeps of a logon\<close>

lemma take_put_slice:
  "n \<le> a \<Longrightarrow> a \<le> length xs \<Longrightarrow> take n (put_slice a b v xs) = take n xs"
  by (simp add: put_slice_def)

lemma gw_header_first: "take 1 (gw_header 76 GW_TYPE_RFC) = [6]"
proof -
  have "be_bytes 2 GW_TYPE_RFC = [6, 0xCB]" by code_simp
  then show ?thesis by (simp add: gw_header_def pack_at_def put_slice_def)
qed

lemma rfc_header_first:
  assumes "length h = 8"
  shows "take 1 (rfc_header h @ xs) = [6]"
proof -
  define p1 where "p1 = pack_at 24 (be_bytes 4 GW_HDR_APPC_VER) (gw_header 76 GW_TYPE_RFC)"
  define p2 where "p2 = pack_at 28 (be_bytes 4 GW_HDR_MAX_LEN) p1"
  have l: "length p1 = 76" "length p2 = 76" by (simp_all add: p1_def p2_def length_pack_at)
  have "take 1 p1 = [6]"
    unfolding p1_def pack_at_def by (subst take_put_slice) (simp_all add: gw_header_first del: One_nat_def)
  then have "take 1 p2 = [6]"
    unfolding p2_def pack_at_def by (subst take_put_slice) (simp_all add: l(1) del: One_nat_def)
  then have "take 1 (put_slice 40 48 h p2) = [6]"
    by (subst take_put_slice) (simp_all add: l(2) del: One_nat_def)
  moreover have "rfc_header h = put_slice 40 48 h p2"
    unfolding rfc_header_def Let_def p2_def p1_def ..
  moreover have "length (rfc_header h) = 76" by (rule length_rfc_header [OF assms])
  ultimately show ?thesis by (cases "rfc_header h") simp_all
qed

text \<open>The call-head after the gateway header is taken for a record: the walk ends at once and the
  frame, with its password record, is left as it is.\<close>

lemma redact_logon_frame:
  assumes "length h = 8" and "length body < 50152"
  shows "redact (build_logon_frame h body snc) = build_logon_frame h body snc"
proof -
  let ?f = "build_logon_frame h body snc"
  have len: "length (rfc_header h @ client_tail snc) = 80" using length_rfc_header [OF assms(1)] by simp
  have f: "?f = (rfc_header h @ client_tail snc) @ COM_HEAD @ body"
    by (simp add: build_logon_frame_def)
  have "take 1 ?f = [6]"
    using rfc_header_first [OF assms(1), of "client_tail snc @ COM_HEAD @ body"]
    by (simp add: build_logon_frame_def)
  moreover have "length ?f > 80" using len by (simp add: f COM_HEAD_def)
  ultimately have r: "redact ?f = take 80 ?f @ redact_records (drop 80 ?f)"
    by (simp add: redact_def GW_HEADER_LEN_def)
  have d: "drop 80 ?f = COM_HEAD @ body" "take 80 ?f = rfc_header h @ client_tail snc"
    unfolding f using len by simp_all
  have c: "COM_HEAD @ body = be_bytes 2 0xD9C6 @ be_bytes 2 0xC3F0 @ replicate 8 0xF0 @ body"
  proof -
    have "be_bytes 2 n = [word_of_nat (n div 256), word_of_nat n]" for n
      by (simp add: be_bytes_def numeral_2_eq_2)
    moreover have "replicate 9 (0xF0 :: byte) = 0xF0 # replicate 8 0xF0"
      using replicate_Suc [of 8 "0xF0 :: byte"] by simp
    ultimately have "COM_HEAD = be_bytes 2 0xD9C6 @ be_bytes 2 0xC3F0 @ replicate 8 0xF0"
      by (simp add: COM_HEAD_def)
    then show ?thesis by simp
  qed
  have "tlv_step (COM_HEAD @ body) = T_Overrun 0xD9C6"
    unfolding c using assms(2) by (subst tlv_step_short_form) simp_all
  then have "redact_records (COM_HEAD @ body) = COM_HEAD @ body"
    by (simp add: redact_records.simps)
  then show ?thesis using r d by (simp add: build_logon_frame_def)
qed

text \<open>A body that is not behind that call-head loses the secret: only its length is left.\<close>

lemma redact_bare_records:
  assumes "\<forall>r \<in> set rs. ok_record r" and "take 1 (tlv_records rs @ tlv_end @ x # y # rest) \<noteq> [6]"
  shows "redact (tlv_records rs @ tlv_end @ x # y # rest) =
    tlv_records (map (\<lambda>(t, v). (t, redact_value t v)) rs) @ tlv_end @ x # y # rest"
  using assms
  by (simp add: redact_def redact_records_stream redact_records_terminator del: append.simps)

section \<open>Properties\<close>

lemma slice_mid: "length xs = a \<Longrightarrow> b = a + length ys \<Longrightarrow> py_slice a b (xs @ ys @ zs) = ys"
  by (simp add: py_slice_def)

text \<open>The gateway control frames have the widths the gateway expects.  Whatever the host names,
  a connect request built from 16 random bytes is 453 bytes and, with an eight-byte handle, the
  info frame is 224 and the done frame 80; the invoke frame is its 80-byte header, the body
  and an 8-byte footer that carries the length of the body.\<close>

theorem gateway_frame_widths:
  assumes "length h = 8" and "length rnd = 16" and "length body < 2 ^ 32"
  shows "(\<forall>f. build_gw_connect_request rnd hn gwhost nr snc = Inr f \<longrightarrow> length f = 453) \<and>
    (\<forall>f. build_gw_info h gwhost snc = Inr f \<longrightarrow> length f = 224) \<and>
    length (build_gw_done_client h snc) = 80 \<and>
    (\<exists>f. build_invoke_frame h body = Inr f \<and> length f = 88 + length body \<and>
      py_slice 80 (80 + length body) f = body \<and>
      be_val (py_slice (80 + length body) (84 + length body) f) = length body)"
proof (intro conjI allI impI)
  show "\<exists>f. build_invoke_frame h body = Inr f \<and> length f = 88 + length body \<and>
      py_slice 80 (80 + length body) f = body \<and>
      be_val (py_slice (80 + length body) (84 + length body) f) = length body"
  proof (intro exI conjI)
    let ?f = "(rfc_header h @ RFC_MARKER) @ body @ be_bytes 4 (length body) @ INVOKE_FOOTER_MAGIC"
    have l: "length (rfc_header h @ RFC_MARKER) = 80"
      using length_rfc_header [OF assms(1)] by (simp add: RFC_MARKER_def)
    show "build_invoke_frame h body = Inr ?f" using assms(3) by (simp add: build_invoke_frame_def)
    show "length ?f = 88 + length body" using l by (simp add: INVOKE_FOOTER_MAGIC_def)
    show "py_slice 80 (80 + length body) ?f = body" using l by (rule slice_mid) simp
    have "length ((rfc_header h @ RFC_MARKER) @ body) = 80 + length body" using l by simp
    then have "py_slice (80 + length body) (84 + length body) (((rfc_header h @ RFC_MARKER) @ body)
        @ be_bytes 4 (length body) @ INVOKE_FOOTER_MAGIC) = be_bytes 4 (length body)"
      by (rule slice_mid) simp
    then show "be_val (py_slice (80 + length body) (84 + length body) ?f) = length body"
      using assms(3) by simp
  qed
qed (use assms length_gw_connect length_gw_info length_gw_done_client in auto)

text \<open>C40. The trace of a logon frame keeps the password record.  The logon body sits behind a call
  head of twelve bytes that the redaction does not know of, so for every body of ordinary size the
  logged frame is the frame itself, and it holds the password record, whose scrambling is undone
  with the seed in its first four bytes.\<close>

theorem logon_trace_keeps_password:
  assumes "length h = 8" and "encode_logon_language uc lang = Inr lb"
    and "short_texts token hostname client user (Some p) prog"
    and "build_logon_request uc token hostname seed client user (Some p) local_ip prog lang = Inr body"
    and "length body < 50152"
  shows "redact (build_logon_frame h body snc) = build_logon_frame h body snc \<and>
    (\<exists>pre post. build_logon_frame h body snc
       = pre @ tlv_record_body TAG_PASSWORD (scramble_password p seed) @ post)"
proof
  show "redact (build_logon_frame h body snc) = build_logon_frame h body snc"
    by (rule redact_logon_frame [OF assms(1,5)])
  obtain rs ss where rs: "logon_records token hostname seed client user (Some p) prog lb
      = rs @ (0x0117, scramble_password p seed) # ss"
    unfolding logon_records_def by (simp only: option.case append_assoc append_Cons append_Nil) (metis append_assoc append_Cons append_Nil)
  have "body = tlv_records rs @ tlv_record_body TAG_PASSWORD (scramble_password p seed) @ tlv_records ss @ LOGON_TRAILER"
    using assms(4) build_logon_request_records [OF assms(2,3), of seed local_ip]
    by (simp add: rs tlv_records_append tlv_records_Cons TAG_PASSWORD_def)
  then show "\<exists>pre post. build_logon_frame h body snc
      = pre @ tlv_record_body TAG_PASSWORD (scramble_password p seed) @ post"
    unfolding build_logon_frame_def by (metis append_assoc)
qed

theorem logon_trace_keeps_password_witness:
  "\<exists>body. redact (build_logon_frame (replicate 8 0x30) body False) = build_logon_frame (replicate 8 0x30) body False \<and>
    (\<exists>pre post. build_logon_frame (replicate 8 0x30) body False
       = pre @ tlv_record_body TAG_PASSWORD (scramble_password (lit ''secret'') 7) @ post)"
proof -
  let ?t = "replicate 16 0 :: bytes"
  have lang: "encode_logon_language (\<lambda>c. [c]) (lit ''E'') = Inr [69]"
    by (simp add: encode_logon_language_def normalize_logon_language_def py_upper_def upper_cp_def strip_by_def
        lstrip_by_def rstrip_by_def is_space_def ws_chars_def is_ascii_def ascii_encode_def)
  have short: "short_texts ?t (lit ''host'') (lit ''001'') (Some (lit ''USER'')) (Some (lit ''secret'')) (blit ''python3'')"
    by (simp add: short_texts_def)
  obtain body where b: "build_logon_request (\<lambda>c. [c]) ?t (lit ''host'') 7 (lit ''001'') (Some (lit ''USER''))
      (Some (lit ''secret'')) [] (blit ''python3'') (lit ''E'') = Inr body"
    using build_logon_request_records [OF lang short] by blast
  have "length body < 50152"
    using b build_logon_request_records [OF lang short, of 7 "[]"]
    by (auto simp: logon_records_def logon_constants LOGON_TRAILER_def tlv_records_def length_tlv_record_body)
  from logon_trace_keeps_password [OF _ lang short b this, of "replicate 8 0x30" False]
  show ?thesis by auto
qed

end
