(* ===== verification/Ni_Transport.thy ===== *)
theory Ni_Transport
  imports Rfc_Trace
begin

text \<open>
  \<^verbatim>\<open>src/saprfclib/transport.py\<close>: NI framing (a four-byte big-endian length in front of each
  payload), the blocking transport over a socket and its asyncio twin.

  A socket is the list of segments still to be delivered by \<^verbatim>\<open>recv_into\<close>, each non-empty, and
  the bytes sent so far; when the list is empty the peer has closed.  The asyncio reader is the
  remaining byte stream.  Socket errors other than the peer's close are not modelled.
\<close>

section \<open>NI control messages\<close>

definition NI_RTERR :: bytes where "NI_RTERR = blit ''NI_RTERR''"
definition NI_PONG :: bytes where "NI_PONG = blit ''NI_PONG''"
definition ERR_MARK :: bytes where "ERR_MARK = blit ''*ERR*''"

definition NI_ERROR_FALLBACK :: pystr where
  "NI_ERROR_FALLBACK = lit (''the SAProuter refused the route. Common causes: the route is not permitted '' @
     ''by the router's permission table, a hop password is wrong or missing, or the '' @
     ''target host/port is unreachable from the router'')"

definition ni_error_text :: "bytes \<Rightarrow> pystr" where
  "ni_error_text payload =
     (case find_sub ERR_MARK payload of
        None \<Rightarrow> NI_ERROR_FALLBACK
      | Some start \<Rightarrow>
          let fields = filter (\<lambda>f. strip_by is_bspace f \<noteq> []) (split_on 0 (drop start payload)) in
          if length fields < 3 then NI_ERROR_FALLBACK
          else let message = py_strip (latin1_decode (fields ! 2)) in
               if message = [] then NI_ERROR_FALLBACK else message)"

definition raise_for_ni_error :: "bytes \<Rightarrow> unit res" where
  "raise_for_ni_error payload =
     (if starts_with NI_RTERR payload
      then Inl (SapRfcError (lit ''SAProuter refused the route: '' @ ni_error_text payload))
      else Inr ())"

definition is_ni_pong :: "bytes \<Rightarrow> bool" where
  "is_ni_pong payload = starts_with NI_PONG payload"

section \<open>Frames\<close>

definition build_ni_frame :: "bytes \<Rightarrow> bytes res" where
  "build_ni_frame payload =
     (if length payload \<ge> 2 ^ 32 then Inl StructError
      else Inr (be_bytes 4 (length payload) @ payload))"

definition parse_ni_frame :: "bytes \<Rightarrow> (nat \<times> bytes) res" where
  "parse_ni_frame buf =
     (if length buf < 4 then Inl StructError
      else let n = be_val (take 4 buf) in Inr (n, py_slice 4 (4 + n) buf))"

section \<open>Reading exactly n bytes from a stream of segments\<close>

type_synonym segments = "bytes list"

text \<open>\<^verbatim>\<open>sock.recv_into(view, k)\<close>: at most \<open>k\<close> bytes of the next segment; none if closed.\<close>

fun recv_into :: "nat \<Rightarrow> segments \<Rightarrow> bytes \<times> segments" where
  "recv_into k [] = ([], [])"
| "recv_into k (c # cs) = (take k c, if length c \<le> k then cs else drop k c # cs)"

function recv_loop :: "nat \<Rightarrow> bytes \<Rightarrow> segments \<Rightarrow> bytes res \<times> segments" where
  "recv_loop n buf s =
     (if length buf < n then
        (let (chunk, s') = recv_into (n - length buf) s in
         if chunk = [] then (Inl EOFError, s') else recv_loop n (buf @ chunk) s')
      else (Inr buf, s))"
  by pat_completeness auto
termination
  by (relation "measure (\<lambda>(n, buf, s). n - length buf)") (auto simp: diff_less_mono2)

declare recv_loop.simps [simp del]

definition recv_exactly :: "nat \<Rightarrow> (segments, bytes) act" where
  "recv_exactly n s = recv_loop n [] s"

text \<open>\<^verbatim>\<open>StreamReader.readexactly\<close>: a short stream is consumed and reported.\<close>

definition readexactly :: "nat \<Rightarrow> (bytes, bytes) act" where
  "readexactly n s =
     (if n \<le> length s then (Inr (take n s), drop n s) else (Inl IncompleteReadError, []))"

section \<open>The transports\<close>

definition MAX_FRAME_BYTES :: nat where "MAX_FRAME_BYTES = 128 * 1024 * 1024"

record 'i transport =
  inbound :: 'i
  outbound :: bytes
  bytes_sent :: nat
  bytes_received :: nat
  trace :: "rfc_trace option"

definition traced :: "pystr \<Rightarrow> pystr \<Rightarrow> bytes \<Rightarrow> rfc_trace option \<Rightarrow> rfc_trace option" where
  "traced stamp direction payload t = map_option (trace_frame stamp direction payload 1) t"

definition send_message :: "pystr \<Rightarrow> bytes \<Rightarrow> ('i transport, unit) act" where
  "send_message stamp payload t =
     (case build_ni_frame payload of
        Inl e \<Rightarrow> (Inl e, t)
      | Inr frame \<Rightarrow>
          (Inr (), t\<lparr>outbound := outbound t @ frame,
                     bytes_sent := bytes_sent t + length frame,
                     trace := traced stamp (lit ''Writing'') payload (trace t)\<rparr>))"

text \<open>\<^verbatim>\<open>recv_message\<close> over either way of reading exactly \<open>n\<close> bytes.\<close>

definition recv_message_via ::
  "(nat \<Rightarrow> ('i, bytes) act) \<Rightarrow> pystr \<Rightarrow> ('i transport, bytes) act" where
  "recv_message_via read stamp t =
     (case read 4 (inbound t) of
        (Inl e, s) \<Rightarrow> (Inl e, t\<lparr>inbound := s\<rparr>)
      | (Inr header, s) \<Rightarrow>
          let n = be_val header in
          if n > MAX_FRAME_BYTES then (Inl ValueError, t\<lparr>inbound := s\<rparr>)
          else
            (case read n s of
               (Inl e, s') \<Rightarrow> (Inl e, t\<lparr>inbound := s'\<rparr>)
             | (Inr payload, s') \<Rightarrow>
                 let t' = t\<lparr>inbound := s',
                            bytes_received := bytes_received t + 4 + length payload,
                            trace := traced stamp (lit ''Read'') payload (trace t)\<rparr>
                 in case raise_for_ni_error payload of
                      Inl e \<Rightarrow> (Inl e, t')
                    | Inr _ \<Rightarrow> (Inr payload, t')))"

definition recv_message :: "pystr \<Rightarrow> (segments transport, bytes) act" where
  "recv_message stamp t = recv_message_via recv_exactly stamp t"

definition async_recv_message :: "pystr \<Rightarrow> (bytes transport, bytes) act" where
  "async_recv_message stamp t = recv_message_via readexactly stamp t"

section \<open>Reading does not depend on the segmentation\<close>

lemma recv_into_concat:
  "recv_into k s = (c, s') \<Longrightarrow> [] \<notin> set s \<Longrightarrow>
     c @ concat s' = concat s \<and> length c \<le> k \<and> [] \<notin> set s' \<and> (0 < k \<and> s \<noteq> [] \<longrightarrow> c \<noteq> [])"
  by (cases s) (auto split: if_splits)

lemma recv_into_empty: "recv_into k s = ([], s') \<Longrightarrow> 0 < k \<Longrightarrow> [] \<notin> set s \<Longrightarrow> s = [] \<and> s' = []"
  by (cases s) (auto split: if_splits)

lemma recv_loop_correct:
  assumes "[] \<notin> set s" and "length buf \<le> n"
  shows "if n - length buf \<le> length (concat s)
         then \<exists>s'. recv_loop n buf s = (Inr (buf @ take (n - length buf) (concat s)), s') \<and>
                   concat s' = drop (n - length buf) (concat s) \<and> [] \<notin> set s'
         else recv_loop n buf s = (Inl EOFError, [])"
  using assms
proof (induction n buf s rule: recv_loop.induct)
  case (1 n buf s)
  show ?case
  proof (cases "length buf < n")
    case False
    with "1.prems" show ?thesis by (simp add: recv_loop.simps)
  next
    case True
    obtain c s1 where r: "recv_into (n - length buf) s = (c, s1)" by fastforce
    note rc = recv_into_concat [OF r "1.prems"(1)]
    show ?thesis
    proof (cases "c = []")
      case c: True
      with r have "s = [] \<and> s1 = []"
        using recv_into_empty [of "n - length buf" s s1] True "1.prems"(1) by simp
      with True r c show ?thesis
        by (subst recv_loop.simps) simp
    next
      case c: False
      have step: "recv_loop n buf s = recv_loop n (buf @ c) s1"
        using True r c by (subst recv_loop.simps) simp
      have IH: "if n - length (buf @ c) \<le> length (concat s1)
         then \<exists>s'. recv_loop n (buf @ c) s1
                     = (Inr ((buf @ c) @ take (n - length (buf @ c)) (concat s1)), s') \<and>
                   concat s' = drop (n - length (buf @ c)) (concat s1) \<and> [] \<notin> set s'
         else recv_loop n (buf @ c) s1 = (Inl EOFError, [])"
        using True rc by (intro "1.IH" [OF True r [symmetric] refl c]) auto
      have s: "concat s = c @ concat s1" and le: "length c \<le> n - length buf" using rc by auto
      show ?thesis using IH le by (simp only: step s) (simp add: le_diff_conv2 split: if_splits)
    qed
  qed
qed

text \<open>The law of an exact reader: what a transport needs from the layer below it.\<close>

locale exact_reader =
  fixes read :: "nat \<Rightarrow> ('i, bytes) act"
    and content :: "'i \<Rightarrow> bytes"
    and wf :: "'i \<Rightarrow> bool"
    and eof :: exn
  assumes read_enough: "wf s \<Longrightarrow> n \<le> length (content s) \<Longrightarrow>
      \<exists>s'. read n s = (Inr (take n (content s)), s') \<and> content s' = drop n (content s) \<and> wf s'"
    and read_short: "wf s \<Longrightarrow> length (content s) < n \<Longrightarrow>
      \<exists>s'. read n s = (Inl eof, s') \<and> content s' = [] \<and> wf s'"
    and eof_is_EOFError: "isinstance eof C_EOFError"
begin

lemma recv_short_header:
  assumes "wf (inbound t)" and "length (content (inbound t)) < 4"
  shows "\<exists>s'. recv_message_via read stamp t = (Inl eof, t\<lparr>inbound := s'\<rparr>)"
  using read_short [OF assms] by (auto simp: recv_message_via_def)

lemma recv_oversized:
  assumes "wf (inbound t)" and "4 \<le> length (content (inbound t))"
    and "be_val (take 4 (content (inbound t))) > MAX_FRAME_BYTES"
  shows "\<exists>s'. recv_message_via read stamp t = (Inl ValueError, t\<lparr>inbound := s'\<rparr>) \<and>
    content s' = drop 4 (content (inbound t))"
  using read_enough [OF assms(1,2)] assms(3) by (auto simp: recv_message_via_def Let_def)

lemma recv_truncated:
  assumes "wf (inbound t)" and "4 \<le> length (content (inbound t))"
    and "be_val (take 4 (content (inbound t))) \<le> MAX_FRAME_BYTES"
    and "length (content (inbound t)) < 4 + be_val (take 4 (content (inbound t)))"
  shows "\<exists>s'. recv_message_via read stamp t = (Inl eof, t\<lparr>inbound := s'\<rparr>) \<and> content s' = []"
proof -
  let ?c = "content (inbound t)"
  obtain s1 where s1: "read 4 (inbound t) = (Inr (take 4 ?c), s1)" "content s1 = drop 4 ?c" "wf s1"
    using read_enough [OF assms(1,2)] by blast
  have "length (content s1) < be_val (take 4 ?c)" using s1(2) assms(2,4) by simp
  then obtain s2 where "read (be_val (take 4 ?c)) s1 = (Inl eof, s2)" "content s2 = []"
    using read_short [OF s1(3)] by blast
  with s1 assms(3) show ?thesis by (auto simp: recv_message_via_def Let_def)
qed

lemma recv_complete:
  assumes "wf (inbound t)" and "content (inbound t) = be_bytes 4 (length p) @ p @ rest"
    and "length p \<le> MAX_FRAME_BYTES"
  shows "\<exists>s'. recv_message_via read stamp t =
      ((case raise_for_ni_error p of Inl e \<Rightarrow> Inl e | Inr _ \<Rightarrow> Inr p),
       t\<lparr>inbound := s', bytes_received := bytes_received t + 4 + length p,
         trace := traced stamp (lit ''Read'') p (trace t)\<rparr>) \<and>
      content s' = rest \<and> wf s'"
proof -
  let ?c = "content (inbound t)"
  have "4 \<le> length ?c" using assms(2) by simp
  then obtain s1 where s1: "read 4 (inbound t) = (Inr (take 4 ?c), s1)" "content s1 = drop 4 ?c" "wf s1"
    using read_enough [OF assms(1)] by blast
  have n: "be_val (take 4 ?c) = length p" and c1: "content s1 = p @ rest"
    using assms(2,3) s1(2) by (simp_all add: MAX_FRAME_BYTES_def)
  have "length p \<le> length (content s1)" using c1 by simp
  then obtain s2 where s2: "read (length p) s1 = (Inr p, s2)" "content s2 = rest" "wf s2"
    using read_enough [OF s1(3)] c1 by fastforce
  show ?thesis
    using s1(1) s2 assms(3)
    by (simp add: recv_message_via_def Let_def n split: sum.split) blast
qed

end

interpretation sock: exact_reader recv_exactly concat "\<lambda>s. [] \<notin> set s" EOFError
proof unfold_locales
  fix s :: segments and n
  assume wf: "[] \<notin> set s"
  { assume "n \<le> length (concat s)"
    then show "\<exists>s'. recv_exactly n s = (Inr (take n (concat s)), s') \<and>
        concat s' = drop n (concat s) \<and> [] \<notin> set s'"
      using recv_loop_correct [OF wf, of "[]" n] by (simp add: recv_exactly_def) }
  { assume "length (concat s) < n"
    then show "\<exists>s'. recv_exactly n s = (Inl EOFError, s') \<and> concat s' = [] \<and> [] \<notin> set s'"
      using recv_loop_correct [OF wf, of "[]" n] by (simp add: recv_exactly_def) }
qed (simp add: isinstance_def)

interpretation stream: exact_reader readexactly "\<lambda>s. s" "\<lambda>s. True" IncompleteReadError
  by unfold_locales (auto simp: readexactly_def isinstance_def)

section \<open>Both transports read the same messages\<close>

text \<open>An asyncio end of file is reported by a subclass of the synchronous one.\<close>

definition as_sync_error :: "'a res \<Rightarrow> 'a res" where
  "as_sync_error r = (case r of Inl IncompleteReadError \<Rightarrow> Inl EOFError | _ \<Rightarrow> r)"

definition flat :: "segments transport \<Rightarrow> bytes transport" where
  "flat t = \<lparr>inbound = concat (inbound t), outbound = outbound t, bytes_sent = bytes_sent t,
     bytes_received = bytes_received t, trace = trace t\<rparr>"

lemma as_sync_error_simps [simp]:
  "as_sync_error (Inr x) = Inr x"
  "as_sync_error (Inl IncompleteReadError) = Inl EOFError"
  "as_sync_error (Inl ValueError) = Inl ValueError"
  by (simp_all add: as_sync_error_def)

lemma as_sync_error_ni: "as_sync_error (case raise_for_ni_error p of Inl e \<Rightarrow> Inl e | Inr _ \<Rightarrow> Inr p)
    = (case raise_for_ni_error p of Inl e \<Rightarrow> Inl e | Inr _ \<Rightarrow> Inr p)"
  by (simp add: raise_for_ni_error_def as_sync_error_def)

text \<open>The four ways a stream can begin.\<close>

lemma stream_cases:
  obtains (short) "length c < 4"
    | (big) "4 \<le> length c" "be_val (take 4 c) > MAX_FRAME_BYTES"
    | (cut) "4 \<le> length c" "be_val (take 4 c) \<le> MAX_FRAME_BYTES"
        "length c < 4 + be_val (take 4 c)"
    | (whole) p rest where "c = be_bytes 4 (length p) @ p @ rest" "length p \<le> MAX_FRAME_BYTES"
proof -
  consider "length c < 4" | "4 \<le> length c" "be_val (take 4 c) > MAX_FRAME_BYTES"
    | "4 \<le> length c" "be_val (take 4 c) \<le> MAX_FRAME_BYTES" "length c < 4 + be_val (take 4 c)"
    | "4 \<le> length c" "be_val (take 4 c) \<le> MAX_FRAME_BYTES" "4 + be_val (take 4 c) \<le> length c"
    by linarith
  then show ?thesis
  proof cases
    case 4
    let ?n = "be_val (take 4 c)"
    have "c = take 4 c @ take ?n (drop 4 c) @ drop ?n (drop 4 c)"
      by (simp only: append_take_drop_id)
    moreover have "take 4 c = be_bytes 4 ?n" using 4(1) by (simp add: be_bytes_be_val)
    moreover have "length (take ?n (drop 4 c)) = ?n" using 4(3) by simp
    ultimately show ?thesis using whole [of "take ?n (drop 4 c)" "drop ?n (drop 4 c)"] 4(2) by simp
  qed (use short big cut in blast)+
qed

lemma recv_message_flat:
  assumes "[] \<notin> set (inbound t)"
  shows "(case recv_message stamp t of (r, t') \<Rightarrow> (r, flat t'))
       = (case async_recv_message stamp (flat t) of (r, t') \<Rightarrow> (as_sync_error r, t'))"
proof (cases "concat (inbound t)" rule: stream_cases)
  case short
  then have a: "async_recv_message stamp (flat t) = (Inl IncompleteReadError, (flat t)\<lparr>inbound := []\<rparr>)"
    by (simp add: async_recv_message_def recv_message_via_def readexactly_def flat_def)
  have "recv_exactly 4 (inbound t) = (Inl EOFError, [])"
    using recv_loop_correct [OF assms, of "[]" 4] short by (simp add: recv_exactly_def)
  then have "recv_message stamp t = (Inl EOFError, t\<lparr>inbound := []\<rparr>)"
    by (simp add: recv_message_def recv_message_via_def)
  with a show ?thesis by (simp add: flat_def)
next
  case big
  obtain s where s: "recv_message stamp t = (Inl ValueError, t\<lparr>inbound := s\<rparr>)"
    "concat s = drop 4 (concat (inbound t))"
    using sock.recv_oversized [OF assms big] by (auto simp: recv_message_def)
  have "async_recv_message stamp (flat t)
      = (Inl ValueError, (flat t)\<lparr>inbound := drop 4 (concat (inbound t))\<rparr>)"
    using big by (simp add: async_recv_message_def recv_message_via_def readexactly_def flat_def)
  with s show ?thesis by (simp add: flat_def)
next
  case cut
  obtain s where s: "recv_message stamp t = (Inl EOFError, t\<lparr>inbound := s\<rparr>)" "concat s = []"
    using sock.recv_truncated [OF assms cut] by (auto simp: recv_message_def)
  have "async_recv_message stamp (flat t) = (Inl IncompleteReadError, (flat t)\<lparr>inbound := []\<rparr>)"
    using cut by (auto simp: async_recv_message_def recv_message_via_def readexactly_def flat_def Let_def)
  with s show ?thesis by (simp add: flat_def)
next
  case (whole p rest)
  obtain s where s: "recv_message stamp t =
      ((case raise_for_ni_error p of Inl e \<Rightarrow> Inl e | Inr _ \<Rightarrow> Inr p),
       t\<lparr>inbound := s, bytes_received := bytes_received t + 4 + length p,
         trace := traced stamp (lit ''Read'') p (trace t)\<rparr>)" "concat s = rest"
    using sock.recv_complete [OF assms whole, of stamp] by (auto simp: recv_message_def)
  obtain s2 where s2: "async_recv_message stamp (flat t) =
      ((case raise_for_ni_error p of Inl e \<Rightarrow> Inl e | Inr _ \<Rightarrow> Inr p),
       (flat t)\<lparr>inbound := s2, bytes_received := bytes_received t + 4 + length p,
         trace := traced stamp (lit ''Read'') p (trace t)\<rparr>)" "s2 = rest"
    using stream.recv_complete [of "flat t" p rest stamp] whole
    by (auto simp: async_recv_message_def flat_def)
  show ?thesis by (simp only: s s2 case_prod_conv as_sync_error_ni) (simp add: flat_def s(2))
qed

text \<open>What one side sends the other receives, whatever the segmentation.\<close>

lemma send_recv:
  assumes "send_message stamp p a = (Inr (), a')"
    and "outbound a' = outbound a @ frame"
    and "[] \<notin> set (inbound b)" and "concat (inbound b) = frame @ rest"
    and "length p \<le> MAX_FRAME_BYTES" and "\<not> starts_with NI_RTERR p"
  shows "\<exists>b'. recv_message stamp' b = (Inr p, b') \<and> concat (inbound b') = rest \<and>
    bytes_received b' = bytes_received b + (bytes_sent a' - bytes_sent a)"
proof -
  have f: "frame = be_bytes 4 (length p) @ p" and sent: "bytes_sent a' = bytes_sent a + 4 + length p"
    using assms(1,2) by (auto simp: send_message_def build_ni_frame_def split: if_splits)
  have "concat (inbound b) = be_bytes 4 (length p) @ p @ rest"
    using assms(4) f by simp
  then show ?thesis
    using sock.recv_complete [OF assms(3) _ assms(5), of rest stamp'] assms(6) sent
    by (auto simp: recv_message_def raise_for_ni_error_def)
qed

section \<open>Properties\<close>

text \<open>Several messages in a row.\<close>

fun send_all :: "pystr \<Rightarrow> bytes list \<Rightarrow> ('i transport, unit) act" where
  "send_all stamp [] t = (Inr (), t)"
| "send_all stamp (p # ps) t =
     (case send_message stamp p t of (Inl e, t') \<Rightarrow> (Inl e, t') | (Inr u, t') \<Rightarrow> send_all stamp ps t')"

fun recv_n :: "pystr \<Rightarrow> nat \<Rightarrow> (segments transport, bytes list) act" where
  "recv_n stamp 0 t = (Inr [], t)"
| "recv_n stamp (Suc n) t =
     (case recv_message stamp t of (Inl e, t') \<Rightarrow> (Inl e, t')
      | (Inr p, t') \<Rightarrow>
          (case recv_n stamp n t' of (Inl e, t2) \<Rightarrow> (Inl e, t2) | (Inr ps, t2) \<Rightarrow> (Inr (p # ps), t2)))"

definition sendable :: "bytes \<Rightarrow> bool" where
  "sendable p \<longleftrightarrow> length p \<le> MAX_FRAME_BYTES \<and> \<not> starts_with NI_RTERR p"

lemma send_all_outbound:
  assumes "\<forall>p \<in> set ps. sendable p"
  shows "\<exists>t'. send_all stamp ps t = (Inr (), t') \<and>
    outbound t' = outbound t @ concat (map (\<lambda>p. be_bytes 4 (length p) @ p) ps)"
  using assms
proof (induction ps arbitrary: t)
  case (Cons p ps)
  have "length p < 2 ^ 32" using Cons.prems by (simp add: sendable_def MAX_FRAME_BYTES_def)
  then obtain t1 where s: "send_message stamp p t = (Inr (), t1)"
      "outbound t1 = outbound t @ be_bytes 4 (length p) @ p"
    by (simp add: send_message_def build_ni_frame_def)
  show ?case using Cons.IH [of t1] Cons.prems s by auto
qed simp

lemma recv_n_all:
  assumes "\<forall>p \<in> set ps. sendable p" and "[] \<notin> set (inbound b)"
    and "concat (inbound b) = concat (map (\<lambda>p. be_bytes 4 (length p) @ p) ps) @ rest"
  shows "\<exists>b'. recv_n stamp (length ps) b = (Inr ps, b') \<and> concat (inbound b') = rest"
  using assms
proof (induction ps arbitrary: b)
  case (Cons p ps)
  have p: "length p \<le> MAX_FRAME_BYTES" "\<not> starts_with NI_RTERR p"
    using Cons.prems(1) by (simp_all add: sendable_def)
  have "concat (inbound b) =
      be_bytes 4 (length p) @ p @ concat (map (\<lambda>p. be_bytes 4 (length p) @ p) ps) @ rest"
    using Cons.prems(3) by simp
  from sock.recv_complete [OF Cons.prems(2) this p(1), of stamp] obtain s where
    s: "recv_message stamp b = (Inr p, b\<lparr>inbound := s, bytes_received := bytes_received b + 4 + length p,
         trace := traced stamp (lit ''Read'') p (trace b)\<rparr>)"
      "concat s = concat (map (\<lambda>p. be_bytes 4 (length p) @ p) ps) @ rest" "[] \<notin> set s"
    using p(2) by (auto simp: recv_message_def raise_for_ni_error_def)
  let ?b1 = "b\<lparr>inbound := s, bytes_received := bytes_received b + 4 + length p,
         trace := traced stamp (lit ''Read'') p (trace b)\<rparr>"
  have "\<exists>b'. recv_n stamp (length ps) ?b1 = (Inr ps, b') \<and> concat (inbound b') = rest"
    using Cons.prems(1) s by (intro Cons.IH) simp_all
  with s(1) show ?case by auto
qed simp

text \<open>C36. Messages arrive whole and in order.  Whatever the pieces in which TCP hands over the bytes
  one side sent, receiving as many messages as were sent yields exactly those payloads, empty ones
  included, and leaves nothing over.\<close>

theorem messages_delivered_in_order:
  assumes "\<forall>p \<in> set ps. sendable p" and "outbound a = []"
    and "\<And>a'. send_all stamp ps a = (Inr (), a') \<Longrightarrow> concat (inbound b) = outbound a'"
    and "[] \<notin> set (inbound b)"
  shows "\<exists>b'. recv_n stamp' (length ps) b = (Inr ps, b') \<and> concat (inbound b') = []"
  using send_all_outbound [OF assms(1), of stamp a] assms(2,3) recv_n_all [OF assms(1,4), of "[]" stamp']
  by auto

theorem messages_delivered_in_order_witness:
  "\<exists>b'. recv_n [] 2 \<lparr>inbound = [[0, 0], [0, 2, 7], [8, 0, 0, 0], [0]], outbound = [], bytes_sent = 0,
      bytes_received = 0, trace = None\<rparr> = (Inr [[7, 8], []], b') \<and> concat (inbound b') = []"
proof -
  let ?a = "\<lparr>inbound = [], outbound = [], bytes_sent = 0, bytes_received = 0, trace = None\<rparr> :: segments transport"
  let ?b = "\<lparr>inbound = [[0, 0], [0, 2, 7], [8, 0, 0, 0], [0]], outbound = [], bytes_sent = 0,
      bytes_received = 0, trace = None\<rparr> :: segments transport"
  have d: "\<forall>p \<in> set [[7, 8], []]. sendable p"
    by (simp add: sendable_def MAX_FRAME_BYTES_def NI_RTERR_def starts_with_def)
  have "be_bytes 4 (Suc (Suc 0)) = [0, 0, 0, 2]" "be_bytes 4 0 = [0, 0, 0, 0]" by code_simp+
  then have *: "concat (inbound ?b) = outbound a'" if "send_all [] [[7, 8], []] ?a = (Inr (), a')" for a'
    using send_all_outbound [OF d, of "[]" ?a] that by auto
  have "\<exists>b'. recv_n [] (length [[7, 8], [] :: bytes]) ?b = (Inr [[7, 8], []], b') \<and> concat (inbound b') = []"
    by (rule messages_delivered_in_order [where a = ?a and stamp = "[]", OF d _ *]) simp_all
  then show ?thesis by (simp del: recv_n.simps add: numeral_2_eq_2)
qed

text \<open>C37. Both transports read the same messages.  On the same bytes the blocking transport, however
  its socket segments them, and the asynchronous one return the same payload or raise the same
  error (an end of file in the middle of a frame being \<^verbatim>\<open>EOFError\<close> in the one and its subclass
  \<^verbatim>\<open>IncompleteReadError\<close> in the other), and end in the same state, counters and trace included.\<close>

theorem transports_agree:
  assumes "[] \<notin> set (inbound t)"
  shows "(case recv_message stamp t of (r, t') \<Rightarrow> (r, flat t'))
       = (case async_recv_message stamp (flat t) of (r, t') \<Rightarrow> (as_sync_error r, t'))"
  by (rule recv_message_flat [OF assms])

theorem transports_agree_witness:
  "let t = \<lparr>inbound = [[0, 0, 0], [1], [5, 9]], outbound = [], bytes_sent = 0, bytes_received = 0,
       trace = None\<rparr>
   in fst (recv_message [] t) = as_sync_error (fst (async_recv_message [] (flat t)))"
proof -
  let ?t = "\<lparr>inbound = [[0, 0, 0], [1], [5, 9]], outbound = [], bytes_sent = 0, bytes_received = 0,
       trace = None\<rparr> :: segments transport"
  have "[] \<notin> set (inbound ?t)" by simp
  from transports_agree [OF this, of "[]"] show ?thesis by (simp add: case_prod_beta Let_def)
qed

text \<open>A frame that announces more than 128 MiB is refused before any of it is read: the receiver
  raises, and has consumed the four length bytes and nothing else.\<close>

lemma oversized_frame_refused:
  assumes "[] \<notin> set (inbound t)" and "4 \<le> length (concat (inbound t))"
    and "be_val (take 4 (concat (inbound t))) > MAX_FRAME_BYTES"
  shows "\<exists>s. recv_message stamp t = (Inl ValueError, t\<lparr>inbound := s\<rparr>) \<and>
    concat s = drop 4 (concat (inbound t))"
  using sock.recv_oversized [OF assms] by (simp add: recv_message_def)

end
