(* ===== verification/Server_Session.thy ===== *)
theory Server_Session
  imports Client_Session
begin

text \<open>
  \<^verbatim>\<open>src/saprfclib/server_session.py\<close>: the registered server's session, its registration and
  post-registration frames, and its state guards.  The session is the record
  \<open>server_session\<close>; \<open>server_step\<close> is one operation of the API.
\<close>

section \<open>State\<close>

datatype server_state =
    S_DISCONNECTED | S_CONNECTED | S_NI_VERSIONED | S_GW_CONNECTED | S_REGISTERED
  | S_LISTENING | S_IN_CALL

record server_session =
  s_state :: server_state
  program_id :: "pystr option"
  gwserv :: "pystr option"
  s_handle :: "bytes option"
  ack_tail :: bytes

definition new_server_session :: server_session where
  "new_server_session =
     \<lparr>s_state = S_DISCONNECTED, program_id = None, gwserv = None, s_handle = None, ack_tail = [0, 0]\<rparr>"

section \<open>Registration\<close>

definition registration_payload :: bytes where
  "registration_payload =
     (let p0 = replicate 453 0;
          p1 = pack_at 0 (be_bytes 2 0x0601) p0;
          p2 = pack_at 2 (be_bytes 2 0x0200) p1;
          p3 = pack_at 4 (be_bytes 4 0xFFFF0000) p2;
          p4 = p3[10 := 0x01];
          p5 = p4[16 := 0xC0];
          p6 = p5[21 := 0x04];
          p7 = put_slice 48 56 (blit ''NWRFC   '') p6;
          p8 = p7[73 := 0x01];
          p9 = put_slice 76 80 [0, 0, 0xFF, 0xFF] p8
      in p9)"

definition ni_frame :: "bytes \<Rightarrow> bytes" where
  "ni_frame payload = be_bytes 4 (length payload) @ payload"

definition build_registration_frame :: "pystr \<Rightarrow> pystr \<Rightarrow> (server_session, bytes) act" where
  "build_registration_frame pid gw s =
     (if pid = [] then (Inl ValueError, s)
      else if length pid > 0x40 then (Inl ValueError, s)
      else if 42 \<in> set pid then (Inl ValueError, s)
      else if gw = [] then (Inl ValueError, s)
      else (Inr (ni_frame registration_payload),
            s\<lparr>program_id := Some pid, gwserv := Some gw, s_state := S_GW_CONNECTED\<rparr>))"

section \<open>Frames from the gateway\<close>

definition handle_registration_ack :: "bytes \<Rightarrow> (server_session, bytes) act" where
  "handle_registration_ack data s =
     (if length data < 80 then (Inl ValueError, s)
      else (Inr [], s\<lparr>s_handle := Some (py_slice 40 48 data),
                      ack_tail := py_slice 78 80 data, s_state := S_REGISTERED\<rparr>))"

definition handle_inbound_call :: "bytes \<Rightarrow> (server_session, bytes) act" where
  "handle_inbound_call data s =
     (if length data < 4 then (Inl ValueError, s)
      else
        let ni_len = be_val (take 4 data); payload = drop 4 data in
        if ni_len \<noteq> length payload then (Inl ValueError, s)
        else (Inr payload, s\<lparr>s_state := S_IN_CALL\<rparr>))"

definition server_feed :: "bytes \<Rightarrow> (server_session, bytes) act" where
  "server_feed data s =
     (if s_state s = S_GW_CONNECTED then handle_registration_ack data s
      else if s_state s = S_LISTENING then handle_inbound_call data s
      else (Inl ValueError, s))"

section \<open>Post-registration frames\<close>

definition POST_REG_A_HOST_MAX :: nat where "POST_REG_A_HOST_MAX = 208 - 80"

text \<open>\<^verbatim>\<open>self._handle or b"        "\<close>: an absent or empty handle is eight spaces.\<close>

definition handle_or_spaces :: "server_session \<Rightarrow> bytes" where
  "handle_or_spaces s =
     (case s_handle s of None \<Rightarrow> replicate 8 32 | Some h \<Rightarrow> if h = [] then replicate 8 32 else h)"

definition post_reg_a_payload :: "bytes \<Rightarrow> bytes \<Rightarrow> bytes \<Rightarrow> bytes" where
  "post_reg_a_payload h tail ip_enc =
     (let ip_len = length ip_enc;
          p0 = replicate 224 0;
          p1 = put_slice 0 2 [0x06, 0x0F] p0;
          p2 = put_slice 2 4 [0x02, 0x00] p1;
          p3 = put_slice 4 6 [0xFF, 0xFF] p2;
          p4 = put_slice 8 12 [0, 0, 1, 0] p3;
          p5 = pack_at 20 (be_bytes 4 0x00009000) p4;
          p6 = pack_at 24 (be_bytes 4 0x00040000) p5;
          p7 = put_slice 40 48 h p6;
          p8 = put_slice 48 56 (ljust 8 32 (take 8 ip_enc)) p7;
          p9 = pack_at 56 (be_bytes 4 ip_len) p8;
          p10 = put_slice 76 78 [0xFF, 0xFF] p9;
          p11 = put_slice 78 80 tail p10;
          p12 = put_slice 80 (80 + ip_len) ip_enc p11;
          p13 = put_slice (80 + ip_len) 208 (replicate (208 - 80 - ip_len) 0x20) p12
      in p13)"

definition build_post_reg_a :: "pystr \<Rightarrow> server_session \<Rightarrow> bytes res" where
  "build_post_reg_a gw_ip s =
     (case ascii_encode gw_ip of
        None \<Rightarrow> Inl ValueError
      | Some ip_enc \<Rightarrow>
          if length ip_enc > POST_REG_A_HOST_MAX then Inl ValueError
          else Inr (post_reg_a_payload (handle_or_spaces s) (ack_tail s) ip_enc))"

definition build_post_reg_b :: "server_session \<Rightarrow> bytes" where
  "build_post_reg_b s =
     (let p0 = replicate 80 0;
          p1 = put_slice 0 2 [0x06, 0x05] p0;
          p2 = put_slice 2 4 [0x02, 0x00] p1;
          p3 = put_slice 4 6 [0xFF, 0xFF] p2;
          p4 = put_slice 28 32 [0, 0, 1, 0] p3;
          p5 = put_slice 40 48 (handle_or_spaces s) p4;
          p6 = put_slice 76 78 [0xFF, 0xFF] p5;
          p7 = put_slice 78 80 (ack_tail s) p6
      in p7)"

section \<open>State guards\<close>

definition server_require_state :: "server_state list \<Rightarrow> server_session \<Rightarrow> unit res" where
  "server_require_state allowed s = (if s_state s \<notin> set allowed then Inl ValueError else Inr ())"

definition guarded_move :: "server_state \<Rightarrow> server_state \<Rightarrow> (server_session, unit) act" where
  "guarded_move from target s =
     (case server_require_state [from] s of
        Inl e \<Rightarrow> (Inl e, s) | Inr _ \<Rightarrow> (Inr (), s\<lparr>s_state := target\<rparr>))"

definition mark_listening :: "(server_session, unit) act" where
  "mark_listening = guarded_move S_REGISTERED S_LISTENING"

definition server_mark_in_call :: "(server_session, unit) act" where
  "server_mark_in_call = guarded_move S_LISTENING S_IN_CALL"

definition mark_listening_again :: "(server_session, unit) act" where
  "mark_listening_again = guarded_move S_IN_CALL S_LISTENING"

section \<open>The API as a step relation\<close>

inductive server_step :: "server_session \<Rightarrow> server_session \<Rightarrow> bool" where
  ss_register: "server_step s (snd (build_registration_frame pid gw s))"
| ss_feed: "server_step s (snd (server_feed data s))"
| ss_listen: "server_step s (snd (mark_listening s))"
| ss_in_call: "server_step s (snd (server_mark_in_call s))"
| ss_again: "server_step s (snd (mark_listening_again s))"

inductive server_reach :: "server_session \<Rightarrow> bool" where
  sv_new: "server_reach new_server_session"
| sv_step: "server_reach s \<Longrightarrow> server_step s t \<Longrightarrow> server_reach t"

definition server_inv :: "server_session \<Rightarrow> bool" where
  "server_inv s \<longleftrightarrow>
     length (ack_tail s) = 2 \<and>
     (\<forall>h. s_handle s = Some h \<longrightarrow> length h = 8) \<and>
     (s_state s \<in> {S_REGISTERED, S_LISTENING, S_IN_CALL} \<longrightarrow>
        s_handle s \<noteq> None \<and> program_id s \<noteq> None \<and> gwserv s \<noteq> None) \<and>
     (s_state s = S_GW_CONNECTED \<longrightarrow> program_id s \<noteq> None \<and> gwserv s \<noteq> None) \<and>
     (\<forall>p. program_id s = Some p \<longrightarrow> p \<noteq> [] \<and> length p \<le> 64 \<and> 42 \<notin> set p) \<and>
     s_state s \<noteq> S_CONNECTED \<and> s_state s \<noteq> S_NI_VERSIONED"

lemma guarded_move_simp:
  "guarded_move a b s = (if s_state s = a then (Inr (), s\<lparr>s_state := b\<rparr>) else (Inl ValueError, s))"
  by (simp add: guarded_move_def server_require_state_def)

lemmas server_guard_defs = mark_listening_def server_mark_in_call_def mark_listening_again_def
  guarded_move_simp

lemma server_inv_new: "server_inv new_server_session"
  by (simp add: server_inv_def new_server_session_def)

lemma server_inv_step: "server_step s t \<Longrightarrow> server_inv s \<Longrightarrow> server_inv t"
proof (induction rule: server_step.induct)
  case (ss_register s pid gw)
  then show ?case by (auto simp: build_registration_frame_def server_inv_def)
next
  case (ss_feed s data)
  then show ?case
    by (auto simp: server_feed_def handle_registration_ack_def handle_inbound_call_def server_inv_def Let_def)
qed (auto simp: server_guard_defs server_inv_def)

lemma server_reach_inv: "server_reach s \<Longrightarrow> server_inv s"
  by (induction rule: server_reach.induct) (auto intro: server_inv_new server_inv_step)

section \<open>Every frame has its fixed width\<close>

lemma length_registration_payload: "length registration_payload = 453"
  by (simp add: registration_payload_def Let_def length_put_slice length_pack_at)

lemma length_registration_frame:
  "fst (build_registration_frame pid gw s) = Inr f \<Longrightarrow> length f = 457"
  by (auto simp: build_registration_frame_def ni_frame_def length_registration_payload
      split: if_splits)

lemma handle_or_spaces_length: "server_inv s \<Longrightarrow> length (handle_or_spaces s) = 8"
  by (auto simp: handle_or_spaces_def server_inv_def split: option.splits)

lemma length_post_reg_a_payload:
  "length h = 8 \<Longrightarrow> length tl2 = 2 \<Longrightarrow> length ip \<le> 128 \<Longrightarrow>
     length (post_reg_a_payload h tl2 ip) = 224"
  by (simp add: post_reg_a_payload_def Let_def length_put_slice length_pack_at)

lemma ack_tail_length: "server_inv s \<Longrightarrow> length (ack_tail s) = 2"
  by (simp add: server_inv_def)

lemma length_post_reg_b: "server_inv s \<Longrightarrow> length (build_post_reg_b s) = 80"
  by (simp add: build_post_reg_b_def Let_def length_put_slice handle_or_spaces_length ack_tail_length)

lemma slice_two_puts:
  assumes "length p = 224" and "length ip \<le> 128"
  shows "py_slice 80 208 (put_slice (80 + length ip) 208 (replicate (128 - length ip) c)
           (put_slice 80 (80 + length ip) ip p)) = ljust 128 c ip"
  using assms by (simp add: py_slice_def put_slice_def ljust_def)

lemma post_reg_a_fields:
  assumes "length h = 8" and "length tl2 = 2" and "length ip \<le> 128"
  shows "py_slice 80 208 (post_reg_a_payload h tl2 ip) = ljust 128 0x20 ip"
    and "py_slice 208 224 (post_reg_a_payload h tl2 ip) = replicate 16 0"
    and "py_slice 40 48 (post_reg_a_payload h tl2 ip) = h"
    and "py_slice 78 80 (post_reg_a_payload h tl2 ip) = tl2"
  using assms
  by (simp_all add: post_reg_a_payload_def Let_def length_put_slice length_pack_at slice_two_puts
      slice_put_slice_after slice_put_slice_before slice_put_slice_same
      slice_pack_at_after slice_pack_at_before)
     (simp add: py_slice_def)

lemma post_reg_a_width:
  assumes "server_inv s" and "build_post_reg_a ip s = Inr f"
  shows "length f = 224"
  using assms length_post_reg_a_payload handle_or_spaces_length [OF assms(1)]
  by (auto simp: build_post_reg_a_def server_inv_def POST_REG_A_HOST_MAX_def
      split: option.splits if_splits)

text \<open>A call is surfaced only while listening, and only one at a time.\<close>

lemma inbound_call_guard:
  "server_feed data s = (Inr payload, t) \<Longrightarrow> s_state t = S_IN_CALL \<Longrightarrow>
     s_state s = S_LISTENING \<and> data = be_bytes 4 (length payload) @ payload"
proof -
  assume f: "server_feed data s = (Inr payload, t)" "s_state t = S_IN_CALL"
  then have l: "s_state s = S_LISTENING"
    by (auto simp: server_feed_def handle_registration_ack_def split: if_splits)
  with f have len: "4 \<le> length data" and p: "payload = drop 4 data"
    and n: "be_val (take 4 data) = length payload"
    by (auto simp: server_feed_def handle_inbound_call_def Let_def split: if_splits)
  have "take 4 data = be_bytes 4 (length payload)"
    using len n be_bytes_be_val [of "take 4 data" 4] by simp
  then have "data = be_bytes 4 (length payload) @ payload"
    using append_take_drop_id [of 4 data] p by simp
  with l show ?thesis by simp
qed

lemma no_second_call:
  "s_state s = S_IN_CALL \<Longrightarrow> server_feed data s = (Inl ValueError, s)"
  by (simp add: server_feed_def)

section \<open>Properties\<close>

text \<open>A registered server is registered as someone.  In every server session the API can produce, a
  session that is registered, listening or in a call has a gateway handle of eight bytes, a
  program id that is not empty, at most 64 characters and free of wildcards, and a gateway
  service; its acknowledgement tail is two bytes; and the intermediate states CONNECTED and
  NI_VERSIONED never occur.\<close>

lemma reachable_server_registered:
  assumes "server_reach s"
  shows "(s_state s \<in> {S_REGISTERED, S_LISTENING, S_IN_CALL} \<longrightarrow>
      (\<exists>h p g. s_handle s = Some h \<and> length h = 8 \<and> program_id s = Some p \<and> p \<noteq> [] \<and>
        length p \<le> 64 \<and> 42 \<notin> set p \<and> gwserv s = Some g)) \<and>
    length (ack_tail s) = 2 \<and> s_state s \<noteq> S_CONNECTED \<and> s_state s \<noteq> S_NI_VERSIONED"
  using server_reach_inv [OF assms] by (auto simp: server_inv_def)

definition sample_server :: "server_session" where
  "sample_server = snd (mark_listening (snd (server_feed (replicate 80 7)
     (snd (build_registration_frame (lit ''PROG'') (lit ''sapgw00'') new_server_session)))))"

lemma sample_server_reach: "server_reach sample_server"
  unfolding sample_server_def
  by (rule sv_step [OF sv_step [OF sv_step [OF sv_new ss_register] ss_feed] ss_listen])

lemma sample_server_listening: "s_state sample_server = S_LISTENING"
  by (simp add: sample_server_def build_registration_frame_def new_server_session_def server_feed_def
      handle_registration_ack_def server_guard_defs)



text \<open>The frames that follow a registration have their fixed widths.  In every reachable session
  the registration frame is 457 bytes, the first post-registration frame, when the host fits its
  slot, 224 with the padded host name at 80 and the session's handle at 40, and the second 80.\<close>

theorem post_registration_frames:
  assumes "server_reach s" and "ascii_encode gw_ip = Some ip" and "length ip \<le> POST_REG_A_HOST_MAX"
  shows "(\<exists>f. build_post_reg_a gw_ip s = Inr f \<and> length f = 224 \<and>
      py_slice 80 208 f = ljust 128 0x20 ip \<and> py_slice 40 48 f = handle_or_spaces s \<and>
      py_slice 208 224 f = replicate 16 0) \<and>
    length (build_post_reg_b s) = 80 \<and>
    (\<forall>f. fst (build_registration_frame pid gw s) = Inr f \<longrightarrow> length f = 457)"
proof (intro conjI allI impI)
  have inv: "server_inv s" by (rule server_reach_inv [OF assms(1)])
  have l: "length ip \<le> 128" using assms(3) by (simp add: POST_REG_A_HOST_MAX_def)
  note w = handle_or_spaces_length [OF inv] ack_tail_length [OF inv]
  show "\<exists>f. build_post_reg_a gw_ip s = Inr f \<and> length f = 224 \<and>
      py_slice 80 208 f = ljust 128 0x20 ip \<and> py_slice 40 48 f = handle_or_spaces s \<and>
      py_slice 208 224 f = replicate 16 0"
    using assms(2,3) length_post_reg_a_payload [OF w l] post_reg_a_fields [OF w l]
    by (simp add: build_post_reg_a_def)
  show "length (build_post_reg_b s) = 80" by (rule length_post_reg_b [OF inv])
  show "length f = 457" if "fst (build_registration_frame pid gw s) = Inr f" for f
    using that by (rule length_registration_frame)
qed

end
