(* ===== verification/Py_Values.thy ===== *)
theory Py_Values
  imports Rfc_Exceptions
begin

text \<open>
  The Python values the parameter codec handles, with the parts of the standard library it
  uses on them: \<^verbatim>\<open>decimal.Decimal\<close> under the default context (precision 28, round half
  even), \<^verbatim>\<open>int()\<close>, \<^verbatim>\<open>bytes()\<close>, iteration and truth value, and strict UTF-8.

  A \<^verbatim>\<open>float\<close> is its IEEE 754 double bit pattern.  A finite \<^verbatim>\<open>Decimal\<close> is a sign, a
  coefficient and an exponent; its \<^verbatim>\<open>as_tuple().digits\<close> are the decimal digits of the
  coefficient.  The exponent limits of the context (plus and minus 999999) are not modelled: the
  exponents in use come from field widths of at most a few dozen digits.  Digits of other scripts
  than ASCII, which \<^verbatim>\<open>int()\<close> and \<^verbatim>\<open>Decimal()\<close> accept in strings, are not modelled either.
\<close>

section \<open>Decimals\<close>

datatype pydec = DFin bool nat int | DInf bool | DNaN bool

fun dec_negative :: "pydec \<Rightarrow> bool" where
  "dec_negative (DFin s c e) = s"
| "dec_negative (DInf s) = s"
| "dec_negative (DNaN s) = s"

definition round_half_even :: "nat \<Rightarrow> nat \<Rightarrow> nat" where
  "round_half_even c d =
     (let q = c div d; r = c mod d
      in if 2 * r > d \<or> 2 * r = d \<and> odd q then q + 1 else q)"

text \<open>\<^verbatim>\<open>_fix\<close>: round the coefficient to the context's precision.\<close>

definition DEC_PREC :: nat where "DEC_PREC = 28"

fun dec_fix :: "pydec \<Rightarrow> pydec" where
  "dec_fix (DFin s c e) =
     (let n = length (dec_digits c) in
      if n \<le> DEC_PREC then DFin s c e
      else let k = n - DEC_PREC; q = round_half_even c (10 ^ k)
           in if q = 10 ^ DEC_PREC then DFin s (10 ^ (DEC_PREC - 1)) (e + int k + 1)
              else DFin s q (e + int k))"
| "dec_fix d = d"

fun dec_scaleb :: "pydec \<Rightarrow> int \<Rightarrow> pydec" where
  "dec_scaleb (DFin s c e) k = dec_fix (DFin s c (e + k))"
| "dec_scaleb d k = d"

fun dec_to_integral :: "pydec \<Rightarrow> pydec" where
  "dec_to_integral (DFin s c e) =
     (if e \<ge> 0 then DFin s c e else DFin s (round_half_even c (10 ^ nat (- e))) 0)"
| "dec_to_integral d = d"

text \<open>\<^verbatim>\<open>int(d)\<close>, truncating.\<close>

fun dec_int :: "pydec \<Rightarrow> int res" where
  "dec_int (DFin s c e) =
     (let m = (if e \<ge> 0 then c * 10 ^ nat e else c div 10 ^ nat (- e))
      in Inr (if s then - int m else int m))"
| "dec_int (DInf s) = Inl OverflowError"
| "dec_int (DNaN s) = Inl ValueError"

definition dec_of_int :: "int \<Rightarrow> pydec" where
  "dec_of_int i = DFin (i < 0) (nat \<bar>i\<bar>) 0"

lemma dec_fix_small: "c < 10 ^ DEC_PREC \<Longrightarrow> dec_fix (DFin s c e) = DFin s c e"
  using length_dec_digits_le [of DEC_PREC c] by (simp add: DEC_PREC_def Let_def)

text \<open>\<^verbatim>\<open>Decimal(s)\<close> for a string: the grammar of the constructor over ASCII digits.  The
  coefficient is what the constructor keeps of the digits, without leading zeros.\<close>

definition low :: "nat \<Rightarrow> nat" where
  "low c = (if 65 \<le> c \<and> c \<le> 90 then c + 32 else c)"

definition dec_sign :: "pystr \<Rightarrow> bool \<times> pystr" where
  "dec_sign s = (case s of [] \<Rightarrow> (False, [])
     | c # cs \<Rightarrow> if c = 45 then (True, cs) else if c = 43 then (False, cs) else (False, s))"

definition dec_exponent :: "pystr \<Rightarrow> int option" where
  "dec_exponent s =
     (case s of [] \<Rightarrow> Some 0
      | c # cs \<Rightarrow>
          if low c = 101 then
            (case dec_sign cs of (neg, ds) \<Rightarrow>
               if ds \<noteq> [] \<and> list_all is_digit ds
               then Some (if neg then - int (digits_val ds) else int (digits_val ds)) else None)
          else None)"

definition dec_number :: "bool \<Rightarrow> pystr \<Rightarrow> pydec option" where
  "dec_number neg s =
     (let ip = takeWhile is_digit s; rest = dropWhile is_digit s;
          fp = (case rest of c # cs \<Rightarrow> if c = 46 then takeWhile is_digit cs else [] | [] \<Rightarrow> []);
          tl = (case rest of c # cs \<Rightarrow> if c = 46 then dropWhile is_digit cs else rest | [] \<Rightarrow> [])
      in if ip = [] \<and> fp = [] then None
         else map_option (\<lambda>e. DFin neg (digits_val (ip @ fp)) (e - int (length fp))) (dec_exponent tl))"

definition dec_of_str :: "pystr \<Rightarrow> pydec option" where
  "dec_of_str str =
     (case dec_sign (filter (\<lambda>c. c \<noteq> 95) (py_strip str)) of (neg, s) \<Rightarrow>
        let w = map low s in
        if w = lit ''inf'' \<or> w = lit ''infinity'' then Some (DInf neg)
        else if starts_with (lit ''nan'') w \<and> list_all is_digit (drop 3 w) then Some (DNaN neg)
        else if starts_with (lit ''snan'') w \<and> list_all is_digit (drop 4 w) then Some (DNaN neg)
        else dec_number neg s)"

section \<open>Floats\<close>

definition float_sign :: "64 word \<Rightarrow> bool" where
  "float_sign w \<longleftrightarrow> unat w div 2 ^ 63 = 1"

definition float_exp :: "64 word \<Rightarrow> nat" where
  "float_exp w = unat w div 2 ^ 52 mod 2 ^ 11"

definition float_frac :: "64 word \<Rightarrow> nat" where
  "float_frac w = unat w mod 2 ^ 52"

text \<open>The value of a finite double is \<open>m * 2 ^ e\<close>.\<close>

definition float_mant :: "64 word \<Rightarrow> nat" where
  "float_mant w = (if float_exp w = 0 then float_frac w else 2 ^ 52 + float_frac w)"

definition float_pow :: "64 word \<Rightarrow> int" where
  "float_pow w = (if float_exp w = 0 then - 1074 else int (float_exp w) - 1075)"

definition float_int :: "64 word \<Rightarrow> int res" where
  "float_int w =
     (if float_exp w = 2047 then Inl (if float_frac w = 0 then OverflowError else ValueError)
      else let m = (if float_pow w \<ge> 0 then float_mant w * 2 ^ nat (float_pow w)
                    else float_mant w div 2 ^ nat (- float_pow w))
           in Inr (if float_sign w then - int m else int m))"

text \<open>\<^verbatim>\<open>Decimal.from_float\<close> reduces the binary fraction first.\<close>

fun reduce_halves :: "nat \<Rightarrow> nat \<Rightarrow> nat \<times> nat" where
  "reduce_halves m 0 = (m, 0)"
| "reduce_halves m (Suc k) = (if even m then reduce_halves (m div 2) k else (m, Suc k))"

definition dec_of_float :: "64 word \<Rightarrow> pydec" where
  "dec_of_float w =
     (if float_exp w = 2047
      then (if float_frac w = 0 then DInf (float_sign w) else DNaN False)
      else if float_pow w \<ge> 0
      then DFin (float_sign w) (float_mant w * 2 ^ nat (float_pow w)) 0
      else (case reduce_halves (float_mant w) (nat (- float_pow w)) of
              (m, k) \<Rightarrow> DFin (float_sign w) (m * 5 ^ k) (- int k)))"

section \<open>Values\<close>

datatype pyval =
    VNone
  | VInt int
  | VFloat "64 word"
  | VDec pydec
  | VStr pystr
  | VBytes bytes
  | VList "pyval list"
  | VDict "(pystr \<times> pyval) list"

fun py_truth :: "pyval \<Rightarrow> bool" where
  "py_truth VNone = False"
| "py_truth (VInt i) = (i \<noteq> 0)"
| "py_truth (VFloat w) = (unat w mod 2 ^ 63 \<noteq> 0)"
| "py_truth (VDec d) = (case d of DFin s c e \<Rightarrow> c \<noteq> 0 | _ \<Rightarrow> True)"
| "py_truth (VStr s) = (s \<noteq> [])"
| "py_truth (VBytes b) = (b \<noteq> [])"
| "py_truth (VList xs) = (xs \<noteq> [])"
| "py_truth (VDict kvs) = (kvs \<noteq> [])"

text \<open>\<^verbatim>\<open>for x in v\<close>; a dict yields its keys.\<close>

fun py_iter :: "pyval \<Rightarrow> pyval list res" where
  "py_iter (VStr s) = Inr (map (\<lambda>c. VStr [c]) s)"
| "py_iter (VBytes b) = Inr (map (\<lambda>x. VInt (int (unat x))) b)"
| "py_iter (VList xs) = Inr xs"
| "py_iter (VDict kvs) = Inr (map (VStr \<circ> fst) kvs)"
| "py_iter v = Inl TypeError"

text \<open>\<^verbatim>\<open>int(v)\<close>\<close>

fun py_int_of :: "pyval \<Rightarrow> int res" where
  "py_int_of (VInt i) = Inr i"
| "py_int_of (VFloat w) = float_int w"
| "py_int_of (VDec d) = dec_int d"
| "py_int_of (VStr s) = opt_res ValueError (py_int s)"
| "py_int_of (VBytes b) = opt_res ValueError (py_int (latin1_decode b))"
| "py_int_of v = Inl TypeError"

text \<open>\<^verbatim>\<open>bytes(v)\<close>\<close>

fun py_byte_of :: "pyval \<Rightarrow> byte res" where
  "py_byte_of (VInt i) = (if 0 \<le> i \<and> i < 256 then Inr (word_of_int i) else Inl ValueError)"
| "py_byte_of v = Inl TypeError"

fun py_bytes_of :: "pyval \<Rightarrow> bytes res" where
  "py_bytes_of (VBytes b) = Inr b"
| "py_bytes_of (VInt i) = (if i < 0 then Inl ValueError else Inr (replicate (nat i) 0))"
| "py_bytes_of (VList xs) = seq_res (map py_byte_of xs)"
| "py_bytes_of (VDict kvs) = (if kvs = [] then Inr [] else Inl TypeError)"
| "py_bytes_of v = Inl TypeError"

text \<open>\<^verbatim>\<open>v[k] if k in v\<close>, for a string \<open>k\<close>: \<open>None\<close> when \<open>k\<close> is not in \<open>v\<close>.\<close>

definition substring_of :: "pystr \<Rightarrow> pystr \<Rightarrow> bool" where
  "substring_of p s \<longleftrightarrow> find_sub p s \<noteq> None"

fun py_lookup :: "pyval \<Rightarrow> pystr \<Rightarrow> pyval option res" where
  "py_lookup (VDict kvs) k = Inr (map_of kvs k)"
| "py_lookup (VStr s) k = (if substring_of k s then Inl TypeError else Inr None)"
| "py_lookup (VList xs) k = (if VStr k \<in> set xs then Inl TypeError else Inr None)"
| "py_lookup v k = Inl TypeError"

section \<open>UTF-8\<close>

definition utf8_cp :: "nat \<Rightarrow> bytes" where
  "utf8_cp c =
     (if c < 0x80 then [word_of_nat c]
      else if c < 0x800 then [word_of_nat (0xC0 + c div 64), word_of_nat (0x80 + c mod 64)]
      else if c < 0x10000 then
        [word_of_nat (0xE0 + c div 4096), word_of_nat (0x80 + c div 64 mod 64),
         word_of_nat (0x80 + c mod 64)]
      else [word_of_nat (0xF0 + c div 262144), word_of_nat (0x80 + c div 4096 mod 64),
            word_of_nat (0x80 + c div 64 mod 64), word_of_nat (0x80 + c mod 64)])"

definition utf8_encode :: "pystr \<Rightarrow> bytes option" where
  "utf8_encode s =
     (if \<exists>c \<in> set s. is_surrogate c \<or> 0x110000 \<le> c then None else Some (concat (map utf8_cp s)))"

definition is_cont :: "byte \<Rightarrow> bool" where
  "is_cont b \<longleftrightarrow> unat b div 64 = 2"

definition cont_bits :: "byte \<Rightarrow> nat" where
  "cont_bits b = unat b mod 64"

text \<open>A multi-byte code point is accepted in its shortest form only, and never a surrogate.\<close>

fun utf8_decode :: "bytes \<Rightarrow> pystr option" where
  "utf8_decode [] = Some []"
| "utf8_decode (b # bs) =
     (if unat b < 0x80 then map_option ((#) (unat b)) (utf8_decode bs)
      else if unat b < 0xC2 then None
      else if unat b < 0xE0 then
        (case bs of b1 # r \<Rightarrow>
           if is_cont b1
           then map_option ((#) ((unat b - 0xC0) * 64 + cont_bits b1)) (utf8_decode r) else None
         | _ \<Rightarrow> None)
      else if unat b < 0xF0 then
        (case bs of b1 # b2 # r \<Rightarrow>
           let c = (unat b - 0xE0) * 4096 + cont_bits b1 * 64 + cont_bits b2 in
           if is_cont b1 \<and> is_cont b2 \<and> 0x800 \<le> c \<and> \<not> is_surrogate c
           then map_option ((#) c) (utf8_decode r) else None
         | _ \<Rightarrow> None)
      else if unat b < 0xF5 then
        (case bs of b1 # b2 # b3 # r \<Rightarrow>
           let c = (unat b - 0xF0) * 262144 + cont_bits b1 * 4096 + cont_bits b2 * 64 + cont_bits b3 in
           if is_cont b1 \<and> is_cont b2 \<and> is_cont b3 \<and> 0x10000 \<le> c \<and> c < 0x110000
           then map_option ((#) c) (utf8_decode r) else None
         | _ \<Rightarrow> None)
      else None)"

declare utf8_decode.simps(2) [simp del]

lemma unat_byte_small: "n < 256 \<Longrightarrow> unat (word_of_nat n :: byte) = n"
  by simp

lemma cont_byte:
  assumes "n < 64"
  shows "is_cont (word_of_nat (128 + n))" and "cont_bits (word_of_nat (128 + n)) = n"
proof -
  have u: "unat (word_of_nat (128 + n) :: byte) = 128 + n"
    using assms by (intro unat_byte_small) simp
  have e: "128 + n = n + 2 * 64" by simp
  have "(128 + n) div 64 = 2" "(128 + n) mod 64 = n"
    using assms unfolding e by (simp_all only: div_mult_self1 mod_mult_self1, simp_all)
  then show "is_cont (word_of_nat (128 + n))" and "cont_bits (word_of_nat (128 + n)) = n"
    unfolding is_cont_def cont_bits_def u by simp_all
qed

lemma split64:
  "c div 4096 * 4096 + c div 64 mod 64 * 64 + c mod 64 = (c :: nat)"
  "c div 262144 * 262144 + c div 4096 mod 64 * 4096 + c div 64 mod 64 * 64 + c mod 64 = c"
proof -
  have q: "c div 4096 = c div 64 div 64" "c div 262144 = c div 64 div 64 div 64"
    by (simp_all flip: div_mult2_eq)
  show "c div 4096 * 4096 + c div 64 mod 64 * 64 + c mod 64 = c"
    using div_mult_mod_eq [of c 64] div_mult_mod_eq [of "c div 64" 64] unfolding q by linarith
  show "c div 262144 * 262144 + c div 4096 mod 64 * 4096 + c div 64 mod 64 * 64 + c mod 64 = c"
    using div_mult_mod_eq [of c 64] div_mult_mod_eq [of "c div 64" 64]
      div_mult_mod_eq [of "c div 64 div 64" 64] unfolding q by linarith
qed

lemma utf8_decode_cp:
  assumes "\<not> is_surrogate c" and "c < 0x110000"
  shows "utf8_decode (utf8_cp c @ bs) = map_option ((#) c) (utf8_decode bs)"
proof -
  have m: "n mod 64 < 64" for n :: nat by simp
  note cb = cont_byte [OF m]
  consider (one) "c < 0x80" | (two) "0x80 \<le> c" "c < 0x800"
    | (three) "0x800 \<le> c" "c < 0x10000" | (four) "0x10000 \<le> c"
    by linarith
  then show ?thesis
  proof cases
    case one
    then show ?thesis by (simp add: utf8_cp_def utf8_decode.simps(2))
  next
    case two
    then have d: "c div 64 < 32" "2 \<le> c div 64" by auto
    then have u: "unat (word_of_nat (192 + c div 64) :: byte) = 192 + c div 64"
      by (intro unat_byte_small) simp
    have e: "(192 + c div 64 - 192) * 64 + c mod 64 = c" by simp
    show ?thesis using two d e
      by (simp add: utf8_cp_def utf8_decode.simps(2) u cb del: of_nat_add)
  next
    case three
    then have d: "c div 4096 < 16" by auto
    then have u: "unat (word_of_nat (224 + c div 4096) :: byte) = 224 + c div 4096"
      by (intro unat_byte_small) simp
    have e: "(224 + c div 4096 - 224) * 4096 + c div 64 mod 64 * 64 + c mod 64 = c"
      by (simp add: split64)
    show ?thesis using three d e assms
      by (simp add: utf8_cp_def utf8_decode.simps(2) u cb Let_def del: of_nat_add)
  next
    case four
    then have d: "c div 262144 < 5" using assms by auto
    then have u: "unat (word_of_nat (240 + c div 262144) :: byte) = 240 + c div 262144"
      by (intro unat_byte_small) simp
    have e: "(240 + c div 262144 - 240) * 262144 + c div 4096 mod 64 * 4096 + c div 64 mod 64 * 64
        + c mod 64 = c"
      by (simp add: split64)
    show ?thesis using four d e assms
      by (simp add: utf8_cp_def utf8_decode.simps(2) u cb Let_def del: of_nat_add)
  qed
qed

lemma utf8_roundtrip: "utf8_encode s = Some bs \<Longrightarrow> utf8_decode bs = Some s"
proof (induction s arbitrary: bs)
  case Nil
  then show ?case by (simp add: utf8_encode_def)
next
  case (Cons c s)
  then have "\<not> is_surrogate c" "c < 0x110000" "utf8_encode s = Some (concat (map utf8_cp s))"
    and "bs = utf8_cp c @ concat (map utf8_cp s)"
    by (auto simp: utf8_encode_def split: if_splits)
  with Cons.IH show ?case by (simp add: utf8_decode_cp)
qed

end
