(* ===== verification/Decfloat.thy ===== *)
theory Decfloat
  imports Py_Values
begin

text \<open>
  Decimal floating point parameters, \<^verbatim>\<open>src/saprfclib/codec.py\<close>: the densely packed decimal
  tables and \<^verbatim>\<open>decode_decfloat\<close> / \<^verbatim>\<open>encode_decfloat\<close> (IEEE 754 decimal64 and decimal128 in
  little-endian order).

  The source assembles the packed integer with shifts and \<^verbatim>\<open>|\<close> of fields that do not overlap
  (each is masked to its width); here they are multiplications by powers of two and sums.
\<close>

section \<open>Declets\<close>

definition bit_at :: "nat \<Rightarrow> nat \<Rightarrow> nat" where
  "bit_at k d = d div 2 ^ k mod 2"

definition bits_val :: "nat list \<Rightarrow> nat" where
  "bits_val bs = foldl (\<lambda>acc b. 2 * acc + b) 0 bs"

definition dpd_encode :: "nat \<times> nat \<times> nat \<Rightarrow> nat" where
  "dpd_encode t =
     (case t of (d1, d2, d3) \<Rightarrow>
        let a = bit_at 3 d1; b = bit_at 2 d1; c = bit_at 1 d1; d = bit_at 0 d1;
            e = bit_at 3 d2; f = bit_at 2 d2; g = bit_at 1 d2; h = bit_at 0 d2;
            i = bit_at 3 d3; j = bit_at 2 d3; k = bit_at 1 d3; m = bit_at 0 d3
        in bits_val
             (if (a, e, i) = (0, 0, 0) then [b, c, d, f, g, h, 0, j, k, m]
              else if (a, e, i) = (0, 0, 1) then [b, c, d, f, g, h, 1, 0, 0, m]
              else if (a, e, i) = (0, 1, 0) then [b, c, d, j, k, h, 1, 0, 1, m]
              else if (a, e, i) = (0, 1, 1) then [b, c, d, 1, 0, h, 1, 1, 1, m]
              else if (a, e, i) = (1, 0, 0) then [j, k, d, f, g, h, 1, 1, 0, m]
              else if (a, e, i) = (1, 0, 1) then [f, g, d, 0, 1, h, 1, 1, 1, m]
              else if (a, e, i) = (1, 1, 0) then [j, k, d, 0, 0, h, 1, 1, 1, m]
              else [0, 0, d, 1, 1, h, 1, 1, 1, m]))"

text \<open>The decode table holds what the enumeration of the digits wrote, first entry first.\<close>

definition digit_triples :: "(nat \<times> nat \<times> nat) list" where
  "digit_triples = List.product [0..<10] (List.product [0..<10] [0..<10])"

definition dpd_decode :: "nat \<Rightarrow> (nat \<times> nat \<times> nat) option" where
  "dpd_decode declet = List.find (\<lambda>t. dpd_encode t = declet) digit_triples"

text \<open>The digits by the decoding rules of the standard, to show the table injective.\<close>

definition dpd_digits :: "nat \<Rightarrow> nat \<times> nat \<times> nat" where
  "dpd_digits n =
     (let p = bit_at 9 n; q = bit_at 8 n; r = bit_at 7 n; s = bit_at 6 n; t = bit_at 5 n;
          u = bit_at 4 n; v = bit_at 3 n; w = bit_at 2 n; x = bit_at 1 n; y = bit_at 0 n
      in if v = 0 then (4 * p + 2 * q + r, 4 * s + 2 * t + u, 4 * w + 2 * x + y)
         else if (w, x) = (0, 0) then (4 * p + 2 * q + r, 4 * s + 2 * t + u, 8 + y)
         else if (w, x) = (0, 1) then (4 * p + 2 * q + r, 8 + u, 4 * s + 2 * t + y)
         else if (w, x) = (1, 0) then (8 + r, 4 * s + 2 * t + u, 4 * p + 2 * q + y)
         else if (s, t) = (0, 0) then (8 + r, 8 + u, 4 * p + 2 * q + y)
         else if (s, t) = (0, 1) then (8 + r, 4 * p + 2 * q + u, 8 + y)
         else if (s, t) = (1, 0) then (4 * p + 2 * q + r, 8 + u, 8 + y)
         else (8 + r, 8 + u, 8 + y))"

lemma bits_val_snoc: "bits_val (bs @ [b]) = 2 * bits_val bs + b"
  by (simp add: bits_val_def)

lemma bit_at_Suc: "b < 2 \<Longrightarrow> bit_at (Suc k) (2 * n + b) = bit_at k n"
  by (simp add: bit_at_def div_mult2_eq)

lemma bit_at_0: "b < 2 \<Longrightarrow> bit_at 0 (2 * n + b) = b"
  by (simp add: bit_at_def)

lemma bit_at_bits_val:
  "\<forall>b \<in> set bs. b < 2 \<Longrightarrow> k < length bs \<Longrightarrow> bit_at k (bits_val bs) = bs ! (length bs - Suc k)"
proof (induction bs arbitrary: k rule: rev_induct)
  case Nil
  then show ?case by simp
next
  case (snoc b bs)
  show ?case
  proof (cases k)
    case 0
    then show ?thesis using snoc.prems by (simp add: bits_val_snoc bit_at_0)
  next
    case (Suc j)
    then have j: "j < length bs" using snoc.prems by simp
    then have "length bs - Suc j < length bs" by linarith
    then show ?thesis
      using Suc j snoc.prems snoc.IH [of j] by (simp add: bits_val_snoc bit_at_Suc nth_append)
  qed
qed

lemma bits_val_less: "\<forall>b \<in> set bs. b < 2 \<Longrightarrow> bits_val bs < 2 ^ length bs"
proof (induction bs rule: rev_induct)
  case Nil
  then show ?case by (simp add: bits_val_def)
next
  case (snoc b bs)
  then have "bits_val bs + 1 \<le> 2 ^ length bs" "b < 2" by auto
  then show ?case by (simp add: bits_val_snoc)
qed

lemma bit_at_less [simp]: "bit_at k d < 2"
  by (simp add: bit_at_def)

lemma bit_at_cases: "bit_at k d = 0 \<or> bit_at k d = 1"
  using bit_at_less [of k d] by linarith

lemma digit_bits:
  assumes "d < 10"
  shows "d = 8 * bit_at 3 d + 4 * bit_at 2 d + 2 * bit_at 1 d + bit_at 0 d"
    and "bit_at 3 d = 0 \<or> bit_at 2 d = 0 \<and> bit_at 1 d = 0"
proof -
  have "d \<in> set [0..<10]" using assms by simp
  moreover have "\<forall>d \<in> set [0..<10]. d = 8 * bit_at 3 d + 4 * bit_at 2 d + 2 * bit_at 1 d + bit_at 0 d
      \<and> (bit_at 3 d = 0 \<or> bit_at 2 d = 0 \<and> bit_at 1 d = 0)"
    by code_simp
  ultimately show "d = 8 * bit_at 3 d + 4 * bit_at 2 d + 2 * bit_at 1 d + bit_at 0 d"
    and "bit_at 3 d = 0 \<or> bit_at 2 d = 0 \<and> bit_at 1 d = 0" by blast+
qed

lemma dpd_digits_bits:
  assumes "p < 2" "q < 2" "r < 2" "s < 2" "t < 2" "u < 2" "v < 2" "w < 2" "x < 2" "y < 2"
  shows "dpd_digits (bits_val [p, q, r, s, t, u, v, w, x, y]) =
    (if v = 0 then (4 * p + 2 * q + r, 4 * s + 2 * t + u, 4 * w + 2 * x + y)
     else if (w, x) = (0, 0) then (4 * p + 2 * q + r, 4 * s + 2 * t + u, 8 + y)
     else if (w, x) = (0, 1) then (4 * p + 2 * q + r, 8 + u, 4 * s + 2 * t + y)
     else if (w, x) = (1, 0) then (8 + r, 4 * s + 2 * t + u, 4 * p + 2 * q + y)
     else if (s, t) = (0, 0) then (8 + r, 8 + u, 4 * p + 2 * q + y)
     else if (s, t) = (0, 1) then (8 + r, 4 * p + 2 * q + u, 8 + y)
     else if (s, t) = (1, 0) then (4 * p + 2 * q + r, 8 + u, 8 + y)
     else (8 + r, 8 + u, 8 + y))"
proof -
  let ?bs = "[p, q, r, s, t, u, v, w, x, y]"
  have b: "bit_at k (bits_val ?bs) = ?bs ! (9 - k)" if "k < 10" for k
  proof -
    have "length ?bs = 10" by simp
    moreover have "\<forall>b \<in> set ?bs. b < 2" using assms by simp
    ultimately have "bit_at k (bits_val ?bs) = ?bs ! (10 - Suc k)"
      using bit_at_bits_val [of ?bs k] that by (simp only:)
    moreover have "10 - Suc k = 9 - k" by simp
    ultimately show ?thesis by (simp only:)
  qed
  show ?thesis
    by (simp only: dpd_digits_def b Let_def) (simp add: b)
qed

lemma dpd_pack_digits:
  assumes "a = 0 \<or> a = 1 \<and> b = 0 \<and> c = 0" "b < 2" "c < 2" "d < 2"
    and "e = 0 \<or> e = 1 \<and> f = 0 \<and> g = 0" "f < 2" "g < 2" "h < 2"
    and "i = 0 \<or> i = 1 \<and> j = 0 \<and> k = 0" "j < 2" "k < 2" "m < 2"
  shows "dpd_digits (bits_val
      (if (a, e, i) = (0, 0, 0) then [b, c, d, f, g, h, 0, j, k, m]
       else if (a, e, i) = (0, 0, 1) then [b, c, d, f, g, h, 1, 0, 0, m]
       else if (a, e, i) = (0, 1, 0) then [b, c, d, j, k, h, 1, 0, 1, m]
       else if (a, e, i) = (0, 1, 1) then [b, c, d, 1, 0, h, 1, 1, 1, m]
       else if (a, e, i) = (1, 0, 0) then [j, k, d, f, g, h, 1, 1, 0, m]
       else if (a, e, i) = (1, 0, 1) then [f, g, d, 0, 1, h, 1, 1, 1, m]
       else if (a, e, i) = (1, 1, 0) then [j, k, d, 0, 0, h, 1, 1, 1, m]
       else [0, 0, d, 1, 1, h, 1, 1, 1, m])) =
     (8 * a + 4 * b + 2 * c + d, 8 * e + 4 * f + 2 * g + h, 8 * i + 4 * j + 2 * k + m)"
  using assms(1,5,9)
  by (elim disjE conjE; hypsubst; simp add: dpd_digits_bits assms(2-4,6-8,10-12))

lemma dpd_roundtrip:
  assumes "d1 < 10" "d2 < 10" "d3 < 10"
  shows "dpd_digits (dpd_encode (d1, d2, d3)) = (d1, d2, d3)"
proof -
  have c: "bit_at 3 d = 0 \<or> bit_at 3 d = 1 \<and> bit_at 2 d = 0 \<and> bit_at 1 d = 0" if "d < 10" for d
    using digit_bits(2) [OF that] bit_at_cases [of 3 d] by blast
  show ?thesis
    unfolding dpd_encode_def Let_def prod.case
    by (subst dpd_pack_digits [OF c [OF assms(1)] _ _ _ c [OF assms(2)] _ _ _ c [OF assms(3)]])
      (simp_all del: One_nat_def flip: digit_bits(1) [OF assms(1)] digit_bits(1) [OF assms(2)] digit_bits(1) [OF assms(3)])
qed

lemma dpd_encode_less: "dpd_encode t < 1024"
proof -
  obtain d1 d2 d3 where t: "t = (d1, d2, d3)" by (metis prod_cases3)
  have "bits_val bs < 1024" if "\<forall>b \<in> set bs. b < 2" "length bs = 10" for bs
    using bits_val_less [OF that(1)] that(2) by simp
  then show ?thesis by (simp add: t dpd_encode_def Let_def)
qed

lemma dpd_decode_encode:
  assumes "d1 < 10" "d2 < 10" "d3 < 10"
  shows "dpd_decode (dpd_encode (d1, d2, d3)) = Some (d1, d2, d3)"
proof (cases "dpd_decode (dpd_encode (d1, d2, d3))")
  case None
  then have "\<forall>t \<in> set digit_triples. dpd_encode t \<noteq> dpd_encode (d1, d2, d3)"
    by (auto simp: dpd_decode_def find_None_iff)
  moreover have "(d1, d2, d3) \<in> set digit_triples" using assms by (simp add: digit_triples_def)
  ultimately show ?thesis by blast
next
  case (Some t)
  obtain e1 e2 e3 where t: "t = (e1, e2, e3)" by (metis prod_cases3)
  from Some have "t \<in> set digit_triples" and eq: "dpd_encode t = dpd_encode (d1, d2, d3)"
    by (auto simp: dpd_decode_def find_Some_iff)
  then have "e1 < 10" "e2 < 10" "e3 < 10" by (auto simp: digit_triples_def t)
  then have "dpd_digits (dpd_encode t) = t" by (simp add: t dpd_roundtrip)
  then have "t = (d1, d2, d3)" using eq dpd_roundtrip [OF assms] by simp
  with Some show ?thesis by simp
qed

section \<open>Decimal floats\<close>

text \<open>Per width: exponent continuation bits, declets, bias, coefficient digits.\<close>

fun DECF_PARAMS :: "nat \<Rightarrow> (nat \<times> nat \<times> nat \<times> nat) option" where
  "DECF_PARAMS w =
     (if w = 8 then Some (8, 5, 398, 16)
      else if w = 16 then Some (12, 11, 6176, 34) else None)"

fun decode_declets :: "nat \<Rightarrow> nat \<Rightarrow> nat list res" where
  "decode_declets coeff 0 = Inr []"
| "decode_declets coeff (Suc n) =
     bind_res (opt_res KeyError (dpd_decode (coeff div 2 ^ (10 * n) mod 1024)))
       (\<lambda>t. case t of (a, b, c) \<Rightarrow> map_res (\<lambda>ds. a # b # c # ds) (decode_declets coeff n))"

definition digits_number :: "nat list \<Rightarrow> nat" where
  "digits_number ds = foldl (\<lambda>acc d. 10 * acc + d) 0 ds"

definition decode_decfloat :: "bytes \<Rightarrow> pydec res" where
  "decode_decfloat raw =
     (case DECF_PARAMS (length raw) of None \<Rightarrow> Inl ValueError
      | Some (econ_bits, declets, bias, nd) \<Rightarrow>
          let n = be_val (rev raw); total = length raw * 8;
              s = n div 2 ^ (total - 1) mod 2 = 1;
              combo = n div 2 ^ (total - 6) mod 32;
              econ = n div 2 ^ (total - 6 - econ_bits) mod 2 ^ econ_bits
          in if combo div 2 = 15 then Inr (if odd combo then DNaN s else DInf s)
             else
               let lead = (if combo div 8 = 3 then 8 + combo mod 2 else combo mod 8);
                   exp_high = (if combo div 8 = 3 then combo div 2 mod 4 else combo div 8)
               in map_res (\<lambda>ds. DFin s (digits_number (lead # ds))
                     (int (exp_high * 2 ^ econ_bits + econ) - int bias))
                   (decode_declets (n mod 2 ^ (total - 6 - econ_bits)) declets))"

definition dec_of_value :: "pyval \<Rightarrow> pydec res" where
  "dec_of_value v =
     (case v of VDec d \<Rightarrow> Inr d | VInt i \<Rightarrow> Inr (dec_of_int i)
      | VStr s \<Rightarrow> opt_res OtherException (dec_of_str s)
      | VFloat w \<Rightarrow> Inr (dec_of_float w)
      | VList xs \<Rightarrow> Inl ValueError
      | _ \<Rightarrow> Inl TypeError)"

definition decf_special :: "nat \<Rightarrow> bool \<Rightarrow> nat \<Rightarrow> bytes" where
  "decf_special width s combo =
     rev (be_bytes width ((if s then 2 ^ (width * 8 - 1) else 0) + combo * 2 ^ (width * 8 - 6)))"

fun pack_declets :: "nat list \<Rightarrow> nat \<Rightarrow> nat" where
  "pack_declets (a # b # c # ds) coeff = pack_declets ds (coeff * 1024 + dpd_encode (a, b, c))"
| "pack_declets _ coeff = coeff"

definition decf_digits :: "nat \<Rightarrow> nat list" where
  "decf_digits c = map (\<lambda>d. d - 48) (dec_digits c)"

definition decf_pack :: "nat \<Rightarrow> nat \<Rightarrow> bool \<Rightarrow> nat list \<Rightarrow> nat \<Rightarrow> bytes" where
  "decf_pack width econ_bits s padded biased =
     (let lead = hd padded; exp_high = biased div 2 ^ econ_bits; total = width * 8;
          combo = (if lead \<le> 7 then exp_high * 8 + lead else 24 + exp_high * 2 + lead mod 2);
          coeff = pack_declets (tl padded) 0
      in rev (be_bytes width
           ((if s then 2 ^ (total - 1) else 0) + combo * 2 ^ (total - 6)
            + biased mod 2 ^ econ_bits * 2 ^ (total - 6 - econ_bits) + coeff)))"

definition encode_decimal :: "pydec \<Rightarrow> nat \<Rightarrow> bytes res" where
  "encode_decimal d width =
     (case DECF_PARAMS width of None \<Rightarrow> Inl ValueError
      | Some (econ_bits, declets, bias, ndigits) \<Rightarrow>
          (case d of
             DNaN s \<Rightarrow> Inr (decf_special width s 31)
           | DInf s \<Rightarrow> Inr (decf_special width s 30)
           | DFin s c e \<Rightarrow>
               let ds = decf_digits c; biased = e + int bias
               in if length ds > ndigits then Inl ValueError
                  else if \<not> (0 \<le> biased \<and> biased \<le> 3 * 2 ^ econ_bits - 1) then Inl ValueError
                  else Inr (decf_pack width econ_bits s
                         (replicate (ndigits - length ds) 0 @ ds) (nat biased))))"

text \<open>A list is taken by \<^verbatim>\<open>Decimal\<close> as a (sign, digits, exponent) triple; that form is not
  modelled and counts as malformed.\<close>

definition encode_decfloat :: "pyval \<Rightarrow> nat \<Rightarrow> bytes res" where
  "encode_decfloat v width =
     (if DECF_PARAMS width = None then Inl ValueError
      else bind_res (dec_of_value v) (\<lambda>d. encode_decimal d width))"

section \<open>Encoding and decoding are inverse\<close>

lemma digits_number_snoc: "digits_number (ds @ [d]) = 10 * digits_number ds + d"
  by (simp add: digits_number_def)

lemma digits_number_zeros: "digits_number (replicate k 0 @ ds) = digits_number ds"
proof (induction k)
  case (Suc k)
  then show ?case by (simp add: digits_number_def)
qed simp

lemma digits_number_decf_digits: "digits_number (decf_digits c) = c"
proof -
  have "digits_number (map (\<lambda>d. d - 48) s) = digits_val s" for s
    by (induction s rule: rev_induct) (simp_all add: digits_number_snoc, simp_all add: digits_number_def digits_val_def)
  then show ?thesis by (simp add: decf_digits_def)
qed

lemma decf_digits_less: "d \<in> set (decf_digits c) \<Longrightarrow> d < 10"
  by (auto simp: decf_digits_def is_digit_def dest!: dec_digits_are_digits)

lemma length_triple:
  assumes "length ds = 3 * Suc n"
  obtains a b c es where "ds = a # b # c # es" "length es = 3 * n"
proof -
  have "length ds = Suc (Suc (Suc (3 * n)))" using assms by simp
  then show ?thesis using that by (auto simp only: length_Suc_conv)
qed

lemma pack_declets_acc:
  "length ds = 3 * n \<Longrightarrow> pack_declets ds acc = acc * 1024 ^ n + pack_declets ds 0"
proof (induction n arbitrary: ds acc)
  case (Suc n)
  obtain a b c es where ds: "ds = a # b # c # es" "length es = 3 * n"
    using length_triple [OF Suc.prems(1)] .
  show ?case
    using Suc.IH [OF ds(2), of "acc * 1024 + dpd_encode (a, b, c)"]
      Suc.IH [OF ds(2), of "dpd_encode (a, b, c)"]
    by (simp add: ds algebra_simps)
qed simp

lemma pack_declets_less: "length ds = 3 * n \<Longrightarrow> pack_declets ds 0 < 1024 ^ n"
proof (induction n arbitrary: ds)
  case (Suc n)
  obtain a b c es where ds: "ds = a # b # c # es" "length es = 3 * n"
    using length_triple [OF Suc.prems(1)] .
  have "dpd_encode (a, b, c) + 1 \<le> 1024" using dpd_encode_less [of "(a, b, c)"] by simp
  then have "(dpd_encode (a, b, c) + 1) * 1024 ^ n \<le> 1024 * 1024 ^ n" by (rule mult_le_mono1)
  then have "dpd_encode (a, b, c) * 1024 ^ n + 1024 ^ n \<le> 1024 ^ Suc n" by simp
  moreover have "pack_declets ds 0 = dpd_encode (a, b, c) * 1024 ^ n + pack_declets es 0"
    using pack_declets_acc [OF ds(2), of "dpd_encode (a, b, c)"] by (simp add: ds)
  ultimately show ?case using Suc.IH [OF ds(2)] by linarith
qed simp

lemma pow_1024: "(2 :: nat) ^ (10 * n) = 1024 ^ n"
  by (simp add: power_mult)

lemma decode_declets_low: "decode_declets (acc * 1024 ^ n + y) n = decode_declets y n"
proof (induction n arbitrary: acc)
  case (Suc n)
  have "(acc * 1024 ^ Suc n + y) div 1024 ^ n mod 1024 = (acc * 1024 + y div 1024 ^ n) mod 1024"
    by (simp add: mult.assoc [symmetric])
  moreover have "acc * 1024 ^ Suc n + y = acc * 1024 * 1024 ^ n + y" by simp
  then have "decode_declets (acc * 1024 ^ Suc n + y) n = decode_declets y n"
    using Suc.IH [of "acc * 1024"] by metis
  moreover have "(acc * 1024 + y div 1024 ^ n) mod 1024 = y div 1024 ^ n mod 1024" by simp
  ultimately show ?case by (simp only: decode_declets.simps pow_1024)
qed simp

lemma decode_pack_declets:
  "length ds = 3 * n \<Longrightarrow> \<forall>d \<in> set ds. d < 10 \<Longrightarrow> decode_declets (pack_declets ds 0) n = Inr ds"
proof (induction n arbitrary: ds)
  case (Suc n)
  obtain a b c es where ds: "ds = a # b # c # es" "length es = 3 * n"
    using length_triple [OF Suc.prems(1)] .
  let ?t = "dpd_encode (a, b, c)"
  have p: "pack_declets ds 0 = ?t * 1024 ^ n + pack_declets es 0"
    using pack_declets_acc [OF ds(2), of ?t] by (simp add: ds)
  have "(?t * 1024 ^ n + pack_declets es 0) div 1024 ^ n mod 1024 = ?t"
    using pack_declets_less [OF ds(2)] dpd_encode_less [of "(a, b, c)"] by simp
  moreover have "dpd_decode ?t = Some (a, b, c)"
    using Suc.prems by (intro dpd_decode_encode) (auto simp: ds)
  moreover have "decode_declets (?t * 1024 ^ n + pack_declets es 0) n = Inr es"
    using Suc.IH [OF ds(2)] Suc.prems by (simp add: decode_declets_low ds)
  ultimately have "decode_declets (pack_declets ds 0) (Suc n) = Inr (a # b # c # es)"
    by (simp only: p decode_declets.simps pow_1024 opt_res_simps bind_res.simps prod.case map_res.simps)
  then show ?case by (simp only: ds)
qed simp

text \<open>The four fields of the packed integer.\<close>

lemma decf_fields:
  fixes s combo econ coeff E D :: nat
  assumes "s < 2" "combo < 32" "econ < 2 ^ E" "coeff < 1024 ^ D"
  defines "n \<equiv> s * 2 ^ (5 + E + 10 * D) + combo * 2 ^ (E + 10 * D) + econ * 2 ^ (10 * D) + coeff"
  shows "n mod 2 ^ (10 * D) = coeff"
    and "n div 2 ^ (10 * D) mod 2 ^ E = econ"
    and "n div 2 ^ (E + 10 * D) mod 32 = combo"
    and "n div 2 ^ (5 + E + 10 * D) mod 2 = s"
    and "n < 2 ^ (6 + E + 10 * D)"
proof -
  let ?P = "2 ^ (10 * D) :: nat"
  have P: "coeff < ?P" using assms(4) by (simp add: pow_1024)
  have n: "n = ((s * 32 + combo) * 2 ^ E + econ) * ?P + coeff"
    by (simp add: n_def power_add algebra_simps)
  show "n mod ?P = coeff" using P by (simp add: n)
  have q: "n div ?P = (s * 32 + combo) * 2 ^ E + econ" using P by (simp add: n)
  then show "n div ?P mod 2 ^ E = econ" using assms(3) by simp
  have "n div 2 ^ (E + 10 * D) = n div ?P div 2 ^ E"
    by (simp add: power_add mult.commute [of "2 ^ E"] div_mult2_eq)
  then have r: "n div 2 ^ (E + 10 * D) = s * 32 + combo"
    using assms(3) by (simp add: q)
  then show "n div 2 ^ (E + 10 * D) mod 32 = combo" using assms(2) by simp
  have "n div 2 ^ (5 + E + 10 * D) = n div 2 ^ (E + 10 * D) div 32"
    by (simp add: power_add div_mult2_eq [symmetric] mult_ac)
  then have t: "n div 2 ^ (5 + E + 10 * D) = s" using assms(2) by (simp add: r)
  then show "n div 2 ^ (5 + E + 10 * D) mod 2 = s" using assms(1) by simp
  have "n div 2 ^ (5 + E + 10 * D) < 2" using t assms(1) by simp
  then show "n < 2 ^ (6 + E + 10 * D)"
    by (simp add: div_less_iff_less_mult power_add)
qed

text \<open>What the decoder computes from the packed integer, written over \<open>D\<close> declets and \<open>E\<close>
  exponent continuation bits.\<close>

lemma DECF_PARAMS_shape:
  "DECF_PARAMS w = Some (E, D, bias, nd) \<Longrightarrow> w * 8 = 6 + E + 10 * D \<and> nd = 3 * D + 1 \<and> 0 < w"
  by (auto split: if_splits)

lemma decode_decfloat_fields:
  assumes "DECF_PARAMS w = Some (E, D, bias, nd)" and "length raw = w"
    and n: "be_val (rev raw) =
      s * 2 ^ (5 + E + 10 * D) + combo * 2 ^ (E + 10 * D) + econ * 2 ^ (10 * D) + coeff"
    and "s < 2" "combo < 32" "econ < 2 ^ E" "coeff < 1024 ^ D"
  shows "decode_decfloat raw =
    (if combo div 2 = 15 then Inr (if odd combo then DNaN (s = 1) else DInf (s = 1))
     else map_res (\<lambda>ds. DFin (s = 1)
            (digits_number ((if combo div 8 = 3 then 8 + combo mod 2 else combo mod 8) # ds))
            (int ((if combo div 8 = 3 then combo div 2 mod 4 else combo div 8) * 2 ^ E + econ)
              - int bias))
          (decode_declets coeff D))"
proof -
  have w: "w * 8 = 6 + E + 10 * D" using DECF_PARAMS_shape [OF assms(1)] by auto
  then have i: "w * 8 - 1 = 5 + E + 10 * D" "w * 8 - 6 = E + 10 * D" "w * 8 - 6 - E = 10 * D"
    by simp_all
  show ?thesis
    unfolding decode_decfloat_def Let_def assms(1,2) option.case prod.case i n diff_add_inverse
      decf_fields [OF assms(4-7)] ..
qed

lemma decf_value:
  assumes "DECF_PARAMS w = Some (E, D, bias, nd)"
    and "s < 2" "combo < 32" "econ < 2 ^ E" "coeff < 1024 ^ D"
  defines "n \<equiv> s * 2 ^ (5 + E + 10 * D) + combo * 2 ^ (E + 10 * D) + econ * 2 ^ (10 * D) + coeff"
  shows "be_val (rev (rev (be_bytes w n))) = n"
proof -
  have w: "w * 8 = 6 + E + 10 * D" using DECF_PARAMS_shape [OF assms(1)] by auto
  have "n < 2 ^ (w * 8)"
    unfolding n_def w by (rule decf_fields(5) [OF assms(2-5)])
  then have "n < 256 ^ w" by (simp add: mult.commute [of w] power_mult)
  then show ?thesis by simp
qed

lemma combo_fields:
  assumes "lead < 10" "hi < 3"
  defines "combo \<equiv> (if lead \<le> 7 then hi * 8 + lead else 24 + hi * 2 + lead mod 2 :: nat)"
  shows "combo < 32" and "combo div 2 \<noteq> 15"
    and "(if combo div 8 = 3 then 8 + combo mod 2 else combo mod 8) = lead"
    and "(if combo div 8 = 3 then combo div 2 mod 4 else combo div 8) = hi"
proof -
  let ?c = "\<lambda>lead hi. (if lead \<le> 7 then hi * 8 + lead else 24 + hi * 2 + lead mod 2 :: nat)"
  have "\<forall>lead \<in> set [0..<10]. \<forall>hi \<in> set [0..<3]. ?c lead hi < 32 \<and> ?c lead hi div 2 \<noteq> 15
      \<and> (if ?c lead hi div 8 = 3 then 8 + ?c lead hi mod 2 else ?c lead hi mod 8) = lead
      \<and> (if ?c lead hi div 8 = 3 then ?c lead hi div 2 mod 4 else ?c lead hi div 8) = hi"
    by code_simp
  moreover have "lead \<in> set [0..<10]" "hi \<in> set [0..<3]" using assms(1,2) by auto
  ultimately show "combo < 32" and "combo div 2 \<noteq> 15"
    and "(if combo div 8 = 3 then 8 + combo mod 2 else combo mod 8) = lead"
    and "(if combo div 8 = 3 then combo div 2 mod 4 else combo div 8) = hi"
    unfolding combo_def by blast+
qed

lemma decf_special_roundtrip:
  assumes P: "DECF_PARAMS w = Some (E, D, bias, nd)" and c: "combo = 30 \<or> combo = 31"
  shows "decode_decfloat (decf_special w s combo) = Inr (if odd combo then DNaN s else DInf s)"
proof -
  have w: "w * 8 = 6 + E + 10 * D" using DECF_PARAMS_shape [OF P] by auto
  then have i: "w * 8 - 1 = 5 + E + 10 * D" "w * 8 - 6 = E + 10 * D" by simp_all
  let ?n = "of_bool s * 2 ^ (5 + E + 10 * D) + combo * 2 ^ (E + 10 * D) + 0 * 2 ^ (10 * D) + 0 :: nat"
  have b: "of_bool s < (2 :: nat)" "combo < 32" "0 < (2 :: nat) ^ E" "0 < (1024 :: nat) ^ D"
    using c by auto
  have "decf_special w s combo = rev (be_bytes w ?n)"
    unfolding decf_special_def i by simp
  then have "be_val (rev (decf_special w s combo)) = ?n"
    using decf_value [OF P b] by simp
  from decode_decfloat_fields [OF P _ this b] show ?thesis
    using c by (auto simp: decf_special_def)
qed

lemma decf_pack_roundtrip:
  assumes P: "DECF_PARAMS w = Some (E, D, bias, nd)"
    and len: "length ds = nd" and digits: "\<forall>d \<in> set ds. d < 10" and bi: "biased < 3 * 2 ^ E"
  shows "decode_decfloat (decf_pack w E s ds biased) =
    Inr (DFin s (digits_number ds) (int biased - int bias))"
proof -
  have w: "w * 8 = 6 + E + 10 * D" "nd = 3 * D + 1" using DECF_PARAMS_shape [OF P] by auto
  then have i: "w * 8 - 1 = 5 + E + 10 * D" "w * 8 - 6 = E + 10 * D" "w * 8 - 6 - E = 10 * D"
    by simp_all
  obtain lead tl where ds: "ds = lead # tl" "length tl = 3 * D"
    using len w by (cases ds) auto
  have lead: "lead < 10" using digits ds by simp
  define hi where "hi = biased div 2 ^ E"
  have hi: "hi < 3" using bi by (simp add: hi_def div_less_iff_less_mult mult.commute)
  define combo where "combo = (if lead \<le> 7 then hi * 8 + lead else 24 + hi * 2 + lead mod 2)"
  define econ where "econ = biased mod 2 ^ E"
  let ?coeff = "pack_declets tl 0"
  let ?n = "of_bool s * 2 ^ (5 + E + 10 * D) + combo * 2 ^ (E + 10 * D) + econ * 2 ^ (10 * D) + ?coeff"
  have combo: "combo < 32" "combo div 2 \<noteq> 15"
    "(if combo div 8 = 3 then 8 + combo mod 2 else combo mod 8) = lead"
    "(if combo div 8 = 3 then combo div 2 mod 4 else combo div 8) = hi"
    using combo_fields [OF lead hi] unfolding combo_def by - assumption+
  have b: "of_bool s < (2 :: nat)" "combo < 32" "econ < 2 ^ E" "?coeff < 1024 ^ D"
    using combo(1) pack_declets_less [OF ds(2)] by (auto simp: econ_def)
  have pack: "decf_pack w E s ds biased = rev (be_bytes w ?n)"
    unfolding decf_pack_def Let_def i by (simp add: ds combo_def hi_def econ_def)
  then have "be_val (rev (decf_pack w E s ds biased)) = ?n"
    using decf_value [OF P b] by simp
  moreover have "length (decf_pack w E s ds biased) = w" by (simp add: pack)
  moreover have "decode_declets ?coeff D = Inr tl"
    using decode_pack_declets [OF ds(2)] digits ds by simp
  moreover have "hi * 2 ^ E + econ = biased" by (simp only: hi_def econ_def div_mult_mod_eq)
  ultimately show ?thesis
    using decode_decfloat_fields [OF P _ _ b] combo by (simp add: ds)
qed

lemma decf_params_digits: "DECF_PARAMS w = Some (E, D, bias, nd) \<Longrightarrow> 0 < nd"
  by (auto split: if_splits)

text \<open>A finite value within the digits and exponents of its width, an infinity or a NaN comes
  back as it was, and nothing else is encoded.\<close>

lemma decimal_roundtrip:
  assumes "encode_decimal d w = Inr bs"
  shows "decode_decfloat bs = Inr d" and "length bs = w"
proof -
  obtain E D bias nd where P: "DECF_PARAMS w = Some (E, D, bias, nd)"
    using assms by (cases "DECF_PARAMS w") (auto simp: encode_decimal_def simp del: DECF_PARAMS.simps)
  have "decode_decfloat bs = Inr d \<and> length bs = w"
  proof (cases d)
    case (DFin s c e)
    let ?ds = "decf_digits c"
    let ?pd = "replicate (nd - length ?ds) 0 @ ?ds"
    have le: "length ?ds \<le> nd" and b0: "0 \<le> e + int bias" and b1: "e + int bias \<le> 3 * 2 ^ E - 1"
      and bs: "bs = decf_pack w E s ?pd (nat (e + int bias))"
      using assms
      by (auto simp: encode_decimal_def P DFin Let_def simp del: DECF_PARAMS.simps split: if_splits)
    have "int (nat (e + int bias)) < int (3 * 2 ^ E)" using b0 b1 by simp
    then have bi: "nat (e + int bias) < 3 * 2 ^ E" by linarith
    have dg: "\<forall>d \<in> set ?pd. d < 10" using decf_digits_less by fastforce
    have len: "length ?pd = nd" using le by simp
    have "decode_decfloat bs = Inr (DFin s c e)"
      using decf_pack_roundtrip [OF P len dg bi, of s] b0
      by (simp add: bs digits_number_zeros digits_number_decf_digits)
    then show ?thesis by (simp add: DFin bs decf_pack_def Let_def)
  next
    case (DInf s)
    then have "bs = decf_special w s 30"
      using assms by (simp add: encode_decimal_def P del: DECF_PARAMS.simps)
    then show ?thesis using decf_special_roundtrip [OF P, of 30 s] by (simp add: DInf, simp add: decf_special_def)
  next
    case (DNaN s)
    then have "bs = decf_special w s 31"
      using assms by (simp add: encode_decimal_def P del: DECF_PARAMS.simps)
    then show ?thesis using decf_special_roundtrip [OF P, of 31 s] by (simp add: DNaN, simp add: decf_special_def)
  qed
  then show "decode_decfloat bs = Inr d" and "length bs = w" by blast+
qed

lemma encode_decimal_fits:
  assumes "DECF_PARAMS w = Some (E, D, bias, nd)" and "c < 10 ^ nd"
    and "0 \<le> e + int bias" and "e + int bias < 3 * 2 ^ E"
  shows "\<exists>bs. encode_decimal (DFin s c e) w = Inr bs"
  using assms length_dec_digits_le [of nd c] decf_params_digits [OF assms(1)]
  by (auto simp: encode_decimal_def decf_digits_def Let_def simp del: DECF_PARAMS.simps)

text \<open>A declet outside the thousand canonical ones is a \<^verbatim>\<open>KeyError\<close>, not one of the redundant
  encodings the standard accepts.\<close>

lemma dpd_decode_canonical:
  assumes "dpd_decode n = Some t"
  shows "dpd_encode (dpd_digits n) = n"
proof -
  obtain d1 d2 d3 where t: "t = (d1, d2, d3)" by (metis prod_cases3)
  from assms have "t \<in> set digit_triples" "dpd_encode t = n"
    by (auto simp: dpd_decode_def find_Some_iff)
  then show ?thesis using dpd_roundtrip [of d1 d2 d3] by (auto simp: digit_triples_def t)
qed

lemma redundant_declet: "dpd_decode 0x16E = None"
proof (cases "dpd_decode 0x16E")
  case (Some t)
  then have "dpd_encode (dpd_digits 0x16E) = 0x16E" by (rule dpd_decode_canonical)
  moreover have "dpd_encode (dpd_digits 0x16E) \<noteq> 0x16E" by code_simp
  ultimately show ?thesis by simp
qed

section \<open>Properties\<close>

text \<open>C38. Decimal floating point is exact.  A finite value whose coefficient and exponent fit the
  width (16 digits for 8 bytes, 34 for 16) is encoded in that many bytes and decodes to the same
  sign, coefficient and exponent, trailing zeros included.\<close>

theorem decfloat_exact:
  assumes "DECF_PARAMS w = Some (E, D, bias, nd)" and "c < 10 ^ nd"
    and "0 \<le> e + int bias" and "e + int bias < 3 * 2 ^ E"
  shows "\<exists>bs. encode_decimal (DFin s c e) w = Inr bs \<and> length bs = w \<and>
    decode_decfloat bs = Inr (DFin s c e)"
  using encode_decimal_fits [OF assms] decimal_roundtrip by blast

theorem decfloat_exact_witness:
  "\<exists>bs. encode_decimal (DFin True 9999999999999999 369) 8 = Inr bs \<and> length bs = 8 \<and>
    decode_decfloat bs = Inr (DFin True 9999999999999999 369)"
  using decfloat_exact [of 8 8 5 398 16 9999999999999999 369 True] by simp

text \<open>Encoding a decimal float never loses anything silently.  Whenever any value, infinities and
  NaNs included, is encoded at all, the bytes have the width asked for and decode to exactly that
  value; a value that would not survive is an error instead.\<close>

lemma decfloat_never_lossy:
  assumes "encode_decimal d w = Inr bs"
  shows "length bs = w \<and> decode_decfloat bs = Inr d"
  using decimal_roundtrip [OF assms] by blast

text \<open>The declet tables are inverse on the canonical declets and nothing else decodes.  Three
  digits packed into ten bits come back; and a declet decodes only when it is the canonical one of
  its digits, so a redundant declet such as 0x16E, which the standard reads, is refused.\<close>

lemma declets_canonical:
  "(d1 < 10 \<and> d2 < 10 \<and> d3 < 10 \<longrightarrow> dpd_decode (dpd_encode (d1, d2, d3)) = Some (d1, d2, d3)) \<and>
   (dpd_decode n \<noteq> None \<longrightarrow> dpd_encode (dpd_digits n) = n) \<and> dpd_decode 0x16E = None"
  using dpd_decode_encode dpd_decode_canonical redundant_declet by auto

end
