(* ===== verification/Codec.thy ===== *)
theory Codec
  imports Decfloat "HOL-Library.AList"
begin

text \<open>
  The parameter codec, \<^verbatim>\<open>src/saprfclib/codec.py\<close>, over the descriptors of
  \<^verbatim>\<open>src/saprfclib/types.py\<close>: fixed width text, packed decimals, integers, and structures and
  tables of any depth driven by their descriptors.

  Offsets, lengths and sizes of descriptors are natural numbers.  Setting
  \<^verbatim>\<open>child.unicode_mode\<close> in the source's loops is \<open>with_mode\<close>; the source's write into the
  descriptor is repeated before every use, so passing the changed copy on is the same.
  \<^verbatim>\<open>float(x)\<close> of a value that is not a float already is the parameter \<open>to_float\<close>.
\<close>

section \<open>Descriptors\<close>

datatype field_desc =
  FieldDesc (fd_name: pystr) (rfctype: nat) (nuc_length: nat) (nuc_offset: nat)
    (uc_length: nat) (uc_offset: nat) (decimals: int) (unicode_mode: bool)
    (type_desc: "type_desc option") (direction: nat) (optional: bool)
    (default_value: "pystr option") (param_text: "pystr option")
and type_desc =
  TypeDesc (td_name: pystr) (td_fields: "field_desc list") (nuc_size: nat) (uc_size: nat)

record func_desc =
  fn_name :: pystr
  parameters :: "field_desc list"

definition RFC_IMPORT :: nat where "RFC_IMPORT = 1"
definition RFC_EXPORT :: nat where "RFC_EXPORT = 2"
definition RFC_CHANGING :: nat where "RFC_CHANGING = 3"
definition RFC_TABLES :: nat where "RFC_TABLES = 7"

fun with_mode :: "bool \<Rightarrow> field_desc \<Rightarrow> field_desc" where
  "with_mode u (FieldDesc n r nl no ul uo d m td dir opt dv pt) =
     FieldDesc n r nl no ul uo d u td dir opt dv pt"

lemma with_mode_sel [simp]:
  "fd_name (with_mode u f) = fd_name f" "rfctype (with_mode u f) = rfctype f"
  "unicode_mode (with_mode u f) = u" "type_desc (with_mode u f) = type_desc f"
  "uc_length (with_mode u f) = uc_length f" "uc_offset (with_mode u f) = uc_offset f"
  "nuc_length (with_mode u f) = nuc_length f" "nuc_offset (with_mode u f) = nuc_offset f"
  "decimals (with_mode u f) = decimals f" "size (with_mode u f) = size f"
  by (cases f; simp)+

definition RFCTYPE_CHAR :: nat where "RFCTYPE_CHAR = 0"
definition RFCTYPE_DATE :: nat where "RFCTYPE_DATE = 1"
definition RFCTYPE_BCD :: nat where "RFCTYPE_BCD = 2"
definition RFCTYPE_TIME :: nat where "RFCTYPE_TIME = 3"
definition RFCTYPE_BYTE :: nat where "RFCTYPE_BYTE = 4"
definition RFCTYPE_TABLE :: nat where "RFCTYPE_TABLE = 5"
definition RFCTYPE_NUM :: nat where "RFCTYPE_NUM = 6"
definition RFCTYPE_FLOAT :: nat where "RFCTYPE_FLOAT = 7"
definition RFCTYPE_INT :: nat where "RFCTYPE_INT = 8"
definition RFCTYPE_INT2 :: nat where "RFCTYPE_INT2 = 9"
definition RFCTYPE_INT1 :: nat where "RFCTYPE_INT1 = 10"
definition RFCTYPE_NULL :: nat where "RFCTYPE_NULL = 14"
definition RFCTYPE_ABAPOBJECT :: nat where "RFCTYPE_ABAPOBJECT = 16"
definition RFCTYPE_STRUCTURE :: nat where "RFCTYPE_STRUCTURE = 17"
definition RFCTYPE_DECF16 :: nat where "RFCTYPE_DECF16 = 23"
definition RFCTYPE_DECF34 :: nat where "RFCTYPE_DECF34 = 24"
definition RFCTYPE_XMLDATA :: nat where "RFCTYPE_XMLDATA = 28"
definition RFCTYPE_STRING :: nat where "RFCTYPE_STRING = 29"
definition RFCTYPE_XSTRING :: nat where "RFCTYPE_XSTRING = 30"

lemmas rfctype_defs =
  RFCTYPE_CHAR_def RFCTYPE_DATE_def RFCTYPE_BCD_def RFCTYPE_TIME_def RFCTYPE_BYTE_def
  RFCTYPE_TABLE_def RFCTYPE_NUM_def RFCTYPE_FLOAT_def RFCTYPE_INT_def RFCTYPE_INT2_def
  RFCTYPE_INT1_def RFCTYPE_NULL_def RFCTYPE_ABAPOBJECT_def RFCTYPE_STRUCTURE_def
  RFCTYPE_DECF16_def RFCTYPE_DECF34_def RFCTYPE_XMLDATA_def RFCTYPE_STRING_def RFCTYPE_XSTRING_def

text \<open>Signed little-endian integers by type: the width in bytes.  31 to 40 are INT8 and the time
  stamp, date and time types that share the integer encodings.\<close>

definition INT_FORMATS :: "nat \<Rightarrow> nat option" where
  "INT_FORMATS = map_of
     [(RFCTYPE_INT, 4), (RFCTYPE_INT2, 2), (31, 8), (32, 8), (33, 8), (34, 8),
      (35, 4), (36, 4), (37, 4), (38, 4), (39, 2), (40, 2)]"

definition OUT_OF_SCOPE :: "nat list" where
  "OUT_OF_SCOPE = [RFCTYPE_NULL, RFCTYPE_ABAPOBJECT, RFCTYPE_XMLDATA]"

definition field_span :: "field_desc \<Rightarrow> nat \<times> nat" where
  "field_span f =
     (if unicode_mode f then (uc_offset f, uc_length f) else (nuc_offset f, nuc_length f))"

definition row_size :: "type_desc \<Rightarrow> bool \<Rightarrow> nat" where
  "row_size td u = (if u then uc_size td else nuc_size td)"

definition require_type_desc :: "field_desc \<Rightarrow> type_desc res" where
  "require_type_desc f = opt_res IncompleteDescriptorError (type_desc f)"

definition default_field_value :: "field_desc \<Rightarrow> pyval" where
  "default_field_value c =
     (let t = rfctype c in
      if t = RFCTYPE_STRUCTURE then VDict []
      else if t = RFCTYPE_TABLE then VList []
      else if t = RFCTYPE_BYTE \<or> t = RFCTYPE_XSTRING then VBytes []
      else if t = RFCTYPE_FLOAT then VFloat 0
      else if t = RFCTYPE_BCD then VDec (DFin False 0 0)
      else if INT_FORMATS t \<noteq> None \<or> t = RFCTYPE_INT1 then VInt 0
      else VStr [])"

section \<open>Fixed width text\<close>

definition uc_decode :: "field_desc \<Rightarrow> bytes \<Rightarrow> pystr res" where
  "uc_decode f data =
     opt_res UnicodeError (if unicode_mode f then utf16le_decode data else utf16be_decode data)"

definition uc_encode :: "field_desc \<Rightarrow> pystr \<Rightarrow> bytes res" where
  "uc_encode f s =
     opt_res UnicodeError (if unicode_mode f then utf16le_encode s else utf16be_encode s)"

definition decode_initial_or :: "pystr \<Rightarrow> pystr" where
  "decode_initial_or s = (if strip_by (\<lambda>c. c = 48 \<or> c = 32) s = [] then [] else s)"

definition char_count :: "field_desc \<Rightarrow> nat" where
  "char_count f = uc_length f div 2"

definition encode_uc_fixed :: "pyval \<Rightarrow> field_desc \<Rightarrow> nat \<Rightarrow> bytes res" where
  "encode_uc_fixed v f pad =
     (case v of
        VStr s \<Rightarrow>
          (let w = char_count f in
           uc_encode f (if w = 0 then s
                        else take w (if pad = 48 then rjust w 48 s else ljust w pad s)))
      | _ \<Rightarrow> Inl TypeError)"

section \<open>Packed decimals\<close>

fun nibbles :: "bytes \<Rightarrow> nat list" where
  "nibbles [] = []"
| "nibbles (b # bs) = unat b div 16 # unat b mod 16 # nibbles bs"

fun pack_nibbles :: "nat list \<Rightarrow> bytes" where
  "pack_nibbles (a # b # ns) = word_of_nat (a * 16 + b) # pack_nibbles ns"
| "pack_nibbles _ = []"

definition decode_bcd :: "bytes \<Rightarrow> field_desc \<Rightarrow> pydec res" where
  "decode_bcd data f =
     (let width = snd (field_span f) in
      if width = 0 then Inl ValueError
      else if length data < width then Inl ValueError
      else
        let ns = nibbles (take width data); sn = last ns; ds = butlast ns in
        if sn \<notin> {0xB, 0xC, 0xD, 0xF} then Inl ValueError
        else if \<exists>d \<in> set ds. d > 9 then Inl ValueError
        else Inr (dec_scaleb (DFin (sn = 0xD) (digits_number ds) 0) (- decimals f)))"

definition encode_bcd :: "pyval \<Rightarrow> field_desc \<Rightarrow> bytes res" where
  "encode_bcd v f =
     bind_res (case v of VFloat w \<Rightarrow> Inl TypeError | _ \<Rightarrow> dec_of_value v) (\<lambda>d.
       let width = snd (field_span f) in
       if width = 0 then Inl ValueError
       else bind_res (dec_int (dec_to_integral (dec_scaleb d (decimals f)))) (\<lambda>i.
         let ds = decf_digits (nat \<bar>i\<bar>); n = width * 2 - 1 in
         if length ds > n then Inl ValueError
         else Inr (pack_nibbles (rjust n 0 ds @ [if dec_negative d then 0xD else 0xC]))))"

section \<open>Scalars\<close>

definition pack_int :: "nat \<Rightarrow> int \<Rightarrow> bytes res" where
  "pack_int k i =
     (if - (256 ^ k div 2) \<le> i \<and> i < 256 ^ k div 2
      then Inr (le_bytes k (nat (i mod 256 ^ k))) else Inl StructError)"

definition unpack_int :: "nat \<Rightarrow> bytes \<Rightarrow> int res" where
  "unpack_int k data =
     (if length (take k data) = k
      then let n = int (le_val (take k data)) in
           Inr (if n < 256 ^ k div 2 then n else n - 256 ^ k)
      else Inl StructError)"

definition decode_scalar :: "nat \<Rightarrow> bytes \<Rightarrow> field_desc \<Rightarrow> pyval res" where
  "decode_scalar t data f =
     (if t = RFCTYPE_DECF16 \<or> t = RFCTYPE_DECF34 then map_res VDec (decode_decfloat data)
      else case INT_FORMATS t of Some k \<Rightarrow> map_res VInt (unpack_int k data)
      | None \<Rightarrow>
        if t = RFCTYPE_BCD then map_res VDec (decode_bcd data f)
        else if t = RFCTYPE_INT1 then
          (case data of [] \<Rightarrow> Inl IndexError | b # bs \<Rightarrow> Inr (VInt (int (unat b))))
        else if t = RFCTYPE_FLOAT then
          (if length (take 8 data) = 8 then Inr (VFloat (word_of_nat (le_val (take 8 data))))
           else Inl StructError)
        else if t = RFCTYPE_CHAR then map_res (VStr \<circ> rstrip_by (\<lambda>c. c = 32)) (uc_decode f data)
        else if t = RFCTYPE_NUM then map_res VStr (uc_decode f data)
        else if t = RFCTYPE_DATE \<or> t = RFCTYPE_TIME then
          map_res (VStr \<circ> decode_initial_or) (uc_decode f data)
        else if t = RFCTYPE_BYTE \<or> t = RFCTYPE_XSTRING then Inr (VBytes data)
        else if t = RFCTYPE_STRING then map_res VStr (opt_res UnicodeError (utf8_decode data))
        else Inl ValueError)"

definition encode_scalar :: "(pyval \<Rightarrow> 64 word res) \<Rightarrow> nat \<Rightarrow> pyval \<Rightarrow> field_desc \<Rightarrow> bytes res" where
  "encode_scalar to_float t v f =
     (if t = RFCTYPE_DECF16 then encode_decfloat v 8
      else if t = RFCTYPE_DECF34 then encode_decfloat v 16
      else case INT_FORMATS t of Some k \<Rightarrow> bind_res (py_int_of v) (pack_int k)
      | None \<Rightarrow>
        if t = RFCTYPE_BCD then encode_bcd v f
        else if t = RFCTYPE_INT1 then
          bind_res (py_int_of v)
            (\<lambda>i. if 0 \<le> i \<and> i \<le> 255 then Inr [word_of_int i] else Inl ValueError)
        else if t = RFCTYPE_FLOAT then
          map_res (\<lambda>w. le_bytes 8 (unat w)) (case v of VFloat w \<Rightarrow> Inr w | _ \<Rightarrow> to_float v)
        else if t = RFCTYPE_NUM then encode_uc_fixed v f 48
        else if t = RFCTYPE_CHAR \<or> t = RFCTYPE_DATE \<or> t = RFCTYPE_TIME then encode_uc_fixed v f 32
        else if t = RFCTYPE_BYTE \<or> t = RFCTYPE_XSTRING then py_bytes_of v
        else if t = RFCTYPE_STRING then
          (case v of VStr s \<Rightarrow> opt_res UnicodeError (utf8_encode s) | _ \<Rightarrow> Inl TypeError)
        else Inl ValueError)"

section \<open>Structures and tables: decoding\<close>

lemma bind_res_cong [fundef_cong]:
  "r = r' \<Longrightarrow> (\<And>x. r' = Inr x \<Longrightarrow> f x = g x) \<Longrightarrow> bind_res r f = bind_res r' g"
  by (cases r) auto

lemma require_type_desc_Some [simp]:
  "require_type_desc f = Inr td \<longleftrightarrow> type_desc f = Some td"
  by (cases "type_desc f") (simp_all add: require_type_desc_def)

lemma size_type_desc: "type_desc f = Some td \<Longrightarrow> size td < size f"
  by (cases f) auto

lemma size_td_fields [simp]: "size_list size (td_fields td) < size td"
  by (cases td) simp

function row_slices :: "nat \<Rightarrow> bytes \<Rightarrow> bytes list" where
  "row_slices w data =
     (if w = 0 \<or> length data < w then [] else take w data # row_slices w (drop w data))"
  by pat_completeness auto
termination by (relation "measure (length \<circ> snd)") auto

declare row_slices.simps [simp del]

text \<open>The row width: what the server sent over the number of rows it declared, or the
  descriptor's width when there is no count.  \<open>None\<close> is the empty table without a count.\<close>

definition row_width :: "nat option \<Rightarrow> nat \<Rightarrow> nat \<Rightarrow> nat option res" where
  "row_width row_count declared len =
     (case row_count of
        None \<Rightarrow> Inr (if len = 0 then None else Some declared)
      | Some n \<Rightarrow>
          if n = 0 then Inr (if len = 0 then None else Some declared)
          else if len mod n \<noteq> 0 then Inl ValueError
          else if len div n < declared then Inl ValueError
          else Inr (Some (len div n)))"

text \<open>In the loop over the fields of a structure the source dispatches nested structures and
  tables itself, to the functions \<open>decode\<close> dispatches them to.\<close>

function (sequential)
  decode :: "nat \<Rightarrow> bytes \<Rightarrow> field_desc \<Rightarrow> nat option \<Rightarrow> pyval res"
and decode_structure :: "bytes \<Rightarrow> type_desc \<Rightarrow> bool \<Rightarrow> pyval res"
and decode_fields :: "bytes \<Rightarrow> field_desc list \<Rightarrow> bool \<Rightarrow> (pystr \<times> pyval) list \<Rightarrow> pyval res"
and decode_table :: "bytes \<Rightarrow> field_desc \<Rightarrow> nat option \<Rightarrow> pyval res"
and decode_rows :: "bytes list \<Rightarrow> type_desc \<Rightarrow> bool \<Rightarrow> pyval list res"
where
  "decode t data f row_count =
     (if t \<in> set OUT_OF_SCOPE then Inl ValueError
      else if t = RFCTYPE_STRUCTURE then
        bind_res (require_type_desc f) (\<lambda>td. decode_structure data td (unicode_mode f))
      else if t = RFCTYPE_TABLE then decode_table data f row_count
      else decode_scalar t data f)"
| "decode_structure data td u = decode_fields data (td_fields td) u []"
| "decode_fields data [] u result = Inr (VDict result)"
| "decode_fields data (c # cs) u result =
     (case field_span (with_mode u c) of (off, len) \<Rightarrow>
        if off + len > length data then Inl ValueError
        else bind_res (decode (rfctype c) (py_slice off (off + len) data) (with_mode u c) None)
               (\<lambda>v. decode_fields data cs u (AList.update (fd_name c) v result)))"
| "decode_table data f row_count =
     bind_res (require_type_desc f) (\<lambda>td.
       bind_res (row_width row_count (row_size td (unicode_mode f)) (length data)) (\<lambda>ow.
         case ow of None \<Rightarrow> Inr (VList [])
         | Some w \<Rightarrow>
             if w = 0 then Inl ValueError
             else map_res VList (decode_rows (row_slices w data) td (unicode_mode f))))"
| "decode_rows [] td u = Inr []"
| "decode_rows (r # rs) td u =
     bind_res (decode_structure r td u) (\<lambda>v. map_res ((#) v) (decode_rows rs td u))"
  by pat_completeness auto
termination
  by (relation "inv_image (less_than <*lex*> less_than <*lex*> less_than)
    (\<lambda>x. case x of
       Inl (Inl (t, data, f, rc)) \<Rightarrow> (size f, 3, 0)
     | Inl (Inr (data, td, u)) \<Rightarrow> (size td, 1, 0)
     | Inr (Inl (data, cs, u, acc)) \<Rightarrow> (size_list size cs, 0, length cs)
     | Inr (Inr (Inl (data, f, rc))) \<Rightarrow> (size f, 2, 0)
     | Inr (Inr (Inr (rs, td, u))) \<Rightarrow> (size td, 2, length rs))")
   (auto dest: size_type_desc)

section \<open>Structures and tables: encoding\<close>

definition put_field :: "nat \<Rightarrow> bytes \<Rightarrow> bytes \<Rightarrow> bytes" where
  "put_field off raw buf =
     put_slice off (off + length raw) raw (buf @ replicate (off + length raw - length buf) 0)"

text \<open>A field the caller did not supply gets its initial value; a nested structure or table of
  unknown layout is left as the zero fill.\<close>

function (sequential)
  encode :: "(pyval \<Rightarrow> 64 word res) \<Rightarrow> nat \<Rightarrow> pyval \<Rightarrow> field_desc \<Rightarrow> bytes res"
and encode_structure :: "(pyval \<Rightarrow> 64 word res) \<Rightarrow> pyval \<Rightarrow> type_desc \<Rightarrow> bool \<Rightarrow> bytes res"
and encode_fields ::
    "(pyval \<Rightarrow> 64 word res) \<Rightarrow> pyval \<Rightarrow> field_desc list \<Rightarrow> bool \<Rightarrow> bytes \<Rightarrow> bytes res"
and encode_table :: "(pyval \<Rightarrow> 64 word res) \<Rightarrow> pyval \<Rightarrow> field_desc \<Rightarrow> bytes res"
and encode_rows :: "(pyval \<Rightarrow> 64 word res) \<Rightarrow> pyval list \<Rightarrow> type_desc \<Rightarrow> bool \<Rightarrow> bytes res"
where
  "encode tf t v f =
     (if t \<in> set OUT_OF_SCOPE then Inl ValueError
      else if t = RFCTYPE_STRUCTURE then
        bind_res (require_type_desc f) (\<lambda>td. encode_structure tf v td (unicode_mode f))
      else if t = RFCTYPE_TABLE then encode_table tf v f
      else encode_scalar tf t v f)"
| "encode_structure tf v td u = encode_fields tf v (td_fields td) u (replicate (row_size td u) 0)"
| "encode_fields tf v [] u buf = Inr buf"
| "encode_fields tf v (c # cs) u buf =
     bind_res (py_lookup v (fd_name c)) (\<lambda>ov.
       if ov = None \<and> (rfctype c = RFCTYPE_STRUCTURE \<or> rfctype c = RFCTYPE_TABLE)
            \<and> type_desc c = None
       then encode_fields tf v cs u buf
       else bind_res
              (encode tf (rfctype c) (case ov of None \<Rightarrow> default_field_value c | Some x \<Rightarrow> x)
                (with_mode u c))
              (\<lambda>raw. encode_fields tf v cs u (put_field (fst (field_span (with_mode u c))) raw buf)))"
| "encode_table tf v f =
     bind_res (require_type_desc f) (\<lambda>td.
       bind_res (py_iter v) (\<lambda>rows. encode_rows tf rows td (unicode_mode f)))"
| "encode_rows tf [] td u = Inr []"
| "encode_rows tf (r # rs) td u =
     bind_res (encode_structure tf r td u) (\<lambda>b. map_res ((@) b) (encode_rows tf rs td u))"
  by pat_completeness auto
termination
  by (relation "inv_image (less_than <*lex*> less_than <*lex*> less_than)
    (\<lambda>x. case x of
       Inl (Inl (tf, t, v, f)) \<Rightarrow> (size f, 3, 0)
     | Inl (Inr (tf, v, td, u)) \<Rightarrow> (size td, 1, 0)
     | Inr (Inl (tf, v, cs, u, buf)) \<Rightarrow> (size_list size cs, 0, length cs)
     | Inr (Inr (Inl (tf, v, f))) \<Rightarrow> (size f, 2, 0)
     | Inr (Inr (Inr (tf, rs, td, u))) \<Rightarrow> (size td, 2, length rs))")
   (auto dest: size_type_desc)

declare decode.simps [simp del] decode_table.simps [simp del]
declare encode.simps [simp del] encode_table.simps [simp del]

section \<open>Scalars come back\<close>

text \<open>A text of code points below 0x10000, surrogates excluded, takes two bytes per code point.\<close>

definition is_bmp :: "pystr \<Rightarrow> bool" where
  "is_bmp s \<longleftrightarrow> (\<forall>c \<in> set s. c < 0x10000 \<and> \<not> is_surrogate c)"

lemma utf16_units_bmp: "is_bmp s \<Longrightarrow> utf16_units s = Some s"
  by (induction s) (auto simp: is_bmp_def)

lemma uc_encode_bmp:
  assumes "is_bmp s"
  shows "\<exists>bs. uc_encode f s = Inr bs \<and> length bs = 2 * length s \<and> uc_decode f bs = Inr s"
proof (cases "unicode_mode f")
  case True
  have "utf16le_encode s = Some (concat (map (le_bytes 2) s))"
    by (simp add: utf16le_encode_def utf16_units_bmp [OF assms])
  with utf16le_roundtrip [OF this] True show ?thesis by (simp add: uc_encode_def uc_decode_def)
next
  case False
  have "utf16be_encode s = Some (concat (map (be_bytes 2) s))"
    by (simp add: utf16be_encode_def utf16_units_bmp [OF assms])
  with utf16be_roundtrip [OF this] False show ?thesis by (simp add: uc_encode_def uc_decode_def)
qed

lemma is_bmp_padding: "is_bmp s \<Longrightarrow> c < 128 \<Longrightarrow> is_bmp (ljust w c s) \<and> is_bmp (rjust w c s)"
  by (auto simp: is_bmp_def ljust_def rjust_def is_surrogate_def)

lemma encode_uc_fixed_bmp:
  assumes "is_bmp s" and "length s \<le> char_count f" and "pad < 128"
  shows "\<exists>bs. encode_uc_fixed (VStr s) f pad = Inr bs \<and> length bs = 2 * char_count f \<and>
    uc_decode f bs = Inr (if pad = 48 then rjust (char_count f) 48 s else ljust (char_count f) pad s)"
proof (cases "char_count f = 0")
  case True
  then show ?thesis
    using uc_encode_bmp [OF assms(1), of f] assms(2)
    by (auto simp: encode_uc_fixed_def Let_def ljust_def rjust_def)
next
  case False
  let ?t = "if pad = 48 then rjust (char_count f) 48 s else ljust (char_count f) pad s"
  have len: "length ?t = char_count f" using assms(2) by simp
  have "is_bmp ?t" using is_bmp_padding [OF assms(1)] assms(3) by auto
  with uc_encode_bmp [of ?t f] len False show ?thesis
    by (auto simp: encode_uc_fixed_def Let_def)
qed

lemma rstrip_ljust: "rstrip_by (\<lambda>c. c = x) (ljust w x s) = rstrip_by (\<lambda>c. c = x) s"
  by (simp add: ljust_def rstrip_by_append_all)

lemma char_roundtrip:
  assumes "is_bmp s" and "length s \<le> char_count f"
  shows "\<exists>bs. encode_scalar tf RFCTYPE_CHAR (VStr s) f = Inr bs \<and> length bs = 2 * char_count f \<and>
    decode_scalar RFCTYPE_CHAR bs f = Inr (VStr (rstrip_by (\<lambda>c. c = 32) s))"
  using encode_uc_fixed_bmp [OF assms, of 32, simplified]
  by (auto simp: encode_scalar_def decode_scalar_def rfctype_defs INT_FORMATS_def rstrip_ljust)

lemma num_roundtrip:
  assumes "is_bmp s" and "length s \<le> char_count f"
  shows "\<exists>bs. encode_scalar tf RFCTYPE_NUM (VStr s) f = Inr bs \<and> length bs = 2 * char_count f \<and>
    decode_scalar RFCTYPE_NUM bs f = Inr (VStr (rjust (char_count f) 48 s))"
  using encode_uc_fixed_bmp [OF assms, of 48, simplified]
  by (auto simp: encode_scalar_def decode_scalar_def rfctype_defs INT_FORMATS_def)

lemma unpack_pack_int:
  assumes "pack_int k i = Inr bs" and "0 < k"
  shows "length bs = k \<and> unpack_int k bs = Inr i"
proof -
  let ?M = "256 ^ k :: int"
  have M: "256 dvd ?M" "0 < ?M" using assms(2) by (simp_all add: dvd_power)
  have "(2 :: int) dvd 256" by simp
  then have "2 dvd ?M" using M(1) by (rule dvd_trans)
  then have h: "?M = 2 * (?M div 2)" by simp
  from assms have r: "- (?M div 2) \<le> i" "i < ?M div 2"
    and bs: "bs = le_bytes k (nat (i mod ?M))" by (auto simp: pack_int_def split: if_splits)
  have m: "0 \<le> i mod ?M" "i mod ?M < ?M" using M by simp_all
  then have "nat (i mod ?M) < 256 ^ k" by (simp add: nat_less_iff)
  then have v: "int (le_val bs) = i mod ?M" using m by (simp add: bs)
  have "i mod ?M = (if 0 \<le> i then i else i + ?M)"
  proof (cases "0 \<le> i")
    case True
    then show ?thesis using r h by simp
  next
    case False
    then have "0 \<le> i + ?M" "i + ?M < ?M" using r h M by linarith+
    then have "(i + ?M) mod ?M = i + ?M" by (intro mod_pos_pos_trivial)
    moreover have "(i + ?M) mod ?M = i mod ?M" by (rule mod_add_self2)
    ultimately show ?thesis using False by (simp only: if_False)
  qed
  then show ?thesis using r h v by (auto simp: unpack_int_def bs Let_def)
qed

lemma int_roundtrip:
  assumes "INT_FORMATS t = Some k" and "- (256 ^ k div 2) \<le> i" and "i < 256 ^ k div 2"
  shows "\<exists>bs. encode_scalar tf t (VInt i) f = Inr bs \<and> length bs = k \<and>
    decode_scalar t bs f = Inr (VInt i)"
proof -
  have t: "t \<noteq> RFCTYPE_DECF16" "t \<noteq> RFCTYPE_DECF34" "0 < k"
    using assms(1) by (auto simp: INT_FORMATS_def rfctype_defs split: if_splits)
  obtain bs where bs: "pack_int k i = Inr bs" using assms by (simp add: pack_int_def)
  with unpack_pack_int [OF bs t(3)] t assms(1) show ?thesis
    by (auto simp: encode_scalar_def decode_scalar_def)
qed

text \<open>Packed decimals.\<close>

lemma nibbles_pack:
  "even (length ns) \<Longrightarrow> \<forall>n \<in> set ns. n < 16 \<Longrightarrow> nibbles (pack_nibbles ns) = ns"
proof (induction ns rule: pack_nibbles.induct)
  case (1 a b ns)
  then have "a * 16 + b < 256" by auto
  then have "unat (word_of_nat (a * 16 + b) :: byte) = a * 16 + b" by (rule unat_byte_small)
  with 1 show ?case by (simp del: of_nat_add)
qed auto

lemma length_pack_nibbles: "length (pack_nibbles ns) = length ns div 2"
  by (induction ns rule: pack_nibbles.induct) auto

lemma bcd_roundtrip:
  assumes "0 < snd (field_span f)" and "c < 10 ^ (snd (field_span f) * 2 - 1)"
    and "c < 10 ^ DEC_PREC"
  shows "\<exists>bs. encode_bcd (VDec (DFin s c (- decimals f))) f = Inr bs \<and>
    length bs = snd (field_span f) \<and> decode_bcd bs f = Inr (DFin s c (- decimals f))"
proof -
  let ?w = "snd (field_span f)"
  let ?ds = "decf_digits c" and ?n = "?w * 2 - 1"
  have len: "length ?ds \<le> ?n"
    using length_dec_digits_le [OF _ assms(2)] assms(1) by (simp add: decf_digits_def)
  define ns where "ns = rjust ?n 0 ?ds @ [if s then 0xD else 0xC]"
  have lns: "length ns = 2 * ?w" using len assms(1) by (simp add: ns_def)
  have lt: "\<forall>n \<in> set ns. n < 16" "\<forall>d \<in> set (rjust ?n 0 ?ds). \<not> 9 < d"
    using decf_digits_less by (fastforce simp: ns_def rjust_def)+
  have "dec_int (dec_to_integral (dec_scaleb (DFin s c (- decimals f)) (decimals f)))
      = Inr (if s then - int c else int c)"
    using dec_fix_small [OF assms(3)] by simp
  moreover have "nat \<bar>if s then - int c else int c\<bar> = c" by simp
  ultimately have enc: "encode_bcd (VDec (DFin s c (- decimals f))) f = Inr (pack_nibbles ns)"
    using len assms(1) by (auto simp: encode_bcd_def dec_of_value_def Let_def ns_def)
  have lp: "length (pack_nibbles ns) = ?w" by (simp add: length_pack_nibbles lns)
  have nb: "nibbles (take ?w (pack_nibbles ns)) = ns"
    using nibbles_pack [of ns] lt lns lp by simp
  have "digits_number (rjust ?n 0 ?ds) = c"
    by (simp add: rjust_def digits_number_zeros digits_number_decf_digits)
  then have "decode_bcd (pack_nibbles ns) f = Inr (dec_fix (DFin s c (- decimals f)))"
    using assms(1) lp lt(2) unfolding decode_bcd_def Let_def nb
    by (auto simp: ns_def simp del: dec_fix.simps)
  then show ?thesis using enc lp dec_fix_small [OF assms(3)] by simp
qed

section \<open>Integers byte by byte\<close>

lemma le_bytes_int: "le_bytes k (nat (i mod 256 ^ k)) = map (\<lambda>j. word_of_int (i div 256 ^ j)) [0..<k]"
proof (induction k arbitrary: i)
  case (Suc k)
  have "word_of_nat (nat (i mod 256 ^ Suc k)) = (word_of_int (i mod 256 ^ Suc k) :: byte)"
    by (simp add: word_of_nat_eq_iff)
  also have "\<dots> = (word_of_int i :: byte)"
    by (simp add: word_of_int_eq_iff take_bit_eq_mod mod_mod_cancel)
  finally have h: "word_of_nat (nat (i mod 256 ^ Suc k)) = (word_of_int i :: byte)" .
  have "i mod 256 ^ Suc k div 256 = (i div 256) mod 256 ^ k"
    by (simp add: zmod_zmult2_eq)
  then have d: "nat (i mod 256 ^ Suc k) div 256 = nat ((i div 256) mod 256 ^ k)"
    by (metis nat_div_distrib nat_numeral zero_le_numeral pos_mod_sign zero_less_numeral zero_less_power)
  have "le_bytes (Suc k) (nat (i mod 256 ^ Suc k)) =
      word_of_int i # map (\<lambda>j. word_of_int (i div 256 div 256 ^ j)) [0..<k]"
    using h d Suc.IH [of "i div 256"] by simp
  also have "\<dots> = map (\<lambda>j. word_of_int (i div 256 ^ j)) [0..<Suc k]"
    by (simp add: upt_conv_Cons map_Suc_upt [symmetric] zdiv_zmult2_eq comp_def del: upt_Suc)
  finally show ?case .
qed simp

lemma unpack_whole:
  assumes "length bs = k" and "0 < k"
  shows "\<exists>i. - (256 ^ k div 2) \<le> i \<and> i < 256 ^ k div 2 \<and> unpack_int k bs = Inr i \<and> pack_int k i = Inr bs"
proof -
  let ?M = "256 ^ k :: int" and ?n = "int (le_val bs)"
  have "2 dvd (256 :: int)" by simp
  then have "2 dvd ?M" using assms(2) by (metis dvd_power dvd_trans)
  then have h: "?M = 2 * (?M div 2)" by simp
  have "le_val bs < 256 ^ k" using le_val_less [of bs] assms(1) by simp
  then have n: "0 \<le> ?n" "?n < ?M"
    by (simp_all only: of_nat_0_le_iff) (metis of_nat_less_iff of_nat_numeral of_nat_power)
  define i where "i = (if ?n < ?M div 2 then ?n else ?n - ?M)"
  have r: "- (?M div 2) \<le> i" "i < ?M div 2" using n h unfolding i_def by (simp_all only: split: if_split) linarith+
  have "i mod ?M = ?n" using n by (auto simp: i_def)
  then have "le_bytes k (nat (i mod ?M)) = bs" using assms(1) by (simp add: le_bytes_le_val)
  then have "pack_int k i = Inr bs" using r by (simp add: pack_int_def)
  moreover have "unpack_int k bs = Inr i" using assms(1) by (simp add: unpack_int_def i_def Let_def)
  ultimately show ?thesis using r by blast
qed

lemma signed_scalar:
  assumes "INT_FORMATS t = Some k"
  shows "encode_scalar tf t (VInt i) f =
      (if - (256 ^ k div 2) \<le> i \<and> i \<le> 256 ^ k div 2 - 1
       then Inr (map (\<lambda>j. word_of_int (i div 256 ^ j)) [0..<k]) else Inl StructError)"
    and "if k \<le> length bs
      then \<exists>i. - (256 ^ k div 2) \<le> i \<and> i \<le> 256 ^ k div 2 - 1 \<and> decode_scalar t bs f = Inr (VInt i) \<and>
        encode_scalar tf t (VInt i) f = Inr (take k bs)
      else decode_scalar t bs f = Inl StructError"
    and "- (256 ^ k div 2) \<le> i \<Longrightarrow> i \<le> 256 ^ k div 2 - 1 \<Longrightarrow>
      decode_scalar t (map (\<lambda>j. word_of_int (i div 256 ^ j)) [0..<k] @ rest) f = Inr (VInt i)"
proof -
  have t: "t \<noteq> RFCTYPE_DECF16" "t \<noteq> RFCTYPE_DECF34" "0 < k"
    using assms by (auto simp: INT_FORMATS_def rfctype_defs split: if_splits)
  then have e: "encode_scalar tf t (VInt i) f = pack_int k i" for i
    by (simp add: encode_scalar_def assms)
  show "encode_scalar tf t (VInt i) f =
      (if - (256 ^ k div 2) \<le> i \<and> i \<le> 256 ^ k div 2 - 1
       then Inr (map (\<lambda>j. word_of_int (i div 256 ^ j)) [0..<k]) else Inl StructError)"
    unfolding e pack_int_def le_bytes_int by auto
  have d: "decode_scalar t bs f = map_res VInt (unpack_int k bs)" for bs
    using t by (simp add: decode_scalar_def assms)
  have "unpack_int k bs = unpack_int k (take k bs)" by (simp add: unpack_int_def)
  then show "if k \<le> length bs
      then \<exists>i. - (256 ^ k div 2) \<le> i \<and> i \<le> 256 ^ k div 2 - 1 \<and> decode_scalar t bs f = Inr (VInt i) \<and>
        encode_scalar tf t (VInt i) f = Inr (take k bs)
      else decode_scalar t bs f = Inl StructError"
    using unpack_whole [of "take k bs" k] t(3) by (force simp: d e unpack_int_def)
  show "decode_scalar t (map (\<lambda>j. word_of_int (i div 256 ^ j)) [0..<k] @ rest) f = Inr (VInt i)"
    if "- (256 ^ k div 2) \<le> i" "i \<le> 256 ^ k div 2 - 1"
  proof -
    have "pack_int k i = Inr (map (\<lambda>j. word_of_int (i div 256 ^ j)) [0..<k])"
      unfolding pack_int_def le_bytes_int using that by simp
    from unpack_pack_int [OF this t(3)] show ?thesis by (simp add: d unpack_int_def)
  qed
qed

lemma byte_decoded:
  "decode_scalar RFCTYPE_INT1 (b # bs) f = Inr (VInt (int (unat b)))"
  by (simp add: decode_scalar_def INT_FORMATS_def rfctype_defs)

lemma byte_scalar:
  "encode_scalar tf RFCTYPE_INT1 (VInt i) f = (if 0 \<le> i \<and> i \<le> 255 then Inr [word_of_int i] else Inl ValueError)"
  "if 1 \<le> length bs
   then \<exists>i. 0 \<le> i \<and> i \<le> 255 \<and> decode_scalar RFCTYPE_INT1 bs f = Inr (VInt i) \<and>
     encode_scalar tf RFCTYPE_INT1 (VInt i) f = Inr (take 1 bs)
   else decode_scalar RFCTYPE_INT1 bs f = Inl IndexError"
proof -
  have t: "RFCTYPE_INT1 \<noteq> RFCTYPE_DECF16" "RFCTYPE_INT1 \<noteq> RFCTYPE_DECF34" "INT_FORMATS RFCTYPE_INT1 = None"
      "RFCTYPE_INT1 \<noteq> RFCTYPE_BCD"
    by (simp_all add: INT_FORMATS_def rfctype_defs)
  show e: "encode_scalar tf RFCTYPE_INT1 (VInt i) f = (if 0 \<le> i \<and> i \<le> 255 then Inr [word_of_int i] else Inl ValueError)"
    for i using t by (simp add: encode_scalar_def)
  have d: "decode_scalar RFCTYPE_INT1 bs f =
      (case bs of [] \<Rightarrow> Inl IndexError | b # bs' \<Rightarrow> Inr (VInt (int (unat b))))"
    using t by (simp add: decode_scalar_def)
  show "if 1 \<le> length bs
   then \<exists>i. 0 \<le> i \<and> i \<le> 255 \<and> decode_scalar RFCTYPE_INT1 bs f = Inr (VInt i) \<and>
     encode_scalar tf RFCTYPE_INT1 (VInt i) f = Inr (take 1 bs)
   else decode_scalar RFCTYPE_INT1 bs f = Inl IndexError"
  proof (cases bs)
    case (Cons b bs')
    have "unat b < 256" using unsigned_less [of b] by simp
    then have u: "int (unat b) \<le> 255" by linarith
    have "word_of_int (int (unat b)) = b" by simp
    then have "decode_scalar RFCTYPE_INT1 bs f = Inr (VInt (int (unat b))) \<and>
        encode_scalar tf RFCTYPE_INT1 (VInt (int (unat b))) f = Inr (take 1 bs)"
      using u by (simp add: byte_decoded e Cons del: of_nat_unat)
    then show ?thesis using u by (auto simp: Cons simp del: of_nat_unat)
  next
    case Nil
    with d show ?thesis by simp
  qed
qed

section \<open>Properties\<close>

definition sample_field :: field_desc where
  "sample_field = FieldDesc (lit ''F'') RFCTYPE_INT2 2 0 2 0 0 True None RFC_IMPORT False None None"

definition sample_packed :: field_desc where
  "sample_packed = FieldDesc (lit ''P'') RFCTYPE_BCD 8 0 8 0 2 True None RFC_IMPORT False None None"

definition sample_wide :: "nat \<Rightarrow> field_desc" where
  "sample_wide w = FieldDesc (lit ''W'') RFCTYPE_BCD w 0 w 0 0 True None RFC_IMPORT False None None"

lemma round_half_even_le: "round_half_even c d \<le> c div d + 1"
  by (simp add: round_half_even_def Let_def)

lemma dec_fix_bound: "\<exists>s' c' e'. dec_fix (DFin s c e) = DFin s' c' e' \<and> c' < 10 ^ DEC_PREC"
proof (cases "length (dec_digits c) \<le> DEC_PREC")
  case True
  have "c < 10 ^ length (dec_digits c)" by (rule dec_digits_bound)
  also have "\<dots> \<le> 10 ^ DEC_PREC" using True by (simp add: power_increasing)
  finally show ?thesis using True by simp
next
  case False
  define k where "k = length (dec_digits c) - DEC_PREC"
  have "c < 10 ^ length (dec_digits c)" by (rule dec_digits_bound)
  also have "(10 :: nat) ^ length (dec_digits c) = 10 ^ DEC_PREC * 10 ^ k"
    using False by (simp add: k_def power_add [symmetric])
  finally have "c div 10 ^ k < 10 ^ DEC_PREC" by (simp add: div_less_iff_less_mult)
  then have "round_half_even c (10 ^ k) \<le> 10 ^ DEC_PREC"
    using round_half_even_le [of c "10 ^ k"] by simp
  then show ?thesis
    using False by (auto simp: k_def Let_def DEC_PREC_def)
qed

text \<open>C39. Integers are written exactly or refused, and every pattern of bytes is an integer.  Each integer
  type has its width and range on the wire: INT1 (10) one unsigned byte; INT2 (9), TMINUTE (39)
  and CDAY (40) two signed bytes; INT (8), DTDAY, DTWEEK, DTMONTH and TSECOND (35 to 38) four; INT8,
  UTCLONG, UTCSECOND and UTCMINUTE (31 to 34) eight.  An integer in range is written in exactly that many bytes, byte
  \<open>j\<close> being digit \<open>j\<close> to the base 256 of its two's complement, and is read back whatever follows; one out of range
  raises (\<^verbatim>\<open>struct.error\<close>, \<^verbatim>\<open>ValueError\<close> for INT1): nothing wraps.  Conversely the first
  bytes of any input of the width or more are an integer in range which is written as those bytes,
  and a shorter input raises.\<close>

theorem integers_exact_or_refused:
  assumes "(t, k, lo, hi) \<in> set
    [(10, 1, 0, 255), (9, 2, - 32768, 32767), (8, 4, - 2147483648, 2147483647),
     (31, 8, - 9223372036854775808, 9223372036854775807), (32, 8, - 9223372036854775808, 9223372036854775807),
     (33, 8, - 9223372036854775808, 9223372036854775807), (34, 8, - 9223372036854775808, 9223372036854775807),
     (35, 4, - 2147483648, 2147483647), (36, 4, - 2147483648, 2147483647),
     (37, 4, - 2147483648, 2147483647), (38, 4, - 2147483648, 2147483647),
     (39, 2, - 32768, 32767), (40, 2, - 32768, 32767)]"
  shows "encode_scalar tf t (VInt i) f =
      (if lo \<le> i \<and> i \<le> hi then Inr (map (\<lambda>j. word_of_int (i div 256 ^ j)) [0..<k])
       else Inl (if t = 10 then ValueError else StructError)) \<and>
    (lo \<le> i \<and> i \<le> hi \<longrightarrow>
      decode_scalar t (map (\<lambda>j. word_of_int (i div 256 ^ j)) [0..<k] @ rest) f = Inr (VInt i)) \<and>
    (if k \<le> length bs
      then \<exists>i. lo \<le> i \<and> i \<le> hi \<and> decode_scalar t bs f = Inr (VInt i) \<and>
        encode_scalar tf t (VInt i) f = Inr (take k bs)
      else decode_scalar t bs f = Inl (if t = 10 then IndexError else StructError))"
proof (cases "t = 10")
  case True
  then have t: "t = RFCTYPE_INT1" "k = 1" "lo = 0" "hi = 255" using assms by (simp_all add: RFCTYPE_INT1_def)
  then show ?thesis
    using byte_scalar(1) [of tf i f] byte_scalar(2) [of bs f tf] True
    by (auto simp: byte_decoded uint_word_of_int)
next
  case False
  then have t: "INT_FORMATS t = Some k" "lo = - (256 ^ k div 2)" "hi = 256 ^ k div 2 - 1"
    using assms by (auto simp: INT_FORMATS_def rfctype_defs)
  have e: "(if t = 10 then ValueError else StructError) = StructError"
    "(if t = 10 then IndexError else StructError) = StructError" using False by simp_all
  show ?thesis unfolding t(2,3) e
    by (intro conjI impI signed_scalar [OF t(1)]; elim conjE; assumption)
qed

theorem integers_exact_or_refused_witness:
  "encode_scalar (\<lambda>v. Inl TypeError) 9 (VInt (- 2)) sample_field = Inr [0xFE, 0xFF] \<and>
    encode_scalar (\<lambda>v. Inl TypeError) 9 (VInt 32768) sample_field = Inl StructError \<and>
    encode_scalar (\<lambda>v. Inl TypeError) 10 (VInt 256) sample_field = Inl ValueError"
  using integers_exact_or_refused [of 9 2 "- 32768" 32767 "\<lambda>v. Inl TypeError" "- 2" sample_field]
    integers_exact_or_refused [of 9 2 "- 32768" 32767 "\<lambda>v. Inl TypeError" 32768 sample_field]
    integers_exact_or_refused [of 10 1 0 255 "\<lambda>v. Inl TypeError" 256 sample_field]
  by (simp add: upt_conv_Cons)

text \<open>Packed decimals come back while they have at most 28 digits.  A value at the field's scale
  whose coefficient fits the field and the default decimal precision is written in the width of
  the field and read back with its sign, digits and exponent.\<close>

lemma packed_decimal_roundtrip:
  assumes "0 < snd (field_span f)" and "c < 10 ^ (snd (field_span f) * 2 - 1)" and "c < 10 ^ DEC_PREC"
  shows "\<exists>bs. encode_bcd (VDec (DFin s c (- decimals f))) f = Inr bs \<and>
    length bs = snd (field_span f) \<and> decode_bcd bs f = Inr (DFin s c (- decimals f))"
  by (rule bcd_roundtrip [OF assms])

text \<open>No packed decimal is read with more than 28 digits.  Whatever the bytes, a decoded value
  is a finite number whose coefficient is below ten to the default decimal precision.  A field of
  15 bytes or more holds 29 or more digits, so its larger values are rounded when they are read.\<close>

theorem packed_decimal_precision:
  assumes "decode_bcd data f = Inr d"
  shows "\<exists>s c e. d = DFin s c e \<and> c < 10 ^ DEC_PREC"
proof -
  obtain s c e where "d = dec_fix (DFin s c e)"
    using assms by (auto simp: decode_bcd_def Let_def simp del: dec_fix.simps split: if_splits)
  then show ?thesis using dec_fix_bound by metis
qed

end
