(* ===== verification/Invoke_Request.thy ===== *)
theory Invoke_Request
  imports Tlv_Stream Codec "HOL-Library.List_Lexorder"
begin

text \<open>
  The request side of \<^verbatim>\<open>src/saprfclib/invoke.py\<close>: the TLV bodies of a function call and of the
  transactional calls, with their parameter routing, table ids and validations.

  A \<^verbatim>\<open>dict\<close> of parameters is an association list without repeated keys.  A request is the
  concatenation of records, each of which may fail; the first failure in source order is the
  exception of the builder.
\<close>

section \<open>Tags\<close>

definition TAG_CALL_START :: nat where "TAG_CALL_START = 0x0502"
definition TAG_RFC_VERSION :: nat where "TAG_RFC_VERSION = 0x000B"
definition TAG_FUNC_NAME :: nat where "TAG_FUNC_NAME = 0x0102"
definition TAG_PARAM_SECTION :: nat where "TAG_PARAM_SECTION = 0x0512"
definition TAG_EXPORT_DECL :: nat where "TAG_EXPORT_DECL = 0x0205"
definition TAG_PARAM_NAME :: nat where "TAG_PARAM_NAME = 0x0201"
definition TAG_PARAM_VALUE :: nat where "TAG_PARAM_VALUE = 0x0203"
definition TAG_TERMINATOR :: nat where "TAG_TERMINATOR = 0xFFFF"
definition TAG_TABLE_NAME :: nat where "TAG_TABLE_NAME = 0x0301"
definition TAG_TABLE_INFO :: nat where "TAG_TABLE_INFO = 0x0302"
definition TAG_TABLE_CONTENT :: nat where "TAG_TABLE_CONTENT = 0x0303"
definition TAG_DM_TABLE_ID :: nat where "TAG_DM_TABLE_ID = 0x0330"

lemmas request_tag_defs =
  TAG_CALL_START_def TAG_RFC_VERSION_def TAG_FUNC_NAME_def TAG_PARAM_SECTION_def
  TAG_EXPORT_DECL_def TAG_PARAM_NAME_def TAG_PARAM_VALUE_def TAG_TERMINATOR_def
  TAG_TABLE_NAME_def TAG_TABLE_INFO_def TAG_TABLE_CONTENT_def TAG_DM_TABLE_ID_def

definition RFC_VERSION :: bytes where "RFC_VERSION = blit ''754''"

definition utf16 :: "pystr \<Rightarrow> bytes res" where
  "utf16 s = opt_res UnicodeError (utf16le_encode s)"

text \<open>A record of text, and the concatenation of records.\<close>

definition text_record :: "nat \<Rightarrow> pystr \<Rightarrow> bytes res" where
  "text_record tag s = bind_res (utf16 s) (tlv_record tag)"

definition join_records :: "bytes res list \<Rightarrow> bytes res" where
  "join_records parts = map_res concat (seq_res parts)"

definition version_bytes :: "bytes \<Rightarrow> bytes res" where
  "version_bytes v = bind_res (opt_res UnicodeError (ascii_decode v)) utf16"

section \<open>Parameters\<close>

type_synonym params = "(pystr \<times> pyval) list"

definition params_upper :: "(nat \<Rightarrow> pystr) \<Rightarrow> params \<Rightarrow> params" where
  "params_upper uc ps = fold (\<lambda>(k, v) m. AList.update (py_upper uc k) v m) ps []"

definition known_names :: "(nat \<Rightarrow> pystr) \<Rightarrow> func_desc \<Rightarrow> pystr list" where
  "known_names uc desc = map (py_upper uc \<circ> fd_name) (parameters desc)"

definition unknown_parameters :: "(nat \<Rightarrow> pystr) \<Rightarrow> func_desc \<Rightarrow> params \<Rightarrow> pystr list" where
  "unknown_parameters uc desc ps =
     sort (filter (\<lambda>n. py_upper uc n \<notin> set (known_names uc desc)) (map fst ps))"

definition drop_unknown_parameters :: "(nat \<Rightarrow> pystr) \<Rightarrow> func_desc \<Rightarrow> params \<Rightarrow> params" where
  "drop_unknown_parameters uc desc ps =
     filter (\<lambda>(n, v). py_upper uc n \<in> set (known_names uc desc)) ps"

text \<open>The tables sent with rows are numbered from 1 in parameter order.\<close>

definition sends_rows :: "(nat \<Rightarrow> pystr) \<Rightarrow> params \<Rightarrow> field_desc \<Rightarrow> bool" where
  "sends_rows uc upper f \<longleftrightarrow>
     direction f \<noteq> RFC_EXPORT \<and> rfctype f = RFCTYPE_TABLE \<and>
     (case map_of upper (py_upper uc (fd_name f)) of None \<Rightarrow> False | Some v \<Rightarrow> py_truth v)"

definition dm_table_ids :: "(nat \<Rightarrow> pystr) \<Rightarrow> func_desc \<Rightarrow> params \<Rightarrow> (nat \<times> pystr) list" where
  "dm_table_ids uc desc ps =
     enumerate 1 (map fd_name (filter (sends_rows uc (params_upper uc ps)) (parameters desc)))"

section \<open>The call request\<close>

definition pack_u32 :: "nat \<Rightarrow> bytes res" where
  "pack_u32 n = (if n < 2 ^ 32 then Inr (be_bytes 4 n) else Inl StructError)"

definition export_decls :: "func_desc \<Rightarrow> bytes res list" where
  "export_decls desc =
     map (\<lambda>f. text_record TAG_EXPORT_DECL (fd_name f))
       (filter (\<lambda>f. direction f \<in> {RFC_EXPORT, RFC_CHANGING, RFC_TABLES}) (parameters desc))"

definition row_records :: "bytes \<Rightarrow> nat \<Rightarrow> nat \<Rightarrow> bytes res list" where
  "row_records all_rows w count =
     map (\<lambda>i. tlv_record TAG_TABLE_CONTENT (py_slice (i * w) ((i + 1) * w) all_rows)) [0..<count]"

definition table_param ::
    "(pyval \<Rightarrow> 64 word res) \<Rightarrow> (pystr \<Rightarrow> nat option) \<Rightarrow> field_desc \<Rightarrow> pyval \<Rightarrow> bytes res" where
  "table_param tf dm_ids f v =
     (if \<not> py_truth v then Inr []
      else bind_res (require_type_desc f) (\<lambda>td.
        bind_res (encode tf RFCTYPE_TABLE v f) (\<lambda>all_rows.
        bind_res (py_iter v) (\<lambda>rows.
          let w = row_size td (unicode_mode f); count = length rows in
          join_records
            ([text_record TAG_TABLE_NAME (fd_name f),
              bind_res (opt_res KeyError (dm_ids (fd_name f)))
                (\<lambda>dm. bind_res (pack_u32 dm) (tlv_record TAG_DM_TABLE_ID)),
              bind_res (pack_u32 w) (\<lambda>s. bind_res (pack_u32 count)
                (\<lambda>c. tlv_record TAG_TABLE_INFO (s @ c)))]
             @ row_records all_rows w count)))))"

definition scalar_param :: "(pyval \<Rightarrow> 64 word res) \<Rightarrow> field_desc \<Rightarrow> pyval \<Rightarrow> bytes res" where
  "scalar_param tf f v =
     bind_res (encode tf (rfctype f) v f) (\<lambda>encoded.
       join_records [text_record TAG_PARAM_NAME (fd_name f), tlv_record TAG_PARAM_VALUE encoded])"

definition field_param ::
    "(nat \<Rightarrow> pystr) \<Rightarrow> (pyval \<Rightarrow> 64 word res) \<Rightarrow> params \<Rightarrow> (pystr \<Rightarrow> nat option) \<Rightarrow> field_desc \<Rightarrow> bytes res"
where
  "field_param uc tf upper dm_ids f =
     (if direction f = RFC_EXPORT then Inr []
      else case map_of upper (py_upper uc (fd_name f)) of
        None \<Rightarrow> Inr []
      | Some v \<Rightarrow>
          if rfctype f = RFCTYPE_TABLE then table_param tf dm_ids f v else scalar_param tf f v)"

text \<open>\<^verbatim>\<open>{name: dm for dm, name in ...}\<close>: the last id of a name wins.\<close>

definition dm_of_name :: "(nat \<times> pystr) list \<Rightarrow> pystr \<Rightarrow> nat option" where
  "dm_of_name ids = map_of (rev (map (\<lambda>(d, n). (n, d)) ids))"

definition build_invoke_request ::
    "(nat \<Rightarrow> pystr) \<Rightarrow> (pyval \<Rightarrow> 64 word res) \<Rightarrow> pystr \<Rightarrow> func_desc \<Rightarrow> params \<Rightarrow> bytes \<Rightarrow> bytes res"
where
  "build_invoke_request uc tf func_name desc ps version =
     join_records
       ([bind_res (version_bytes version) (\<lambda>vb. join_records
          [tlv_record TAG_CALL_START [], tlv_record TAG_RFC_VERSION vb,
           text_record TAG_FUNC_NAME func_name, tlv_record TAG_PARAM_SECTION []])]
        @ export_decls desc
        @ [if unknown_parameters uc desc ps \<noteq> [] then Inl ValueError else Inr []]
        @ map (field_param uc tf (params_upper uc ps) (dm_of_name (dm_table_ids uc desc ps)))
            (parameters desc)
        @ [tlv_record TAG_TERMINATOR []])"

section \<open>Transactional and background calls\<close>

definition TID_LN :: nat where "TID_LN = 24"
definition MAX_QUEUE_NAME :: nat where "MAX_QUEUE_NAME = 256"
definition UNITID_LN :: nat where "UNITID_LN = 32"

definition TID_ALPHABET :: pystr where
  "TID_ALPHABET = lit ''ABCDEFGHIJKLMNOPQRSTUVWXYZ0123456789/_=@-''"

definition UNITID_CHARSET :: pystr where
  "UNITID_CHARSET = lit ''0123456789ABCDEF''"

definition check :: "bool \<Rightarrow> unit res" where
  "check b = (if b then Inr () else Inl ValueError)"

definition validate_tid :: "pystr \<Rightarrow> unit res" where
  "validate_tid tid = check (length tid = TID_LN \<and> set tid \<subseteq> set TID_ALPHABET)"

definition validate_queue_name :: "pystr \<Rightarrow> unit res" where
  "validate_queue_name q = check (q \<noteq> [] \<and> length q \<le> MAX_QUEUE_NAME)"

definition validate_unit_id :: "pystr \<Rightarrow> unit res" where
  "validate_unit_id uid = check (length uid = UNITID_LN \<and> set uid \<subseteq> set UNITID_CHARSET)"

definition validate_unit_type :: "pystr \<Rightarrow> unit res" where
  "validate_unit_type ty = check (ty = lit ''T'' \<or> ty = lit ''Q'')"

text \<open>The frame all transactional requests share: a function name and text parameters.\<close>

definition named_param :: "pystr \<Rightarrow> pystr \<Rightarrow> bytes res list" where
  "named_param name v = [text_record TAG_PARAM_NAME name, text_record TAG_PARAM_VALUE v]"

definition system_request :: "pystr \<Rightarrow> bytes res list \<Rightarrow> bytes \<Rightarrow> bytes res" where
  "system_request fm parts version =
     bind_res (version_bytes version) (\<lambda>vb. join_records
       ([tlv_record TAG_CALL_START [], tlv_record TAG_RFC_VERSION vb,
         text_record TAG_FUNC_NAME fm, tlv_record TAG_PARAM_SECTION []]
        @ parts @ [tlv_record TAG_TERMINATOR []]))"

definition build_trfc_request :: "pystr \<Rightarrow> pystr \<Rightarrow> pystr option \<Rightarrow> bytes \<Rightarrow> bytes res" where
  "build_trfc_request tid func_name queue version =
     bind_res (validate_tid tid) (\<lambda>_.
     bind_res (case queue of None \<Rightarrow> Inr () | Some q \<Rightarrow> validate_queue_name q) (\<lambda>_.
       system_request (lit ''ARFC_DEST_SHIP'')
         (named_param (lit ''ARFCTID'') tid @ named_param (lit ''ARFCFNAM'') func_name
          @ (case queue of None \<Rightarrow> [] | Some q \<Rightarrow> named_param (lit ''ARFCQUEUE'') q))
         version))"

definition build_trfc_confirm_request :: "pystr \<Rightarrow> bytes \<Rightarrow> bytes res" where
  "build_trfc_confirm_request tid version =
     bind_res (validate_tid tid) (\<lambda>_.
       system_request (lit ''ARFC_DEST_CONFIRM'') (named_param (lit ''ARFCTID'') tid) version)"

definition unit_params :: "pystr \<Rightarrow> pystr \<Rightarrow> bytes res list" where
  "unit_params unit_id unit_type =
     named_param (lit ''BGRFC_UNIT_ID'') unit_id @ named_param (lit ''BGRFC_UNIT_TYPE'') unit_type"

definition queue_params :: "pystr list \<Rightarrow> bytes res list" where
  "queue_params qs =
     concat (map (\<lambda>(i, q). if q = [] then []
       else named_param (lit ''BGRFC_QUEUE_'' @ dec_digits i) q) (enumerate 0 qs))"

definition call_params :: "bytes list \<Rightarrow> bytes res list" where
  "call_params calls =
     (if calls = [] then []
      else named_param (lit ''BGRFC_CALL_COUNT'') (dec_digits (length calls))
        @ concat (map (\<lambda>(i, c).
            [text_record TAG_PARAM_NAME (lit ''BGRFC_CALL_'' @ dec_digits i),
             tlv_record TAG_PARAM_VALUE c]) (enumerate 0 calls)))"

definition build_bgrfc_request ::
    "pystr \<Rightarrow> pystr \<Rightarrow> pystr list \<Rightarrow> bytes list \<Rightarrow> bytes \<Rightarrow> bytes res" where
  "build_bgrfc_request unit_id unit_type queue_names calls version =
     bind_res (validate_unit_id unit_id) (\<lambda>_. bind_res (validate_unit_type unit_type) (\<lambda>_.
       system_request (lit ''BGRFC_DEST_SHIP'')
         (unit_params unit_id unit_type @ queue_params queue_names @ call_params calls) version))"

definition build_bgrfc_confirm_request :: "pystr \<Rightarrow> pystr \<Rightarrow> bytes \<Rightarrow> bytes res" where
  "build_bgrfc_confirm_request unit_id unit_type version =
     bind_res (validate_unit_id unit_id) (\<lambda>_. bind_res (validate_unit_type unit_type) (\<lambda>_.
       system_request (lit ''BGRFC_DEST_CONFIRM'') (unit_params unit_id unit_type) version))"

definition build_bgrfc_state_request :: "pystr \<Rightarrow> pystr \<Rightarrow> bytes \<Rightarrow> bytes res" where
  "build_bgrfc_state_request unit_id unit_type version =
     bind_res (validate_unit_id unit_id) (\<lambda>_. bind_res (validate_unit_type unit_type) (\<lambda>_.
       system_request (lit ''BGRFC_CHECK_UNIT_STATE_SERVER'') (unit_params unit_id unit_type)
         version))"

definition bgrfc_unit_kind :: "pystr \<Rightarrow> nat res" where
  "bgrfc_unit_kind ty =
     opt_res ValueError (map_of [(lit ''T'', 1409196105), (lit ''Q'', 1409196101)] ty)"

definition hex_value :: "nat \<Rightarrow> nat" where
  "hex_value c = (if c < 58 then c - 48 else c - 55)"

fun hex_pairs :: "pystr \<Rightarrow> bytes" where
  "hex_pairs (a # b # r) = word_of_nat (16 * hex_value a + hex_value b) # hex_pairs r"
| "hex_pairs _ = []"

definition bgrfc_unit_id_bytes :: "pystr \<Rightarrow> bytes res" where
  "bgrfc_unit_id_bytes uid = map_res (\<lambda>_. hex_pairs uid) (validate_unit_id uid)"

definition wire_states :: "(int \<times> pystr) list" where
  "wire_states =
     [(22206, lit ''NOT_FOUND''), (22201, lit ''IN_PROCESS''), (22202, lit ''COMMITTED''),
      (22203, lit ''CONFIRMED''), (22209, lit ''ROLLED_BACK'')]"

definition int_str :: "int \<Rightarrow> pystr" where
  "int_str i = (if i < 0 then [45] else []) @ dec_digits (nat \<bar>i\<bar>)"

definition unit_state_from_wire :: "int \<Rightarrow> pystr \<times> bool" where
  "unit_state_from_wire v =
     (case map_of wire_states v of Some n \<Rightarrow> (n, True) | None \<Rightarrow> (int_str v, False))"

end
