(* ===== verification/Invoke_Response.thy ===== *)
theory Invoke_Response
  imports Invoke_Request Rfc_Errors
begin

text \<open>
  The response side of \<^verbatim>\<open>src/saprfclib/invoke.py\<close>: the walk that collects the named values of a
  record stream (\<^verbatim>\<open>_extract_name_value_pairs\<close>), the reassembly of compressed table streams, the
  typed result (\<^verbatim>\<open>parse_invoke_response\<close>) and the timing record.

  The local variables of the walk are one record; each TLV record is one transition of it.
  \<open>sapdec\<close> stands for \<^verbatim>\<open>compress.sapcompress_decompress\<close> and \<open>bx\<close> for
  \<^verbatim>\<open>decode_basxml_table\<close>; \<open>u8\<close> is the lenient UTF-8 decoder.
\<close>

section \<open>Tags\<close>

definition TAG_TABLE_CONTENT_ALT :: nat where "TAG_TABLE_CONTENT_ALT = 0x0304"
definition TAG_TABLE_CONTENT_LZ :: nat where "TAG_TABLE_CONTENT_LZ = 0x0305"
definition TAG_TABLE_END :: nat where "TAG_TABLE_END = 0x0306"
definition TAG_TABLE_DELTA :: nat where "TAG_TABLE_DELTA = 0x0335"
definition TAG_TABLE_DELTA_END :: nat where "TAG_TABLE_DELTA_END = 0x0336"
definition TAG_BASXML_MARKER :: nat where "TAG_BASXML_MARKER = 0x3C02"
definition TAG_BASXML_DATA :: nat where "TAG_BASXML_DATA = 0x3C05"
definition TAG_RESPONSE_START :: nat where "TAG_RESPONSE_START = 0x0500"
definition TAG_SERVER_DURATION :: nat where "TAG_SERVER_DURATION = 0x0667"

lemmas response_tag_defs =
  TAG_TABLE_CONTENT_ALT_def TAG_TABLE_CONTENT_LZ_def TAG_TABLE_END_def TAG_TABLE_DELTA_def
  TAG_TABLE_DELTA_END_def TAG_BASXML_MARKER_def TAG_BASXML_DATA_def TAG_RESPONSE_START_def
  TAG_SERVER_DURATION_def

section \<open>Compressed table streams\<close>

definition SAPCOMPRESS_MAGIC :: bytes where "SAPCOMPRESS_MAGIC = [0x1F, 0x9D]"
definition SAPCOMPRESS_HDR :: nat where "SAPCOMPRESS_HDR = 8"
definition LZ_WRAPPER :: nat where "LZ_WRAPPER = 8"

type_synonym sap_decompressor = "bytes \<Rightarrow> nat \<Rightarrow> bytes res"

definition as_value_error :: "'a res \<Rightarrow> 'a res" where
  "as_value_error r = (case r of Inl DecompressError \<Rightarrow> Inl ValueError | _ \<Rightarrow> r)"

definition decompress_table_stream :: "sap_decompressor \<Rightarrow> bytes list \<Rightarrow> bytes res" where
  "decompress_table_stream sapdec chunks =
     (let blob = concat chunks in
      if length blob < SAPCOMPRESS_HDR then Inl ValueError
      else
        bind_res
          (if py_slice (LZ_WRAPPER + 5) (LZ_WRAPPER + 7) blob = SAPCOMPRESS_MAGIC
           then Inr (drop LZ_WRAPPER blob)
           else if py_slice 5 7 blob = SAPCOMPRESS_MAGIC then Inr blob
           else Inl ValueError)
          (\<lambda>stream. as_value_error (sapdec stream (le_val (take 4 stream)))))"

section \<open>Collecting the named values\<close>

datatype bx_state = Outside | Pending | Inside pystr

record extract_state =
  x_pairs :: "(pystr \<times> bytes) list"
  x_name :: "pystr option"
  x_in_table :: bool
  x_rows :: bytes
  x_lz :: "bytes list"
  x_chunks :: "(pystr \<times> bytes list) list"
  x_current :: bx_state
  x_counts :: "(pystr \<times> nat) list"

definition extract_start :: extract_state where
  "extract_start = \<lparr>x_pairs = [], x_name = None, x_in_table = False, x_rows = [], x_lz = [],
     x_chunks = [], x_current = Outside, x_counts = []\<rparr>"

definition table_payload :: "sap_decompressor \<Rightarrow> extract_state \<Rightarrow> bytes res" where
  "table_payload sapdec st =
     (if x_lz st \<noteq> [] then decompress_table_stream sapdec (x_lz st) else Inr (x_rows st))"

text \<open>Report the table in progress, if one with a name is open.\<close>

definition flush_table :: "sap_decompressor \<Rightarrow> extract_state \<Rightarrow> extract_state res" where
  "flush_table sapdec st =
     (case x_name st of
        Some n \<Rightarrow>
          if x_in_table st
          then map_res (\<lambda>p. st\<lparr>x_pairs := x_pairs st @ [(n, p)]\<rparr>) (table_payload sapdec st)
          else Inr st
      | None \<Rightarrow> Inr st)"

definition no_table :: "extract_state \<Rightarrow> extract_state" where
  "no_table st = st\<lparr>x_in_table := False, x_rows := [], x_lz := []\<rparr>"

definition basxml_open_tag :: "bytes \<Rightarrow> pystr option" where
  "basxml_open_tag chunk =
     (if \<not> starts_with (blit ''<'') chunk then None
      else let text = ascii_replace chunk in
        case find_sub (lit ''>'') text of
          None \<Rightarrow> None
        | Some close \<Rightarrow>
            let n = py_slice 1 close text in
            if starts_with (lit ''/'') n \<or> n = [] then None else Some n)"

definition add_chunk :: "pystr \<Rightarrow> bytes \<Rightarrow> (pystr \<times> bytes list) list \<Rightarrow> (pystr \<times> bytes list) list" where
  "add_chunk n v chunks =
     AList.update n ((case map_of chunks n of None \<Rightarrow> [] | Some vs \<Rightarrow> vs) @ [v]) chunks"

definition basxml_data :: "bytes \<Rightarrow> extract_state \<Rightarrow> extract_state" where
  "basxml_data v st =
     (case x_current st of
        Outside \<Rightarrow> st
      | Inside n \<Rightarrow> st\<lparr>x_chunks := add_chunk n v (x_chunks st)\<rparr>
      | Pending \<Rightarrow>
          (case basxml_open_tag v of None \<Rightarrow> st
           | Some n \<Rightarrow> st\<lparr>x_current := Inside n, x_chunks := add_chunk n v (x_chunks st)\<rparr>))"

definition delta_table :: "(nat \<Rightarrow> pystr option) \<Rightarrow> bytes \<Rightarrow> extract_state \<Rightarrow> extract_state" where
  "delta_table dm_names v st =
     (let st = (no_table st)\<lparr>x_name := None\<rparr> in
      if length v \<ge> 12 then
        (case dm_names (be_val (py_slice 4 8 v)) of None \<Rightarrow> st
         | Some n \<Rightarrow> st\<lparr>x_name := Some n, x_in_table := True\<rparr>)
      else st)"

definition table_info :: "bytes \<Rightarrow> extract_state \<Rightarrow> extract_state" where
  "table_info v st =
     (case x_name st of None \<Rightarrow> st
      | Some n \<Rightarrow>
          if length v \<ge> 8 \<and> be_val (py_slice 4 8 v) > 0
          then st\<lparr>x_counts := AList.update n (be_val (py_slice 4 8 v)) (x_counts st)\<rparr> else st)"

definition extract_record ::
    "sap_decompressor \<Rightarrow> (nat \<Rightarrow> pystr option) \<Rightarrow> nat \<Rightarrow> bytes \<Rightarrow> extract_state \<Rightarrow> extract_state res"
where
  "extract_record sapdec dm_names tag v st =
     (if tag = TAG_PARAM_NAME then
        map_res (\<lambda>st'. (if x_in_table st \<and> x_name st \<noteq> None then no_table st' else st')
                   \<lparr>x_lz := [], x_name := Some (decode_utf16le (Some v))\<rparr>) (flush_table sapdec st)
      else if tag = TAG_PARAM_VALUE \<and> x_name st \<noteq> None \<and> \<not> x_in_table st then
        Inr (st\<lparr>x_pairs := x_pairs st @ [(the (x_name st), v)], x_name := None\<rparr>)
      else if tag = TAG_TABLE_NAME then
        map_res (\<lambda>st'. st'\<lparr>x_name := (if v \<noteq> [] then Some (decode_utf16le (Some v)) else x_name st'),
                           x_in_table := True, x_rows := [], x_lz := []\<rparr>) (flush_table sapdec st)
      else if tag = TAG_BASXML_MARKER then
        Inr (st\<lparr>x_current := (if x_current st = Outside then Pending else Outside)\<rparr>)
      else if tag = TAG_BASXML_DATA \<and> x_current st \<noteq> Outside then Inr (basxml_data v st)
      else if tag = TAG_TABLE_INFO \<and> x_in_table st then Inr (table_info v st)
      else if (tag = TAG_TABLE_CONTENT \<or> tag = TAG_TABLE_CONTENT_ALT) \<and> x_in_table st then
        Inr (st\<lparr>x_rows := x_rows st @ v\<rparr>)
      else if tag = TAG_TABLE_CONTENT_LZ \<and> x_in_table st then
        Inr (st\<lparr>x_lz := x_lz st @ [v]\<rparr>)
      else if tag = TAG_TABLE_DELTA then
        map_res (delta_table dm_names v) (flush_table sapdec st)
      else if (tag = TAG_TABLE_END \<or> tag = TAG_TABLE_DELTA_END) \<and> x_in_table st \<and> x_name st \<noteq> None
      then map_res (\<lambda>st'. (no_table st')\<lparr>x_name := None\<rparr>) (flush_table sapdec st)
      else Inr st)"

function extract_from ::
    "sap_decompressor \<Rightarrow> (nat \<Rightarrow> pystr option) \<Rightarrow> extract_state \<Rightarrow> bytes \<Rightarrow> extract_state res"
where
  "extract_from sapdec dm_names st d =
     (case tlv_step d of
        T_End \<Rightarrow> Inr st
      | T_Terminator \<Rightarrow> Inr st
      | T_Short t \<Rightarrow> Inl ValueError
      | T_Overrun t \<Rightarrow> Inl ValueError
      | T_Record t h v rest \<Rightarrow>
          bind_res (extract_record sapdec dm_names t v st)
            (\<lambda>st'. extract_from sapdec dm_names st' rest))"
  by pat_completeness auto
termination
  by (relation "measure (\<lambda>(sd, dm, st, d). length d)") (auto dest: tlv_step_decreases)

declare extract_from.simps [simp del]

record extracted =
  pairs :: "(pystr \<times> bytes) list"
  basxml :: "(pystr \<times> bytes) list"
  row_counts :: "(pystr \<times> nat) list"

definition extract_name_value_pairs ::
    "sap_decompressor \<Rightarrow> (nat \<Rightarrow> pystr option) \<Rightarrow> bytes \<Rightarrow> extracted res" where
  "extract_name_value_pairs sapdec dm_names d =
     bind_res (extract_from sapdec dm_names extract_start d) (\<lambda>st.
       map_res (\<lambda>st'. \<lparr>pairs = x_pairs st',
           basxml = map (\<lambda>(n, vs). (n, concat vs)) (x_chunks st'), row_counts = x_counts st'\<rparr>)
         (flush_table sapdec st))"

section \<open>The typed result\<close>

definition param_map :: "(nat \<Rightarrow> pystr) \<Rightarrow> func_desc \<Rightarrow> pystr \<Rightarrow> field_desc option" where
  "param_map uc desc =
     map_of (rev (map (\<lambda>f. (py_upper uc (fd_name f), f))
       (filter (\<lambda>f. direction f \<noteq> RFC_IMPORT) (parameters desc))))"

definition decode_pair ::
    "(nat \<Rightarrow> pystr) \<Rightarrow> func_desc \<Rightarrow> (pystr \<Rightarrow> nat option) \<Rightarrow> pystr \<times> bytes \<Rightarrow> params \<Rightarrow> params res" where
  "decode_pair uc desc counts p acc =
     (case param_map uc desc (py_upper uc (fst p)) of
        None \<Rightarrow> Inr acc
      | Some f \<Rightarrow>
          map_res (\<lambda>v. AList.update (fd_name f) v acc)
            (decode (rfctype f) (snd p) f (counts (fst p))))"

fun decode_pairs ::
    "(nat \<Rightarrow> pystr) \<Rightarrow> func_desc \<Rightarrow> (pystr \<Rightarrow> nat option) \<Rightarrow> (pystr \<times> bytes) list \<Rightarrow> params \<Rightarrow> params res" where
  "decode_pairs uc desc counts [] acc = Inr acc"
| "decode_pairs uc desc counts (p # ps) acc =
     bind_res (decode_pair uc desc counts p acc) (decode_pairs uc desc counts ps)"

definition decode_basxml_pair ::
    "(nat \<Rightarrow> pystr) \<Rightarrow> (bytes \<Rightarrow> pyval res) \<Rightarrow> func_desc \<Rightarrow> pystr \<times> bytes \<Rightarrow> params \<Rightarrow> params res" where
  "decode_basxml_pair uc bx desc p acc =
     (case param_map uc desc (py_upper uc (fst p)) of
        None \<Rightarrow> Inr acc
      | Some f \<Rightarrow> map_res (\<lambda>v. AList.update (fd_name f) v acc) (bx (snd p)))"

fun decode_basxml_pairs ::
    "(nat \<Rightarrow> pystr) \<Rightarrow> (bytes \<Rightarrow> pyval res) \<Rightarrow> func_desc \<Rightarrow> (pystr \<times> bytes) list \<Rightarrow> params \<Rightarrow> params res" where
  "decode_basxml_pairs uc bx desc [] acc = Inr acc"
| "decode_basxml_pairs uc bx desc (p # ps) acc =
     bind_res (decode_basxml_pair uc bx desc p acc) (decode_basxml_pairs uc bx desc ps)"

text \<open>The two diagnostics of a reply without a return code are abbreviated.\<close>

definition no_return_code :: "bytes \<Rightarrow> exn" where
  "no_return_code resp =
     CommunicationError
       (if resp = [] then lit ''the server answered with an empty frame''
        else lit ''malformed RFC response'')"

definition response_values ::
    "(nat \<Rightarrow> pystr) \<Rightarrow> sap_decompressor \<Rightarrow> (bytes \<Rightarrow> pyval res) \<Rightarrow> bytes \<Rightarrow> func_desc
     \<Rightarrow> (nat \<Rightarrow> pystr option) \<Rightarrow> params res" where
  "response_values uc sapdec bx resp desc dm_names =
     bind_res (extract_name_value_pairs sapdec dm_names resp) (\<lambda>x.
     bind_res (decode_pairs uc desc (map_of (row_counts x)) (pairs x) [])
       (decode_basxml_pairs uc bx desc (basxml x)))"

definition parse_invoke_response ::
    "(nat \<Rightarrow> pystr) \<Rightarrow> (bytes \<Rightarrow> pystr) \<Rightarrow> sap_decompressor \<Rightarrow> (bytes \<Rightarrow> pyval res) \<Rightarrow> bytes
     \<Rightarrow> func_desc \<Rightarrow> (nat \<Rightarrow> pystr option) \<Rightarrow> params res" where
  "parse_invoke_response uc u8 sapdec bx resp desc dm_names =
     (case parse_tlv_stream resp of
        Inl e \<Rightarrow> bind_res (raise_for_rfc_error u8 resp None) (\<lambda>_. Inl e)
      | Inr tags \<Rightarrow>
          bind_res (raise_for_rfc_error u8 resp (Some tags)) (\<lambda>_.
            case tags TAG_RETURN_CODE of
              None \<Rightarrow> Inl (no_return_code resp)
            | Some rc \<Rightarrow> response_values uc sapdec bx resp desc dm_names))"

section \<open>The timing record\<close>

text \<open>\<open>micro\<close> is the floating point division by a million.\<close>

function server_duration_from ::
    "(64 word \<Rightarrow> 64 word) \<Rightarrow> 64 word option \<Rightarrow> bytes \<Rightarrow> 64 word option" where
  "server_duration_from micro found d =
     (case tlv_step d of
        T_Record t h v rest \<Rightarrow>
          server_duration_from micro
            (if t = TAG_SERVER_DURATION \<and> length v = 8
             then Some (micro (word_of_nat (le_val v))) else found) rest
      | _ \<Rightarrow> found)"
  by pat_completeness auto
termination
  by (relation "measure (\<lambda>(m, f, d). length d)") (auto dest: tlv_step_decreases)

declare server_duration_from.simps [simp del]

definition extract_server_duration :: "(64 word \<Rightarrow> 64 word) \<Rightarrow> bytes \<Rightarrow> 64 word option" where
  "extract_server_duration micro d = server_duration_from micro None d"

section \<open>Walking a written stream\<close>

text \<open>The transitions of a list of records, in order.\<close>

fun extract_records ::
    "sap_decompressor \<Rightarrow> (nat \<Rightarrow> pystr option) \<Rightarrow> (nat \<times> bytes) list \<Rightarrow> extract_state \<Rightarrow> extract_state res"
where
  "extract_records sd dm [] st = Inr st"
| "extract_records sd dm ((t, v) # rs) st =
     bind_res (extract_record sd dm t v st) (extract_records sd dm rs)"

lemma extract_records_append:
  "extract_records sd dm (rs @ ss) st =
     bind_res (extract_records sd dm rs st) (extract_records sd dm ss)"
proof (induction rs arbitrary: st)
  case (Cons r rs)
  obtain t v where "r = (t, v)" by fastforce
  with Cons show ?case by (cases "extract_record sd dm t v st") auto
qed simp

lemma extract_from_records:
  assumes "\<forall>r \<in> set rs. ok_record r"
  shows "extract_from sd dm st (tlv_records rs @ rest) =
    bind_res (extract_records sd dm rs st) (\<lambda>st'. extract_from sd dm st' rest)"
  using assms
proof (induction rs arbitrary: st)
  case (Cons r rs)
  obtain t v where r: "r = (t, v)" by fastforce
  then have ok: "ok_record (t, v)" using Cons.prems by simp
  have "extract_from sd dm st (tlv_record_body t v @ tlv_records rs @ rest) =
      bind_res (extract_record sd dm t v st) (\<lambda>st'. extract_from sd dm st' (tlv_records rs @ rest))"
    by (subst extract_from.simps) (simp add: tlv_step_record [OF ok])
  then show ?case
    using Cons r by (cases "extract_record sd dm t v st") (auto simp: tlv_records_Cons)
qed simp

lemma extract_from_terminator: "extract_from sd dm st (tlv_end @ x # y # rest) = Inr st"
  by (simp add: extract_from.simps tlv_step_terminator del: append.simps)

lemma extract_written:
  assumes "\<forall>r \<in> set rs. ok_record r"
  shows "extract_from sd dm st (tlv_records rs @ tlv_end @ x # y # rest) = extract_records sd dm rs st"
  using assms
  by (cases "extract_records sd dm rs st")
    (simp_all add: extract_from_records extract_from_terminator del: append.simps)

end
