(* ===== verification/Codec_Layout.thy ===== *)
theory Codec_Layout
  imports Codec
begin

text \<open>
  Structures and tables of any depth come back from their encoding
  (\<^verbatim>\<open>_encode_structure\<close> / \<^verbatim>\<open>_decode_structure\<close>, \<^verbatim>\<open>_encode_table\<close> / \<^verbatim>\<open>_decode_table\<close>).  A
  layout is sound when the spans of its fields follow each other without overlap inside the
  row; a value fits a field when it has the field's shape and each scalar survives its own
  encoding at the width of its span.
\<close>

section \<open>Sound layouts and values that fit them\<close>

fun layout_ok :: "nat \<Rightarrow> field_desc list \<Rightarrow> bool \<Rightarrow> nat \<Rightarrow> bool" where
  "layout_ok pos [] u sz \<longleftrightarrow> pos \<le> sz"
| "layout_ok pos (c # cs) u sz \<longleftrightarrow>
     (case field_span (with_mode u c) of (off, len) \<Rightarrow> pos \<le> off \<and> layout_ok (off + len) cs u sz)"

definition span_len :: "field_desc \<Rightarrow> nat" where
  "span_len f = snd (field_span f)"

text \<open>A float is encoded as it is, so no conversion takes part.\<close>

definition scalar_fits :: "nat \<Rightarrow> field_desc \<Rightarrow> pyval \<Rightarrow> bool" where
  "scalar_fits t f v \<longleftrightarrow>
     t \<notin> set OUT_OF_SCOPE \<and>
     (case encode_scalar (\<lambda>v. Inl TypeError) t v f of Inl e \<Rightarrow> False
      | Inr bs \<Rightarrow> length bs = span_len f \<and> decode_scalar t bs f = Inr v)"

function (sequential)
  fits :: "nat \<Rightarrow> field_desc \<Rightarrow> pyval \<Rightarrow> bool"
and fits_row :: "type_desc \<Rightarrow> bool \<Rightarrow> pyval \<Rightarrow> bool"
and fits_fields :: "field_desc list \<Rightarrow> bool \<Rightarrow> pyval list \<Rightarrow> bool"
and fits_rows :: "type_desc \<Rightarrow> bool \<Rightarrow> pyval list \<Rightarrow> bool"
where
  "fits t f v =
     (if t = RFCTYPE_STRUCTURE then
        (case type_desc f of None \<Rightarrow> False
         | Some td \<Rightarrow> span_len f = row_size td (unicode_mode f) \<and> fits_row td (unicode_mode f) v)
      else if t = RFCTYPE_TABLE then
        (case type_desc f of None \<Rightarrow> False
         | Some td \<Rightarrow>
             (case v of VList rows \<Rightarrow>
                span_len f = length rows * row_size td (unicode_mode f)
                \<and> fits_rows td (unicode_mode f) rows
              | _ \<Rightarrow> False))
      else scalar_fits t f v)"
| "fits_row td u (VDict kvs) \<longleftrightarrow>
     0 < row_size td u \<and> layout_ok 0 (td_fields td) u (row_size td u)
     \<and> map fst kvs = map fd_name (td_fields td) \<and> distinct (map fst kvs)
     \<and> fits_fields (td_fields td) u (map snd kvs)"
| "fits_row td u _ \<longleftrightarrow> False"
| "fits_fields [] u [] \<longleftrightarrow> True"
| "fits_fields (c # cs) u (v # vs) \<longleftrightarrow>
     fits (rfctype c) (with_mode u c) v \<and> fits_fields cs u vs"
| "fits_fields _ u _ \<longleftrightarrow> False"
| "fits_rows td u [] \<longleftrightarrow> True"
| "fits_rows td u (r # rs) \<longleftrightarrow> fits_row td u r \<and> fits_rows td u rs"
  by pat_completeness auto
termination
  by (relation "inv_image (less_than <*lex*> less_than <*lex*> less_than)
    (\<lambda>x. case x of
       Inl (Inl (t, f, v)) \<Rightarrow> (size f, 3, 0)
     | Inl (Inr (td, u, v)) \<Rightarrow> (size td, 1, 0)
     | Inr (Inl (cs, u, vs)) \<Rightarrow> (size_list size cs, 0, length cs)
     | Inr (Inr (td, u, rs)) \<Rightarrow> (size td, 2, length rs))")
   (auto dest: size_type_desc)

declare fits.simps [simp del]

section \<open>The buffer of a structure\<close>

lemma length_put_field: "off + length raw \<le> length buf \<Longrightarrow> length (put_field off raw buf) = length buf"
  by (simp add: put_field_def length_put_slice)

lemma put_field_slice:
  assumes "off + length raw \<le> length buf"
  shows "py_slice off (off + length raw) (put_field off raw buf) = raw"
  using assms by (simp add: put_field_def slice_put_slice_same)

lemma take_put_field: "pos \<le> off \<Longrightarrow> off + length raw \<le> length buf \<Longrightarrow>
    take pos (put_field off raw buf) = take pos buf"
  by (simp add: put_field_def put_slice_def)

lemma slice_of_prefix:
  assumes "take n xs = take n ys" and "b \<le> n"
  shows "py_slice a b xs = py_slice a b ys"
proof -
  have "take b xs = take b ys" using assms by (metis min.absorb1 take_take)
  then have "drop a (take b xs) = drop a (take b ys)" by simp
  then show ?thesis by (simp add: py_slice_def drop_take)
qed

lemma layout_ok_le: "layout_ok pos cs u sz \<Longrightarrow> pos \<le> sz"
proof (induction cs arbitrary: pos)
  case (Cons c cs)
  obtain off n where "field_span (with_mode u c) = (off, n)" by fastforce
  with Cons.prems have "pos \<le> off" "layout_ok (off + n) cs u sz" by auto
  with Cons.IH show ?case by fastforce
qed simp

lemma update_new: "k \<notin> fst ` set al \<Longrightarrow> AList.update k v al = al @ [(k, v)]"
  by (induction al) auto

section \<open>Encoding then decoding\<close>

text \<open>What a value that fits promises, for a field, a row, the fields of a row and the rows of a
  table.\<close>

definition field_back :: "(pyval \<Rightarrow> 64 word res) \<Rightarrow> nat \<Rightarrow> field_desc \<Rightarrow> pyval \<Rightarrow> bool" where
  "field_back tf t f v \<longleftrightarrow>
     (\<exists>bs. encode tf t v f = Inr bs \<and> length bs = span_len f \<and> decode t bs f None = Inr v)"

definition row_back :: "(pyval \<Rightarrow> 64 word res) \<Rightarrow> type_desc \<Rightarrow> bool \<Rightarrow> pyval \<Rightarrow> bool" where
  "row_back tf td u v \<longleftrightarrow> 0 < row_size td u \<and>
     (\<exists>bs. encode_structure tf v td u = Inr bs \<and> length bs = row_size td u
           \<and> decode_structure bs td u = Inr v)"

definition fields_back :: "(pyval \<Rightarrow> 64 word res) \<Rightarrow> field_desc list \<Rightarrow> bool \<Rightarrow> pyval list \<Rightarrow> bool" where
  "fields_back tf cs u vs \<longleftrightarrow> length vs = length cs \<and>
     (\<forall>pos sz buf v. layout_ok pos cs u sz \<longrightarrow> length buf = sz \<longrightarrow>
        (\<forall>i < length cs. py_lookup v (fd_name (cs ! i)) = Inr (Some (vs ! i))) \<longrightarrow>
        (\<exists>r. encode_fields tf v cs u buf = Inr r \<and> length r = sz \<and> take pos r = take pos buf \<and>
             (\<forall>acc. distinct (map fd_name cs) \<longrightarrow> fst ` set acc \<inter> fd_name ` set cs = {} \<longrightarrow>
                decode_fields r cs u acc = Inr (VDict (acc @ zip (map fd_name cs) vs)))))"

definition rows_back :: "(pyval \<Rightarrow> 64 word res) \<Rightarrow> type_desc \<Rightarrow> bool \<Rightarrow> pyval list \<Rightarrow> bool" where
  "rows_back tf td u rows \<longleftrightarrow>
     (\<exists>bs. encode_rows tf rows td u = Inr bs \<and> length bs = length rows * row_size td u \<and>
        (0 < row_size td u \<longrightarrow> decode_rows (row_slices (row_size td u) bs) td u = Inr rows))"

lemma row_slices_append:
  assumes "length b = w" and "0 < w"
  shows "row_slices w (b @ bs) = b # row_slices w bs"
  using assms by (subst row_slices.simps) simp

lemma row_slices_Nil: "0 < w \<Longrightarrow> row_slices w [] = []"
  by (subst row_slices.simps) simp

lemma rows_back_Cons:
  assumes "row_back tf td u r" and "rows_back tf td u rs"
  shows "rows_back tf td u (r # rs)"
  using assms by (auto simp: rows_back_def row_back_def row_slices_append simp del: decode_structure.simps encode_structure.simps)

lemma rows_back_Nil: "rows_back tf td u []"
  by (simp add: rows_back_def row_slices_Nil)

lemma encode_scalar_float_free:
  "encode_scalar (\<lambda>v. Inl TypeError) t v f = Inr bs \<Longrightarrow> encode_scalar tf t v f = Inr bs"
proof (cases "t = RFCTYPE_FLOAT")
  case True
  then have "encode_scalar g t v f =
      map_res (\<lambda>w. le_bytes 8 (unat w)) (case v of VFloat w \<Rightarrow> Inr w | _ \<Rightarrow> g v)" for g
    by (simp add: encode_scalar_def rfctype_defs INT_FORMATS_def)
  moreover assume "encode_scalar (\<lambda>v. Inl TypeError) t v f = Inr bs"
  ultimately show ?thesis by (cases v) simp_all
next
  case False
  then have "encode_scalar g t v f = encode_scalar h t v f" for g h
    by (simp add: encode_scalar_def)
  moreover assume "encode_scalar (\<lambda>v. Inl TypeError) t v f = Inr bs"
  ultimately show ?thesis by metis
qed

lemma fields_back_Cons:
  assumes c: "field_back tf (rfctype c) (with_mode u c) v0" and cs: "fields_back tf cs u vs"
  shows "fields_back tf (c # cs) u (v0 # vs)"
  unfolding fields_back_def
proof (intro conjI allI impI)
  show "length (v0 # vs) = length (c # cs)" using cs by (simp add: fields_back_def)
next
  fix pos sz v and buf :: bytes
  assume lay: "layout_ok pos (c # cs) u sz" and len: "length buf = sz"
    and look: "\<forall>i < length (c # cs). py_lookup v (fd_name ((c # cs) ! i)) = Inr (Some ((v0 # vs) ! i))"
  obtain off n where span: "field_span (with_mode u c) = (off, n)" by fastforce
  with lay have pos: "pos \<le> off" and lay': "layout_ok (off + n) cs u sz" by auto
  from c obtain raw where raw: "encode tf (rfctype c) v0 (with_mode u c) = Inr raw" "length raw = n"
      "decode (rfctype c) raw (with_mode u c) None = Inr v0"
    by (auto simp: field_back_def span_len_def span)
  let ?buf = "put_field off raw buf"
  have fit: "off + length raw \<le> length buf" using layout_ok_le [OF lay'] raw(2) len by simp
  have "\<forall>i < length cs. py_lookup v (fd_name (cs ! i)) = Inr (Some (vs ! i))"
    using look by auto
  moreover have "length ?buf = sz" using length_put_field [OF fit] len by simp
  ultimately obtain r where r: "encode_fields tf v cs u ?buf = Inr r" "length r = sz"
      "take (off + n) r = take (off + n) ?buf"
      "\<And>acc. distinct (map fd_name cs) \<Longrightarrow> fst ` set acc \<inter> fd_name ` set cs = {} \<Longrightarrow>
        decode_fields r cs u acc = Inr (VDict (acc @ zip (map fd_name cs) vs))"
    using cs lay' unfolding fields_back_def by blast
  have enc: "encode_fields tf v (c # cs) u buf = Inr r"
    using look [rule_format, of 0] raw(1) r(1) span by simp
  have sl: "py_slice off (off + n) r = raw"
    using slice_of_prefix [OF r(3)] put_field_slice [OF fit] raw(2) by simp
  have tk: "take pos r = take pos buf"
  proof -
    have "take pos r = take pos ?buf"
      using r(3) pos by (metis min.absorb1 take_take trans_le_add1)
    then show ?thesis using take_put_field [OF pos fit] by simp
  qed
  have "decode_fields r (c # cs) u acc = Inr (VDict (acc @ zip (map fd_name (c # cs)) (v0 # vs)))"
    if "distinct (map fd_name (c # cs))" "fst ` set acc \<inter> fd_name ` set (c # cs) = {}" for acc
  proof -
    have new: "fd_name c \<notin> fst ` set acc" using that(2) by auto
    have bound: "\<not> length r < off + n" using layout_ok_le [OF lay'] r(2) by simp
    show ?thesis
      using that bound r(4) [of "acc @ [(fd_name c, v0)]"]
      by (auto simp: span sl raw(3) update_new [OF new])
  qed
  with enc r(2) tk show "\<exists>r. encode_fields tf v (c # cs) u buf = Inr r \<and> length r = sz \<and>
      take pos r = take pos buf \<and> (\<forall>acc. distinct (map fd_name (c # cs)) \<longrightarrow>
        fst ` set acc \<inter> fd_name ` set (c # cs) = {} \<longrightarrow>
        decode_fields r (c # cs) u acc = Inr (VDict (acc @ zip (map fd_name (c # cs)) (v0 # vs))))"
    by blast
qed

lemma fields_back_Nil: "fields_back tf [] u []"
  by (auto simp: fields_back_def)

lemma field_back_scalar:
  assumes "scalar_fits t f v" and "t \<noteq> RFCTYPE_STRUCTURE" and "t \<noteq> RFCTYPE_TABLE"
  shows "field_back tf t f v"
proof -
  obtain bs where bs: "encode_scalar (\<lambda>v. Inl TypeError) t v f = Inr bs" "length bs = span_len f"
      "decode_scalar t bs f = Inr v" and t: "t \<notin> set OUT_OF_SCOPE"
    using assms(1) unfolding scalar_fits_def by (auto split: sum.splits)
  have "encode tf t v f = Inr bs"
    using t assms(2,3) encode_scalar_float_free [OF bs(1)] by (simp add: encode.simps)
  moreover have "decode t bs f None = Inr v"
    using t assms(2,3) bs(3) by (simp add: decode.simps)
  ultimately show ?thesis using bs(2) unfolding field_back_def by blast
qed

lemma field_back_structure:
  assumes "type_desc f = Some td" and "row_back tf td (unicode_mode f) v"
    and "span_len f = row_size td (unicode_mode f)"
  shows "field_back tf RFCTYPE_STRUCTURE f v"
  using assms
  by (auto simp: field_back_def row_back_def encode.simps decode.simps OUT_OF_SCOPE_def rfctype_defs
      require_type_desc_def simp del: encode_structure.simps decode_structure.simps)

text \<open>A table nested in a structure has no count: its width is the descriptor's.\<close>

lemma field_back_table:
  assumes td: "type_desc f = Some td" and rows: "rows_back tf td (unicode_mode f) rows"
    and len: "span_len f = length rows * row_size td (unicode_mode f)"
    and pos: "rows \<noteq> [] \<longrightarrow> 0 < row_size td (unicode_mode f)"
  shows "field_back tf RFCTYPE_TABLE f (VList rows)"
proof -
  let ?w = "row_size td (unicode_mode f)"
  obtain bs where bs: "encode_rows tf rows td (unicode_mode f) = Inr bs" "length bs = length rows * ?w"
      "0 < ?w \<longrightarrow> decode_rows (row_slices ?w bs) td (unicode_mode f) = Inr rows"
    using rows by (auto simp: rows_back_def)
  have "encode tf RFCTYPE_TABLE (VList rows) f = Inr bs"
    using bs(1) td
    by (simp add: encode.simps encode_table.simps OUT_OF_SCOPE_def rfctype_defs require_type_desc_def)
  moreover have "decode RFCTYPE_TABLE bs f None = Inr (VList rows)"
  proof (cases "rows = []")
    case True
    then show ?thesis using bs(2) td
      by (simp add: decode.simps decode_table.simps OUT_OF_SCOPE_def rfctype_defs
          require_type_desc_def row_width_def)
  next
    case False
    then have "0 < ?w" "bs \<noteq> []" using pos bs(2) by auto
    then show ?thesis using bs(3) td
      by (simp add: decode.simps decode_table.simps OUT_OF_SCOPE_def rfctype_defs
          require_type_desc_def row_width_def)
  qed
  ultimately show ?thesis using bs(2) len by (auto simp: field_back_def)
qed

lemma row_back_fields:
  assumes "fits_row td u (VDict kvs)" and "fields_back tf (td_fields td) u (map snd kvs)"
  shows "row_back tf td u (VDict kvs)"
proof -
  let ?cs = "td_fields td" and ?sz = "row_size td u"
  from assms(1) have pos: "0 < ?sz" and lay: "layout_ok 0 ?cs u ?sz"
    and names: "map fst kvs = map fd_name ?cs" and dist: "distinct (map fst kvs)" by auto
  have len: "length ?cs = length kvs" using names by (metis length_map)
  have look: "py_lookup (VDict kvs) (fd_name (?cs ! i)) = Inr (Some (map snd kvs ! i))"
    if "i < length ?cs" for i
  proof -
    have i: "i < length kvs" using that len by simp
    have "fd_name (?cs ! i) = fst (kvs ! i)"
      using names i len by (metis nth_map)
    moreover have "map_of kvs (fst (kvs ! i)) = Some (snd (kvs ! i))"
      using map_of_is_SomeI [OF dist, of "fst (kvs ! i)" "snd (kvs ! i)"] i by simp
    ultimately show ?thesis using i by simp
  qed
  obtain r where r: "encode_fields tf (VDict kvs) ?cs u (replicate ?sz 0) = Inr r" "length r = ?sz"
      "\<And>acc. distinct (map fd_name ?cs) \<Longrightarrow> fst ` set acc \<inter> fd_name ` set ?cs = {} \<Longrightarrow>
        decode_fields r ?cs u acc = Inr (VDict (acc @ zip (map fd_name ?cs) (map snd kvs)))"
    using assms(2) lay look unfolding fields_back_def by (metis length_replicate)
  have "decode_fields r ?cs u [] = Inr (VDict (zip (map fst kvs) (map snd kvs)))"
    using r(3) [of "[]"] dist names by simp
  then have "decode_fields r ?cs u [] = Inr (VDict kvs)" by (simp add: zip_map_fst_snd)
  with r(1,2) pos show ?thesis by (simp add: row_back_def)
qed

lemma fits_rows_pos: "fits_rows td u rows \<Longrightarrow> rows \<noteq> [] \<Longrightarrow> 0 < row_size td u"
proof (cases rows)
  case (Cons r rs)
  moreover assume "fits_rows td u rows"
  ultimately show ?thesis by (cases r) auto
qed simp

lemma fits_back:
  "fits t f v \<Longrightarrow> field_back tf t f v"
  "fits_row td u v \<Longrightarrow> row_back tf td u v"
  "fits_fields cs u vs \<Longrightarrow> fields_back tf cs u vs"
  "fits_rows td u rows \<Longrightarrow> rows_back tf td u rows"
proof (induction t f v and td u v and cs u vs and td u rows
    rule: fits_fits_row_fits_fields_fits_rows.induct)
  case (1 t f v)
  show ?case
  proof (cases "t = RFCTYPE_STRUCTURE \<or> t = RFCTYPE_TABLE")
    case False
    then show ?thesis using "1.prems" by (simp add: fits.simps field_back_scalar)
  next
    case True
    then obtain td where td: "type_desc f = Some td"
      using "1.prems" by (auto simp: fits.simps split: if_splits option.splits)
    show ?thesis
    proof (cases "t = RFCTYPE_STRUCTURE")
      case t: True
      then show ?thesis using "1.prems" "1.IH"(1) [OF t td] td
        by (auto simp: fits.simps intro: field_back_structure)
    next
      case t: False
      then obtain rows where rows: "v = VList rows" and t': "t = RFCTYPE_TABLE"
        using True "1.prems" td by (auto simp: fits.simps split: pyval.splits)
      then have fr: "fits_rows td (unicode_mode f) rows"
        and len: "span_len f = length rows * row_size td (unicode_mode f)"
        using "1.prems" t td by (auto simp: fits.simps)
      have "rows_back tf td (unicode_mode f) rows"
        using "1.IH"(2) [OF t t' td rows] fr by blast
      then show ?thesis
        using field_back_table [OF td _ len] fits_rows_pos [OF fr] by (simp add: rows t')
    qed
  qed
next
  case (2 td u kvs)
  then show ?case by (intro row_back_fields) auto
next
  case (4 u)
  show ?case by (rule fields_back_Nil)
next
  case (5 c cs u v vs)
  then show ?case by (intro fields_back_Cons) auto
qed (auto intro: rows_back_Nil rows_back_Cons)

section \<open>Properties\<close>

text \<open>C8. A structured value survives the codec at any nesting depth.  When the spans of every
  descriptor follow each other inside the row and the value has the descriptor's shape, encoding
  succeeds, fills exactly the field's span, and decoding gives the value back: structures in
  structures, tables in structures and structures in tables alike.\<close>

theorem structured_value_roundtrip:
  assumes "fits t f v"
  shows "\<exists>bs. encode tf t v f = Inr bs \<and> length bs = snd (field_span f) \<and> decode t bs f None = Inr v"
  using fits_back(1) [OF assms] by (simp add: field_back_def span_len_def)

definition sample_inner :: type_desc where
  "sample_inner = TypeDesc (lit ''IN'')
     [FieldDesc (lit ''X'') RFCTYPE_BYTE 1 0 1 0 0 True None RFC_IMPORT False None None,
      FieldDesc (lit ''Y'') RFCTYPE_BYTE 2 1 2 1 0 True None RFC_IMPORT False None None] 3 3"

definition sample_outer :: field_desc where
  "sample_outer = FieldDesc (lit ''OUT'') RFCTYPE_STRUCTURE 10 0 10 0 0 True
     (Some (TypeDesc (lit ''OUT'')
       [FieldDesc (lit ''A'') RFCTYPE_STRUCTURE 3 0 3 0 0 True (Some sample_inner) RFC_IMPORT False None None,
        FieldDesc (lit ''B'') RFCTYPE_TABLE 6 4 6 4 0 True (Some sample_inner) RFC_IMPORT False None None]
       10 10)) RFC_IMPORT False None None"

definition sample_value :: pyval where
  "sample_value =
     (let r = (\<lambda>a b c. VDict [(lit ''X'', VBytes [a]), (lit ''Y'', VBytes [b, c])])
      in VDict [(lit ''A'', r 1 2 3), (lit ''B'', VList [r 4 5 6, r 7 8 9])])"

theorem structured_value_roundtrip_witness:
  "\<exists>bs. encode (\<lambda>v. Inl TypeError) RFCTYPE_STRUCTURE sample_value sample_outer = Inr bs \<and>
    length bs = 10 \<and> decode RFCTYPE_STRUCTURE bs sample_outer None = Inr sample_value"
proof -
  have "fits RFCTYPE_STRUCTURE sample_outer sample_value"
    by (simp add: fits.simps sample_outer_def sample_inner_def sample_value_def row_size_def
        field_span_def span_len_def rfctype_defs scalar_fits_def INT_FORMATS_def OUT_OF_SCOPE_def
        encode_scalar_def decode_scalar_def)
  from structured_value_roundtrip [OF this, of "\<lambda>v. Inl TypeError"] show ?thesis
    by (simp add: sample_outer_def field_span_def)
qed

end
