(* ===== verification/Param_Stream.thy ===== *)
theory Param_Stream
  imports Invoke_Response Codec_Layout
begin

text \<open>
  What a record stream of named values carries, for both directions: the groups of records that
  stand for one parameter, what the walk of \<^verbatim>\<open>_extract_name_value_pairs\<close> makes of them, and the
  values that survive encoding at the top level of a parameter list.
\<close>

section \<open>Groups of records\<close>

text \<open>A scalar is a name and a value; a table is a name, the id and the row info, and its rows.  A
  table without rows is its name alone.\<close>

datatype group =
    Scalar (g_name: pystr) bytes
  | Table (g_name: pystr) nat nat nat "bytes list"

definition name_bytes :: "pystr \<Rightarrow> bytes" where
  "name_bytes s = (case utf16le_encode s of None \<Rightarrow> [] | Some b \<Rightarrow> b)"

fun group_records :: "nat \<Rightarrow> group \<Rightarrow> (nat \<times> bytes) list" where
  "group_records row_tag (Scalar n v) = [(TAG_PARAM_NAME, name_bytes n), (TAG_PARAM_VALUE, v)]"
| "group_records row_tag (Table n dm sz count rows) =
     (TAG_TABLE_NAME, name_bytes n) #
     (if count = 0 then []
      else [(TAG_DM_TABLE_ID, be_bytes 4 dm), (TAG_TABLE_INFO, be_bytes 4 sz @ be_bytes 4 count)]
           @ map (Pair row_tag) rows)"

fun group_pair :: "group \<Rightarrow> pystr \<times> bytes" where
  "group_pair (Scalar n v) = (n, v)"
| "group_pair (Table n dm sz count rows) = (n, if count = 0 then [] else concat rows)"

text \<open>A name that comes back: encodable, not empty, without trailing padding.\<close>

definition good_name :: "pystr \<Rightarrow> bool" where
  "good_name n \<longleftrightarrow> utf16le_encode n \<noteq> None \<and> n \<noteq> [] \<and> rstrip_by is_pad n = n"

fun good_group :: "group \<Rightarrow> bool" where
  "good_group (Scalar n v) \<longleftrightarrow> good_name n"
| "good_group (Table n dm sz count rows) \<longleftrightarrow> good_name n \<and> count < 2 ^ 32"

lemma even_length_units: "utf16le_encode s = Some b \<Longrightarrow> even (length b)"
  by (auto simp: utf16le_encode_def)

lemma decode_name_bytes:
  assumes "good_name n"
  shows "decode_utf16le (Some (name_bytes n)) = n" and "name_bytes n \<noteq> []"
proof -
  obtain b where b: "utf16le_encode n = Some b" using assms by (auto simp: good_name_def)
  have "utf16le_decode b = Some n" by (rule utf16le_roundtrip [OF b])
  then show "decode_utf16le (Some (name_bytes n)) = n"
    using assms even_length_units [OF b] by (simp add: decode_utf16le_def name_bytes_def b good_name_def)
  have "utf16le_decode [] = Some []" by (simp add: utf16le_decode_def)
  then show "name_bytes n \<noteq> []"
    using assms \<open>utf16le_decode b = Some n\<close> by (auto simp: name_bytes_def b good_name_def)
qed

section \<open>The walk over groups\<close>

text \<open>The pairs reported so far together with the table in progress.\<close>

definition view :: "extract_state \<Rightarrow> (pystr \<times> bytes) list" where
  "view st = x_pairs st @
     (case x_name st of None \<Rightarrow> [] | Some n \<Rightarrow> if x_in_table st then [(n, x_rows st)] else [])"

definition plain :: "extract_state \<Rightarrow> bool" where
  "plain st \<longleftrightarrow> x_lz st = [] \<and> x_chunks st = [] \<and> x_current st = Outside \<and>
     (x_in_table st \<longrightarrow> x_name st \<noteq> None)"

lemmas extract_tag_defs = request_tag_defs response_tag_defs

lemma flush_plain:
  assumes "plain st"
  shows "\<exists>st'. flush_table sd st = Inr st' \<and> x_pairs st' = view st \<and> plain st' \<and>
    x_name st' = x_name st \<and> x_in_table st' = x_in_table st \<and> x_rows st' = x_rows st \<and>
    x_counts st' = x_counts st"
  using assms
  by (auto simp: flush_table_def table_payload_def view_def plain_def split: option.splits)

lemma extract_scalar:
  assumes "plain st" and "good_name n"
  shows "\<exists>st'. extract_records sd dm (group_records rt (Scalar n v)) st = Inr st' \<and> plain st' \<and>
    view st' = view st @ [(n, v)] \<and> x_counts st' = x_counts st"
proof -
  obtain s1 where s1: "flush_table sd st = Inr s1" "x_pairs s1 = view st" "plain s1"
      "x_name s1 = x_name st" "x_in_table s1 = x_in_table st" "x_counts s1 = x_counts st"
    using flush_plain [OF assms(1), of sd] by blast
  define s2 where "s2 = (if x_in_table st \<and> x_name st \<noteq> None then no_table s1 else s1)
      \<lparr>x_lz := [], x_name := Some n\<rparr>"
  have e: "extract_record sd dm TAG_PARAM_NAME (name_bytes n) st = Inr s2"
    by (simp add: extract_record_def s1(1) s2_def decode_name_bytes [OF assms(2)])
  have s2: "plain s2" "x_pairs s2 = view st" "x_name s2 = Some n" "x_counts s2 = x_counts st"
    using s1 by (auto simp: s2_def no_table_def plain_def)
  have "\<not> x_in_table s2" using assms(1) s1(5) by (auto simp: s2_def no_table_def plain_def)
  then have "extract_record sd dm TAG_PARAM_VALUE v s2
      = Inr (s2\<lparr>x_pairs := view st @ [(n, v)], x_name := None\<rparr>)"
    using s2 by (simp add: extract_record_def extract_tag_defs)
  with e s2 \<open>\<not> x_in_table s2\<close> show ?thesis by (auto simp: plain_def view_def)
qed

lemma extract_rows:
  assumes "x_in_table st" and "rt = TAG_TABLE_CONTENT \<or> rt = TAG_TABLE_CONTENT_ALT"
  shows "extract_records sd dm (map (Pair rt) rows) st = Inr (st\<lparr>x_rows := x_rows st @ concat rows\<rparr>)"
  using assms
proof (induction rows arbitrary: st)
  case (Cons r rows)
  have "extract_record sd dm rt r st = Inr (st\<lparr>x_rows := x_rows st @ r\<rparr>)"
    using Cons.prems by (auto simp: extract_record_def extract_tag_defs)
  with Cons.IH [of "st\<lparr>x_rows := x_rows st @ r\<rparr>"] Cons.prems show ?case by simp
qed simp

lemma extract_table:
  assumes "plain st" and "good_name n" and rt: "rt = TAG_TABLE_CONTENT \<or> rt = TAG_TABLE_CONTENT_ALT"
    and "count < 2 ^ 32"
  shows "\<exists>st'. extract_records sd dm (group_records rt (Table n d sz count rows)) st = Inr st' \<and>
    plain st' \<and> view st' = view st @ [group_pair (Table n d sz count rows)] \<and>
    x_counts st' = (if count = 0 then x_counts st else AList.update n count (x_counts st))"
proof -
  obtain s1 where s1: "flush_table sd st = Inr s1" "x_pairs s1 = view st" "plain s1"
      "x_counts s1 = x_counts st"
    using flush_plain [OF assms(1), of sd] by blast
  define s2 where "s2 = s1\<lparr>x_name := Some n, x_in_table := True, x_rows := [], x_lz := []\<rparr>"
  have e: "extract_record sd dm TAG_TABLE_NAME (name_bytes n) st = Inr s2"
    by (simp add: extract_record_def s1(1) s2_def decode_name_bytes [OF assms(2)]
        TAG_TABLE_NAME_def TAG_PARAM_NAME_def TAG_PARAM_VALUE_def)
  have s2: "plain s2" "x_pairs s2 = view st" "x_counts s2 = x_counts st"
    using s1 by (auto simp: s2_def plain_def)
  show ?thesis
  proof (cases "count = 0")
    case True
    with e s2 show ?thesis by (simp add: view_def s2_def)
  next
    case False
    have d: "extract_record sd dm TAG_DM_TABLE_ID (be_bytes 4 d) s2 = Inr s2"
      by (simp add: extract_record_def extract_tag_defs)
    define s3 where "s3 = s2\<lparr>x_counts := AList.update n count (x_counts st)\<rparr>"
    have "py_slice 4 8 (be_bytes 4 sz @ be_bytes 4 count) = be_bytes 4 count"
      by (simp add: py_slice_def)
    then have i: "extract_record sd dm TAG_TABLE_INFO (be_bytes 4 sz @ be_bytes 4 count) s2 = Inr s3"
      using assms(4) False s1(4)
      by (simp add: extract_record_def extract_tag_defs table_info_def s3_def s2_def)
    have t: "x_in_table s3" by (simp add: s3_def s2_def)
    show ?thesis
      using False e d i extract_rows [OF t rt, of sd dm rows] s2
      by (simp add: extract_records_append view_def s3_def s2_def plain_def)
  qed
qed

definition add_count :: "group \<Rightarrow> (pystr \<times> nat) list \<Rightarrow> (pystr \<times> nat) list" where
  "add_count g cs =
     (case g of Scalar n v \<Rightarrow> cs
      | Table n d sz count rows \<Rightarrow> if count = 0 then cs else AList.update n count cs)"

lemma extract_groups:
  assumes "plain st" and "\<forall>g \<in> set gs. good_group g"
    and rt: "rt = TAG_TABLE_CONTENT \<or> rt = TAG_TABLE_CONTENT_ALT"
  shows "\<exists>st'. extract_records sd dm (concat (map (group_records rt) gs)) st = Inr st' \<and> plain st' \<and>
    view st' = view st @ map group_pair gs \<and> x_counts st' = fold add_count gs (x_counts st)"
  using assms(1,2)
proof (induction gs arbitrary: st)
  case (Cons g gs)
  obtain s1 where s1: "extract_records sd dm (group_records rt g) st = Inr s1" "plain s1"
      "view s1 = view st @ [group_pair g]" "x_counts s1 = add_count g (x_counts st)"
  proof (cases g)
    case (Scalar n v)
    then show thesis
      using extract_scalar [OF Cons.prems(1), of n sd dm rt v] Cons.prems(2) that
      by (auto simp: add_count_def)
  next
    case (Table n d sz count rows)
    then show thesis
      using extract_table [OF Cons.prems(1) _ rt, of n count sd dm d sz rows] Cons.prems(2) that
      by (auto simp: add_count_def simp del: group_records.simps)
  qed
  show ?case
    using s1 Cons.IH [OF s1(2)] Cons.prems(2)
    by (auto simp: extract_records_append simp del: group_records.simps)
qed simp

text \<open>Records before the first parameter that the walk passes over.\<close>

definition ignored :: "nat \<times> bytes \<Rightarrow> bool" where
  "ignored r \<longleftrightarrow> fst r \<notin> {TAG_PARAM_NAME, TAG_TABLE_NAME, TAG_BASXML_MARKER, TAG_TABLE_DELTA}"

lemma extract_ignored:
  assumes "\<forall>r \<in> set rs. ignored r"
  shows "extract_records sd dm rs extract_start = Inr extract_start"
  using assms
proof (induction rs)
  case (Cons r rs)
  obtain t v where r: "r = (t, v)" by fastforce
  have "extract_record sd dm t v extract_start = Inr extract_start"
    using Cons.prems by (simp add: extract_record_def extract_start_def ignored_def r)
  with Cons r show ?case by simp
qed simp

text \<open>The named values of a written stream.\<close>

lemma pairs_of_groups:
  assumes "\<forall>r \<in> set hdr. ignored r \<and> ok_record r" and "\<forall>g \<in> set gs. good_group g"
    and "\<forall>g \<in> set gs. \<forall>r \<in> set (group_records rt g). ok_record r"
    and rt: "rt = TAG_TABLE_CONTENT \<or> rt = TAG_TABLE_CONTENT_ALT"
  shows "extract_name_value_pairs sd dm
      (tlv_records (hdr @ concat (map (group_records rt) gs)) @ tlv_end @ x # y # rest)
    = Inr \<lparr>pairs = map group_pair gs, basxml = [], row_counts = fold add_count gs []\<rparr>"
proof -
  have start: "plain extract_start" "view extract_start = []" "x_counts extract_start = []"
    by (simp_all add: plain_def extract_start_def view_def)
  obtain st where st: "extract_records sd dm (concat (map (group_records rt) gs)) extract_start = Inr st"
      "plain st" "view st = map group_pair gs" "x_counts st = fold add_count gs []"
    using extract_groups [OF start(1) assms(2) rt] start by auto
  have "extract_records sd dm (hdr @ concat (map (group_records rt) gs)) extract_start = Inr st"
    using extract_ignored [of hdr sd dm] assms(1) st(1) by (simp add: extract_records_append)
  moreover have "\<forall>r \<in> set (hdr @ concat (map (group_records rt) gs)). ok_record r"
    using assms(1,3) by auto
  ultimately have "extract_from sd dm extract_start
      (tlv_records (hdr @ concat (map (group_records rt) gs)) @ tlv_end @ x # y # rest) = Inr st"
    using extract_written by metis
  then show ?thesis
    using flush_plain [OF st(2), of sd] st
    by (auto simp: extract_name_value_pairs_def plain_def)
qed

end
