(* ===== verification/Call_Values.thy ===== *)
theory Call_Values
  imports Param_Stream
begin

text \<open>
  Parameters at the top level of a call: which values come back from the records they are written
  as, for both directions.  A value is written as one group of records; \<open>good_desc\<close> says the names
  of a descriptor can be told apart and read back, \<open>param_fits\<close> that a value has the shape its
  descriptor states and that each scalar in it survives its own encoding.
\<close>

section \<open>Values that fit\<close>

definition param_fits :: "field_desc \<Rightarrow> pyval \<Rightarrow> bool" where
  "param_fits f v \<longleftrightarrow>
     (if rfctype f = RFCTYPE_STRUCTURE then
        (case type_desc f of None \<Rightarrow> False
         | Some td \<Rightarrow> row_size td (Codec.unicode_mode f) < 2 ^ 32 \<and> fits_row td (Codec.unicode_mode f) v)
      else if rfctype f = RFCTYPE_TABLE then
        (case type_desc f of None \<Rightarrow> False
         | Some td \<Rightarrow>
             (case v of VList rows \<Rightarrow>
                row_size td (Codec.unicode_mode f) < 2 ^ 32 \<and> length rows < 2 ^ 32
                \<and> fits_rows td (Codec.unicode_mode f) rows
              | _ \<Rightarrow> False))
      else rfctype f \<notin> set OUT_OF_SCOPE \<and>
        (case encode_scalar (\<lambda>v. Inl TypeError) (rfctype f) v f of Inl e \<Rightarrow> False
         | Inr bs \<Rightarrow> length bs < 2 ^ 32 \<and> decode_scalar (rfctype f) bs f = Inr v))"

definition value_bytes :: "(pyval \<Rightarrow> 64 word res) \<Rightarrow> field_desc \<Rightarrow> pyval \<Rightarrow> bytes" where
  "value_bytes tf f v = (case encode tf (rfctype f) v f of Inl e \<Rightarrow> [] | Inr bs \<Rightarrow> bs)"

definition field_width :: "field_desc \<Rightarrow> nat" where
  "field_width f =
     (case type_desc f of None \<Rightarrow> 0 | Some td \<Rightarrow> row_size td (Codec.unicode_mode f))"

definition list_rows :: "pyval \<Rightarrow> pyval list" where
  "list_rows v = (case v of VList rows \<Rightarrow> rows | _ \<Rightarrow> [])"

definition row_chunks :: "nat \<Rightarrow> nat \<Rightarrow> bytes \<Rightarrow> bytes list" where
  "row_chunks w n bs = map (\<lambda>i. py_slice (i * w) ((i + 1) * w) bs) [0..<n]"

definition group_of :: "(pyval \<Rightarrow> 64 word res) \<Rightarrow> nat \<Rightarrow> field_desc \<Rightarrow> pyval \<Rightarrow> group" where
  "group_of tf dm f v =
     (if rfctype f = RFCTYPE_TABLE
      then Table (fd_name f) dm (field_width f) (length (list_rows v))
             (row_chunks (field_width f) (length (list_rows v)) (value_bytes tf f v))
      else Scalar (fd_name f) (value_bytes tf f v))"

lemma scalar_comes_back:
  assumes "param_fits f v" and "rfctype f \<noteq> RFCTYPE_TABLE"
  shows "encode tf (rfctype f) v f = Inr (value_bytes tf f v)"
    and "length (value_bytes tf f v) < 2 ^ 32"
    and "decode (rfctype f) (value_bytes tf f v) f count = Inr v"
proof -
  have "\<exists>bs. encode tf (rfctype f) v f = Inr bs \<and> length bs < 2 ^ 32 \<and>
      decode (rfctype f) bs f count = Inr v"
  proof (cases "rfctype f = RFCTYPE_STRUCTURE")
    case True
    obtain td where td: "type_desc f = Some td" "row_size td (Codec.unicode_mode f) < 2 ^ 32"
        "fits_row td (Codec.unicode_mode f) v"
      using assms(1) True by (auto simp: param_fits_def split: option.splits)
    have "row_back tf td (Codec.unicode_mode f) v" by (rule fits_back(2) [OF td(3)])
    then show ?thesis
      using td True
      by (auto simp: row_back_def encode.simps decode.simps OUT_OF_SCOPE_def rfctype_defs
          require_type_desc_def simp del: encode_structure.simps decode_structure.simps)
  next
    case False
    then obtain bs where bs: "encode_scalar (\<lambda>v. Inl TypeError) (rfctype f) v f = Inr bs"
        "length bs < 2 ^ 32" "decode_scalar (rfctype f) bs f = Inr v" "rfctype f \<notin> set OUT_OF_SCOPE"
      using assms by (auto simp: param_fits_def split: sum.splits)
    then show ?thesis
      using False assms(2) encode_scalar_float_free [OF bs(1)]
      by (simp add: encode.simps decode.simps)
  qed
  then show "encode tf (rfctype f) v f = Inr (value_bytes tf f v)"
    and "length (value_bytes tf f v) < 2 ^ 32"
    and "decode (rfctype f) (value_bytes tf f v) f count = Inr v"
    by (auto simp: value_bytes_def)
qed

text \<open>A table comes back with no count (the server's reader) and with its own (the client's).\<close>

lemma table_comes_back:
  assumes "param_fits f v" and "rfctype f = RFCTYPE_TABLE"
  obtains td rows where "v = VList rows" and "type_desc f = Some td"
    and "field_width f = row_size td (Codec.unicode_mode f)"
    and "field_width f < 2 ^ 32" and "length rows < 2 ^ 32" and "rows \<noteq> [] \<Longrightarrow> 0 < field_width f"
    and "encode tf RFCTYPE_TABLE v f = Inr (value_bytes tf f v)"
    and "length (value_bytes tf f v) = length rows * field_width f"
    and "decode RFCTYPE_TABLE (value_bytes tf f v) f None = Inr v"
    and "rows \<noteq> [] \<Longrightarrow> decode RFCTYPE_TABLE (value_bytes tf f v) f (Some (length rows)) = Inr v"
proof -
  have ns: "RFCTYPE_TABLE \<noteq> RFCTYPE_STRUCTURE" "RFCTYPE_TABLE \<notin> set OUT_OF_SCOPE"
    by (simp_all add: rfctype_defs OUT_OF_SCOPE_def)
  obtain td rows where v: "v = VList rows" and td: "type_desc f = Some td"
    and w: "row_size td (Codec.unicode_mode f) < 2 ^ 32" "length rows < 2 ^ 32"
    and fr: "fits_rows td (Codec.unicode_mode f) rows"
    using assms ns by (auto simp: param_fits_def split: option.splits pyval.splits)
  let ?w = "row_size td (Codec.unicode_mode f)"
  have "rows_back tf td (Codec.unicode_mode f) rows" by (rule fits_back(4) [OF fr])
  then obtain bs where bs: "encode_rows tf rows td (Codec.unicode_mode f) = Inr bs"
      "length bs = length rows * ?w"
      "0 < ?w \<longrightarrow> decode_rows (row_slices ?w bs) td (Codec.unicode_mode f) = Inr rows"
    unfolding rows_back_def by (elim exE conjE)
  have pos: "0 < ?w" if "rows \<noteq> []" using fits_rows_pos [OF fr that] .
  have enc: "encode tf RFCTYPE_TABLE v f = Inr bs"
    using bs(1) td v ns by (simp add: encode.simps encode_table.simps require_type_desc_def)
  then have vb: "value_bytes tf f v = bs" by (simp add: value_bytes_def assms(2))
  have d0: "decode RFCTYPE_TABLE bs f None = Inr v"
  proof (cases "rows = []")
    case True
    then show ?thesis
      using td v ns bs(2)
      by (simp add: decode.simps decode_table.simps require_type_desc_def row_width_def)
  next
    case False
    then show ?thesis
      using td v ns bs pos
      by (simp add: decode.simps decode_table.simps require_type_desc_def row_width_def)
  qed
  have d1: "decode RFCTYPE_TABLE bs f (Some (length rows)) = Inr v" if "rows \<noteq> []"
    using td v ns bs pos [OF that] that
    by (simp add: decode.simps decode_table.simps require_type_desc_def row_width_def)
  show thesis
    using that [OF v td] w pos enc bs(2) d0 d1 td by (simp add: vb field_width_def)
qed

section \<open>A table's rows\<close>

lemma concat_row_chunks: "length bs = n * w \<Longrightarrow> concat (row_chunks w n bs) = bs"
proof -
  have "concat (row_chunks w n bs) = take (n * w) bs" for n
  proof (induction n)
    case (Suc n)
    have "concat (row_chunks w (Suc n) bs) = take (n * w) bs @ take w (drop (n * w) bs)"
      using Suc by (simp add: row_chunks_def py_slice_def)
    then show ?case by (simp add: take_add [symmetric] add.commute)
  qed (simp add: row_chunks_def)
  then show "length bs = n * w \<Longrightarrow> concat (row_chunks w n bs) = bs" by simp
qed

lemma length_row_chunk:
  assumes "c \<in> set (row_chunks w n bs)"
  shows "length c \<le> w"
  using assms by (auto simp: row_chunks_def py_slice_def)

lemma group_pair_of:
  assumes "param_fits f v"
  shows "group_pair (group_of tf dm f v) = (fd_name f, value_bytes tf f v)"
proof (cases "rfctype f = RFCTYPE_TABLE")
  case True
  obtain td rows where "v = VList rows" "length (value_bytes tf f v) = length rows * field_width f"
    by (rule table_comes_back [OF assms True, of tf]) blast
  with True show ?thesis
    by (cases "rows = []") (simp_all add: group_of_def list_rows_def concat_row_chunks)
qed (simp add: group_of_def)

lemma group_name [simp]: "g_name (group_of tf dm f v) = fd_name f"
  by (simp add: group_of_def)

text \<open>What the reader of a group makes of it: without counts, and with the counts of the stream.\<close>

definition group_count :: "group \<Rightarrow> nat option" where
  "group_count g =
     (case g of Scalar n v \<Rightarrow> None | Table n d sz c rows \<Rightarrow> if c = 0 then None else Some c)"

lemma group_decodes:
  assumes "param_fits f v"
  shows "decode (rfctype f) (value_bytes tf f v) f None = Inr v"
    and "decode (rfctype f) (value_bytes tf f v) f (group_count (group_of tf dm f v)) = Inr v"
proof -
  have "decode (rfctype f) (value_bytes tf f v) f None = Inr v \<and>
    decode (rfctype f) (value_bytes tf f v) f (group_count (group_of tf dm f v)) = Inr v"
  proof (cases "rfctype f = RFCTYPE_TABLE")
    case True
    obtain td rows where *: "v = VList rows"
        "decode RFCTYPE_TABLE (value_bytes tf f v) f None = Inr v"
        "rows \<noteq> [] \<Longrightarrow> decode RFCTYPE_TABLE (value_bytes tf f v) f (Some (length rows)) = Inr v"
      by (rule table_comes_back [OF assms True, of tf]) blast
    then show ?thesis
      by (cases "rows = []") (auto simp: True group_count_def group_of_def list_rows_def)
  qed (simp add: scalar_comes_back [OF assms])
  then show "decode (rfctype f) (value_bytes tf f v) f None = Inr v"
    and "decode (rfctype f) (value_bytes tf f v) f (group_count (group_of tf dm f v)) = Inr v"
    by auto
qed

section \<open>Records of a group\<close>

definition ok_name :: "pystr \<Rightarrow> bool" where
  "ok_name n \<longleftrightarrow> good_name n \<and> length (name_bytes n) < 2 ^ 32"

definition good_desc :: "(nat \<Rightarrow> pystr) \<Rightarrow> func_desc \<Rightarrow> bool" where
  "good_desc uc desc \<longleftrightarrow>
     distinct (map (\<lambda>f. py_upper uc (fd_name f)) (parameters desc)) \<and>
     list_all (\<lambda>f. ok_name (fd_name f)) (parameters desc) \<and> length (parameters desc) < 2 ^ 32"

lemma good_group_of: "ok_name (fd_name f) \<Longrightarrow> param_fits f v \<Longrightarrow> good_group (group_of tf dm f v)"
  by (auto simp: group_of_def ok_name_def elim: table_comes_back [of f v tf] simp: list_rows_def)

lemma group_records_ok:
  assumes "ok_name (fd_name f)" and "param_fits f v" and "rt < 0xFFFF"
    and "r \<in> set (group_records rt (group_of tf dm f v))"
  shows "ok_record r"
proof (cases "rfctype f = RFCTYPE_TABLE")
  case True
  have "field_width f < 2 ^ 32" by (rule table_comes_back [OF assms(2) True, of tf])
  then have "length c < 2 ^ 32" if "c \<in> set (row_chunks (field_width f) n bs)" for c n bs
    using length_row_chunk [OF that] by simp
  then show ?thesis
    using assms True
    by (auto simp: group_of_def ok_record_def ok_name_def request_tag_defs split: if_splits)
next
  case False
  with assms scalar_comes_back(2) [OF assms(2) False, of tf] show ?thesis
    by (auto simp: group_of_def ok_record_def ok_name_def request_tag_defs)
qed

section \<open>Joining records\<close>

lemma join_records_append:
  assumes "join_records ps = Inr a" and "join_records qs = Inr b"
  shows "join_records (ps @ qs) = Inr (a @ b)"
  using assms by (auto simp: join_records_def seq_res_append map_res_Inr bind_res_Inr)

lemma join_records_Nil [simp]: "join_records [] = Inr []"
  by (simp add: join_records_def)

lemma join_records_Cons:
  "p = Inr a \<Longrightarrow> join_records ps = Inr b \<Longrightarrow> join_records (p # ps) = Inr (a @ b)"
  by (auto simp: join_records_def map_res_Inr)

lemma ok_tlv_record: "ok_record (t, v) \<Longrightarrow> tlv_record t v = Inr (tlv_record_body t v)"
  by (simp add: tlv_record_def ok_record_def)

lemma join_ok_records:
  assumes "\<forall>r \<in> set rs. ok_record r"
  shows "join_records (map (\<lambda>(t, v). tlv_record t v) rs) = Inr (tlv_records rs)"
  using assms
proof (induction rs)
  case (Cons r rs)
  obtain t v where r: "r = (t, v)" by fastforce
  show ?case
    using Cons r by (auto simp: tlv_records_Cons ok_tlv_record intro!: join_records_Cons)
qed simp

lemma join_pieces:
  assumes "\<forall>p \<in> set ps. p \<in> range Inr"
  shows "join_records ps = Inr (concat (map (\<lambda>p. case p of Inl e \<Rightarrow> [] | Inr b \<Rightarrow> b) ps))"
  using assms by (induction ps) (auto intro!: join_records_Cons)

lemma text_record_name: "good_name n \<Longrightarrow> text_record t n = tlv_record t (name_bytes n)"
  by (auto simp: text_record_def utf16_def good_name_def name_bytes_def)

lemma scalar_param_written:
  assumes "ok_name (fd_name f)" and "param_fits f v" and "rfctype f \<noteq> RFCTYPE_TABLE"
  shows "scalar_param tf f v = Inr (tlv_records (group_records rt (group_of tf dm f v)))"
proof -
  let ?rs = "[(TAG_PARAM_NAME, name_bytes (fd_name f)), (TAG_PARAM_VALUE, value_bytes tf f v)]"
  have "\<forall>r \<in> set ?rs. ok_record r"
    using assms scalar_comes_back(2) [OF assms(2,3), of tf]
    by (auto simp: ok_record_def ok_name_def request_tag_defs)
  from join_ok_records [OF this] show ?thesis
    using assms scalar_comes_back(1) [OF assms(2,3), of tf]
    by (simp add: scalar_param_def group_of_def ok_name_def text_record_name)
qed

end
