(* ===== verification/Reassembly.thy ===== *)
theory Reassembly
  imports Complex_Main Client_Session Tlv_Stream
begin

text \<open>
  Reading a reply that spans several gateway frames, and what a failure on the way does to the
  session: \<^verbatim>\<open>_strip_gw_header\<close>, \<^verbatim>\<open>_join_response_frames\<close> (and its asynchronous twin, the same
  text around \<^verbatim>\<open>await\<close>), \<^verbatim>\<open>_fail_closed\<close> and the call metrics of
  \<^verbatim>\<open>src/saprfclib/connection.py\<close>.

  The reader of frames is an argument, an operation on the state of the transport.  Durations
  are rationals: the floating point rounding of the metrics is not modelled.
\<close>

section \<open>Frames\<close>

definition strip_gw_header :: "bytes \<Rightarrow> bytes" where
  "strip_gw_header resp = (if take 1 resp = [6] then drop 80 resp else resp)"

definition MAX_RESPONSE_FRAMES :: nat where "MAX_RESPONSE_FRAMES = 256"

definition frame_reports_itself_final :: "bytes \<Rightarrow> bool option" where
  "frame_reports_itself_final raw =
     (if length raw \<ge> 64 \<and> take 1 raw = [6] then Some (be_val (py_slice 60 64 raw) = 1) else None)"

function join_loop ::
    "('s, bytes) act \<Rightarrow> nat \<Rightarrow> bytes \<Rightarrow> bytes \<Rightarrow> ('s, bytes) act" where
  "join_loop read_frame frames raw tlv s =
     (if tlv_stream_status tlv \<noteq> Truncated then (Inr tlv, s)
      else if frame_reports_itself_final raw = Some True then (Inl ValueError, s)
      else if frames \<ge> MAX_RESPONSE_FRAMES then (Inl ValueError, s)
      else case read_frame s of
        (Inl e, s') \<Rightarrow> (Inl e, s')
      | (Inr raw', s') \<Rightarrow>
          let part = strip_gw_header raw' in
          if part = [] then (Inl ValueError, s')
          else join_loop read_frame (frames + 1) raw' (tlv @ part) s')"
  by pat_completeness auto
termination
  by (relation "measure (\<lambda>(rd, n, raw, tlv, s). MAX_RESPONSE_FRAMES - n)") auto

declare join_loop.simps [simp del]

definition join_response_frames :: "('s, bytes) act \<Rightarrow> ('s, bytes) act" where
  "join_response_frames read_frame s =
     (case read_frame s of
        (Inl e, s') \<Rightarrow> (Inl e, s')
      | (Inr raw, s') \<Rightarrow> join_loop read_frame 1 raw (strip_gw_header raw) s')"

section \<open>Failing closed\<close>

text \<open>\<open>describe\<close> is the text \<^verbatim>\<open>type(exc).__name__: exc\<close>.\<close>

definition fail_closed ::
    "(exn \<Rightarrow> pystr) \<Rightarrow> pystr \<Rightarrow> 'a res \<Rightarrow> session \<Rightarrow> 'a res \<times> session" where
  "fail_closed describe func_name outcome s =
     (case outcome of
        Inr x \<Rightarrow> (Inr x, s)
      | Inl e \<Rightarrow>
          if isinstance e C_AbapApplicationError \<or> isinstance e C_AbapSystemFailure then (Inl e, s)
          else
            let s' = mark_broken (func_name @ lit '': '' @ describe e) s in
            if isinstance e C_OSError \<or> isinstance e C_EOFError
            then (Inl (CommunicationError (describe e)), s') else (Inl e, s'))"

section \<open>Metrics\<close>

record call_stats =
  cs_func_name :: pystr
  duration_s :: rat
  cs_request_bytes :: nat
  cs_response_bytes :: nat
  failed :: bool
  server_duration_s :: "rat option"

record metrics =
  calls :: nat
  failures :: nat
  total_duration_s :: rat
  max_duration_s :: rat
  request_bytes :: nat
  response_bytes :: nat
  total_server_duration_s :: rat
  server_timed_calls :: nat
  last_call :: "call_stats option"

definition new_metrics :: metrics where
  "new_metrics = \<lparr>calls = 0, failures = 0, total_duration_s = 0, max_duration_s = 0,
     request_bytes = 0, response_bytes = 0, total_server_duration_s = 0, server_timed_calls = 0,
     last_call = None\<rparr>"

definition record_call :: "call_stats \<Rightarrow> metrics \<Rightarrow> metrics" where
  "record_call st m =
     m\<lparr>calls := calls m + 1,
       failures := failures m + (if failed st then 1 else 0),
       total_duration_s := total_duration_s m + duration_s st,
       max_duration_s := max (max_duration_s m) (duration_s st),
       request_bytes := request_bytes m + cs_request_bytes st,
       response_bytes := response_bytes m + cs_response_bytes st,
       total_server_duration_s := total_server_duration_s m
         + (case server_duration_s st of None \<Rightarrow> 0 | Some d \<Rightarrow> d),
       server_timed_calls := server_timed_calls m
         + (case server_duration_s st of None \<Rightarrow> 0 | Some d \<Rightarrow> 1),
       last_call := Some st\<rparr>"

definition mean_duration_s :: "metrics \<Rightarrow> rat" where
  "mean_duration_s m = (if calls m = 0 then 0 else total_duration_s m / of_nat (calls m))"

definition mean_server_duration_s :: "metrics \<Rightarrow> rat" where
  "mean_server_duration_s m =
     (if server_timed_calls m = 0 then 0
      else total_server_duration_s m / of_nat (server_timed_calls m))"

definition server_time_fraction :: "metrics \<Rightarrow> rat" where
  "server_time_fraction m =
     (if server_timed_calls m = 0 \<or> total_duration_s m \<le> 0 then 0
      else total_server_duration_s m / total_duration_s m)"

section \<open>Reassembly does not depend on where the frames were cut\<close>

text \<open>Frames waiting to be read; the end of the list is the end of the stream.\<close>

definition pop_frame :: "(bytes list, bytes) act" where
  "pop_frame fs = (case fs of [] \<Rightarrow> (Inl EOFError, []) | f # fs' \<Rightarrow> (Inr f, fs'))"

text \<open>A gateway frame: 80 bytes of header, the first of them 6, and a chunk of the body.\<close>

definition gw_frame :: "bytes \<Rightarrow> bytes \<Rightarrow> bytes" where
  "gw_frame hdr chunk = hdr @ chunk"

definition continuing :: "bytes \<Rightarrow> bool" where
  "continuing hdr \<longleftrightarrow> length hdr = 80 \<and> take 1 hdr = [6] \<and> be_val (py_slice 60 64 hdr) \<noteq> 1"

definition ending :: "bytes \<Rightarrow> bool" where
  "ending hdr \<longleftrightarrow> length hdr = 80 \<and> take 1 hdr = [6]"

lemma strip_gw_frame: "ending hdr \<Longrightarrow> strip_gw_header (gw_frame hdr chunk) = chunk"
  by (auto simp: ending_def strip_gw_header_def gw_frame_def)

lemma continuing_ending: "continuing hdr \<Longrightarrow> ending hdr"
  by (simp add: continuing_def ending_def)

lemma continuing_not_final: "continuing hdr \<Longrightarrow> frame_reports_itself_final (gw_frame hdr c) = Some False"
proof -
  assume c: "continuing hdr"
  then have "py_slice 60 64 (hdr @ c) = py_slice 60 64 hdr"
    by (simp add: continuing_def py_slice_def)
  with c show ?thesis
    by (auto simp: continuing_def frame_reports_itself_final_def gw_frame_def)
qed

text \<open>A first record of which a part is read: until its whole value is there the bytes do not look
  like a record stream at all.\<close>

lemma status_uncovered_record:
  assumes ok: "ok_record (t, v)" and k: "k < length (tlv_record_body t v)"
  shows "tlv_stream_status (take k (tlv_record_body t v)) =
    (if k < length (tlv_record_body t v) - 2 then Not_Tlv else Truncated)"
proof (cases "k < 4")
  case True
  then show ?thesis
    by (simp add: tlv_stream_status_def tlv_stream_status_from.simps tlv_step_few length_tlv_record_body)
next
  case k4: False
  let ?r = "v @ be_bytes 2 t"
  have after: "tlv_stream_status_from True (skip_close t (drop (length v) (take j ?r))) = Truncated"
    if "j < length v + 2" for j
    using that le_less_trans [OF length_skip_close, of "drop (length v) (take j ?r)" 4 t]
    by (simp add: tlv_stream_status_from.simps [of True] tlv_step_few)
  have len: "length v < 2 ^ 32" "t < 0xFFFF" using ok by (simp_all add: ok_record_def)
  show ?thesis
  proof (cases "length v \<ge> 0xFFFF")
    case False
    have s: "tlv_step (take k (tlv_record_body t v)) =
        (if k - 4 < length v then T_Overrun t else
         T_Record t 4 (take (length v) (take (k - 4) ?r)) (skip_close t (drop (length v) (take (k - 4) ?r))))"
      using tlv_step_short_form [OF len(2), of "length v" "take (k - 4) ?r"] False k4 k
      by (auto simp: tlv_record_body_def min_def)
    show ?thesis
      using k k4 False after [of "k - 4"] unfolding tlv_stream_status_def
      by (subst tlv_stream_status_from.simps) (auto simp: s length_tlv_record_body simp del: take_append)
  next
    case True
    show ?thesis
    proof (cases "k < 8")
      case k8: True
      have "take k (tlv_record_body t v)
          = be_bytes 2 t @ be_bytes 2 0xFFFF @ take (k - 4) (be_bytes 4 (length v) @ ?r)"
        using True k4 by (simp add: tlv_record_body_def)
      with len k8 have "tlv_step (take k (tlv_record_body t v)) = T_Short t"
        by (simp add: tlv_step_no_length del: take_append)
      then show ?thesis
        using k8 True unfolding tlv_stream_status_def
        by (subst tlv_stream_status_from.simps) (auto simp: length_tlv_record_body simp del: take_append)
    next
      case k8: False
      have s: "tlv_step (take k (tlv_record_body t v)) =
          (if k - 8 < length v then T_Overrun t else
           T_Record t 8 (take (length v) (take (k - 8) ?r)) (skip_close t (drop (length v) (take (k - 8) ?r))))"
        using tlv_step_long_form [OF len(2) len(1), of "take (k - 8) ?r"] True k8 k
        by (auto simp: tlv_record_body_def min_def)
      show ?thesis
        using k k8 True after [of "k - 8"] unfolding tlv_stream_status_def
        by (subst tlv_stream_status_from.simps) (auto simp: s length_tlv_record_body simp del: take_append)
    qed
  qed
qed

lemma status_of_prefix:
  assumes ok: "\<forall>r \<in> set rs. ok_record r" "ok_record r0"
    and k: "length (tlv_record_body (fst r0) (snd r0)) \<le> k" "k < length (tlv_records (r0 # rs)) + 4"
  shows "tlv_stream_status (take k (tlv_records (r0 # rs) @ tlv_end @ [x, y] @ rest)) = Truncated"
proof -
  obtain t v where r0: "r0 = (t, v)" by fastforce
  let ?b = "tlv_record_body t v"
  have "take k (tlv_records (r0 # rs) @ tlv_end @ [x, y] @ rest) =
      tlv_records [r0] @ take (k - length ?b) (tlv_records rs @ tlv_end @ [x, y] @ rest)"
    using k(1) by (simp add: r0 tlv_records_Cons)
  moreover have "k - length ?b < length (tlv_records rs) + 4"
    using k by (auto simp: r0 tlv_records_Cons)
  ultimately have "tlv_stream_status_from True (take (k - length ?b) (tlv_records rs @ tlv_end @ [x, y] @ rest))
      = Truncated"
    using status_proper_prefix [OF ok(1)] by blast
  moreover have "tlv_stream_status_from False (tlv_records [r0] @ zs) = tlv_stream_status_from True zs" for zs
    using status_records [of "[r0]" False] ok(2) by simp
  ultimately show ?thesis
    unfolding tlv_stream_status_def
      \<open>take k (tlv_records (r0 # rs) @ tlv_end @ [x, y] @ rest) =
        tlv_records [r0] @ take (k - length ?b) (tlv_records rs @ tlv_end @ [x, y] @ rest)\<close>
    by metis
qed

section \<open>Properties\<close>

lemma whole_is_complete:
  assumes "\<forall>r \<in> set (r0 # rs). ok_record r"
  shows "tlv_stream_status (tlv_records (r0 # rs) @ tlv_end @ [x, y] @ rest) = Complete"
proof -
  have "tlv_stream_status_from False (tlv_records (r0 # rs) @ tlv_end @ x # y # rest)
      = tlv_stream_status_from True (tlv_end @ x # y # rest)"
    using status_records [OF assms, of False "tlv_end @ x # y # rest"] by simp
  then show ?thesis
    using status_terminated [of True x y rest] by (simp add: tlv_stream_status_def)
qed

lemma length_tlv_records_one: "length (tlv_records [r]) = length (tlv_record_body (fst r) (snd r))"
  by (simp add: tlv_records_def case_prod_beta)

text \<open>What every prefix of a reply looks like to the loop.\<close>

lemma status_of_cut:
  assumes "\<forall>r \<in> set ((t, v) # rs). ok_record r"
  shows "tlv_stream_status (take k (tlv_records ((t, v) # rs) @ tlv_end @ [x, y] @ rest)) =
    (if k < length (tlv_record_body t v) - 2 then Not_Tlv
     else if k < length (tlv_records ((t, v) # rs)) + 4 then Truncated else Complete)"
proof (cases "k < length (tlv_record_body t v)")
  case True
  then have "take k (tlv_records ((t, v) # rs) @ tlv_end @ [x, y] @ rest) = take k (tlv_record_body t v)"
    by (simp add: tlv_records_Cons)
  with True assms status_uncovered_record [of t v k] show ?thesis by (simp add: tlv_records_Cons)
next
  case False
  show ?thesis
  proof (cases "k < length (tlv_records ((t, v) # rs)) + 4")
    case True
    have "tlv_stream_status (take k (tlv_records ((t, v) # rs) @ tlv_end @ [x, y] @ rest)) = Truncated"
      using assms False True by (intro status_of_prefix) simp_all
    moreover have "\<not> k < length (tlv_record_body t v) - 2" using False by simp
    ultimately show ?thesis using True by (simp only: if_True if_False)
  next
    case long: False
    then have "take k (tlv_records ((t, v) # rs) @ tlv_end @ [x, y] @ rest) =
        tlv_records ((t, v) # rs) @ tlv_end @ [x, y] @ take (k - (length (tlv_records ((t, v) # rs)) + 4)) rest"
      by (simp add: take_Cons' numeral_eq_Suc)
    with False long whole_is_complete [OF assms] show ?thesis by (simp only: if_False) simp
  qed
qed

text \<open>The number of frames it takes to cover \<open>m\<close> bytes.\<close>

fun frames_needed :: "nat \<Rightarrow> bytes list \<Rightarrow> nat" where
  "frames_needed m [] = 0"
| "frames_needed m (c # cs) = (if m \<le> length c then 1 else Suc (frames_needed (m - length c) cs))"

lemma frames_needed_all:
  "length (concat (butlast cs)) < m \<Longrightarrow> m \<le> length (concat cs) \<Longrightarrow> frames_needed m cs = length cs"
proof (induction cs arbitrary: m)
  case (Cons c cs)
  then show ?case
  proof (cases "cs = []")
    case False
    with Cons show ?thesis by auto
  qed simp
qed simp

lemma join_loop_needed:
  assumes ok: "\<forall>r \<in> set ((t, v) # rs). ok_record r"
    and "got @ concat (map snd chunks) = tlv_records ((t, v) # rs) @ tlv_end @ [x, y] @ tail"
    and "length (tlv_record_body t v) - 2 \<le> length got"
    and "length got < length (tlv_records ((t, v) # rs)) + 4"
    and "\<forall>(h, c) \<in> set chunks. ending h \<and> c \<noteq> []"
    and "\<forall>(h, c) \<in> set (butlast chunks). continuing h"
    and "frame_reports_itself_final raw = Some False"
    and "frames \<le> MAX_RESPONSE_FRAMES"
  defines "m \<equiv> length (tlv_records ((t, v) # rs)) + 4"
  shows "join_loop pop_frame frames raw got (map (case_prod gw_frame) chunks @ rest) =
    (let n = frames_needed (m - length got) (map snd chunks) in
     if frames + n \<le> MAX_RESPONSE_FRAMES
     then (Inr (got @ concat (take n (map snd chunks))), map (case_prod gw_frame) (drop n chunks) @ rest)
     else (Inl ValueError, map (case_prod gw_frame) (drop (MAX_RESPONSE_FRAMES - frames) chunks) @ rest))"
  using assms(2-8)
proof (induction chunks arbitrary: got raw frames)
  case Nil
  then have "length got = length (tlv_records ((t, v) # rs) @ tlv_end @ [x, y] @ tail)" by simp
  with Nil show ?case by simp
next
  case (Cons hc chunks)
  obtain h c where hc: "hc = (h, c)" by fastforce
  let ?S = "tlv_records ((t, v) # rs) @ tlv_end @ [x, y] @ tail"
  have e: "ending h" "c \<noteq> []" using Cons.prems(4) by (auto simp: hc)
  have "got = take (length got) ?S" using Cons.prems(1) by (metis append_eq_conv_conj)
  then have t: "tlv_stream_status got = Truncated"
    using status_of_cut [OF ok, of "length got" x y tail] Cons.prems(2,3) by (metis not_less)
  have pos: "frames_needed k (map snd (hc # chunks)) > 0" for k by simp
  show ?case
  proof (cases "frames = MAX_RESPONSE_FRAMES")
    case True
    then show ?thesis
      using t Cons.prems(6) pos [of "m - length got"]
      by (subst join_loop.simps) (simp add: Let_def)
  next
    case False
    have step: "join_loop pop_frame frames raw got (map (case_prod gw_frame) (hc # chunks) @ rest) =
        join_loop pop_frame (frames + 1) (gw_frame h c) (got @ c) (map (case_prod gw_frame) chunks @ rest)"
      using t e Cons.prems(6,7) False
      by (subst join_loop.simps) (simp add: hc pop_frame_def strip_gw_frame Let_def)
    show ?thesis
    proof (cases "m \<le> length got + length c")
      case True
      have "got @ c = take (length (got @ c)) ?S" using Cons.prems(1) by (metis append_assoc append_eq_conv_conj concat.simps(2) hc list.simps(9) snd_conv)
      then have "tlv_stream_status (got @ c) = Complete"
        using status_of_cut [OF ok, of "length (got @ c)" x y tail] True Cons.prems(2)
        by (metis length_append m_def not_less order_trans le_add1)
      then have "join_loop pop_frame (frames + 1) (gw_frame h c) (got @ c) fs = (Inr (got @ c), fs)" for fs
        by (simp add: join_loop.simps)
      moreover have "m - length got \<le> length c" using True by simp
      ultimately show ?thesis
        using step False Cons.prems(7) by (simp add: hc Let_def)
    next
      case short: False
      have ne: "chunks \<noteq> []"
      proof
        assume "chunks = []"
        with Cons.prems(1) have "length (got @ c) = length ?S" by (simp add: hc)
        with short show False by (simp add: m_def)
      qed
      then have "continuing h" using Cons.prems(5) by (simp add: hc)
      then have f: "frame_reports_itself_final (gw_frame h c) = Some False" by (rule continuing_not_final)
      have n: "frames_needed (m - length got) (map snd (hc # chunks)) =
          Suc (frames_needed (m - length (got @ c)) (map snd chunks))"
      proof -
        have "\<not> m - length got \<le> length c" using short by arith
        then show ?thesis by (simp add: hc)
      qed
      have d: "drop (MAX_RESPONSE_FRAMES - frames) (hc # chunks) = drop (MAX_RESPONSE_FRAMES - (frames + 1)) chunks"
        using False Cons.prems(7) by (simp add: drop_Cons')
      have "join_loop pop_frame (frames + 1) (gw_frame h c) (got @ c) (map (case_prod gw_frame) chunks @ rest) =
        (let n = frames_needed (m - length (got @ c)) (map snd chunks) in
         if frames + 1 + n \<le> MAX_RESPONSE_FRAMES
         then (Inr ((got @ c) @ concat (take n (map snd chunks))), map (case_prod gw_frame) (drop n chunks) @ rest)
         else (Inl ValueError, map (case_prod gw_frame) (drop (MAX_RESPONSE_FRAMES - (frames + 1)) chunks) @ rest))"
        using Cons.prems short ne f False
        by (intro Cons.IH) (auto simp: hc m_def)
      then show ?thesis unfolding Let_def n d step by (simp add: hc)
    qed
  qed
qed

lemma reply_cut_anywhere:
  assumes "\<forall>r \<in> set ((t, v) # rs). ok_record r"
    and "concat (map snd chunks) = tlv_records ((t, v) # rs) @ tlv_end @ [x, y] @ tail"
    and "\<forall>(h, c) \<in> set chunks. ending h \<and> c \<noteq> []"
    and "\<forall>(h, c) \<in> set (butlast chunks). continuing h"
  shows "let n = frames_needed (length (tlv_records ((t, v) # rs)) + 4) (map snd chunks) in
    join_response_frames pop_frame (map (case_prod gw_frame) chunks @ rest) =
     (if length (snd (hd chunks)) < length (tlv_record_body t v) - 2
      then (Inr (snd (hd chunks)), map (case_prod gw_frame) (drop 1 chunks) @ rest)
      else if n \<le> MAX_RESPONSE_FRAMES
      then (Inr (concat (take n (map snd chunks))), map (case_prod gw_frame) (drop n chunks) @ rest)
      else (Inl ValueError, map (case_prod gw_frame) (drop MAX_RESPONSE_FRAMES chunks) @ rest))"
proof -
  let ?S = "tlv_records ((t, v) # rs) @ tlv_end @ [x, y] @ tail" and ?m = "length (tlv_records ((t, v) # rs)) + 4"
  obtain h0 c0 cs where ch: "chunks = (h0, c0) # cs" using assms(2) by (cases chunks) auto
  have e0: "ending h0" using assms(3) by (simp add: ch)
  have read: "join_response_frames pop_frame (map (case_prod gw_frame) chunks @ rest)
      = join_loop pop_frame 1 (gw_frame h0 c0) c0 (map (case_prod gw_frame) cs @ rest)"
    by (simp add: join_response_frames_def pop_frame_def ch strip_gw_frame [OF e0])
  have S: "c0 @ concat (map snd cs) = ?S" using assms(2) by (simp add: ch)
  then have st: "tlv_stream_status c0 = (if length c0 < length (tlv_record_body t v) - 2 then Not_Tlv
      else if length c0 < ?m then Truncated else Complete)"
    using status_of_cut [OF assms(1), of "length c0" x y tail] by (metis append_eq_conv_conj)
  show ?thesis
  proof (cases "length c0 < length (tlv_record_body t v) - 2 \<or> ?m \<le> length c0")
    case True
    then have "join_loop pop_frame 1 (gw_frame h0 c0) c0 fs = (Inr c0, fs)" for fs
      using st by (subst join_loop.simps) auto
    then show ?thesis using True unfolding read by (auto simp: ch Let_def MAX_RESPONSE_FRAMES_def)
  next
    case False
    have ne: "cs \<noteq> []"
    proof
      assume "cs = []"
      with S have "length c0 = length ?S" by simp
      with False show False by simp
    qed
    have "continuing h0" using assms(4) ne by (simp add: ch)
    then have f: "frame_reports_itself_final (gw_frame h0 c0) = Some False" by (rule continuing_not_final)
    have n: "frames_needed ?m (map snd chunks) = Suc (frames_needed (?m - length c0) (map snd cs))"
      using False by (simp add: ch)
    have "join_loop pop_frame 1 (gw_frame h0 c0) c0 (map (case_prod gw_frame) cs @ rest) =
      (let n = frames_needed (?m - length c0) (map snd cs) in
       if 1 + n \<le> MAX_RESPONSE_FRAMES
       then (Inr (c0 @ concat (take n (map snd cs))), map (case_prod gw_frame) (drop n cs) @ rest)
       else (Inl ValueError, map (case_prod gw_frame) (drop (MAX_RESPONSE_FRAMES - 1) cs) @ rest))"
      using assms(3,4) ne f S False
      by (intro join_loop_needed [OF assms(1)]) (auto simp: ch MAX_RESPONSE_FRAMES_def)
    moreover have "drop MAX_RESPONSE_FRAMES chunks = drop (MAX_RESPONSE_FRAMES - 1) cs"
      by (simp add: ch MAX_RESPONSE_FRAMES_def)
    ultimately show ?thesis using False unfolding read n Let_def by (simp add: ch)
  qed
qed

lemma reply_joined:
  assumes "\<forall>r \<in> set (r0 # rs). ok_record r"
    and "concat (map snd chunks) = tlv_records (r0 # rs) @ tlv_end @ [x, y] @ tail"
    and "chunks \<noteq> []" and "length (tlv_records [r0]) \<le> length (snd (hd chunks))"
    and "length (concat (map snd (butlast chunks))) < length (tlv_records (r0 # rs)) + 4"
    and "\<forall>(h, c) \<in> set chunks. ending h \<and> c \<noteq> []"
    and "\<forall>(h, c) \<in> set (butlast chunks). continuing h"
    and "length chunks \<le> MAX_RESPONSE_FRAMES"
  shows "join_response_frames pop_frame (map (case_prod gw_frame) chunks @ rest)
    = (Inr (concat (map snd chunks)), rest)"
proof -
  obtain t v where r0: "r0 = (t, v)" by fastforce
  have n: "frames_needed (length (tlv_records (r0 # rs)) + 4) (map snd chunks) = length chunks"
    using assms(2,5) by (subst frames_needed_all) (simp_all add: map_butlast)
  have "\<not> length (snd (hd chunks)) < length (tlv_record_body t v) - 2"
    using assms(4) by (simp add: r0 length_tlv_records_one)
  then show ?thesis
    using reply_cut_anywhere [OF _ _ assms(6,7), of t v rs x y tail rest] assms(1,2,8) n
    by (simp add: r0)
qed



text \<open>One reply never consumes more than 256 frames.  Whatever the peer sends, joining a reply
  ends, and the frames it has taken from the transport number at most the bound.\<close>

theorem reply_frames_bounded:
  assumes "join_response_frames pop_frame fs = (r, fs')"
  shows "length fs \<le> length fs' + MAX_RESPONSE_FRAMES"
proof -
  have loop: "length fs \<le> length fs' + (MAX_RESPONSE_FRAMES - n)"
    if "join_loop pop_frame n raw tlv fs = (r, fs')" "n \<le> MAX_RESPONSE_FRAMES" for n raw tlv fs
    using that
  proof (induction "MAX_RESPONSE_FRAMES - n" arbitrary: n raw tlv fs)
    case 0
    then show ?case by (subst (asm) join_loop.simps) (auto split: if_splits)
  next
    case (Suc k)
    show ?case
    proof (cases fs)
      case Nil
      then show ?thesis using Suc by simp
    next
      case (Cons f fs1)
      then show ?thesis
        using Suc.prems Suc.hyps(1) [of "n + 1"] Suc.hyps(2)
        by (subst (asm) join_loop.simps) (fastforce simp: pop_frame_def Let_def split: if_splits)
    qed
  qed
  show ?thesis
  proof (cases fs)
    case (Cons f fs1)
    then have "join_loop pop_frame 1 f (strip_gw_header f) fs1 = (r, fs')"
      using assms by (simp add: join_response_frames_def pop_frame_def)
    from loop [OF this] show ?thesis by (simp add: Cons MAX_RESPONSE_FRAMES_def)
  qed simp
qed

text \<open>Only an ABAP error leaves a connection usable.  When a call fails with an application error
  or a system failure the session is untouched; with any other exception the session is broken,
  so no further call can start on it, and a lost connection is reported as a communication error
  naming the cause.\<close>

lemma failed_call_breaks_session:
  assumes "fail_closed describe func_name (Inl e) s = (r, t)"
  shows "if isinstance e C_AbapApplicationError \<or> isinstance e C_AbapSystemFailure
    then r = Inl e \<and> t = s
    else state t = BROKEN \<and> mark_in_call t = (Inl ValueError, t) \<and>
      session_feed u8 data t = (Inl ValueError, t) \<and>
      r = (if isinstance e C_OSError \<or> isinstance e C_EOFError
           then Inl (CommunicationError (describe e)) else Inl e)"
proof -
  have b: "mark_in_call (mark_broken w s) = (Inl ValueError, mark_broken w s)"
    "session_feed u8 data (mark_broken w s) = (Inl ValueError, mark_broken w s)" for w
    using broken_refuses [of "mark_broken w s"] by (simp_all add: mark_broken_def)
  show ?thesis
    using assms b by (auto simp: fail_closed_def Let_def mark_broken_def split: if_splits)
qed

end
