(* ===== verification/Server_Frames.thy ===== *)
theory Server_Frames
  imports Param_Stream Gw_Frames Reassembly
begin

text \<open>
  The bytes of the registered server, \<^verbatim>\<open>src/saprfclib/server.py\<close>: the gateway frames around a
  call, service names, the compact parameter block 0x5001, the request as the server reads it and
  the responses it writes.

  Lower case and digits of the service names are those of ASCII; the services database is the
  parameter \<open>service\<close>.
\<close>

section \<open>Gateway frames\<close>

definition build_ni_init :: "bytes \<Rightarrow> pystr \<Rightarrow> pystr \<Rightarrow> bytes res" where
  "build_ni_init local_ip local_host program_id =
     bind_res (ascii_bytes program_id) (\<lambda>prog.
       let frame = [2, 0x0B] @ local_ip @ [0, 0, 0, 0] @ ljust 10 0 (take 9 prog) @ blit ''1100''
             @ [0, 0, 0, 0] @ [0, 6] @ ljust 8 0x20 (ascii_enc_replace (take 8 local_host))
             @ ljust 8 0x20 (take 8 prog) @ replicate 8 0x20 @ [6, 0xCB, 0xFF, 0xFF]
             @ replicate 6 0
       in if length frame \<noteq> 64 then Inl ValueError else Inr frame)"

definition blank_frame :: "byte \<Rightarrow> bytes" where
  "blank_frame ty =
     put_slice 4 6 [0xFF, 0xFF] (put_slice 2 4 [7, 0] (put_slice 0 2 [6, ty] (replicate 80 0)))"

definition build_reg_waiting :: bytes where
  "build_reg_waiting =
     (let f = (blank_frame 0xD1)[30 := 1];
          f = put_slice 40 48 (blit ''H0000001'') f;
          f = put_slice 48 52 [0, 0, 0, 0x50] f
      in put_slice 76 80 [0xFF, 0xFF, 0xFF, 0xFF] f)"

definition build_listen_end :: bytes where
  "build_listen_end = put_slice 0 2 [6, 0xD0] build_reg_waiting"

definition build_post_call_b :: "bytes \<Rightarrow> bytes" where
  "build_post_call_b gw_handle =
     (let f = put_slice 40 48 gw_handle (blank_frame 0x0B)
      in put_slice 78 80 [0, 1] (put_slice 76 78 [0xFF, 0xFF] f))"

definition build_post_call_d2 :: "bytes \<Rightarrow> bytes" where
  "build_post_call_d2 gw_handle =
     (let f = put_slice 40 48 gw_handle ((blank_frame 0xD2)[30 := 1]);
          f = put_slice 48 52 [0, 0, 0, 0x50] f
      in put_slice 78 80 [0, 1] (put_slice 76 78 [0xFF, 0xFF] f))"

definition wrap_in_0608 :: "bytes \<Rightarrow> bytes \<Rightarrow> bytes res" where
  "wrap_in_0608 rfc_data gw_handle =
     (if length rfc_data < 2 ^ 32 then
        let f = put_slice 40 48 gw_handle (blank_frame 8);
            f = pack_at 48 (be_bytes 4 (length rfc_data)) f
        in Inr (put_slice 78 80 [0, 1] (put_slice 76 78 [0xFF, 0xFF] f) @ rfc_data)
      else Inl StructError)"

section \<open>Service names\<close>

definition ascii_lower :: "pystr \<Rightarrow> pystr" where
  "ascii_lower s = map low s"

definition all_digits :: "pystr \<Rightarrow> bool" where
  "all_digits s \<longleftrightarrow> s \<noteq> [] \<and> list_all is_digit s"

definition instance_from_service :: "pystr \<Rightarrow> pystr \<Rightarrow> nat res" where
  "instance_from_service nm pre =
     (let suffix = drop (length pre) (py_strip nm) in
      if \<not> all_digits suffix then Inl ValueError
      else if digits_val suffix > 99 then Inl ValueError
      else Inr (digits_val suffix))"

definition gwserv_port :: "(pystr \<Rightarrow> nat option) \<Rightarrow> pystr \<Rightarrow> nat res" where
  "gwserv_port service gwserv =
     (let s = ascii_lower (py_strip gwserv) in
      if starts_with (lit ''sapgw'') s
      then map_res (\<lambda>i. 3300 + i) (instance_from_service s (lit ''sapgw''))
      else if all_digits s then
        (if 0 < digits_val s \<and> digits_val s \<le> 65535 then Inr (digits_val s) else Inl ValueError)
      else opt_res ValueError (service s))"

definition dispatcher_instance :: "pystr \<Rightarrow> nat res" where
  "dispatcher_instance s =
     (if starts_with (lit ''sapgw'') s then instance_from_service s (lit ''sapgw'')
      else if all_digits s then
        (let port = digits_val s in
         if 3300 \<le> port \<and> port \<le> 3399 then Inr (port - 3300)
         else if 4800 \<le> port \<and> port \<le> 4899 then Inr (port - 4800)
         else Inl ValueError)
      else Inl ValueError)"

definition dispatcher_svc_8 :: "pystr \<Rightarrow> bytes res" where
  "dispatcher_svc_8 gwserv =
     bind_res (dispatcher_instance (ascii_lower (py_strip gwserv))) (\<lambda>i.
       map_res (take 8) (ascii_bytes (ljust 8 32 (lit ''sapdp'' @ two_digits i))))"

section \<open>The compact parameter block\<close>

text \<open>Declarations: the names whose values follow, and what is left of the block.\<close>

fun block_names :: "nat \<Rightarrow> bytes \<Rightarrow> pystr list \<times> bytes" where
  "block_names 0 d = ([], d)"
| "block_names (Suc fuel) d =
     (case d of
        e # n # r \<Rightarrow>
          if e \<noteq> 0x54 \<and> e \<noteq> 0x51 then ([], d)
          else if unat n > length r then ([], r)
          else
            let nm = ascii_replace (take (unat n) r);
                res = block_names fuel (drop (unat n) r)
            in (if e = 0x51 then nm # fst res else fst res, snd res)
      | _ \<Rightarrow> ([], d))"

text \<open>The next value: 0x43, a length byte, 0x80, the value and an end marker.\<close>

definition value_here :: "bytes \<Rightarrow> (bytes \<times> bytes) option" where
  "value_here d =
     (if d ! 0 = 0x43 \<and> d ! 2 = 0x80 \<and> 3 + unat (d ! 1) < length d \<and> d ! (3 + unat (d ! 1)) = 0x45
      then Some (py_slice 3 (3 + unat (d ! 1)) d, drop (3 + unat (d ! 1) + 1) d) else None)"

fun find_value :: "bytes \<Rightarrow> (bytes \<times> bytes) option" where
  "find_value [] = None"
| "find_value (b # bs) =
     (if length (b # bs) < 4 then None
      else case value_here (b # bs) of Some r \<Rightarrow> Some r | None \<Rightarrow> find_value bs)"

fun block_values :: "pystr list \<Rightarrow> bytes \<Rightarrow> (pystr \<times> pystr) list \<Rightarrow> (pystr \<times> pystr) list" where
  "block_values [] d acc = acc"
| "block_values (n # ns) d acc =
     (case find_value d of None \<Rightarrow> acc
      | Some (v, r) \<Rightarrow> block_values ns r (AList.update n (ascii_replace v) acc))"

definition extract_5001_params :: "bytes \<Rightarrow> (pystr \<times> pystr) list" where
  "extract_5001_params data =
     (case block_names (length data) (drop 14 data) of (ns, r) \<Rightarrow> block_values ns r [])"

text \<open>Every 0x43, length, 0x80, value in the block, with its offset.\<close>

function scan_5001_from :: "nat \<Rightarrow> bytes \<Rightarrow> (nat \<times> bytes) list" where
  "scan_5001_from i d =
     (if length d < 3 then []
      else if d ! 0 = 0x43 \<and> d ! 2 = 0x80 \<and> 3 + unat (d ! 1) \<le> length d
      then (i, py_slice 3 (3 + unat (d ! 1)) d)
             # scan_5001_from (i + 3 + unat (d ! 1)) (drop (3 + unat (d ! 1)) d)
      else scan_5001_from (i + 1) (drop 1 d))"
  by pat_completeness auto
termination by (relation "measure (length \<circ> snd)") auto

declare scan_5001_from.simps [simp del]

definition is_hex_upper :: "byte \<Rightarrow> bool" where
  "is_hex_upper b \<longleftrightarrow> b \<in> set (blit ''0123456789ABCDEF'')"

definition is_fm_char :: "byte \<Rightarrow> bool" where
  "is_fm_char b \<longleftrightarrow> b \<in> set (blit ''ABCDEFGHIJKLMNOPQRSTUVWXYZ0123456789_'')"

fun find_tid :: "(nat \<times> bytes) list \<Rightarrow> (bytes \<times> (nat \<times> bytes) list) option" where
  "find_tid ((o0, v0) # (o1, v1) # (o2, v2) # (o3, v3) # r) =
     (if length v0 = 8 \<and> length v1 = 4 \<and> length v2 = 8 \<and> length v3 = 4
         \<and> list_all is_hex_upper (v0 @ v1 @ v2 @ v3)
         \<and> o1 = o0 + 3 + 8 \<and> o2 = o1 + 3 + 4 \<and> o3 = o2 + 3 + 8
      then Some (v0 @ v1 @ v2 @ v3, r)
      else find_tid ((o1, v1) # (o2, v2) # (o3, v3) # r))"
| "find_tid _ = None"

definition looks_like_fm :: "bytes \<Rightarrow> bool" where
  "looks_like_fm v \<longleftrightarrow>
     1 \<le> length v \<and> length v \<le> 30 \<and> list_all is_fm_char v \<and> 0x5F \<in> set v"

definition extract_trfc_params_from_5001 :: "bytes \<Rightarrow> pystr \<times> pystr" where
  "extract_trfc_params_from_5001 raw =
     (let values = scan_5001_from 0 raw;
          tid_rest = (case find_tid values of None \<Rightarrow> ([], values) | Some r \<Rightarrow> r);
          fm = (case List.find (\<lambda>(i, v). looks_like_fm v) (snd tid_rest) of
                  None \<Rightarrow> [] | Some (i, v) \<Rightarrow> latin1_decode v)
      in (latin1_decode (fst tid_rest), fm))"

section \<open>Reading a request\<close>

definition TAG_5001 :: nat where "TAG_5001 = 0x5001"

definition no_dm :: "nat \<Rightarrow> pystr option" where
  "no_dm i = None"

definition read_func_name :: "bytes \<Rightarrow> pystr res" where
  "read_func_name tlv =
     map_res (\<lambda>tags. decode_utf16le (tags TAG_FUNC_NAME)) (parse_tlv_stream tlv)"

definition name_to_field :: "(nat \<Rightarrow> pystr) \<Rightarrow> func_desc \<Rightarrow> pystr \<Rightarrow> field_desc option" where
  "name_to_field uc desc =
     map_of (rev (map (\<lambda>f. (py_upper uc (fd_name f), f)) (parameters desc)))"

fun request_values :: "(pystr \<Rightarrow> field_desc option) \<Rightarrow> (nat \<Rightarrow> pystr) \<Rightarrow> (pystr \<times> bytes) list \<Rightarrow> params \<Rightarrow> params res" where
  "request_values fld uc [] acc = Inr acc"
| "request_values fld uc ((n, raw) # ps) acc =
     (case fld (py_upper uc n) of
        None \<Rightarrow> request_values fld uc ps acc
      | Some f \<Rightarrow> bind_res (decode (rfctype f) raw f None)
          (\<lambda>v. request_values fld uc ps (AList.update (fd_name f) v acc)))"

definition block_request :: "(pystr \<Rightarrow> field_desc option) \<Rightarrow> (nat \<Rightarrow> pystr) \<Rightarrow> bytes \<Rightarrow> params" where
  "block_request fld uc raw =
     fold (\<lambda>(n, s) acc. case fld (py_upper uc n) of None \<Rightarrow> acc
                        | Some f \<Rightarrow> AList.update (fd_name f) (VStr s) acc)
       (extract_5001_params raw) []"

definition deserialize_request ::
    "(nat \<Rightarrow> pystr) \<Rightarrow> sap_decompressor \<Rightarrow> bytes \<Rightarrow> func_desc option \<Rightarrow> params res" where
  "deserialize_request uc sapdec tlv fdesc =
     (case fdesc of
        None \<Rightarrow> Inr []
      | Some desc \<Rightarrow>
          bind_res (extract_name_value_pairs sapdec no_dm tlv) (\<lambda>x.
          bind_res (request_values (name_to_field uc desc) uc (pairs x) []) (\<lambda>req.
            if req \<noteq> [] then Inr req
            else bind_res (parse_tlv_stream tlv) (\<lambda>tags.
              case tags TAG_5001 of None \<Rightarrow> Inr req
              | Some raw \<Rightarrow> Inr (block_request (name_to_field uc desc) uc raw)))))"

text \<open>The first parameter of a given name, by its upper case.\<close>

definition first_named :: "(nat \<Rightarrow> pystr) \<Rightarrow> pystr \<Rightarrow> (pystr \<times> bytes) list \<Rightarrow> bytes option" where
  "first_named uc want ps =
     map_option snd (List.find (\<lambda>(n, v). py_upper uc n = want) ps)"

definition extract_param_from_frame ::
    "(nat \<Rightarrow> pystr) \<Rightarrow> sap_decompressor \<Rightarrow> bytes \<Rightarrow> pystr \<Rightarrow> pystr res" where
  "extract_param_from_frame uc sapdec tlv param_name =
     (let want = py_upper uc param_name in
      bind_res (extract_name_value_pairs sapdec no_dm tlv) (\<lambda>x.
        case first_named uc want (pairs x) of
          Some v \<Rightarrow> Inr (decode_utf16le (Some v))
        | None \<Rightarrow>
            bind_res (parse_tlv_stream tlv) (\<lambda>tags.
              case tags TAG_5001 of None \<Rightarrow> Inr []
              | Some raw \<Rightarrow>
                  (case extract_trfc_params_from_5001 raw of (tid, fm) \<Rightarrow>
                     Inr (if want = lit ''ARFCFNAM'' then fm
                          else if want = lit ''ARFCTID'' then tid else [])))))"

definition extract_tid_from_frame ::
    "(nat \<Rightarrow> pystr) \<Rightarrow> sap_decompressor \<Rightarrow> bytes \<Rightarrow> pystr res" where
  "extract_tid_from_frame uc sapdec tlv =
     bind_res (extract_name_value_pairs sapdec no_dm tlv) (\<lambda>x.
       case first_named uc (lit ''ARFCTID'') (pairs x) of
         Some v \<Rightarrow> Inr (decode_utf16le (Some v))
       | None \<Rightarrow>
           bind_res (parse_tlv_stream tlv) (\<lambda>tags.
             case tags TAG_5001 of None \<Rightarrow> Inr []
             | Some raw \<Rightarrow> Inr (fst (extract_trfc_params_from_5001 raw))))"

text \<open>The walker for raw values stops quietly at a malformed record.\<close>

function raw_param_from :: "(nat \<Rightarrow> pystr) \<Rightarrow> pystr \<Rightarrow> pystr option \<Rightarrow> bytes \<Rightarrow> bytes option" where
  "raw_param_from uc want current d =
     (case tlv_step d of
        T_Record t h v rest \<Rightarrow>
          if t = TAG_PARAM_NAME then raw_param_from uc want (Some (decode_utf16le (Some v))) rest
          else if t = TAG_PARAM_VALUE \<and> current \<noteq> None then
            (if py_upper uc (the current) = want then Some v else raw_param_from uc want None rest)
          else raw_param_from uc want current rest
      | _ \<Rightarrow> None)"
  by pat_completeness auto
termination
  by (relation "measure (\<lambda>(uc, want, cur, d). length d)") (auto dest: tlv_step_decreases)

declare raw_param_from.simps [simp del]

definition extract_raw_param_from_frame :: "(nat \<Rightarrow> pystr) \<Rightarrow> bytes \<Rightarrow> pystr \<Rightarrow> bytes option" where
  "extract_raw_param_from_frame uc tlv param_name =
     raw_param_from uc (py_upper uc param_name) None tlv"

definition extract_credentials :: "bytes \<Rightarrow> (pystr option \<times> pystr option) res" where
  "extract_credentials tlv =
     map_res (\<lambda>tags.
       (case tags 0x0111 of None \<Rightarrow> None
          | Some u \<Rightarrow> if u = [] then None else Some (decode_utf16le (Some u)),
        case tags 0x0117 of None \<Rightarrow> None
          | Some p \<Rightarrow> if length p < 4 then None
              else Some (latin1_decode (ab_scramble (drop 4 p) (word_of_nat (le_val (take 4 p)))))))
       (parse_tlv_stream tlv)"

section \<open>Responses\<close>

definition RC_OK :: nat where "RC_OK = 0"
definition RC_SYSTEM_FAILURE :: nat where "RC_SYSTEM_FAILURE = 3"
definition RC_EXECUTED :: nat where "RC_EXECUTED = 16"

definition status_response :: "nat \<Rightarrow> bytes res list \<Rightarrow> bytes res" where
  "status_response rc parts =
     join_records ([tlv_record TAG_RESPONSE_START [], tlv_record TAG_RETURN_CODE (be_bytes 4 rc)]
       @ parts @ [tlv_record TAG_TERMINATOR []])"

definition build_rfc_executed_response :: "bytes res" where
  "build_rfc_executed_response = status_response RC_EXECUTED []"

definition build_rfc_ok_response :: "bytes res" where
  "build_rfc_ok_response = status_response RC_OK []"

text \<open>\<^verbatim>\<open>str.splitlines\<close> breaks at these code points.\<close>

definition is_line_break :: "nat \<Rightarrow> bool" where
  "is_line_break c \<longleftrightarrow> c \<in> set [10, 11, 12, 13, 28, 29, 30, 133, 8232, 8233]"

definition first_line :: "pystr \<Rightarrow> pystr" where
  "first_line s = takeWhile (\<lambda>c. \<not> is_line_break c) s"

definition sanitize_message :: "pystr \<Rightarrow> pystr" where
  "sanitize_message msg = (if msg = [] then [] else take 512 (first_line msg))"

definition build_system_failure :: "pystr \<Rightarrow> bytes res" where
  "build_system_failure msg =
     status_response RC_SYSTEM_FAILURE [text_record TAG_EXCEPTION_TEXT (sanitize_message msg)]"

definition build_table_records ::
    "(pyval \<Rightarrow> 64 word res) \<Rightarrow> field_desc \<Rightarrow> pyval \<Rightarrow> nat \<Rightarrow> bytes res" where
  "build_table_records tf f v dm_id =
     (case type_desc f of
        None \<Rightarrow> Inl ValueError
      | Some td \<Rightarrow>
          bind_res (if py_truth v then py_iter v else Inr []) (\<lambda>rows.
            if rows = [] then text_record TAG_TABLE_NAME (fd_name f)
            else
              let w = row_size td (Codec.unicode_mode f) in
              bind_res (text_record TAG_TABLE_NAME (fd_name f)) (\<lambda>nm.
              bind_res (encode tf RFCTYPE_TABLE (VList rows) f) (\<lambda>all_rows.
                map_res ((@) nm) (join_records
                  ([bind_res (pack_u32 dm_id) (tlv_record TAG_DM_TABLE_ID),
                    bind_res (pack_u32 w) (\<lambda>s. bind_res (pack_u32 (length rows))
                      (\<lambda>c. tlv_record TAG_TABLE_INFO (s @ c)))]
                   @ map (\<lambda>i. tlv_record TAG_TABLE_CONTENT_ALT (py_slice (i * w) ((i + 1) * w) all_rows))
                       [0..<length rows]))))))"

text \<open>The output parameters in declaration order; tables are numbered as they are written.\<close>

fun output_records ::
    "(nat \<Rightarrow> pystr) \<Rightarrow> (pyval \<Rightarrow> 64 word res) \<Rightarrow> params \<Rightarrow> field_desc list \<Rightarrow> nat \<Rightarrow> bytes res list" where
  "output_records uc tf upper [] dm = []"
| "output_records uc tf upper (f # fs) dm =
     (if direction f \<notin> {RFC_EXPORT, RFC_CHANGING, RFC_TABLES} then output_records uc tf upper fs dm
      else case map_of upper (py_upper uc (fd_name f)) of
        None \<Rightarrow> output_records uc tf upper fs dm
      | Some v \<Rightarrow>
          if rfctype f = RFCTYPE_TABLE
          then build_table_records tf f v (dm + 1) # output_records uc tf upper fs (dm + 1)
          else scalar_param tf f v # output_records uc tf upper fs dm)"

definition build_response ::
    "(nat \<Rightarrow> pystr) \<Rightarrow> (pyval \<Rightarrow> 64 word res) \<Rightarrow> func_desc option \<Rightarrow> params \<Rightarrow> bytes res" where
  "build_response uc tf fdesc result =
     status_response RC_OK
       (case fdesc of None \<Rightarrow> []
        | Some desc \<Rightarrow> output_records uc tf (params_upper uc result) (parameters desc) 0)"

section \<open>Properties\<close>

lemma latin1_back: "\<forall>c \<in> set p. c < 256 \<Longrightarrow> latin1_decode (latin1_replace p) = p"
  by (induction p) (auto simp: latin1_decode_def latin1_replace_def unsigned_of_nat take_bit_eq_mod)

text \<open>The server sees the credentials the caller scrambled.  From every record stream whose last
  user record is the user name in UTF-16LE and whose last password record is the scrambled form of
  a Latin-1 password, under any seed, the server's reader recovers both exactly.\<close>

lemma credentials_recovered:
  assumes "\<forall>r \<in> set rs. ok_record r"
    and "map_of (rev rs) 0x0111 = Some (name_bytes u)" and "good_name u"
    and "map_of (rev rs) 0x0117 = Some (scramble_password p seed)" and "\<forall>c \<in> set p. c < 256"
  shows "extract_credentials (tlv_records rs @ tlv_end @ x # y # rest) = Inr (Some u, Some p)"
proof -
  have "drop 4 (scramble_password p seed) = ab_scramble (latin1_replace p) seed"
    by (simp add: scramble_password_def)
  then have "latin1_decode (ab_scramble (drop 4 (scramble_password p seed)) seed) = p"
    using latin1_back [OF assms(5)] by (simp add: ab_scramble_twice)
  moreover have "\<not> length (scramble_password p seed) < 4" by (simp add: scramble_password_def)
  ultimately show ?thesis
    using decode_name_bytes [OF assms(3)]
    by (simp add: extract_credentials_def parse_tlv_stream_written [OF assms(1)] assms(2,4) scramble_password_seed
        del: append.simps)
qed

end
