(* ===== verification/Call_Roundtrip.thy ===== *)
theory Call_Roundtrip
  imports Call_Values Server_Frames
begin

text \<open>
  Both ends of a call agree: what \<^verbatim>\<open>build_invoke_request\<close> writes, \<^verbatim>\<open>_deserialize_request\<close>
  reads, and what \<^verbatim>\<open>_build_response\<close> writes, \<^verbatim>\<open>parse_invoke_response\<close> reads.
\<close>

section \<open>Tables as they are written\<close>

lemma table_written:
  assumes "ok_name (fd_name f)" and "param_fits f v" and "rfctype f = RFCTYPE_TABLE"
    and "list_rows v \<noteq> []" and "dm < 2 ^ 32" and "rt < 0xFFFF"
  shows "join_records
      ([text_record TAG_TABLE_NAME (fd_name f), bind_res (pack_u32 dm) (tlv_record TAG_DM_TABLE_ID),
        bind_res (pack_u32 (field_width f)) (\<lambda>s. bind_res (pack_u32 (length (list_rows v)))
          (\<lambda>c. tlv_record TAG_TABLE_INFO (s @ c)))]
       @ map (\<lambda>i. tlv_record rt (py_slice (i * field_width f) ((i + 1) * field_width f) (value_bytes tf f v)))
           [0..<length (list_rows v)])
    = Inr (tlv_records (group_records rt (group_of tf dm f v)))" (is "join_records ?ps = Inr (tlv_records ?rs)")
proof -
  obtain td rows where "v = VList rows" "field_width f < 2 ^ 32" "length rows < 2 ^ 32"
    by (rule table_comes_back [OF assms(2,3), of tf])
  then have "?ps = map (\<lambda>(t, v). tlv_record t v) ?rs"
    using assms by (simp add: group_of_def list_rows_def pack_u32_def row_chunks_def ok_name_def
        text_record_name)
  moreover have "\<forall>r \<in> set ?rs. ok_record r"
    using group_records_ok [OF assms(1,2,6)] by blast
  ultimately show ?thesis using join_ok_records by presburger
qed

lemma table_param_written:
  assumes "ok_name (fd_name f)" and "param_fits f v" and "rfctype f = RFCTYPE_TABLE"
    and "py_truth v" and "dm_ids (fd_name f) = Some dm" and "dm < 2 ^ 32"
  shows "table_param tf dm_ids f v
    = Inr (tlv_records (group_records TAG_TABLE_CONTENT (group_of tf dm f v)))"
proof -
  obtain td rows where v: "v = VList rows" and td: "type_desc f = Some td"
    and w: "field_width f = row_size td (Codec.unicode_mode f)"
    and e: "encode tf RFCTYPE_TABLE v f = Inr (value_bytes tf f v)"
    by (rule table_comes_back [OF assms(2,3), of tf])
  have lr: "list_rows v = rows" "rows \<noteq> []" using assms(4) v by (auto simp: list_rows_def)
  have "TAG_TABLE_CONTENT < 0xFFFF" by (simp add: TAG_TABLE_CONTENT_def)
  from table_written [OF assms(1-3) _ assms(6) this, of tf] show ?thesis
    using assms(4,5) v td w [symmetric] e lr
    by (simp add: table_param_def require_type_desc_def row_records_def list_rows_def del: append_Cons)
qed

lemma build_table_records_written:
  assumes "ok_name (fd_name f)" and "param_fits f v" and "rfctype f = RFCTYPE_TABLE"
    and "dm < 2 ^ 32"
  shows "build_table_records tf f v dm
    = Inr (tlv_records (group_records TAG_TABLE_CONTENT_ALT (group_of tf dm f v)))"
proof -
  obtain td rows where v: "v = VList rows" and td: "type_desc f = Some td"
    and w: "field_width f = row_size td (Codec.unicode_mode f)"
    and e: "encode tf RFCTYPE_TABLE v f = Inr (value_bytes tf f v)"
    by (rule table_comes_back [OF assms(2,3), of tf])
  have name: "ok_record (TAG_TABLE_NAME, name_bytes (fd_name f))"
    using assms(1) by (simp add: ok_record_def ok_name_def TAG_TABLE_NAME_def)
  have named: "text_record TAG_TABLE_NAME (fd_name f)
      = Inr (tlv_record_body TAG_TABLE_NAME (name_bytes (fd_name f)))"
    using assms(1) ok_tlv_record [OF name] by (simp add: text_record_name ok_name_def)
  show ?thesis
  proof (cases "rows = []")
    case True
    then show ?thesis
      using td v assms(3)
      by (simp add: build_table_records_def named group_of_def list_rows_def tlv_records_def)
  next
    case False
    have "TAG_TABLE_CONTENT_ALT < 0xFFFF" by (simp add: TAG_TABLE_CONTENT_ALT_def)
    from table_written [OF assms(1-3) _ assms(4) this, of tf] show ?thesis
      using td v w [symmetric] e False
      by (auto simp: build_table_records_def list_rows_def named join_records_def map_res_Inr)
  qed
qed

section \<open>Which parameters travel\<close>

text \<open>The parameters of a request with their values, and those of a response, in declaration
  order.\<close>

definition request_arg :: "(nat \<Rightarrow> pystr) \<Rightarrow> params \<Rightarrow> field_desc \<Rightarrow> (field_desc \<times> pyval) list" where
  "request_arg uc upper f =
     (if direction f = RFC_EXPORT then []
      else case map_of upper (py_upper uc (fd_name f)) of
        None \<Rightarrow> []
      | Some v \<Rightarrow> if rfctype f = RFCTYPE_TABLE \<and> \<not> py_truth v then [] else [(f, v)])"

definition request_args :: "(nat \<Rightarrow> pystr) \<Rightarrow> func_desc \<Rightarrow> params \<Rightarrow> (field_desc \<times> pyval) list" where
  "request_args uc desc ps = concat (map (request_arg uc (params_upper uc ps)) (parameters desc))"

definition result_arg :: "(nat \<Rightarrow> pystr) \<Rightarrow> params \<Rightarrow> field_desc \<Rightarrow> (field_desc \<times> pyval) list" where
  "result_arg uc upper f =
     (if direction f \<notin> {RFC_EXPORT, RFC_CHANGING, RFC_TABLES} then []
      else case map_of upper (py_upper uc (fd_name f)) of None \<Rightarrow> [] | Some v \<Rightarrow> [(f, v)])"

definition result_args :: "(nat \<Rightarrow> pystr) \<Rightarrow> func_desc \<Rightarrow> params \<Rightarrow> (field_desc \<times> pyval) list" where
  "result_args uc desc ps = concat (map (result_arg uc (params_upper uc ps)) (parameters desc))"

definition named_values :: "(field_desc \<times> pyval) list \<Rightarrow> params" where
  "named_values ss = map (\<lambda>(f, v). (fd_name f, v)) ss"

lemma chosen_fields:
  assumes "\<And>f. one f = [] \<or> (\<exists>v. one f = [(f, v)])"
  shows "map fst (concat (map one fs)) = filter (\<lambda>f. one f \<noteq> []) fs"
proof (induction fs)
  case (Cons f fs)
  with assms [of f] show ?case by auto
qed simp

lemma request_arg_shape: "request_arg uc u f = [] \<or> (\<exists>v. request_arg uc u f = [(f, v)])"
  by (auto simp: request_arg_def split: option.splits)

lemma result_arg_shape: "result_arg uc u f = [] \<or> (\<exists>v. result_arg uc u f = [(f, v)])"
  by (auto simp: result_arg_def split: option.splits)

lemmas request_fields = chosen_fields [of "request_arg uc u" for uc u, OF request_arg_shape]
lemmas result_fields = chosen_fields [of "result_arg uc u" for uc u, OF result_arg_shape]

text \<open>Fields found by their upper case name.\<close>

lemma map_of_upper:
  assumes "distinct (map k fs)" and "f \<in> set fs"
  shows "map_of (rev (map (\<lambda>f. (k f, f)) fs)) (k f) = Some f"
proof -
  have "distinct (map fst (rev (map (\<lambda>f. (k f, f)) fs)))"
    using assms(1) by (simp add: rev_map [symmetric] comp_def)
  moreover have "(k f, f) \<in> set (rev (map (\<lambda>f. (k f, f)) fs))" using assms(2) by auto
  ultimately show ?thesis by (rule map_of_is_SomeI)
qed

lemma names_distinct:
  "distinct (map (\<lambda>f. py_upper uc (fd_name f)) fs) \<Longrightarrow> distinct (map fd_name fs)"
  by (simp add: distinct_map inj_on_def)

section \<open>The values read\<close>

definition args_ok :: "(nat \<Rightarrow> pystr) \<Rightarrow> (field_desc \<times> pyval) list \<Rightarrow> bool" where
  "args_ok uc ss \<longleftrightarrow> distinct (map (\<lambda>(f, v). py_upper uc (fd_name f)) ss) \<and>
     list_all (\<lambda>(f, v). ok_name (fd_name f) \<and> param_fits f v) ss"

lemma args_names: "args_ok uc ss \<Longrightarrow> distinct (map (\<lambda>(f, v). fd_name f) ss)"
  by (simp add: args_ok_def distinct_map inj_on_def case_prod_unfold)

definition arg_pairs :: "(pyval \<Rightarrow> 64 word res) \<Rightarrow> (field_desc \<times> pyval) list \<Rightarrow> (pystr \<times> bytes) list" where
  "arg_pairs tf ss = map (\<lambda>(f, v). (fd_name f, value_bytes tf f v)) ss"

lemma request_values_args:
  assumes "list_all (\<lambda>(f, v). param_fits f v \<and> fld (py_upper uc (fd_name f)) = Some f) ss"
    and "distinct (map fst acc @ map (\<lambda>(f, v). fd_name f) ss)"
  shows "request_values fld uc (arg_pairs tf ss) acc = Inr (acc @ named_values ss)"
  using assms
proof (induction ss arbitrary: acc)
  case (Cons s ss)
  obtain f v where s: "s = (f, v)" by fastforce
  have new: "fd_name f \<notin> fst ` set acc" using Cons.prems(2) s by auto
  show ?case
    using Cons s group_decodes(1) [of f v tf]
    by (auto simp: arg_pairs_def named_values_def update_new [OF new])
qed (simp add: arg_pairs_def named_values_def)

lemma decode_pairs_args:
  assumes "list_all (\<lambda>(f, v). param_map uc desc (py_upper uc (fd_name f)) = Some f \<and>
      decode (rfctype f) (value_bytes tf f v) f (counts (fd_name f)) = Inr v) ss"
    and "distinct (map fst acc @ map (\<lambda>(f, v). fd_name f) ss)"
  shows "decode_pairs uc desc counts (arg_pairs tf ss) acc = Inr (acc @ named_values ss)"
  using assms
proof (induction ss arbitrary: acc)
  case (Cons s ss)
  obtain f v where s: "s = (f, v)" by fastforce
  have new: "fd_name f \<notin> fst ` set acc" using Cons.prems(2) s by auto
  show ?case
    using Cons s
    by (auto simp: decode_pair_def arg_pairs_def named_values_def update_new [OF new])
qed (simp add: arg_pairs_def named_values_def)

text \<open>The counts of a stream are those of its groups.\<close>

lemma add_count_at:
  "map_of (add_count g cs) n =
    (if n = g_name g \<and> group_count g \<noteq> None then group_count g else map_of cs n)"
  by (cases g) (auto simp: add_count_def group_count_def update_conv')

lemma counts_other:
  "n \<notin> g_name ` set gs \<Longrightarrow> map_of (fold add_count gs cs) n = map_of cs n"
  by (induction gs arbitrary: cs) (auto simp: add_count_at)

lemma counts_of_groups:
  assumes "distinct (map g_name gs)" and "g \<in> set gs" and "map_of cs (g_name g) = None"
  shows "map_of (fold add_count gs cs) (g_name g) = group_count g"
  using assms
proof (induction gs arbitrary: cs)
  case (Cons h gs)
  show ?case
  proof (cases "g = h")
    case True
    then show ?thesis
      using Cons.prems counts_other [of "g_name h" gs] by (auto simp: add_count_at)
  next
    case False
    then have g: "g \<in> set gs" using Cons.prems(2) by simp
    then have "g_name g \<in> g_name ` set gs" by simp
    then have "g_name g \<noteq> g_name h" using Cons.prems(1) by auto
    then have "map_of (add_count h cs) (g_name g) = None"
      using Cons.prems(3) by (simp add: add_count_at)
    then show ?thesis using Cons g by simp
  qed
qed simp

section \<open>A request read by the server\<close>

lemma dm_of_name_bound:
  assumes "n \<in> set ns"
  shows "\<exists>d. dm_of_name (enumerate 1 ns) n = Some d \<and> d \<le> length ns"
proof -
  have fst: "fst ` set (map (\<lambda>(d, n). (n, d)) (enumerate 1 ns)) = set ns"
    by (simp add: image_image case_prod_unfold) (simp flip: set_map)
  then have "n \<in> fst ` set (rev (map (\<lambda>(d, n). (n, d)) (enumerate 1 ns)))" using assms by simp
  then obtain d where d: "map_of (rev (map (\<lambda>(d, n). (n, d)) (enumerate 1 ns))) n = Some d"
    by (metis map_of_eq_None_iff not_None_eq)
  then have "(n, d) \<in> set (map (\<lambda>(d, n). (n, d)) (enumerate 1 ns))"
    using map_of_SomeD by fastforce
  then have "(d, n) \<in> set (enumerate 1 ns)" by auto
  then have "d \<in> set (map fst (enumerate 1 ns))" by (metis fst_conv image_eqI set_map)
  then have "d \<le> length ns" by auto
  with d show ?thesis by (simp add: dm_of_name_def)
qed

definition request_groups ::
    "(pyval \<Rightarrow> 64 word res) \<Rightarrow> (pystr \<Rightarrow> nat option) \<Rightarrow> (field_desc \<times> pyval) list \<Rightarrow> group list" where
  "request_groups tf dm_ids ss =
     map (\<lambda>(f, v). group_of tf (case dm_ids (fd_name f) of None \<Rightarrow> 0 | Some d \<Rightarrow> d) f v) ss"

lemma request_arg_sends:
  assumes "(f, v) \<in> set (request_arg uc u f)" and "rfctype f = RFCTYPE_TABLE"
  shows "sends_rows uc u f"
  using assms by (auto simp: request_arg_def sends_rows_def split: option.splits if_splits)

lemma field_param_written:
  assumes "ok_name (fd_name f)" and "\<forall>(g, v) \<in> set (request_arg uc u f). param_fits g v"
    and "sends_rows uc u f \<Longrightarrow> \<exists>d. dm_ids (fd_name f) = Some d \<and> d < 2 ^ 32"
  shows "field_param uc tf u dm_ids f = Inr (tlv_records (concat
      (map (group_records TAG_TABLE_CONTENT) (request_groups tf dm_ids (request_arg uc u f)))))"
proof (cases "request_arg uc u f = []")
  case True
  then show ?thesis
    by (auto simp: request_arg_def field_param_def request_groups_def table_param_def
        split: if_splits option.splits)
next
  case False
  then obtain v where v: "request_arg uc u f = [(f, v)]" using request_arg_shape by fastforce
  then have pv: "param_fits f v" using assms(2) by simp
  have at: "direction f \<noteq> RFC_EXPORT" "map_of u (py_upper uc (fd_name f)) = Some v"
    using v by (auto simp: request_arg_def split: if_splits option.splits)
  show ?thesis
  proof (cases "rfctype f = RFCTYPE_TABLE")
    case True
    obtain d where d: "dm_ids (fd_name f) = Some d" "d < 2 ^ 32"
      using assms(3) request_arg_sends [OF _ True] v by auto
    have "py_truth v" using v True by (auto simp: request_arg_def split: if_splits option.splits)
    then have "table_param tf dm_ids f v
        = Inr (tlv_records (group_records TAG_TABLE_CONTENT (group_of tf d f v)))"
      using assms(1) pv True d by (intro table_param_written)
    then show ?thesis
      using at True by (simp add: field_param_def v request_groups_def d(1))
  next
    case nt: False
    show ?thesis
      using at nt scalar_param_written [OF assms(1) pv nt]
      by (simp add: field_param_def v request_groups_def)
  qed
qed

text \<open>The records before the parameters.\<close>

definition request_head :: "bytes \<Rightarrow> pystr \<Rightarrow> func_desc \<Rightarrow> (nat \<times> bytes) list" where
  "request_head vb fn desc =
     [(TAG_CALL_START, []), (TAG_RFC_VERSION, vb), (TAG_FUNC_NAME, name_bytes fn), (TAG_PARAM_SECTION, [])]
     @ map (\<lambda>f. (TAG_EXPORT_DECL, name_bytes (fd_name f)))
         (filter (\<lambda>f. direction f \<in> {RFC_EXPORT, RFC_CHANGING, RFC_TABLES}) (parameters desc))"

lemma request_head_ok:
  assumes "good_desc uc desc" and "ok_name fn" and "length vb < 2 ^ 32"
  shows "\<forall>r \<in> set (request_head vb fn desc). ok_record r \<and> ignored r"
  using assms
  by (auto simp: request_head_def ok_record_def ignored_def request_tag_defs response_tag_defs
      ok_name_def good_desc_def list_all_iff)

lemma join_map_records:
  assumes "\<forall>f \<in> set fs. p f = Inr (tlv_records (q f))"
  shows "join_records (map p fs) = Inr (tlv_records (concat (map q fs)))"
  using assms
  by (induction fs) (auto simp: tlv_records_append intro!: join_records_Cons)

definition request_stream ::
    "(nat \<Rightarrow> pystr) \<Rightarrow> (pyval \<Rightarrow> 64 word res) \<Rightarrow> bytes \<Rightarrow> pystr \<Rightarrow> func_desc \<Rightarrow> params
     \<Rightarrow> (nat \<times> bytes) list" where
  "request_stream uc tf vb fn desc ps =
     request_head vb fn desc
     @ concat (map (group_records TAG_TABLE_CONTENT)
         (request_groups tf (dm_of_name (dm_table_ids uc desc ps)) (request_args uc desc ps)))"

lemma concat_map_concat: "concat (map f (concat (map g xs))) = concat (map (\<lambda>x. concat (map f (g x))) xs)"
  by (induction xs) auto

lemma request_groups_concat:
  "request_groups tf d (concat (map h xs)) = concat (map (\<lambda>x. request_groups tf d (h x)) xs)"
  by (induction xs) (auto simp: request_groups_def)

lemma dm_table_id:
  assumes "length (parameters desc) < 2 ^ 32" and "f \<in> set (parameters desc)"
    and "sends_rows uc (params_upper uc ps) f"
  shows "\<exists>d. dm_of_name (dm_table_ids uc desc ps) (fd_name f) = Some d \<and> d < 2 ^ 32"
proof -
  let ?ns = "map fd_name (filter (sends_rows uc (params_upper uc ps)) (parameters desc))"
  have "fd_name f \<in> set ?ns" using assms(2,3) by auto
  from dm_of_name_bound [OF this] obtain d
    where d: "dm_of_name (enumerate 1 ?ns) (fd_name f) = Some d" "d \<le> length ?ns" by blast
  have "length ?ns \<le> length (parameters desc)" by simp
  with d(2) assms(1) have "d < 2 ^ 32" by linarith
  with d(1) show ?thesis unfolding dm_table_ids_def by blast
qed

lemma build_invoke_request_written:
  assumes desc: "good_desc uc desc" and fn: "ok_name fn"
    and vb: "version_bytes version = Inr vb" "length vb < 2 ^ 32"
    and known: "unknown_parameters uc desc ps = []"
    and fit: "\<forall>(f, v) \<in> set (request_args uc desc ps). param_fits f v"
  shows "build_invoke_request uc tf fn desc ps version
    = Inr (tlv_records (request_stream uc tf vb fn desc ps) @ tlv_end @ [0, 0] @ [0xFF, 0xFF])"
proof -
  let ?u = "params_upper uc ps" and ?d = "dm_of_name (dm_table_ids uc desc ps)"
  let ?h4 = "[(TAG_CALL_START, []), (TAG_RFC_VERSION, vb), (TAG_FUNC_NAME, name_bytes fn), (TAG_PARAM_SECTION, [])]"
  let ?ex = "map (\<lambda>f. (TAG_EXPORT_DECL, name_bytes (fd_name f)))
         (filter (\<lambda>f. direction f \<in> {RFC_EXPORT, RFC_CHANGING, RFC_TABLES}) (parameters desc))"
  have ok: "\<forall>r \<in> set ?h4. ok_record r" "\<forall>r \<in> set ?ex. ok_record r"
    using request_head_ok [OF desc fn vb(2)] by (auto simp: request_head_def)
  have "join_records (map (\<lambda>(t, v). tlv_record t v) ?h4) = Inr (tlv_records ?h4)"
    by (rule join_ok_records [OF ok(1)])
  then have head: "join_records [bind_res (version_bytes version) (\<lambda>vb. join_records
      [tlv_record TAG_CALL_START [], tlv_record TAG_RFC_VERSION vb, text_record TAG_FUNC_NAME fn,
       tlv_record TAG_PARAM_SECTION []])] = Inr (tlv_records ?h4)"
    using fn join_records_Cons [OF _ join_records_Nil] by (simp add: vb(1) ok_name_def text_record_name)
  have "export_decls desc = map (\<lambda>(t, v). tlv_record t v) ?ex"
    using desc by (auto simp: export_decls_def good_desc_def list_all_iff ok_name_def text_record_name)
  then have decl: "join_records (export_decls desc) = Inr (tlv_records ?ex)"
    using join_ok_records [OF ok(2)] by simp
  have "field_param uc tf ?u ?d f = Inr (tlv_records (concat
      (map (group_records TAG_TABLE_CONTENT) (request_groups tf ?d (request_arg uc ?u f)))))"
    if "f \<in> set (parameters desc)" for f
    using that desc fit dm_table_id [of desc f uc ps]
    by (intro field_param_written) (auto simp: good_desc_def list_all_iff request_args_def)
  then have params: "join_records (map (field_param uc tf ?u ?d) (parameters desc))
      = Inr (tlv_records (concat (map (group_records TAG_TABLE_CONTENT)
          (request_groups tf ?d (request_args uc desc ps)))))"
    using join_map_records [of "parameters desc" "field_param uc tf ?u ?d"]
    by (simp add: request_args_def request_groups_concat concat_map_concat)
  have "be_bytes 2 0xFFFF = [0xFF, 0xFF]" "be_bytes 2 0 = [0, 0]"
    by (simp_all only: be_bytes_def numeral_2_eq_2) simp_all
  then have end_rec: "join_records [tlv_record TAG_TERMINATOR []] = Inr (tlv_end @ [0, 0] @ [0xFF, 0xFF])"
    using join_records_Cons [OF _ join_records_Nil]
    by (simp add: tlv_record_def TAG_TERMINATOR_def tlv_record_body_def)
  have unk: "join_records [if unknown_parameters uc desc ps \<noteq> [] then Inl ValueError else Inr []] = Inr []"
    using join_records_Cons [OF _ join_records_Nil, of "Inr []"] by (simp add: known)
  show ?thesis
    unfolding build_invoke_request_def
    using join_records_append [OF head join_records_append [OF decl
      join_records_append [OF unk join_records_append [OF params end_rec]]]]
    by (simp add: request_stream_def request_head_def tlv_records_append del: append.simps)
qed

lemma request_args_subset:
  assumes "(f, v) \<in> set (request_args uc desc ps)"
  shows "f \<in> set (parameters desc)"
  using assms by (auto simp: request_args_def request_arg_def split: if_splits option.splits)

lemma args_distinct:
  assumes "good_desc uc desc" and "map fst ss = filter P (parameters desc)"
    and "\<forall>(f, v) \<in> set ss. param_fits f v"
  shows "args_ok uc ss"
proof -
  have d: "distinct (map (\<lambda>f. py_upper uc (fd_name f)) (map fst ss))"
    using assms(1,2) by (simp add: good_desc_def distinct_map_filter)
  have "f \<in> set (parameters desc)" if "(f, v) \<in> set ss" for f v
  proof -
    have "f \<in> set (map fst ss)" using that by force
    then show ?thesis using assms(2) by simp
  qed
  then show ?thesis
    using d assms(1,3) unfolding args_ok_def good_desc_def
    by (auto simp: list_all_iff case_prod_unfold comp_def)
qed

lemma tags_of_head:
  assumes "t \<notin> fst ` set gs"
  shows "map_of (rev (hs @ gs)) t = map_of (rev hs) t"
proof -
  have "map_of (rev gs) t = None" using assms by (simp add: map_of_eq_None_iff)
  then show ?thesis by (simp add: map_add_def)
qed

lemma group_tags:
  assumes "t \<notin> {rt, TAG_PARAM_NAME, TAG_PARAM_VALUE, TAG_TABLE_NAME, TAG_DM_TABLE_ID, TAG_TABLE_INFO}"
  shows "t \<notin> fst ` set (concat (map (group_records rt) gs))"
proof -
  have "t \<notin> fst ` set (group_records rt g)" for g using assms by (cases g) auto
  then show ?thesis by auto
qed

lemma last_of_head:
  assumes "t \<notin> fst ` set ys"
  shows "map_of (rev (xs @ (t, v) # ys)) t = Some v"
proof -
  have "map_of (rev ys) t = None" using assms by (simp add: map_of_eq_None_iff)
  then show ?thesis by (simp add: map_add_def)
qed

text \<open>The request as the server reads it.\<close>

lemma request_read:
  assumes desc: "good_desc uc desc" and fn: "ok_name fn"
    and vb: "version_bytes version = Inr vb" "length vb < 2 ^ 32"
    and fit: "\<forall>(f, v) \<in> set (request_args uc desc ps). param_fits f v"
    and frame_def: "frame = tlv_records (request_stream uc tf vb fn desc ps) @ tlv_end @ [0, 0] @ rest"
  shows "read_func_name frame = Inr fn"
    and "deserialize_request uc sapdec frame (Some desc) = Inr (named_values (request_args uc desc ps))"
proof -
  let ?ss = "request_args uc desc ps"
  let ?gs = "request_groups tf (dm_of_name (dm_table_ids uc desc ps)) ?ss"
  let ?head = "request_head vb fn desc"
  let ?recs = "concat (map (group_records TAG_TABLE_CONTENT) ?gs)"
  have args: "args_ok uc ?ss"
    using args_distinct [OF desc _ fit] request_fields by (auto simp: request_args_def)
  have names: "distinct (map (\<lambda>(f, v). fd_name f) ?ss)" by (rule args_names [OF args])
  have each: "\<exists>d f v. g = group_of tf d f v \<and> ok_name (fd_name f) \<and> param_fits f v"
    if g_in: "g \<in> set ?gs" for g
  proof -
    obtain f v where "(f, v) \<in> set ?ss"
        and "g = group_of tf (case dm_of_name (dm_table_ids uc desc ps) (fd_name f) of None \<Rightarrow> 0 | Some d \<Rightarrow> d) f v"
      using g_in by (auto simp: request_groups_def)
    with args show ?thesis unfolding args_ok_def list_all_iff by blast
  qed
  have good: "\<forall>g \<in> set ?gs. good_group g" using each good_group_of by blast
  have lt: "TAG_TABLE_CONTENT < 0xFFFF" by (simp add: TAG_TABLE_CONTENT_def)
  have ok: "\<forall>g \<in> set ?gs. \<forall>r \<in> set (group_records TAG_TABLE_CONTENT g). ok_record r"
    using each group_records_ok [OF _ _ lt] by metis
  have head: "\<forall>r \<in> set ?head. ignored r \<and> ok_record r"
    using request_head_ok [OF desc fn vb(2)] by blast
  have frame: "frame = tlv_records (?head @ ?recs) @ tlv_end @ 0 # 0 # rest"
    by (simp add: frame_def request_stream_def del: append.simps)
  have all: "\<forall>r \<in> set (?head @ ?recs). ok_record r" using head ok by auto
  have tags: "parse_tlv_stream frame = Inr (map_of (rev (?head @ ?recs)))"
    unfolding frame by (rule parse_tlv_stream_written [OF all])
  have none: "t \<notin> fst ` set ?recs" if "t \<in> {TAG_FUNC_NAME, TAG_5001}" for t
    using that by (intro group_tags) (auto simp: request_tag_defs TAG_5001_def)
  let ?ys = "(TAG_PARAM_SECTION, []) # map (\<lambda>f. (TAG_EXPORT_DECL, name_bytes (fd_name f)))
      (filter (\<lambda>f. direction f \<in> {RFC_EXPORT, RFC_CHANGING, RFC_TABLES}) (parameters desc))"
  have ys: "TAG_FUNC_NAME \<notin> fst ` set ?ys" by (auto simp: request_tag_defs)
  have "?head = [(TAG_CALL_START, []), (TAG_RFC_VERSION, vb)] @ (TAG_FUNC_NAME, name_bytes fn) # ?ys"
    by (simp add: request_head_def)
  then have "map_of (rev ?head) TAG_FUNC_NAME = Some (name_bytes fn)"
    by (simp only: last_of_head [OF ys])
  then show "read_func_name frame = Inr fn"
    using tags_of_head [OF none [of TAG_FUNC_NAME], of ?head] decode_name_bytes(1) fn
    by (simp add: read_func_name_def tags ok_name_def)
  have no5001: "map_of (rev (?head @ ?recs)) TAG_5001 = None"
    using tags_of_head [OF none [of TAG_5001], of ?head]
    by (auto simp: request_head_def request_tag_defs TAG_5001_def map_of_eq_None_iff)
  have x: "extract_name_value_pairs sapdec no_dm frame
      = Inr \<lparr>pairs = map group_pair ?gs, basxml = [], row_counts = fold add_count ?gs []\<rparr>"
    unfolding frame by (rule pairs_of_groups [OF head good ok]) simp
  have pairs: "map group_pair ?gs = arg_pairs tf ?ss"
    using fit by (auto simp: request_groups_def arg_pairs_def group_pair_of)
  have fld: "name_to_field uc desc (py_upper uc (fd_name f)) = Some f" if "(f, v) \<in> set ?ss" for f v
    unfolding name_to_field_def
    using desc request_args_subset [OF that]
    by (intro map_of_upper [where k = "\<lambda>f. py_upper uc (fd_name f)"]) (auto simp: good_desc_def)
  have *: "request_values (name_to_field uc desc) uc (arg_pairs tf ?ss) [] = Inr ([] @ named_values ?ss)"
    using fit fld names by (intro request_values_args) (auto simp: list_all_iff)
  show "deserialize_request uc sapdec frame (Some desc) = Inr (named_values ?ss)"
  proof -
    obtain m where "parse_tlv_stream frame = Inr m" and "m TAG_5001 = None" using tags no5001 by blast
    then show ?thesis using * by (simp add: deserialize_request_def x pairs)
  qed
qed

section \<open>A response read by the client\<close>

text \<open>Tables are numbered as they are written; scalars take no number.\<close>

fun result_groups ::
    "(pyval \<Rightarrow> 64 word res) \<Rightarrow> nat \<Rightarrow> (field_desc \<times> pyval) list \<Rightarrow> group list" where
  "result_groups tf dm [] = []"
| "result_groups tf dm ((f, v) # ss) =
     (if rfctype f = RFCTYPE_TABLE then group_of tf (dm + 1) f v # result_groups tf (dm + 1) ss
      else group_of tf dm f v # result_groups tf dm ss)"

lemma result_groups_each:
  "g \<in> set (result_groups tf dm ss) \<Longrightarrow> \<exists>d f v. (f, v) \<in> set ss \<and> g = group_of tf d f v"
  by (induction tf dm ss rule: result_groups.induct) (auto split: if_splits)

lemma result_groups_pairs:
  "\<forall>(f, v) \<in> set ss. param_fits f v \<Longrightarrow> map group_pair (result_groups tf dm ss) = arg_pairs tf ss"
  by (induction tf dm ss rule: result_groups.induct) (auto simp: group_pair_of arg_pairs_def)

lemma result_groups_names: "map g_name (result_groups tf dm ss) = map (\<lambda>(f, v). fd_name f) ss"
  by (induction tf dm ss rule: result_groups.induct) auto

lemma result_groups_of:
  "(f, v) \<in> set ss \<Longrightarrow> \<exists>d. group_of tf d f v \<in> set (result_groups tf dm ss)"
  by (induction tf dm ss rule: result_groups.induct) auto

lemma output_records_written:
  assumes "\<forall>f \<in> set fs. ok_name (fd_name f)"
    and "\<forall>(g, v) \<in> set (concat (map (result_arg uc u) fs)). param_fits g v"
    and "dm + length fs < 2 ^ 32"
  shows "join_records (output_records uc tf u fs dm) = Inr (tlv_records (concat
    (map (group_records TAG_TABLE_CONTENT_ALT) (result_groups tf dm (concat (map (result_arg uc u) fs))))))"
  using assms
proof (induction fs arbitrary: dm)
  case (Cons f fs)
  show ?case
  proof (cases "result_arg uc u f = []")
    case True
    then have "output_records uc tf u (f # fs) dm = output_records uc tf u fs dm"
      by (auto simp: result_arg_def split: if_splits option.splits)
    with Cons True show ?thesis by simp
  next
    case False
    then obtain v where v: "result_arg uc u f = [(f, v)]" using result_arg_shape by fastforce
    then have pv: "param_fits f v" using Cons.prems(2) by simp
    have at: "direction f \<in> {RFC_EXPORT, RFC_CHANGING, RFC_TABLES}"
        "map_of u (py_upper uc (fd_name f)) = Some v"
      using v by (auto simp: result_arg_def split: if_splits option.splits)
    have nm: "ok_name (fd_name f)" using Cons.prems(1) by simp
    show ?thesis
    proof (cases "rfctype f = RFCTYPE_TABLE")
      case True
      have "build_table_records tf f v (dm + 1)
          = Inr (tlv_records (group_records TAG_TABLE_CONTENT_ALT (group_of tf (dm + 1) f v)))"
        using Cons.prems(3) by (intro build_table_records_written [OF nm pv True]) simp
      from join_records_Cons [OF this Cons.IH [of "dm + 1"]] show ?thesis
        using Cons.prems at True by (simp add: v tlv_records_append)
    next
      case nt: False
      from join_records_Cons [OF scalar_param_written [OF nm pv nt] Cons.IH [of dm]] show ?thesis
        using Cons.prems at nt by (simp add: v tlv_records_append)
    qed
  qed
qed simp

definition result_head :: "(nat \<times> bytes) list" where
  "result_head = [(TAG_RESPONSE_START, []), (TAG_RETURN_CODE, be_bytes 4 RC_OK)]"

definition result_stream ::
    "(nat \<Rightarrow> pystr) \<Rightarrow> (pyval \<Rightarrow> 64 word res) \<Rightarrow> func_desc \<Rightarrow> params \<Rightarrow> (nat \<times> bytes) list" where
  "result_stream uc tf desc ps =
     result_head @ concat (map (group_records TAG_TABLE_CONTENT_ALT)
       (result_groups tf 0 (result_args uc desc ps)))"

lemma terminator_record: "tlv_record TAG_TERMINATOR [] = Inr (tlv_end @ [0, 0] @ [0xFF, 0xFF])"
proof -
  have "be_bytes 2 0xFFFF = [0xFF, 0xFF]" "be_bytes 2 0 = [0, 0]"
    by (simp_all only: be_bytes_def numeral_2_eq_2) simp_all
  then show ?thesis by (simp add: tlv_record_def TAG_TERMINATOR_def tlv_record_body_def)
qed

lemma status_response_written:
  assumes "join_records parts = Inr (tlv_records rs)"
  shows "status_response rc parts = Inr (tlv_records
    ([(TAG_RESPONSE_START, []), (TAG_RETURN_CODE, be_bytes 4 rc)] @ rs) @ tlv_end @ [0, 0] @ [0xFF, 0xFF])"
proof -
  have ok: "ok_record (TAG_RESPONSE_START, [])" "ok_record (TAG_RETURN_CODE, be_bytes 4 rc)"
    by (simp_all add: ok_record_def TAG_RESPONSE_START_def TAG_RETURN_CODE_def)
  have "join_records [tlv_record TAG_TERMINATOR []] = Inr (tlv_end @ [0, 0] @ [0xFF, 0xFF])"
    using join_records_Cons [OF terminator_record join_records_Nil] by simp
  from join_records_Cons [OF ok_tlv_record [OF ok(1)] join_records_Cons [OF ok_tlv_record [OF ok(2)]
      join_records_append [OF assms this]]]
  show ?thesis by (simp add: status_response_def tlv_records_Cons)
qed

lemma response_tags:
  fixes rs :: "(nat \<times> bytes) list"
  assumes "TAG_RETURN_CODE \<notin> fst ` set rs" and "TAG_EXCEPTION_NUMBER \<notin> fst ` set rs"
  shows "map_of (rev (result_head @ rs)) TAG_RETURN_CODE = Some [0, 0, 0, 0]"
    and "map_of (rev (result_head @ rs)) TAG_EXCEPTION_NUMBER = None"
proof -
  have "be_bytes 4 RC_OK = [0, 0, 0, 0]" unfolding RC_OK_def by code_simp
  then show "map_of (rev (result_head @ rs)) TAG_RETURN_CODE = Some [0, 0, 0, 0]"
    using tags_of_head [OF assms(1), of result_head]
    by (simp only: result_head_def) (simp add: TAG_RETURN_CODE_def TAG_RESPONSE_START_def)
  show "map_of (rev (result_head @ rs)) TAG_EXCEPTION_NUMBER = None"
    using tags_of_head [OF assms(2), of result_head]
    by (simp only: result_head_def)
      (simp add: TAG_RETURN_CODE_def TAG_RESPONSE_START_def TAG_EXCEPTION_NUMBER_def)
qed

lemma starts_head: "tlv_records (result_head @ rs) @ rest =
    [5, 0, 0, 0, 5, 0] @ tlv_record_body TAG_RETURN_CODE (be_bytes 4 RC_OK) @ tlv_records rs @ rest"
proof -
  have "be_bytes 2 0x500 = [5, 0]" "be_bytes 2 0 = [0, 0]"
    by (simp_all only: be_bytes_def numeral_2_eq_2) simp_all
  then have "tlv_record_body TAG_RESPONSE_START [] = [5, 0, 0, 0, 5, 0]"
    by (simp add: tlv_record_body_def TAG_RESPONSE_START_def)
  then show ?thesis by (simp add: result_head_def tlv_records_Cons)
qed

lemma response_read:
  assumes desc: "good_desc uc desc" and fit: "\<forall>(f, v) \<in> set (result_args uc desc ps). param_fits f v"
    and frame_def: "frame = tlv_records (result_stream uc tf desc ps) @ tlv_end @ [0, 0] @ [0xFF, 0xFF]"
  shows "parse_invoke_response uc u8 sapdec bx frame desc dm_names
    = Inr (named_values (result_args uc desc ps))"
proof -
  let ?ss = "result_args uc desc ps"
  let ?gs = "result_groups tf 0 ?ss"
  let ?recs = "concat (map (group_records TAG_TABLE_CONTENT_ALT) ?gs)"
  have args: "args_ok uc ?ss"
    using args_distinct [OF desc _ fit] result_fields by (auto simp: result_args_def)
  have names: "distinct (map (\<lambda>(f, v). fd_name f) ?ss)" by (rule args_names [OF args])
  have each: "\<exists>d f v. g = group_of tf d f v \<and> ok_name (fd_name f) \<and> param_fits f v"
    if "g \<in> set ?gs" for g
    using result_groups_each [OF that] args unfolding args_ok_def list_all_iff by blast
  have good: "\<forall>g \<in> set ?gs. good_group g" using each good_group_of by blast
  have lt: "TAG_TABLE_CONTENT_ALT < 0xFFFF" by (simp add: TAG_TABLE_CONTENT_ALT_def)
  have ok: "\<forall>g \<in> set ?gs. \<forall>r \<in> set (group_records TAG_TABLE_CONTENT_ALT g). ok_record r"
    using each group_records_ok [OF _ _ lt] by metis
  have head: "\<forall>r \<in> set result_head. ignored r \<and> ok_record r"
    by (auto simp: result_head_def ignored_def ok_record_def response_tag_defs request_tag_defs
        TAG_RETURN_CODE_def)
  have frame: "frame = tlv_records (result_head @ ?recs) @ tlv_end @ 0 # 0 # [0xFF, 0xFF]"
    by (simp add: frame_def result_stream_def del: append.simps)
  have all: "\<forall>r \<in> set (result_head @ ?recs). ok_record r" using head ok by auto
  have none: "t \<notin> fst ` set ?recs" if "t \<in> {TAG_RETURN_CODE, TAG_EXCEPTION_NUMBER}" for t
    using that by (intro group_tags)
      (auto simp: request_tag_defs response_tag_defs TAG_RETURN_CODE_def TAG_EXCEPTION_NUMBER_def)
  obtain m where m: "parse_tlv_stream frame = Inr m" "m TAG_RETURN_CODE = Some [0, 0, 0, 0]"
      "m TAG_EXCEPTION_NUMBER = None"
    using parse_tlv_stream_written [OF all, of 0 0 "[0xFF, 0xFF]", folded frame]
      response_tags [OF none none] by blast
  have gw: "parse_gateway_error u8 frame = None"
    unfolding frame starts_head
    by (simp add: parse_gateway_error_def GATEWAY_ERROR_MARKER_def starts_with_def)
  have raise: "raise_for_rfc_error u8 frame (Some m) = Inr ()"
    using m(2,3) raise_for_tags_cases [of m] by (simp add: raise_for_rfc_error_def gw)
  have x: "extract_name_value_pairs sapdec dm_names frame
      = Inr \<lparr>pairs = map group_pair ?gs, basxml = [], row_counts = fold add_count ?gs []\<rparr>"
    unfolding frame by (rule pairs_of_groups [OF head good ok]) simp
  have pairs: "map group_pair ?gs = arg_pairs tf ?ss" by (rule result_groups_pairs [OF fit])
  have comes: "param_map uc desc (py_upper uc (fd_name f)) = Some f \<and>
      decode (rfctype f) (value_bytes tf f v) f (map_of (fold add_count ?gs []) (fd_name f)) = Inr v"
    if fv: "(f, v) \<in> set ?ss" for f v
  proof
    have "f \<in> set (filter (\<lambda>f. direction f \<noteq> RFC_IMPORT) (parameters desc))"
      using fv by (auto simp: result_args_def result_arg_def RFC_IMPORT_def RFC_EXPORT_def
          RFC_CHANGING_def RFC_TABLES_def split: if_splits option.splits)
    then show "param_map uc desc (py_upper uc (fd_name f)) = Some f"
      unfolding param_map_def using desc
      by (intro map_of_upper [where k = "\<lambda>f. py_upper uc (fd_name f)"])
        (auto simp: good_desc_def distinct_map_filter)
    obtain d where d: "group_of tf d f v \<in> set ?gs" using result_groups_of [OF fv] by blast
    have "map_of (fold add_count ?gs []) (fd_name f) = group_count (group_of tf d f v)"
      using counts_of_groups [OF _ d, of "[]"] names by (simp add: result_groups_names)
    then show "decode (rfctype f) (value_bytes tf f v) f (map_of (fold add_count ?gs []) (fd_name f)) = Inr v"
      using group_decodes(2) fit fv by fastforce
  qed
  have "decode_pairs uc desc (map_of (fold add_count ?gs [])) (arg_pairs tf ?ss) []
      = Inr ([] @ named_values ?ss)"
    using comes names by (intro decode_pairs_args) (auto simp: list_all_iff)
  then show ?thesis
    using m(1,2) raise
    by (simp add: parse_invoke_response_def response_values_def x pairs)
qed

lemma build_response_written:
  assumes desc: "good_desc uc desc" and fit: "\<forall>(f, v) \<in> set (result_args uc desc ps). param_fits f v"
  shows "build_response uc tf (Some desc) ps
    = Inr (tlv_records (result_stream uc tf desc ps) @ tlv_end @ [0, 0] @ [0xFF, 0xFF])"
proof -
  have "join_records (output_records uc tf (params_upper uc ps) (parameters desc) 0)
      = Inr (tlv_records (concat (map (group_records TAG_TABLE_CONTENT_ALT)
          (result_groups tf 0 (result_args uc desc ps)))))"
    unfolding result_args_def
    using desc fit by (intro output_records_written) (auto simp: good_desc_def list_all_iff result_args_def)
  from status_response_written [OF this, of RC_OK] show ?thesis
    by (simp add: build_response_def result_stream_def result_head_def del: append.simps(2))
qed

section \<open>Properties\<close>

text \<open>A table of two rows, a scalar in each direction.\<close>

definition sample_row :: type_desc where
  "sample_row = TypeDesc (lit ''ROW'')
     [FieldDesc (lit ''N'') RFCTYPE_INT 4 0 4 0 0 True None RFC_IMPORT False None None,
      FieldDesc (lit ''B'') RFCTYPE_BYTE 2 4 2 4 0 True None RFC_IMPORT False None None] 6 6"

definition sample_desc :: func_desc where
  "sample_desc = \<lparr>fn_name = lit ''Z_SUM'', parameters =
     [FieldDesc (lit ''COUNT'') RFCTYPE_INT2 2 0 2 0 0 True None RFC_IMPORT False None None,
      FieldDesc (lit ''ITEMS'') RFCTYPE_TABLE 6 0 6 0 0 True (Some sample_row) RFC_TABLES False None None,
      FieldDesc (lit ''TOTAL'') RFCTYPE_INT 4 0 4 0 0 True None RFC_EXPORT False None None]\<rparr>"

definition sample_items :: pyval where
  "sample_items = VList
     [VDict [(lit ''N'', VInt 7), (lit ''B'', VBytes [1, 2])],
      VDict [(lit ''N'', VInt (- 1)), (lit ''B'', VBytes [255, 0])]]"

definition sample_call :: params where
  "sample_call = [(lit ''count'', VInt 2), (lit ''ITEMS'', sample_items)]"

definition sample_result :: params where
  "sample_result = [(lit ''ITEMS'', sample_items), (lit ''total'', VInt 6)]"

lemma int_fits:
  "INT_FORMATS t = Some k \<Longrightarrow> - (256 ^ k div 2) \<le> i \<Longrightarrow> i < 256 ^ k div 2 \<Longrightarrow> span_len f = k \<Longrightarrow>
    scalar_fits t f (VInt i)"
  using int_roundtrip [of t k i "\<lambda>v. Inl TypeError" f]
  by (auto simp: scalar_fits_def INT_FORMATS_def OUT_OF_SCOPE_def rfctype_defs split: if_splits)

lemma byte_fits: "length bs = span_len f \<Longrightarrow> scalar_fits RFCTYPE_BYTE f (VBytes bs)"
  by (auto simp: scalar_fits_def INT_FORMATS_def OUT_OF_SCOPE_def rfctype_defs encode_scalar_def
      decode_scalar_def)

lemma scalar_param_fits:
  assumes "scalar_fits (rfctype f) f v" and "rfctype f \<notin> {RFCTYPE_STRUCTURE, RFCTYPE_TABLE}"
    and "span_len f < 2 ^ 32"
  shows "param_fits f v"
  using assms by (auto simp: scalar_fits_def param_fits_def split: sum.splits)

lemma sample_table_fits: "param_fits (parameters sample_desc ! 1) sample_items"
  by (simp add: param_fits_def sample_desc_def sample_row_def sample_items_def fits.simps
      row_size_def field_span_def rfctype_defs int_fits [where k = 4, unfolded rfctype_defs]
      byte_fits [unfolded rfctype_defs] INT_FORMATS_def span_len_def)

lemma sample_scalars_fit: "param_fits (parameters sample_desc ! 0) (VInt 2)"
    "param_fits (parameters sample_desc ! 2) (VInt 6)"
  by (rule scalar_param_fits;
      simp add: sample_desc_def rfctype_defs span_len_def field_span_def
        int_fits [where k = 2, unfolded rfctype_defs] int_fits [where k = 4, unfolded rfctype_defs]
        INT_FORMATS_def)+

lemma ok_name_short:
  assumes "is_ascii n" and "n \<noteq> []" and "\<not> is_pad (last n)" and "length n < 1000"
  shows "ok_name n"
proof -
  have "utf16le_encode n = Some (concat (map (le_bytes 2) n))"
    using assms(1) by (simp add: utf16le_encode_def utf16_units_ascii)
  moreover have "length (concat (map (le_bytes 2) n)) = 2 * length n"
    by (induction n) simp_all
  moreover have "rstrip_by is_pad n = n"
    using assms(2,3) by (cases n rule: rev_cases) (simp_all add: rstrip_by_def)
  ultimately show ?thesis
    using assms(2,4) by (simp add: ok_name_def good_name_def name_bytes_def)
qed

lemma sample_good: "good_desc (\<lambda>c. [c]) sample_desc" "ok_name (lit ''Z_SUM'')"
  by (simp_all add: good_desc_def sample_desc_def py_upper_def upper_cp_def ok_name_short is_ascii_def
      is_pad_def)

lemma sample_args:
  "request_args (\<lambda>c. [c]) sample_desc sample_call =
    [(parameters sample_desc ! 0, VInt 2), (parameters sample_desc ! 1, sample_items)]"
  "result_args (\<lambda>c. [c]) sample_desc sample_result =
    [(parameters sample_desc ! 1, sample_items), (parameters sample_desc ! 2, VInt 6)]"
  by (simp_all add: request_args_def request_arg_def result_args_def result_arg_def sample_desc_def
      params_upper_def py_upper_def upper_cp_def rfctype_defs RFC_IMPORT_def RFC_EXPORT_def
      RFC_TABLES_def RFC_CHANGING_def sample_items_def sample_call_def sample_result_def)

lemma sample_known: "unknown_parameters (\<lambda>c. [c]) sample_desc sample_call = []"
  by (simp add: unknown_parameters_def known_names_def sample_desc_def sample_call_def py_upper_def
      upper_cp_def)

lemma sample_version: "version_bytes RFC_VERSION = Inr [0x37, 0, 0x35, 0, 0x34, 0]"
proof -
  have "le_bytes 2 n = [word_of_nat n, word_of_nat (n div 256)]" for n
    by (simp add: numeral_2_eq_2)
  then show ?thesis
    by (simp add: version_bytes_def RFC_VERSION_def ascii_decode_def utf16_def utf16le_encode_def
        is_surrogate_def)
qed

text \<open>C6. A call the client can build is a call the server reads back.  For every descriptor whose
  names can be told apart and every set of known parameters whose values fit their descriptors,
  the request is built, carries the function name, and deserializes to exactly the importing,
  changing and table values supplied (an empty table is not sent), in declaration order.\<close>

theorem request_roundtrip:
  assumes "good_desc uc desc" and "ok_name fn"
    and "version_bytes version = Inr vb" and "length vb < 2 ^ 32"
    and "unknown_parameters uc desc ps = []"
    and "\<forall>(f, v) \<in> set (request_args uc desc ps). param_fits f v"
  shows "\<exists>frame. build_invoke_request uc tf fn desc ps version = Inr frame \<and>
    read_func_name frame = Inr fn \<and>
    deserialize_request uc sapdec frame (Some desc) = Inr (named_values (request_args uc desc ps))"
  using build_invoke_request_written [OF assms] request_read [OF assms(1-4) assms(6) refl] by blast

theorem request_roundtrip_witness:
  "\<exists>frame. build_invoke_request (\<lambda>c. [c]) (\<lambda>v. Inl TypeError) (lit ''Z_SUM'') sample_desc sample_call
      RFC_VERSION = Inr frame \<and>
    deserialize_request (\<lambda>c. [c]) (\<lambda>s n. Inl DecompressError) frame (Some sample_desc)
      = Inr [(lit ''COUNT'', VInt 2), (lit ''ITEMS'', sample_items)]"
proof -
  have "\<forall>(f, v) \<in> set (request_args (\<lambda>c. [c]) sample_desc sample_call). param_fits f v"
    using sample_table_fits sample_scalars_fit(1) by (simp add: sample_args)
  from request_roundtrip [OF sample_good sample_version _ sample_known this,
      of "\<lambda>v. Inl TypeError" "\<lambda>s n. Inl DecompressError"]
  show ?thesis by (auto simp: sample_args(1)) (simp add: named_values_def sample_desc_def)
qed

text \<open>C7. What the server answers is what the caller gets.  For every descriptor whose names can be
  told apart and every result whose values fit, the server's response is built, is not taken for
  an error, and parses to exactly the exporting, changing and table values the handler returned,
  tables with and without rows included.\<close>

theorem response_roundtrip:
  assumes "good_desc uc desc" and "\<forall>(f, v) \<in> set (result_args uc desc ps). param_fits f v"
  shows "\<exists>frame. build_response uc tf (Some desc) ps = Inr frame \<and>
    parse_invoke_response uc u8 sapdec bx frame desc dm_names = Inr (named_values (result_args uc desc ps))"
  using build_response_written [OF assms] response_read [OF assms refl] by blast

theorem response_roundtrip_witness:
  "\<exists>frame. build_response (\<lambda>c. [c]) (\<lambda>v. Inl TypeError) (Some sample_desc) sample_result = Inr frame \<and>
    parse_invoke_response (\<lambda>c. [c]) latin1_decode (\<lambda>s n. Inl DecompressError) (\<lambda>x. Inl ValueError) frame
      sample_desc (\<lambda>i. None) = Inr [(lit ''ITEMS'', sample_items), (lit ''TOTAL'', VInt 6)]"
proof -
  have "\<forall>(f, v) \<in> set (result_args (\<lambda>c. [c]) sample_desc sample_result). param_fits f v"
    using sample_table_fits sample_scalars_fit(2) by (simp add: sample_args)
  from response_roundtrip [OF sample_good(1) this, of "\<lambda>v. Inl TypeError" latin1_decode
      "\<lambda>s n. Inl DecompressError" "\<lambda>x. Inl ValueError" "\<lambda>i. None"]
  show ?thesis by (auto simp: sample_args(2)) (simp add: named_values_def sample_desc_def)
qed

end
