(* ===== verification/Tx_Stores.thy ===== *)
theory Tx_Stores
  imports Rfc_Exceptions "HOL-Library.AList"
begin

text \<open>
  The durable stores of transactional RFC, \<^verbatim>\<open>src/saprfclib/stores.py\<close>: the unit states, the
  in-memory TID and unit stores (two Python dictionaries, kept as association lists in insertion
  order) and their SQLite counterparts (one table with a state, a nullable payload and a time
  stamp, behind a connection that can be closed and a schema version).

  The structural protocols \<^verbatim>\<open>TidStore\<close> and \<^verbatim>\<open>UnitStore\<close> are locales: they give what a client
  may rely on in terms of two abstractions of a store, the set of executed transaction ids and
  the map of parked payloads.  Both implementations are interpretations.  What the two
  implementations disagree on (whether \<^verbatim>\<open>confirm\<close> drops the parked payload, and whether parking
  creates a unit) is left open by the contracts and shown by two lemmas.

  The lock of a store makes each operation atomic, so an operation is one state transition.  An
  SQLite statement on a closed connection or a missing table raises
  \<^verbatim>\<open>sqlite3.Error\<close>, here \<open>OtherException\<close>; the time stamp is an argument.
\<close>

section \<open>Unit states\<close>

datatype UnitState = NOT_FOUND | IN_PROCESS | COMMITTED | ROLLED_BACK | CONFIRMED

fun unit_state_value :: "UnitState \<Rightarrow> pystr" where
  "unit_state_value NOT_FOUND = lit ''NOT_FOUND''"
| "unit_state_value IN_PROCESS = lit ''IN_PROCESS''"
| "unit_state_value COMMITTED = lit ''COMMITTED''"
| "unit_state_value ROLLED_BACK = lit ''ROLLED_BACK''"
| "unit_state_value CONFIRMED = lit ''CONFIRMED''"

definition unit_state_of_value :: "pystr \<Rightarrow> UnitState res" where
  "unit_state_of_value v =
     (case filter (\<lambda>u. unit_state_value u = v)
             [NOT_FOUND, IN_PROCESS, COMMITTED, ROLLED_BACK, CONFIRMED] of
        [] \<Rightarrow> Inl ValueError | u # us \<Rightarrow> Inr u)"

lemma unit_state_of_value [simp]: "unit_state_of_value (unit_state_value u) = Inr u"
  by (cases u) (simp_all add: unit_state_of_value_def)

lemma unit_state_value_inject: "unit_state_value u = unit_state_value v \<longleftrightarrow> u = v"
  by (metis Inr_inject unit_state_of_value)

text \<open>The key of a unit is the pair of its id and its type.\<close>

type_synonym unit_key = "pystr \<times> pystr"

definition TID_RECEIVED :: pystr where "TID_RECEIVED = lit ''received''"
definition TID_EXECUTED :: pystr where "TID_EXECUTED = lit ''executed''"
definition TID_ROLLED_BACK :: pystr where "TID_ROLLED_BACK = lit ''rolled_back''"

lemma tid_states_differ:
  "TID_RECEIVED \<noteq> TID_EXECUTED" "TID_ROLLED_BACK \<noteq> TID_EXECUTED"
  by (simp_all add: TID_RECEIVED_def TID_EXECUTED_def TID_ROLLED_BACK_def)

section \<open>The in-memory stores\<close>

record ('k, 'v) mem_store =
  store :: "('k \<times> 'v) list"
  parked :: "('k \<times> bytes) list"

type_synonym mem_tid_store = "(pystr, pystr) mem_store"
type_synonym mem_unit_store = "(unit_key, UnitState) mem_store"

definition mem_new :: "('k, 'v) mem_store" where
  "mem_new = \<lparr>store = [], parked = []\<rparr>"

definition mem_set :: "'k \<Rightarrow> 'v \<Rightarrow> (('k, 'v) mem_store, unit) act" where
  "mem_set k v s = (Inr (), s\<lparr>store := AList.update k v (store s)\<rparr>)"

definition mem_is_executed :: "mem_tid_store \<Rightarrow> pystr \<Rightarrow> bool res" where
  "mem_is_executed s tid = Inr (map_of (store s) tid = Some TID_EXECUTED)"

definition mem_mark_received :: "pystr \<Rightarrow> (mem_tid_store, unit) act" where
  "mem_mark_received tid = mem_set tid TID_RECEIVED"

definition mem_mark_executed :: "pystr \<Rightarrow> (mem_tid_store, unit) act" where
  "mem_mark_executed tid = mem_set tid TID_EXECUTED"

definition mem_mark_rolled_back :: "pystr \<Rightarrow> (mem_tid_store, unit) act" where
  "mem_mark_rolled_back tid = mem_set tid TID_ROLLED_BACK"

definition mem_confirm :: "pystr \<Rightarrow> (mem_tid_store, unit) act" where
  "mem_confirm tid s = (Inr (), s\<lparr>store := AList.delete tid (store s)\<rparr>)"

definition mem_get_unit_state :: "mem_unit_store \<Rightarrow> unit_key \<Rightarrow> UnitState res" where
  "mem_get_unit_state s k =
     Inr (case map_of (store s) k of None \<Rightarrow> NOT_FOUND | Some u \<Rightarrow> u)"

definition mem_persist :: "unit_key \<Rightarrow> (mem_unit_store, unit) act" where
  "mem_persist k = mem_set k IN_PROCESS"

definition mem_unit_confirm :: "unit_key \<Rightarrow> (mem_unit_store, unit) act" where
  "mem_unit_confirm k = mem_set k CONFIRMED"

text \<open>The park contract is the same code in both stores.\<close>

definition mem_park :: "'k \<Rightarrow> bytes \<Rightarrow> (('k, 'v) mem_store, unit) act" where
  "mem_park k payload s = (Inr (), s\<lparr>parked := AList.update k payload (parked s)\<rparr>)"

definition mem_get_parked :: "('k, 'v) mem_store \<Rightarrow> 'k \<Rightarrow> bytes option res" where
  "mem_get_parked s k = Inr (map_of (parked s) k)"

definition mem_list_parked :: "('k, 'v) mem_store \<Rightarrow> 'k list res" where
  "mem_list_parked s = Inr (map fst (parked s))"

definition mem_delete_parked :: "'k \<Rightarrow> (('k, 'v) mem_store, unit) act" where
  "mem_delete_parked k s = (Inr (), s\<lparr>parked := AList.delete k (parked s)\<rparr>)"

lemmas mem_defs =
  mem_set_def mem_is_executed_def mem_mark_received_def mem_mark_executed_def
  mem_mark_rolled_back_def mem_confirm_def mem_get_unit_state_def mem_persist_def
  mem_unit_confirm_def mem_park_def mem_get_parked_def mem_list_parked_def mem_delete_parked_def

section \<open>The SQLite stores\<close>

record sq_row =
  r_state :: pystr
  r_payload :: "bytes option"
  r_updated :: int

text \<open>A database file as the stores see it: whether the connection is open, the
  \<^verbatim>\<open>user_version\<close> pragma, and the table, if it exists, in row order.\<close>

record 'k sq_db =
  db_open :: bool
  user_version :: nat
  rows :: "('k \<times> sq_row) list option"

definition SCHEMA_VERSION :: nat where "SCHEMA_VERSION = 1"

definition sq_migrate :: "('k sq_db, unit) act" where
  "sq_migrate db =
     (if \<not> db_open db then (Inl OtherException, db)
      else if user_version db > SCHEMA_VERSION then (Inl RuntimeError, db)
      else if user_version db < SCHEMA_VERSION then
        (Inr (), db\<lparr>rows := Some (case rows db of None \<Rightarrow> [] | Some rs \<Rightarrow> rs),
                    user_version := SCHEMA_VERSION\<rparr>)
      else (Inr (), db))"

text \<open>The constructor: the connection that a failed migration leaves behind is closed.\<close>

definition sq_init :: "('k sq_db, unit) act" where
  "sq_init db0 =
     (case sq_migrate (db0\<lparr>db_open := True\<rparr>) of
        (Inl e, db) \<Rightarrow> (Inl e, db\<lparr>db_open := False\<rparr>)
      | (Inr u, db) \<Rightarrow> (Inr u, db))"

definition sq_close :: "('k sq_db, unit) act" where
  "sq_close db = (Inr (), db\<lparr>db_open := False\<rparr>)"

text \<open>Reading and writing the table.\<close>

definition sq_query :: "'k sq_db \<Rightarrow> (('k \<times> sq_row) list \<Rightarrow> 'a) \<Rightarrow> 'a res" where
  "sq_query db q =
     (if db_open db then case rows db of None \<Rightarrow> Inl OtherException | Some rs \<Rightarrow> Inr (q rs)
      else Inl OtherException)"

definition sq_write :: "(('k \<times> sq_row) list \<Rightarrow> ('k \<times> sq_row) list) \<Rightarrow> ('k sq_db, unit) act" where
  "sq_write f db =
     (case sq_query db f of Inl e \<Rightarrow> (Inl e, db) | Inr rs \<Rightarrow> (Inr (), db\<lparr>rows := Some rs\<rparr>))"

text \<open>\<^verbatim>\<open>INSERT ... ON CONFLICT(key) DO UPDATE SET ...\<close>\<close>

definition sq_upsert ::
    "'k \<Rightarrow> sq_row \<Rightarrow> (sq_row \<Rightarrow> sq_row) \<Rightarrow> ('k \<times> sq_row) list \<Rightarrow> ('k \<times> sq_row) list" where
  "sq_upsert k new upd rs =
     AList.update k (case map_of rs k of None \<Rightarrow> new | Some r \<Rightarrow> upd r) rs"

definition sq_set_state :: "'k \<Rightarrow> pystr \<Rightarrow> int \<Rightarrow> ('k sq_db, unit) act" where
  "sq_set_state k st now =
     sq_write (sq_upsert k \<lparr>r_state = st, r_payload = None, r_updated = now\<rparr>
       (\<lambda>r. r\<lparr>r_state := st, r_updated := now\<rparr>))"

definition sq_is_executed :: "pystr sq_db \<Rightarrow> pystr \<Rightarrow> bool res" where
  "sq_is_executed db tid =
     sq_query db (\<lambda>rs. case map_of rs tid of None \<Rightarrow> False | Some r \<Rightarrow> r_state r = TID_EXECUTED)"

definition sq_mark_received :: "int \<Rightarrow> pystr \<Rightarrow> (pystr sq_db, unit) act" where
  "sq_mark_received now tid = sq_set_state tid TID_RECEIVED now"

definition sq_mark_executed :: "int \<Rightarrow> pystr \<Rightarrow> (pystr sq_db, unit) act" where
  "sq_mark_executed now tid = sq_set_state tid TID_EXECUTED now"

definition sq_mark_rolled_back :: "int \<Rightarrow> pystr \<Rightarrow> (pystr sq_db, unit) act" where
  "sq_mark_rolled_back now tid = sq_set_state tid TID_ROLLED_BACK now"

definition sq_confirm :: "pystr \<Rightarrow> (pystr sq_db, unit) act" where
  "sq_confirm tid = sq_write (AList.delete tid)"

definition sq_get_unit_state :: "unit_key sq_db \<Rightarrow> unit_key \<Rightarrow> UnitState res" where
  "sq_get_unit_state db k =
     bind_res (sq_query db (\<lambda>rs. map_of rs k))
       (\<lambda>row. case row of None \<Rightarrow> Inr NOT_FOUND | Some r \<Rightarrow> unit_state_of_value (r_state r))"

definition sq_persist :: "int \<Rightarrow> unit_key \<Rightarrow> (unit_key sq_db, unit) act" where
  "sq_persist now k = sq_set_state k (unit_state_value IN_PROCESS) now"

definition sq_unit_confirm :: "int \<Rightarrow> unit_key \<Rightarrow> (unit_key sq_db, unit) act" where
  "sq_unit_confirm now k = sq_set_state k (unit_state_value CONFIRMED) now"

text \<open>Parking upserts the row with the given fresh state and leaves an existing state alone.\<close>

definition sq_park_as :: "pystr \<Rightarrow> int \<Rightarrow> 'k \<Rightarrow> bytes \<Rightarrow> ('k sq_db, unit) act" where
  "sq_park_as st now k payload =
     sq_write (sq_upsert k \<lparr>r_state = st, r_payload = Some payload, r_updated = now\<rparr>
       (\<lambda>r. r\<lparr>r_payload := Some payload, r_updated := now\<rparr>))"

definition sq_park :: "int \<Rightarrow> pystr \<Rightarrow> bytes \<Rightarrow> (pystr sq_db, unit) act" where
  "sq_park = sq_park_as TID_RECEIVED"

definition sq_unit_park :: "int \<Rightarrow> unit_key \<Rightarrow> bytes \<Rightarrow> (unit_key sq_db, unit) act" where
  "sq_unit_park = sq_park_as (unit_state_value IN_PROCESS)"

definition sq_get_parked :: "'k sq_db \<Rightarrow> 'k \<Rightarrow> bytes option res" where
  "sq_get_parked db k =
     sq_query db (\<lambda>rs. case map_of rs k of None \<Rightarrow> None | Some r \<Rightarrow> r_payload r)"

definition sq_list_parked :: "'k sq_db \<Rightarrow> 'k list res" where
  "sq_list_parked db = sq_query db (\<lambda>rs. map fst (filter (\<lambda>(k, r). r_payload r \<noteq> None) rs))"

definition sq_delete_parked :: "'k \<Rightarrow> ('k sq_db, unit) act" where
  "sq_delete_parked k =
     sq_write (\<lambda>rs. map (\<lambda>(k', r). (k', if k' = k then r\<lparr>r_payload := None\<rparr> else r)) rs)"

lemmas sq_state_defs =
  sq_mark_received_def sq_mark_executed_def sq_mark_rolled_back_def sq_persist_def
  sq_unit_confirm_def sq_set_state_def
lemmas sq_park_defs = sq_park_def sq_unit_park_def sq_park_as_def

text \<open>Opening: a newer schema is refused with the file as it was and the connection closed.\<close>

lemma sq_init_newer_refused:
  "user_version db > 1 \<Longrightarrow> sq_init db = (Inl RuntimeError, db\<lparr>db_open := False\<rparr>)"
  by (simp add: sq_init_def sq_migrate_def SCHEMA_VERSION_def)

lemma sq_init_keeps_rows:
  "sq_init db0 = (Inr (), db) \<Longrightarrow> rows db0 = Some rs \<Longrightarrow> rows db = Some rs \<and> db_open db"
  by (auto simp: sq_init_def sq_migrate_def split: if_splits prod.splits sum.splits)

section \<open>The contracts\<close>

text \<open>
  \<open>executed s\<close> is the set of transaction ids for which the store answers that they have been
  executed and \<open>parked_of s\<close> the payloads it holds.  \<open>confirm\<close> ends tracking of its id;
  whether its parked payload survives is left open.
\<close>

locale tid_store =
  fixes is_executed :: "'s \<Rightarrow> pystr \<Rightarrow> bool res"
    and mark_received :: "pystr \<Rightarrow> ('s, unit) act"
    and mark_executed :: "pystr \<Rightarrow> ('s, unit) act"
    and mark_rolled_back :: "pystr \<Rightarrow> ('s, unit) act"
    and confirm :: "pystr \<Rightarrow> ('s, unit) act"
    and park :: "pystr \<Rightarrow> bytes \<Rightarrow> ('s, unit) act"
    and get_parked :: "'s \<Rightarrow> pystr \<Rightarrow> bytes option res"
    and list_parked :: "'s \<Rightarrow> pystr list res"
    and delete_parked :: "pystr \<Rightarrow> ('s, unit) act"
    and inv :: "'s \<Rightarrow> bool"
    and executed :: "'s \<Rightarrow> pystr set"
    and parked_of :: "'s \<Rightarrow> pystr \<Rightarrow> bytes option"
  assumes is_executed: "inv s \<Longrightarrow> is_executed s t = Inr (t \<in> executed s)"
    and mark_received: "inv s \<Longrightarrow> \<exists>s'. mark_received t s = (Inr (), s') \<and> inv s' \<and>
          executed s' = executed s - {t} \<and> parked_of s' = parked_of s"
    and mark_executed: "inv s \<Longrightarrow> \<exists>s'. mark_executed t s = (Inr (), s') \<and> inv s' \<and>
          executed s' = insert t (executed s) \<and> parked_of s' = parked_of s"
    and mark_rolled_back: "inv s \<Longrightarrow> \<exists>s'. mark_rolled_back t s = (Inr (), s') \<and> inv s' \<and>
          executed s' = executed s - {t} \<and> parked_of s' = parked_of s"
    and confirm: "inv s \<Longrightarrow> \<exists>s'. confirm t s = (Inr (), s') \<and> inv s' \<and>
          executed s' = executed s - {t} \<and> (\<forall>u. u \<noteq> t \<longrightarrow> parked_of s' u = parked_of s u)"
    and park: "inv s \<Longrightarrow> \<exists>s'. park t p s = (Inr (), s') \<and> inv s' \<and>
          executed s' = executed s \<and> parked_of s' = (parked_of s)(t \<mapsto> p)"
    and delete_parked: "inv s \<Longrightarrow> \<exists>s'. delete_parked t s = (Inr (), s') \<and> inv s' \<and>
          executed s' = executed s \<and> parked_of s' = (parked_of s)(t := None)"
    and get_parked: "inv s \<Longrightarrow> get_parked s t = Inr (parked_of s t)"
    and list_parked: "inv s \<Longrightarrow>
          \<exists>ts. list_parked s = Inr ts \<and> set ts = dom (parked_of s) \<and> distinct ts"
begin

lemma park_then_get:
  assumes "inv s"
  shows "\<exists>s'. park t p s = (Inr (), s') \<and> get_parked s' u = Inr (if u = t then Some p else parked_of s u)"
  using park [OF assms, of t p] get_parked by fastforce

lemma duplicate_until_confirmed:
  assumes "inv s" and "u \<noteq> t"
  shows "\<exists>s1 s2 s3. mark_executed t s = (Inr (), s1) \<and> mark_received u s1 = (Inr (), s2) \<and>
    is_executed s2 t = Inr True \<and> confirm t s2 = (Inr (), s3) \<and> is_executed s3 t = Inr False"
proof -
  obtain s1 where s1: "mark_executed t s = (Inr (), s1)" "inv s1" "executed s1 = insert t (executed s)"
    using mark_executed [OF assms(1)] by blast
  obtain s2 where s2: "mark_received u s1 = (Inr (), s2)" "inv s2" "executed s2 = executed s1 - {u}"
    using mark_received [OF s1(2)] by blast
  obtain s3 where s3: "confirm t s2 = (Inr (), s3)" "inv s3" "executed s3 = executed s2 - {t}"
    using confirm [OF s2(2)] by blast
  from s1 s2 s3 assms(2) show ?thesis by (auto simp: is_executed)
qed

end

locale unit_store =
  fixes get_unit_state :: "'s \<Rightarrow> unit_key \<Rightarrow> UnitState res"
    and persist :: "unit_key \<Rightarrow> ('s, unit) act"
    and confirm :: "unit_key \<Rightarrow> ('s, unit) act"
    and park :: "unit_key \<Rightarrow> bytes \<Rightarrow> ('s, unit) act"
    and get_parked :: "'s \<Rightarrow> unit_key \<Rightarrow> bytes option res"
    and list_parked :: "'s \<Rightarrow> unit_key list res"
    and delete_parked :: "unit_key \<Rightarrow> ('s, unit) act"
    and inv :: "'s \<Rightarrow> bool"
    and ustate :: "'s \<Rightarrow> unit_key \<Rightarrow> UnitState"
    and parked_of :: "'s \<Rightarrow> unit_key \<Rightarrow> bytes option"
  assumes get_unit_state: "inv s \<Longrightarrow> get_unit_state s k = Inr (ustate s k)"
    and persist: "inv s \<Longrightarrow> \<exists>s'. persist k s = (Inr (), s') \<and> inv s' \<and>
          ustate s' = (ustate s)(k := IN_PROCESS) \<and> parked_of s' = parked_of s"
    and confirm: "inv s \<Longrightarrow> \<exists>s'. confirm k s = (Inr (), s') \<and> inv s' \<and>
          ustate s' = (ustate s)(k := CONFIRMED) \<and> parked_of s' = parked_of s"
    and park: "inv s \<Longrightarrow> \<exists>s'. park k p s = (Inr (), s') \<and> inv s' \<and>
          (\<forall>l. l \<noteq> k \<or> ustate s k \<noteq> NOT_FOUND \<longrightarrow> ustate s' l = ustate s l) \<and>
          parked_of s' = (parked_of s)(k \<mapsto> p)"
    and delete_parked: "inv s \<Longrightarrow> \<exists>s'. delete_parked k s = (Inr (), s') \<and> inv s' \<and>
          ustate s' = ustate s \<and> parked_of s' = (parked_of s)(k := None)"
    and get_parked: "inv s \<Longrightarrow> get_parked s k = Inr (parked_of s k)"
    and list_parked: "inv s \<Longrightarrow>
          \<exists>ks. list_parked s = Inr ks \<and> set ks = dom (parked_of s) \<and> distinct ks"
begin

text \<open>The type is part of the key: operations on one type leave the other alone.\<close>

lemma types_apart:
  assumes "inv s" and "ty \<noteq> ty'"
  shows "\<exists>s1. persist (i, ty) s = (Inr (), s1) \<and> get_unit_state s1 (i, ty') = Inr (ustate s (i, ty')) \<and>
    (\<exists>s2. confirm (i, ty) s1 = (Inr (), s2) \<and> get_unit_state s2 (i, ty') = Inr (ustate s (i, ty')) \<and>
      get_unit_state s2 (i, ty) = Inr CONFIRMED)"
proof -
  obtain s1 where s1: "persist (i, ty) s = (Inr (), s1)" "inv s1" "ustate s1 = (ustate s)((i, ty) := IN_PROCESS)"
    using persist [OF assms(1)] by blast
  obtain s2 where "confirm (i, ty) s1 = (Inr (), s2)" "inv s2" "ustate s2 = (ustate s1)((i, ty) := CONFIRMED)"
    using confirm [OF s1(2)] by blast
  with s1 assms(2) show ?thesis by (auto simp: get_unit_state)
qed

end

section \<open>The implementations meet the contracts\<close>

definition mem_inv :: "('k, 'v) mem_store \<Rightarrow> bool" where
  "mem_inv s \<longleftrightarrow> distinct (map fst (parked s)) \<and> distinct (map fst (store s))"

definition mem_executed :: "mem_tid_store \<Rightarrow> pystr set" where
  "mem_executed s = {t. map_of (store s) t = Some TID_EXECUTED}"

definition mem_ustate :: "mem_unit_store \<Rightarrow> unit_key \<Rightarrow> UnitState" where
  "mem_ustate s k = (case map_of (store s) k of None \<Rightarrow> NOT_FOUND | Some u \<Rightarrow> u)"

abbreviation mem_parked :: "('k, 'v) mem_store \<Rightarrow> 'k \<Rightarrow> bytes option" where
  "mem_parked s \<equiv> map_of (parked s)"

lemma mem_new_inv: "mem_inv mem_new"
  by (simp add: mem_inv_def mem_new_def)

lemma map_of_update: "map_of (AList.update k v al) = (map_of al)(k \<mapsto> v)"
  by (rule update_conv')

lemma map_of_delete: "map_of (AList.delete k al) = (map_of al)(k := None)"
  by (rule delete_conv')

interpretation mem_tid: tid_store mem_is_executed mem_mark_received mem_mark_executed
    mem_mark_rolled_back mem_confirm mem_park mem_get_parked mem_list_parked mem_delete_parked
    mem_inv mem_executed mem_parked
  by unfold_locales
    (auto simp: mem_defs mem_inv_def mem_executed_def map_of_update map_of_delete tid_states_differ
      distinct_update distinct_delete dom_map_of_conv_image_fst)

interpretation mem_unit: unit_store mem_get_unit_state mem_persist mem_unit_confirm mem_park
    mem_get_parked mem_list_parked mem_delete_parked mem_inv mem_ustate mem_parked
  by unfold_locales
    (auto simp: mem_defs mem_inv_def mem_ustate_def map_of_update map_of_delete fun_eq_iff
      distinct_update distinct_delete dom_map_of_conv_image_fst)

text \<open>An opened database with its table, keys unique, and, for units, states the code wrote.\<close>

definition sq_rows :: "'k sq_db \<Rightarrow> ('k \<times> sq_row) list" where
  "sq_rows db = (case rows db of None \<Rightarrow> [] | Some rs \<Rightarrow> rs)"

definition sq_inv :: "'k sq_db \<Rightarrow> bool" where
  "sq_inv db \<longleftrightarrow> db_open db \<and> rows db \<noteq> None \<and> distinct (map fst (sq_rows db))"

definition known_state :: "sq_row \<Rightarrow> bool" where
  "known_state r \<longleftrightarrow> r_state r \<in> range unit_state_value"

definition sq_unit_inv :: "unit_key sq_db \<Rightarrow> bool" where
  "sq_unit_inv db \<longleftrightarrow> sq_inv db \<and> (\<forall>k r. map_of (sq_rows db) k = Some r \<longrightarrow> known_state r)"

definition sq_executed :: "pystr sq_db \<Rightarrow> pystr set" where
  "sq_executed db = {t. \<exists>r. map_of (sq_rows db) t = Some r \<and> r_state r = TID_EXECUTED}"

definition sq_ustate :: "unit_key sq_db \<Rightarrow> unit_key \<Rightarrow> UnitState" where
  "sq_ustate db k =
     (case map_of (sq_rows db) k of None \<Rightarrow> NOT_FOUND
      | Some r \<Rightarrow> (case unit_state_of_value (r_state r) of Inl e \<Rightarrow> NOT_FOUND | Inr u \<Rightarrow> u))"

definition sq_parked :: "'k sq_db \<Rightarrow> 'k \<Rightarrow> bytes option" where
  "sq_parked db k = Option.bind (map_of (sq_rows db) k) r_payload"

lemma sq_query_ok: "sq_inv db \<Longrightarrow> sq_query db q = Inr (q (sq_rows db))"
  by (auto simp: sq_query_def sq_inv_def sq_rows_def)

text \<open>A statement is described by what it makes of the rows, read as a map.\<close>

lemma sq_write_ok:
  assumes "sq_inv db" and "\<And>rs. distinct (map fst rs) \<Longrightarrow> distinct (map fst (f rs))"
  shows "\<exists>db'. sq_write f db = (Inr (), db') \<and> sq_inv db' \<and> sq_rows db' = f (sq_rows db)"
  using assms by (auto simp: sq_write_def sq_query_ok) (auto simp: sq_inv_def sq_rows_def)

lemma sq_upsert_ok:
  assumes "sq_inv db"
  shows "\<exists>db'. sq_write (sq_upsert k new upd) db = (Inr (), db') \<and> sq_inv db' \<and>
    map_of (sq_rows db') = (map_of (sq_rows db))
      (k \<mapsto> case map_of (sq_rows db) k of None \<Rightarrow> new | Some r \<Rightarrow> upd r)"
  using sq_write_ok [OF assms, of "sq_upsert k new upd"]
  by (auto simp: sq_upsert_def distinct_update map_of_update)

lemma sq_delete_ok:
  assumes "sq_inv db"
  shows "\<exists>db'. sq_write (AList.delete k) db = (Inr (), db') \<and> sq_inv db' \<and>
    map_of (sq_rows db') = (map_of (sq_rows db))(k := None)"
  using sq_write_ok [OF assms, of "AList.delete k"]
  by (auto simp: distinct_delete map_of_delete)

lemma map_of_map_at:
  "map_of (map (\<lambda>(k', r). (k', if k' = k then f r else r)) rs) =
     (map_of rs)(k := map_option f (map_of rs k))"
  by (induction rs) (auto simp: fun_eq_iff)

lemma sq_delete_parked_ok:
  assumes "sq_inv db"
  shows "\<exists>db'. sq_delete_parked k db = (Inr (), db') \<and> sq_inv db' \<and>
    map_of (sq_rows db') = (map_of (sq_rows db))
      (k := map_option (\<lambda>r. r\<lparr>r_payload := None\<rparr>) (map_of (sq_rows db) k))"
proof -
  let ?f = "\<lambda>rs. map (\<lambda>(k', r). (k', if k' = k then r\<lparr>r_payload := None\<rparr> else r)) rs"
  have "map fst (?f rs) = map fst rs" for rs :: "('a \<times> sq_row) list"
    by (induction rs) auto
  then have "\<exists>db'. sq_write ?f db = (Inr (), db') \<and> sq_inv db' \<and> sq_rows db' = ?f (sq_rows db)"
    by (intro sq_write_ok [OF assms]) (simp only:)
  then show ?thesis by (auto simp: sq_delete_parked_def map_of_map_at)
qed

lemma sq_list_parked_ok:
  assumes "sq_inv db"
  shows "\<exists>ks. sq_list_parked db = Inr ks \<and> set ks = dom (sq_parked db) \<and> distinct ks"
proof -
  let ?rs = "sq_rows db"
  have d: "distinct (map fst ?rs)" using assms by (simp add: sq_inv_def)
  have "set (map fst (filter (\<lambda>(k, r). r_payload r \<noteq> None) ?rs)) = dom (sq_parked db)"
    using d by (force simp: sq_parked_def dom_def image_iff bind_eq_Some_conv
      intro: map_of_is_SomeI dest: map_of_SomeD)
  then show ?thesis
    using d by (simp add: sq_list_parked_def sq_query_ok [OF assms] distinct_map_filter)
qed

lemmas sq_views = sq_executed_def sq_ustate_def sq_parked_def fun_eq_iff

lemma sq_set_state_ok:
  assumes "sq_inv db"
  shows "\<exists>db'. sq_set_state k st now db = (Inr (), db') \<and> sq_inv db' \<and>
    (\<forall>l. map_option r_state (map_of (sq_rows db') l) =
         (if l = k then Some st else map_option r_state (map_of (sq_rows db) l))) \<and>
    sq_parked db' = sq_parked db"
  using sq_upsert_ok [OF assms, of k "\<lparr>r_state = st, r_payload = None, r_updated = now\<rparr>"
      "\<lambda>r. r\<lparr>r_state := st, r_updated := now\<rparr>"]
  by (auto simp: sq_set_state_def sq_parked_def fun_eq_iff split: option.splits)

lemma sq_park_as_ok:
  assumes "sq_inv db"
  shows "\<exists>db'. sq_park_as st now k p db = (Inr (), db') \<and> sq_inv db' \<and>
    (\<forall>l. map_option r_state (map_of (sq_rows db') l) =
         (if l = k \<and> map_of (sq_rows db) k = None then Some st
          else map_option r_state (map_of (sq_rows db) l))) \<and>
    sq_parked db' = (sq_parked db)(k \<mapsto> p)"
  using sq_upsert_ok [OF assms, of k "\<lparr>r_state = st, r_payload = Some p, r_updated = now\<rparr>"
      "\<lambda>r. r\<lparr>r_payload := Some p, r_updated := now\<rparr>"]
  by (auto simp: sq_park_as_def sq_parked_def fun_eq_iff split: option.splits)

text \<open>The abstractions depend on the states of the rows only.\<close>

definition row_state :: "'k sq_db \<Rightarrow> 'k \<Rightarrow> pystr option" where
  "row_state db k = map_option r_state (map_of (sq_rows db) k)"

lemma sq_executed_row_state: "sq_executed db = {t. row_state db t = Some TID_EXECUTED}"
  by (auto simp: sq_executed_def row_state_def)

lemma sq_ustate_row_state:
  "sq_ustate db k =
     (case row_state db k of None \<Rightarrow> NOT_FOUND
      | Some v \<Rightarrow> (case unit_state_of_value v of Inl e \<Rightarrow> NOT_FOUND | Inr u \<Rightarrow> u))"
  by (auto simp: sq_ustate_def row_state_def split: option.splits)

lemma sq_unit_inv_row_state:
  "sq_unit_inv db \<longleftrightarrow> sq_inv db \<and> (\<forall>k v. row_state db k = Some v \<longrightarrow> v \<in> range unit_state_value)"
  unfolding sq_unit_inv_def row_state_def known_state_def map_option_eq_Some by blast

lemma sq_set_state_view:
  assumes "sq_inv db"
  shows "\<exists>db'. sq_set_state k st now db = (Inr (), db') \<and> sq_inv db' \<and>
    row_state db' = (row_state db)(k \<mapsto> st) \<and> sq_parked db' = sq_parked db"
  using sq_set_state_ok [OF assms, of k st now] unfolding row_state_def fun_eq_iff by auto

lemma sq_park_as_view:
  assumes "sq_inv db"
  shows "\<exists>db'. sq_park_as st now k p db = (Inr (), db') \<and> sq_inv db' \<and>
    row_state db' = (if row_state db k = None then (row_state db)(k \<mapsto> st) else row_state db) \<and>
    sq_parked db' = (sq_parked db)(k \<mapsto> p)"
  using sq_park_as_ok [OF assms, of st now k p] unfolding row_state_def fun_eq_iff
  by (auto simp del: map_option_eq_Some)

lemma sq_confirm_view:
  assumes "sq_inv db"
  shows "\<exists>db'. sq_confirm k db = (Inr (), db') \<and> sq_inv db' \<and>
    row_state db' = (row_state db)(k := None) \<and> sq_parked db' = (sq_parked db)(k := None)"
  using sq_delete_ok [OF assms, of k]
  by (auto simp: sq_confirm_def row_state_def sq_parked_def fun_eq_iff)

lemma sq_delete_parked_view:
  assumes "sq_inv db"
  shows "\<exists>db'. sq_delete_parked k db = (Inr (), db') \<and> sq_inv db' \<and>
    row_state db' = row_state db \<and> sq_parked db' = (sq_parked db)(k := None)"
  using sq_delete_parked_ok [OF assms, of k]
  by (cases "map_of (sq_rows db) k")
    (auto simp: row_state_def sq_parked_def fun_eq_iff split: option.splits)

lemma sq_get_parked_view: "sq_inv db \<Longrightarrow> sq_get_parked db k = Inr (sq_parked db k)"
  by (auto simp: sq_get_parked_def sq_query_ok sq_parked_def split: option.splits)

lemma sq_is_executed_view: "sq_inv db \<Longrightarrow> sq_is_executed db t = Inr (t \<in> sq_executed db)"
  by (auto simp: sq_is_executed_def sq_query_ok sq_executed_def split: option.splits)

lemma sq_get_unit_state_view:
  assumes "sq_unit_inv db"
  shows "sq_get_unit_state db k = Inr (sq_ustate db k)"
proof (cases "map_of (sq_rows db) k")
  case None
  then show ?thesis using assms
    by (simp add: sq_unit_inv_def sq_get_unit_state_def sq_query_ok sq_ustate_def)
next
  case (Some r)
  with assms have "known_state r" unfolding sq_unit_inv_def by blast
  then obtain u where "r_state r = unit_state_value u" by (auto simp: known_state_def)
  with Some assms show ?thesis
    by (simp add: sq_unit_inv_def sq_get_unit_state_def sq_query_ok sq_ustate_def
        del: unit_state_value.simps)
qed

interpretation sq_tid: tid_store sq_is_executed "sq_mark_received now" "sq_mark_executed now"
    "sq_mark_rolled_back now" sq_confirm "sq_park now" sq_get_parked sq_list_parked
    sq_delete_parked sq_inv sq_executed sq_parked for now
proof (unfold_locales, goal_cases)
  case (2 s t)
  then show ?case using sq_set_state_view [of s t TID_RECEIVED now] tid_states_differ
    by (auto simp: sq_mark_received_def sq_executed_row_state)
next
  case (3 s t)
  then show ?case using sq_set_state_view [of s t TID_EXECUTED now]
    by (auto simp: sq_mark_executed_def sq_executed_row_state)
next
  case (4 s t)
  then show ?case using sq_set_state_view [of s t TID_ROLLED_BACK now] tid_states_differ
    by (auto simp: sq_mark_rolled_back_def sq_executed_row_state)
next
  case (5 s t)
  then show ?case using sq_confirm_view [of s t] by (auto simp: sq_executed_row_state)
next
  case (6 s t p)
  then show ?case using sq_park_as_view [of s TID_RECEIVED now t p] tid_states_differ
    by (auto simp: sq_park_def sq_executed_row_state split: if_splits)
next
  case (7 s t)
  then show ?case using sq_delete_parked_view [of s t] by (auto simp: sq_executed_row_state)
qed (simp_all add: sq_is_executed_view sq_get_parked_view sq_list_parked_ok)

interpretation sq_unit: unit_store sq_get_unit_state "sq_persist now" "sq_unit_confirm now"
    "sq_unit_park now" sq_get_parked sq_list_parked sq_delete_parked
    sq_unit_inv sq_ustate sq_parked for now
proof (unfold_locales, goal_cases)
  case (2 s k)
  then show ?case using sq_set_state_view [of s k "unit_state_value IN_PROCESS" now]
    by (auto simp: sq_persist_def sq_unit_inv_row_state sq_ustate_row_state fun_eq_iff
        simp del: unit_state_value.simps)
next
  case (3 s k)
  then show ?case using sq_set_state_view [of s k "unit_state_value CONFIRMED" now]
    by (auto simp: sq_unit_confirm_def sq_unit_inv_row_state sq_ustate_row_state fun_eq_iff
        simp del: unit_state_value.simps)
next
  case (4 s k p)
  then show ?case using sq_park_as_view [of s "unit_state_value IN_PROCESS" now k p]
    by (auto simp: sq_unit_park_def sq_unit_inv_row_state sq_ustate_row_state
        simp del: unit_state_value.simps split: if_splits)
next
  case (5 s k)
  then show ?case using sq_delete_parked_view [of s k]
    by (auto simp: sq_unit_inv_row_state sq_ustate_row_state fun_eq_iff)
qed (auto simp: sq_get_unit_state_view sq_get_parked_view sq_list_parked_ok sq_unit_inv_def)

text \<open>Opening an empty file gives a store that meets the invariants.\<close>

definition sq_empty_file :: "'k sq_db" where
  "sq_empty_file = \<lparr>db_open = False, user_version = 0, rows = None\<rparr>"

lemma sq_init_empty: "\<exists>db. sq_init sq_empty_file = (Inr (), db) \<and> sq_inv db \<and> sq_rows db = []"
  by (simp add: sq_init_def sq_migrate_def sq_empty_file_def SCHEMA_VERSION_def sq_inv_def
      sq_rows_def)

text \<open>Where the implementations differ: the parked payload of a confirmed id, and the state of a
  unit that was parked before it was persisted.\<close>

lemma mem_confirm_keeps_payload: "mem_parked (snd (mem_confirm t s)) = mem_parked s"
  by (simp add: mem_confirm_def)

lemma sq_confirm_drops_payload:
  assumes "sq_inv db"
  shows "sq_get_parked (snd (sq_confirm t db)) t = Inr None"
  using sq_confirm_view [OF assms, of t] sq_get_parked_view by fastforce

lemma mem_park_unknown_unit:
  "mem_ustate s k = NOT_FOUND \<Longrightarrow> mem_get_unit_state (snd (mem_park k p s)) k = Inr NOT_FOUND"
  by (simp add: mem_park_def mem_get_unit_state_def mem_ustate_def)

lemma sq_park_unknown_unit:
  assumes "sq_unit_inv db" and "row_state db k = None"
  shows "sq_get_unit_state (snd (sq_unit_park now k p db)) k = Inr IN_PROCESS"
proof -
  obtain db' where db': "sq_unit_park now k p db = (Inr (), db')" "sq_inv db'"
      "row_state db' = (row_state db)(k \<mapsto> unit_state_value IN_PROCESS)"
    using sq_park_as_view [of db "unit_state_value IN_PROCESS" now k p] assms
    by (auto simp: sq_unit_park_def sq_unit_inv_def simp del: unit_state_value.simps)
  then have "sq_unit_inv db'"
    using assms(1) by (auto simp: sq_unit_inv_row_state simp del: unit_state_value.simps)
  with db' show ?thesis
    by (simp add: sq_get_unit_state_view sq_ustate_row_state del: unit_state_value.simps)
qed

section \<open>Properties\<close>

text \<open>Once executed, always executed, until confirmed, in both stores.  Starting from a store that
  meets its invariant, marking a transaction executed makes the duplicate check succeed, receiving
  or executing any other transaction does not change that, and confirming it is what makes it
  unknown again.\<close>

lemma executed_ids_stay_known:
  assumes "mem_inv m" and "sq_inv db" and "u \<noteq> t"
  shows "(\<exists>m1 m2 m3. mem_mark_executed t m = (Inr (), m1) \<and> mem_mark_received u m1 = (Inr (), m2) \<and>
      mem_is_executed m2 t = Inr True \<and> mem_confirm t m2 = (Inr (), m3) \<and> mem_is_executed m3 t = Inr False) \<and>
    (\<exists>d1 d2 d3. sq_mark_executed now t db = (Inr (), d1) \<and> sq_mark_received now u d1 = (Inr (), d2) \<and>
      sq_is_executed d2 t = Inr True \<and> sq_confirm t d2 = (Inr (), d3) \<and> sq_is_executed d3 t = Inr False)"
  using mem_tid.duplicate_until_confirmed [OF assms(1,3)] sq_tid.duplicate_until_confirmed [OF assms(2,3)]
  by blast+

text \<open>An operation of a transaction store, on either implementation.\<close>

datatype tid_op = Received pystr | Executed pystr | Rolled_back pystr | Confirm pystr
  | Park pystr bytes | Drop pystr

fun mem_run :: "tid_op \<Rightarrow> (mem_tid_store, unit) act" where
  "mem_run (Received t) = mem_mark_received t"
| "mem_run (Executed t) = mem_mark_executed t"
| "mem_run (Rolled_back t) = mem_mark_rolled_back t"
| "mem_run (Confirm t) = mem_confirm t"
| "mem_run (Park t p) = mem_park t p"
| "mem_run (Drop t) = mem_delete_parked t"

fun sq_run :: "int \<Rightarrow> tid_op \<Rightarrow> (pystr sq_db, unit) act" where
  "sq_run now (Received t) = sq_mark_received now t"
| "sq_run now (Executed t) = sq_mark_executed now t"
| "sq_run now (Rolled_back t) = sq_mark_rolled_back now t"
| "sq_run now (Confirm t) = sq_confirm t"
| "sq_run now (Park t p) = sq_park now t p"
| "sq_run now (Drop t) = sq_delete_parked t"

definition same_answers :: "mem_tid_store \<Rightarrow> pystr sq_db \<Rightarrow> bool" where
  "same_answers m db \<longleftrightarrow> mem_inv m \<and> sq_inv db \<and> mem_executed m = sq_executed db \<and>
     (\<forall>t p. sq_parked db t = Some p \<longrightarrow> mem_parked m t = Some p)"

lemma same_answers_step:
  assumes "same_answers m db"
  shows "\<exists>m' db'. mem_run oper m = (Inr (), m') \<and> sq_run now oper db = (Inr (), db') \<and> same_answers m' db'"
proof -
  have inv: "mem_inv m" "sq_inv db" and eq: "mem_executed m = sq_executed db"
      "\<And>t p. sq_parked db t = Some p \<Longrightarrow> mem_parked m t = Some p"
    using assms by (auto simp: same_answers_def)
  show ?thesis
  proof (cases oper)
    case (Received t)
    then show ?thesis
      using mem_tid.mark_received [OF inv(1), of t] sq_tid.mark_received [OF inv(2), of now t] eq
      by (auto simp: same_answers_def)
  next
    case (Executed t)
    then show ?thesis
      using mem_tid.mark_executed [OF inv(1), of t] sq_tid.mark_executed [OF inv(2), of now t] eq
      by (auto simp: same_answers_def)
  next
    case (Rolled_back t)
    then show ?thesis
      using mem_tid.mark_rolled_back [OF inv(1), of t] sq_tid.mark_rolled_back [OF inv(2), of now t] eq
      by (auto simp: same_answers_def)
  next
    case (Confirm t)
    obtain db' where db': "sq_confirm t db = (Inr (), db')" "sq_inv db'"
        "sq_executed db' = sq_executed db - {t}" "\<forall>u. u \<noteq> t \<longrightarrow> sq_parked db' u = sq_parked db u"
      using sq_tid.confirm [OF inv(2), of t] by blast
    have "sq_get_parked db' t = Inr None" using sq_confirm_drops_payload [OF inv(2), of t] db'(1) by simp
    then have gone: "sq_parked db' t = None" using sq_get_parked_view [OF db'(2), of t] by simp
    obtain m' where m': "mem_confirm t m = (Inr (), m')" "mem_inv m'" "mem_executed m' = mem_executed m - {t}"
      using mem_tid.confirm [OF inv(1), of t] by blast
    have keep: "mem_parked m' = mem_parked m" using mem_confirm_keeps_payload [of t m] m'(1) by simp
    have "\<forall>u p. sq_parked db' u = Some p \<longrightarrow> mem_parked m' u = Some p"
      using eq(2) db'(4) gone keep by (metis option.distinct(1))
    then show ?thesis using Confirm db' m' eq(1) by (auto simp: same_answers_def)
  next
    case (Park t p)
    then show ?thesis
      using mem_tid.park [OF inv(1), of t p] sq_tid.park [OF inv(2), of now t p] eq
      by (auto simp: same_answers_def)
  next
    case (Drop t)
    then show ?thesis
      using mem_tid.delete_parked [OF inv(1), of t] sq_tid.delete_parked [OF inv(2), of t] eq
      by (auto simp: same_answers_def)
  qed
qed

fun mem_runs :: "tid_op list \<Rightarrow> (mem_tid_store, unit) act" where
  "mem_runs [] m = (Inr (), m)"
| "mem_runs (x # xs) m = (case mem_run x m of (Inl e, m') \<Rightarrow> (Inl e, m') | (Inr u, m') \<Rightarrow> mem_runs xs m')"

fun sq_runs :: "(int \<times> tid_op) list \<Rightarrow> (pystr sq_db, unit) act" where
  "sq_runs [] db = (Inr (), db)"
| "sq_runs ((now, x) # xs) db =
     (case sq_run now x db of (Inl e, d') \<Rightarrow> (Inl e, d') | (Inr u, d') \<Rightarrow> sq_runs xs d')"

lemma same_answers_runs:
  "same_answers m db \<Longrightarrow> \<exists>m' db'. mem_runs (map snd xs) m = (Inr (), m') \<and> sq_runs xs db = (Inr (), db') \<and>
    same_answers m' db'"
proof (induction xs arbitrary: m db)
  case (Cons x xs)
  obtain now y where x: "x = (now, y)" by fastforce
  obtain m1 d1 where "mem_run y m = (Inr (), m1)" "sq_run now y db = (Inr (), d1)" "same_answers m1 d1"
    using same_answers_step [OF Cons.prems] by blast
  with Cons.IH [of m1 d1] show ?case by (simp add: x)
qed simp

text \<open>C9. The durable store refines the one in memory.  Run the same operations, in any order and
  number, on an empty in-memory store and on a freshly opened database: none fails, both give the
  same answer to every duplicate check, and every payload the database still holds is the one the
  memory store holds (the database drops the payload of a confirmed transaction, memory keeps it).\<close>

theorem durable_store_refines_memory:
  assumes "sq_init sq_empty_file = (Inr (), db0)"
  shows "\<exists>m db. mem_runs (map snd ops) mem_new = (Inr (), m) \<and> sq_runs ops db0 = (Inr (), db) \<and>
    (\<forall>t. sq_is_executed db t = mem_is_executed m t) \<and>
    (\<forall>t p. sq_get_parked db t = Inr (Some p) \<longrightarrow> mem_get_parked m t = Inr (Some p))"
proof -
  have "sq_inv db0" and rows: "sq_rows db0 = []"
    using assms sq_init_empty by (metis Pair_inject)+
  moreover have "mem_executed mem_new = {}" by (simp add: mem_executed_def mem_new_def)
  moreover have "sq_executed db0 = {}" by (simp add: sq_executed_def rows)
  ultimately have "same_answers mem_new db0"
    by (simp add: same_answers_def mem_new_inv sq_parked_def rows)
  from same_answers_runs [OF this] obtain m db where
    r: "mem_runs (map snd ops) mem_new = (Inr (), m)" "sq_runs ops db0 = (Inr (), db)" "same_answers m db"
    by blast
  then have "sq_is_executed db t = mem_is_executed m t" for t
    using sq_tid.is_executed [of db t] mem_tid.is_executed [of m t] by (simp add: same_answers_def)
  moreover have "mem_get_parked m t = Inr (Some p)" if "sq_get_parked db t = Inr (Some p)" for t p
  proof -
    have "sq_parked db t = Some p" using that r(3) sq_tid.get_parked [of db t] by (simp add: same_answers_def)
    then show ?thesis using r(3) mem_tid.get_parked [of m t] by (simp add: same_answers_def)
  qed
  ultimately show ?thesis using r by blast
qed

theorem durable_store_refines_memory_witness:
  "\<exists>db0 m db. sq_init sq_empty_file = (Inr (), db0) \<and>
    mem_runs [Received (lit ''A''), Park (lit ''A'') [1], Executed (lit ''A'')] mem_new = (Inr (), m) \<and>
    sq_runs [(5, Received (lit ''A'')), (6, Park (lit ''A'') [1]), (7, Executed (lit ''A''))] db0 = (Inr (), db) \<and>
    sq_is_executed db (lit ''A'') = mem_is_executed m (lit ''A'')"
proof -
  obtain db0 :: "pystr sq_db" where i: "sq_init sq_empty_file = (Inr (), db0)" using sq_init_empty by blast
  from durable_store_refines_memory [OF i, of "[(5, Received (lit ''A'')), (6, Park (lit ''A'') [1]), (7, Executed (lit ''A''))]"]
  show ?thesis using i by (auto simp del: mem_runs.simps sq_runs.simps)
qed

text \<open>A database written by a newer release is refused and not touched: the constructor raises,
  the connection is closed and the rows and the version are what they were; and opening a database
  of this release or an older one keeps every row.\<close>

theorem newer_schema_refused:
  "(SCHEMA_VERSION < user_version db0 \<longrightarrow>
     sq_init db0 = (Inl RuntimeError, db0\<lparr>db_open := False\<rparr>)) \<and>
   (user_version db0 \<le> SCHEMA_VERSION \<longrightarrow>
     (\<exists>db. sq_init db0 = (Inr (), db) \<and> db_open db \<and>
       (\<forall>rs. rows db0 = Some rs \<longrightarrow> rows db = Some rs)))"
  by (auto simp: sq_init_def sq_migrate_def SCHEMA_VERSION_def)

text \<open>A unit's type is part of its identity, in both stores.  Persisting and confirming a unit of
  one type leaves the state of the unit of the same id and the other type what it was, while its
  own state becomes CONFIRMED.\<close>

theorem unit_types_kept_apart:
  assumes "mem_inv m" and "sq_unit_inv db" and "ty \<noteq> ty'"
  shows "(\<exists>m1 m2. mem_persist (i, ty) m = (Inr (), m1) \<and> mem_unit_confirm (i, ty) m1 = (Inr (), m2) \<and>
      mem_get_unit_state m2 (i, ty') = mem_get_unit_state m (i, ty') \<and>
      mem_get_unit_state m2 (i, ty) = Inr CONFIRMED) \<and>
    (\<exists>d1 d2. sq_persist now (i, ty) db = (Inr (), d1) \<and> sq_unit_confirm now (i, ty) d1 = (Inr (), d2) \<and>
      sq_get_unit_state d2 (i, ty') = sq_get_unit_state db (i, ty') \<and>
      sq_get_unit_state d2 (i, ty) = Inr CONFIRMED)"
  using mem_unit.types_apart [OF assms(1,3), of i] sq_unit.types_apart [OF assms(2,3), of now i]
    mem_unit.get_unit_state [OF assms(1), of "(i, ty')"] sq_unit.get_unit_state [OF assms(2), of "(i, ty')"]
  by fastforce

end
