(* ===== verification/Server_Dispatch.thy ===== *)
theory Server_Dispatch
  imports Server_Frames Tx_Stores
begin

text \<open>
  The dispatch core of the registered server, \<^verbatim>\<open>src/saprfclib/server.py\<close>: the handler registry,
  the synchronous path, the exactly-once gate of a transactional call, and the bgRFC unit path, with
  every callback an application may install.

  A handler or callback acts on the state of the application, \<open>'e\<close>, and may raise: \<open>py_exc\<close> is an
  exception as the code looks at it, the name of its class, its text and whether it is a
  \<^verbatim>\<open>TypeError\<close>.  What leaves a dispatch as an exception is an \<open>escape\<close>, either one of the exceptions
  the package raises or one of the application's.  The stores are reached through the operations the
  server calls; both implementations of \<^verbatim>\<open>stores.py\<close> are instances.

  The runtime supplies upper case outside ASCII, the decompressor, \<^verbatim>\<open>float()\<close>, \<^verbatim>\<open>repr\<close> of a
  string and the text of a \<^verbatim>\<open>UnicodeDecodeError\<close>.  Log lines are left out.
\<close>

section \<open>Applications\<close>

record py_exc =
  ux_type :: pystr
  ux_text :: pystr
  ux_type_error :: bool

datatype escape = Raised exn | Foreign py_exc

record runtime =
  upper_char :: "nat \<Rightarrow> pystr"
  sap_dec :: sap_decompressor
  to_float :: "pyval \<Rightarrow> 64 word res"
  py_repr :: "pystr \<Rightarrow> pystr"
  unicode_error_text :: "bytes \<Rightarrow> pystr"

text \<open>Code of the application: it changes the application's state, also when it raises.\<close>

type_synonym ('e, 'a) app_call = "'e \<Rightarrow> (py_exc + 'a) \<times> 'e"

text \<open>What a handler returns: nothing, a dict, or, called without \<^verbatim>\<open>await\<close> when it is an
  \<^verbatim>\<open>async def\<close>, a coroutine object, and then none of its code has run.\<close>

datatype handler_result = No_Result | Dict_Result params | Coroutine

datatype 'e handler_fn =
    Plain "params \<Rightarrow> ('e, params option) app_call"
  | Async "params \<Rightarrow> ('e, params option) app_call"

type_synonym 'e entry = "func_desc option \<times> 'e handler_fn"

definition dict_result :: "params option \<Rightarrow> handler_result" where
  "dict_result r = (case r of None \<Rightarrow> No_Result | Some d \<Rightarrow> Dict_Result d)"

text \<open>\<^verbatim>\<open>handler(request)\<close>\<close>

fun call_handler :: "'e handler_fn \<Rightarrow> params \<Rightarrow> ('e, handler_result) app_call" where
  "call_handler (Plain f) req e =
     (case f req e of (Inl x, e') \<Rightarrow> (Inl x, e') | (Inr r, e') \<Rightarrow> (Inr (dict_result r), e'))"
| "call_handler (Async f) req e = (Inr Coroutine, e)"

text \<open>The two ways the authentication callback is called.\<close>

datatype auth_args = Keywords "pystr option" "pystr option" | Positional "pystr option"

record 's tid_ops =
  ts_is_executed :: "'s \<Rightarrow> pystr \<Rightarrow> bool res"
  ts_mark_received :: "pystr \<Rightarrow> ('s, unit) act"
  ts_mark_executed :: "pystr \<Rightarrow> ('s, unit) act"
  ts_mark_rolled_back :: "pystr \<Rightarrow> ('s, unit) act"

record 'u unit_ops =
  us_get_unit_state :: "'u \<Rightarrow> unit_key \<Rightarrow> UnitState res"
  us_persist :: "unit_key \<Rightarrow> ('u, unit) act"
  us_confirm :: "unit_key \<Rightarrow> ('u, unit) act"

text \<open>What the application has installed.\<close>

record ('s, 'u, 'e) rfc_server =
  registry :: "(pystr \<times> 'e entry) list"
  generic :: "(pystr \<Rightarrow> ('e, 'e entry option) app_call) option"
  auth_check :: "(auth_args \<Rightarrow> ('e, bool) app_call) option"
  tid_store_ops :: "'s tid_ops"
  unit_store_ops :: "'u unit_ops"
  on_check_transaction :: "(pystr \<Rightarrow> ('e, int) app_call) option"
  on_commit_transaction :: "(pystr \<Rightarrow> ('e, unit) app_call) option"
  on_rollback_transaction :: "(pystr \<Rightarrow> ('e, unit) app_call) option"
  on_confirm_transaction :: "(pystr \<Rightarrow> ('e, unit) app_call) option"
  on_check_unit :: "(unit_key \<Rightarrow> ('e, int) app_call) option"
  on_commit_unit :: "(unit_key \<Rightarrow> ('e, unit) app_call) option"
  on_rollback_unit :: "(unit_key \<Rightarrow> ('e, unit) app_call) option"
  on_confirm_unit :: "(unit_key \<Rightarrow> ('e, unit) app_call) option"
  on_get_unit_state :: "(unit_key \<Rightarrow> ('e, UnitState) app_call) option"

text \<open>What a dispatch changes.\<close>

record ('s, 'u, 'e) world =
  tids :: 's
  units :: 'u
  app :: 'e

section \<open>Installing handlers\<close>

text \<open>The decorator: the name is stored in upper case, a second registration replaces the first.\<close>

definition register ::
    "runtime \<Rightarrow> pystr \<Rightarrow> func_desc option \<Rightarrow> 'e handler_fn \<Rightarrow> ('s, 'u, 'e) rfc_server \<Rightarrow> ('s, 'u, 'e) rfc_server" where
  "register rt nm fdesc fn srv =
     srv\<lparr>registry := AList.update (py_upper (upper_char rt) nm) (fdesc, fn) (registry srv)\<rparr>"

definition set_generic_handler where
  "set_generic_handler fn srv = srv\<lparr>generic := Some fn\<rparr>"

definition set_authentication_check where
  "set_authentication_check fn srv = srv\<lparr>auth_check := Some fn\<rparr>"

text \<open>A store must satisfy the protocol class; \<open>conforms\<close> is the outcome of that test.\<close>

definition set_tid_store ::
    "bool \<Rightarrow> 's tid_ops \<Rightarrow> ('s, 'u, 'e) rfc_server \<Rightarrow> ('s, 'u, 'e) rfc_server res" where
  "set_tid_store conforms ops srv =
     (if conforms then Inr (srv\<lparr>tid_store_ops := ops\<rparr>) else Inl TypeError)"

definition set_unit_store ::
    "bool \<Rightarrow> 'u unit_ops \<Rightarrow> ('s, 'u, 'e) rfc_server \<Rightarrow> ('s, 'u, 'e) rfc_server res" where
  "set_unit_store conforms ops srv =
     (if conforms then Inr (srv\<lparr>unit_store_ops := ops\<rparr>) else Inl TypeError)"

definition install_transaction_handlers where
  "install_transaction_handlers c co r cf srv =
     srv\<lparr>on_check_transaction := c, on_commit_transaction := co,
         on_rollback_transaction := r, on_confirm_transaction := cf\<rparr>"

definition install_unit_handlers where
  "install_unit_handlers c co r cf g srv =
     srv\<lparr>on_check_unit := c, on_commit_unit := co, on_rollback_unit := r,
         on_confirm_unit := cf, on_get_unit_state := g\<rparr>"

section \<open>Sequencing\<close>

type_synonym ('s, 'u, 'e, 'a) disp = "('s, 'u, 'e) world \<Rightarrow> (escape + 'a) \<times> ('s, 'u, 'e) world"

definition ret :: "'a \<Rightarrow> ('s, 'u, 'e, 'a) disp" where
  "ret x w = (Inr x, w)"

definition then_d :: "('s, 'u, 'e, 'a) disp \<Rightarrow> ('a \<Rightarrow> ('s, 'u, 'e, 'b) disp) \<Rightarrow> ('s, 'u, 'e, 'b) disp" where
  "then_d m f w = (case m w of (Inl x, w') \<Rightarrow> (Inl x, w') | (Inr a, w') \<Rightarrow> f a w')"

definition reply :: "'a res \<Rightarrow> ('s, 'u, 'e, 'a) disp" where
  "reply r w = (case r of Inl e \<Rightarrow> (Inl (Raised e), w) | Inr x \<Rightarrow> (Inr x, w))"

definition with_tids :: "('s, 'a) act \<Rightarrow> ('s, 'u, 'e, 'a) disp" where
  "with_tids f w =
     (case f (tids w) of (Inl e, s) \<Rightarrow> (Inl (Raised e), w\<lparr>tids := s\<rparr>) | (Inr x, s) \<Rightarrow> (Inr x, w\<lparr>tids := s\<rparr>))"

definition with_units :: "('u, 'a) act \<Rightarrow> ('s, 'u, 'e, 'a) disp" where
  "with_units f w =
     (case f (units w) of (Inl e, s) \<Rightarrow> (Inl (Raised e), w\<lparr>units := s\<rparr>) | (Inr x, s) \<Rightarrow> (Inr x, w\<lparr>units := s\<rparr>))"

text \<open>Code of the application inside a \<^verbatim>\<open>try ... except Exception\<close>, and outside one.\<close>

definition caught :: "('e, 'a) app_call \<Rightarrow> ('s, 'u, 'e, py_exc + 'a) disp" where
  "caught f w = (case f (app w) of (r, e) \<Rightarrow> (Inr r, w\<lparr>app := e\<rparr>))"

definition uncaught :: "('e, 'a) app_call \<Rightarrow> ('s, 'u, 'e, 'a) disp" where
  "uncaught f w =
     (case f (app w) of (Inl x, e) \<Rightarrow> (Inl (Foreign x), w\<lparr>app := e\<rparr>) | (Inr a, e) \<Rightarrow> (Inr a, w\<lparr>app := e\<rparr>))"

text \<open>An optional callback outside a \<^verbatim>\<open>try\<close>, and one whose exceptions are logged and dropped.\<close>

definition notify :: "('k \<Rightarrow> ('e, unit) app_call) option \<Rightarrow> 'k \<Rightarrow> ('s, 'u, 'e, unit) disp" where
  "notify cb k = (case cb of None \<Rightarrow> ret () | Some f \<Rightarrow> uncaught (f k))"

definition notify_quietly :: "('k \<Rightarrow> ('e, unit) app_call) option \<Rightarrow> 'k \<Rightarrow> ('s, 'u, 'e, unit) disp" where
  "notify_quietly cb k =
     (case cb of None \<Rightarrow> ret () | Some f \<Rightarrow> then_d (caught (f k)) (\<lambda>_. ret ()))"

definition failure :: "pystr \<Rightarrow> ('s, 'u, 'e, bytes) disp" where
  "failure m = reply (build_system_failure m)"

lemmas disp_defs = ret_def then_d_def reply_def with_tids_def with_units_def caught_def uncaught_def
  notify_def notify_quietly_def failure_def

section \<open>The synchronous path\<close>

definition ARFC_DEST_SHIP :: pystr where "ARFC_DEST_SHIP = lit ''ARFC_DEST_SHIP''"
definition ARFC_DEST_CONFIRM :: pystr where "ARFC_DEST_CONFIRM = lit ''ARFC_DEST_CONFIRM''"
definition BGRFC_DEST_SHIP :: pystr where "BGRFC_DEST_SHIP = lit ''BGRFC_DEST_SHIP''"
definition BGRFC_DEST_CONFIRM :: pystr where "BGRFC_DEST_CONFIRM = lit ''BGRFC_DEST_CONFIRM''"
definition BGRFC_CHECK_UNIT_STATE_SERVER :: pystr where
  "BGRFC_CHECK_UNIT_STATE_SERVER = lit ''BGRFC_CHECK_UNIT_STATE_SERVER''"

lemmas dest_names = ARFC_DEST_SHIP_def ARFC_DEST_CONFIRM_def BGRFC_DEST_SHIP_def
  BGRFC_DEST_CONFIRM_def BGRFC_CHECK_UNIT_STATE_SERVER_def

text \<open>The registry, then the generic handler.\<close>

definition find_entry ::
    "runtime \<Rightarrow> ('s, 'u, 'e) rfc_server \<Rightarrow> pystr \<Rightarrow> ('s, 'u, 'e, 'e entry option) disp" where
  "find_entry rt srv nm =
     (case map_of (registry srv) (py_upper (upper_char rt) nm) of
        Some en \<Rightarrow> ret (Some en)
      | None \<Rightarrow> (case generic srv of None \<Rightarrow> ret None | Some g \<Rightarrow> uncaught (g nm)))"

definition check_auth :: "('s, 'u, 'e) rfc_server \<Rightarrow> bytes \<Rightarrow> ('s, 'u, 'e, bool) disp" where
  "check_auth srv tlv =
     (case auth_check srv of
        None \<Rightarrow> ret True
      | Some fn \<Rightarrow>
          then_d (reply (extract_credentials tlv)) (\<lambda>(user, pwd).
          then_d (caught (fn (Keywords user pwd))) (\<lambda>r.
            case r of
              Inr ok \<Rightarrow> ret ok
            | Inl x \<Rightarrow> if ux_type_error x then uncaught (fn (Positional user))
                       else (\<lambda>w. (Inl (Foreign x), w)))))"

text \<open>\<^verbatim>\<open>result.items()\<close> of a coroutine is an \<^verbatim>\<open>AttributeError\<close>.\<close>

definition respond ::
    "runtime \<Rightarrow> func_desc option \<Rightarrow> handler_result \<Rightarrow> bytes res" where
  "respond rt fdesc r =
     (case r of
        No_Result \<Rightarrow> build_response (upper_char rt) (to_float rt) fdesc []
      | Dict_Result d \<Rightarrow> build_response (upper_char rt) (to_float rt) fdesc d
      | Coroutine \<Rightarrow> Inl OtherException)"

definition dispatch_sync ::
    "runtime \<Rightarrow> ('s, 'u, 'e) rfc_server \<Rightarrow> ('e handler_fn \<Rightarrow> params \<Rightarrow> ('e, handler_result) app_call) \<Rightarrow>
       bytes \<Rightarrow> pystr \<Rightarrow> ('s, 'u, 'e, bytes) disp" where
  "dispatch_sync rt srv run tlv fname =
     then_d (find_entry rt srv fname) (\<lambda>en.
       case en of
         None \<Rightarrow> failure (lit ''function '' @ fname @ lit '' not registered'')
       | Some (fdesc, handler) \<Rightarrow>
           then_d (check_auth srv tlv) (\<lambda>ok.
             if \<not> ok then failure (lit ''authentication failed'')
             else
               then_d (reply (deserialize_request (upper_char rt) (sap_dec rt) tlv fdesc)) (\<lambda>req.
               then_d (caught (run handler req)) (\<lambda>r.
                 case r of
                   Inl x \<Rightarrow> failure (ux_text x)
                 | Inr res \<Rightarrow> reply (respond rt fdesc res)))))"

text \<open>\<^verbatim>\<open>await handler(request)\<close> of the asynchronous server.\<close>

fun await_handler :: "'e handler_fn \<Rightarrow> params \<Rightarrow> ('e, handler_result) app_call" where
  "await_handler (Async f) req e = call_handler (Plain f) req e"
| "await_handler (Plain f) req e = call_handler (Plain f) req e"

section \<open>Transactional calls\<close>

definition check_transaction :: "('s, 'u, 'e) rfc_server \<Rightarrow> pystr \<Rightarrow> ('s, 'u, 'e, bool) disp" where
  "check_transaction srv tid =
     (case on_check_transaction srv of
        Some f \<Rightarrow> then_d (uncaught (f tid)) (\<lambda>rc. ret (rc = int RC_EXECUTED))
      | None \<Rightarrow> (\<lambda>w. reply (ts_is_executed (tid_store_ops srv) (tids w) tid) w))"

definition roll_back ::
    "('s, 'u, 'e) rfc_server \<Rightarrow> pystr \<Rightarrow> pystr \<Rightarrow> ('s, 'u, 'e, bytes) disp" where
  "roll_back srv tid msg =
     then_d (with_tids (ts_mark_rolled_back (tid_store_ops srv) tid)) (\<lambda>_.
     then_d (notify (on_rollback_transaction srv) tid) (\<lambda>_. failure msg))"

text \<open>From the id's being marked received on.\<close>

definition run_transaction ::
    "runtime \<Rightarrow> ('s, 'u, 'e) rfc_server \<Rightarrow> bytes \<Rightarrow> pystr \<Rightarrow> ('s, 'u, 'e, bytes) disp" where
  "run_transaction rt srv tlv tid =
     then_d (reply (extract_param_from_frame (upper_char rt) (sap_dec rt) tlv (lit ''ARFCFNAM''))) (\<lambda>wrapped.
     then_d (if wrapped = [] then ret None else find_entry rt srv wrapped) (\<lambda>en.
       case en of
         None \<Rightarrow> roll_back srv tid
                   (lit ''ARFC_DEST_SHIP: no handler registered for '' @ py_repr rt wrapped)
       | Some (fdesc, handler) \<Rightarrow>
           then_d (reply (deserialize_request (upper_char rt) (sap_dec rt) tlv fdesc)) (\<lambda>req.
           then_d (caught (call_handler handler req)) (\<lambda>r.
             case r of
               Inl x \<Rightarrow> roll_back srv tid (ux_text x)
             | Inr _ \<Rightarrow>
                 then_d (with_tids (ts_mark_executed (tid_store_ops srv) tid)) (\<lambda>_.
                 then_d (notify (on_commit_transaction srv) tid) (\<lambda>_.
                   reply build_rfc_ok_response))))))"

definition tid_problem :: "pystr \<Rightarrow> pystr option" where
  "tid_problem tid =
     (if tid = [] then Some (lit ''ARFC_DEST_SHIP: missing ARFCTID param in inbound frame'')
      else if length tid \<noteq> TID_LN then
        Some (lit ''ARFC_DEST_SHIP: invalid TID length '' @ dec_digits (length tid)
              @ lit '' (expected '' @ dec_digits TID_LN @ lit '')'')
      else if \<exists>c \<in> set tid. c \<notin> set TID_ALPHABET then
        Some (lit ''ARFC_DEST_SHIP: TID contains characters outside RFC alphabet'')
      else None)"

definition dispatch_transactional ::
    "runtime \<Rightarrow> ('s, 'u, 'e) rfc_server \<Rightarrow> bytes \<Rightarrow> ('s, 'u, 'e, bytes) disp" where
  "dispatch_transactional rt srv tlv =
     then_d (reply (extract_tid_from_frame (upper_char rt) (sap_dec rt) tlv)) (\<lambda>tid.
       case tid_problem tid of
         Some m \<Rightarrow> failure m
       | None \<Rightarrow>
           then_d (check_transaction srv tid) (\<lambda>already_done.
             if already_done then reply build_rfc_executed_response
             else
               then_d (with_tids (ts_mark_received (tid_store_ops srv) tid)) (\<lambda>_.
                 run_transaction rt srv tlv tid)))"

section \<open>bgRFC units\<close>

definition index_error :: py_exc where
  "index_error = \<lparr>ux_type = lit ''IndexError'', ux_text = lit ''list index out of range'',
                  ux_type_error = False\<rparr>"

text \<open>\<^verbatim>\<open>str(exc).splitlines()[0][:n]\<close>: a text without any line has no first one.\<close>

definition first_line_of :: "nat \<Rightarrow> py_exc \<Rightarrow> py_exc + pystr" where
  "first_line_of n x = (if ux_text x = [] then Inl index_error else Inr (take n (first_line (ux_text x))))"

text \<open>The name of a buffered call ends at the first zero code unit.\<close>

fun name_length :: "bytes \<Rightarrow> nat option" where
  "name_length (a # b # r) = (if a = 0 \<and> b = 0 then Some 0 else map_option ((+) 2) (name_length r))"
| "name_length _ = None"

definition buffered_name :: "bytes \<Rightarrow> pystr option" where
  "buffered_name call =
     map_option (rstrip_by (\<lambda>c. c = 0 \<or> c = 32))
       (utf16le_decode (case name_length call of None \<Rightarrow> call | Some n \<Rightarrow> take n call))"

text \<open>The handler gets an empty request: the encoding of the parameters is not known to the code.\<close>

definition execute_buffered_call ::
    "runtime \<Rightarrow> ('s, 'u, 'e) rfc_server \<Rightarrow> bytes \<Rightarrow> ('s, 'u, 'e, pystr option) disp" where
  "execute_buffered_call rt srv call =
     (if call = [] then ret (Some (lit ''bgRFC: buffered call is empty''))
      else case buffered_name call of
        None \<Rightarrow> ret (Some (lit ''bgRFC: cannot decode function name from buffered call (''
                  @ unicode_error_text rt (case name_length call of None \<Rightarrow> call | Some n \<Rightarrow> take n call)
                  @ lit '')''))
      | Some nm \<Rightarrow>
          if nm = [] then ret (Some (lit ''bgRFC: buffered call carries an empty function name''))
          else
            then_d (find_entry rt srv nm) (\<lambda>en.
              case en of
                None \<Rightarrow> ret (Some (lit ''bgRFC: no handler registered for '' @ py_repr rt nm))
              | Some (fdesc, handler) \<Rightarrow>
                  then_d (caught (call_handler handler [])) (\<lambda>r.
                    case r of
                      Inr _ \<Rightarrow> ret None
                    | Inl x \<Rightarrow> (case first_line_of 512 x of
                                   Inl y \<Rightarrow> (\<lambda>w. (Inl (Foreign y), w))
                                 | Inr m \<Rightarrow> ret (Some m)))))"

text \<open>One call of the loop: its exceptions become the call's error.\<close>

definition isolated_call ::
    "runtime \<Rightarrow> ('s, 'u, 'e) rfc_server \<Rightarrow> bytes \<Rightarrow> ('s, 'u, 'e, pystr option) disp" where
  "isolated_call rt srv call w =
     (case execute_buffered_call rt srv call w of
        (Inr r, w') \<Rightarrow> (Inr r, w')
      | (Inl (Raised e), w') \<Rightarrow> (Inl (Raised e), w')
      | (Inl (Foreign x), w') \<Rightarrow>
          (case first_line_of 512 x of Inl y \<Rightarrow> (Inl (Foreign y), w') | Inr m \<Rightarrow> (Inr (Some m), w')))"

definition missing_call :: "nat \<Rightarrow> nat \<Rightarrow> pystr" where
  "missing_call count i =
     lit ''bgRFC: frame declares '' @ dec_digits count @ lit '' call(s) but BGRFC_CALL_''
       @ dec_digits i @ lit '' is missing''"

text \<open>The calls from number \<open>i\<close> on, of \<open>count\<close>, stopping at the first error.\<close>

function run_calls ::
    "runtime \<Rightarrow> ('s, 'u, 'e) rfc_server \<Rightarrow> bytes \<Rightarrow> nat \<Rightarrow> nat \<Rightarrow> ('s, 'u, 'e, pystr option) disp" where
  "run_calls rt srv tlv count i =
     (if count \<le> i then ret None
      else case extract_raw_param_from_frame (upper_char rt) tlv (lit ''BGRFC_CALL_'' @ dec_digits i) of
        None \<Rightarrow> ret (Some (missing_call count i))
      | Some call \<Rightarrow>
          then_d (isolated_call rt srv call) (\<lambda>err.
            if err \<noteq> None then ret err else run_calls rt srv tlv count (i + 1)))"
  by pat_completeness auto
termination by (relation "measure (\<lambda>(rt, srv, tlv, count, i). count - i)") auto

declare run_calls.simps [simp del]

definition call_count :: "runtime \<Rightarrow> pystr \<Rightarrow> pystr + nat" where
  "call_count rt s =
     (if s = [] then Inr 0
      else case py_int s of
        None \<Rightarrow> Inl (lit ''BGRFC_DEST_SHIP: unreadable BGRFC_CALL_COUNT '' @ py_repr rt s)
      | Some n \<Rightarrow>
          if n < 0 then Inl (lit ''BGRFC_DEST_SHIP: negative BGRFC_CALL_COUNT -'' @ dec_digits (nat (- n)))
          else Inr (nat n))"

definition unit_id_problem :: "pystr \<Rightarrow> pystr option" where
  "unit_id_problem uid =
     (if uid = [] then Some (lit ''BGRFC_DEST_SHIP: missing BGRFC_UNIT_ID param in inbound frame'')
      else if length uid \<noteq> UNITID_LN then
        Some (lit ''BGRFC_DEST_SHIP: invalid UnitID length '' @ dec_digits (length uid)
              @ lit '' (expected '' @ dec_digits UNITID_LN @ lit '')'')
      else if \<exists>c \<in> set uid. c \<notin> set UNITID_CHARSET then
        Some (lit ''BGRFC_DEST_SHIP: UnitID contains characters outside uppercase hex charset (allowed: 0-9A-F)'')
      else None)"

definition check_unit :: "('s, 'u, 'e) rfc_server \<Rightarrow> unit_key \<Rightarrow> ('s, 'u, 'e, bool) disp" where
  "check_unit srv k =
     (case on_check_unit srv of
        Some f \<Rightarrow> then_d (uncaught (f k)) (\<lambda>rc. ret (rc = int RC_EXECUTED))
      | None \<Rightarrow> (\<lambda>w. then_d (reply (us_get_unit_state (unit_store_ops srv) (units w) k))
                   (\<lambda>st. ret (st = COMMITTED \<or> st = CONFIRMED)) w))"

text \<open>After the unit has been persisted.\<close>

definition finish_unit ::
    "('s, 'u, 'e) rfc_server \<Rightarrow> unit_key \<Rightarrow> pystr option \<Rightarrow> ('s, 'u, 'e, bytes) disp" where
  "finish_unit srv k err =
     (case err of
        Some m \<Rightarrow> then_d (notify_quietly (on_rollback_unit srv) k) (\<lambda>_. failure m)
      | None \<Rightarrow>
          then_d (notify_quietly (on_commit_unit srv) k) (\<lambda>_.
          then_d (with_units (us_confirm (unit_store_ops srv) k)) (\<lambda>_.
          then_d (notify_quietly (on_confirm_unit srv) k) (\<lambda>_.
            reply build_rfc_ok_response))))"

definition dispatch_bgrfc_unit ::
    "runtime \<Rightarrow> ('s, 'u, 'e) rfc_server \<Rightarrow> bytes \<Rightarrow> ('s, 'u, 'e, bytes) disp" where
  "dispatch_bgrfc_unit rt srv tlv =
     (let param = extract_param_from_frame (upper_char rt) (sap_dec rt) tlv in
      then_d (reply (param (lit ''BGRFC_UNIT_ID''))) (\<lambda>uid.
        case unit_id_problem uid of
          Some m \<Rightarrow> failure m
        | None \<Rightarrow>
            then_d (reply (param (lit ''BGRFC_UNIT_TYPE''))) (\<lambda>ty.
              let k = (uid, if ty = lit ''Q'' then ty else lit ''T'') in
              then_d (check_unit srv k) (\<lambda>already_done.
                if already_done then reply build_rfc_executed_response
                else
                  then_d (with_units (us_persist (unit_store_ops srv) k)) (\<lambda>_.
                  then_d (reply (param (lit ''BGRFC_CALL_COUNT''))) (\<lambda>cnt.
                    case call_count rt cnt of
                      Inl m \<Rightarrow> failure m
                    | Inr count \<Rightarrow>
                        then_d (run_calls rt srv tlv count 0) (finish_unit srv k)))))))"

text \<open>\<^verbatim>\<open>... or "T"\<close>: only an absent or empty type is replaced here.\<close>

definition queried_unit ::
    "runtime \<Rightarrow> bytes \<Rightarrow> pystr \<Rightarrow> (unit_key \<Rightarrow> ('s, 'u, 'e, bytes) disp) \<Rightarrow> ('s, 'u, 'e, bytes) disp" where
  "queried_unit rt tlv msg body =
     (let param = extract_param_from_frame (upper_char rt) (sap_dec rt) tlv in
      then_d (reply (param (lit ''BGRFC_UNIT_ID''))) (\<lambda>uid.
      then_d (reply (param (lit ''BGRFC_UNIT_TYPE''))) (\<lambda>ty.
        if uid = [] \<or> length uid \<noteq> UNITID_LN then failure msg
        else body (uid, if ty = [] then lit ''T'' else ty))))"

definition dispatch_bgrfc_confirm ::
    "runtime \<Rightarrow> ('s, 'u, 'e) rfc_server \<Rightarrow> bytes \<Rightarrow> ('s, 'u, 'e, bytes) disp" where
  "dispatch_bgrfc_confirm rt srv tlv =
     queried_unit rt tlv (lit ''BGRFC_DEST_CONFIRM: invalid or missing BGRFC_UNIT_ID'') (\<lambda>k.
       then_d (with_units (us_confirm (unit_store_ops srv) k)) (\<lambda>_.
       then_d (notify_quietly (on_confirm_unit srv) k) (\<lambda>_. reply build_rfc_ok_response)))"

definition state_response :: "UnitState \<Rightarrow> bytes res" where
  "state_response st =
     status_response RC_OK
       [text_record TAG_PARAM_NAME (lit ''BGRFC_STATE''), text_record TAG_PARAM_VALUE (unit_state_value st)]"

definition lookup_failed :: "pystr \<Rightarrow> py_exc \<Rightarrow> pystr \<Rightarrow> pystr" where
  "lookup_failed uid x m =
     lit ''BGRFC_CHECK_UNIT_STATE_SERVER: state lookup for '' @ uid @ lit '' failed ('' @ ux_type x
       @ lit '': '' @ m @ lit '') '' @ [8212] @ lit '' the state is unknown, not NOT_FOUND''"

definition dispatch_bgrfc_state_query ::
    "runtime \<Rightarrow> ('s, 'u, 'e) rfc_server \<Rightarrow> bytes \<Rightarrow> ('s, 'u, 'e, bytes) disp" where
  "dispatch_bgrfc_state_query rt srv tlv =
     queried_unit rt tlv (lit ''BGRFC_CHECK_UNIT_STATE_SERVER: invalid or missing BGRFC_UNIT_ID'') (\<lambda>k.
       case on_get_unit_state srv of
         Some f \<Rightarrow>
           then_d (caught (f k)) (\<lambda>r.
             case r of
               Inr st \<Rightarrow> reply (state_response st)
             | Inl x \<Rightarrow> (case first_line_of 200 x of
                            Inl y \<Rightarrow> (\<lambda>w. (Inl (Foreign y), w))
                          | Inr m \<Rightarrow> failure (lookup_failed (fst k) x m)))
       | None \<Rightarrow> (\<lambda>w. then_d (reply (us_get_unit_state (unit_store_ops srv) (units w) k))
                    (\<lambda>st. reply (state_response st)) w))"

section \<open>Dispatch\<close>

definition dispatch_inbound ::
    "runtime \<Rightarrow> ('s, 'u, 'e) rfc_server \<Rightarrow> bytes \<Rightarrow> ('s, 'u, 'e, bytes) disp" where
  "dispatch_inbound rt srv frame =
     (let tlv = strip_gw_header frame in
      then_d (reply (read_func_name tlv)) (\<lambda>fname.
        if fname = ARFC_DEST_SHIP then dispatch_transactional rt srv tlv
        else if fname = ARFC_DEST_CONFIRM then reply build_rfc_ok_response
        else if fname = BGRFC_DEST_SHIP then dispatch_bgrfc_unit rt srv tlv
        else if fname = BGRFC_DEST_CONFIRM then dispatch_bgrfc_confirm rt srv tlv
        else if fname = BGRFC_CHECK_UNIT_STATE_SERVER then dispatch_bgrfc_state_query rt srv tlv
        else dispatch_sync rt srv call_handler tlv fname))"

text \<open>The asynchronous server awaits handlers, but only on the synchronous path.\<close>

definition async_dispatch ::
    "runtime \<Rightarrow> ('s, 'u, 'e) rfc_server \<Rightarrow> bytes \<Rightarrow> ('s, 'u, 'e, bytes) disp" where
  "async_dispatch rt srv frame =
     (let tlv = strip_gw_header frame in
      then_d (reply (read_func_name tlv)) (\<lambda>fname.
        if fname \<in> {ARFC_DEST_SHIP, ARFC_DEST_CONFIRM, BGRFC_DEST_SHIP, BGRFC_DEST_CONFIRM,
                    BGRFC_CHECK_UNIT_STATE_SERVER}
        then dispatch_inbound rt srv frame
        else dispatch_sync rt srv await_handler tlv fname))"

end
