(* ===== verification/System_Requests.thy ===== *)
theory System_Requests
  imports Call_Roundtrip Server_Dispatch
begin

text \<open>
  The requests of the transactional and the background protocols (\<^verbatim>\<open>build_trfc_request\<close>,
  \<^verbatim>\<open>build_bgrfc_request\<close> and their confirmations in \<^verbatim>\<open>src/saprfclib/invoke.py\<close>) as the server's
  readers of \<^verbatim>\<open>src/saprfclib/server.py\<close> see them: a function name and named parameters, each of
  which is found again by its name.
\<close>

section \<open>System requests as record streams\<close>


definition param_records :: "pystr \<times> bytes \<Rightarrow> bytes res list" where
  "param_records p = [text_record TAG_PARAM_NAME (fst p), tlv_record TAG_PARAM_VALUE (snd p)]"

definition system_head :: "bytes \<Rightarrow> pystr \<Rightarrow> (nat \<times> bytes) list" where
  "system_head vb fm =
     [(TAG_CALL_START, []), (TAG_RFC_VERSION, vb), (TAG_FUNC_NAME, name_bytes fm), (TAG_PARAM_SECTION, [])]"

text \<open>What follows the terminator, the close tag or a frame's footer, is never read.\<close>

definition system_stream :: "bytes \<Rightarrow> pystr \<Rightarrow> (pystr \<times> bytes) list \<Rightarrow> bytes \<Rightarrow> bytes" where
  "system_stream vb fm ps rest =
     tlv_records (system_head vb fm @ concat (map (\<lambda>p. group_records TAG_TABLE_CONTENT (case_prod Scalar p)) ps))
       @ tlv_end @ [0, 0] @ rest"

abbreviation system_frame :: "bytes \<Rightarrow> pystr \<Rightarrow> (pystr \<times> bytes) list \<Rightarrow> bytes" where
  "system_frame vb fm ps \<equiv> system_stream vb fm ps [0xFF, 0xFF]"

definition ok_params :: "(pystr \<times> bytes) list \<Rightarrow> bool" where
  "ok_params ps \<longleftrightarrow> list_all (\<lambda>(n, v). ok_name n \<and> length v < 2 ^ 32) ps"

definition good_version :: "bytes \<Rightarrow> bytes \<Rightarrow> bool" where
  "good_version version vb \<longleftrightarrow> version_bytes version = Inr vb \<and> length vb < 2 ^ 32"

lemma text_record_encodable:
  "utf16le_encode v \<noteq> None \<Longrightarrow> text_record t v = tlv_record t (name_bytes v)"
  by (auto simp: text_record_def utf16_def name_bytes_def)

lemma named_param_records:
  "utf16le_encode v \<noteq> None \<Longrightarrow> named_param n v = param_records (n, name_bytes v)"
  by (simp add: named_param_def param_records_def text_record_encodable)

lemma system_head_ok:
  assumes "good_version version vb" and "ok_name fm"
  shows "\<forall>r \<in> set (system_head vb fm). ignored r \<and> ok_record r"
  using assms
  by (auto simp: system_head_def ok_record_def ignored_def request_tag_defs response_tag_defs
      ok_name_def good_version_def)

lemma scalar_groups_ok:
  assumes "ok_params ps"
  shows "\<forall>g \<in> set (map (case_prod Scalar) ps). good_group g"
    and "\<forall>g \<in> set (map (case_prod Scalar) ps). \<forall>r \<in> set (group_records rt g). ok_record r"
  using assms by (auto simp: ok_params_def list_all_iff ok_name_def ok_record_def request_tag_defs)

lemma param_records_written:
  assumes "ok_params ps"
  shows "join_records (concat (map param_records ps))
    = Inr (tlv_records (concat (map (\<lambda>p. group_records rt (case_prod Scalar p)) ps)))"
  using assms
proof (induction ps)
  case (Cons p ps)
  obtain n v where p: "p = (n, v)" by fastforce
  then have ok: "ok_name n" "length v < 2 ^ 32" and ps: "ok_params ps"
    using Cons.prems by (simp_all add: ok_params_def)
  have "ok_record (TAG_PARAM_NAME, name_bytes n)" "ok_record (TAG_PARAM_VALUE, v)"
    using ok by (simp_all add: ok_record_def ok_name_def request_tag_defs)
  then have "join_records (param_records (n, v)) = Inr (tlv_records (group_records rt (Scalar n v)))"
    using join_ok_records [of "[(TAG_PARAM_NAME, name_bytes n), (TAG_PARAM_VALUE, v)]"] ok
    by (simp add: param_records_def text_record_name ok_name_def)
  from join_records_append [OF this Cons.IH [OF ps]] show ?case
    by (simp add: p tlv_records_append tlv_records_Cons)
qed simp

lemma system_request_written:
  assumes v: "good_version version vb" and fm: "ok_name fm" and ps: "ok_params ps"
  shows "system_request fm (concat (map param_records ps)) version = Inr (system_frame vb fm ps)"
proof -
  have "\<forall>r \<in> set (system_head vb fm). ok_record r" using system_head_ok [OF v fm] by blast
  then have "join_records (map (\<lambda>(t, v). tlv_record t v) (system_head vb fm)) = Inr (tlv_records (system_head vb fm))"
    by (rule join_ok_records)
  then have head: "join_records [tlv_record TAG_CALL_START [], tlv_record TAG_RFC_VERSION vb,
      text_record TAG_FUNC_NAME fm, tlv_record TAG_PARAM_SECTION []] = Inr (tlv_records (system_head vb fm))"
    using fm by (simp add: system_head_def ok_name_def text_record_name)
  have end_rec: "join_records [tlv_record TAG_TERMINATOR []] = Inr (tlv_end @ [0, 0] @ [0xFF, 0xFF])"
    using join_records_Cons [OF terminator_record join_records_Nil] by simp
  show ?thesis
    using join_records_append [OF head join_records_append [OF param_records_written [OF ps] end_rec]] v
    by (simp add: system_request_def good_version_def system_stream_def tlv_records_append)
qed

lemma system_frame_tags:
  assumes "good_version version vb" and "ok_name fm" and "ok_params ps"
  shows "parse_tlv_stream (system_stream vb fm ps rest)
    = Inr (map_of (rev (system_head vb fm
        @ concat (map (\<lambda>p. group_records TAG_TABLE_CONTENT (case_prod Scalar p)) ps))))"
proof -
  have "\<forall>r \<in> set (system_head vb fm @ concat (map (\<lambda>p. group_records TAG_TABLE_CONTENT (case_prod Scalar p)) ps)).
      ok_record r"
    using system_head_ok [OF assms(1,2)] scalar_groups_ok(2) [OF assms(3), of TAG_TABLE_CONTENT] by fastforce
  then show ?thesis
    unfolding system_stream_def using parse_tlv_stream_written by (simp del: append.simps) force
qed


lemma no_such_record:
  assumes "t \<notin> {TAG_PARAM_NAME, TAG_PARAM_VALUE}"
  shows "t \<notin> fst ` set (concat (map (\<lambda>p. group_records rt (case_prod Scalar p)) ps))"
  using assms by auto

lemma system_frame_name:
  assumes "good_version version vb" and "ok_name fm" and "ok_params ps"
  shows "read_func_name (system_stream vb fm ps rest) = Inr fm"
proof -
  have "TAG_FUNC_NAME \<notin> {TAG_PARAM_NAME, TAG_PARAM_VALUE}" by (simp add: request_tag_defs)
  from tags_of_head [OF no_such_record [OF this], of "system_head vb fm"]
  show ?thesis
    using assms(2) decode_name_bytes(1)
    by (simp add: read_func_name_def system_frame_tags [OF assms] system_head_def request_tag_defs ok_name_def)
qed

lemma system_frame_pairs:
  assumes "good_version version vb" and "ok_name fm" and "ok_params ps"
  shows "\<exists>x. extract_name_value_pairs sd dm (system_stream vb fm ps rest) = Inr x \<and> pairs x = ps"
proof -
  have "map group_pair (map (case_prod Scalar) ps) = ps" by (induction ps) auto
  then show ?thesis
    using pairs_of_groups [OF system_head_ok [OF assms(1,2)] scalar_groups_ok [OF assms(3)], of TAG_TABLE_CONTENT sd dm 0 0 rest]
    by (simp add: system_stream_def comp_def del: append.simps) simp
qed

lemma system_frame_param:
  assumes "good_version version vb" and "ok_name fm" and "ok_params ps"
  shows "extract_param_from_frame uc sd (system_stream vb fm ps rest) nm =
    Inr (case first_named uc (py_upper uc nm) ps of None \<Rightarrow> [] | Some v \<Rightarrow> decode_utf16le (Some v))"
    and "extract_tid_from_frame uc sd (system_stream vb fm ps rest) =
    Inr (case first_named uc (lit ''ARFCTID'') ps of None \<Rightarrow> [] | Some v \<Rightarrow> decode_utf16le (Some v))"
proof -
  obtain x where x: "extract_name_value_pairs sd no_dm (system_stream vb fm ps rest) = Inr x" "pairs x = ps"
    using system_frame_pairs [OF assms] by blast
  have "TAG_5001 \<notin> {TAG_PARAM_NAME, TAG_PARAM_VALUE}" by (simp add: request_tag_defs TAG_5001_def)
  from tags_of_head [OF no_such_record [OF this], of "system_head vb fm"]
  have no: "\<exists>tags. parse_tlv_stream (system_stream vb fm ps rest) = Inr tags \<and> tags TAG_5001 = None"
    by (simp add: system_frame_tags [OF assms] system_head_def request_tag_defs TAG_5001_def)
  then show "extract_param_from_frame uc sd (system_stream vb fm ps rest) nm =
    Inr (case first_named uc (py_upper uc nm) ps of None \<Rightarrow> [] | Some v \<Rightarrow> decode_utf16le (Some v))"
    by (auto simp: extract_param_from_frame_def Let_def x split: option.splits)
  from no show "extract_tid_from_frame uc sd (system_stream vb fm ps rest) =
    Inr (case first_named uc (lit ''ARFCTID'') ps of None \<Rightarrow> [] | Some v \<Rightarrow> decode_utf16le (Some v))"
    by (auto simp: extract_tid_from_frame_def x split: option.splits)
qed

text \<open>A handler whose descriptor has none of the transport's parameters gets an empty request.\<close>

definition quiet_desc :: "(nat \<Rightarrow> pystr) \<Rightarrow> func_desc option \<Rightarrow> (pystr \<times> bytes) list \<Rightarrow> bool" where
  "quiet_desc uc fdesc ps \<longleftrightarrow>
     (case fdesc of None \<Rightarrow> True
      | Some desc \<Rightarrow> \<forall>(n, v) \<in> set ps. name_to_field uc desc (py_upper uc n) = None)"

lemma request_values_none:
  "\<forall>(n, v) \<in> set ps. fld (py_upper uc n) = None \<Longrightarrow> request_values fld uc ps acc = Inr acc"
  by (induction ps) auto

lemma system_frame_request:
  assumes "good_version version vb" and "ok_name fm" and "ok_params ps" and "quiet_desc uc fdesc ps"
  shows "deserialize_request uc sd (system_stream vb fm ps rest) fdesc = Inr []"
proof (cases fdesc)
  case (Some desc)
  obtain x where x: "extract_name_value_pairs sd no_dm (system_stream vb fm ps rest) = Inr x" "pairs x = ps"
    using system_frame_pairs [OF assms(1-3)] by blast
  have "TAG_5001 \<notin> {TAG_PARAM_NAME, TAG_PARAM_VALUE}" by (simp add: request_tag_defs TAG_5001_def)
  from tags_of_head [OF no_such_record [OF this], of "system_head vb fm"]
  have "\<exists>tags. parse_tlv_stream (system_stream vb fm ps rest) = Inr tags \<and> tags TAG_5001 = None"
    by (simp add: system_frame_tags [OF assms(1-3)] system_head_def request_tag_defs TAG_5001_def)
  then show ?thesis
    using assms(4) request_values_none [of ps "name_to_field uc desc" uc "[]"]
    by (auto simp: deserialize_request_def Some x quiet_desc_def)
qed (simp add: deserialize_request_def)

lemma be_bytes_two: "be_bytes 2 t = [word_of_nat (t div 256), word_of_nat t]"
  by (simp only: be_bytes_def numeral_2_eq_2) simp

lemma bare_stream:
  assumes "(t div 256) mod 256 \<noteq> 6"
  shows "strip_gw_header (tlv_records ((t, v) # rs) @ rest) = tlv_records ((t, v) # rs) @ rest"
proof -
  have "(word_of_nat (t div 256) :: byte) \<noteq> 6"
  proof
    assume "(word_of_nat (t div 256) :: byte) = 6"
    then have "unat (word_of_nat (t div 256) :: byte) = unat (6 :: byte)" by simp
    then show False using assms by simp
  qed
  then show ?thesis
    by (simp add: strip_gw_header_def tlv_records_Cons tlv_record_body_def be_bytes_two)
qed

lemma system_frame_bare: "strip_gw_header (system_stream vb fm ps rest) = system_stream vb fm ps rest"
  unfolding system_stream_def system_head_def append_Cons
  by (rule bare_stream) (simp add: request_tag_defs)

lemma raw_param_step:
  assumes "ok_record (t, v)"
  shows "raw_param_from uc want cur (tlv_record_body t v @ rest) =
    (if t = TAG_PARAM_NAME then raw_param_from uc want (Some (decode_utf16le (Some v))) rest
     else if t = TAG_PARAM_VALUE \<and> cur \<noteq> None then
       (if py_upper uc (the cur) = want then Some v else raw_param_from uc want None rest)
     else raw_param_from uc want cur rest)"
  by (subst raw_param_from.simps) (simp add: tlv_step_record [OF assms])

lemma raw_param_head:
  assumes "\<forall>r \<in> set rs. ok_record r \<and> ignored r"
  shows "raw_param_from uc want None (tlv_records rs @ rest) = raw_param_from uc want None rest"
  using assms
proof (induction rs)
  case (Cons r rs)
  then show ?case
    by (cases r) (simp add: tlv_records_Cons raw_param_step ignored_def)
qed simp

lemma raw_param_pairs:
  assumes "ok_params ps"
  shows "raw_param_from uc want None (tlv_records (concat (map (\<lambda>p. group_records rt (case_prod Scalar p)) ps))
      @ tlv_end @ x # y # rest) = first_named uc want ps"
  using assms
proof (induction ps)
  case Nil
  then show ?case
    by (simp add: raw_param_from.simps tlv_step_terminator first_named_def del: append_Cons)
next
  case (Cons p ps)
  obtain n v where p: "p = (n, v)" by fastforce
  then have ok: "ok_name n" "length v < 2 ^ 32" and ps: "ok_params ps"
    using Cons.prems by (simp_all add: ok_params_def)
  have r: "ok_record (TAG_PARAM_NAME, name_bytes n)" "ok_record (TAG_PARAM_VALUE, v)"
    using ok by (simp_all add: ok_record_def ok_name_def request_tag_defs)
  have d: "decode_utf16le (Some (name_bytes n)) = n" using ok decode_name_bytes(1) by (simp add: ok_name_def)
  have t: "TAG_PARAM_VALUE \<noteq> TAG_PARAM_NAME" by (simp add: request_tag_defs)
  show ?case
    using Cons.IH [OF ps] t
    by (simp add: p tlv_records_Cons raw_param_step [OF r(1)] raw_param_step [OF r(2)] d first_named_def)
qed

lemma system_frame_raw:
  assumes "good_version version vb" and "ok_name fm" and "ok_params ps"
  shows "extract_raw_param_from_frame uc (system_stream vb fm ps rest) nm = first_named uc (py_upper uc nm) ps"
  using raw_param_head [of "system_head vb fm"] system_head_ok [OF assms(1,2)] raw_param_pairs [OF assms(3)]
  by (simp add: extract_raw_param_from_frame_def system_stream_def tlv_records_append del: append.simps) simp

end
