(* ===== verification/Tx_Delivery.thy ===== *)
theory Tx_Delivery
  imports System_Requests
begin

text \<open>
  The exactly-once promise of transactional calls.  The specification keeps the set of executed ids
  and the application's state; a delivery of an executed id is a duplicate, any other runs the
  handler, and a failed one leaves its id open.  Every sequence of deliveries of frames built by the
  client does on the server model what the specification says, over either store; the number of
  completed runs of each id is then a fact about the specification.
\<close>

section \<open>Exactly once\<close>

datatype outcome = Duplicate | Done | Failed pystr

definition spec_deliver :: "'e handler_fn \<Rightarrow> pystr \<Rightarrow> pystr set \<times> 'e \<Rightarrow> outcome \<times> pystr set \<times> 'e" where
  "spec_deliver h t s =
     (case s of (E, e) \<Rightarrow>
        if t \<in> E then (Duplicate, E, e)
        else case call_handler h [] e of
          (Inl x, e') \<Rightarrow> (Failed (ux_text x), E, e')
        | (Inr r, e') \<Rightarrow> (Done, insert t E, e'))"

fun outcome_reply :: "outcome \<Rightarrow> bytes res" where
  "outcome_reply Duplicate = build_rfc_executed_response"
| "outcome_reply Done = build_rfc_ok_response"
| "outcome_reply (Failed m) = build_system_failure m"

definition answer :: "'a res \<Rightarrow> escape + 'a" where
  "answer r = (case r of Inl e \<Rightarrow> Inl (Raised e) | Inr x \<Rightarrow> Inr x)"

lemma reply_answer: "reply r w = (answer r, w)"
  by (simp add: reply_def answer_def split: sum.splits)

definition plain_tx :: "('s, 'u, 'e) rfc_server \<Rightarrow> bool" where
  "plain_tx srv \<longleftrightarrow> on_check_transaction srv = None \<and> on_commit_transaction srv = None \<and>
     on_rollback_transaction srv = None"

lemma then_d_reply_Inr: "then_d (reply (Inr x)) f = f x"
  by (simp add: fun_eq_iff disp_defs)

context tid_store
begin

text \<open>One delivery of a valid, registered call.\<close>

lemma transactional_delivery:
  assumes srv: "tid_store_ops srv = \<lparr>ts_is_executed = is_executed, ts_mark_received = mark_received,
        ts_mark_executed = mark_executed, ts_mark_rolled_back = mark_rolled_back\<rparr>" "plain_tx srv" and i: "inv (tids w)"
    and tid: "extract_tid_from_frame (upper_char rt) (sap_dec rt) tlv = Inr tid" "tid_problem tid = None"
    and fm: "extract_param_from_frame (upper_char rt) (sap_dec rt) tlv (lit ''ARFCFNAM'') = Inr fm" "fm \<noteq> []"
    and reg: "map_of (registry srv) (py_upper (upper_char rt) fm) = Some (fdesc, h)"
    and req: "deserialize_request (upper_char rt) (sap_dec rt) tlv fdesc = Inr []"
  shows "\<exists>oc w'. dispatch_transactional rt srv tlv w = (answer (outcome_reply oc), w') \<and>
    inv (tids w') \<and> units w' = units w \<and>
    spec_deliver h tid (executed (tids w), app w) = (oc, executed (tids w'), app w')"
proof (cases "tid \<in> executed (tids w)")
  case True
  have "check_transaction srv tid w = (Inr True, w)"
    using srv is_executed [OF i, of tid] True by (simp add: check_transaction_def plain_tx_def reply_def)
  then have "dispatch_transactional rt srv tlv w = (answer (outcome_reply Duplicate), w)"
    by (simp add: dispatch_transactional_def then_d_reply_Inr tid reply_answer) (simp add: then_d_def reply_answer)
  with True i show ?thesis by (force simp: spec_deliver_def)
next
  case False
  obtain s1 where s1: "mark_received tid (tids w) = (Inr (), s1)" "inv s1" "executed s1 = executed (tids w)"
    using mark_received [OF i, of tid] False by auto
  obtain r e1 where r: "call_handler h [] (app w) = (r, e1)" by fastforce
  let ?w1 = "w\<lparr>tids := s1, app := e1\<rparr>"
  have start: "dispatch_transactional rt srv tlv w = run_transaction rt srv tlv tid (w\<lparr>tids := s1\<rparr>)"
  proof -
    have "check_transaction srv tid w = (Inr False, w)"
      using srv is_executed [OF i, of tid] False by (simp add: check_transaction_def plain_tx_def reply_def)
    then show ?thesis
      using srv(1) s1(1) by (simp add: dispatch_transactional_def then_d_reply_Inr tid) (simp add: then_d_def with_tids_def)
  qed
  have run: "run_transaction rt srv tlv tid (w\<lparr>tids := s1\<rparr>) =
      (case r of Inl x \<Rightarrow> roll_back srv tid (ux_text x) ?w1
       | Inr _ \<Rightarrow> then_d (with_tids (mark_executed tid)) (\<lambda>_. then_d (notify None tid)
             (\<lambda>_. reply build_rfc_ok_response)) ?w1)"
    using fm reg req r srv
    by (cases r) (simp_all add: run_transaction_def find_entry_def disp_defs plain_tx_def)
  show ?thesis
  proof (cases r)
    case (Inl x)
    obtain s2 where s2: "mark_rolled_back tid s1 = (Inr (), s2)" "inv s2" "executed s2 = executed (tids w)"
      using mark_rolled_back [OF s1(2), of tid] s1(3) False by auto
    have "roll_back srv tid (ux_text x) ?w1 = (answer (outcome_reply (Failed (ux_text x))), ?w1\<lparr>tids := s2\<rparr>)"
      using srv s2(1) by (simp add: roll_back_def plain_tx_def failure_def reply_answer
         then_d_def with_tids_def notify_def ret_def)
    with s2 r False show ?thesis by (force simp: start run Inl spec_deliver_def)
  next
    case (Inr v)
    obtain s2 where s2: "mark_executed tid s1 = (Inr (), s2)" "inv s2" "executed s2 = insert tid (executed (tids w))"
      using mark_executed [OF s1(2), of tid] s1(3) by auto
    have "then_d (with_tids (mark_executed tid)) (\<lambda>_. then_d (notify None tid)
        (\<lambda>_. reply build_rfc_ok_response)) ?w1 = (answer (outcome_reply Done), ?w1\<lparr>tids := s2\<rparr>)"
      using s2(1) by (simp add: then_d_def with_tids_def notify_def ret_def reply_answer)
    with s2 r False show ?thesis by (force simp: start run Inr spec_deliver_def)
  qed
qed

end


section \<open>Client-built deliveries\<close>

text \<open>A transaction as the client ships it: its id, the function, the queue.\<close>

type_synonym delivery = "pystr \<times> pystr \<times> pystr option"

definition tx_params :: "delivery \<Rightarrow> (pystr \<times> bytes) list" where
  "tx_params d =
     (case d of (tid, fm, q) \<Rightarrow>
        [(lit ''ARFCTID'', name_bytes tid), (lit ''ARFCFNAM'', name_bytes fm)]
        @ (case q of None \<Rightarrow> [] | Some x \<Rightarrow> [(lit ''ARFCQUEUE'', name_bytes x)]))"

definition deliverable :: "runtime \<Rightarrow> ('s, 'u, 'e) rfc_server \<Rightarrow> delivery \<Rightarrow> bool" where
  "deliverable rt srv d \<longleftrightarrow>
     (case d of (tid, fm, q) \<Rightarrow>
        validate_tid tid = Inr () \<and> ok_name fm \<and>
        (case q of None \<Rightarrow> True | Some x \<Rightarrow> validate_queue_name x = Inr () \<and> ok_name x) \<and>
        (case map_of (registry srv) (py_upper (upper_char rt) fm) of None \<Rightarrow> False
         | Some (fdesc, h) \<Rightarrow> quiet_desc (upper_char rt) fdesc (tx_params d)))"

definition handler_of :: "runtime \<Rightarrow> ('s, 'u, 'e) rfc_server \<Rightarrow> pystr \<Rightarrow> 'e handler_fn" where
  "handler_of rt srv fm = snd (the (map_of (registry srv) (py_upper (upper_char rt) fm)))"

lemma tid_chars_ascii: "c \<in> set TID_ALPHABET \<Longrightarrow> c < 128 \<and> \<not> is_pad c"
  by (auto simp: TID_ALPHABET_def is_pad_def)

lemma tid_name: "validate_tid tid = Inr () \<Longrightarrow> ok_name tid"
proof -
  assume "validate_tid tid = Inr ()"
  then have l: "length tid = TID_LN" and c: "set tid \<subseteq> set TID_ALPHABET"
    by (auto simp: validate_tid_def check_def split: if_splits)
  then have "tid \<noteq> []" by (auto simp: TID_LN_def)
  then have "last tid \<in> set TID_ALPHABET" using c last_in_set by blast
  then show "ok_name tid"
    using l c \<open>tid \<noteq> []\<close> tid_chars_ascii by (intro ok_name_short) (auto simp: is_ascii_def TID_LN_def)
qed

lemma tid_problem_iff: "tid_problem tid = None \<longleftrightarrow> validate_tid tid = Inr ()"
  by (auto simp: tid_problem_def validate_tid_def check_def TID_LN_def)

lemma short_names: "ok_name (lit ''ARFCTID'')" "ok_name (lit ''ARFCFNAM'')" "ok_name (lit ''ARFCQUEUE'')"
    "ok_name ARFC_DEST_SHIP" "ok_name BGRFC_DEST_SHIP"
  by (rule ok_name_short; simp add: is_ascii_def is_pad_def dest_names)+

lemma upper_names: "py_upper uc (lit ''ARFCTID'') = lit ''ARFCTID''" "py_upper uc (lit ''ARFCFNAM'') = lit ''ARFCFNAM''"
  "py_upper uc (lit ''ARFCQUEUE'') = lit ''ARFCQUEUE''"
  by (simp_all add: py_upper_def upper_cp_def)

lemma name_bytes_short: "ok_name n \<Longrightarrow> length (name_bytes n) < 2 ^ 32"
  by (simp add: ok_name_def)

lemma tx_params_ok:
  assumes "deliverable rt srv d"
  shows "ok_params (tx_params d)"
  using assms tid_name short_names
  by (auto simp: deliverable_def tx_params_def ok_params_def ok_name_def split: option.splits prod.splits)

lemma named_params: "ok_name v \<Longrightarrow> named_param n v = param_records (n, name_bytes v)"
  by (rule named_param_records) (simp add: ok_name_def good_name_def)

lemma trfc_request_written:
  assumes "deliverable rt srv (tid, fm, q)" and "good_version version vb"
  shows "build_trfc_request tid fm q version = Inr (system_frame vb ARFC_DEST_SHIP (tx_params (tid, fm, q)))"
proof -
  have ok: "validate_tid tid = Inr ()" "ok_name tid" "ok_name fm"
    using assms(1) tid_name by (auto simp: deliverable_def)
  have parts: "named_param (lit ''ARFCTID'') tid @ named_param (lit ''ARFCFNAM'') fm
      @ (case q of None \<Rightarrow> [] | Some x \<Rightarrow> named_param (lit ''ARFCQUEUE'') x)
      = concat (map param_records (tx_params (tid, fm, q)))"
    using assms(1) ok by (auto simp: tx_params_def named_params deliverable_def split: option.splits)
  have qn: "(case q of None \<Rightarrow> Inr () | Some x \<Rightarrow> validate_queue_name x) = Inr ()"
    using assms(1) by (auto simp: deliverable_def split: option.splits)
  show ?thesis
    using system_request_written [OF assms(2) short_names(4) tx_params_ok [OF assms(1)]]
    unfolding build_trfc_request_def parts qn ok by (simp add: ARFC_DEST_SHIP_def)
qed

lemma tx_params_found:
  "first_named uc (lit ''ARFCTID'') (tx_params (tid, fm, q)) = Some (name_bytes tid)"
  "first_named uc (lit ''ARFCFNAM'') (tx_params (tid, fm, q)) = Some (name_bytes fm)"
  by (simp_all add: tx_params_def first_named_def py_upper_def upper_cp_def)

context tid_store
begin

lemma shipped_delivery:
  assumes srv: "tid_store_ops srv = \<lparr>ts_is_executed = is_executed, ts_mark_received = mark_received,
        ts_mark_executed = mark_executed, ts_mark_rolled_back = mark_rolled_back\<rparr>" "plain_tx srv"
    and i: "inv (tids w)" and v: "good_version version vb" and d: "deliverable rt srv (tid, fm, q)"
    and f: "strip_gw_header frame = system_stream vb ARFC_DEST_SHIP (tx_params (tid, fm, q)) rest"
  shows "\<exists>oc w'. dispatch_inbound rt srv frame w
      = (answer (outcome_reply oc), w') \<and> inv (tids w') \<and> units w' = units w \<and>
    spec_deliver (handler_of rt srv fm) tid (executed (tids w), app w) = (oc, executed (tids w'), app w')"
proof -
  note fr = v short_names(4) tx_params_ok [OF d]
  have ok: "ok_name tid" "ok_name fm" using d tid_name by (auto simp: deliverable_def)
  then have n: "decode_utf16le (Some (name_bytes tid)) = tid" "decode_utf16le (Some (name_bytes fm)) = fm"
      "fm \<noteq> []" "tid_problem tid = None"
    using d decode_name_bytes(1) by (auto simp: deliverable_def ok_name_def tid_problem_iff good_name_def)
  obtain fdesc h where reg: "map_of (registry srv) (py_upper (upper_char rt) fm) = Some (fdesc, h)"
      and qd: "quiet_desc (upper_char rt) fdesc (tx_params (tid, fm, q))"
    using d by (auto simp: deliverable_def split: option.splits prod.splits)
  have "dispatch_inbound rt srv frame w
      = dispatch_transactional rt srv (system_stream vb ARFC_DEST_SHIP (tx_params (tid, fm, q)) rest) w"
    by (simp add: dispatch_inbound_def Let_def f system_frame_name [OF fr] then_d_reply_Inr)
  moreover have "extract_tid_from_frame (upper_char rt) (sap_dec rt)
      (system_stream vb ARFC_DEST_SHIP (tx_params (tid, fm, q)) rest) = Inr tid"
    by (simp only: system_frame_param(2) [OF fr] tx_params_found option.case n)
  moreover have "extract_param_from_frame (upper_char rt) (sap_dec rt)
      (system_stream vb ARFC_DEST_SHIP (tx_params (tid, fm, q)) rest) (lit ''ARFCFNAM'') = Inr fm"
    by (simp only: system_frame_param(1) [OF fr] upper_names tx_params_found option.case n)
  ultimately show ?thesis
    using transactional_delivery [OF srv i _ n(4) _ n(3) reg system_frame_request [OF fr qd]]
    by (simp add: handler_of_def reg)
qed

end

section \<open>Sequences of deliveries\<close>

fun dispatch_all ::
    "runtime \<Rightarrow> ('s, 'u, 'e) rfc_server \<Rightarrow> bytes list \<Rightarrow> ('s, 'u, 'e) world \<Rightarrow> (escape + bytes) list \<times> ('s, 'u, 'e) world" where
  "dispatch_all rt srv [] w = ([], w)"
| "dispatch_all rt srv (f # fs) w =
     (case dispatch_inbound rt srv f w of (r, w1) \<Rightarrow>
        case dispatch_all rt srv fs w1 of (rs, w2) \<Rightarrow> (r # rs, w2))"

fun spec_all ::
    "(pystr \<Rightarrow> 'e handler_fn) \<Rightarrow> delivery list \<Rightarrow> pystr set \<times> 'e \<Rightarrow> outcome list \<times> pystr set \<times> 'e" where
  "spec_all H [] s = ([], s)"
| "spec_all H ((t, fm, q) # ds) s =
     (case spec_deliver (H fm) t s of (oc, s1) \<Rightarrow>
        case spec_all H ds s1 of (ocs, s2) \<Rightarrow> (oc # ocs, s2))"

text \<open>How often the handler of a transaction ran to its end.\<close>

definition completions :: "pystr \<Rightarrow> delivery list \<Rightarrow> outcome list \<Rightarrow> nat" where
  "completions t ds ocs = length (filter (\<lambda>(d, oc). fst d = t \<and> oc = Done) (zip ds ocs))"

lemma spec_completions:
  assumes "spec_all H ds (E, e) = (ocs, E', e')"
  shows "completions t ds ocs \<le> (if t \<in> E then 0 else 1) \<and> length ocs = length ds \<and>
    (t \<in> E' \<longleftrightarrow> t \<in> E \<or> completions t ds ocs = 1)"
  using assms
proof (induction ds arbitrary: E e ocs)
  case Nil
  then show ?case by (simp add: completions_def)
next
  case (Cons d ds)
  obtain u fm q where d: "d = (u, fm, q)" by (cases d)
  obtain oc E1 e1 where o: "spec_deliver (H fm) u (E, e) = (oc, E1, e1)" by (metis prod_cases3)
  obtain os E2 e2 where r: "spec_all H ds (E1, e1) = (os, E2, e2)" by (metis prod_cases3)
  have ocs: "ocs = oc # os" "E2 = E'" "e2 = e'" using Cons.prems by (auto simp: d o r)
  have step: "E1 = (if oc = Done then insert u E else E) \<and> (oc = Done \<longrightarrow> u \<notin> E)"
    using o by (auto simp: spec_deliver_def split: if_splits prod.splits sum.splits)
  show ?case
    using Cons.IH [OF r [unfolded ocs(2,3)]] step unfolding ocs d completions_def by (auto split: if_splits)
qed


definition shipped :: "bytes \<Rightarrow> delivery \<Rightarrow> bytes" where
  "shipped vb d = system_frame vb ARFC_DEST_SHIP (tx_params d)"

context tid_store
begin

lemma shipped_all:
  assumes srv: "tid_store_ops srv = \<lparr>ts_is_executed = is_executed, ts_mark_received = mark_received,
        ts_mark_executed = mark_executed, ts_mark_rolled_back = mark_rolled_back\<rparr>" "plain_tx srv"
    and v: "good_version version vb"
  shows "inv (tids w) \<Longrightarrow> \<forall>d \<in> set ds. deliverable rt srv d \<Longrightarrow>
    \<exists>ocs w'. dispatch_all rt srv (map (shipped vb) ds) w = (map (answer \<circ> outcome_reply) ocs, w') \<and>
      inv (tids w') \<and> units w' = units w \<and>
      spec_all (handler_of rt srv) ds (executed (tids w), app w) = (ocs, executed (tids w'), app w')"
proof (induction ds arbitrary: w)
  case (Cons d ds)
  obtain t fm q where d: "d = (t, fm, q)" by (cases d)
  have del: "deliverable rt srv (t, fm, q)" using Cons.prems(2) by (simp add: d)
  obtain oc w1 where w1: "dispatch_inbound rt srv (shipped vb d) w = (answer (outcome_reply oc), w1)"
      "inv (tids w1)" "units w1 = units w"
      "spec_deliver (handler_of rt srv fm) t (executed (tids w), app w) = (oc, executed (tids w1), app w1)"
    using shipped_delivery [OF srv Cons.prems(1) v del system_frame_bare [where rest = "[0xFF, 0xFF]"]]
    by (auto simp: shipped_def d)
  obtain ocs w2 where w2: "dispatch_all rt srv (map (shipped vb) ds) w1 = (map (answer \<circ> outcome_reply) ocs, w2)"
      "inv (tids w2)" "units w2 = units w1"
      "spec_all (handler_of rt srv) ds (executed (tids w1), app w1) = (ocs, executed (tids w2), app w2)"
    using Cons.IH [OF w1(2)] Cons.prems(2) by auto
  have "dispatch_all rt srv (map (shipped vb) (d # ds)) w = (map (answer \<circ> outcome_reply) (oc # ocs), w2)"
    using w1(1) w2(1) by simp
  moreover have "spec_all (handler_of rt srv) (d # ds) (executed (tids w), app w) = (oc # ocs, executed (tids w2), app w2)"
    using w1(4) w2(4) by (simp add: d)
  ultimately show ?case using w1 w2 by metis
qed simp

text \<open>Every shipped transaction is run to its end at most once, whatever is shipped again.\<close>

lemma shipped_once:
  assumes "tid_store_ops srv = \<lparr>ts_is_executed = is_executed, ts_mark_received = mark_received,
        ts_mark_executed = mark_executed, ts_mark_rolled_back = mark_rolled_back\<rparr>" "plain_tx srv"
    and "good_version version vb" and "inv (tids w)" and "\<forall>d \<in> set ds. deliverable rt srv d"
  shows "\<exists>ocs w'. dispatch_all rt srv (map (shipped vb) ds) w = (map (answer \<circ> outcome_reply) ocs, w') \<and>
      inv (tids w') \<and> units w' = units w \<and>
      spec_all (handler_of rt srv) ds (executed (tids w), app w) = (ocs, executed (tids w'), app w') \<and>
      (\<forall>t. completions t ds ocs \<le> (if t \<in> executed (tids w) then 0 else 1) \<and>
           (t \<in> executed (tids w') \<longleftrightarrow> t \<in> executed (tids w) \<or> completions t ds ocs = 1))"
  using shipped_all [OF assms] spec_completions by metis

end

lemma frames_shipped:
  assumes "good_version version vb" and "\<forall>d \<in> set ds. deliverable rt srv d"
    and "map (\<lambda>(t, fm, q). build_trfc_request t fm q version) ds = map Inr frames"
  shows "frames = map (shipped vb) ds"
proof -
  have each: "build_trfc_request t fm q version = Inr (shipped vb (t, fm, q))" if "(t, fm, q) \<in> set ds" for t fm q
    using that assms(2) trfc_request_written [OF _ assms(1), of rt srv t fm q] by (auto simp: shipped_def)
  have "map Inr frames = map (\<lambda>d. Inr (shipped vb d) :: bytes res) ds"
    unfolding assms(3) [symmetric] using each by auto
  then have "map (projr \<circ> (Inr :: bytes \<Rightarrow> bytes res)) frames = map (projr \<circ> (\<lambda>d. Inr (shipped vb d) :: bytes res)) ds"
    by (metis map_map)
  then show ?thesis by (simp add: comp_def)
qed

definition mem_tid_ops :: "mem_tid_store tid_ops" where
  "mem_tid_ops = \<lparr>ts_is_executed = mem_is_executed, ts_mark_received = mem_mark_received,
     ts_mark_executed = mem_mark_executed, ts_mark_rolled_back = mem_mark_rolled_back\<rparr>"

definition sq_tid_ops :: "int \<Rightarrow> pystr sq_db tid_ops" where
  "sq_tid_ops now = \<lparr>ts_is_executed = sq_is_executed, ts_mark_received = sq_mark_received now,
     ts_mark_executed = sq_mark_executed now, ts_mark_rolled_back = sq_mark_rolled_back now\<rparr>"

text \<open>A restarted server: the database is closed and opened again.\<close>

lemma sq_restart:
  assumes "sq_inv db0" and "sq_init (snd (sq_close db0)) = (Inr (), db)"
  shows "sq_inv db" and "sq_executed db = sq_executed db0"
proof -
  obtain rs where rs: "rows db0 = Some rs" using assms(1) by (auto simp: sq_inv_def)
  then have "rows db = Some rs \<and> db_open db"
    using sq_init_keeps_rows [OF assms(2)] by (simp add: sq_close_def)
  then show "sq_inv db" "sq_executed db = sq_executed db0"
    using assms(1) rs by (auto simp: sq_inv_def sq_rows_def sq_executed_def)
qed

section \<open>A server with one handler\<close>

definition demo_runtime :: runtime where
  "demo_runtime = \<lparr>upper_char = (\<lambda>c. [c]), sap_dec = (\<lambda>s n. Inl DecompressError),
     to_float = (\<lambda>v. Inl TypeError), py_repr = (\<lambda>s. [39] @ s @ [39]), unicode_error_text = (\<lambda>b. [])\<rparr>"

definition demo_handler :: "nat handler_fn" where
  "demo_handler = Plain (\<lambda>req n. (Inr None, n + 1))"

definition demo_unit_ops :: "unit unit_ops" where
  "demo_unit_ops = \<lparr>us_get_unit_state = (\<lambda>s k. Inr NOT_FOUND), us_persist = (\<lambda>k s. (Inr (), s)),
     us_confirm = (\<lambda>k s. (Inr (), s))\<rparr>"

definition demo_server :: "'s tid_ops \<Rightarrow> 'u unit_ops \<Rightarrow> ('s, 'u, nat) rfc_server" where
  "demo_server t u = register demo_runtime (lit ''Z_ADD'') None demo_handler
     \<lparr>registry = [], generic = None, auth_check = None, tid_store_ops = t, unit_store_ops = u,
      on_check_transaction = None, on_commit_transaction = None, on_rollback_transaction = None,
      on_confirm_transaction = None, on_check_unit = None, on_commit_unit = None,
      on_rollback_unit = None, on_confirm_unit = None, on_get_unit_state = None\<rparr>"

definition demo_tid :: pystr where "demo_tid = lit ''0A1B2C3D4E5F6A7B8C9D0E1F''"

lemma demo_server_simps [simp]:
  "tid_store_ops (demo_server t u) = t" "unit_store_ops (demo_server t u) = u"
  "plain_tx (demo_server t u)"
  by (simp_all add: demo_server_def register_def plain_tx_def)

lemma demo_registered:
  "map_of (registry (demo_server t u)) (py_upper (upper_char demo_runtime) (lit ''Z_ADD'')) = Some (None, demo_handler)"
  by (simp add: demo_server_def register_def)

lemma demo_deliverable: "deliverable demo_runtime (demo_server t u) (demo_tid, lit ''Z_ADD'', None)"
proof -
  have "ok_name (lit ''Z_ADD'')" by (rule ok_name_short) (simp_all add: is_ascii_def is_pad_def)
  moreover have "validate_tid demo_tid = Inr ()"
    by (simp add: validate_tid_def check_def demo_tid_def TID_LN_def TID_ALPHABET_def)
  ultimately show ?thesis
    unfolding deliverable_def prod.case option.case demo_registered by (simp add: quiet_desc_def)
qed

lemma demo_handler_of: "handler_of demo_runtime (demo_server t u) (lit ''Z_ADD'') = demo_handler"
  unfolding handler_of_def demo_registered by simp

lemma demo_version: "good_version RFC_VERSION [0x37, 0, 0x35, 0, 0x34, 0]"
  by (simp add: good_version_def sample_version)

lemma demo_spec: "spec_all (handler_of demo_runtime (demo_server t u))
    [(demo_tid, lit ''Z_ADD'', None), (demo_tid, lit ''Z_ADD'', None)] ({}, 0)
    = ([Done, Duplicate], {demo_tid}, 1)"
  unfolding spec_all.simps demo_handler_of by (simp add: spec_deliver_def demo_handler_def)

section \<open>Properties\<close>

text \<open>C3. A transactional call is executed exactly once however often it is shipped.  For every sequence
  of frames the client builds for registered functions, duplicates included, the server's replies,
  the set of executed ids and the application's state are those of the specification: an executed id
  is answered as a duplicate without running the handler, a failed one is rolled back and may be
  shipped again, and no id's handler ever completes twice.\<close>

theorem transactions_exactly_once:
  assumes "tid_store_ops srv = mem_tid_ops" and "plain_tx srv" and "mem_inv (tids w)"
    and "good_version version vb" and "\<forall>d \<in> set ds. deliverable rt srv d"
    and "map (\<lambda>(t, fm, q). build_trfc_request t fm q version) ds = map Inr frames"
  shows "\<exists>ocs w'. dispatch_all rt srv frames w = (map (answer \<circ> outcome_reply) ocs, w') \<and>
      units w' = units w \<and>
      spec_all (handler_of rt srv) ds (mem_executed (tids w), app w) = (ocs, mem_executed (tids w'), app w') \<and>
      (\<forall>t. completions t ds ocs \<le> (if t \<in> mem_executed (tids w) then 0 else 1) \<and>
           (t \<in> mem_executed (tids w') \<longleftrightarrow> t \<in> mem_executed (tids w) \<or> completions t ds ocs = 1))"
  using mem_tid.shipped_once [OF assms(1) [unfolded mem_tid_ops_def] assms(2,4,3,5)]
    frames_shipped [OF assms(4-6)] by blast

theorem transactions_exactly_once_witness:
  "\<exists>f w'. build_trfc_request demo_tid (lit ''Z_ADD'') None RFC_VERSION = Inr f \<and>
    dispatch_all demo_runtime (demo_server mem_tid_ops demo_unit_ops) [f, f] \<lparr>tids = mem_new, units = (), app = 0\<rparr>
      = ([answer build_rfc_ok_response, answer build_rfc_executed_response], w') \<and> app w' = 1"
proof -
  obtain f where f: "build_trfc_request demo_tid (lit ''Z_ADD'') None RFC_VERSION = Inr f"
    using trfc_request_written [OF demo_deliverable demo_version] by blast
  let ?ds = "[(demo_tid, lit ''Z_ADD'', None), (demo_tid, lit ''Z_ADD'', None)]"
  let ?srv = "demo_server mem_tid_ops demo_unit_ops"
  let ?w = "\<lparr>tids = mem_new, units = (), app = 0\<rparr> :: (mem_tid_store, unit, nat) world"
  have e: "mem_executed (tids ?w) = {}" "app ?w = 0" by (simp_all add: mem_executed_def mem_new_def)
  have i: "mem_inv (tids ?w)" by (simp add: mem_new_inv)
  have d: "\<forall>d \<in> set ?ds. deliverable demo_runtime ?srv d"
    using demo_deliverable [of mem_tid_ops demo_unit_ops] by simp
  have m: "map (\<lambda>(t, fm, q). build_trfc_request t fm q RFC_VERSION) ?ds = map Inr [f, f]"
    using f by simp
  obtain ocs w' where w': "dispatch_all demo_runtime ?srv [f, f] ?w = (map (answer \<circ> outcome_reply) ocs, w')"
      "spec_all (handler_of demo_runtime ?srv) ?ds (mem_executed (tids ?w), app ?w) = (ocs, mem_executed (tids w'), app w')"
    using transactions_exactly_once [OF _ _ i demo_version d m] by auto
  have "(ocs, mem_executed (tids w'), app w') = ([Done, Duplicate], {demo_tid}, 1)"
    using w'(2) unfolding e demo_spec by simp
  with w'(1) f show ?thesis by auto
qed

text \<open>Executed ids survive a restart.  After the database of the durable store has been closed and
  opened again, the server still treats every id executed before as executed: none of their handlers
  completes again, and the deliveries follow the specification from the old set of ids.\<close>

lemma transactions_survive_restart:
  assumes "tid_store_ops srv = sq_tid_ops now" and "plain_tx srv" and "sq_inv (tids w)"
    and "sq_init (snd (sq_close (tids w))) = (Inr (), db)"
    and "good_version version vb" and "\<forall>d \<in> set ds. deliverable rt srv d"
    and "map (\<lambda>(t, fm, q). build_trfc_request t fm q version) ds = map Inr frames"
  shows "\<exists>ocs w'. dispatch_all rt srv frames (w\<lparr>tids := db\<rparr>) = (map (answer \<circ> outcome_reply) ocs, w') \<and>
      spec_all (handler_of rt srv) ds (sq_executed (tids w), app w) = (ocs, sq_executed (tids w'), app w') \<and>
      (\<forall>t \<in> sq_executed (tids w). completions t ds ocs = 0)"
proof -
  have i: "sq_inv (tids (w\<lparr>tids := db\<rparr>))" using sq_restart [OF assms(3,4)] by simp
  obtain ocs w' where "dispatch_all rt srv (map (shipped vb) ds) (w\<lparr>tids := db\<rparr>) = (map (answer \<circ> outcome_reply) ocs, w')"
      "spec_all (handler_of rt srv) ds (sq_executed (tids w), app w) = (ocs, sq_executed (tids w'), app w')"
      "\<forall>t. completions t ds ocs \<le> (if t \<in> sq_executed (tids w) then 0 else 1)"
    using sq_tid.shipped_once [OF assms(1) [unfolded sq_tid_ops_def] assms(2,5) i assms(6)]
    by (auto simp: sq_restart(2) [OF assms(3,4)])
  moreover from this have "\<forall>t \<in> sq_executed (tids w). completions t ds ocs = 0" by (metis le_zero_eq)
  ultimately show ?thesis using frames_shipped [OF assms(5-7)] by blast
qed

definition demo_db :: "pystr sq_db" where
  "demo_db = \<lparr>db_open = True, user_version = 1,
     rows = Some [(demo_tid, \<lparr>r_state = TID_EXECUTED, r_payload = None, r_updated = 5\<rparr>)]\<rparr>"

end
