(* ===== verification/Call_Delivery.thy ===== *)
theory Call_Delivery
  imports Tx_Delivery
begin

text \<open>
  What reaches the other side: a call from the client's parameters through the server's handler back
  to the client's result, a failing handler's text, the reach of the authentication callback, and
  what becomes of asynchronous handlers, of invalid and of confirmed transaction ids.
\<close>


section \<open>A synchronous call\<close>

definition system_names :: "pystr set" where
  "system_names = {ARFC_DEST_SHIP, ARFC_DEST_CONFIRM, BGRFC_DEST_SHIP, BGRFC_DEST_CONFIRM,
     BGRFC_CHECK_UNIT_STATE_SERVER}"

lemma dispatch_sync_path:
  assumes "strip_gw_header frame = tlv" and "read_func_name tlv = Inr fn" and "fn \<notin> system_names"
  shows "dispatch_inbound rt srv frame w = dispatch_sync rt srv call_handler tlv fn w"
    and "async_dispatch rt srv frame w = dispatch_sync rt srv await_handler tlv fn w"
  using assms
  by (simp_all add: dispatch_inbound_def async_dispatch_def then_d_reply_Inr system_names_def)

text \<open>The request the client writes starts with the call tag, not with a gateway header.\<close>

lemma request_bare:
  "strip_gw_header (tlv_records (request_stream uc tf vb fn desc ps) @ rest)
    = tlv_records (request_stream uc tf vb fn desc ps) @ rest"
  unfolding request_stream_def request_head_def append_Cons
  by (rule bare_stream) (simp add: request_tag_defs)

lemma behind_gateway_header:
  assumes "length hdr = 80" and "take 1 hdr = [6]" and "strip_gw_header frame = frame"
  shows "dispatch_inbound rt srv (hdr @ frame) = dispatch_inbound rt srv frame"
proof -
  have "take 1 (hdr @ frame) = [6]" using assms(1,2) by (cases hdr) auto
  then have "strip_gw_header (hdr @ frame) = frame" using assms(1) by (simp add: strip_gw_header_def)
  then show ?thesis using assms(3) by (simp add: dispatch_inbound_def fun_eq_iff)
qed

lemma sync_runs_handler:
  assumes "map_of (registry srv) (py_upper (upper_char rt) fn) = Some (fdesc, h)"
    and "check_auth srv tlv w = (Inr True, w1)"
    and "deserialize_request (upper_char rt) (sap_dec rt) tlv fdesc = Inr req"
    and "run h req (app w1) = (r, e')"
  shows "dispatch_sync rt srv run tlv fn w =
    (case r of Inl x \<Rightarrow> failure (ux_text x) | Inr res \<Rightarrow> reply (respond rt fdesc res)) (w1\<lparr>app := e'\<rparr>)"
  using assms by (simp add: dispatch_sync_def find_entry_def ret_def then_d_def reply_def caught_def)

text \<open>A failing handler.\<close>

definition failure_text :: "pystr \<Rightarrow> pystr" where
  "failure_text m =
     (let line = rstrip_by is_pad (sanitize_message m)
      in if line \<noteq> [] then line else lit ''RFC return code 3'')"

lemma sanitize_ascii: "is_ascii m \<Longrightarrow> is_ascii (sanitize_message m) \<and> length (sanitize_message m) \<le> 512"
  by (auto simp: sanitize_message_def is_ascii_def first_line_def dest!: in_set_takeD set_takeWhileD)

definition failure_records :: "bytes \<Rightarrow> (nat \<times> bytes) list" where
  "failure_records b =
     [(TAG_RESPONSE_START, []), (TAG_RETURN_CODE, be_bytes 4 RC_SYSTEM_FAILURE), (TAG_EXCEPTION_TEXT, b)]"

lemma ascii_failure:
  "is_ascii m \<Longrightarrow> utf16le_encode (sanitize_message m) = Some (concat (map (le_bytes 2) (sanitize_message m)))"
  using sanitize_ascii [of m] by (simp add: utf16le_encode_def utf16_units_ascii)

lemma length_utf16le: "utf16le_encode s = Some b \<Longrightarrow> length b \<le> 4 * length s"
proof -
  have "utf16_units s = Some us \<Longrightarrow> length us \<le> 2 * length s" for us
    by (induction s arbitrary: us) (auto split: if_splits option.splits)
  then show "utf16le_encode s = Some b \<Longrightarrow> length b \<le> 4 * length s"
    by (fastforce simp: utf16le_encode_def length_concat comp_def sum_list_triv)
qed

lemma failure_written:
  assumes "utf16le_encode (sanitize_message m) = Some b"
  shows "build_system_failure m = Inr (tlv_records (failure_records b) @ tlv_end @ [0, 0] @ [0xFF, 0xFF])"
    and "\<forall>r \<in> set (failure_records b). ok_record r"
proof -
  let ?r = "(TAG_EXCEPTION_TEXT, b)"
  have "length (sanitize_message m) \<le> 512" by (simp add: sanitize_message_def)
  then have "length b \<le> 2048" using length_utf16le [OF assms] by simp
  then have ok: "ok_record ?r" by (simp add: ok_record_def TAG_EXCEPTION_TEXT_def)
  have "join_records [text_record TAG_EXCEPTION_TEXT (sanitize_message m)] = Inr (tlv_records [?r])"
    using join_ok_records [of "[?r]"] ok assms by (simp add: text_record_def utf16_def)
  from status_response_written [OF this]
  show "build_system_failure m = Inr (tlv_records (failure_records b) @ tlv_end @ [0, 0] @ [0xFF, 0xFF])"
    by (simp add: build_system_failure_def failure_records_def)
  show "\<forall>r \<in> set (failure_records b). ok_record r"
    using ok by (simp add: failure_records_def) (simp add: ok_record_def TAG_RESPONSE_START_def TAG_RETURN_CODE_def)
qed

lemma failure_unwritable:
  "utf16le_encode (sanitize_message m) = None \<Longrightarrow> build_system_failure m = Inl UnicodeError"
  by (simp add: build_system_failure_def status_response_def join_records_def text_record_def utf16_def
      tlv_record_def TAG_RESPONSE_START_def TAG_RETURN_CODE_def)

lemma failure_text_decoded:
  assumes "is_ascii m"
  shows "Rfc_Errors.decode_error_text (Some (concat (map (le_bytes 2) (sanitize_message m))))
    = rstrip_by is_pad (sanitize_message m)"
  using decode_error_text_utf16 [OF _ ascii_failure [OF assms]] sanitize_ascii [OF assms] by simp

lemma failure_read:
  assumes "utf16le_encode (sanitize_message m) = Some b"
  defines "line \<equiv> rstrip_by is_pad (if \<forall>c \<in> set (sanitize_message m). c < 256 then sanitize_message m else latin1_decode b)"
  shows "\<exists>resp i. build_system_failure m = Inr resp \<and>
    parse_invoke_response uc u8 sapdec bx resp desc dm = Inl (AbapSystemFailure i) \<and>
    message i = Some (if line \<noteq> [] then line else lit ''RFC return code 3'')"
proof -
  note wr = failure_written [OF assms(1)]
  define resp where "resp = tlv_records (failure_records b) @ tlv_end @ 0 # 0 # [0xFF, 0xFF]"
  define tags where "tags = map_of (rev (failure_records b))"
  have ts: "parse_tlv_stream resp = Inr tags"
    unfolding resp_def tags_def by (rule parse_tlv_stream_written [OF wr(2)])
  have t: "tags TAG_EXCEPTION_NUMBER = None" "tags TAG_RETURN_CODE = Some (be_bytes 4 RC_SYSTEM_FAILURE)"
      "tags TAG_EXCEPTION_TEXT = Some b"
    by (simp_all add: tags_def failure_records_def TAG_EXCEPTION_NUMBER_def TAG_RETURN_CODE_def
        TAG_EXCEPTION_TEXT_def TAG_RESPONSE_START_def)
  have "tlv_record_body TAG_RESPONSE_START [] = [5, 0, 0, 0, 5, 0]"
    by (simp add: tlv_record_body_def TAG_RESPONSE_START_def be_bytes_two)
  then have gw: "parse_gateway_error u8 resp = None"
    by (simp add: resp_def failure_records_def tlv_records_Cons parse_gateway_error_def
        GATEWAY_ERROR_MARKER_def starts_with_def)
  have rc: "be_val (be_bytes 4 RC_SYSTEM_FAILURE) = 3" by (simp add: RC_SYSTEM_FAILURE_def)
  have digits: "dec_digits 3 = lit ''3''" by (subst dec_digits.simps) simp
  have "Rfc_Errors.decode_error_text (Some b) = line"
    unfolding line_def by (rule decode_error_text_written [OF assms(1)])
  then have "raise_for_rfc_error u8 resp (Some tags)
      = Inl (AbapSystemFailure (error_info tags None (Some (if line \<noteq> [] then line else lit ''RFC return code 3''))))"
    by (simp add: raise_for_rfc_error_def gw raise_for_tags_def t RC_SYSTEM_FAILURE_def Let_def digits)
  moreover have "build_system_failure m = Inr resp" using wr(1) by (simp add: resp_def)
  ultimately show ?thesis by (auto simp: parse_invoke_response_def ts error_info_def)
qed

section \<open>Authentication\<close>

lemma dispatch_ignores_auth:
  assumes "fname \<in> system_names" and "read_func_name (strip_gw_header frame) = Inr fname"
  shows "dispatch_inbound rt (srv\<lparr>auth_check := a\<rparr>) frame = dispatch_inbound rt srv frame"
proof -
  let ?s = "srv\<lparr>auth_check := a\<rparr>"
  have e: "find_entry rt ?s n = find_entry rt srv n" for n by (simp add: find_entry_def cong: option.case_cong if_cong sum.case_cong prod.case_cong)
  have rb: "roll_back ?s t m = roll_back srv t m" for t m by (simp add: roll_back_def)
  have t: "dispatch_transactional rt ?s tlv = dispatch_transactional rt srv tlv" for tlv
    by (simp add: dispatch_transactional_def check_transaction_def run_transaction_def e rb cong: option.case_cong if_cong sum.case_cong prod.case_cong)
  have b: "isolated_call rt ?s c w = isolated_call rt srv c w" for c w
    by (simp add: isolated_call_def execute_buffered_call_def e cong: option.case_cong if_cong sum.case_cong prod.case_cong)
  have r: "run_calls rt ?s tlv n i = run_calls rt srv tlv n i" for tlv n i
  proof (induction "n - i" arbitrary: i)
    case 0
    then show ?case by (simp add: run_calls.simps)
  next
    case (Suc k)
    then have "run_calls rt ?s tlv n (i + 1) = run_calls rt srv tlv n (i + 1)" by simp
    moreover have "isolated_call rt ?s c = isolated_call rt srv c" for c by (simp add: fun_eq_iff b)
    ultimately show ?case
      by (subst (1 2) run_calls.simps) (simp cong: option.case_cong if_cong sum.case_cong prod.case_cong)
  qed
  have f: "finish_unit ?s k = finish_unit srv k" for k
    by (simp add: fun_eq_iff finish_unit_def cong: option.case_cong if_cong sum.case_cong prod.case_cong)
  have u: "dispatch_bgrfc_unit rt ?s tlv = dispatch_bgrfc_unit rt srv tlv" for tlv
    by (simp add: dispatch_bgrfc_unit_def check_unit_def r f Let_def cong: option.case_cong if_cong sum.case_cong prod.case_cong)
  have c: "dispatch_bgrfc_confirm rt ?s tlv = dispatch_bgrfc_confirm rt srv tlv" for tlv
    by (simp add: dispatch_bgrfc_confirm_def)
  have q: "dispatch_bgrfc_state_query rt ?s tlv = dispatch_bgrfc_state_query rt srv tlv" for tlv
    by (simp add: dispatch_bgrfc_state_query_def cong: option.case_cong)
  show ?thesis
    using assms by (auto simp: dispatch_inbound_def then_d_reply_Inr system_names_def t u c q Let_def cong: if_cong)
qed

section \<open>Asynchronous handlers\<close>

lemma async_dispatch_system:
  assumes "read_func_name (strip_gw_header frame) = Inr fn" and "fn \<in> system_names"
  shows "async_dispatch rt srv frame = dispatch_inbound rt srv frame"
  using assms by (simp add: async_dispatch_def then_d_reply_Inr system_names_def)

section \<open>Servers with one handler\<close>

definition serving :: "pystr \<Rightarrow> func_desc option \<Rightarrow> nat handler_fn \<Rightarrow> (mem_tid_store, unit, nat) rfc_server" where
  "serving nm fdesc h = register demo_runtime nm fdesc h (demo_server mem_tid_ops demo_unit_ops)"

definition fresh_world :: "(mem_tid_store, unit, nat) world" where
  "fresh_world = \<lparr>tids = mem_new, units = (), app = 0\<rparr>"

lemma serving_simps [simp]:
  "map_of (registry (serving nm fdesc h)) (py_upper (upper_char demo_runtime) nm) = Some (fdesc, h)"
  "auth_check (serving nm fdesc h) = None" "tid_store_ops (serving nm fdesc h) = mem_tid_ops"
  "plain_tx (serving nm fdesc h)"
  by (simp_all add: serving_def register_def demo_server_def map_of_update plain_tx_def)

lemma demo_upper: "upper_char demo_runtime = (\<lambda>c. [c])"
  by (simp add: demo_runtime_def)

lemma sum_name: "lit ''Z_SUM'' \<notin> system_names"
  by (simp add: system_names_def dest_names)

section \<open>Properties\<close>

text \<open>A remote call returns what the handler computed.  For every descriptor, every set of parameters
  that fits it and every registered handler whose result fits, the frame the client builds makes the
  server run the handler once, on exactly the importing, changing and table values supplied, and the
  reply parses at the client to exactly the exporting, changing and table values it returned.\<close>

lemma call_end_to_end:
  assumes desc: "good_desc (upper_char rt) desc" and fn: "ok_name fn" "fn \<notin> system_names"
    and v: "good_version version vb"
    and known: "unknown_parameters (upper_char rt) desc ps = []"
    and fit: "\<forall>(f, v) \<in> set (request_args (upper_char rt) desc ps). param_fits f v"
    and reg: "map_of (registry srv) (py_upper (upper_char rt) fn) = Some (Some desc, Plain h)"
    and noauth: "auth_check srv = None"
    and h: "h (named_values (request_args (upper_char rt) desc ps)) (app w) = (Inr (Some out), e')"
    and outfit: "\<forall>(f, v) \<in> set (result_args (upper_char rt) desc out). param_fits f v"
  shows "\<exists>frame resp. build_invoke_request (upper_char rt) tf fn desc ps version = Inr frame \<and>
    dispatch_inbound rt srv frame w = (Inr resp, w\<lparr>app := e'\<rparr>) \<and>
    parse_invoke_response (upper_char rt) u8 sapdec bx resp desc dm
      = Inr (named_values (result_args (upper_char rt) desc out))"
proof -
  define frame where "frame = tlv_records (request_stream (upper_char rt) tf vb fn desc ps) @ tlv_end @ [0, 0] @ [0xFF, 0xFF]"
  define resp where "resp = tlv_records (result_stream (upper_char rt) (to_float rt) desc out) @ tlv_end @ [0, 0] @ [0xFF, 0xFF]"
  have vb: "version_bytes version = Inr vb" "length vb < 2 ^ 32" using v by (simp_all add: good_version_def)
  note rd = request_read [OF desc fn(1) vb fit frame_def]
  have bare: "strip_gw_header frame = frame" unfolding frame_def by (rule request_bare)
  have auth: "check_auth srv frame w = (Inr True, w)" by (simp add: check_auth_def noauth ret_def)
  have "dispatch_inbound rt srv frame w = dispatch_sync rt srv call_handler frame fn w"
    by (rule dispatch_sync_path(1) [OF bare rd(1) fn(2)])
  also have "\<dots> = reply (respond rt (Some desc) (Dict_Result out)) (w\<lparr>app := e'\<rparr>)"
    using sync_runs_handler [OF reg auth rd(2), of call_handler] h by (simp add: dict_result_def)
  also have "\<dots> = (Inr resp, w\<lparr>app := e'\<rparr>)"
    using build_response_written [OF desc outfit, of "to_float rt"]
    by (simp add: respond_def resp_def reply_def)
  finally have d: "dispatch_inbound rt srv frame w = (Inr resp, w\<lparr>app := e'\<rparr>)" .
  show ?thesis
    using d build_invoke_request_written [OF desc fn(1) vb known fit, of tf]
      response_read [OF desc outfit resp_def] by (auto simp: frame_def)
qed




text \<open>The authentication callback guards synchronous calls and nothing else.  A synchronous call of
  a registered function that the callback denies is refused without running the handler; a
  transactional or background call is dispatched as if no callback were installed.\<close>

lemma authentication_scope:
  assumes "strip_gw_header frame = tlv" and "read_func_name tlv = Inr fn"
  shows "(fn \<notin> system_names \<longrightarrow> auth_check srv = Some cb \<longrightarrow> extract_credentials tlv = Inr (user, pwd) \<longrightarrow>
      cb (Keywords user pwd) (app w) = (Inr False, e') \<longrightarrow>
      map_of (registry srv) (py_upper (upper_char rt) fn) \<noteq> None \<longrightarrow>
      dispatch_inbound rt srv frame w
        = (answer (build_system_failure (lit ''authentication failed'')), w\<lparr>app := e'\<rparr>)) \<and>
    (fn \<in> system_names \<longrightarrow> dispatch_inbound rt (srv\<lparr>auth_check := a\<rparr>) frame w = dispatch_inbound rt srv frame w)"
proof (intro conjI impI)
  assume sync: "fn \<notin> system_names" and cb: "auth_check srv = Some cb"
    "extract_credentials tlv = Inr (user, pwd)" "cb (Keywords user pwd) (app w) = (Inr False, e')"
    and reg: "map_of (registry srv) (py_upper (upper_char rt) fn) \<noteq> None"
  have "check_auth srv tlv w = (Inr False, w\<lparr>app := e'\<rparr>)"
    using cb by (simp add: check_auth_def then_d_reply_Inr) (simp add: then_d_def caught_def ret_def)
  moreover obtain fdesc h where "map_of (registry srv) (py_upper (upper_char rt) fn) = Some (fdesc, h)"
    using reg by auto
  ultimately show "dispatch_inbound rt srv frame w
        = (answer (build_system_failure (lit ''authentication failed'')), w\<lparr>app := e'\<rparr>)"
    unfolding dispatch_sync_path(1) [OF assms sync]
    by (simp add: dispatch_sync_def find_entry_def ret_def then_d_def failure_def reply_answer)
next
  assume "fn \<in> system_names"
  then show "dispatch_inbound rt (srv\<lparr>auth_check := a\<rparr>) frame w = dispatch_inbound rt srv frame w"
    using dispatch_ignores_auth assms by metis
qed

text \<open>On the asynchronous server an asynchronous handler of a transactional call is never run: the
  dispatch calls it without awaiting it, reports success, and records the id as executed, so that no
  later delivery runs it either.\<close>

lemma async_transaction_not_run:
  assumes "tid_store_ops srv = mem_tid_ops" and "plain_tx srv" and "mem_inv (tids w)"
    and "good_version version vb" and "deliverable rt srv (tid, fm, q)"
    and "build_trfc_request tid fm q version = Inr frame"
    and "handler_of rt srv fm = Async f" and "tid \<notin> mem_executed (tids w)"
  shows "\<exists>w'. async_dispatch rt srv frame w = (answer build_rfc_ok_response, w') \<and>
    app w' = app w \<and> tid \<in> mem_executed (tids w')"
proof -
  have frame: "frame = system_frame vb ARFC_DEST_SHIP (tx_params (tid, fm, q))"
    using trfc_request_written [OF assms(5,4)] assms(6) by simp
  have name: "read_func_name (strip_gw_header frame) = Inr ARFC_DEST_SHIP"
    unfolding frame system_frame_bare
    by (rule system_frame_name [OF assms(4) short_names(4) tx_params_ok [OF assms(5)]])
  obtain oc w' where w': "dispatch_inbound rt srv frame w = (answer (outcome_reply oc), w')"
      "spec_deliver (Async f) tid (mem_executed (tids w), app w) = (oc, mem_executed (tids w'), app w')"
    using mem_tid.shipped_delivery [OF assms(1) [unfolded mem_tid_ops_def] assms(2-5)
      system_frame_bare [where rest = "[0xFF, 0xFF]"]] assms(7)
    by (auto simp: frame)
  then have "oc = Done" "app w' = app w" "tid \<in> mem_executed (tids w')"
    using assms(8) by (auto simp: spec_deliver_def)
  with w'(1) async_dispatch_system [OF name, of rt srv] show ?thesis
    by (auto simp: system_names_def)
qed

text \<open>An id that is not a transaction id never reaches a store or a handler: whatever a frame carries
  that the client's own validation would refuse is answered with a system failure and changes
  nothing.\<close>

lemma invalid_tid_rejected:
  assumes "read_func_name (strip_gw_header frame) = Inr ARFC_DEST_SHIP"
    and "extract_tid_from_frame (upper_char rt) (sap_dec rt) (strip_gw_header frame) = Inr tid"
    and "validate_tid tid \<noteq> Inr ()"
  shows "\<exists>m. dispatch_inbound rt srv frame w = (answer (build_system_failure m), w)"
proof -
  obtain m where "tid_problem tid = Some m" using assms(3) tid_problem_iff by fastforce
  then show ?thesis
    using assms(1,2)
    by (auto simp: dispatch_inbound_def then_d_reply_Inr dispatch_transactional_def failure_def reply_answer)
qed

text \<open>A confirmation is answered but not acted on: whatever state the server is in, the confirmation
  the client builds for a transaction id is answered with success and changes nothing, so an executed
  id stays in the store.\<close>

lemma confirmation_changes_nothing:
  assumes "good_version version vb" and "build_trfc_confirm_request tid version = Inr frame"
  shows "dispatch_inbound rt srv frame w = (answer build_rfc_ok_response, w)"
proof -
  have v: "validate_tid tid = Inr ()"
    using assms(2) by (auto simp: build_trfc_confirm_request_def bind_res_Inr)
  let ?ps = "[(lit ''ARFCTID'', name_bytes tid)]"
  have ps: "ok_params ?ps" using tid_name [OF v] short_names(1) by (simp add: ok_params_def ok_name_def)
  have fm: "ok_name ARFC_DEST_CONFIRM" by (rule ok_name_short) (simp_all add: is_ascii_def is_pad_def dest_names)
  have "frame = system_frame vb ARFC_DEST_CONFIRM ?ps"
    using system_request_written [OF assms(1) fm ps] assms(2) v named_params [OF tid_name [OF v]]
    by (simp add: build_trfc_confirm_request_def ARFC_DEST_CONFIRM_def)
  then have "read_func_name (strip_gw_header frame) = Inr ARFC_DEST_CONFIRM"
    using system_frame_name [OF assms(1) fm ps] by (simp add: system_frame_bare)
  moreover have "ARFC_DEST_CONFIRM \<noteq> ARFC_DEST_SHIP" by (simp add: dest_names)
  ultimately show ?thesis by (simp add: dispatch_inbound_def then_d_reply_Inr reply_answer)
qed

end
