(* ===== verification/Server_Loop.thy ===== *)
theory Server_Loop
  imports Call_Delivery
begin

text \<open>
  The serving side of \<^verbatim>\<open>src/saprfclib/server.py\<close>: registration with the gateway, the loop that takes
  conversation ids, idle frames and calls, and the frames sent after each call.

  \<open>send\<close> writes one frame.  What is received is a list, one entry per round of the loop: the value of
  the stop flag when the round starts, and the frame or the exception of \<^verbatim>\<open>recv_message\<close>; the end of
  the list is a closed connection.  Threads are left out: the loop is the only writer of its socket.
\<close>

section \<open>Registration\<close>

definition hostname_frame :: "pystr \<Rightarrow> bytes \<Rightarrow> bytes" where
  "hostname_frame local_host prog =
     (let lh = take 127 (ascii_enc_replace local_host); pid = take 63 prog;
          f = put_slice 0 (length lh) lh (replicate 512 0x20);
          f = f[length lh := 0];
          f = put_slice 128 (128 + length pid) pid f
      in f[128 + length pid := 0])"

section \<open>Calls\<close>

text \<open>Sending stops at the first failure.\<close>

fun send_frames :: "(bytes \<Rightarrow> ('t, unit) act) \<Rightarrow> bytes list \<Rightarrow> ('t, unit) act" where
  "send_frames send [] t = (Inr (), t)"
| "send_frames send (f # fs) t =
     (case send f t of (Inl e, t') \<Rightarrow> (Inl e, t') | (Inr u, t') \<Rightarrow> send_frames send fs t')"

definition after_call :: "bytes \<Rightarrow> bytes list" where
  "after_call gw = [build_post_call_b gw, build_post_call_d2 gw, build_reg_waiting]"

text \<open>Whatever goes wrong, in the dispatch or in sending, is logged.\<close>

definition dispatch_and_reply_sync ::
    "runtime \<Rightarrow> ('s, 'u, 'e) rfc_server \<Rightarrow> (bytes \<Rightarrow> ('t, unit) act) \<Rightarrow> bytes \<Rightarrow> bytes \<Rightarrow>
       ('s, 'u, 'e) world \<times> 't \<Rightarrow> ('s, 'u, 'e) world \<times> 't" where
  "dispatch_and_reply_sync rt srv send frame gw s =
     (case dispatch_inbound rt srv frame (fst s) of
        (Inl x, w') \<Rightarrow> (w', snd s)
      | (Inr resp, w') \<Rightarrow>
          (case wrap_in_0608 resp gw of
             Inl e \<Rightarrow> (w', snd s)
           | Inr full \<Rightarrow> (w', snd (send_frames send (full # after_call gw) (snd s)))))"

definition frame_type :: "bytes \<Rightarrow> nat" where
  "frame_type frame = be_val (take 2 frame)"

definition next_handle :: "bytes \<Rightarrow> bytes \<Rightarrow> bytes" where
  "next_handle frame gw =
     (if frame_type frame = 0x06CF \<and> 48 \<le> length frame then py_slice 40 48 frame else gw)"

definition serve_frame ::
    "runtime \<Rightarrow> ('s, 'u, 'e) rfc_server \<Rightarrow> (bytes \<Rightarrow> ('t, unit) act) \<Rightarrow> bytes \<Rightarrow> bytes \<Rightarrow>
       ('s, 'u, 'e) world \<times> 't \<Rightarrow> ('s, 'u, 'e) world \<times> 't" where
  "serve_frame rt srv send frame gw s =
     (if 2 \<le> length frame \<and> frame_type frame = 0x0603
      then dispatch_and_reply_sync rt srv send frame gw s else s)"

type_synonym inbox = "(bool \<times> bytes res) list"

fun serve_loop ::
    "runtime \<Rightarrow> ('s, 'u, 'e) rfc_server \<Rightarrow> (bytes \<Rightarrow> ('t, unit) act) \<Rightarrow> inbox \<Rightarrow> bytes \<Rightarrow>
       (('s, 'u, 'e) world \<times> 't, unit) act" where
  "serve_loop rt srv send [] gw s = (Inr (), s)"
| "serve_loop rt srv send ((stopped, r) # rest) gw s =
     (if stopped then (Inr (), s)
      else case r of
        Inl e \<Rightarrow> if isinstance e C_EOFError \<or> isinstance e C_OSError then (Inr (), s) else (Inl e, s)
      | Inr frame \<Rightarrow>
          if length frame < 2 then serve_loop rt srv send rest gw s
          else serve_loop rt srv send rest (next_handle frame gw)
                 (serve_frame rt srv send frame (next_handle frame gw) s))"

definition BLANK_HANDLE :: bytes where "BLANK_HANDLE = replicate 8 32"

text \<open>The whole life of a registration; \<open>first\<close> is the answer to the opening frame.  The closing frame
  is sent only when the server was registered and has been stopped; a failing send is ignored there
  when it is an \<^verbatim>\<open>OSError\<close>.\<close>

definition serve_blocking ::
    "runtime \<Rightarrow> ('s, 'u, 'e) rfc_server \<Rightarrow> (bytes \<Rightarrow> ('t, unit) act) \<Rightarrow> bytes \<Rightarrow> pystr \<Rightarrow> pystr \<Rightarrow>
       bytes res \<Rightarrow> inbox \<Rightarrow> bool \<Rightarrow> (('s, 'u, 'e) world \<times> 't, unit) act" where
  "serve_blocking rt srv send local_ip local_host program_id first inbox stopped s =
     (case bind_res (ascii_bytes program_id) (\<lambda>prog.
         map_res (Pair prog) (build_ni_init local_ip local_host program_id)) of
        Inl e \<Rightarrow> (Inl e, s)
      | Inr (prog, ni) \<Rightarrow>
          (case send ni (snd s) of
             (Inl e, t) \<Rightarrow> (Inl e, (fst s, t))
           | (Inr u, t) \<Rightarrow>
               (case first of
                  Inl e \<Rightarrow> (Inl e, (fst s, t))
                | Inr opening \<Rightarrow>
                    (case send_frames send [hostname_frame local_host prog, build_reg_waiting] t of
                       (Inl e, t') \<Rightarrow> (Inl e, (fst s, t'))
                     | (Inr u, t') \<Rightarrow>
                         (case serve_loop rt srv send inbox BLANK_HANDLE (fst s, t') of
                            (r, (w, t'')) \<Rightarrow>
                              if \<not> stopped then (r, (w, t''))
                              else case send build_listen_end t'' of
                                (Inl e, t3) \<Rightarrow> if isinstance e C_OSError then (r, (w, t3)) else (Inl e, (w, t3))
                              | (Inr u, t3) \<Rightarrow> (r, (w, t3)))))))"

section \<open>Properties\<close>

text \<open>A transport that never fails and remembers what was written.\<close>

definition log_send :: "bytes \<Rightarrow> (bytes list, unit) act" where
  "log_send f out = (Inr (), out @ [f])"

lemma send_all_log: "send_frames log_send fs out = (Inr (), out @ fs)"
  by (induction fs arbitrary: out) (auto simp: log_send_def)

text \<open>What the gateway receives for one call.\<close>

definition call_frames :: "bytes \<Rightarrow> escape + bytes \<Rightarrow> bytes list" where
  "call_frames gw r =
     (case r of Inl x \<Rightarrow> []
      | Inr resp \<Rightarrow> (case wrap_in_0608 resp gw of Inl e \<Rightarrow> [] | Inr full \<Rightarrow>
          [full, build_post_call_b gw, build_post_call_d2 gw, build_reg_waiting]))"

lemma dispatch_and_reply_log:
  "dispatch_and_reply_sync rt srv log_send frame gw (w, out) =
    (case dispatch_inbound rt srv frame w of (r, w') \<Rightarrow> (w', out @ call_frames gw r))"
  by (cases "dispatch_inbound rt srv frame w"; cases "fst (dispatch_inbound rt srv frame w)")
    (auto simp: dispatch_and_reply_sync_def call_frames_def after_call_def send_all_log simp del: send_frames.simps split: sum.splits)

text \<open>A conversation: the frame with its id, idle frames, the call.\<close>

definition idle :: "bytes \<Rightarrow> bool" where
  "idle f \<longleftrightarrow> length f < 2 \<or> frame_type f = 0x06CE"

definition conversation_id :: "bytes \<Rightarrow> bytes \<Rightarrow> bool" where
  "conversation_id h f \<longleftrightarrow> 48 \<le> length f \<and> frame_type f = 0x06CF \<and> py_slice 40 48 f = h"

definition call_frame :: "bytes \<Rightarrow> bool" where
  "call_frame f \<longleftrightarrow> 2 \<le> length f \<and> frame_type f = 0x0603"

type_synonym conversation = "bytes \<times> bytes list \<times> bytes"

definition conversation_ok :: "bytes \<Rightarrow> conversation \<Rightarrow> bool" where
  "conversation_ok h c \<longleftrightarrow>
     (case c of (f, idles, cl) \<Rightarrow> conversation_id h f \<and> list_all idle idles \<and> call_frame cl)"

definition conversation_inbox :: "conversation \<Rightarrow> inbox" where
  "conversation_inbox c = (case c of (f, idles, cl) \<Rightarrow> map (\<lambda>x. (False, Inr x)) (f # idles @ [cl]))"

lemma serve_idle:
  "list_all idle fs \<Longrightarrow> serve_loop rt srv send (map (\<lambda>x. (False, Inr x)) fs @ rest) gw s
    = serve_loop rt srv send rest gw s"
  by (induction fs) (auto simp: idle_def next_handle_def serve_frame_def)

lemma serve_conversation:
  assumes "conversation_ok h c"
  shows "serve_loop rt srv log_send (conversation_inbox c @ rest) gw (w, out) =
    (case dispatch_inbound rt srv (snd (snd c)) w of (r, w') \<Rightarrow>
       serve_loop rt srv log_send rest h (w', out @ call_frames h r))"
proof -
  obtain f idles cl where c: "c = (f, idles, cl)" by (cases c)
  have f: "2 \<le> length f" "next_handle f gw = h" "frame_type f \<noteq> 0x0603"
    and i: "list_all idle idles" and cl: "2 \<le> length cl" "frame_type cl = 0x0603" "next_handle cl h = h"
    using assms by (auto simp: conversation_ok_def c conversation_id_def call_frame_def next_handle_def)
  have "serve_loop rt srv log_send (conversation_inbox c @ rest) gw (w, out)
      = serve_loop rt srv log_send (map (\<lambda>x. (False, Inr x)) idles @ (False, Inr cl) # rest) h (w, out)"
    using f by (simp add: conversation_inbox_def c serve_frame_def)
  also have "\<dots> = serve_loop rt srv log_send ((False, Inr cl) # rest) h (w, out)" by (rule serve_idle [OF i])
  also have "\<dots> = serve_loop rt srv log_send rest h (dispatch_and_reply_sync rt srv log_send cl h (w, out))"
    using cl by (simp add: serve_frame_def)
  finally show ?thesis by (simp add: dispatch_and_reply_log c split: prod.splits)
qed

text \<open>C5. Every call is answered in its own conversation, in order, whatever idle frames come between.
  For any sequence of conversations, each announced by a frame with its id, the server dispatches the
  calls in the order they arrived and writes, for each, the reply under that conversation's id
  followed by the three frames that end the call, and nothing else; a call whose dispatch or reply
  fails is left out and the loop goes on.\<close>

theorem calls_answered_in_conversation:
  assumes "list_all2 conversation_ok hs cs"
  shows "serve_loop rt srv log_send (concat (map conversation_inbox cs)) gw (w, out) =
    (case dispatch_all rt srv (map (snd \<circ> snd) cs) w of (rs, w') \<Rightarrow>
       (Inr (), (w', out @ concat (map2 call_frames hs rs))))"
  using assms
proof (induction hs cs arbitrary: gw w out rule: list_all2_induct)
  case (Cons h hs c cs)
  obtain r w1 where r: "dispatch_inbound rt srv (snd (snd c)) w = (r, w1)" by fastforce
  obtain rs w2 where rs: "dispatch_all rt srv (map (snd \<circ> snd) cs) w1 = (rs, w2)" by fastforce
  show ?case
    using serve_conversation [OF Cons.hyps(1), of rt srv "concat (map conversation_inbox cs)" gw w out]
      Cons.IH [of h w1 "out @ call_frames h r"]
    by (simp add: r rs [unfolded comp_def])
qed simp

definition id_frame :: "bytes \<Rightarrow> bytes" where
  "id_frame h = put_slice 40 48 h ([6, 0xCF] @ replicate 78 0)"

theorem calls_answered_in_conversation_witness:
  "\<exists>r w'. dispatch_inbound demo_runtime (serving (lit ''Z_ADD'') None demo_handler) ([6, 3] @ replicate 78 0) fresh_world = (r, w') \<and>
    serve_loop demo_runtime (serving (lit ''Z_ADD'') None demo_handler) log_send
      [(False, Inr (id_frame (blit ''12345678''))), (False, Inr [6, 0xCE, 0]), (False, Inr ([6, 3] @ replicate 78 0))]
      BLANK_HANDLE (fresh_world, []) = (Inr (), (w', call_frames (blit ''12345678'') r))"
proof -
  let ?h = "blit ''12345678''" and ?c = "(id_frame (blit ''12345678''), [[6, 0xCE, 0 :: byte]], [6, 3] @ replicate 78 0)"
  have "conversation_ok ?h ?c"
    by (simp add: conversation_ok_def conversation_id_def idle_def call_frame_def frame_type_def id_frame_def
        put_slice_def py_slice_def be_val_def)
  then have "list_all2 conversation_ok [?h] [?c]" by simp
  from calls_answered_in_conversation [OF this, of demo_runtime "serving (lit ''Z_ADD'') None demo_handler"
      BLANK_HANDLE fresh_world "[]"]
  show ?thesis
    by (cases "dispatch_inbound demo_runtime (serving (lit ''Z_ADD'') None demo_handler) ([6, 3] @ replicate 78 0) fresh_world")
      (simp add: conversation_inbox_def)
qed

end
