(* ===== verification/Tx_Client.thy ===== *)
theory Tx_Client
  imports Tx_Stores Client_Session Reassembly Gw_Frames Invoke_Request
begin

text \<open>
  The transactional side of a connection, \<^verbatim>\<open>src/saprfclib/connection.py\<close>: submitting a transactional
  call or a background unit with retries, parking what could not be delivered, re-driving it, and
  the unit handles that collect calls.  The retrying methods are those of \<^verbatim>\<open>AsyncConnection\<close>, to which
  a classic \<^verbatim>\<open>Connection\<close> delegates; the methods without retries are the ones a connection over SNC
  runs itself.

  The transport is a pair of operations on a state \<open>'n\<close>; the stores, when configured, are reached
  through their parking operations.  Delays and their jitter are left out, as is the lock, which
  keeps one call in flight.
\<close>

section \<open>A connection with its stores\<close>

record ('n, 's, 'u) tx_env =
  net_send :: "bytes \<Rightarrow> ('n, unit) act"
  net_recv :: "('n, bytes) act"
  tid_park :: "pystr \<Rightarrow> bytes \<Rightarrow> ('s, unit) act"
  tid_get_parked :: "'s \<Rightarrow> pystr \<Rightarrow> bytes option res"
  tid_delete_parked :: "pystr \<Rightarrow> ('s, unit) act"
  unit_park :: "unit_key \<Rightarrow> bytes \<Rightarrow> ('u, unit) act"
  unit_get_parked :: "'u \<Rightarrow> unit_key \<Rightarrow> bytes option res"
  unit_delete_parked :: "unit_key \<Rightarrow> ('u, unit) act"
  max_retries :: int
  exn_text :: "exn \<Rightarrow> pystr"
  utf8_text :: "bytes \<Rightarrow> pystr"

record ('n, 's, 'u) tx_conn =
  c_net :: 'n
  c_session :: session
  c_tids :: "'s option"
  c_units :: "'u option"

section \<open>One exchange\<close>

definition as_communication :: "('n, 's, 'u) tx_env \<Rightarrow> exn \<Rightarrow> exn" where
  "as_communication env e =
     (if isinstance e C_OSError \<or> isinstance e C_IncompleteReadError \<or> isinstance e C_EOFError
         \<or> isinstance e C_TimeoutError
      then CommunicationError (exn_text env e) else e)"

text \<open>Send, read the whole reply, raise what it reports.\<close>

definition send_once :: "('n, 's, 'u) tx_env \<Rightarrow> bytes \<Rightarrow> ('n, unit) act" where
  "send_once env request n =
     (case net_send env request n of
        (Inl e, n1) \<Rightarrow> (Inl (as_communication env e), n1)
      | (Inr u, n1) \<Rightarrow>
          (case join_response_frames (net_recv env) n1 of
             (Inl e, n2) \<Rightarrow> (Inl (as_communication env e), n2)
           | (Inr response, n2) \<Rightarrow>
               (raise_for_rfc_error (utf8_text env) (strip_gw_header response) None, n2)))"

section \<open>Parking and retrying\<close>

datatype tx_id = Tid pystr | Unit unit_key

text \<open>Without a store the payload is dropped with a warning.\<close>

definition store_park :: "('n, 's, 'u) tx_env \<Rightarrow> tx_id \<Rightarrow> bytes \<Rightarrow> (('n, 's, 'u) tx_conn, unit) act" where
  "store_park env i payload c =
     (case i of
        Tid t \<Rightarrow>
          (case c_tids c of None \<Rightarrow> (Inr (), c)
           | Some s \<Rightarrow> (case tid_park env t payload s of (r, s') \<Rightarrow> (r, c\<lparr>c_tids := Some s'\<rparr>)))
      | Unit k \<Rightarrow>
          (case c_units c of None \<Rightarrow> (Inr (), c)
           | Some s \<Rightarrow> (case unit_park env k payload s of (r, s') \<Rightarrow> (r, c\<lparr>c_units := Some s'\<rparr>))))"

definition cause_text :: "exn \<Rightarrow> pystr option" where
  "cause_text e = (case e of CommunicationError m \<Rightarrow> Some m | _ \<Rightarrow> None)"

definition exhausted :: "tx_id \<Rightarrow> exn \<Rightarrow> exn" where
  "exhausted i e =
     (case i of Tid t \<Rightarrow> RetryExhausted (Some t) None None (cause_text e)
      | Unit k \<Rightarrow> RetryExhausted None (Some (fst k)) (Some (snd k)) (cause_text e))"

text \<open>The attempts that are left; without any the code runs into its \<^verbatim>\<open>AssertionError\<close>.\<close>

fun submit_attempts ::
    "('n, 's, 'u) tx_env \<Rightarrow> tx_id \<Rightarrow> bytes \<Rightarrow> nat \<Rightarrow> (('n, 's, 'u) tx_conn, unit) act" where
  "submit_attempts env i request 0 c = (Inl OtherException, c)"
| "submit_attempts env i request (Suc k) c =
     (case send_once env request (c_net c) of (r, n) \<Rightarrow>
        let c1 = c\<lparr>c_net := n\<rparr> in
        case r of
          Inr u \<Rightarrow> (Inr u, c1)
        | Inl e \<Rightarrow>
            if \<not> isinstance e C_CommunicationError then (Inl e, c1)
            else if k = 0 then
              (case store_park env i request c1 of
                 (Inl e', c2) \<Rightarrow> (Inl e', c2)
               | (Inr u, c2) \<Rightarrow> (Inl (exhausted i e), c2))
            else submit_attempts env i request k c1)"

definition submit_with_retry ::
    "('n, 's, 'u) tx_env \<Rightarrow> tx_id \<Rightarrow> bytes \<Rightarrow> (('n, 's, 'u) tx_conn, unit) act" where
  "submit_with_retry env i request = submit_attempts env i request (nat (max_retries env + 1))"

section \<open>Submitting\<close>

text \<open>READY, in call, and ready again whatever happened, unless the session was broken.\<close>

definition in_call :: "(('n, 's, 'u) tx_conn, 'a) act \<Rightarrow> (('n, 's, 'u) tx_conn, 'a) act" where
  "in_call body c =
     (case mark_in_call (c_session c) of
        (Inl e, s) \<Rightarrow> (Inl e, c\<lparr>c_session := s\<rparr>)
      | (Inr u, s) \<Rightarrow>
          (case body (c\<lparr>c_session := s\<rparr>) of (r, c1) \<Rightarrow>
             (r, if state (c_session c1) = IN_CALL
                 then c1\<lparr>c_session := snd (mark_ready (c_session c1))\<rparr> else c1)))"

definition handle_or_blank :: "('n, 's, 'u) tx_conn \<Rightarrow> bytes" where
  "handle_or_blank c =
     (case handle (c_session c) of None \<Rightarrow> replicate 8 32 | Some h \<Rightarrow> if h = [] then replicate 8 32 else h)"

definition invoke_framed ::
    "bytes res \<Rightarrow> (bytes \<Rightarrow> (('n, 's, 'u) tx_conn, 'a) act) \<Rightarrow> (('n, 's, 'u) tx_conn, 'a) act" where
  "invoke_framed tlv body c =
     (case bind_res tlv (build_invoke_frame (handle_or_blank c)) of
        Inl e \<Rightarrow> (Inl e, c) | Inr request \<Rightarrow> body request c)"

definition call_transactional ::
    "('n, 's, 'u) tx_env \<Rightarrow> pystr \<Rightarrow> pystr \<Rightarrow> pystr option \<Rightarrow> (('n, 's, 'u) tx_conn, unit) act" where
  "call_transactional env func_name tid queue =
     in_call (invoke_framed (build_trfc_request tid func_name queue RFC_VERSION)
       (submit_with_retry env (Tid tid)))"

definition submit_unit ::
    "('n, 's, 'u) tx_env \<Rightarrow> unit_key \<Rightarrow> pystr list \<Rightarrow> bytes list \<Rightarrow> (('n, 's, 'u) tx_conn, unit) act" where
  "submit_unit env k queues buffered_calls =
     in_call (invoke_framed (build_bgrfc_request (fst k) (snd k) queues buffered_calls RFC_VERSION)
       (submit_with_retry env (Unit k)))"

text \<open>Without retries.\<close>

definition exchange :: "('n, 's, 'u) tx_env \<Rightarrow> bytes \<Rightarrow> (('n, 's, 'u) tx_conn, unit) act" where
  "exchange env request c = (case send_once env request (c_net c) of (r, n) \<Rightarrow> (r, c\<lparr>c_net := n\<rparr>))"

definition confirm_tid :: "('n, 's, 'u) tx_env \<Rightarrow> pystr \<Rightarrow> (('n, 's, 'u) tx_conn, unit) act" where
  "confirm_tid env tid = in_call (invoke_framed (build_trfc_confirm_request tid RFC_VERSION) (exchange env))"

definition sync_call_transactional ::
    "('n, 's, 'u) tx_env \<Rightarrow> pystr \<Rightarrow> pystr \<Rightarrow> pystr option \<Rightarrow> (('n, 's, 'u) tx_conn, unit) act" where
  "sync_call_transactional env func_name tid queue =
     in_call (invoke_framed (build_trfc_request tid func_name queue RFC_VERSION) (exchange env))"

definition sync_submit_unit ::
    "('n, 's, 'u) tx_env \<Rightarrow> unit_key \<Rightarrow> pystr list \<Rightarrow> bytes list \<Rightarrow> (('n, 's, 'u) tx_conn, unit) act" where
  "sync_submit_unit env k queues buffered_calls =
     in_call (invoke_framed (build_bgrfc_request (fst k) (snd k) queues buffered_calls RFC_VERSION)
       (exchange env))"

section \<open>Re-driving what was parked\<close>

definition retry_parked :: "('n, 's, 'u) tx_env \<Rightarrow> pystr \<Rightarrow> (('n, 's, 'u) tx_conn, unit) act" where
  "retry_parked env tid c =
     (case c_tids c of
        None \<Rightarrow> (Inl TransactionalError, c)
      | Some s \<Rightarrow>
          (case tid_get_parked env s tid of
             Inl e \<Rightarrow> (Inl e, c)
           | Inr None \<Rightarrow> (Inl TransactionalError, c)
           | Inr (Some payload) \<Rightarrow>
               (case in_call (submit_with_retry env (Tid tid) payload) c of
                  (Inl e, c1) \<Rightarrow> (Inl e, c1)
                | (Inr u, c1) \<Rightarrow>
                    (case c_tids c1 of None \<Rightarrow> (Inr (), c1)
                     | Some s1 \<Rightarrow> (case tid_delete_parked env tid s1 of
                         (r, s2) \<Rightarrow> (r, c1\<lparr>c_tids := Some s2\<rparr>))))))"

definition retry_parked_unit :: "('n, 's, 'u) tx_env \<Rightarrow> unit_key \<Rightarrow> (('n, 's, 'u) tx_conn, unit) act" where
  "retry_parked_unit env k c =
     (case c_units c of
        None \<Rightarrow> (Inl TransactionalError, c)
      | Some s \<Rightarrow>
          (case unit_get_parked env s k of
             Inl e \<Rightarrow> (Inl e, c)
           | Inr None \<Rightarrow> (Inl TransactionalError, c)
           | Inr (Some payload) \<Rightarrow>
               (case in_call (submit_with_retry env (Unit k) payload) c of
                  (Inl e, c1) \<Rightarrow> (Inl e, c1)
                | (Inr u, c1) \<Rightarrow>
                    (case c_units c1 of None \<Rightarrow> (Inr (), c1)
                     | Some s1 \<Rightarrow> (case unit_delete_parked env k s1 of
                         (r, s2) \<Rightarrow> (r, c1\<lparr>c_units := Some s2\<rparr>))))))"

section \<open>Unit handles\<close>

record unit_handle =
  uh_key :: unit_key
  uh_queues :: "pystr list"
  buffered :: "(pystr \<times> (pystr \<times> pyval) list) list"
  submitted :: bool

text \<open>\<open>fresh\<close> is the generated id, \<^verbatim>\<open>uuid4().hex.upper()\<close>.\<close>

definition create_unit :: "pystr \<Rightarrow> pystr option \<Rightarrow> pystr list \<Rightarrow> unit_handle" where
  "create_unit fresh uid queues =
     \<lparr>uh_key = (case uid of None \<Rightarrow> fresh | Some u \<Rightarrow> u, if queues \<noteq> [] then lit ''Q'' else lit ''T''),
      uh_queues = queues, buffered = [], submitted = False\<rparr>"

definition unit_call :: "pystr \<Rightarrow> (pystr \<times> pyval) list \<Rightarrow> unit_handle \<Rightarrow> unit_handle" where
  "unit_call func_name ps h = h\<lparr>buffered := buffered h @ [(func_name, ps)]\<rparr>"

text \<open>\<open>str_of\<close> is \<^verbatim>\<open>str(v)\<close>.\<close>

definition serialize_call ::
    "(pyval \<Rightarrow> pystr) \<Rightarrow> pystr \<times> (pystr \<times> pyval) list \<Rightarrow> bytes res" where
  "serialize_call str_of call =
     map_res (join_with [0, 0])
       (seq_res (utf16 (fst call) # map (\<lambda>(k, v). utf16 (k @ lit ''='' @ str_of v)) (snd call)))"

text \<open>Leaving the block: nothing is sent when an exception leaves it, or a second time.\<close>

definition unit_exit ::
    "('n, 's, 'u) tx_env \<Rightarrow> (pyval \<Rightarrow> pystr) \<Rightarrow> bool \<Rightarrow>
       unit_handle \<Rightarrow> ('n, 's, 'u) tx_conn \<Rightarrow> unit res \<times> unit_handle \<times> ('n, 's, 'u) tx_conn" where
  "unit_exit env str_of raised h c =
     (if raised \<or> submitted h then (Inr (), h, c)
      else
        let h1 = h\<lparr>submitted := True\<rparr> in
        case seq_res (map (serialize_call str_of) (buffered h)) of
          Inl e \<Rightarrow> (Inl e, h1, c)
        | Inr cs \<Rightarrow> (case submit_unit env (uh_key h) (uh_queues h) cs c of (r, c1) \<Rightarrow> (r, h1, c1)))"

section \<open>Unit states\<close>

text \<open>What the reply to a state query says.\<close>

definition unit_state_of_result :: "params \<Rightarrow> UnitState res" where
  "unit_state_of_result result =
     (case map_of result (lit ''STATE'') of
        Some (VInt raw) \<Rightarrow>
          (case unit_state_from_wire raw of (name, recognised) \<Rightarrow>
             if \<not> recognised then Inl TransactionalError
             else (case unit_state_of_value name of Inl e \<Rightarrow> Inl KeyError | Inr u \<Rightarrow> Inr u))
      | _ \<Rightarrow> Inl TransactionalError)"

end
