(* ===== verification/Unit_Delivery.thy ===== *)
theory Unit_Delivery
  imports Call_Delivery
begin

text \<open>
  A bgRFC unit on its way from the client's frame to the unit store: the server finds every call the
  client put into the frame, runs them in order up to the first failure, and records the unit as
  confirmed only when all of them ran.
\<close>


section \<open>The calls of a unit\<close>

text \<open>What a failing call reports: the first line of its exception, or, when the text is empty, of the
  \<^verbatim>\<open>IndexError\<close> that taking that line raises.\<close>

definition call_error_text :: "py_exc \<Rightarrow> pystr" where
  "call_error_text x =
     (case first_line_of 512 x of Inr m \<Rightarrow> m | Inl y \<Rightarrow> take 512 (first_line (ux_text y)))"

fun spec_calls :: "'e handler_fn list \<Rightarrow> 'e \<Rightarrow> pystr option \<times> 'e" where
  "spec_calls [] e = (None, e)"
| "spec_calls (h # hs) e =
     (case call_handler h [] e of
        (Inl x, e') \<Rightarrow> (Some (call_error_text x), e')
      | (Inr r, e') \<Rightarrow> spec_calls hs e')"

definition plain_unit :: "('s, 'u, 'e) rfc_server \<Rightarrow> bool" where
  "plain_unit srv \<longleftrightarrow> on_check_unit srv = None \<and> on_commit_unit srv = None \<and>
     on_rollback_unit srv = None \<and> on_confirm_unit srv = None"

text \<open>A buffered call whose name is found by the server.\<close>

definition runnable :: "runtime \<Rightarrow> ('s, 'u, 'e) rfc_server \<Rightarrow> bytes \<Rightarrow> 'e handler_fn \<Rightarrow> bool" where
  "runnable rt srv call h \<longleftrightarrow>
     call \<noteq> [] \<and> (\<exists>nm fdesc. buffered_name call = Some nm \<and> nm \<noteq> [] \<and>
       map_of (registry srv) (py_upper (upper_char rt) nm) = Some (fdesc, h))"

lemma first_line_index_error: "first_line_of 512 index_error = Inr (lit ''list index out of range'')"
  by (simp add: first_line_of_def index_error_def first_line_def is_line_break_def)

lemma isolated_call_runs:
  assumes "runnable rt srv call h"
  shows "isolated_call rt srv call w =
    (case call_handler h [] (app w) of
       (Inl x, e') \<Rightarrow> (Inr (Some (call_error_text x)), w\<lparr>app := e'\<rparr>)
     | (Inr r, e') \<Rightarrow> (Inr None, w\<lparr>app := e'\<rparr>))"
proof -
  obtain nm fdesc where b: "call \<noteq> []" "buffered_name call = Some nm" "nm \<noteq> []"
      "map_of (registry srv) (py_upper (upper_char rt) nm) = Some (fdesc, h)"
    using assms by (auto simp: runnable_def)
  obtain r e' where r: "call_handler h [] (app w) = (r, e')" by fastforce
  have x: "execute_buffered_call rt srv call w =
      (case r of Inr _ \<Rightarrow> (Inr None, w\<lparr>app := e'\<rparr>)
       | Inl x \<Rightarrow> (case first_line_of 512 x of Inl y \<Rightarrow> (Inl (Foreign y), w\<lparr>app := e'\<rparr>)
                   | Inr m \<Rightarrow> (Inr (Some m), w\<lparr>app := e'\<rparr>)))"
    by (cases r) (simp_all add: execute_buffered_call_def b find_entry_def ret_def then_d_def caught_def r split: sum.splits)
  show ?thesis
  proof (cases r)
    case (Inl u)
    show ?thesis
    proof (cases "first_line_of 512 u")
      case (Inl y)
      then have "y = index_error" by (simp add: first_line_of_def split: if_splits)
      then show ?thesis
        using Inl by (simp add: isolated_call_def x r \<open>r = Inl u\<close> call_error_text_def first_line_index_error)
         (simp add: first_line_def index_error_def is_line_break_def)
    next
      case (Inr m)
      then show ?thesis by (simp add: isolated_call_def x r \<open>r = Inl u\<close> call_error_text_def)
    qed
  qed (simp add: isolated_call_def x r)
qed

text \<open>The loop runs the handlers in order up to the first failure.\<close>

lemma run_calls_spec:
  assumes "\<And>j. j < length cs \<Longrightarrow>
      extract_raw_param_from_frame (upper_char rt) tlv (lit ''BGRFC_CALL_'' @ dec_digits j) = Some (cs ! j)"
    and "length hs = length cs" and "\<And>j. j < length cs \<Longrightarrow> runnable rt srv (cs ! j) (hs ! j)"
    and "i \<le> length cs"
  shows "run_calls rt srv tlv (length cs) i w =
    (case spec_calls (drop i hs) (app w) of (r, e') \<Rightarrow> (Inr r, w\<lparr>app := e'\<rparr>))"
  using assms(4)
proof (induction "length cs - i" arbitrary: i w)
  case 0
  then show ?case using assms(2) by (simp add: run_calls.simps ret_def)
next
  case (Suc n)
  then have i: "i < length cs" by simp
  then have d: "drop i hs = hs ! i # drop (i + 1) hs" using assms(2) by (simp add: Cons_nth_drop_Suc)
  have step: "run_calls rt srv tlv (length cs) i w =
      then_d (isolated_call rt srv (cs ! i))
        (\<lambda>err. if err \<noteq> None then ret err else run_calls rt srv tlv (length cs) (i + 1)) w"
    by (subst run_calls.simps) (use i assms(1) in simp)
  obtain r e' where r: "call_handler (hs ! i) [] (app w) = (r, e')" by fastforce
  have "run_calls rt srv tlv (length cs) (i + 1) (w\<lparr>app := e'\<rparr>) =
      (case spec_calls (drop (i + 1) hs) e' of (r, e'') \<Rightarrow> (Inr r, w\<lparr>app := e''\<rparr>))"
    using Suc.hyps(1) [of "i + 1" "w\<lparr>app := e'\<rparr>"] Suc.hyps(2) i by simp
  then show ?case
    unfolding step d
    by (cases r) (simp_all add: then_d_def isolated_call_runs [OF assms(3) [OF i]] r ret_def)
qed


section \<open>Dispatching a unit\<close>

definition unit_answer ::
    "(unit_key \<Rightarrow> UnitState) \<Rightarrow> unit_key \<Rightarrow> 'e handler_fn list \<Rightarrow> 'e \<Rightarrow> bytes res \<times> (unit_key \<Rightarrow> UnitState) \<times> 'e" where
  "unit_answer st k hs e =
     (if st k = COMMITTED \<or> st k = CONFIRMED then (build_rfc_executed_response, st, e)
      else case spec_calls hs e of
        (None, e') \<Rightarrow> (build_rfc_ok_response, st(k := CONFIRMED), e')
      | (Some m, e') \<Rightarrow> (build_system_failure m, st(k := IN_PROCESS), e'))"

definition carries :: "runtime \<Rightarrow> bytes \<Rightarrow> unit_key \<Rightarrow> bytes list \<Rightarrow> bool" where
  "carries rt tlv k cs \<longleftrightarrow>
     extract_param_from_frame (upper_char rt) (sap_dec rt) tlv (lit ''BGRFC_UNIT_ID'') = Inr (fst k) \<and>
     unit_id_problem (fst k) = None \<and>
     extract_param_from_frame (upper_char rt) (sap_dec rt) tlv (lit ''BGRFC_UNIT_TYPE'') = Inr (snd k) \<and>
     (snd k = lit ''T'' \<or> snd k = lit ''Q'') \<and>
     extract_param_from_frame (upper_char rt) (sap_dec rt) tlv (lit ''BGRFC_CALL_COUNT'')
       = Inr (if cs = [] then [] else dec_digits (length cs)) \<and>
     (\<forall>j < length cs. extract_raw_param_from_frame (upper_char rt) tlv
        (lit ''BGRFC_CALL_'' @ dec_digits j) = Some (cs ! j))"

lemma count_read: "call_count rt (if cs = [] then [] else dec_digits (length cs)) = Inr (length cs)"
  by (simp add: call_count_def)

context unit_store
begin

lemma unit_delivery:
  assumes srv: "unit_store_ops srv = \<lparr>us_get_unit_state = get_unit_state, us_persist = persist, us_confirm = confirm\<rparr>"
      "plain_unit srv"
    and i: "inv (units w)" and c: "carries rt tlv k cs"
    and hs: "length hs = length cs" "\<And>j. j < length cs \<Longrightarrow> runnable rt srv (cs ! j) (hs ! j)"
  shows "\<exists>r w'. dispatch_bgrfc_unit rt srv tlv w = (answer r, w') \<and> inv (units w') \<and> tids w' = tids w \<and>
    unit_answer (ustate (units w)) k hs (app w) = (r, ustate (units w'), app w') \<and>
    (ustate (units w) k = COMMITTED \<or> ustate (units w) k = CONFIRMED \<longrightarrow> w' = w)"
proof -
  obtain uid ty where k: "k = (uid, ty)" by fastforce
  note c' = c [unfolded carries_def k fst_conv snd_conv]
  have key: "(uid, if ty = lit ''Q'' then ty else lit ''T'') = k" using c' k by auto
  have chk: "check_unit srv k w = (Inr (ustate (units w) k = COMMITTED \<or> ustate (units w) k = CONFIRMED), w)"
    using srv get_unit_state [OF i, of k] by (simp add: check_unit_def plain_unit_def then_d_def reply_def ret_def)
  let ?rest = "then_d (with_units (us_persist (unit_store_ops srv) k)) (\<lambda>_.
       then_d (run_calls rt srv tlv (length cs) 0) (finish_unit srv k))"
  have start: "dispatch_bgrfc_unit rt srv tlv w =
      (if ustate (units w) k = COMMITTED \<or> ustate (units w) k = CONFIRMED
       then (answer build_rfc_executed_response, w) else ?rest w)"
  proof -
    note p = c' [THEN conjunct1] c' [THEN conjunct2, THEN conjunct1]
      c' [THEN conjunct2, THEN conjunct2, THEN conjunct1]
      c' [THEN conjunct2, THEN conjunct2, THEN conjunct2, THEN conjunct2, THEN conjunct1]
    have "dispatch_bgrfc_unit rt srv tlv =
        then_d (check_unit srv k) (\<lambda>d. if d then reply build_rfc_executed_response else ?rest)"
      by (simp only: dispatch_bgrfc_unit_def Let_def p then_d_reply_Inr option.case key count_read sum.case)
    then show ?thesis by (simp add: then_d_def chk reply_answer)
  qed
  show ?thesis
  proof (cases "ustate (units w) k = COMMITTED \<or> ustate (units w) k = CONFIRMED")
    case True
    then show ?thesis using i by (auto simp: start unit_answer_def)
  next
    case False
    obtain s1 where s1: "persist k (units w) = (Inr (), s1)" "inv s1" "ustate s1 = (ustate (units w))(k := IN_PROCESS)"
      using persist [OF i] by blast
    obtain err e' where e: "spec_calls hs (app w) = (err, e')" by fastforce
    let ?w1 = "w\<lparr>units := s1, app := e'\<rparr>"
    have "run_calls rt srv tlv (length cs) 0 (w\<lparr>units := s1\<rparr>) = (Inr err, ?w1)"
      using run_calls_spec [of cs rt tlv hs srv 0 "w\<lparr>units := s1\<rparr>"] c' hs e by simp
    then have run: "?rest w = finish_unit srv k err ?w1"
      using srv(1) s1(1) by (simp add: then_d_def with_units_def)
    show ?thesis
    proof (cases err)
      case (Some m)
      have "finish_unit srv k err ?w1 = (answer (build_system_failure m), ?w1)"
        using srv(2) by (simp add: Some finish_unit_def plain_unit_def notify_quietly_def then_d_def ret_def
            failure_def reply_answer)
      then show ?thesis using False s1 e by (simp add: start run unit_answer_def Some)
    next
      case None
      obtain s2 where s2: "confirm k s1 = (Inr (), s2)" "inv s2" "ustate s2 = (ustate s1)(k := CONFIRMED)"
        using confirm [OF s1(2)] by blast
      have "finish_unit srv k err ?w1 = (answer build_rfc_ok_response, ?w1\<lparr>units := s2\<rparr>)"
        using srv s2(1) by (simp add: None finish_unit_def plain_unit_def notify_quietly_def then_d_def ret_def
            with_units_def reply_answer)
      then show ?thesis using False s1 s2 e by (simp add: start run unit_answer_def None)
    qed
  qed
qed

end


section \<open>Units as the client ships them\<close>

definition queue_pairs :: "pystr list \<Rightarrow> (pystr \<times> bytes) list" where
  "queue_pairs qs =
     concat (map (\<lambda>(i, q). if q = [] then [] else [(lit ''BGRFC_QUEUE_'' @ dec_digits i, name_bytes q)]) (enumerate 0 qs))"

definition call_pairs :: "bytes list \<Rightarrow> (pystr \<times> bytes) list" where
  "call_pairs cs =
     (if cs = [] then []
      else (lit ''BGRFC_CALL_COUNT'', name_bytes (dec_digits (length cs)))
        # map (\<lambda>(i, c). (lit ''BGRFC_CALL_'' @ dec_digits i, c)) (enumerate 0 cs))"

definition unit_pairs :: "unit_key \<Rightarrow> pystr list \<Rightarrow> bytes list \<Rightarrow> (pystr \<times> bytes) list" where
  "unit_pairs k qs cs =
     [(lit ''BGRFC_UNIT_ID'', name_bytes (fst k)), (lit ''BGRFC_UNIT_TYPE'', name_bytes (snd k))]
     @ queue_pairs qs @ call_pairs cs"

text \<open>Counts below \<open>10 ^ 100\<close> keep every generated name short.\<close>

definition shippable_unit :: "unit_key \<Rightarrow> pystr list \<Rightarrow> bytes list \<Rightarrow> bool" where
  "shippable_unit k qs cs \<longleftrightarrow>
     validate_unit_id (fst k) = Inr () \<and> validate_unit_type (snd k) = Inr () \<and>
     (\<forall>q \<in> set qs. q = [] \<or> ok_name q) \<and> (\<forall>c \<in> set cs. length c < 2 ^ 32) \<and>
     length qs < 10 ^ 100 \<and> length cs < 10 ^ 100"

lemma digits_ascii: "c \<in> set (dec_digits n) \<Longrightarrow> 48 \<le> c \<and> c \<le> 57"
  using dec_digits_are_digits [of c n] by (simp add: is_digit_def)

lemma digits_name: "n < 10 ^ 100 \<Longrightarrow> is_ascii p \<Longrightarrow> length p < 800 \<Longrightarrow> ok_name (p @ dec_digits n)"
proof (rule ok_name_short)
  assume n: "n < 10 ^ 100" and p: "is_ascii p" "length p < 800"
  show "is_ascii (p @ dec_digits n)" using p digits_ascii by (fastforce simp: is_ascii_def)
  show "p @ dec_digits n \<noteq> []" by simp
  have "last (dec_digits n) \<in> set (dec_digits n)" by (rule last_in_set) simp
  then show "\<not> is_pad (last (p @ dec_digits n))" using digits_ascii by (fastforce simp: is_pad_def)
  show "length (p @ dec_digits n) < 1000" using length_dec_digits_le [of 100 n] n p(2) by simp
qed

lemma unit_names:
  "ok_name (lit ''BGRFC_UNIT_ID'')" "ok_name (lit ''BGRFC_UNIT_TYPE'')" "ok_name (lit ''BGRFC_CALL_COUNT'')"
  by (rule ok_name_short; simp add: is_ascii_def is_pad_def)+

lemma numbered_names:
  assumes "n < 10 ^ 100"
  shows "ok_name (lit ''BGRFC_QUEUE_'' @ dec_digits n)" "ok_name (lit ''BGRFC_CALL_'' @ dec_digits n)"
    "ok_name (dec_digits n)"
  using digits_name [OF assms, of "lit ''BGRFC_QUEUE_''"] digits_name [OF assms, of "lit ''BGRFC_CALL_''"]
    digits_name [OF assms, of "[]"] by (simp_all add: is_ascii_def)

lemma unit_id_name: "validate_unit_id u = Inr () \<Longrightarrow> ok_name u \<and> unit_id_problem u = None"
proof -
  assume "validate_unit_id u = Inr ()"
  then have l: "length u = UNITID_LN" and c: "set u \<subseteq> set UNITID_CHARSET"
    by (auto simp: validate_unit_id_def check_def split: if_splits)
  then have ne: "u \<noteq> []" by (auto simp: UNITID_LN_def)
  then have "last u \<in> set UNITID_CHARSET" using c last_in_set by blast
  moreover have "c < 128 \<and> \<not> is_pad c" if "c \<in> set UNITID_CHARSET" for c
    using that by (auto simp: UNITID_CHARSET_def is_pad_def)
  ultimately have "ok_name u"
    using l c ne by (intro ok_name_short) (auto simp: is_ascii_def UNITID_LN_def)
  then show ?thesis using l c ne by (auto simp: unit_id_problem_def)
qed

lemma unit_type_name: "validate_unit_type t = Inr () \<Longrightarrow> ok_name t \<and> (t = lit ''T'' \<or> t = lit ''Q'')"
  by (auto simp: validate_unit_type_def check_def is_ascii_def is_pad_def split: if_splits intro!: ok_name_short)

lemma unit_pairs_ok:
  assumes "shippable_unit k qs cs"
  shows "ok_params (unit_pairs k qs cs)"
proof -
  have q: "ok_params (queue_pairs qs)"
    unfolding ok_params_def list_all_iff
  proof clarify
    fix n v assume "(n, v) \<in> set (queue_pairs qs)"
    then obtain i q where q: "(i, q) \<in> set (enumerate 0 qs)" "q \<noteq> []"
        "n = lit ''BGRFC_QUEUE_'' @ dec_digits i" "v = name_bytes q"
      by (auto simp: queue_pairs_def split: if_splits)
    then have "i < length qs" "q \<in> set qs" by (auto simp: in_set_enumerate_eq)
    with q assms show "ok_name n \<and> length v < 2 ^ 32"
      using numbered_names(1) [of i] by (auto simp: shippable_unit_def ok_name_def)
  qed
  have c: "ok_params (call_pairs cs)"
    unfolding ok_params_def list_all_iff
  proof clarify
    fix n v assume nv: "(n, v) \<in> set (call_pairs cs)"
    have cnt: "length cs < 10 ^ 100" using assms by (simp add: shippable_unit_def)
    from nv consider "n = lit ''BGRFC_CALL_COUNT''" "v = name_bytes (dec_digits (length cs))"
      | i where "(i, v) \<in> set (enumerate 0 cs)" "n = lit ''BGRFC_CALL_'' @ dec_digits i"
      by (auto simp: call_pairs_def split: if_splits)
    then show "ok_name n \<and> length v < 2 ^ 32"
    proof cases
      case 1
      then show ?thesis using unit_names(3) numbered_names(3) [OF cnt] by (simp add: ok_name_def)
    next
      case (2 i)
      then have "i < length cs" "v \<in> set cs" by (auto simp: in_set_enumerate_eq)
      then show ?thesis using 2 numbered_names(2) [of i] cnt assms by (simp add: shippable_unit_def)
    qed
  qed
  have "ok_name (fst k)" "ok_name (snd k)"
    using assms unit_id_name [of "fst k"] unit_type_name [of "snd k"] by (simp_all add: shippable_unit_def)
  then show ?thesis
    using q c unit_names by (simp add: unit_pairs_def ok_params_def ok_name_def)
qed

lemma bgrfc_request_written:
  assumes "shippable_unit k qs cs" and "good_version version vb"
  shows "build_bgrfc_request (fst k) (snd k) qs cs version = Inr (system_frame vb BGRFC_DEST_SHIP (unit_pairs k qs cs))"
proof -
  have v: "validate_unit_id (fst k) = Inr ()" "validate_unit_type (snd k) = Inr ()"
    using assms(1) by (simp_all add: shippable_unit_def)
  have u: "unit_params (fst k) (snd k) = concat (map param_records
      [(lit ''BGRFC_UNIT_ID'', name_bytes (fst k)), (lit ''BGRFC_UNIT_TYPE'', name_bytes (snd k))])"
    using unit_id_name [OF v(1)] unit_type_name [OF v(2)] by (simp add: unit_params_def named_params)
  have q: "queue_params qs = concat (map param_records (queue_pairs qs))"
  proof -
    have "(if q = [] then [] else named_param (lit ''BGRFC_QUEUE_'' @ dec_digits i) q)
        = concat (map param_records (if q = [] then [] else [(lit ''BGRFC_QUEUE_'' @ dec_digits i, name_bytes q)]))"
      if "(i, q) \<in> set (enumerate 0 qs)" for i q
    proof -
      have "q \<in> set qs" using that by (auto simp: in_set_enumerate_eq)
      then show ?thesis using assms(1) named_params [of q] by (auto simp: shippable_unit_def)
    qed
    then have m: "map (\<lambda>(i, q). if q = [] then [] else named_param (lit ''BGRFC_QUEUE_'' @ dec_digits i) q) (enumerate 0 qs)
        = map (\<lambda>(i, q). concat (map param_records (if q = [] then [] else [(lit ''BGRFC_QUEUE_'' @ dec_digits i, name_bytes q)]))) (enumerate 0 qs)"
      by (intro map_cong refl) auto
    then show ?thesis
      unfolding queue_params_def queue_pairs_def concat_map_concat m by (simp only: case_prod_unfold)
  qed
  have c: "call_params cs = concat (map param_records (call_pairs cs))"
  proof (cases "cs = []")
    case False
    have "ok_name (dec_digits (length cs))"
      using numbered_names(3) assms(1) by (simp add: shippable_unit_def)
    moreover have "concat (map (\<lambda>(i, c). [text_record TAG_PARAM_NAME (lit ''BGRFC_CALL_'' @ dec_digits i),
          tlv_record TAG_PARAM_VALUE c]) (enumerate 0 cs))
        = concat (map param_records (map (\<lambda>(i, c). (lit ''BGRFC_CALL_'' @ dec_digits i, c)) (enumerate 0 cs)))"
      by (simp add: param_records_def comp_def case_prod_unfold)
    ultimately show ?thesis using False by (simp add: call_params_def call_pairs_def named_params)
  qed (simp add: call_params_def call_pairs_def)
  have parts: "unit_params (fst k) (snd k) @ queue_params qs @ call_params cs
      = concat (map param_records (unit_pairs k qs cs))"
    unfolding u q c unit_pairs_def by simp
  show ?thesis
    using system_request_written [OF assms(2) short_names(5) unit_pairs_ok [OF assms(1)]]
    unfolding build_bgrfc_request_def parts v by (simp add: BGRFC_DEST_SHIP_def)
qed


section \<open>The server finds what was shipped\<close>

lemma upper_fixed: "\<forall>c \<in> set s. c < 97 \<Longrightarrow> py_upper uc s = s"
  by (induction s) (auto simp: py_upper_def upper_cp_def)

lemma first_named_map_of:
  "\<forall>(n, v) \<in> set ps. py_upper uc n = n \<Longrightarrow> first_named uc want ps = map_of ps want"
  by (induction ps) (auto simp: first_named_def)

lemma dec_digits_inject: "dec_digits i = dec_digits j \<longleftrightarrow> i = j"
  by (metis digits_val_dec_digits)

lemma map_of_numbered:
  assumes "j < length cs"
  shows "map_of (map (\<lambda>(i, c). (p @ dec_digits i, c)) (enumerate 0 cs)) (p @ dec_digits j) = Some (cs ! j)"
proof -
  have f: "map fst (map (\<lambda>(i, c). (p @ dec_digits i, c)) (enumerate 0 cs)) = map (\<lambda>i. p @ dec_digits i) [0..<length cs]"
  proof -
    have "map fst (map (\<lambda>(i, c). (p @ dec_digits i, c)) xs) = map (\<lambda>i. p @ dec_digits i) (map fst xs)" for xs
      by (induction xs) auto
    note m = this
    show ?thesis by (simp only: m map_fst_enumerate) simp
  qed
  have "inj_on (\<lambda>i. p @ dec_digits i) {0..<length cs}" by (rule inj_onI) (simp add: dec_digits_inject)
  then have "distinct (map fst (map (\<lambda>(i, c). (p @ dec_digits i, c)) (enumerate 0 cs)))"
    unfolding f by (simp add: distinct_map)
  moreover have "(p @ dec_digits j, cs ! j) \<in> set (map (\<lambda>(i, c). (p @ dec_digits i, c)) (enumerate 0 cs))"
    using assms by (force simp: in_set_enumerate_eq)
  ultimately show ?thesis by simp
qed

lemma unit_pairs_upper: "\<forall>(n, v) \<in> set (unit_pairs k qs cs). py_upper uc n = n"
proof -
  have d: "py_upper uc (lit ''BGRFC_QUEUE_'' @ dec_digits i) = lit ''BGRFC_QUEUE_'' @ dec_digits i"
    "py_upper uc (lit ''BGRFC_CALL_'' @ dec_digits i) = lit ''BGRFC_CALL_'' @ dec_digits i" for i
    by (rule upper_fixed; use digits_ascii in \<open>fastforce\<close>)+
  have s: "py_upper uc (lit ''BGRFC_UNIT_ID'') = lit ''BGRFC_UNIT_ID''"
    "py_upper uc (lit ''BGRFC_UNIT_TYPE'') = lit ''BGRFC_UNIT_TYPE''"
    "py_upper uc (lit ''BGRFC_CALL_COUNT'') = lit ''BGRFC_CALL_COUNT''"
    by (rule upper_fixed; simp)+
  have "py_upper uc n = n" if nv: "(n, v) \<in> set (unit_pairs k qs cs)" for n v
  proof -
    from nv consider "n = lit ''BGRFC_UNIT_ID''" | "n = lit ''BGRFC_UNIT_TYPE''"
      | "(n, v) \<in> set (queue_pairs qs)" | "(n, v) \<in> set (call_pairs cs)"
      unfolding unit_pairs_def by auto
    then consider "n = lit ''BGRFC_UNIT_ID''" | "n = lit ''BGRFC_UNIT_TYPE''" | "n = lit ''BGRFC_CALL_COUNT''"
      | i where "n = lit ''BGRFC_QUEUE_'' @ dec_digits i" | i where "n = lit ''BGRFC_CALL_'' @ dec_digits i"
    proof cases
      case 3
      then obtain i where "n = lit ''BGRFC_QUEUE_'' @ dec_digits i"
        unfolding queue_pairs_def by (auto split: if_splits)
      then show thesis by (rule that(4))
    next
      case 4
      then have "n = lit ''BGRFC_CALL_COUNT'' \<or> (\<exists>i. n = lit ''BGRFC_CALL_'' @ dec_digits i)"
        unfolding call_pairs_def by (auto split: if_splits)
      then show thesis using that(3,5) by blast
    qed (use that(1,2) in blast)+
    then show ?thesis by cases (simp_all only: d s)
  qed
  then show ?thesis by blast
qed

lemma unit_pairs_found:
  "map_of (unit_pairs k qs cs) (lit ''BGRFC_UNIT_ID'') = Some (name_bytes (fst k))"
  "map_of (unit_pairs k qs cs) (lit ''BGRFC_UNIT_TYPE'') = Some (name_bytes (snd k))"
  "map_of (unit_pairs k qs cs) (lit ''BGRFC_CALL_COUNT'')
    = (if cs = [] then None else Some (name_bytes (dec_digits (length cs))))"
  "j < length cs \<Longrightarrow> map_of (unit_pairs k qs cs) (lit ''BGRFC_CALL_'' @ dec_digits j) = Some (cs ! j)"
proof -
  have no_queue: "map_of (queue_pairs qs) n = None" if "take 7 n \<noteq> lit ''BGRFC_Q''" for n
  proof -
    have "n \<notin> fst ` set (queue_pairs qs)" using that by (auto simp: queue_pairs_def split: if_splits)
    then show ?thesis by (simp add: map_of_eq_None_iff)
  qed
  show "map_of (unit_pairs k qs cs) (lit ''BGRFC_UNIT_ID'') = Some (name_bytes (fst k))"
    "map_of (unit_pairs k qs cs) (lit ''BGRFC_UNIT_TYPE'') = Some (name_bytes (snd k))"
    by (simp_all add: unit_pairs_def)
  show "map_of (unit_pairs k qs cs) (lit ''BGRFC_CALL_COUNT'')
    = (if cs = [] then None else Some (name_bytes (dec_digits (length cs))))"
    using no_queue [of "lit ''BGRFC_CALL_COUNT''"] by (simp add: unit_pairs_def map_add_def call_pairs_def)
  assume j: "j < length cs"
  have ne: "lit ''BGRFC_CALL_COUNT'' \<noteq> lit ''BGRFC_CALL_'' @ dec_digits j"
  proof
    assume "lit ''BGRFC_CALL_COUNT'' = lit ''BGRFC_CALL_'' @ dec_digits j"
    then have "dec_digits j = lit ''COUNT''" by simp
    then have "67 \<in> set (dec_digits j)" by simp
    then show False using digits_ascii by fastforce
  qed
  have "map_of (call_pairs cs) (lit ''BGRFC_CALL_'' @ dec_digits j) = Some (cs ! j)"
    using j ne map_of_numbered [OF j, of "lit ''BGRFC_CALL_''"] by (auto simp: call_pairs_def simp del: map_append list.map)
  moreover have "map_of (queue_pairs qs) (lit ''BGRFC_CALL_'' @ dec_digits j) = None"
    by (rule no_queue) simp
  ultimately show "map_of (unit_pairs k qs cs) (lit ''BGRFC_CALL_'' @ dec_digits j) = Some (cs ! j)"
    by (simp add: unit_pairs_def map_add_def)
qed

lemma shipped_unit_carries:
  assumes "shippable_unit k qs cs" and "good_version version vb"
  shows "carries rt (system_stream vb BGRFC_DEST_SHIP (unit_pairs k qs cs) rest) k cs"
proof -
  note frame = assms(2) short_names(5) unit_pairs_ok [OF assms(1)]
  have v: "ok_name (fst k)" "unit_id_problem (fst k) = None" "ok_name (snd k)" "snd k = lit ''T'' \<or> snd k = lit ''Q''"
    using assms(1) unit_id_name [of "fst k"] unit_type_name [of "snd k"] by (auto simp: shippable_unit_def)
  have cnt: "ok_name (dec_digits (length cs))"
    using numbered_names(3) assms(1) by (simp add: shippable_unit_def)
  note n = first_named_map_of [OF unit_pairs_upper]
  have up: "py_upper uc (lit ''BGRFC_UNIT_ID'') = lit ''BGRFC_UNIT_ID''"
    "py_upper uc (lit ''BGRFC_UNIT_TYPE'') = lit ''BGRFC_UNIT_TYPE''"
    "py_upper uc (lit ''BGRFC_CALL_COUNT'') = lit ''BGRFC_CALL_COUNT''" for uc
    by (rule upper_fixed; simp)+
  have d: "py_upper uc (lit ''BGRFC_CALL_'' @ dec_digits i) = lit ''BGRFC_CALL_'' @ dec_digits i" for uc i
    by (rule upper_fixed; use digits_ascii in \<open>fastforce\<close>)
  have dec: "decode_utf16le (Some (name_bytes m)) = m" if "ok_name m" for m
    using that decode_name_bytes(1) by (simp add: ok_name_def)
  show ?thesis
    unfolding carries_def
    by (intro conjI allI impI v)
      (simp_all only: system_frame_param(1) [OF frame] system_frame_raw [OF frame] n up d unit_pairs_found
        option.case dec v cnt split: if_split, simp_all)
qed


definition mem_unit_ops :: "mem_unit_store unit_ops" where
  "mem_unit_ops = \<lparr>us_get_unit_state = mem_get_unit_state, us_persist = mem_persist, us_confirm = mem_unit_confirm\<rparr>"

definition sq_unit_ops :: "int \<Rightarrow> unit_key sq_db unit_ops" where
  "sq_unit_ops now = \<lparr>us_get_unit_state = sq_get_unit_state, us_persist = sq_persist now,
     us_confirm = sq_unit_confirm now\<rparr>"

context unit_store
begin

lemma shipped_unit:
  assumes srv: "unit_store_ops srv = \<lparr>us_get_unit_state = get_unit_state, us_persist = persist, us_confirm = confirm\<rparr>"
      "plain_unit srv"
    and i: "inv (units w)" and v: "good_version version vb" and u: "shippable_unit k qs cs"
    and frame: "build_bgrfc_request (fst k) (snd k) qs cs version = Inr frame"
    and hs: "length hs = length cs" "\<And>j. j < length cs \<Longrightarrow> runnable rt srv (cs ! j) (hs ! j)"
  shows "\<exists>r w'. dispatch_inbound rt srv frame w = (answer r, w') \<and> inv (units w') \<and> tids w' = tids w \<and>
    unit_answer (ustate (units w)) k hs (app w) = (r, ustate (units w'), app w') \<and>
    (ustate (units w) k = COMMITTED \<or> ustate (units w) k = CONFIRMED \<longrightarrow> w' = w)"
proof -
  have f: "frame = system_frame vb BGRFC_DEST_SHIP (unit_pairs k qs cs)"
    using bgrfc_request_written [OF u v] frame by simp
  note fr = v short_names(5) unit_pairs_ok [OF u]
  have ne: "BGRFC_DEST_SHIP \<noteq> ARFC_DEST_SHIP" "BGRFC_DEST_SHIP \<noteq> ARFC_DEST_CONFIRM" by (simp_all add: dest_names)
  have "dispatch_inbound rt srv frame w = dispatch_bgrfc_unit rt srv frame w"
    by (simp add: f dispatch_inbound_def Let_def system_frame_bare system_frame_name [OF fr] then_d_reply_Inr ne)
  with unit_delivery [OF srv i shipped_unit_carries [OF u v, where rest = "[0xFF, 0xFF]", folded f] hs] show ?thesis by simp
qed

end

section \<open>Properties\<close>

text \<open>C4. A background unit runs its calls in order, once.  For every unit the client ships whose calls
  name registered functions: if the store already has the unit as committed or confirmed, nothing
  runs and the answer says so; otherwise the handlers run in the order of the calls up to the first
  failure, the unit becomes confirmed exactly when all of them ran, and a failure leaves it in
  process and reports the failing call's text; the transaction store is not touched.  A unit that
  ran completely is answered as executed when it is shipped again.\<close>

theorem unit_runs_in_order_once:
  assumes "unit_store_ops srv = mem_unit_ops" and "plain_unit srv" and "mem_inv (units w)"
    and "good_version version vb" and "shippable_unit (uid, ty) qs cs"
    and "build_bgrfc_request uid ty qs cs version = Inr frame"
    and "length hs = length cs" and "\<forall>j < length cs. runnable rt srv (cs ! j) (hs ! j)"
  shows "\<exists>r w'. dispatch_inbound rt srv frame w = (answer r, w') \<and> tids w' = tids w \<and>
    unit_answer (mem_ustate (units w)) (uid, ty) hs (app w) = (r, mem_ustate (units w'), app w') \<and>
    (fst (spec_calls hs (app w)) = None \<longrightarrow>
      dispatch_inbound rt srv frame w' = (answer build_rfc_executed_response, w'))"
proof -
  have run: "j < length cs \<Longrightarrow> runnable rt srv (cs ! j) (hs ! j)" for j using assms(8) by blast
  have frame: "build_bgrfc_request (fst (uid, ty)) (snd (uid, ty)) qs cs version = Inr frame" using assms(6) by simp
  note ship = mem_unit.shipped_unit [OF assms(1) [unfolded mem_unit_ops_def] assms(2) _ assms(4,5) frame assms(7) run]
  obtain r w' where w': "dispatch_inbound rt srv frame w = (answer r, w')" "mem_inv (units w')" "tids w' = tids w"
      "unit_answer (mem_ustate (units w)) (uid, ty) hs (app w) = (r, mem_ustate (units w'), app w')"
    using ship [OF assms(3)] by blast
  have "dispatch_inbound rt srv frame w' = (answer build_rfc_executed_response, w')"
    if ok: "fst (spec_calls hs (app w)) = None"
  proof -
    obtain e' where "spec_calls hs (app w) = (None, e')" using ok by (metis prod.collapse)
    then have "mem_ustate (units w') (uid, ty) = COMMITTED \<or> mem_ustate (units w') (uid, ty) = CONFIRMED"
      using w'(4) by (auto simp: unit_answer_def split: if_splits) (metis fun_upd_same)
    with ship [OF w'(2)] show ?thesis by (auto simp: unit_answer_def)
  qed
  with w' show ?thesis by (intro exI [of _ r] exI [of _ w']) simp
qed

definition demo_unit :: unit_key where
  "demo_unit = (lit ''0123456789ABCDEF0123456789ABCDEF'', lit ''T'')"

definition demo_call :: bytes where
  "demo_call = blit ''Z'' @ [0, 0, 0] @ [1, 2, 3]"

definition unit_server :: "(mem_tid_store, mem_unit_store, nat) rfc_server" where
  "unit_server = register demo_runtime (lit ''Z'') None demo_handler (demo_server mem_tid_ops mem_unit_ops)"

lemma demo_call_runs: "runnable demo_runtime unit_server demo_call demo_handler"
proof -
  have "buffered_name demo_call = Some (lit ''Z'')"
    by (simp add: buffered_name_def demo_call_def utf16le_decode_def is_surrogate_def rstrip_by_def)
  moreover have "map_of (registry unit_server) (py_upper (upper_char demo_runtime) (lit ''Z'')) = Some (None, demo_handler)"
    by (simp add: unit_server_def register_def map_of_update)
  moreover have "demo_call \<noteq> []" "lit ''Z'' \<noteq> []" by (simp_all add: demo_call_def)
  ultimately show ?thesis unfolding runnable_def by blast
qed

lemma demo_unit_ships: "shippable_unit demo_unit [] [demo_call, demo_call]"
  by (simp add: shippable_unit_def demo_unit_def demo_call_def validate_unit_id_def validate_unit_type_def
      check_def UNITID_LN_def UNITID_CHARSET_def)

theorem unit_runs_in_order_once_witness:
  "\<exists>frame w'. build_bgrfc_request (fst demo_unit) (snd demo_unit) [] [demo_call, demo_call] RFC_VERSION = Inr frame \<and>
    dispatch_inbound demo_runtime unit_server frame \<lparr>tids = mem_new, units = mem_new, app = 0\<rparr>
      = (answer build_rfc_ok_response, w') \<and> app w' = 2 \<and>
    dispatch_inbound demo_runtime unit_server frame w' = (answer build_rfc_executed_response, w')"
proof -
  let ?w = "\<lparr>tids = mem_new, units = mem_new, app = 0\<rparr> :: (mem_tid_store, mem_unit_store, nat) world"
  have srv: "unit_store_ops unit_server = mem_unit_ops" "plain_unit unit_server"
    by (simp_all add: unit_server_def register_def demo_server_def plain_unit_def)
  have i: "mem_inv (units ?w)" by (simp add: mem_new_inv)
  obtain frame where f: "build_bgrfc_request (fst demo_unit) (snd demo_unit) [] [demo_call, demo_call] RFC_VERSION = Inr frame"
    using bgrfc_request_written [OF demo_unit_ships demo_version] by blast
  have runs: "\<forall>j < length [demo_call, demo_call]. runnable demo_runtime unit_server
      ([demo_call, demo_call] ! j) ([demo_handler, demo_handler] ! j)"
    using demo_call_runs by (auto simp: less_Suc_eq)
  have spec: "spec_calls [demo_handler, demo_handler] (0 :: nat) = (None, 2)" by (simp add: demo_handler_def)
  have new: "mem_ustate mem_new demo_unit = NOT_FOUND" by (simp add: mem_ustate_def mem_new_def)
  have u: "shippable_unit (fst demo_unit, snd demo_unit) [] [demo_call, demo_call]" using demo_unit_ships by simp
  have fs: "fst (spec_calls [demo_handler, demo_handler] (app ?w)) = None" by (simp add: demo_handler_def)
  obtain r w' where w': "dispatch_inbound demo_runtime unit_server frame ?w = (answer r, w')"
      "unit_answer (mem_ustate (units ?w)) (fst demo_unit, snd demo_unit) [demo_handler, demo_handler] (app ?w)
        = (r, mem_ustate (units w'), app w')"
      "dispatch_inbound demo_runtime unit_server frame w' = (answer build_rfc_executed_response, w')"
    using unit_runs_in_order_once [OF srv i demo_version u f _ runs] fs by auto
  have "r = build_rfc_ok_response \<and> app w' = 2"
    using w'(2) by (simp add: unit_answer_def new demo_handler_def)
  with w' f show ?thesis by auto
qed

end
