(* ===== verification/Tx_Network.thy ===== *)
theory Tx_Network
  imports Tx_Client Unit_Delivery Logon_Bodies
begin

text \<open>
  The transactional client and the server put together over a network that loses requests and
  replies.  A \<open>lossy\<close> network holds the server's world and the faults that are to come; sending hands
  the client's frame to \<open>dispatch_inbound\<close> and the reply, in its gateway frame, back to the client's
  own reply reader.  The specification \<open>spec_submit\<close> says what a submission with some attempts left
  comes to; the client model over the server model does exactly that.
\<close>


section \<open>Replies\<close>

definition refusal :: "nat \<Rightarrow> (nat \<rightharpoonup> bytes) \<Rightarrow> pystr \<Rightarrow> exn" where
  "refusal rc tags text = AbapSystemFailure (error_info tags None (Some
     (if text \<noteq> [] then text else lit ''RFC return code '' @ dec_digits rc)))"

text \<open>What the client raises for each of the server's answers to a transaction.\<close>

definition verdict :: "outcome \<Rightarrow> unit res \<Rightarrow> bool" where
  "verdict oc r \<longleftrightarrow>
     (case oc of
        Done \<Rightarrow> r = Inr ()
      | Duplicate \<Rightarrow> (\<exists>i. r = Inl (AbapSystemFailure i) \<and> message i = Some (lit ''RFC return code 16''))
      | Failed m \<Rightarrow> (\<exists>i. r = Inl (AbapSystemFailure i) \<and> message i = Some (failure_text m)))"

lemma status_frame_read:
  fixes rs :: "(nat \<times> bytes) list"
  assumes "\<forall>r \<in> set rs. ok_record r" and "rc < 2 ^ 32"
    and "resp = tlv_records ([(TAG_RESPONSE_START, []), (TAG_RETURN_CODE, be_bytes 4 rc)] @ rs) @ tlv_end @ [0, 0] @ rest"
    and "TAG_EXCEPTION_NUMBER \<notin> fst ` set rs" and "TAG_RETURN_CODE \<notin> fst ` set rs"
  shows "tlv_stream_status resp = Complete" and "strip_gw_header resp = resp"
    and "raise_for_rfc_error u8 resp None =
      (if rc = 0 then Inr ()
       else Inl (refusal rc (map_of (rev ([(TAG_RESPONSE_START, []), (TAG_RETURN_CODE, be_bytes 4 rc)] @ rs)))
         (Rfc_Errors.decode_error_text (map_of (rev rs) TAG_EXCEPTION_TEXT))))"
proof -
  let ?hd = "[(TAG_RESPONSE_START, []), (TAG_RETURN_CODE, be_bytes 4 rc)]"
  have ok: "\<forall>r \<in> set (?hd @ rs). ok_record r"
    using assms(1) by (auto simp: ok_record_def TAG_RESPONSE_START_def TAG_RETURN_CODE_def)
  show "tlv_stream_status resp = Complete"
    using whole_is_complete [of "(TAG_RESPONSE_START, [])" "(TAG_RETURN_CODE, be_bytes 4 rc) # rs" 0 0 rest] ok
    by (simp add: assms(3))
  show "strip_gw_header resp = resp"
    unfolding assms(3) append_Cons by (rule bare_stream) (simp add: TAG_RESPONSE_START_def)
  let ?tags = "map_of (rev (?hd @ rs))"
  have ts: "parse_tlv_stream resp = Inr ?tags"
    unfolding assms(3) using parse_tlv_stream_written [OF ok, of 0 0 rest] by (simp only: append_Cons append_Nil)
  have t: "?tags TAG_EXCEPTION_NUMBER = None" "?tags TAG_RETURN_CODE = Some (be_bytes 4 rc)"
      "?tags TAG_EXCEPTION_TEXT = map_of (rev rs) TAG_EXCEPTION_TEXT"
    using tags_of_head [OF assms(4), of ?hd] tags_of_head [OF assms(5), of ?hd]
    by (simp_all add: TAG_RETURN_CODE_def TAG_RESPONSE_START_def TAG_EXCEPTION_NUMBER_def TAG_EXCEPTION_TEXT_def map_add_def split: option.splits)
  have "tlv_record_body TAG_RESPONSE_START [] = [5, 0, 0, 0, 5, 0]"
    by (simp add: tlv_record_body_def TAG_RESPONSE_START_def be_bytes_two)
  then have gw: "parse_gateway_error u8 resp = None"
    by (simp add: assms(3) tlv_records_Cons parse_gateway_error_def GATEWAY_ERROR_MARKER_def starts_with_def)
  have rc: "be_val (be_bytes 4 rc) = rc" using assms(2) by simp
  show "raise_for_rfc_error u8 resp None = (if rc = 0 then Inr () else Inl (refusal rc ?tags
         (Rfc_Errors.decode_error_text (map_of (rev rs) TAG_EXCEPTION_TEXT))))"
    unfolding raise_for_rfc_error_def gw option.case ts sum.case raise_for_tags_def t rc
    by (simp add: refusal_def Let_def)
qed

lemma outcome_read:
  assumes "case oc of Failed m \<Rightarrow> is_ascii m | _ \<Rightarrow> True"
  shows "\<exists>resp r. outcome_reply oc = Inr resp \<and> length resp < 2 ^ 32 \<and> tlv_stream_status resp = Complete \<and>
    strip_gw_header resp = resp \<and> raise_for_rfc_error u8 resp None = r \<and> verdict oc r"
proof -
  obtain rc rs where o: "outcome_reply oc = Inr (tlv_records ([(TAG_RESPONSE_START, []), (TAG_RETURN_CODE, be_bytes 4 rc)] @ rs)
      @ tlv_end @ [0, 0] @ [0xFF, 0xFF])" and ok: "\<forall>r \<in> set rs. ok_record r" "rc < 2 ^ 32"
    "TAG_EXCEPTION_NUMBER \<notin> fst ` set rs" "TAG_RETURN_CODE \<notin> fst ` set rs" "length (tlv_records rs) \<le> 2000"
    and v: "\<And>tags. verdict oc (if rc = 0 then Inr () else Inl (refusal rc tags
         (Rfc_Errors.decode_error_text (map_of (rev rs) TAG_EXCEPTION_TEXT))))"
  proof (cases oc)
    case Duplicate
    have "join_records [] = Inr (tlv_records [])" by simp
    from status_response_written [OF this, of RC_EXECUTED] show thesis
      by (intro that [of RC_EXECUTED "[]"])
        (simp_all add: Duplicate build_rfc_executed_response_def RC_EXECUTED_def verdict_def refusal_def
          Rfc_Errors.decode_error_text_def error_info_def dec_digits.simps)
  next
    case Done
    have "join_records [] = Inr (tlv_records [])" by simp
    from status_response_written [OF this, of RC_OK] show thesis
      by (intro that [of RC_OK "[]"]) (simp_all add: Done build_rfc_ok_response_def RC_OK_def verdict_def)
  next
    case (Failed m)
    then have m: "is_ascii m" using assms by simp
    have s: "length (sanitize_message m) \<le> 512" using sanitize_ascii [OF m] by simp
    have "dec_digits 3 = lit ''3''" by (subst dec_digits.simps) simp
    then show thesis
      using failure_written [OF ascii_failure [OF m]] s failure_text_decoded [OF m]
      by (intro that [of RC_SYSTEM_FAILURE "[(TAG_EXCEPTION_TEXT, concat (map (le_bytes 2) (sanitize_message m)))]"])
        (simp_all add: Failed failure_records_def RC_SYSTEM_FAILURE_def verdict_def refusal_def error_info_def
          failure_text_def Let_def tlv_records_Cons length_tlv_record_body TAG_EXCEPTION_TEXT_def
          TAG_EXCEPTION_NUMBER_def TAG_RETURN_CODE_def)
  qed
  have "length (tlv_end :: bytes) \<le> 10" by simp
  then have l: "length (tlv_records ([(TAG_RESPONSE_START, []), (TAG_RETURN_CODE, be_bytes 4 rc)] @ rs)
      @ tlv_end @ [0, 0] @ [0xFF, 0xFF]) < 2 ^ 32"
    using ok(5) by (simp add: tlv_records_Cons length_tlv_record_body)
  note st = status_frame_read [OF ok(1,2) refl ok(3,4), where rest = "[0xFF, 0xFF]"]
  show ?thesis by (intro exI conjI) (rule o l st(1) st(2) st(3) v)+
qed


section \<open>A network that loses requests and replies\<close>

datatype fault = Lost_Request | Lost_Reply | Delivered

record ('s, 'u, 'e) lossy =
  l_world :: "('s, 'u, 'e) world"
  l_faults :: "fault list"
  l_reply :: "bytes option"

definition served :: "runtime \<Rightarrow> ('s, 'u, 'e) rfc_server \<Rightarrow> bytes \<Rightarrow> bytes \<Rightarrow> ('s, 'u, 'e) world \<Rightarrow> bytes option \<times> ('s, 'u, 'e) world" where
  "served rt srv h frame w =
     (case dispatch_inbound rt srv frame w of
        (Inl x, w') \<Rightarrow> (None, w')
      | (Inr resp, w') \<Rightarrow> (case wrap_in_0608 resp h of Inl e \<Rightarrow> (None, w') | Inr f \<Rightarrow> (Some f, w')))"

definition lossy_send :: "runtime \<Rightarrow> ('s, 'u, 'e) rfc_server \<Rightarrow> bytes \<Rightarrow> bytes \<Rightarrow> (('s, 'u, 'e) lossy, unit) act" where
  "lossy_send rt srv h frame n =
     (Inr (),
      case l_faults n of
        Lost_Request # fs \<Rightarrow> n\<lparr>l_faults := fs, l_reply := None\<rparr>
      | Lost_Reply # fs \<Rightarrow> (case served rt srv h frame (l_world n) of (r, w) \<Rightarrow>
          n\<lparr>l_world := w, l_faults := fs, l_reply := None\<rparr>)
      | fs \<Rightarrow> (case served rt srv h frame (l_world n) of (r, w) \<Rightarrow>
          n\<lparr>l_world := w, l_faults := tl fs, l_reply := r\<rparr>))"

definition lossy_recv :: "(('s, 'u, 'e) lossy, bytes) act" where
  "lossy_recv n = (case l_reply n of None \<Rightarrow> (Inl TimeoutError, n) | Some f \<Rightarrow> (Inr f, n\<lparr>l_reply := None\<rparr>))"

lemma wrapped:
  assumes "length resp < 2 ^ 32" and "length h = 8"
  shows "\<exists>f. wrap_in_0608 resp h = Inr f \<and> strip_gw_header f = resp"
proof -
  let ?hd = "put_slice 78 80 [0, 1] (put_slice 76 78 [0xFF, 0xFF]
      (pack_at 48 (be_bytes 4 (length resp)) (put_slice 40 48 h (blank_frame 8))))"
  have b: "length (blank_frame 8) = 80" "take 1 (blank_frame 8) = [6]"
    by (simp_all add: blank_frame_def put_slice_def)
  have l: "length ?hd = 80" using assms(2) b by (simp add: length_put_slice length_pack_at)
  define p1 where "p1 = put_slice 40 48 h (blank_frame 8)"
  have p1: "length p1 = 80" "take 1 p1 = [6]"
    using assms(2) b by (simp_all add: p1_def length_put_slice take_put_slice del: One_nat_def)
  define p2 where "p2 = pack_at 48 (be_bytes 4 (length resp)) p1"
  have p2: "length p2 = 80" "take 1 p2 = [6]"
    using p1 by (simp_all add: p2_def pack_at_def length_put_slice take_put_slice del: One_nat_def)
  have "take 1 ?hd = [6]"
    unfolding p1_def [symmetric] p2_def [symmetric]
    using p2 by (simp add: length_put_slice take_put_slice del: One_nat_def)
  then have "strip_gw_header (?hd @ resp) = resp"
    using l by (simp add: strip_gw_header_def del: One_nat_def)
  then show ?thesis using assms(1) by (simp add: wrap_in_0608_def Let_def)
qed

lemma isinstance_timeout:
  "as_communication env TimeoutError = CommunicationError (exn_text env TimeoutError)"
  by (simp add: as_communication_def isinstance_def)

text \<open>One attempt, for a frame whose dispatch is known.\<close>

lemma attempt:
  assumes env: "net_send env = lossy_send rt srv h" "net_recv env = lossy_recv" and h: "length h = 8"
    and d: "dispatch_inbound rt srv request (l_world n) = (answer (outcome_reply oc), w')"
    and a: "case oc of Failed m \<Rightarrow> is_ascii m | _ \<Rightarrow> True"
  shows "case l_faults n of
      Lost_Request # fs \<Rightarrow> send_once env request n
        = (Inl (CommunicationError (exn_text env TimeoutError)), n\<lparr>l_faults := fs, l_reply := None\<rparr>)
    | Lost_Reply # fs \<Rightarrow> send_once env request n
        = (Inl (CommunicationError (exn_text env TimeoutError)), n\<lparr>l_world := w', l_faults := fs, l_reply := None\<rparr>)
    | fs \<Rightarrow> \<exists>r. send_once env request n = (r, n\<lparr>l_world := w', l_faults := tl fs, l_reply := None\<rparr>) \<and> verdict oc r"
proof -
  obtain resp r where o: "outcome_reply oc = Inr resp" "length resp < 2 ^ 32" "tlv_stream_status resp = Complete"
      "strip_gw_header resp = resp" "raise_for_rfc_error (utf8_text env) resp None = r" "verdict oc r"
    using outcome_read [OF a, of "utf8_text env"] by blast
  obtain f where f: "wrap_in_0608 resp h = Inr f" "strip_gw_header f = resp" using wrapped [OF o(2) h] by blast
  have s: "served rt srv h request (l_world n) = (Some f, w')"
    using d by (simp add: served_def o(1) answer_def f(1))
  have lost: "join_response_frames lossy_recv m = (Inl TimeoutError, m)" if "l_reply m = None" for m :: "('a, 'b, 'c) lossy"
    using that by (simp add: join_response_frames_def lossy_recv_def)
  have got: "join_response_frames lossy_recv m = (Inr resp, m\<lparr>l_reply := None\<rparr>)" if "l_reply m = Some f" for m :: "('a, 'b, 'c) lossy"
    using that by (simp add: join_response_frames_def lossy_recv_def f(2) join_loop.simps o(3))
  have deliver: "\<exists>r. send_once env request n = (r, n\<lparr>l_world := w', l_faults := tl (l_faults n), l_reply := None\<rparr>) \<and> verdict oc r"
    if "l_faults n = [] \<or> (\<exists>fs. l_faults n = Delivered # fs)"
  proof -
    let ?m = "n\<lparr>l_world := w', l_faults := tl (l_faults n), l_reply := Some f\<rparr>"
    have "lossy_send rt srv h request n = (Inr (), ?m)" using that s by (auto simp: lossy_send_def)
    then show ?thesis using got [of ?m] o(4-6) by (simp add: send_once_def env)
  qed
  show ?thesis
  proof (cases "l_faults n")
    case Nil
    then show ?thesis using deliver by simp
  next
    case (Cons x fs)
    show ?thesis
    proof (cases x)
      case Lost_Request
      then show ?thesis using Cons by (simp add: send_once_def env lossy_send_def lost isinstance_timeout)
    next
      case Lost_Reply
      then show ?thesis using Cons s by (simp add: send_once_def env lossy_send_def lost isinstance_timeout)
    next
      case Delivered
      then show ?thesis using Cons deliver by simp
    qed
  qed
qed


section \<open>Submitting over it\<close>

text \<open>What a submission with some attempts left comes to, and how often it reached the server.\<close>

fun spec_submit ::
    "'e handler_fn \<Rightarrow> pystr \<Rightarrow> nat \<Rightarrow> fault list \<Rightarrow> pystr set \<times> 'e \<Rightarrow> outcome option \<times> nat \<times> pystr set \<times> 'e" where
  "spec_submit h t 0 fs s = (None, 0, s)"
| "spec_submit h t (Suc k) fs s =
     (case fs of
        Lost_Request # fs' \<Rightarrow> spec_submit h t k fs' s
      | Lost_Reply # fs' \<Rightarrow>
          (case spec_submit h t k fs' (snd (spec_deliver h t s)) of (oc, n, s') \<Rightarrow> (oc, n + 1, s'))
      | _ \<Rightarrow> (case spec_deliver h t s of (oc, s') \<Rightarrow> (Some oc, 1, s')))"

text \<open>However many deliveries that were, the handler completed at most once.\<close>

lemma spec_submit_deliveries:
  assumes "spec_submit (H fm) t k fs s = (oc, n, s')"
  shows "\<exists>ocs. spec_all H (replicate n (t, fm, q)) s = (ocs, s') \<and>
    (oc \<noteq> None \<longrightarrow> n > 0 \<and> oc = Some (last ocs))"
  using assms
proof (induction k arbitrary: fs s oc n)
  case (Suc k)
  obtain d s1 where d: "spec_deliver (H fm) t s = (d, s1)" by (metis surj_pair)
  show ?case
  proof (cases fs)
    case Nil
    then show ?thesis using Suc.prems d by auto
  next
    case (Cons x fs')
    show ?thesis
    proof (cases x)
      case Lost_Request
      then show ?thesis using Suc.prems Suc.IH [of fs' s] Cons by simp
    next
      case Lost_Reply
      obtain oc1 n1 s2 where r: "spec_submit (H fm) t k fs' s1 = (oc1, n1, s2)" by (metis prod_cases3)
      have s2: "s2 = s'" using Suc.prems d r Cons Lost_Reply by simp
      obtain ocs where ocs: "spec_all H (replicate n1 (t, fm, q)) s1 = (ocs, s2)"
          "oc1 \<noteq> None \<longrightarrow> n1 > 0 \<and> oc1 = Some (last ocs)"
        using Suc.IH [OF r [unfolded s2]] by (auto simp: s2)
      have "length ocs = n1" using ocs(1) by (metis length_replicate spec_completions surj_pair)
      then show ?thesis using Suc.prems d r ocs Cons Lost_Reply by (auto simp: last_ConsR)
    next
      case Delivered
      then show ?thesis using Suc.prems d Cons by auto
    qed
  qed
qed simp

definition ascii_failures :: "'e handler_fn \<Rightarrow> bool" where
  "ascii_failures h \<longleftrightarrow> (\<forall>e x e'. call_handler h [] e = (Inl x, e') \<longrightarrow> is_ascii (ux_text x))"

lemma spec_deliver_ascii:
  "ascii_failures h \<Longrightarrow> spec_deliver h t s = (oc, s') \<Longrightarrow> case oc of Failed m \<Rightarrow> is_ascii m | _ \<Rightarrow> True"
  by (auto simp: spec_deliver_def ascii_failures_def split: prod.splits if_splits sum.splits) blast

definition parked_by :: "('n, 's, 'u) tx_env \<Rightarrow> tx_id \<Rightarrow> bytes \<Rightarrow> 's option \<Rightarrow> 's option \<Rightarrow> unit res \<Rightarrow> bool" where
  "parked_by env i request st st' r \<longleftrightarrow>
     (case i of Unit k \<Rightarrow> False
      | Tid t \<Rightarrow>
          (case st of None \<Rightarrow> st' = None \<and> (\<exists>e. r = Inl (exhausted i e))
           | Some s \<Rightarrow> (case tid_park env t request s of
               (Inl e, s') \<Rightarrow> st' = Some s' \<and> r = Inl e
             | (Inr u, s') \<Rightarrow> st' = Some s' \<and> (\<exists>e. r = Inl (exhausted i e)))))"

lemma verdict_final: "verdict oc r \<Longrightarrow> r = Inr () \<or> (\<exists>e. r = Inl e \<and> \<not> isinstance e C_CommunicationError)"
  by (auto simp: verdict_def isinstance_def split: outcome.splits)

lemma submit_answered:
  assumes "send_once env request (c_net c) = (r, n)" and "verdict oc r"
  shows "submit_attempts env i request (Suc k) c = (r, c\<lparr>c_net := n\<rparr>)"
  using assms verdict_final [OF assms(2)] by auto

lemma submit_lost:
  assumes "send_once env request (c_net c) = (Inl (CommunicationError x), n)"
  shows "submit_attempts env i request (Suc k) c =
    (if k = 0 then (case store_park env i request (c\<lparr>c_net := n\<rparr>) of
         (Inl e', c2) \<Rightarrow> (Inl e', c2) | (Inr u, c2) \<Rightarrow> (Inl (exhausted i (CommunicationError x)), c2))
     else submit_attempts env i request k (c\<lparr>c_net := n\<rparr>))"
  using assms by (simp add: isinstance_def)

lemma parked_tid:
  "\<exists>r c'. (case store_park env (Tid t) request c of
       (Inl e', c2) \<Rightarrow> (Inl e', c2) | (Inr u, c2) \<Rightarrow> (Inl (exhausted (Tid t) e), c2)) = (r, c') \<and>
     c_net c' = c_net c \<and> c_session c' = c_session c \<and>
     parked_by env (Tid t) request (c_tids c) (c_tids c') r"
proof (cases "c_tids c")
  case None
  then show ?thesis by (auto simp: store_park_def parked_by_def)
next
  case (Some s)
  obtain r s' where p: "tid_park env t request s = (r, s')" by fastforce
  then show ?thesis using Some by (cases r) (auto simp: store_park_def parked_by_def)
qed

context tid_store
begin

lemma submit_over_losses:
  fixes c :: "(('s, 'u, 'e) lossy, 'c, 'v) tx_conn"
  assumes env: "net_send env = lossy_send rt srv h" "net_recv env = lossy_recv" and h: "length h = 8"
    and srv: "tid_store_ops srv = \<lparr>ts_is_executed = is_executed, ts_mark_received = mark_received,
        ts_mark_executed = mark_executed, ts_mark_rolled_back = mark_rolled_back\<rparr>" "plain_tx srv"
    and v: "good_version version vb" and d: "deliverable rt srv (tid, fm, q)"
    and f: "strip_gw_header request = system_stream vb ARFC_DEST_SHIP (tx_params (tid, fm, q)) rest"
    and a: "ascii_failures (handler_of rt srv fm)"
  shows "0 < k \<Longrightarrow> inv (tids (l_world (c_net c))) \<Longrightarrow>
    spec_submit (handler_of rt srv fm) tid k (l_faults (c_net c))
      (executed (tids (l_world (c_net c))), app (l_world (c_net c))) = (oc, m, E', e') \<Longrightarrow>
    \<exists>r c'. submit_attempts env (Tid tid) request k c = (r, c') \<and>
      inv (tids (l_world (c_net c'))) \<and> executed (tids (l_world (c_net c'))) = E' \<and> app (l_world (c_net c')) = e' \<and>
      c_session c' = c_session c \<and>
      (case oc of Some x \<Rightarrow> verdict x r \<and> c_tids c' = c_tids c
       | None \<Rightarrow> parked_by env (Tid tid) request (c_tids c) (c_tids c') r)"
proof (induction k arbitrary: c oc m)
  case (Suc k)
  let ?n = "c_net c"
  obtain x w' where w': "dispatch_inbound rt srv request (l_world ?n) = (answer (outcome_reply x), w')" "inv (tids w')"
      "spec_deliver (handler_of rt srv fm) tid (executed (tids (l_world ?n)), app (l_world ?n))
        = (x, executed (tids w'), app w')"
    using shipped_delivery [OF srv Suc.prems(2) v d f] by blast
  note att = attempt [OF env h w'(1) spec_deliver_ascii [OF a w'(3)]]
  let ?goal = "\<exists>r c'. submit_attempts env (Tid tid) request (Suc k) c = (r, c') \<and>
      inv (tids (l_world (c_net c'))) \<and> executed (tids (l_world (c_net c'))) = E' \<and> app (l_world (c_net c')) = e' \<and>
      c_session c' = c_session c \<and>
      (case oc of Some x \<Rightarrow> verdict x r \<and> c_tids c' = c_tids c
       | None \<Rightarrow> parked_by env (Tid tid) request (c_tids c) (c_tids c') r)"
  have lost: ?goal
    if s: "send_once env request ?n = (Inl (CommunicationError y), n1)" and i: "inv (tids (l_world n1))"
      and sp: "spec_submit (handler_of rt srv fm) tid k (l_faults n1) (executed (tids (l_world n1)), app (l_world n1)) = (oc, m', E', e')"
    for y n1 m'
  proof (cases "k = 0")
    case True
    then have sp0: "oc = None" "E' = executed (tids (l_world n1))" "e' = app (l_world n1)" using sp by auto
    obtain r c' where "submit_attempts env (Tid tid) request (Suc k) c = (r, c')" "c_net c' = n1" "c_session c' = c_session c"
        "parked_by env (Tid tid) request (c_tids c) (c_tids c') r"
      using parked_tid [where env = env and t = tid and request = request and c = "c\<lparr>c_net := n1\<rparr>" and e = "CommunicationError y"]
      unfolding submit_lost [OF s] using True by auto
    then show ?thesis using sp0 i by (simp del: submit_attempts.simps)
  next
    case False
    have step: "submit_attempts env (Tid tid) request (Suc k) c = submit_attempts env (Tid tid) request k (c\<lparr>c_net := n1\<rparr>)"
      by (simp only: submit_lost [OF s] False if_False)
    show ?thesis
      unfolding step using Suc.IH [of "c\<lparr>c_net := n1\<rparr>" oc m'] False i sp by (simp cong: option.case_cong del: submit_attempts.simps)
  qed
  have answered: ?goal if del: "l_faults ?n = [] \<or> (\<exists>fs. l_faults ?n = Delivered # fs)"
  proof -
    obtain r where r: "send_once env request ?n = (r, ?n\<lparr>l_world := w', l_faults := tl (l_faults ?n), l_reply := None\<rparr>)"
        "verdict x r"
      using att del by auto
    have "oc = Some x" "E' = executed (tids w')" "e' = app w'" using Suc.prems(3) del w'(3) by auto
    then show ?thesis using submit_answered [OF r] w'(2) r(2) by simp
  qed
  show ?case
  proof (cases "l_faults ?n")
    case Nil
    then show ?thesis using answered by blast
  next
    case (Cons y fs)
    show ?thesis
    proof (cases y)
      case Lost_Request
      note sent = att [unfolded Cons Lost_Request, simplified]
      have "spec_submit (handler_of rt srv fm) tid k fs (executed (tids (l_world ?n)), app (l_world ?n)) = (oc, m, E', e')"
        using Suc.prems(3) by (simp add: Cons Lost_Request)
      then show ?thesis using lost [OF sent] Suc.prems(2) by simp
    next
      case Lost_Reply
      note sent = att [unfolded Cons Lost_Reply, simplified]
      obtain m1 where "spec_submit (handler_of rt srv fm) tid k fs (executed (tids w'), app w') = (oc, m1, E', e')"
        using Suc.prems(3) Cons Lost_Reply w'(3) by (auto split: prod.splits)
      then show ?thesis using lost [OF sent] w'(2) by simp
    next
      case Delivered
      then show ?thesis using answered Cons by blast
    qed
  qed
qed simp

end


section \<open>Calls over it\<close>

lemma invoke_frame_stripped:
  assumes "length h = 8" and "build_invoke_frame h tlv = Inr request"
  shows "strip_gw_header request = tlv @ be_bytes 4 (length tlv) @ INVOKE_FOOTER_MAGIC"
proof -
  have r: "request = rfc_header h @ RFC_MARKER @ tlv @ be_bytes 4 (length tlv) @ INVOKE_FOOTER_MAGIC"
    using assms(2) by (simp add: build_invoke_frame_def split: if_splits)
  have "take 1 request = [6]" unfolding r by (rule rfc_header_first [OF assms(1)])
  moreover have "drop 80 request = tlv @ be_bytes 4 (length tlv) @ INVOKE_FOOTER_MAGIC"
    using length_rfc_header [OF assms(1)] by (simp add: r RFC_MARKER_def)
  moreover have "80 \<le> length request"
    using length_rfc_header [OF assms(1)] by (simp add: r RFC_MARKER_def)
  ultimately show ?thesis by (simp add: strip_gw_header_def)
qed

lemma system_stream_append: "system_stream vb fm ps rest @ x = system_stream vb fm ps (rest @ x)"
  by (simp add: system_stream_def)

definition ready_session :: "bytes \<Rightarrow> session \<Rightarrow> bool" where
  "ready_session h s \<longleftrightarrow> state s = READY \<and> handle s = Some h \<and> length h = 8"

lemma in_call_ready:
  assumes "state (c_session c) = READY"
    and "body (c\<lparr>c_session := (c_session c)\<lparr>state := IN_CALL\<rparr>\<rparr>) = (r, c1)"
    and "c_session c1 = (c_session c)\<lparr>state := IN_CALL\<rparr>"
  shows "in_call body c = (r, c1\<lparr>c_session := c_session c\<rparr>)"
  using assms by (simp add: in_call_def mark_in_call_def mark_ready_def require_state_def)

context tid_store
begin

lemma sent_over_losses:
  fixes c :: "(('s, 'u, 'e) lossy, 'c, 'v) tx_conn"
  assumes env: "net_send env = lossy_send rt srv g" "net_recv env = lossy_recv" "length g = 8" "0 \<le> max_retries env"
    and srv: "tid_store_ops srv = \<lparr>ts_is_executed = is_executed, ts_mark_received = mark_received,
        ts_mark_executed = mark_executed, ts_mark_rolled_back = mark_rolled_back\<rparr>" "plain_tx srv"
    and d: "deliverable rt srv (tid, fm, q)" and a: "ascii_failures (handler_of rt srv fm)"
    and i: "inv (tids (l_world (c_net c)))" and s: "ready_session h (c_session c)"
    and b: "build_trfc_request tid fm q RFC_VERSION = Inr tlv" "build_invoke_frame h tlv = Inr request"
  shows "\<exists>r c' oc m. in_call (submit_with_retry env (Tid tid) request) c = (r, c') \<and>
      spec_submit (handler_of rt srv fm) tid (nat (max_retries env + 1)) (l_faults (c_net c))
        (executed (tids (l_world (c_net c))), app (l_world (c_net c)))
      = (oc, m, executed (tids (l_world (c_net c'))), app (l_world (c_net c'))) \<and>
      c_session c' = c_session c \<and>
      (case oc of Some x \<Rightarrow> verdict x r \<and> c_tids c' = c_tids c
       | None \<Rightarrow> parked_by env (Tid tid) request (c_tids c) (c_tids c') r)"
proof -
  have tlv: "tlv = system_frame [0x37, 0, 0x35, 0, 0x34, 0] ARFC_DEST_SHIP (tx_params (tid, fm, q))"
    using trfc_request_written [OF d demo_version] b(1) by simp
  have len: "length h = 8" using s by (simp add: ready_session_def)
  note f = invoke_frame_stripped [OF len b(2), unfolded tlv, unfolded system_stream_append]
  let ?c = "c\<lparr>c_session := (c_session c)\<lparr>state := IN_CALL\<rparr>\<rparr>"
  let ?k = "nat (max_retries env + 1)"
  obtain oc m E' e' where sp: "spec_submit (handler_of rt srv fm) tid ?k (l_faults (c_net c))
      (executed (tids (l_world (c_net c))), app (l_world (c_net c))) = (oc, m, E', e')" by (metis prod_cases4)
  obtain r c1 where c1: "submit_attempts env (Tid tid) request ?k ?c = (r, c1)"
      "executed (tids (l_world (c_net c1))) = E'" "app (l_world (c_net c1)) = e'" "c_session c1 = c_session ?c"
      "case oc of Some x \<Rightarrow> verdict x r \<and> c_tids c1 = c_tids c
       | None \<Rightarrow> parked_by env (Tid tid) request (c_tids c) (c_tids c1) r"
    using submit_over_losses [OF env(1-3) srv demo_version d f a, of ?k ?c oc m E' e'] env(4) i sp
    by (auto cong: option.case_cong)
  have "in_call (submit_with_retry env (Tid tid) request) c = (r, c1\<lparr>c_session := c_session c\<rparr>)"
    by (rule in_call_ready) (use s c1 in \<open>simp_all add: ready_session_def submit_with_retry_def\<close>)
  with c1 sp show ?thesis by (auto cong: option.case_cong)
qed

lemma parked_over_losses:
  fixes c :: "(('s, 'u, 'e) lossy, 'c, 'v) tx_conn"
  assumes env: "net_send env = lossy_send rt srv g" "net_recv env = lossy_recv" "length g = 8" "0 \<le> max_retries env"
    and srv: "tid_store_ops srv = \<lparr>ts_is_executed = is_executed, ts_mark_received = mark_received,
        ts_mark_executed = mark_executed, ts_mark_rolled_back = mark_rolled_back\<rparr>" "plain_tx srv"
    and d: "deliverable rt srv (tid, fm, q)" and a: "ascii_failures (handler_of rt srv fm)"
    and i: "inv (tids (l_world (c_net c)))" and s: "ready_session h (c_session c)"
    and b: "build_trfc_request tid fm q RFC_VERSION = Inr tlv" "build_invoke_frame h tlv = Inr request"
    and l: "l_faults (c_net c) = []"
  shows "\<exists>r c' oc. in_call (submit_with_retry env (Tid tid) request) c = (r, c') \<and>
      spec_deliver (handler_of rt srv fm) tid (executed (tids (l_world (c_net c))), app (l_world (c_net c)))
      = (oc, executed (tids (l_world (c_net c'))), app (l_world (c_net c'))) \<and>
      verdict oc r \<and> c_tids c' = c_tids c"
proof -
  obtain r c1 oc m where c1: "in_call (submit_with_retry env (Tid tid) request) c = (r, c1)"
      "spec_submit (handler_of rt srv fm) tid (nat (max_retries env + 1)) [] (executed (tids (l_world (c_net c))), app (l_world (c_net c)))
      = (oc, m, executed (tids (l_world (c_net c1))), app (l_world (c_net c1)))"
      "case oc of Some x \<Rightarrow> verdict x r \<and> c_tids c1 = c_tids c
       | None \<Rightarrow> parked_by env (Tid tid) request (c_tids c) (c_tids c1) r"
    using sent_over_losses [OF env srv d a i s b] unfolding l by blast
  moreover have "nat (max_retries env + 1) = Suc (nat (max_retries env))" using env(4) by arith
  ultimately show ?thesis by (cases oc) (auto split: prod.splits)
qed

lemma called_over_losses:
  fixes c :: "(('s, 'u, 'e) lossy, 'c, 'v) tx_conn"
  assumes env: "net_send env = lossy_send rt srv g" "net_recv env = lossy_recv" "length g = 8" "0 \<le> max_retries env"
    and srv: "tid_store_ops srv = \<lparr>ts_is_executed = is_executed, ts_mark_received = mark_received,
        ts_mark_executed = mark_executed, ts_mark_rolled_back = mark_rolled_back\<rparr>" "plain_tx srv"
    and d: "deliverable rt srv (tid, fm, q)" and a: "ascii_failures (handler_of rt srv fm)"
    and i: "inv (tids (l_world (c_net c)))" and s: "ready_session h (c_session c)"
    and b: "build_trfc_request tid fm q RFC_VERSION = Inr tlv" "build_invoke_frame h tlv = Inr request"
  shows "\<exists>r c' oc m. call_transactional env fm tid q c = (r, c') \<and>
      spec_submit (handler_of rt srv fm) tid (nat (max_retries env + 1)) (l_faults (c_net c))
        (executed (tids (l_world (c_net c))), app (l_world (c_net c)))
      = (oc, m, executed (tids (l_world (c_net c'))), app (l_world (c_net c'))) \<and>
      c_session c' = c_session c \<and>
      (case oc of Some x \<Rightarrow> verdict x r \<and> c_tids c' = c_tids c
       | None \<Rightarrow> parked_by env (Tid tid) request (c_tids c) (c_tids c') r)"
proof -
  have "handle_or_blank (c\<lparr>c_session := (c_session c)\<lparr>state := IN_CALL\<rparr>\<rparr>) = h"
    using s by (auto simp: handle_or_blank_def ready_session_def)
  then have "call_transactional env fm tid q c = in_call (submit_with_retry env (Tid tid) request) c"
    using b by (auto simp: call_transactional_def invoke_framed_def in_call_def mark_in_call_def split: sum.splits)
  then show ?thesis using sent_over_losses [OF env srv d a i s b] by simp
qed

end

lemma fault_list_cases:
  obtains "fs = []" | fs' where "fs = Lost_Request # fs'" | fs' where "fs = Lost_Reply # fs'"
    | fs' where "fs = Delivered # fs'"
  by (metis fault.exhaust list.exhaust)

lemma spec_submit_at_most: "spec_submit h t k fs s = (oc, m, s') \<Longrightarrow> m \<le> k"
proof (induction k arbitrary: fs s oc m)
  case (Suc k)
  show ?case
  proof (cases fs rule: fault_list_cases)
    case (2 fs')
    then show ?thesis using Suc.prems Suc.IH [of fs'] by fastforce
  next
    case (3 fs')
    obtain oc1 m1 s1 where "spec_submit h t k fs' (snd (spec_deliver h t s)) = (oc1, m1, s1)" by (metis prod_cases3)
    with 3 Suc show ?thesis by fastforce
  qed (use Suc.prems in \<open>auto split: prod.splits\<close>)
qed simp

lemma submitted_once:
  assumes "spec_submit (H fm) t k fs (E, e) = (oc, m, E', e')"
  shows "\<exists>ocs. spec_all H (replicate m (t, fm, q)) (E, e) = (ocs, E', e') \<and>
    completions t (replicate m (t, fm, q)) ocs \<le> 1 \<and> m \<le> k \<and>
    (t \<in> E' \<longleftrightarrow> t \<in> E \<or> completions t (replicate m (t, fm, q)) ocs = 1)"
proof -
  obtain ocs where ocs: "spec_all H (replicate m (t, fm, q)) (E, e) = (ocs, E', e')"
    using spec_submit_deliveries [where H = H and fm = fm and t = t and q = q, OF assms] by blast
  have "m \<le> k" using spec_submit_at_most [OF assms] .
  with ocs spec_completions [OF ocs, of t] show ?thesis by (auto split: if_splits)
qed


text \<open>Losses before the first exchange that gets through.\<close>

definition losses :: "fault list \<Rightarrow> nat" where
  "losses fs = length (takeWhile (\<lambda>x. x \<noteq> Delivered) fs)"

lemma submit_gets_through:
  "spec_submit h t k fs s = (oc, m, s') \<Longrightarrow> losses fs < k \<Longrightarrow> oc \<noteq> None"
proof (induction k arbitrary: fs s oc m)
  case (Suc k)
  show ?case
  proof (cases fs rule: fault_list_cases)
    case (3 fs')
    obtain oc1 m1 s1 where "spec_submit h t k fs' (snd (spec_deliver h t s)) = (oc1, m1, s1)" by (metis prod_cases3)
    with 3 Suc show ?thesis by (fastforce simp: losses_def)
  qed (use Suc in \<open>auto simp: losses_def split: prod.splits\<close>)
qed simp

definition over :: "runtime \<Rightarrow> ('s, 'u, 'e) rfc_server \<Rightarrow> bytes \<Rightarrow> (('s, 'u, 'e) lossy, 'c, 'v) tx_env \<Rightarrow> bool" where
  "over rt srv g env \<longleftrightarrow> net_send env = lossy_send rt srv g \<and> net_recv env = lossy_recv \<and> length g = 8"

section \<open>A client of the server with one handler\<close>

lemma length_name_bytes:
  assumes "is_ascii n"
  shows "length (name_bytes n) = 2 * length n"
proof -
  have "length (concat (map (le_bytes 2) n)) = 2 * length n" by (induction n) simp_all
  then show ?thesis using assms by (simp add: name_bytes_def utf16le_encode_def utf16_units_ascii)
qed

lemma demo_frame:
  obtains tlv request where "build_trfc_request demo_tid (lit ''Z_ADD'') None RFC_VERSION = Inr tlv"
    "build_invoke_frame h tlv = Inr request"
proof -
  obtain tlv where t: "build_trfc_request demo_tid (lit ''Z_ADD'') None RFC_VERSION = Inr tlv"
    using trfc_request_written [OF demo_deliverable demo_version] by blast
  have "length (name_bytes (lit ''Z_ADD'')) \<le> 60" "length (name_bytes (lit ''ARFCTID'')) \<le> 60"
    "length (name_bytes (lit ''ARFCFNAM'')) \<le> 60" "length (name_bytes ARFC_DEST_SHIP) \<le> 60" "length (name_bytes demo_tid) \<le> 60"
    by (subst length_name_bytes; simp add: is_ascii_def dest_names demo_tid_def)+
  note l = this
  have "tlv = system_frame [0x37, 0, 0x35, 0, 0x34, 0] ARFC_DEST_SHIP (tx_params (demo_tid, lit ''Z_ADD'', None))"
    using trfc_request_written [OF demo_deliverable demo_version] t by simp
  then have "length tlv < 2 ^ 32"
    using l by (simp add: system_stream_def tlv_records_Cons length_tlv_record_body tlv_records_append system_head_def tx_params_def)
  then show thesis using that t by (simp add: build_invoke_frame_def)
qed

definition demo_client_env :: "('s, 'u, 'e) rfc_server \<Rightarrow> int \<Rightarrow> (('s, 'u, 'e) lossy, mem_tid_store, mem_unit_store) tx_env" where
  "demo_client_env srv n =
     \<lparr>net_send = lossy_send demo_runtime srv (replicate 8 0x31), net_recv = lossy_recv,
      tid_park = mem_park, tid_get_parked = mem_get_parked, tid_delete_parked = mem_delete_parked,
      unit_park = mem_park, unit_get_parked = mem_get_parked, unit_delete_parked = mem_delete_parked,
      max_retries = n, exn_text = (\<lambda>e. []), utf8_text = latin1_decode\<rparr>"

abbreviation demo_handle :: bytes where "demo_handle \<equiv> replicate 8 0x30"

definition demo_client :: "fault list \<Rightarrow> ((mem_tid_store, unit, nat) lossy, mem_tid_store, mem_unit_store) tx_conn" where
  "demo_client fs =
     \<lparr>c_net = \<lparr>l_world = fresh_world, l_faults = fs, l_reply = None\<rparr>,
      c_session = (new_session False)\<lparr>state := READY, handle := Some demo_handle\<rparr>,
      c_tids = Some mem_new, c_units = None\<rparr>"

lemma demo_client_simps:
  "over demo_runtime srv (replicate 8 0x31) (demo_client_env srv n)"
  "max_retries (demo_client_env srv n) = n" "l_faults (c_net (demo_client fs)) = fs"
  "mem_inv (tids (l_world (c_net (demo_client fs))))" "ready_session demo_handle (c_session (demo_client fs))"
  "mem_executed (tids (l_world (c_net (demo_client fs)))) = {}" "app (l_world (c_net (demo_client fs))) = 0"
  "c_tids (demo_client fs) = Some mem_new"
  by (simp_all add: over_def demo_client_env_def demo_client_def fresh_world_def mem_new_inv ready_session_def
      new_session_def mem_executed_def) (simp add: mem_new_def)

abbreviation demo_srv :: "(mem_tid_store, unit, nat) rfc_server" where
  "demo_srv \<equiv> demo_server mem_tid_ops demo_unit_ops"

lemma demo_handler_simps: "handler_of demo_runtime demo_srv (lit ''Z_ADD'') = demo_handler"
    "ascii_failures (handler_of demo_runtime demo_srv (lit ''Z_ADD''))"
  by (simp_all only: demo_handler_of) (simp add: ascii_failures_def demo_handler_def)

section \<open>Properties\<close>

text \<open>C2. A transactional call made over a network that loses requests and replies is executed at most
  once, and the caller learns what happened.  The client retries the request it built; the server
  sees as many deliveries as requests got through; whatever was lost, the handler completes at most
  once for the id.  When the losses end within the retries the caller gets the server's verdict on
  the last delivery; otherwise the request is parked under its id and the retries are reported as
  exhausted.  Either way the session is ready for the next call.\<close>

theorem transactional_call_survives_losses:
  assumes "over rt srv g env" and "0 \<le> max_retries env"
    and "tid_store_ops srv = mem_tid_ops" and "plain_tx srv" and "mem_inv (tids (l_world (c_net c)))"
    and "deliverable rt srv (tid, fm, q)" and "ascii_failures (handler_of rt srv fm)"
    and "ready_session h (c_session c)"
    and "build_trfc_request tid fm q RFC_VERSION = Inr tlv" and "build_invoke_frame h tlv = Inr request"
  shows "\<exists>r c' oc m ocs. call_transactional env fm tid q c = (r, c') \<and>
      spec_submit (handler_of rt srv fm) tid (nat (max_retries env + 1)) (l_faults (c_net c))
        (mem_executed (tids (l_world (c_net c))), app (l_world (c_net c)))
      = (oc, m, mem_executed (tids (l_world (c_net c'))), app (l_world (c_net c'))) \<and>
      spec_all (handler_of rt srv) (replicate m (tid, fm, q))
        (mem_executed (tids (l_world (c_net c))), app (l_world (c_net c)))
      = (ocs, mem_executed (tids (l_world (c_net c'))), app (l_world (c_net c'))) \<and>
      completions tid (replicate m (tid, fm, q)) ocs \<le> 1 \<and>
      (losses (l_faults (c_net c)) \<le> nat (max_retries env) \<longrightarrow> oc \<noteq> None) \<and>
      (case oc of Some x \<Rightarrow> verdict x r \<and> c_tids c' = c_tids c
       | None \<Rightarrow> parked_by env (Tid tid) request (c_tids c) (c_tids c') r) \<and>
      c_session c' = c_session c"
proof -
  obtain r c' oc m where c': "call_transactional env fm tid q c = (r, c')"
      "spec_submit (handler_of rt srv fm) tid (nat (max_retries env + 1)) (l_faults (c_net c))
        (mem_executed (tids (l_world (c_net c))), app (l_world (c_net c)))
      = (oc, m, mem_executed (tids (l_world (c_net c'))), app (l_world (c_net c')))"
      "c_session c' = c_session c"
      "case oc of Some x \<Rightarrow> verdict x r \<and> c_tids c' = c_tids c
       | None \<Rightarrow> parked_by env (Tid tid) request (c_tids c) (c_tids c') r"
    using mem_tid.called_over_losses [OF assms(1) [unfolded over_def, THEN conjunct1]
        assms(1) [unfolded over_def, THEN conjunct2, THEN conjunct1]
        assms(1) [unfolded over_def, THEN conjunct2, THEN conjunct2] assms(2) assms(3) [unfolded mem_tid_ops_def]
        assms(4,6,7,5,8-10)] by blast
  moreover have "losses (l_faults (c_net c)) \<le> nat (max_retries env) \<longrightarrow> oc \<noteq> None"
    using submit_gets_through [OF c'(2)] assms(2) by (simp add: nat_add_distrib)
  ultimately show ?thesis using submitted_once [where H = "handler_of rt srv" and fm = fm and t = tid and q = q, OF c'(2)] by metis
qed


theorem transactional_call_survives_losses_witness:
  "\<exists>r c'. call_transactional (demo_client_env demo_srv 2) (lit ''Z_ADD'') demo_tid None
        (demo_client [Lost_Request, Lost_Reply, Lost_Reply]) = (r, c') \<and>
     app (l_world (c_net c')) = 1 \<and> mem_executed (tids (l_world (c_net c'))) = {demo_tid}"
proof -
  obtain tlv request where b: "build_trfc_request demo_tid (lit ''Z_ADD'') None RFC_VERSION = Inr tlv"
      "build_invoke_frame demo_handle tlv = Inr request" by (rule demo_frame)
  let ?c = "demo_client [Lost_Request, Lost_Reply, Lost_Reply]"
  have z: "0 \<le> max_retries (demo_client_env demo_srv 2)" by (simp add: demo_client_env_def)
  obtain r c' oc m where c': "call_transactional (demo_client_env demo_srv 2) (lit ''Z_ADD'') demo_tid None ?c = (r, c')"
      "spec_submit (handler_of demo_runtime demo_srv (lit ''Z_ADD'')) demo_tid (nat (2 + 1)) [Lost_Request, Lost_Reply, Lost_Reply] ({}, 0)
        = (oc, m, mem_executed (tids (l_world (c_net c'))), app (l_world (c_net c')))"
    using transactional_call_survives_losses [where c = ?c, OF demo_client_simps(1) z demo_server_simps(1,3)
        demo_client_simps(4) demo_deliverable demo_handler_simps(2) demo_client_simps(5) b]
    unfolding demo_client_simps by blast
  have n: "nat (2 + 1) = Suc (Suc (Suc 0))" by simp
  from c'(2) [unfolded n demo_handler_simps]
  have "app (l_world (c_net c')) = 1 \<and> mem_executed (tids (l_world (c_net c'))) = {demo_tid}"
    by (simp add: spec_deliver_def demo_handler_def)
  with c'(1) show ?thesis by blast
qed

text \<open>C35. A call whose reply was lost is reported as failed although it succeeded.  When the first
  delivery of a transaction is executed and only its reply is lost, the retry is answered as a
  duplicate, which the client raises as a system failure with the text of return code 16; the
  handler has run, once, and the id is executed.\<close>

theorem lost_reply_reported_as_failure:
  assumes "over rt srv g env" and "1 \<le> max_retries env"
    and "tid_store_ops srv = mem_tid_ops" and "plain_tx srv" and "mem_inv (tids (l_world (c_net c)))"
    and "deliverable rt srv (tid, fm, q)" and "ascii_failures (handler_of rt srv fm)"
    and "ready_session h (c_session c)"
    and "build_trfc_request tid fm q RFC_VERSION = Inr tlv" and "build_invoke_frame h tlv = Inr request"
    and "l_faults (c_net c) = [Lost_Reply]" and "tid \<notin> mem_executed (tids (l_world (c_net c)))"
    and "call_handler (handler_of rt srv fm) [] (app (l_world (c_net c))) = (Inr v, e')"
  shows "\<exists>i c'. call_transactional env fm tid q c = (Inl (AbapSystemFailure i), c') \<and>
      message i = Some (lit ''RFC return code 16'') \<and>
      tid \<in> mem_executed (tids (l_world (c_net c'))) \<and> app (l_world (c_net c')) = e'"
proof -
  have env: "net_send env = lossy_send rt srv g" "net_recv env = lossy_recv" "length g = 8" "0 \<le> max_retries env"
    using assms(1,2) by (simp_all add: over_def)
  obtain r c' oc m where c': "call_transactional env fm tid q c = (r, c')"
      "spec_submit (handler_of rt srv fm) tid (nat (max_retries env + 1)) [Lost_Reply]
        (mem_executed (tids (l_world (c_net c))), app (l_world (c_net c)))
      = (oc, m, mem_executed (tids (l_world (c_net c'))), app (l_world (c_net c')))"
      "case oc of Some x \<Rightarrow> verdict x r \<and> c_tids c' = c_tids c
       | None \<Rightarrow> parked_by env (Tid tid) request (c_tids c) (c_tids c') r"
    using mem_tid.called_over_losses [OF env assms(3) [unfolded mem_tid_ops_def] assms(4,6,7,5,8-10)]
    unfolding assms(11) by blast
  have "nat (max_retries env + 1) = Suc (Suc (nat (max_retries env - 1)))" using assms(2) by arith
  with c'(2) assms(12,13) have "oc = Some Duplicate" "tid \<in> mem_executed (tids (l_world (c_net c')))"
      "app (l_world (c_net c')) = e'"
    by (auto simp: spec_deliver_def)
  with c'(1,3) show ?thesis by (auto simp: verdict_def)
qed


theorem lost_reply_reported_as_failure_witness:
  "\<exists>i c'. call_transactional (demo_client_env demo_srv 1) (lit ''Z_ADD'') demo_tid None (demo_client [Lost_Reply])
        = (Inl (AbapSystemFailure i), c') \<and>
     message i = Some (lit ''RFC return code 16'') \<and> app (l_world (c_net c')) = 1"
proof -
  obtain tlv request where b: "build_trfc_request demo_tid (lit ''Z_ADD'') None RFC_VERSION = Inr tlv"
      "build_invoke_frame demo_handle tlv = Inr request" by (rule demo_frame)
  let ?c = "demo_client [Lost_Reply]"
  have m: "1 \<le> max_retries (demo_client_env demo_srv 1)" by (simp add: demo_client_env_def)
  have n: "demo_tid \<notin> mem_executed (tids (l_world (c_net ?c)))" by (simp only: demo_client_simps empty_iff not_False_eq_True)
  have r: "call_handler (handler_of demo_runtime demo_srv (lit ''Z_ADD'')) [] (app (l_world (c_net ?c))) = (Inr No_Result, 1)"
    unfolding demo_handler_simps demo_client_simps by (simp add: demo_handler_def dict_result_def)
  show ?thesis
    using lost_reply_reported_as_failure [OF demo_client_simps(1) m demo_server_simps(1,3) demo_client_simps(4)
        demo_deliverable demo_handler_simps(2) demo_client_simps(5) b demo_client_simps(3) n r] by blast
qed


text \<open>C34. Re-driving a parked call.  Over a network that no longer loses anything, a parked request is
  delivered once more under its id.  If the id was never executed and the handler succeeds, it runs,
  once, and the parked payload is deleted.  If an earlier delivery was executed, which the client
  could not know, the re-drive ends in the duplicate's failure and the payload stays parked, so that
  every later re-drive fails in the same way.\<close>

theorem parked_call_redriven:
  assumes "over rt srv g env" and "0 \<le> max_retries env" and "l_faults (c_net c) = []"
    and "tid_get_parked env = mem_get_parked" and "tid_delete_parked env = mem_delete_parked"
    and "tid_store_ops srv = mem_tid_ops" and "plain_tx srv" and "mem_inv (tids (l_world (c_net c)))"
    and "deliverable rt srv (tid, fm, q)"
    and "call_handler (handler_of rt srv fm) [] (app (l_world (c_net c))) = (Inr v, e')"
    and "ready_session h (c_session c)" and "ascii_failures (handler_of rt srv fm)"
    and "build_trfc_request tid fm q RFC_VERSION = Inr tlv" and "build_invoke_frame h tlv = Inr request"
    and "c_tids c = Some s" and "mem_parked s tid = Some request"
  shows "\<exists>r c'. retry_parked env tid c = (r, c') \<and> tid \<in> mem_executed (tids (l_world (c_net c'))) \<and>
      (if tid \<in> mem_executed (tids (l_world (c_net c)))
       then (\<exists>i. r = Inl (AbapSystemFailure i)) \<and> c_tids c' = Some s \<and>
         app (l_world (c_net c')) = app (l_world (c_net c))
       else r = Inr () \<and> app (l_world (c_net c')) = e' \<and>
         (\<exists>s'. c_tids c' = Some s' \<and> mem_parked s' tid = None))"
proof -
  have env: "net_send env = lossy_send rt srv g" "net_recv env = lossy_recv" "length g = 8"
    using assms(1) by (simp_all add: over_def)
  obtain r c1 oc where c1: "in_call (submit_with_retry env (Tid tid) request) c = (r, c1)"
      "spec_deliver (handler_of rt srv fm) tid (mem_executed (tids (l_world (c_net c))), app (l_world (c_net c)))
      = (oc, mem_executed (tids (l_world (c_net c1))), app (l_world (c_net c1)))"
      "verdict oc r" "c_tids c1 = Some s"
    using mem_tid.parked_over_losses [OF env assms(2) assms(6) [unfolded mem_tid_ops_def] assms(7,9,12,8,11,13,14,3)]
      assms(15) by auto
  have step: "retry_parked env tid c = (case r of Inl e \<Rightarrow> (Inl e, c1)
      | Inr u \<Rightarrow> (Inr (), c1\<lparr>c_tids := Some (snd (mem_delete_parked tid s))\<rparr>))"
    using c1(1,4) assms(4,5,15,16)
    by (simp add: retry_parked_def mem_get_parked_def mem_delete_parked_def split: sum.splits)
  show ?thesis
  proof (cases "tid \<in> mem_executed (tids (l_world (c_net c)))")
    case True
    then obtain i where "r = Inl (AbapSystemFailure i)" "oc = Duplicate"
      using c1(2,3) by (auto simp: spec_deliver_def verdict_def)
    then show ?thesis using True c1(2,4) step by (simp add: spec_deliver_def)
  next
    case False
    then have "r = Inr ()" using c1(2,3) assms(10) by (simp add: spec_deliver_def verdict_def)
    then show ?thesis using False c1(2) assms(10) step
      by (auto simp: spec_deliver_def mem_delete_parked_def map_of_delete)
  qed
qed

definition demo_parked :: "bytes \<Rightarrow> ((mem_tid_store, unit, nat) lossy, mem_tid_store, mem_unit_store) tx_conn" where
  "demo_parked request = (demo_client [])\<lparr>c_tids := Some \<lparr>store = [], parked = [(demo_tid, request)]\<rparr>\<rparr>"

theorem parked_call_redriven_witness:
  "\<exists>request c' s'. retry_parked (demo_client_env demo_srv 1) demo_tid (demo_parked request) = (Inr (), c') \<and>
     app (l_world (c_net c')) = 1 \<and> c_tids c' = Some s' \<and> mem_parked s' demo_tid = None"
proof -
  obtain tlv request where b: "build_trfc_request demo_tid (lit ''Z_ADD'') None RFC_VERSION = Inr tlv"
      "build_invoke_frame demo_handle tlv = Inr request" by (rule demo_frame)
  let ?c = "demo_parked request" and ?env = "demo_client_env demo_srv 1"
  have c: "c_net ?c = c_net (demo_client [])" "c_session ?c = c_session (demo_client [])"
    by (simp_all add: demo_parked_def)
  have e: "0 \<le> max_retries ?env" "tid_get_parked ?env = mem_get_parked" "tid_delete_parked ?env = mem_delete_parked"
    by (simp_all add: demo_client_env_def)
  have r: "call_handler (handler_of demo_runtime demo_srv (lit ''Z_ADD'')) [] (app (l_world (c_net ?c))) = (Inr No_Result, 1)"
    unfolding demo_handler_simps c demo_client_simps by (simp add: demo_handler_def dict_result_def)
  have p: "c_tids ?c = Some \<lparr>store = [], parked = [(demo_tid, request)]\<rparr>"
      "mem_parked \<lparr>store = [], parked = [(demo_tid, request)]\<rparr> demo_tid = Some request"
    by (simp_all add: demo_parked_def)
  note st = demo_client_simps(3,4,5) [of "[]", folded c]
  obtain r c' where c': "retry_parked ?env demo_tid ?c = (r, c')"
      "if demo_tid \<in> mem_executed (tids (l_world (c_net ?c)))
       then (\<exists>i. r = Inl (AbapSystemFailure i)) \<and> c_tids c' = Some \<lparr>store = [], parked = [(demo_tid, request)]\<rparr> \<and>
         app (l_world (c_net c')) = app (l_world (c_net ?c))
       else r = Inr () \<and> app (l_world (c_net c')) = 1 \<and> (\<exists>s'. c_tids c' = Some s' \<and> mem_parked s' demo_tid = None)"
    using parked_call_redriven [OF demo_client_simps(1) e(1) st(1) e(2,3) demo_server_simps(1,3) st(2) demo_deliverable r st(3)
        demo_handler_simps(2) b p] by blast
  have "demo_tid \<notin> mem_executed (tids (l_world (c_net ?c)))" unfolding c demo_client_simps by simp
  with c' show ?thesis by auto
qed

end
