(* ===== verification/Sap_Lzc.thy ===== *)
theory Sap_Lzc
  imports Rfc_Exceptions
begin

text \<open>
  The LZC half of \<^verbatim>\<open>src/saprfclib/compress.py\<close>: the bit reader, the header of a compressed block, the
  decompressor and the compressor.

  A reader is what is left of its bytes, and the bits already taken from them.  The decompressor's
  object and the local variables of its loop are one record; the compressor's likewise.  The table of
  the decompressor may in principle hold a cycle, so walking it is a partial function, and the loop
  around it returns \<open>None\<close> when a walk does not end.
\<close>

unbundle bit_operations_syntax


section \<open>The reader\<close>

record reader =
  r_rest :: bytes
  r_bits :: nat
  r_count :: nat

definition new_reader :: "bytes \<Rightarrow> reader" where
  "new_reader data = \<lparr>r_rest = data, r_bits = 0, r_count = 0\<rparr>"

definition bytes_left :: "reader \<Rightarrow> nat" where "bytes_left r = length (r_rest r)"
definition bits_left :: "reader \<Rightarrow> nat" where "bits_left r = bytes_left r * 8 + r_count r"

definition read_byte_raw :: "reader \<Rightarrow> (byte \<times> reader) res" where
  "read_byte_raw r =
     (case r_rest r of [] \<Rightarrow> Inl DecompressError | b # bs \<Rightarrow> Inr (b, r\<lparr>r_rest := bs\<rparr>))"

definition reader_read :: "nat \<Rightarrow> reader \<Rightarrow> (bytes \<times> reader) res" where
  "reader_read n r =
     (if r_count r \<noteq> 0 then Inl RuntimeError
      else if length (r_rest r) < n then Inl DecompressError
      else Inr (take n (r_rest r), r\<lparr>r_rest := drop n (r_rest r)\<rparr>))"

function fill_bits :: "nat \<Rightarrow> reader \<Rightarrow> reader res" where
  "fill_bits n r =
     (if n \<le> r_count r then Inr r
      else case read_byte_raw r of
        Inl e \<Rightarrow> Inl e
      | Inr (b, r1) \<Rightarrow>
          fill_bits n (r1\<lparr>r_bits := r_bits r OR push_bit (r_count r) (unat b), r_count := r_count r + 8\<rparr>))"
  by pat_completeness auto
termination by (relation "measure (\<lambda>(n, r). n - r_count r)") auto

declare fill_bits.simps [simp del]

definition peek_bits :: "nat \<Rightarrow> reader \<Rightarrow> (nat \<times> reader) res" where
  "peek_bits n r = map_res (\<lambda>r1. (r_bits r1 AND mask n, r1)) (fill_bits n r)"

definition read_bits :: "nat \<Rightarrow> reader \<Rightarrow> (nat \<times> reader) res" where
  "read_bits n r =
     map_res (\<lambda>(v, r1). (v, r1\<lparr>r_bits := drop_bit n (r_bits r1), r_count := r_count r1 - n\<rparr>)) (peek_bits n r)"

text \<open>What is still to be read, as one number, least significant bit first.\<close>

definition bit_stream :: "reader \<Rightarrow> nat" where
  "bit_stream r = r_bits r + 2 ^ r_count r * le_val (r_rest r)"

definition reader_ok :: "reader \<Rightarrow> bool" where
  "reader_ok r \<longleftrightarrow> r_bits r < 2 ^ r_count r"

lemma or_push_bit:
  fixes a b :: nat
  assumes "a < 2 ^ n"
  shows "a OR push_bit n b = a + 2 ^ n * b"
proof -
  have "a = take_bit n a" using assms by (simp add: take_bit_nat_eq_self)
  then have "m < n" if "bit a m" for m using that by (metis bit_take_bit_iff)
  then have "a AND push_bit n b = 0" by (intro bit_eqI) (fastforce simp: bit_simps)
  from disjunctive_add_eq_or [OF this] show ?thesis by (simp add: push_bit_eq_mult mult.commute)
qed

lemma fill_bits_spec:
  assumes "reader_ok r"
  shows "if n \<le> bits_left r
    then \<exists>r'. fill_bits n r = Inr r' \<and> reader_ok r' \<and> bit_stream r' = bit_stream r \<and> bits_left r' = bits_left r \<and> n \<le> r_count r'
    else fill_bits n r = Inl DecompressError"
  using assms
proof (induction n r rule: fill_bits.induct)
  case (1 n r)
  show ?case
  proof (cases "n \<le> r_count r")
    case True
    then show ?thesis using "1.prems" by (auto simp: fill_bits.simps bits_left_def)
  next
    case False
    show ?thesis
    proof (cases "r_rest r")
      case Nil
      then show ?thesis using False by (simp add: fill_bits.simps read_byte_raw_def bits_left_def bytes_left_def)
    next
      case (Cons b bs)
      define r2 where "r2 = r\<lparr>r_rest := bs, r_bits := r_bits r OR push_bit (r_count r) (unat b), r_count := r_count r + 8\<rparr>"
      have bits: "r_bits r2 = r_bits r + 2 ^ r_count r * unat b"
        using "1.prems" by (simp add: r2_def or_push_bit reader_ok_def)
      have "r_bits r + 2 ^ r_count r * unat b < 2 ^ r_count r * (unat b + 1)"
        using "1.prems" by (simp add: reader_ok_def algebra_simps)
      also have "\<dots> \<le> 2 ^ r_count r * 256" using byte_less_256 [of b] by (intro mult_le_mono2) linarith
      also have "\<dots> = 2 ^ (r_count r + 8)" by (simp add: power_add)
      finally have ok: "reader_ok r2" by (simp add: reader_ok_def bits) (simp add: r2_def)
      have s: "bit_stream r2 = bit_stream r"
        by (simp add: bit_stream_def bits) (simp add: r2_def Cons power_add algebra_simps)
      have l: "bits_left r2 = bits_left r" by (simp add: bits_left_def bytes_left_def r2_def Cons)
      have f: "fill_bits n r = fill_bits n r2"
        using False Cons by (subst fill_bits.simps) (simp add: read_byte_raw_def r2_def)
      have "if n \<le> bits_left r2
        then \<exists>r'. fill_bits n r2 = Inr r' \<and> reader_ok r' \<and> bit_stream r' = bit_stream r2 \<and> bits_left r' = bits_left r2 \<and> n \<le> r_count r'
        else fill_bits n r2 = Inl DecompressError"
        using "1.IH" [of "(b, r\<lparr>r_rest := bs\<rparr>)" b "r\<lparr>r_rest := bs\<rparr>"] False Cons ok by (simp add: read_byte_raw_def r2_def)
      then show ?thesis unfolding f s l .
    qed
  qed
qed

lemma read_bits_spec:
  assumes "reader_ok r"
  shows "if n \<le> bits_left r
    then \<exists>r'. read_bits n r = Inr (bit_stream r mod 2 ^ n, r') \<and> reader_ok r' \<and>
      bit_stream r' = bit_stream r div 2 ^ n \<and> bits_left r' = bits_left r - n
    else read_bits n r = Inl DecompressError"
proof (cases "n \<le> bits_left r")
  case True
  then obtain r1 where r1: "fill_bits n r = Inr r1" "reader_ok r1" "bit_stream r1 = bit_stream r"
      "bits_left r1 = bits_left r" "n \<le> r_count r1"
    using fill_bits_spec [OF assms, of n] by auto
  have p: "(2::nat) ^ r_count r1 = 2 ^ n * 2 ^ (r_count r1 - n)" using r1(5) by (simp flip: power_add)
  have bs: "bit_stream r = r_bits r1 + 2 ^ n * (2 ^ (r_count r1 - n) * le_val (r_rest r1))"
    using r1(3) p by (simp add: bit_stream_def)
  have m: "r_bits r1 AND mask n = bit_stream r mod 2 ^ n"
    by (simp add: bs take_bit_eq_mask [symmetric] take_bit_eq_mod)
  let ?r2 = "r1\<lparr>r_bits := drop_bit n (r_bits r1), r_count := r_count r1 - n\<rparr>"
  have "bit_stream ?r2 = bit_stream r div 2 ^ n"
    by (simp add: bs) (simp add: bit_stream_def drop_bit_eq_div)
  moreover have "reader_ok ?r2"
    using r1(2) p by (simp add: reader_ok_def drop_bit_eq_div less_mult_imp_div_less mult.commute)
  moreover have "bits_left ?r2 = bits_left r - n"
    using r1(4,5) by (simp add: bits_left_def bytes_left_def)
  ultimately show ?thesis using True r1(1) m by (auto simp: read_bits_def peek_bits_def)
next
  case False
  then show ?thesis using fill_bits_spec [OF assms, of n] by (simp add: read_bits_def peek_bits_def)
qed


section \<open>The header\<close>

definition HDR_SIZE :: nat where "HDR_SIZE = 8"
definition HDR_MAGIC :: bytes where "HDR_MAGIC = [0x1F, 0x9D]"
definition HDR_ALG_LZC :: nat where "HDR_ALG_LZC = 1"
definition HDR_ALG_LZH :: nat where "HDR_ALG_LZH = 2"

record sap_header =
  uncomp_len :: nat
  algo_id :: nat
  hdr_version :: nat
  hdr_config :: nat

definition parse_header :: "bytes \<Rightarrow> sap_header res" where
  "parse_header data =
     (if length data < HDR_SIZE then Inl DecompressError
      else if py_slice 5 7 data \<noteq> HDR_MAGIC then Inl DecompressError
      else Inr \<lparr>uncomp_len = le_val (take 4 data), algo_id = unat (data ! 4) AND 0x0F,
                hdr_version = drop_bit 4 (unat (data ! 4)) AND 0x0F, hdr_config = unat (data ! 7)\<rparr>)"

section \<open>Code widths\<close>

definition LZC_MIN_CODE_LEN :: nat where "LZC_MIN_CODE_LEN = 9"
definition LZC_MAX_CODE_LEN :: nat where "LZC_MAX_CODE_LEN = 16"
definition LZC_LITERAL_COUNT :: nat where "LZC_LITERAL_COUNT = 256"
definition LZC_CODE_END_BLOCK :: nat where "LZC_CODE_END_BLOCK = 256"
definition LZC_SINGLE_BLOCK :: nat where "LZC_SINGLE_BLOCK = 0"
definition LZC_MULTI_BLOCK :: nat where "LZC_MULTI_BLOCK = 1"
definition LZC_DEFAULT_CODE_LEN_LIMIT :: nat where "LZC_DEFAULT_CODE_LEN_LIMIT = 13"

lemmas lzc_consts = LZC_MIN_CODE_LEN_def LZC_MAX_CODE_LEN_def LZC_LITERAL_COUNT_def
  LZC_CODE_END_BLOCK_def LZC_SINGLE_BLOCK_def LZC_MULTI_BLOCK_def

definition first_seq_code :: "nat \<Rightarrow> nat" where
  "first_seq_code mode = (if mode = LZC_SINGLE_BLOCK then LZC_LITERAL_COUNT else LZC_LITERAL_COUNT + 1)"

text \<open>\<^verbatim>\<open>_set_code_len\<close>: the largest code of a width.\<close>

definition max_code_of :: "nat \<Rightarrow> nat \<Rightarrow> nat" where
  "max_code_of limit n = (if n = limit then 2 ^ limit else 2 ^ n - 1)"

section \<open>The decompressor\<close>

record code_def =
  cd_base :: nat
  cd_next :: byte
  cd_chain :: nat

record lzc =
  z_reader :: reader
  z_chunk :: "reader option"
  z_mode :: nat
  z_limit :: nat
  z_code_len :: nat
  z_max_code :: nat
  z_next_free :: nat
  z_codes :: "nat \<rightharpoonup> code_def"
  z_buf :: bytes
  z_prev :: "nat option"
  z_prev_def :: "code_def option"
  z_left :: int
  z_out :: bytes

definition start_chunk :: "lzc \<Rightarrow> lzc res" where
  "start_chunk z =
     (let n = min (z_code_len z) (bytes_left (z_reader z)) in
      if n = 0 then Inr (z\<lparr>z_chunk := None\<rparr>)
      else map_res (\<lambda>(chunk, r). z\<lparr>z_chunk := Some (new_reader chunk), z_reader := r\<rparr>)
             (reader_read n (z_reader z)))"

definition set_code_len :: "nat \<Rightarrow> lzc \<Rightarrow> lzc" where
  "set_code_len n z = z\<lparr>z_code_len := n, z_max_code := max_code_of (z_limit z) n\<rparr>"

definition start_block :: "lzc \<Rightarrow> lzc res" where
  "start_block z = start_chunk (set_code_len LZC_MIN_CODE_LEN (z\<lparr>z_next_free := first_seq_code (z_mode z)\<rparr>))"

definition chunk_short :: "lzc \<Rightarrow> bool" where
  "chunk_short z = (case z_chunk z of None \<Rightarrow> True | Some c \<Rightarrow> bits_left c < z_code_len z)"

definition read_code :: "lzc \<Rightarrow> (nat option \<times> lzc) res" where
  "read_code z =
     (let need_chunk = chunk_short z \<or> z_next_free z > z_max_code z in
      bind_res
        (if need_chunk
         then start_chunk (if z_next_free z > z_max_code z then set_code_len (z_code_len z + 1) z else z)
         else Inr z)
        (\<lambda>z1. case z_chunk z1 of
           None \<Rightarrow> Inr (None, z1)
         | Some c \<Rightarrow>
             if bits_left c < z_code_len z1 then Inr (None, z1)
             else map_res (\<lambda>(v, c1). (Some v, z1\<lparr>z_chunk := Some c1\<rparr>)) (read_bits (z_code_len z1) c)))"

text \<open>Walking a code back to its literal; a cycle in the table would never end.\<close>

partial_function (option) resolve_code ::
    "(nat \<rightharpoonup> code_def) \<Rightarrow> nat \<Rightarrow> bytes \<Rightarrow> nat \<Rightarrow> nat \<Rightarrow> (bytes \<times> nat) res option" where
  "resolve_code codes next_free buf code n =
     (if code < LZC_LITERAL_COUNT then Some (Inr (buf[0 := word_of_nat code], n + 1))
      else if code \<ge> next_free then Some (Inl DecompressError)
      else case codes code of
        None \<Rightarrow> Some (Inl DecompressError)
      | Some d \<Rightarrow>
          if cd_chain d < length buf
          then resolve_code codes next_free (buf[cd_chain d := cd_next d]) (cd_base d) (n + 1)
          else Some (Inl IndexError))"

definition prev_chain :: "lzc \<Rightarrow> nat" where
  "prev_chain z = (case z_prev_def z of None \<Rightarrow> 0 | Some d \<Rightarrow> cd_chain d)"

text \<open>The characters of a code, in the buffer, and their number.\<close>

definition code_chain :: "lzc \<Rightarrow> nat \<Rightarrow> (bytes \<times> nat) res option" where
  "code_chain z code =
     (if Some code = z_prev z then Some (Inr (z_buf z, prev_chain z + 1))
      else if code < z_next_free z then resolve_code (z_codes z) (z_next_free z) (z_buf z) code 0
      else if code = z_next_free z \<and> z_prev z \<noteq> None then
        (if prev_chain z + 1 < length (z_buf z)
         then Some (Inr ((z_buf z)[prev_chain z + 1 := z_buf z ! 0], prev_chain z + 2))
         else Some (Inl IndexError))
      else Some (Inl DecompressError))"

definition put_code :: "nat \<Rightarrow> bytes \<Rightarrow> nat \<Rightarrow> lzc \<Rightarrow> lzc" where
  "put_code code buf n z =
     (let z1 = z\<lparr>z_buf := buf, z_out := z_out z @ take n buf, z_left := z_left z - int n\<rparr>;
          z2 = (case z_prev z of
                  None \<Rightarrow> z1
                | Some p \<Rightarrow>
                    if z_next_free z < 2 ^ z_limit z
                    then z1\<lparr>z_codes := (z_codes z)(z_next_free z \<mapsto>
                               \<lparr>cd_base = p, cd_next = buf ! 0, cd_chain = prev_chain z + 1\<rparr>),
                            z_next_free := z_next_free z + 1\<rparr>
                    else z1)
      in z2\<lparr>z_prev := Some code, z_prev_def := z_codes z2 code\<rparr>)"

definition lzc_measure :: "lzc \<Rightarrow> nat" where
  "lzc_measure z = 8 * bytes_left (z_reader z) + (case z_chunk z of None \<Rightarrow> 0 | Some c \<Rightarrow> bits_left c)"

lemma fill_bits_left:
  "fill_bits n r = Inr r' \<Longrightarrow> bits_left r' = bits_left r \<and> n \<le> r_count r'"
proof (induction n r rule: fill_bits.induct)
  case (1 n r)
  show ?case
  proof (cases "n \<le> r_count r")
    case True
    then show ?thesis using "1.prems" by (simp add: fill_bits.simps)
  next
    case False
    then obtain b bs where b: "r_rest r = b # bs"
      using "1.prems" by (cases "r_rest r") (simp_all add: fill_bits.simps read_byte_raw_def)
    let ?r1 = "r\<lparr>r_rest := bs\<rparr>"
    have rb: "read_byte_raw r = Inr (b, ?r1)" by (simp add: read_byte_raw_def b)
    then have "fill_bits n (?r1\<lparr>r_bits := r_bits r OR push_bit (r_count r) (unat b), r_count := r_count r + 8\<rparr>) = Inr r'"
      using "1.prems" False by (subst (asm) fill_bits.simps) simp
    from "1.IH" [OF False rb refl this] show ?thesis by (simp add: bits_left_def bytes_left_def b)
  qed
qed

lemma read_bits_left:
  assumes "read_bits n r = Inr (v, r')"
  shows "bits_left r' + n = bits_left r" and "n = 0 \<Longrightarrow> v = 0"
proof -
  obtain r1 where r1: "fill_bits n r = Inr r1" "v = r_bits r1 AND mask n"
      "r' = r1\<lparr>r_bits := drop_bit n (r_bits r1), r_count := r_count r1 - n\<rparr>"
    using assms by (auto simp: read_bits_def peek_bits_def map_res_Inr)
  show "bits_left r' + n = bits_left r"
    using fill_bits_left [OF r1(1)] by (auto simp: r1(3) bits_left_def bytes_left_def)
  show "n = 0 \<Longrightarrow> v = 0" using r1(2) by simp
qed

lemma start_chunk_measure:
  assumes "start_chunk z = Inr z'"
  shows "lzc_measure z' \<le> lzc_measure z" "z_left z' = z_left z" "z_code_len z' = z_code_len z"
  using assms
  by (auto simp: start_chunk_def Let_def map_res_Inr reader_read_def lzc_measure_def bytes_left_def
      bits_left_def new_reader_def split: if_splits)

lemma read_code_measure:
  assumes "read_code z = Inr (code, z1)"
  shows "lzc_measure z1 \<le> lzc_measure z" and "z_left z1 = z_left z"
    and "code = Some 256 \<Longrightarrow> lzc_measure z1 < lzc_measure z"
proof -
  define z0 where "z0 = (if z_next_free z > z_max_code z then set_code_len (z_code_len z + 1) z else z)"
  have m0: "lzc_measure z0 = lzc_measure z" "z_left z0 = z_left z"
    by (simp_all add: z0_def set_code_len_def lzc_measure_def)
  obtain z2 where z2: "(if chunk_short z \<or> z_next_free z > z_max_code z then start_chunk z0 else Inr z) = Inr z2"
      and r: "(case z_chunk z2 of None \<Rightarrow> Inr (None, z2)
         | Some c \<Rightarrow>
             if bits_left c < z_code_len z2 then Inr (None, z2)
             else map_res (\<lambda>(v, c1). (Some v, z2\<lparr>z_chunk := Some c1\<rparr>)) (read_bits (z_code_len z2) c)) = Inr (code, z1)"
    using assms unfolding read_code_def Let_def z0_def bind_res_Inr by blast
  have m2: "lzc_measure z2 \<le> lzc_measure z" "z_left z2 = z_left z"
    using z2 start_chunk_measure [of z0 z2] m0 by (auto split: if_splits)
  have "lzc_measure z1 \<le> lzc_measure z2 \<and> z_left z1 = z_left z2 \<and> (code = Some 256 \<longrightarrow> lzc_measure z1 < lzc_measure z2)"
  proof (cases "z_chunk z2")
    case (Some c)
    show ?thesis
    proof (cases "bits_left c < z_code_len z2")
      case False
      then obtain v c1 where v: "read_bits (z_code_len z2) c = Inr (v, c1)" "code = Some v" "z1 = z2\<lparr>z_chunk := Some c1\<rparr>"
        using r Some by (auto simp: map_res_Inr)
      show ?thesis
        using read_bits_left [OF v(1)] v(2,3) Some by (cases "z_code_len z2 = 0") (auto simp: lzc_measure_def)
    qed (use r Some in auto)
  qed (use r in auto)
  with m2 show "lzc_measure z1 \<le> lzc_measure z" "z_left z1 = z_left z"
    "code = Some 256 \<Longrightarrow> lzc_measure z1 < lzc_measure z" by auto
qed

lemma resolve_code_pos:
  assumes "resolve_code codes next_free buf code n = Some (Inr (buf', n'))"
  shows "n < n'"
proof -
  have "\<forall>buf' n'. r = Inr (buf', n') \<longrightarrow> n < n'" if "resolve_code codes next_free buf code n = Some r" for r
    using that
  proof (rule resolve_code.raw_induct [rotated], goal_cases)
    case (1 f codes next_free buf code n r)
    from 1(2) show ?case by (fastforce split: if_splits option.splits dest: 1(1))
  qed
  with assms show ?thesis by blast
qed

lemma code_chain_pos: "code_chain z code = Some (Inr (buf, n)) \<Longrightarrow> 0 < n"
  by (auto simp: code_chain_def split: if_splits dest: resolve_code_pos)

lemma put_code_measure: "lzc_measure (put_code c buf n z) = lzc_measure z" "z_left (put_code c buf n z) = z_left z - int n"
  by (auto simp: put_code_def Let_def lzc_measure_def split: option.splits)

function lzc_loop :: "bool \<Rightarrow> lzc \<Rightarrow> bytes res option" where
  "lzc_loop cm z =
     (if z_left z \<le> 0 then Some (Inr (z_out z))
      else case read_code z of
        Inl e \<Rightarrow> Some (Inl e)
      | Inr (code, z1) \<Rightarrow>
          if z_mode z = LZC_MULTI_BLOCK \<and> code = Some LZC_CODE_END_BLOCK then
            (case start_block z1 of
               Inl e \<Rightarrow> Some (Inl e)
             | Inr z2 \<Rightarrow> lzc_loop cm (z2\<lparr>z_prev := None, z_prev_def := None\<rparr>))
          else case code of
            None \<Rightarrow> if cm then Some (Inr (z_out z1)) else Some (Inl DecompressError)
          | Some c \<Rightarrow>
              if 2 ^ z_limit z1 \<le> c then Some (Inl DecompressError)
              else case code_chain z1 c of
                None \<Rightarrow> None
              | Some (Inl e) \<Rightarrow> Some (Inl e)
              | Some (Inr (buf, n)) \<Rightarrow> lzc_loop cm (put_code c buf n z1))"
  by pat_completeness auto
termination
proof (relation "inv_image (less_than <*lex*> less_than) (\<lambda>(cm, z). (lzc_measure z, nat (z_left z)))", goal_cases)
  case (2 cm z p code z1 z2)
  then have "lzc_measure z1 < lzc_measure z" using read_code_measure(3) [of z code z1] by (auto simp: LZC_CODE_END_BLOCK_def)
  moreover have "lzc_measure z2 \<le> lzc_measure z1"
    using 2 start_chunk_measure(1) [of _ z2]
    by (fastforce simp: start_block_def set_code_len_def lzc_measure_def)
  ultimately show ?case by (auto simp: lzc_measure_def)
next
  case (3 cm z p code z1 c r q buf n)
  then have "lzc_measure z1 \<le> lzc_measure z" "z_left z1 = z_left z" "0 < n"
    using read_code_measure(1,2) [of z code z1] code_chain_pos by auto
  with 3 show ?case by (auto simp: put_code_measure)
qed auto

declare lzc_loop.simps [simp del]
declare resolve_code.simps [code]

definition read_lzc_header :: "reader \<Rightarrow> (sap_header \<times> reader) res" where
  "read_lzc_header r =
     bind_res (reader_read HDR_SIZE r) (\<lambda>(h, r1).
     bind_res (parse_header h) (\<lambda>hdr.
       if algo_id hdr \<noteq> HDR_ALG_LZC then Inl DecompressError
       else
         let limit = hdr_config hdr AND 0x1F in
         if LZC_MIN_CODE_LEN \<le> limit \<and> limit \<le> LZC_MAX_CODE_LEN then Inr (hdr, r1) else Inl DecompressError))"

definition lzc_decompress :: "bytes \<Rightarrow> bool \<Rightarrow> bytes res option" where
  "lzc_decompress data cm =
     (case read_lzc_header (new_reader data) of
        Inl e \<Rightarrow> Some (Inl e)
      | Inr (hdr, r) \<Rightarrow>
          let mode = drop_bit 7 (hdr_config hdr); limit = hdr_config hdr AND 0x1F in
          case start_chunk \<lparr>z_reader = r, z_chunk = None, z_mode = mode, z_limit = limit,
                  z_code_len = LZC_MIN_CODE_LEN, z_max_code = 2 ^ LZC_MIN_CODE_LEN - 1,
                  z_next_free = first_seq_code mode, z_codes = Map.empty, z_buf = replicate (2 ^ limit) 0,
                  z_prev = None, z_prev_def = None, z_left = int (uncomp_len hdr), z_out = []\<rparr> of
            Inl e \<Rightarrow> Some (Inl e)
          | Inr z \<Rightarrow> lzc_loop cm z)"

section \<open>The compressor\<close>

record lzc_enc =
  e_limit :: nat
  e_out :: bytes
  e_group :: "nat list"
  e_code_len :: nat
  e_max_code :: nat
  e_table :: "nat \<times> byte \<rightharpoonup> nat"
  e_next_free :: nat
  e_emitted :: nat
  e_pending :: "(nat \<times> byte) option"

text \<open>Moving whole bytes out of the accumulated bits.\<close>

function drain_bits :: "nat \<Rightarrow> nat \<Rightarrow> bytes \<Rightarrow> nat \<times> nat \<times> bytes" where
  "drain_bits bits nbits packed =
     (if 8 \<le> nbits then drain_bits (drop_bit 8 bits) (nbits - 8) (packed @ [word_of_nat (bits AND 0xFF)])
      else (bits, nbits, packed))"
  by pat_completeness auto
termination by (relation "measure (\<lambda>(bits, nbits, packed). nbits)") auto

declare drain_bits.simps [simp del]

fun pack_codes :: "nat \<Rightarrow> nat list \<Rightarrow> nat \<times> nat \<times> bytes \<Rightarrow> nat \<times> nat \<times> bytes" where
  "pack_codes w [] s = s"
| "pack_codes w (c # cs) (bits, nbits, packed) =
     pack_codes w cs (drain_bits (bits OR push_bit nbits c) (nbits + w) packed)"

definition group_bytes :: "nat \<Rightarrow> nat list \<Rightarrow> bytes" where
  "group_bytes w grp =
     (case pack_codes w grp (0, 0, []) of (bits, nbits, packed) \<Rightarrow>
        let packed1 = (if nbits \<noteq> 0 then packed @ [word_of_nat (bits AND 0xFF)] else packed)
        in take w (packed1 @ replicate (w - length packed1) 0))"

definition flush_group :: "lzc_enc \<Rightarrow> lzc_enc" where
  "flush_group e =
     (if e_group e = [] then e
      else e\<lparr>e_out := e_out e @ group_bytes (e_code_len e) (e_group e), e_group := []\<rparr>)"

definition emit :: "nat \<Rightarrow> lzc_enc \<Rightarrow> lzc_enc" where
  "emit code e =
     (let e1 = e\<lparr>e_group := e_group e @ [code]\<rparr> in
      if length (e_group e1) = 8 then flush_group e1 else e1)"

definition account_for :: "nat \<Rightarrow> lzc_enc \<Rightarrow> lzc_enc" where
  "account_for code e =
     (let e1 = emit code e; e2 = e1\<lparr>e_emitted := e_emitted e1 + 1\<rparr>;
          e3 = (case e_pending e2 of
                  None \<Rightarrow> e2
                | Some k \<Rightarrow>
                    if e_emitted e2 \<ge> 2 \<and> e_next_free e2 < 2 ^ e_limit e2
                    then
                      let e4 = e2\<lparr>e_table := (e_table e2)(k \<mapsto> e_next_free e2), e_next_free := e_next_free e2 + 1\<rparr> in
                      if e_next_free e4 > e_max_code e4
                      then (flush_group e4)\<lparr>e_code_len := e_code_len e4 + 1,
                             e_max_code := max_code_of (e_limit e4) (e_code_len e4 + 1)\<rparr>
                      else e4
                    else e2)
      in e3\<lparr>e_pending := None\<rparr>)"

fun compress_loop :: "bytes \<Rightarrow> nat \<Rightarrow> lzc_enc \<Rightarrow> lzc_enc" where
  "compress_loop [] prev e = account_for prev e"
| "compress_loop (ch # chs) prev e =
     (case e_table e (prev, ch) of
        Some found \<Rightarrow> compress_loop chs found e
      | None \<Rightarrow> compress_loop chs (unat ch) ((account_for prev e)\<lparr>e_pending := Some (prev, ch)\<rparr>))"

definition lzc_header :: "nat \<Rightarrow> nat \<Rightarrow> nat \<Rightarrow> bytes res" where
  "lzc_header n limit mode =
     (if \<not> n < 2 ^ 32 then Inl StructError
      else
        let config = push_bit 7 mode OR limit in
        if \<not> config < 256 then Inl ValueError
        else Inr (le_bytes 4 n @ [word_of_nat (push_bit 4 1 OR HDR_ALG_LZC)] @ HDR_MAGIC @ [word_of_nat config]))"

definition compress_lzc :: "bytes \<Rightarrow> nat \<Rightarrow> nat \<Rightarrow> bytes res" where
  "compress_lzc data limit mode =
     (if \<not> (LZC_MIN_CODE_LEN \<le> limit \<and> limit \<le> LZC_MAX_CODE_LEN) then Inl CompressError
      else bind_res (lzc_header (length data) limit mode) (\<lambda>header.
        case data of
          [] \<Rightarrow> Inr header
        | b # bs \<Rightarrow>
            Inr (header @ e_out (flush_group (compress_loop bs (unat b)
              \<lparr>e_limit = limit, e_out = [], e_group = [], e_code_len = LZC_MIN_CODE_LEN,
               e_max_code = 2 ^ LZC_MIN_CODE_LEN - 1, e_table = Map.empty,
               e_next_free = first_seq_code mode, e_emitted = 0, e_pending = None\<rparr>)))))"

end
