(* ===== verification/Lzc_Roundtrip.thy ===== *)
theory Lzc_Roundtrip
  imports Sap_Lzc
begin

text \<open>
  What the LZC compressor writes, the decompressor of \<^verbatim>\<open>src/saprfclib/compress.py\<close> reads back.

  The two agree on more than codes: codes are packed in groups of eight, and a group is cut short when
  the code width grows.  The proof keeps two relations between the two loops: \<open>in_step\<close> says that the
  decompressor's reader stands where the compressor's schedule of widths and groups puts it, \<open>in_sync\<close>
  that its dictionary gives every code the string the compressor means by it, one entry behind.
\<close>

section \<open>Groups of codes as numbers\<close>

primrec code_val :: "nat \<Rightarrow> nat list \<Rightarrow> nat" where
  "code_val w [] = 0"
| "code_val w (c # cs) = c + 2 ^ w * code_val w cs"

lemma le_val_append: "le_val (xs @ ys) = le_val xs + 256 ^ length xs * le_val ys"
  by (induction xs) (simp_all add: algebra_simps)

lemma le_val_replicate_0 [simp]: "le_val (replicate n 0) = 0"
  by (induction n) simp_all

lemma and_ff: "(n::nat) AND 0xFF = n mod 256"
  using take_bit_eq_mask [of 8 n] by (simp add: mask_eq_exp_minus_1 take_bit_eq_mod)

lemma drain_bits_spec:
  assumes "bits < 2 ^ nbits"
  obtains ps b' n' where "drain_bits bits nbits packed = (b', n', packed @ ps)"
    and "le_val ps + 256 ^ length ps * b' = bits" and "8 * length ps + n' = nbits" and "n' < 8" and "b' < 2 ^ n'"
  using assms
proof (induction bits nbits packed arbitrary: thesis rule: drain_bits.induct)
  case (1 bits nbits packed)
  show ?case
  proof (cases "8 \<le> nbits")
    case True
    have "(2::nat) ^ nbits = 256 * 2 ^ (nbits - 8)" using True power_add [of "2::nat" 8 "nbits - 8"] by simp
    then have "drop_bit 8 bits < 2 ^ (nbits - 8)"
      using "1.prems"(2) by (simp add: drop_bit_eq_div less_mult_imp_div_less mult.commute)
    from "1.IH" [OF True _ this] obtain ps b' n' where ps:
      "drain_bits (drop_bit 8 bits) (nbits - 8) (packed @ [word_of_nat (bits AND 0xFF)])
        = (b', n', (packed @ [word_of_nat (bits AND 0xFF)]) @ ps)"
      "le_val ps + 256 ^ length ps * b' = drop_bit 8 bits" "8 * length ps + n' = nbits - 8" "n' < 8" "b' < 2 ^ n'" by blast
    have "le_val (word_of_nat (bits AND 0xFF) # ps) + 256 ^ length (word_of_nat (bits AND 0xFF) # ps) * b'
        = bits mod 256 + 256 * (le_val ps + 256 ^ length ps * b')"
      by (simp add: and_ff algebra_simps)
    also have "\<dots> = bits" unfolding ps(2) by (simp add: drop_bit_eq_div)
    finally show ?thesis
      using "1.prems"(1) [of b' n' "word_of_nat (bits AND 0xFF) # ps"] ps True by (simp add: drain_bits.simps [of bits])
  next
    case False
    then show ?thesis using "1.prems"(1) [of bits nbits "[]"] "1.prems"(2) by (simp add: drain_bits.simps [of bits])
  qed
qed

lemma pack_codes_spec:
  assumes "\<forall>c \<in> set cs. c < 2 ^ w" and "bits < 2 ^ nbits" and "nbits < 8"
  obtains ps b' n' where "pack_codes w cs (bits, nbits, packed) = (b', n', packed @ ps)"
    and "le_val ps + 256 ^ length ps * b' = bits + 2 ^ nbits * code_val w cs"
    and "8 * length ps + n' = nbits + w * length cs" and "n' < 8" and "b' < 2 ^ n'"
  using assms
proof (induction cs arbitrary: bits nbits packed thesis)
  case Nil
  then show ?case by (metis append_Nil2 code_val.simps(1) le_val.simps(1) list.size(3) mult_0_right add.right_neutral
        add.left_neutral pack_codes.simps(1) power_0 mult_1)
next
  case (Cons c cs)
  have c: "c < 2 ^ w" using Cons.prems(2) by simp
  have o: "bits OR push_bit nbits c = bits + 2 ^ nbits * c" by (rule or_push_bit [OF Cons.prems(3)])
  have "bits + 2 ^ nbits * c < 2 ^ nbits * (c + 1)" using Cons.prems(3) by (simp add: algebra_simps)
  also have "\<dots> \<le> 2 ^ nbits * 2 ^ w" using c by (intro mult_le_mono2) simp
  finally have "bits + 2 ^ nbits * c < 2 ^ (nbits + w)" by (simp add: power_add)
  then obtain ps b' n' where d: "drain_bits (bits + 2 ^ nbits * c) (nbits + w) packed = (b', n', packed @ ps)"
    "le_val ps + 256 ^ length ps * b' = bits + 2 ^ nbits * c" "8 * length ps + n' = nbits + w" "n' < 8" "b' < 2 ^ n'"
    by (rule drain_bits_spec)
  obtain qs b2 n2 where r: "pack_codes w cs (b', n', packed @ ps) = (b2, n2, (packed @ ps) @ qs)"
    "le_val qs + 256 ^ length qs * b2 = b' + 2 ^ n' * code_val w cs"
    "8 * length qs + n2 = n' + w * length cs" "n2 < 8" "b2 < 2 ^ n2"
    using Cons.IH [of b' n' "packed @ ps"] Cons.prems(2) d(4,5) by auto
  have p: "(256::nat) ^ length ps * 2 ^ n' = 2 ^ nbits * 2 ^ w"
  proof -
    have "(256::nat) ^ length ps = 2 ^ (8 * length ps)" by (simp add: power_mult)
    then show ?thesis using d(3) by (simp flip: power_add)
  qed
  have "le_val (ps @ qs) + 256 ^ length (ps @ qs) * b2 = le_val ps + 256 ^ length ps * (le_val qs + 256 ^ length qs * b2)"
    by (simp add: le_val_append power_add algebra_simps)
  also have "\<dots> = (le_val ps + 256 ^ length ps * b') + (256 ^ length ps * 2 ^ n') * code_val w cs"
    unfolding r(2) by (simp add: algebra_simps)
  also have "\<dots> = bits + 2 ^ nbits * code_val w (c # cs)"
    unfolding d(2) p by (simp add: algebra_simps)
  finally show ?case
    using Cons.prems(1) [of b2 n2 "ps @ qs"] r d by (simp add: o)
qed

lemma group_bytes_spec:
  assumes "\<forall>c \<in> set cs. c < 2 ^ w" and "length cs \<le> 8"
  shows "length (group_bytes w cs) = w" and "le_val (group_bytes w cs) = code_val w cs"
proof -
  obtain ps b' n' where p: "pack_codes w cs (0, 0, []) = (b', n', ps)"
    "le_val ps + 256 ^ length ps * b' = code_val w cs" "8 * length ps + n' = w * length cs" "n' < 8" "b' < 2 ^ n'"
    by (rule pack_codes_spec [OF assms(1), of 0 0 "[]"]) (use that in auto)
  define qs where "qs = (if n' \<noteq> 0 then ps @ [word_of_nat (b' AND 0xFF)] else ps)"
  have "w * length cs \<le> w * 8" using assms(2) by simp
  then have "length ps \<le> w" "0 < n' \<Longrightarrow> length ps + 1 \<le> w" using p(3) by linarith+
  then have l: "length qs \<le> w" by (auto simp: qs_def)
  have "(2::nat) ^ n' \<le> 2 ^ 8" using p(4) by (intro power_increasing) auto
  then have b: "b' < 256" using p(5) by simp
  have v: "le_val qs = code_val w cs"
    using p(2,5) b by (auto simp: qs_def le_val_append and_ff)
  have g: "group_bytes w cs = qs @ replicate (w - length qs) 0"
    using l by (simp add: group_bytes_def p(1) qs_def Let_def)
  show "length (group_bytes w cs) = w" using l by (simp add: g)
  show "le_val (group_bytes w cs) = code_val w cs" by (simp add: g le_val_append v)
qed

section \<open>Reading a group back\<close>

text \<open>After \<open>m\<close> codes of a group the rest of it, \<open>gs\<close>, is to be read.\<close>

definition holds :: "nat \<Rightarrow> nat \<Rightarrow> nat list \<Rightarrow> reader \<Rightarrow> bool" where
  "holds w m gs c \<longleftrightarrow> reader_ok c \<and> bit_stream c = code_val w gs \<and> bits_left c = 8 * w - w * m \<and> length gs + m \<le> 8"

lemma holds_group:
  assumes "\<forall>c \<in> set gs. c < 2 ^ w" and "length gs \<le> 8"
  shows "holds w 0 gs (new_reader (group_bytes w gs))"
  using group_bytes_spec [OF assms] assms(2)
  by (simp add: holds_def new_reader_def reader_ok_def bit_stream_def bits_left_def bytes_left_def)

lemma holds_read:
  assumes "holds w m (g # gs) c" and "g < 2 ^ w"
  obtains c' where "read_bits w c = Inr (g, c')" and "holds w (m + 1) gs c'" and "\<not> bits_left c < w"
proof -
  have "w * m \<le> w * 7" using assms(1) by (intro mult_le_mono2) (simp add: holds_def)
  moreover have "bits_left c = 8 * w - w * m" using assms(1) by (simp add: holds_def)
  ultimately have l: "w \<le> bits_left c" by linarith
  obtain c' where c': "read_bits w c = Inr (bit_stream c mod 2 ^ w, c')" "reader_ok c'"
      "bit_stream c' = bit_stream c div 2 ^ w" "bits_left c' = bits_left c - w"
    using read_bits_spec [of c w] assms(1) l by (auto simp: holds_def)
  have "bit_stream c mod 2 ^ w = g" "bit_stream c div 2 ^ w = code_val w gs"
    using assms by (simp_all add: holds_def)
  then show thesis using that c' l assms(1) by (simp add: holds_def algebra_simps)
qed


section \<open>The schedule of groups\<close>

text \<open>Width, largest code, next free code and number of codes so far: how they change with one code.\<close>

type_synonym sched = "nat \<times> nat \<times> nat \<times> nat"

definition tick :: "nat \<Rightarrow> sched \<Rightarrow> sched" where
  "tick limit \<sigma> =
     (case \<sigma> of (w, mx, nf, em) \<Rightarrow>
        if 1 \<le> em \<and> nf < 2 ^ limit
        then (if mx < nf + 1 then (w + 1, max_code_of limit (w + 1), nf + 1, em + 1) else (w, mx, nf + 1, em + 1))
        else (w, mx, nf, em + 1))"

definition sched_of :: "lzc_enc \<Rightarrow> sched" where
  "sched_of e = (e_code_len e, e_max_code e, e_next_free e, e_emitted e)"

text \<open>The rest of the current group, of which \<open>m\<close> codes are gone, and the bytes of the groups after it.\<close>

fun future :: "nat \<Rightarrow> sched \<Rightarrow> nat \<Rightarrow> nat list \<Rightarrow> nat list \<times> bytes" where
  "future limit \<sigma> m [] = ([], [])"
| "future limit \<sigma> m (c # cs) =
     (if m + 1 = 8 \<or> fst (tick limit \<sigma>) \<noteq> fst \<sigma>
      then ([c], if cs = [] then []
                 else case future limit (tick limit \<sigma>) 0 cs of (gs, rest) \<Rightarrow>
                   group_bytes (fst (tick limit \<sigma>)) gs @ rest)
      else case future limit (tick limit \<sigma>) (m + 1) cs of (gs, rest) \<Rightarrow> (c # gs, rest))"

definition pending_ok :: "lzc_enc \<Rightarrow> bool" where
  "pending_ok e \<longleftrightarrow> (e_emitted e = 0) = (e_pending e = None)"

lemma account_for_fields:
  assumes "pending_ok e" and "length (e_group e) < 8"
  shows "sched_of (account_for c e) = tick (e_limit e) (sched_of e)"
    and "e_limit (account_for c e) = e_limit e"
    and "e_table (account_for c e) = (case e_pending e of None \<Rightarrow> e_table e
      | Some k \<Rightarrow> if e_next_free e < 2 ^ e_limit e then (e_table e)(k \<mapsto> e_next_free e) else e_table e)"
    and "if length (e_group e) + 1 = 8 \<or> fst (tick (e_limit e) (sched_of e)) \<noteq> e_code_len e
      then e_group (account_for c e) = [] \<and> e_out (account_for c e) = e_out e @ group_bytes (e_code_len e) (e_group e @ [c])
      else e_group (account_for c e) = e_group e @ [c] \<and> e_out (account_for c e) = e_out e"
  using assms
  by (auto simp: account_for_def emit_def flush_group_def Let_def sched_of_def tick_def pending_ok_def split: option.splits)

text \<open>The codes the compressor writes from a state on.\<close>

fun codes_from :: "bytes \<Rightarrow> nat \<Rightarrow> lzc_enc \<Rightarrow> nat list" where
  "codes_from [] prev e = [prev]"
| "codes_from (ch # chs) prev e =
     (case e_table e (prev, ch) of
        Some found \<Rightarrow> codes_from chs found e
      | None \<Rightarrow> prev # codes_from chs (unat ch) ((account_for prev e)\<lparr>e_pending := Some (prev, ch)\<rparr>))"

lemma codes_from_nonempty [simp]: "codes_from chs prev e \<noteq> []"
  by (induction chs prev e rule: codes_from.induct) (auto split: option.splits)

lemma sched_pending [simp]: "sched_of (e\<lparr>e_pending := k\<rparr>) = sched_of e"
  by (simp add: sched_of_def)

lemma emitted_tick: "e_emitted (account_for c e) = e_emitted e + 1"
  by (auto simp: account_for_def emit_def flush_group_def Let_def split: option.splits)

lemma compress_loop_out:
  assumes "pending_ok e" and "length (e_group e) < 8"
  shows "e_out (flush_group (compress_loop chs prev e)) = e_out e
    @ (case future (e_limit e) (sched_of e) (length (e_group e)) (codes_from chs prev e) of (gs, rest) \<Rightarrow>
         group_bytes (e_code_len e) (e_group e @ gs) @ rest)"
  using assms
proof (induction chs prev e rule: codes_from.induct)
  case (1 prev e)
  have w: "fst (sched_of e) = e_code_len e" by (simp add: sched_of_def)
  note a = account_for_fields [OF 1, of prev]
  show ?case
  proof (cases "length (e_group e) + 1 = 8 \<or> fst (tick (e_limit e) (sched_of e)) \<noteq> e_code_len e")
    case True
    then show ?thesis using a(4) w by (auto simp: flush_group_def)
  next
    case False
    have "e_code_len (account_for prev e) = fst (tick (e_limit e) (sched_of e))"
      unfolding a(1) [symmetric] by (simp add: sched_of_def)
    with False have "e_code_len (account_for prev e) = e_code_len e" by simp
    then show ?thesis using False a(4) w by (auto simp: flush_group_def)
  qed
next
  case (2 ch chs prev e)
  show ?case
  proof (cases "e_table e (prev, ch)")
    case (Some found)
    then show ?thesis using 2 by simp
  next
    case None
    define e' where "e' = (account_for prev e)\<lparr>e_pending := Some (prev, ch)\<rparr>"
    note a = account_for_fields [OF "2.prems", of prev]
    have w: "fst (sched_of e) = e_code_len e" by (simp add: sched_of_def)
    have s: "sched_of e' = tick (e_limit e) (sched_of e)" "e_limit e' = e_limit e" "e_code_len e' = fst (tick (e_limit e) (sched_of e))"
      by (simp_all add: e'_def a(1,2) flip: a(1)) (simp add: sched_of_def)
    have p: "pending_ok e'" by (simp add: pending_ok_def e'_def emitted_tick)
    have g: "if length (e_group e) + 1 = 8 \<or> fst (tick (e_limit e) (sched_of e)) \<noteq> e_code_len e
      then e_group e' = [] \<and> e_out e' = e_out e @ group_bytes (e_code_len e) (e_group e @ [prev])
      else e_group e' = e_group e @ [prev] \<and> e_out e' = e_out e" using a(4) by (simp add: e'_def)
    then have "length (e_group e') < 8" using "2.prems"(2) by (auto split: if_splits)
    from "2.IH"(1) [OF None p [unfolded e'_def] this [unfolded e'_def], folded e'_def]
    have ih: "e_out (flush_group (compress_loop chs (unat ch) e')) = e_out e'
      @ (case future (e_limit e) (tick (e_limit e) (sched_of e)) (length (e_group e')) (codes_from chs (unat ch) e') of (gs, rest) \<Rightarrow>
         group_bytes (e_code_len e') (e_group e' @ gs) @ rest)"
      by (simp only: s(1,2))
    have c: "compress_loop (ch # chs) prev e = compress_loop chs (unat ch) e'"
        "codes_from (ch # chs) prev e = prev # codes_from chs (unat ch) e'"
      using None by (simp_all add: e'_def)
    show ?thesis
      unfolding c ih using g s(3) w by (auto split: prod.splits if_splits)
  qed
qed


section \<open>The dictionary\<close>

text \<open>What a code stands for.\<close>

function code_str :: "(nat \<rightharpoonup> code_def) \<Rightarrow> nat \<Rightarrow> bytes" where
  "code_str codes c =
     (if c < 256 then [word_of_nat c]
      else case codes c of
        None \<Rightarrow> []
      | Some d \<Rightarrow> if cd_base d < c then code_str codes (cd_base d) @ [cd_next d] else [])"
  by pat_completeness auto
termination by (relation "measure snd") auto

declare code_str.simps [simp del]

definition valid_code :: "nat \<Rightarrow> nat \<Rightarrow> bool" where
  "valid_code first c \<longleftrightarrow> c < 256 \<or> first \<le> c"

definition dict_ok :: "nat \<Rightarrow> nat \<Rightarrow> (nat \<rightharpoonup> code_def) \<Rightarrow> bool" where
  "dict_ok first nf codes \<longleftrightarrow>
     (\<forall>c. if first \<le> c \<and> c < nf
       then \<exists>d. codes c = Some d \<and> cd_base d < c \<and> valid_code first (cd_base d) \<and> cd_chain d = length (code_str codes (cd_base d))
       else codes c = None)"

lemma dict_entry:
  assumes "dict_ok first nf codes" and "first \<le> c" and "c < nf" and "256 \<le> first"
  obtains d where "codes c = Some d" "cd_base d < c" "valid_code first (cd_base d)"
    "cd_chain d = length (code_str codes (cd_base d))" "code_str codes c = code_str codes (cd_base d) @ [cd_next d]"
proof -
  obtain d where d: "codes c = Some d" "cd_base d < c" "valid_code first (cd_base d)"
      "cd_chain d = length (code_str codes (cd_base d))"
    using assms(1-3) unfolding dict_ok_def by metis
  moreover have "code_str codes c = code_str codes (cd_base d) @ [cd_next d]"
    using assms(2,4) d(1,2) by (subst code_str.simps) simp
  ultimately show thesis by (rule that)
qed

lemma code_str_update:
  assumes "c < nf"
  shows "code_str (codes(nf \<mapsto> d)) c = code_str codes c"
  using assms
proof (induction codes c rule: code_str.induct)
  case (1 codes c)
  have u: "(codes(nf \<mapsto> d)) c = codes c" using "1.prems" by simp
  show ?case
    by (subst (1 2) code_str.simps) (use 1 in \<open>auto simp: u simp del: fun_upd_apply split: option.splits\<close>)
qed

lemma code_str_length:
  assumes "dict_ok first nf codes" and "256 \<le> first"
  shows "valid_code first c \<Longrightarrow> c < nf \<Longrightarrow> 0 < length (code_str codes c) \<and> length (code_str codes c) \<le> Suc (c - 255)"
proof (induction c rule: less_induct)
  case (less c)
  show ?case
  proof (cases "c < 256")
    case True
    then show ?thesis by (simp add: code_str.simps)
  next
    case False
    then have "first \<le> c" using less.prems(1) by (simp add: valid_code_def)
    then obtain d where d: "codes c = Some d" "cd_base d < c" "valid_code first (cd_base d)"
        "cd_chain d = length (code_str codes (cd_base d))" "code_str codes c = code_str codes (cd_base d) @ [cd_next d]"
      by (rule dict_entry [OF assms(1) _ less.prems(2) assms(2)])
    have "Suc (cd_base d - 255) \<le> c - 255" using d(2) False by arith
    with d show ?thesis using less.IH [OF d(2,3)] less.prems(2) False by simp
  qed
qed

lemma resolve_code_str:
  assumes "dict_ok first nf codes" and "256 \<le> first" and "nf \<le> length buf"
  shows "valid_code first c \<Longrightarrow> c < nf \<Longrightarrow> length buf = n1 \<Longrightarrow>
    resolve_code codes nf buf c n = Some (Inr (code_str codes c @ drop (length (code_str codes c)) buf, n + length (code_str codes c)))"
  using assms(3)
proof (induction c arbitrary: buf n rule: less_induct)
  case (less c)
  note len = code_str_length [OF assms(1,2) less.prems(1,2)]
  show ?case
  proof (cases "c < 256")
    case True
    then show ?thesis using less.prems(2,4)
      by (cases buf; subst resolve_code.simps) (simp_all add: LZC_LITERAL_COUNT_def code_str.simps)
  next
    case False
    then have f: "first \<le> c" using less.prems(1) by (simp add: valid_code_def)
    obtain d where d: "codes c = Some d" "cd_base d < c" "valid_code first (cd_base d)"
        "cd_chain d = length (code_str codes (cd_base d))" "code_str codes c = code_str codes (cd_base d) @ [cd_next d]"
      by (rule dict_entry [OF assms(1) f less.prems(2) assms(2)])
    let ?k = "length (code_str codes (cd_base d))"
    have k: "?k < length buf"
      using len less.prems(2,4) d(5) by simp
    have "resolve_code codes nf buf c n = resolve_code codes nf (buf[?k := cd_next d]) (cd_base d) (n + 1)"
      using False less.prems(2) k by (subst resolve_code.simps) (simp add: LZC_LITERAL_COUNT_def d(1,4))
    also have "\<dots> = Some (Inr (code_str codes (cd_base d) @ drop ?k (buf[?k := cd_next d]), n + 1 + ?k))"
      using less.IH [OF d(2,3), of "buf[?k := cd_next d]" "n + 1"] d(2) less.prems by simp
    also have "drop ?k (buf[?k := cd_next d]) = cd_next d # drop (Suc ?k) buf"
      using k by (simp add: drop_update_swap Cons_nth_drop_Suc [symmetric])
    finally show ?thesis by (simp add: d(5))
  qed
qed


section \<open>The simulation\<close>

text \<open>The reader of the decompressor against the schedule.\<close>

definition in_step :: "nat \<Rightarrow> sched \<Rightarrow> nat \<Rightarrow> nat list \<times> bytes \<Rightarrow> lzc \<Rightarrow> bool" where
  "in_step limit \<sigma> m fut z \<longleftrightarrow>
     (case \<sigma> of (w, mx, nf, em) \<Rightarrow> case fut of (gs, rest) \<Rightarrow>
        r_count (z_reader z) = 0 \<and> z_next_free z = nf \<and> z_limit z = limit \<and>
        (if z_code_len z = w \<and> z_max_code z = mx \<and> nf \<le> mx \<and> \<not> chunk_short z
         then r_rest (z_reader z) = rest \<and> (\<exists>c. z_chunk z = Some c \<and> holds w m gs c)
         else m = 0 \<and> r_rest (z_reader z) = group_bytes w gs @ rest \<and> length gs \<le> 8 \<and>
           (if z_max_code z < nf then w = z_code_len z + 1 \<and> mx = max_code_of limit w
            else w = z_code_len z \<and> mx = z_max_code z \<and> chunk_short z)))"

lemma read_code_in_step:
  assumes st: "in_step limit (w, mx, nf, em) m (g # gs, rest) z" and b: "\<forall>c \<in> set (g # gs). c < 2 ^ w" and w: "0 < w"
  obtains r c where "read_code z = Inr (Some g, z\<lparr>z_reader := r, z_chunk := Some c, z_code_len := w, z_max_code := mx\<rparr>)"
    and "r_count r = 0" "r_rest r = rest" "holds w (m + 1) gs c"
proof -
  have fields: "r_count (z_reader z) = 0" "z_next_free z = nf" "z_limit z = limit" using st by (auto simp: in_step_def)
  have loaded: "\<exists>r c. (if chunk_short z \<or> z_next_free z > z_max_code z
         then start_chunk (if z_next_free z > z_max_code z then set_code_len (z_code_len z + 1) z else z)
         else Inr z) = Inr (z\<lparr>z_reader := r, z_chunk := Some c, z_code_len := w, z_max_code := mx\<rparr>) \<and>
      r_count r = 0 \<and> r_rest r = rest \<and> holds w m (g # gs) c"
  proof (cases "z_code_len z = w \<and> z_max_code z = mx \<and> nf \<le> mx \<and> \<not> chunk_short z")
    case True
    then obtain c where c: "r_rest (z_reader z) = rest" "z_chunk z = Some c" "holds w m (g # gs) c"
      using st by (auto simp: in_step_def)
    have "z = z\<lparr>z_reader := z_reader z, z_chunk := Some c, z_code_len := w, z_max_code := mx\<rparr>"
      using True c(2) by (cases z) simp
    then show ?thesis using True c fields by (intro exI [of _ "z_reader z"] exI [of _ c]) auto
  next
    case False
    then have m: "m = 0" "r_rest (z_reader z) = group_bytes w (g # gs) @ rest" "length (g # gs) \<le> 8"
      "if z_max_code z < nf then w = z_code_len z + 1 \<and> mx = max_code_of limit w
            else w = z_code_len z \<and> mx = z_max_code z \<and> chunk_short z"
      using st by (auto simp: in_step_def)
    let ?z = "if z_next_free z > z_max_code z then set_code_len (z_code_len z + 1) z else z"
    have z: "z_code_len ?z = w" "z_max_code ?z = mx" "z_reader ?z = z_reader z"
      "?z = z\<lparr>z_code_len := w, z_max_code := mx\<rparr>"
      using m(4) fields by (auto simp: set_code_len_def)
    have l: "length (group_bytes w (g # gs)) = w" by (rule group_bytes_spec(1) [OF b m(3)])
    let ?r = "(z_reader z)\<lparr>r_rest := rest\<rparr>"
    have "start_chunk ?z = Inr (z\<lparr>z_reader := ?r, z_chunk := Some (new_reader (group_bytes w (g # gs))), z_code_len := w, z_max_code := mx\<rparr>)"
      unfolding z(4) using l w fields(1) by (simp add: start_chunk_def bytes_left_def m(2) reader_read_def)
    moreover have "chunk_short z \<or> z_next_free z > z_max_code z" using m(4) fields by (auto split: if_splits)
    ultimately show ?thesis using holds_group [OF b m(3)] m(1) fields(1)
      by (intro exI [of _ ?r] exI [of _ "new_reader (group_bytes w (g # gs))"]) auto
  qed
  then obtain r c where rc: "(if chunk_short z \<or> z_next_free z > z_max_code z
         then start_chunk (if z_next_free z > z_max_code z then set_code_len (z_code_len z + 1) z else z)
         else Inr z) = Inr (z\<lparr>z_reader := r, z_chunk := Some c, z_code_len := w, z_max_code := mx\<rparr>)"
      "r_count r = 0" "r_rest r = rest" "holds w m (g # gs) c" by blast
  obtain c' where c': "read_bits w c = Inr (g, c')" "holds w (m + 1) gs c'" "\<not> bits_left c < w"
    using holds_read [OF rc(4)] b by auto
  have "read_code z = Inr (Some g, z\<lparr>z_reader := r, z_chunk := Some c', z_code_len := w, z_max_code := mx\<rparr>)"
    using c'(1,3) unfolding read_code_def Let_def rc(1) by simp
  then show thesis using that rc(2,3) c'(2) by blast
qed

text \<open>The widths that occur.\<close>

definition sched_ok :: "nat \<Rightarrow> sched \<Rightarrow> bool" where
  "sched_ok limit \<sigma> \<longleftrightarrow>
     (case \<sigma> of (w, mx, nf, em) \<Rightarrow>
        0 < w \<and> nf \<le> mx \<and> nf \<le> 2 ^ limit \<and> (mx = 2 ^ w - 1 \<or> mx = 2 ^ limit \<and> w = limit))"

lemma sched_ok_tick: "sched_ok limit \<sigma> \<Longrightarrow> sched_ok limit (tick limit \<sigma>)"
proof -
  assume ok: "sched_ok limit \<sigma>"
  obtain w mx nf em where \<sigma>: "\<sigma> = (w, mx, nf, em)" by (cases \<sigma>)
  have "(1::nat) \<le> 2 ^ w" by simp
  then show ?thesis using ok by (auto simp: \<sigma> sched_ok_def tick_def max_code_of_def; linarith)
qed

lemma sched_ok_bound: "sched_ok limit (w, mx, nf, em) \<Longrightarrow> c < nf \<Longrightarrow> c < 2 ^ w"
  by (auto simp: sched_ok_def)

definition enc_ok :: "lzc_enc \<Rightarrow> nat \<Rightarrow> bool" where
  "enc_ok e prev \<longleftrightarrow> pending_ok e \<and> length (e_group e) < 8 \<and> sched_ok (e_limit e) (sched_of e) \<and>
     256 \<le> e_next_free e \<and> prev < e_next_free e \<and> (\<forall>k c. e_table e k = Some c \<longrightarrow> c < e_next_free e)"

lemma next_free_tick:
  "e_next_free e = fst (snd (snd (sched_of e)))" by (simp add: sched_of_def)

lemma account_for_next_free:
  assumes "pending_ok e" and "length (e_group e) < 8"
  shows "e_next_free (account_for c e) =
    (if e_pending e \<noteq> None \<and> e_next_free e < 2 ^ e_limit e then e_next_free e + 1 else e_next_free e)"
  using account_for_fields(1) [OF assms, of c] assms(1)
  by (auto simp: next_free_tick tick_def pending_ok_def) (auto simp: sched_of_def)

lemma enc_ok_step:
  assumes "enc_ok e prev"
  shows "enc_ok ((account_for prev e)\<lparr>e_pending := Some (prev, ch)\<rparr>) (unat ch)"
proof -
  have p: "pending_ok e" "length (e_group e) < 8" using assms by (simp_all add: enc_ok_def)
  note a = account_for_fields [OF p, of prev]
  have n: "e_next_free e \<le> e_next_free (account_for prev e)" by (simp add: account_for_next_free [OF p])
  have "c < e_next_free (account_for prev e)" if "e_table (account_for prev e) k = Some c" for k c
    using that assms n
    by (cases k) (auto simp: a(3) enc_ok_def account_for_next_free [OF p] less_Suc_eq split: option.splits if_splits)
  moreover have "length (e_group (account_for prev e)) < 8"
    using a(4) p(2) by (auto split: if_splits)
  moreover have "unat ch < e_next_free (account_for prev e)"
    using assms n byte_less_256 [of ch] unfolding enc_ok_def by linarith
  ultimately show ?thesis
    using assms n
    by (auto simp: enc_ok_def a(1,2) sched_ok_tick pending_ok_def emitted_tick intro: less_le_trans)
qed

lemma future_length: "m < 8 \<Longrightarrow> length (fst (future limit \<sigma> m cs)) + m \<le> 8"
proof (induction cs arbitrary: \<sigma> m)
  case (Cons c cs)
  then show ?case
    using Cons.IH [of "m + 1" "tick limit \<sigma>"] by (cases "m + 1 = 8") (auto split: prod.splits)
qed simp

lemma future_bound:
  assumes "enc_ok e prev"
  shows "\<forall>c \<in> set (fst (future (e_limit e) (sched_of e) m (codes_from chs prev e))). c < 2 ^ e_code_len e"
  using assms
proof (induction chs prev e arbitrary: m rule: codes_from.induct)
  case (1 prev e)
  then show ?case using sched_ok_bound [of "e_limit e"] by (auto simp: enc_ok_def sched_of_def)
next
  case (2 ch chs prev e)
  show ?case
  proof (cases "e_table e (prev, ch)")
    case (Some found)
    then have "enc_ok e found" using "2.prems" by (auto simp: enc_ok_def)
    then show ?thesis using "2.IH"(2) [OF Some] Some by simp
  next
    case None
    define e' where "e' = (account_for prev e)\<lparr>e_pending := Some (prev, ch)\<rparr>"
    have p: "pending_ok e" "length (e_group e) < 8" using "2.prems" by (simp_all add: enc_ok_def)
    note a = account_for_fields [OF p, of prev]
    have s: "sched_of e' = tick (e_limit e) (sched_of e)" "e_limit e' = e_limit e" "e_code_len e' = fst (tick (e_limit e) (sched_of e))"
      by (simp_all add: e'_def a(1,2) flip: a(1)) (simp add: sched_of_def)
    have ih: "\<forall>c \<in> set (fst (future (e_limit e) (tick (e_limit e) (sched_of e)) (m + 1) (codes_from chs (unat ch) e'))).
        c < 2 ^ fst (tick (e_limit e) (sched_of e))"
      using "2.IH"(1) [OF None enc_ok_step [OF "2.prems"], folded e'_def, of "m + 1"] by (simp only: s)
    have "prev < 2 ^ e_code_len e"
      using "2.prems" sched_ok_bound [of "e_limit e"] by (auto simp: enc_ok_def sched_of_def)
    moreover have "fst (sched_of e) = e_code_len e" by (simp add: sched_of_def)
    ultimately show ?thesis
      using ih None unfolding codes_from.simps by (auto simp: e'_def split: prod.splits)
  qed
qed


text \<open>Dictionaries and data: \<open>prev\<close> is the code the compressor has matched so far, \<open>chs\<close> what follows.\<close>

definition in_sync :: "nat \<Rightarrow> bytes \<Rightarrow> bytes \<Rightarrow> nat \<Rightarrow> lzc_enc \<Rightarrow> lzc \<Rightarrow> bool" where
  "in_sync first data chs prev e z \<longleftrightarrow>
     (let nf = e_next_free e; str = code_str (z_codes z) in
      first \<le> nf \<and> dict_ok first nf (z_codes z) \<and> length (z_buf z) = 2 ^ e_limit e \<and>
      (z_mode z = LZC_MULTI_BLOCK \<longrightarrow> first = 257) \<and> 256 \<le> first \<and>
      z_prev z = map_option fst (e_pending e) \<and>
      (\<forall>p ch. e_pending e = Some (p, ch) \<longrightarrow> valid_code first p \<and> p < nf \<and> z_prev_def z = z_codes z p \<and>
         take (length (str p)) (z_buf z) = str p \<and> ch = str prev ! 0) \<and>
      (\<forall>k ch c. e_table e (k, ch) = Some c \<longrightarrow> first \<le> c \<and> c < nf \<and> k < nf \<and> str c = str k @ [ch]) \<and>
      valid_code first prev \<and>
      z_out z @ str prev @ chs = data \<and> z_left z = int (length (str prev @ chs)))"

lemma in_syncD:
  assumes "in_sync first data chs prev e z"
  shows "first \<le> e_next_free e" "dict_ok first (e_next_free e) (z_codes z)" "length (z_buf z) = 2 ^ e_limit e"
    "z_mode z = LZC_MULTI_BLOCK \<Longrightarrow> first = 257" "256 \<le> first" "z_prev z = map_option fst (e_pending e)"
    "e_pending e = Some (p, ch) \<Longrightarrow> valid_code first p \<and> p < e_next_free e \<and> z_prev_def z = z_codes z p \<and>
       take (length (code_str (z_codes z) p)) (z_buf z) = code_str (z_codes z) p \<and> ch = code_str (z_codes z) prev ! 0"
    "e_table e (k, ch) = Some c \<Longrightarrow> first \<le> c \<and> c < e_next_free e \<and> k < e_next_free e \<and>
       code_str (z_codes z) c = code_str (z_codes z) k @ [ch]"
    "valid_code first prev" "z_out z @ code_str (z_codes z) prev @ chs = data"
    "z_left z = int (length (code_str (z_codes z) prev @ chs))"
  using assms unfolding in_sync_def Let_def by blast+

lemma in_syncI:
  assumes "first \<le> e_next_free e" "dict_ok first (e_next_free e) (z_codes z)" "length (z_buf z) = 2 ^ e_limit e"
    "z_mode z = LZC_MULTI_BLOCK \<Longrightarrow> first = 257" "256 \<le> first" "z_prev z = map_option fst (e_pending e)"
    "\<And>p ch. e_pending e = Some (p, ch) \<Longrightarrow> valid_code first p \<and> p < e_next_free e \<and> z_prev_def z = z_codes z p \<and>
       take (length (code_str (z_codes z) p)) (z_buf z) = code_str (z_codes z) p \<and> ch = code_str (z_codes z) prev ! 0"
    "\<And>k ch c. e_table e (k, ch) = Some c \<Longrightarrow> first \<le> c \<and> c < e_next_free e \<and> k < e_next_free e \<and>
       code_str (z_codes z) c = code_str (z_codes z) k @ [ch]"
    "valid_code first prev" "z_out z @ code_str (z_codes z) prev @ chs = data"
    "z_left z = int (length (code_str (z_codes z) prev @ chs))"
  shows "in_sync first data chs prev e z"
  using assms unfolding in_sync_def Let_def by blast

lemma prev_chain_len:
  assumes "in_sync first data chs prev e z" and "e_pending e = Some (p, ch)"
  shows "prev_chain z + 1 = length (code_str (z_codes z) p)"
proof -
  have d: "dict_ok first (e_next_free e) (z_codes z)" "256 \<le> first" "valid_code first p" "p < e_next_free e"
      "z_prev_def z = z_codes z p"
    using in_syncD(2,5,7) [OF assms(1)] assms(2) by blast+
  show ?thesis
  proof (cases "p < 256")
    case True
    then have "z_codes z p = None" using d(1,2) unfolding dict_ok_def by (metis less_le_trans not_le)
    then show ?thesis using True d(5) by (simp add: prev_chain_def code_str.simps)
  next
    case False
    then have "first \<le> p" using d(3) by (simp add: valid_code_def)
    from dict_entry [OF d(1) this d(4,2)] obtain x where "z_codes z p = Some x" "cd_chain x = length (code_str (z_codes z) (cd_base x))"
      "code_str (z_codes z) p = code_str (z_codes z) (cd_base x) @ [cd_next x]" by metis
    then show ?thesis using d(5) by (simp add: prev_chain_def)
  qed
qed

lemma code_chain_sync:
  assumes sy: "in_sync first data chs prev e z" and ok: "enc_ok e prev" and nf: "z_next_free z = e_next_free e"
  obtains buf where "code_chain z prev = Some (Inr (buf, length (code_str (z_codes z) prev)))"
    and "length buf = length (z_buf z)" and "take (length (code_str (z_codes z) prev)) buf = code_str (z_codes z) prev"
proof (cases "Some prev = z_prev z")
  case True
  then obtain ch where p: "e_pending e = Some (prev, ch)"
    using in_syncD(6) [OF sy] by (cases "e_pending e") auto
  then show thesis
    using that [of "z_buf z"] True in_syncD(7) [OF sy p] prev_chain_len [OF sy p] by (simp add: code_chain_def)
next
  case False
  have s: "dict_ok first (e_next_free e) (z_codes z)" "256 \<le> first" "valid_code first prev" "length (z_buf z) = 2 ^ e_limit e"
    using in_syncD [OF sy] by blast+
  have p: "prev < e_next_free e" using ok by (simp add: enc_ok_def)
  have l: "e_next_free e \<le> length (z_buf z)" using ok s(4) by (auto simp: enc_ok_def sched_ok_def sched_of_def)
  note r = resolve_code_str [OF s(1,2) l s(3) p refl, of 0]
  have "length (code_str (z_codes z) prev) \<le> length (z_buf z)"
    using code_str_length [OF s(1,2,3) p] p l by linarith
  then show thesis
    using that [of "code_str (z_codes z) prev @ drop (length (code_str (z_codes z) prev)) (z_buf z)"] r False nf p
    by (simp add: code_chain_def)
qed

lemma dict_ok_add:
  assumes d: "dict_ok first nf codes" and q: "first \<le> nf" "q < nf" "valid_code first q"
  shows "dict_ok first (nf + 1) (codes(nf \<mapsto> \<lparr>cd_base = q, cd_next = c, cd_chain = length (code_str codes q)\<rparr>))"
    (is "dict_ok first _ ?codes")
proof -
  have "if first \<le> x \<and> x < nf + 1
     then \<exists>d. ?codes x = Some d \<and> cd_base d < x \<and> valid_code first (cd_base d) \<and> cd_chain d = length (code_str ?codes (cd_base d))
     else ?codes x = None" for x
  proof (cases "x = nf")
    case True
    then show ?thesis using q by (simp add: code_str_update)
  next
    case False
    have o: "if first \<le> x \<and> x < nf
       then \<exists>d. codes x = Some d \<and> cd_base d < x \<and> valid_code first (cd_base d) \<and> cd_chain d = length (code_str codes (cd_base d))
       else codes x = None" using d unfolding dict_ok_def by blast
    show ?thesis
    proof (cases "first \<le> x \<and> x < nf")
      case True
      then obtain y where "codes x = Some y" "cd_base y < x" "valid_code first (cd_base y)"
          "cd_chain y = length (code_str codes (cd_base y))" using o by auto
      moreover from this True have "code_str ?codes (cd_base y) = code_str codes (cd_base y)"
        by (intro code_str_update) simp
      ultimately show ?thesis using True False by simp
    next
      case F: False
      then have "codes x = None" using o by argo
      then show ?thesis using F False by (auto simp: less_Suc_eq)
    qed
  qed
  then show ?thesis unfolding dict_ok_def by blast
qed

text \<open>What one code does to the dictionary.\<close>

lemma put_code_sync:
  assumes sy: "in_sync first data chs prev e z" and ok: "enc_ok e prev" and nf: "z_next_free z = e_next_free e" "z_limit z = e_limit e"
    and b: "length buf = length (z_buf z)" "take (length (code_str (z_codes z) prev)) buf = code_str (z_codes z) prev"
  defines "z' \<equiv> put_code prev buf (length (code_str (z_codes z) prev)) z"
  shows "z_out z' @ chs = data" and "z_left z' = int (length chs)" and "z_next_free z' = e_next_free (account_for prev e)"
    and "z_limit z' = z_limit z" and "z_reader z' = z_reader z" and "z_chunk z' = z_chunk z"
    and "z_code_len z' = z_code_len z" and "z_max_code z' = z_max_code z"
    and "chs = ch # chs' \<Longrightarrow> in_sync first data chs' (unat ch) ((account_for prev e)\<lparr>e_pending := Some (prev, ch)\<rparr>) z'"
proof -
  let ?str = "code_str (z_codes z)"
  note s = in_syncD [OF sy]
  have p: "prev < e_next_free e" "pending_ok e" "length (e_group e) < 8" using ok by (simp_all add: enc_ok_def)
  have pos: "0 < length (?str prev)" using code_str_length [OF s(2,5,9) p(1)] by blast
  have b0: "buf ! 0 = ?str prev ! 0" using b(2) pos by (metis nth_take)
  note a = account_for_fields [OF p(2,3), of prev] and n = account_for_next_free [OF p(2,3), of prev]
  let ?codes = "case e_pending e of None \<Rightarrow> z_codes z
      | Some (q, c) \<Rightarrow> if e_next_free e < 2 ^ e_limit e
          then (z_codes z)(e_next_free e \<mapsto> \<lparr>cd_base = q, cd_next = c, cd_chain = length (?str q)\<rparr>) else z_codes z"
  have c: "z_codes z' = ?codes"
    using s(6,7) b0 nf prev_chain_len [OF sy]
    by (cases "e_pending e") (auto simp: z'_def put_code_def Let_def)
  have keep: "z_prev z' = Some prev" "z_buf z' = buf" "z_mode z' = z_mode z" "z_prev_def z' = z_codes z' prev"
    by (auto simp: z'_def put_code_def Let_def split: option.splits)
  show "z_out z' @ chs = data" "z_left z' = int (length chs)"
    using s(10,11) b(2) by (auto simp: z'_def put_code_def Let_def split: option.splits)
  show nf': "z_next_free z' = e_next_free (account_for prev e)"
    using s(6) nf by (auto simp: z'_def put_code_def Let_def n split: option.splits)
  show "z_limit z' = z_limit z" "z_reader z' = z_reader z" "z_chunk z' = z_chunk z"
    "z_code_len z' = z_code_len z" "z_max_code z' = z_max_code z"
    by (auto simp: z'_def put_code_def Let_def split: option.splits)
  have str: "code_str ?codes x = ?str x" if "x < e_next_free e" for x
    using code_str_update [OF that] by (simp split: option.splits)
  have new: "code_str ?codes (e_next_free e) = ?str q @ [c1]"
    if "e_pending e = Some (q, c1)" "e_next_free e < 2 ^ e_limit e" for q c1
  proof -
    have "q < e_next_free e" "256 \<le> e_next_free e" using s(7) [OF that(1)] s(1,5) by auto
    then show ?thesis
      using that str [of q] by (subst code_str.simps) simp
  qed
  have dict: "dict_ok first (e_next_free (account_for prev e)) ?codes"
  proof (cases "e_pending e")
    case None
    then show ?thesis using s(2) by (simp add: n)
  next
    case (Some qc)
    obtain q c1 where q: "qc = (q, c1)" by (cases qc)
    from dict_ok_add [OF s(2,1), of q c1] s(7) [OF Some [unfolded q]] s(2)
    show ?thesis by (cases "e_next_free e < 2 ^ e_limit e") (simp_all add: n Some q)
  qed
  show "in_sync first data chs' (unat ch) ((account_for prev e)\<lparr>e_pending := Some (prev, ch)\<rparr>) z'" if chs: "chs = ch # chs'"
  proof -
    have ch: "code_str ?codes (unat ch) = [ch]" by (simp add: code_str.simps)
    have le: "e_next_free e \<le> e_next_free (account_for prev e)" by (simp add: n)
    have tab: "first \<le> x \<and> x < e_next_free (account_for prev e) \<and> k < e_next_free (account_for prev e) \<and>
        code_str ?codes x = code_str ?codes k @ [c1]" if "e_table (account_for prev e) (k, c1) = Some x" for k c1 x
    proof (cases "e_table e (k, c1) = Some x")
      case True
      from s(8) [OF True] show ?thesis using le str by auto
    next
      case False
      then have q: "e_pending e = Some (k, c1)" "x = e_next_free e" "e_next_free e < 2 ^ e_limit e"
        using that by (auto simp: a(3) split: option.splits if_splits prod.splits)
      from s(7) [OF q(1)] show ?thesis using new [OF q(1,3)] str [of k] s(1) q by (simp add: n)
    qed
    have out: "z_out z' @ code_str ?codes (unat ch) @ chs' = data" "z_left z' = int (length (code_str ?codes (unat ch) @ chs'))"
      using \<open>z_out z' @ chs = data\<close> \<open>z_left z' = int (length chs)\<close> by (simp_all add: ch chs)
    let ?e = "(account_for prev e)\<lparr>e_pending := Some (prev, ch)\<rparr>"
    have e: "e_next_free ?e = e_next_free (account_for prev e)" "e_pending ?e = Some (prev, ch)"
        "e_table ?e = e_table (account_for prev e)" "e_limit ?e = e_limit e" by (simp_all add: a(2))
    have pv: "valid_code first p \<and> p < e_next_free (account_for prev e) \<and> z_prev_def z' = ?codes p \<and>
        take (length (code_str ?codes p)) buf = code_str ?codes p \<and> x = code_str ?codes (unat ch) ! 0"
      if "Some (prev, ch) = Some (p, x)" for p x
    proof -
      have "p = prev" "x = ch" using that by simp_all
      then show ?thesis using s(9) p(1) le str [OF p(1)] b(2) keep(4) ch by (simp add: c)
    qed
    have v: "valid_code first (unat ch)" by (simp add: valid_code_def)
    have f: "first \<le> e_next_free (account_for prev e)" using s(1) le by simp
    have l: "length buf = 2 ^ e_limit e" using b(1) s(3) by simp
    show ?thesis
    proof (rule in_syncI, goal_cases)
      case 1 then show ?case unfolding e by (rule f)
    next
      case 2 then show ?case unfolding e c by (rule dict)
    next
      case 3 then show ?case unfolding e keep by (rule l)
    next
      case 4 then show ?case using s(4) unfolding keep by blast
    next
      case 5 then show ?case by (rule s(5))
    next
      case 6 then show ?case unfolding e keep by simp
    next
      case (7 p x) then show ?case unfolding e keep(2) c by (rule pv)
    next
      case (8 k x y) then show ?case unfolding e c by (rule tab)
    next
      case 9 then show ?case by (rule v)
    next
      case 10 then show ?case unfolding c by (rule out(1))
    next
      case 11 then show ?case unfolding c by (rule out(2))
    qed
  qed
qed

lemma tick_widen:
  assumes "tick limit (w, mx, nf, em) = (w', mx', nf', em')" and "nf \<le> mx"
  shows "if mx < nf' then w' = w + 1 \<and> mx' = max_code_of limit w' else w' = w \<and> mx' = mx"
  using assms by (auto simp: tick_def split: if_splits)

lemma in_step_next:
  assumes ok: "sched_ok limit (w, mx, nf, em)" and m: "m < 8"
    and f: "future limit (w, mx, nf, em) m (p # cs) = (p # gs, rest)" and cs: "cs \<noteq> []"
    and h: "holds w (m + 1) gs c" "z_chunk z = Some c"
    and z: "r_count (z_reader z) = 0" "r_rest (z_reader z) = rest" "z_code_len z = w" "z_max_code z = mx" "z_limit z = limit"
      "z_next_free z = fst (snd (snd (tick limit (w, mx, nf, em))))"
  defines "m' \<equiv> if m + 1 = 8 \<or> fst (tick limit (w, mx, nf, em)) \<noteq> w then 0 else m + 1"
  shows "in_step limit (tick limit (w, mx, nf, em)) m' (future limit (tick limit (w, mx, nf, em)) m' cs) z"
proof -
  obtain w' mx' nf' em' where t: "tick limit (w, mx, nf, em) = (w', mx', nf', em')" by (metis prod_cases4)
  have le: "nf \<le> mx" "0 < w" using ok by (simp_all add: sched_ok_def)
  note wd = tick_widen [OF t le(1)]
  obtain gs' rest' where f': "future limit (w', mx', nf', em') m' cs = (gs', rest')" by (metis surj_pair)
  have short: "chunk_short z \<longleftrightarrow> 8 * w - w * (m + 1) < w"
    using h by (simp add: chunk_short_def z holds_def)
  show ?thesis
  proof (cases "m + 1 = 8 \<or> w' \<noteq> w")
    case True
    then have "m' = 0" by (simp add: m'_def t)
    then have r: "gs = []" "rest = group_bytes w' gs' @ rest'" using f f' True cs by (auto simp: t split: prod.splits)
    have l: "length gs' \<le> 8" using future_length [of 0 limit "(w', mx', nf', em')" cs] f' \<open>m' = 0\<close> by simp
    have "chunk_short z" if "m + 1 = 8" unfolding short using le(2) that by simp
    have n: "z_next_free z = nf'" using z(6) by (simp add: t)
    have f0: "future limit (w', mx', nf', em') 0 cs = (gs', rest')" using f' \<open>m' = 0\<close> by simp
    have cases: "mx < nf' \<and> w' = w + 1 \<and> mx' = max_code_of limit w' \<or> \<not> mx < nf' \<and> w' = w \<and> mx' = mx \<and> chunk_short z"
      using True wd \<open>m + 1 = 8 \<Longrightarrow> chunk_short z\<close> by argo
    have unl: "\<not> (z_code_len z = w' \<and> z_max_code z = mx' \<and> nf' \<le> mx' \<and> \<not> chunk_short z)"
      unfolding z(3,4) using cases by linarith
    have "if z_max_code z < nf' then w' = z_code_len z + 1 \<and> mx' = max_code_of limit w'
            else w' = z_code_len z \<and> mx' = z_max_code z \<and> chunk_short z"
      unfolding z(3,4) using cases by argo
    then show ?thesis
      unfolding in_step_def t \<open>m' = 0\<close> f0 prod.case
      using unl l z(1,2,5) n by (simp only: if_False r(2) simp_thms)
  next
    case False
    then have mm: "m' = m + 1" by (simp add: m'_def t)
    then have r: "gs = gs'" "rest = rest'" using f f' False by (auto simp: t split: prod.splits)
    have "w * (m + 1) \<le> w * 7" using False m by (intro mult_le_mono2) simp
    then have ns: "\<not> chunk_short z" unfolding short by linarith
    have f1: "future limit (w', mx', nf', em') (m + 1) cs = (gs', rest')" using f' mm by simp
    have n: "z_next_free z = nf'" using z(6) by (simp add: t)
    have w: "w' = w" "mx' = mx" "nf' \<le> mx" using False wd by (auto split: if_splits)
    show ?thesis
      unfolding in_step_def t mm f1 prod.case
      using ns w z(1-5) n h r by simp
  qed
qed

lemma in_step_fields:
  assumes "in_step limit \<sigma> m fut z"
  shows "r_count (z_reader z) = 0" "z_next_free z = fst (snd (snd \<sigma>))" "z_limit z = limit"
  using assms by (auto simp: in_step_def split: prod.splits)

lemma in_sync_cong:
  assumes "in_sync first data chs prev e z"
  shows "in_sync first data chs prev e (z\<lparr>z_reader := r, z_chunk := c, z_code_len := w, z_max_code := mx\<rparr>)"
  using assms by (simp add: in_sync_def)

lemma lzc_loop_step:
  assumes sy: "in_sync first data chs prev e z" and ok: "enc_ok e prev"
    and f: "future (e_limit e) (sched_of e) (length (e_group e)) (prev # cs) = (prev # gs, rest)"
    and st: "in_step (e_limit e) (sched_of e) (length (e_group e)) (prev # gs, rest) z"
    and b: "\<forall>c \<in> set (prev # gs). c < 2 ^ e_code_len e"
  obtains z' where "lzc_loop cm z = lzc_loop cm z'" and "z_out z' @ chs = data" and "z_left z' = int (length chs)"
    and "cs \<noteq> [] \<Longrightarrow> in_step (e_limit e) (tick (e_limit e) (sched_of e)) (length (e_group (account_for prev e)))
           (future (e_limit e) (tick (e_limit e) (sched_of e)) (length (e_group (account_for prev e))) cs) z'"
    and "\<And>ch chs'. chs = ch # chs' \<Longrightarrow>
           in_sync first data chs' (unat ch) ((account_for prev e)\<lparr>e_pending := Some (prev, ch)\<rparr>) z'"
proof -
  obtain w mx nf em where sg: "sched_of e = (w, mx, nf, em)" "w = e_code_len e" "nf = e_next_free e" by (simp add: sched_of_def)
  have p: "pending_ok e" "length (e_group e) < 8" "sched_ok (e_limit e) (w, mx, nf, em)" "prev < nf"
    using ok sg by (auto simp: enc_ok_def)
  then have pos: "0 < w" "nf \<le> 2 ^ e_limit e" by (auto simp: sched_ok_def)
  obtain r c where rc: "read_code z = Inr (Some prev, z\<lparr>z_reader := r, z_chunk := Some c, z_code_len := w, z_max_code := mx\<rparr>)"
      "r_count r = 0" "r_rest r = rest" "holds w (length (e_group e) + 1) gs c"
    by (rule read_code_in_step [OF st [unfolded sg(1)] b [folded sg(2)] pos(1)])
  define z1 where "z1 = z\<lparr>z_reader := r, z_chunk := Some c, z_code_len := w, z_max_code := mx\<rparr>"
  have sy1: "in_sync first data chs prev e z1" unfolding z1_def by (rule in_sync_cong [OF sy])
  have nf: "z_next_free z1 = e_next_free e" "z_limit z1 = e_limit e"
    using in_step_fields [OF st] sg by (simp_all add: z1_def)
  obtain buf where buf: "code_chain z1 prev = Some (Inr (buf, length (code_str (z_codes z1) prev)))"
      "length buf = length (z_buf z1)" "take (length (code_str (z_codes z1) prev)) buf = code_str (z_codes z1) prev"
    by (rule code_chain_sync [OF sy1 ok nf(1)])
  define z' where "z' = put_code prev buf (length (code_str (z_codes z1) prev)) z1"
  note pc = put_code_sync [OF sy1 ok nf buf(2,3), folded z'_def]
  have "0 < length (code_str (z_codes z) prev)"
    using code_str_length [OF in_syncD(2,5,9) [OF sy]] p(4) sg by blast
  then have left: "0 < z_left z" unfolding in_syncD(11) [OF sy] length_append by linarith
  have code: "\<not> (z_mode z = LZC_MULTI_BLOCK \<and> Some prev = Some LZC_CODE_END_BLOCK)"
    using in_syncD(4,9) [OF sy] by (auto simp: valid_code_def LZC_CODE_END_BLOCK_def)
  have lim: "\<not> 2 ^ z_limit z1 \<le> prev" using p(4) pos(2) nf by simp
  have "lzc_loop cm z = lzc_loop cm z'"
    unfolding lzc_loop.simps [of cm z] rc(1) [folded z1_def]
    using left code lim buf(1) by (simp only: sum.case prod.case option.case if_False not_le [symmetric] simp_thms z'_def)
  moreover have "in_step (e_limit e) (tick (e_limit e) (sched_of e)) (length (e_group (account_for prev e)))
           (future (e_limit e) (tick (e_limit e) (sched_of e)) (length (e_group (account_for prev e))) cs) z'"
    if cs: "cs \<noteq> []"
  proof -
    note a = account_for_fields [OF p(1,2), of prev]
    have m: "length (e_group (account_for prev e)) =
      (if length (e_group e) + 1 = 8 \<or> fst (tick (e_limit e) (w, mx, nf, em)) \<noteq> w then 0 else length (e_group e) + 1)"
      using a(4) sg by (auto split: if_splits)
    have n: "z_next_free z' = fst (snd (snd (tick (e_limit e) (w, mx, nf, em))))"
      using a(1) by (simp add: pc(3) next_free_tick sg(1))
    have z': "z_reader z' = r" "z_chunk z' = Some c" "z_code_len z' = w" "z_max_code z' = mx" "z_limit z' = e_limit e"
      unfolding pc(4-8) nf by (simp_all add: z1_def)
    show ?thesis
      unfolding m sg(1)
      by (rule in_step_next [OF p(3,2) f [unfolded sg(1)] cs rc(4) z'(2) _ _ z'(3-5) n]) (simp_all add: z'(1) rc(2,3))
  qed
  ultimately show thesis using that pc(1,2,9) by blast
qed

lemma future_Cons:
  obtains gs rest where "future limit \<sigma> m (c # cs) = (c # gs, rest)"
proof -
  obtain gs rest where "future limit (tick limit \<sigma>) (m + 1) cs = (gs, rest)" by (metis surj_pair)
  then show thesis
    using that by (cases "m + 1 = 8 \<or> fst (tick limit \<sigma>) \<noteq> fst \<sigma>") simp_all
qed

lemma in_sync_found:
  assumes sy: "in_sync first data (ch # chs) prev e z" and ok: "enc_ok e prev" and t: "e_table e (prev, ch) = Some found"
  shows "in_sync first data chs found e z" and "enc_ok e found"
proof -
  note s = in_syncD [OF sy]
  have f: "first \<le> found" "found < e_next_free e" "code_str (z_codes z) found = code_str (z_codes z) prev @ [ch]"
    using s(8) [OF t] by simp_all
  have ne: "0 < length (code_str (z_codes z) prev)"
    using code_str_length [OF s(2,5,9)] ok unfolding enc_ok_def by blast
  then have h: "code_str (z_codes z) found ! 0 = code_str (z_codes z) prev ! 0" by (simp add: f(3) nth_append)
  show "enc_ok e found" using ok f(2) by (simp add: enc_ok_def)
  show "in_sync first data chs found e z"
  proof (rule in_syncI, goal_cases)
    case (7 p x) then show ?case using s(7) unfolding h by blast
  next
    case (8 k x c) then show ?case by (rule s(8))
  next
    case 9 then show ?case using f(1) by (simp add: valid_code_def)
  next
    case 10 then show ?case using s(10) by (simp add: f(3))
  next
    case 11 then show ?case using s(11) by (simp add: f(3))
  qed (use s(1-6) in blast)+
qed

lemma lzc_loop_compressed:
  assumes "in_sync first data chs prev e z" and "enc_ok e prev"
    and "in_step (e_limit e) (sched_of e) (length (e_group e))
           (future (e_limit e) (sched_of e) (length (e_group e)) (codes_from chs prev e)) z"
  shows "lzc_loop cm z = Some (Inr data)"
  using assms
proof (induction chs prev e arbitrary: z rule: codes_from.induct)
  case (1 prev e)
  obtain gs rest where f: "future (e_limit e) (sched_of e) (length (e_group e)) [prev] = (prev # gs, rest)"
    by (rule future_Cons)
  have b: "\<forall>c \<in> set (prev # gs). c < 2 ^ e_code_len e"
    using future_bound [OF "1.prems"(2), of "length (e_group e)" "[]"] f by (simp del: future.simps)
  obtain z' where "lzc_loop cm z = lzc_loop cm z'" "z_out z' @ [] = data" "z_left z' = int (length ([] :: bytes))"
    by (rule lzc_loop_step [OF "1.prems"(1,2) f "1.prems"(3) [unfolded codes_from.simps f] b])
  then show ?case by (simp add: lzc_loop.simps [of cm z'])
next
  case (2 ch chs prev e)
  show ?case
  proof (cases "e_table e (prev, ch)")
    case (Some found)
    note f = in_sync_found [OF "2.prems"(1,2) Some]
    show ?thesis using "2.IH"(2) [OF Some f] "2.prems"(3) Some by simp
  next
    case None
    define e' where "e' = (account_for prev e)\<lparr>e_pending := Some (prev, ch)\<rparr>"
    let ?cs = "codes_from chs (unat ch) e'"
    have cf: "codes_from (ch # chs) prev e = prev # ?cs" using None by (simp add: e'_def)
    obtain gs rest where f: "future (e_limit e) (sched_of e) (length (e_group e)) (prev # ?cs) = (prev # gs, rest)"
      by (rule future_Cons)
    have b: "\<forall>c \<in> set (prev # gs). c < 2 ^ e_code_len e"
      using future_bound [OF "2.prems"(2), of "length (e_group e)" "ch # chs"] unfolding cf f by simp
    have p: "pending_ok e" "length (e_group e) < 8" using "2.prems"(2) by (simp_all add: enc_ok_def)
    note a = account_for_fields [OF p, of prev]
    have e': "sched_of e' = tick (e_limit e) (sched_of e)" "e_limit e' = e_limit e" "e_group e' = e_group (account_for prev e)"
      by (simp_all add: e'_def a(1,2))
    obtain z' where z': "lzc_loop cm z = lzc_loop cm z'" "in_sync first data chs (unat ch) e' z'"
        "in_step (e_limit e') (sched_of e') (length (e_group e')) (future (e_limit e') (sched_of e') (length (e_group e')) ?cs) z'"
      by (rule lzc_loop_step [OF "2.prems"(1,2) f "2.prems"(3) [unfolded cf f] b, where cm = cm])
        (use that in \<open>simp add: e' flip: e'_def\<close>)
    have "enc_ok e' (unat ch)" unfolding e'_def by (rule enc_ok_step [OF "2.prems"(2)])
    from "2.IH"(1) [OF None, folded e'_def, OF z'(2) this z'(3)] show ?thesis by (simp add: z'(1))
  qed
qed


section \<open>From the header on\<close>

lemma config_bits:
  assumes "9 \<le> limit" and "limit \<le> 16" and "mode \<in> {0, 1::nat}"
  shows "push_bit 7 mode OR limit < 256" and "(push_bit 7 mode OR limit) AND 0x1F = limit"
    and "drop_bit 7 (push_bit 7 mode OR limit) = mode"
proof -
  have l: "limit < 2 ^ 7" "limit < 2 ^ 5" using assms by simp_all
  have o: "push_bit 7 mode OR limit = limit + 2 ^ 7 * mode" using or_push_bit [OF l(1)] by (simp add: or.commute)
  show "push_bit 7 mode OR limit < 256" unfolding o using l(1) assms(3) by auto
  have m: "(2::nat) ^ 7 * mode = 2 ^ 5 * (4 * mode)" by simp
  have "(push_bit 7 mode OR limit) AND 0x1F = (limit + 2 ^ 7 * mode) mod 2 ^ 5"
    unfolding o using take_bit_eq_mask [of 5 "limit + 2 ^ 7 * mode"] by (simp add: mask_eq_exp_minus_1 take_bit_eq_mod)
  also have "\<dots> = limit" unfolding m using l(2) by (simp only: mod_mult_self2 mod_less)
  finally show "(push_bit 7 mode OR limit) AND 0x1F = limit" .
  show "drop_bit 7 (push_bit 7 mode OR limit) = mode" unfolding o drop_bit_eq_div using l(1) by simp
qed

lemma parse_lzc_header:
  assumes "n < 2 ^ 32" and "9 \<le> limit" and "limit \<le> 16" and "mode \<in> {0, 1}"
  obtains h where "lzc_header n limit mode = Inr h" and "length h = 8"
    and "\<And>rest. parse_header (h @ rest) =
      Inr \<lparr>uncomp_len = n, algo_id = HDR_ALG_LZC, hdr_version = 1, hdr_config = push_bit 7 mode OR limit\<rparr>"
proof -
  note c = config_bits [OF assms(2-4)]
  let ?h = "le_bytes 4 n @ [word_of_nat (push_bit 4 1 OR HDR_ALG_LZC)] @ HDR_MAGIC @ [word_of_nat (push_bit 7 mode OR limit)]"
  have h: "lzc_header n limit mode = Inr ?h" using assms(1) c(1) by (simp add: lzc_header_def)
  have l: "length ?h = 8" by (simp add: HDR_MAGIC_def)
  have "parse_header (?h @ rest) =
      Inr \<lparr>uncomp_len = n, algo_id = HDR_ALG_LZC, hdr_version = 1, hdr_config = push_bit 7 mode OR limit\<rparr>" for rest
    using assms(1) c(1)
    by (simp add: parse_header_def HDR_SIZE_def HDR_MAGIC_def HDR_ALG_LZC_def py_slice_def nth_append take_append)
  with that h l show thesis by blast
qed

lemma lzc_round_trip:
  assumes "length data < 2 ^ 32" and "9 \<le> limit" and "limit \<le> 16" and "mode \<in> {0, 1}"
  shows "\<exists>z. compress_lzc data limit mode = Inr z \<and> lzc_decompress z cm = Some (Inr data)"
proof -
  obtain h where h: "lzc_header (length data) limit mode = Inr h" "length h = 8"
    "\<And>rest. parse_header (h @ rest) =
      Inr \<lparr>uncomp_len = length data, algo_id = HDR_ALG_LZC, hdr_version = 1, hdr_config = push_bit 7 mode OR limit\<rparr>"
    by (rule parse_lzc_header [OF assms]) blast
  obtain cfg where cfg: "cfg = push_bit 7 mode OR limit" by simp
  have c: "cfg AND 0x1F = limit" "drop_bit 7 cfg = mode" using config_bits [OF assms(2-4)] by (simp_all add: cfg)
  have hd: "read_lzc_header (new_reader (h @ rest)) =
      Inr (\<lparr>uncomp_len = length data, algo_id = HDR_ALG_LZC, hdr_version = 1, hdr_config = cfg\<rparr>,
           new_reader rest)" for rest
    using h(2) h(3) [of "[]"] c(1) assms(2,3)
    by (simp add: read_lzc_header_def reader_read_def new_reader_def HDR_SIZE_def lzc_consts flip: cfg)
  show ?thesis
  proof (cases data)
    case Nil
    then show ?thesis
      using h(1) hd [of "[]"] assms(2,3)
      by (simp add: compress_lzc_def lzc_decompress_def lzc_consts c start_chunk_def new_reader_def bytes_left_def lzc_loop.simps)
  next
    case (Cons b bs)
    define e where "e = \<lparr>e_limit = limit, e_out = [], e_group = [], e_code_len = 9,
               e_max_code = 2 ^ 9 - 1, e_table = Map.empty,
               e_next_free = first_seq_code mode, e_emitted = 0, e_pending = None\<rparr>"
    define body where "body = e_out (flush_group (compress_loop bs (unat b) e))"
    have z: "compress_lzc data limit mode = Inr (h @ body)"
      using h(1) assms(2,3) by (simp add: compress_lzc_def lzc_consts Cons body_def e_def)
    have first: "256 \<le> first_seq_code mode" "first_seq_code mode \<le> 257" by (simp_all add: first_seq_code_def lzc_consts)
    have "(2::nat) ^ 9 \<le> 2 ^ limit" using assms(2) by (intro power_increasing) auto
    then have ok: "enc_ok e (unat b)"
      using first less_le_trans [OF byte_less_256 first(1), of b]
      by (auto simp: e_def enc_ok_def pending_ok_def sched_ok_def sched_of_def)
    obtain gs rest where f: "future (e_limit e) (sched_of e) (length (e_group e)) (codes_from bs (unat b) e) = (gs, rest)"
      by (metis surj_pair)
    have bg: "body = group_bytes 9 gs @ rest"
      using compress_loop_out [of e bs "unat b"] ok f unfolding enc_ok_def body_def by (simp add: e_def)
    have bd: "\<forall>c \<in> set gs. c < 2 ^ 9" using future_bound [OF ok, of "length (e_group e)" bs] f by (simp add: e_def)
    have l8: "length gs \<le> 8" using future_length [of "length (e_group e)" "e_limit e" "sched_of e" "codes_from bs (unat b) e"] f
      by (simp add: e_def)
    have gl: "length (group_bytes 9 gs) = 9" by (rule group_bytes_spec(1) [OF bd l8])
    define z0 where "z0 = \<lparr>z_reader = new_reader rest, z_chunk = Some (new_reader (group_bytes 9 gs)), z_mode = mode,
                  z_limit = limit, z_code_len = 9, z_max_code = 2 ^ 9 - 1,
                  z_next_free = first_seq_code mode, z_codes = Map.empty, z_buf = replicate (2 ^ limit) 0,
                  z_prev = None, z_prev_def = None, z_left = int (length data), z_out = []\<rparr>"
    have d: "lzc_decompress (h @ body) cm = lzc_loop cm z0"
      using hd [of body] gl
      by (simp add: lzc_decompress_def c lzc_consts start_chunk_def Let_def new_reader_def bytes_left_def
          bg reader_read_def z0_def)
    have sync: "in_sync (first_seq_code mode) data bs (unat b) e z0"
    proof (rule in_syncI, goal_cases)
      case 2 then show ?case by (auto simp: dict_ok_def z0_def e_def)
    next
      case 4 then show ?case by (simp add: z0_def first_seq_code_def lzc_consts)
    qed (use first in \<open>simp_all add: z0_def e_def valid_code_def code_str.simps Cons\<close>)
    have "\<not> chunk_short z0" using gl by (simp add: chunk_short_def z0_def bits_left_def bytes_left_def new_reader_def)
    then have "in_step (e_limit e) (sched_of e) (length (e_group e)) (gs, rest) z0"
      using first holds_group [OF bd l8]
      by (auto simp: in_step_def e_def sched_of_def z0_def new_reader_def)
    then have "lzc_loop cm z0 = Some (Inr data)" using lzc_loop_compressed [OF sync ok] f by simp
    then show ?thesis using z d by auto
  qed
qed

end
