(* ===== verification/Sap_Lzh.thy ===== *)
theory Sap_Lzh
  imports Sap_Lzc
begin

text \<open>
  The LZH half of \<^verbatim>\<open>src/saprfclib/compress.py\<close>: canonical Huffman trees and their lookup tables, the
  static and dynamic trees, and the block decoder with its ring of 16384 bytes.

  The decoder copies a match in slices that do not wrap.  The last two sections read the same stream as
  a list of literals and matches, without a window, and prove that what the decoder writes is what the
  list means when every match is copied byte by byte from the output (a window of zeros before it).
\<close>

section \<open>Copying from what was already written\<close>

fun copy_bytes :: "nat \<Rightarrow> nat \<Rightarrow> bytes \<Rightarrow> bytes" where
  "copy_bytes 0 dist hist = hist"
| "copy_bytes (Suc n) dist hist = copy_bytes n dist (hist @ [hist ! (length hist - dist)])"

lemma length_copy_bytes [simp]: "length (copy_bytes n dist hist) = length hist + n"
  by (induction n dist hist rule: copy_bytes.induct) auto

lemma copy_bytes_add: "copy_bytes (m + n) dist hist = copy_bytes n dist (copy_bytes m dist hist)"
  by (induction m dist hist rule: copy_bytes.induct) auto

lemma copy_bytes_prefix: "\<exists>ys. copy_bytes n dist hist = hist @ ys"
proof (induction n dist hist rule: copy_bytes.induct)
  case (2 n dist hist)
  then show ?case by auto
qed simp

section \<open>Huffman trees\<close>

record huff_node =
  hn_value :: nat
  hn_code :: "nat option"
  hn_len :: nat

fun reverse_loop :: "nat \<Rightarrow> nat \<Rightarrow> nat \<Rightarrow> nat" where
  "reverse_loop 0 rv v = rv"
| "reverse_loop (Suc n) rv v = reverse_loop n (push_bit 1 rv OR (v AND 1)) (drop_bit 1 v)"

definition reverse_int :: "nat \<Rightarrow> nat \<Rightarrow> nat" where
  "reverse_int v n = reverse_loop n 0 v"

definition max_bits :: "huff_node list \<Rightarrow> nat" where
  "max_bits nodes = fold max (map hn_len nodes) 0"

type_synonym luts = "nat list \<times> huff_node option list"

definition fill_lut :: "nat \<Rightarrow> huff_node \<Rightarrow> luts \<Rightarrow> luts" where
  "fill_lut mb nd luts =
     (case hn_code nd of
        None \<Rightarrow> luts
      | Some code \<Rightarrow>
          if hn_len nd = 0 then luts
          else fold (\<lambda>i (ls, ns). let idx = code OR push_bit (hn_len nd) i in (ls[idx := hn_len nd], ns[idx := Some nd]))
                 [0..<2 ^ (mb - hn_len nd)] luts)"

definition build_lookup :: "huff_node list \<Rightarrow> luts" where
  "build_lookup nodes =
     (let mb = max_bits nodes in fold (fill_lut mb) nodes (replicate (2 ^ mb) 0, replicate (2 ^ mb) None))"

definition skip_bits :: "nat \<Rightarrow> reader \<Rightarrow> reader res" where
  "skip_bits n r = map_res snd (read_bits n r)"

definition take_node :: "huff_node option \<Rightarrow> reader \<Rightarrow> (huff_node \<times> reader) res" where
  "take_node x r =
     (case x of None \<Rightarrow> Inl DecompressError | Some nd \<Rightarrow> map_res (Pair nd) (skip_bits (hn_len nd) r))"

definition read_node :: "huff_node list \<Rightarrow> reader \<Rightarrow> (huff_node \<times> reader) res" where
  "read_node nodes r =
     bind_res (peek_bits (max_bits nodes) r) (\<lambda>(raw, r1). take_node (snd (build_lookup nodes) ! raw) r1)"

definition read_node_staged :: "huff_node list \<Rightarrow> nat \<Rightarrow> reader \<Rightarrow> (huff_node \<times> reader) res" where
  "read_node_staged nodes first_len r =
     (if max_bits nodes \<le> first_len then read_node nodes r
      else case build_lookup nodes of (ls, ns) \<Rightarrow>
        bind_res (peek_bits first_len r) (\<lambda>(raw, r1).
          if ls ! raw = first_len \<and> ns ! raw \<noteq> None then take_node (ns ! raw) r1
          else bind_res (peek_bits (max_bits nodes) r1) (\<lambda>(raw2, r2). take_node (ns ! raw2) r2)))"

definition count_lengths :: "huff_node list \<Rightarrow> nat list" where
  "count_lengths nodes =
     fold (\<lambda>nd d. if 0 < hn_len nd then d[hn_len nd := d ! hn_len nd + 1] else d) nodes
       (replicate (max_bits nodes + 1) 0)"

definition start_codes :: "huff_node list \<Rightarrow> nat list" where
  "start_codes nodes =
     (let mb = max_bits nodes; d = count_lengths nodes in
      fst (fold (\<lambda>cl (ncs, code). let code' = push_bit 1 (code + d ! (cl - 1)) in (ncs[cl := code'], code'))
        [1..<mb + 1] (replicate (mb + 2) 0, 0)))"

fun assign_loop :: "huff_node list \<Rightarrow> nat list \<Rightarrow> huff_node list" where
  "assign_loop [] ncs = []"
| "assign_loop (nd # nds) ncs =
     (let cl = hn_len nd in
      if 0 < cl
      then nd\<lparr>hn_code := Some (reverse_int (ncs ! cl) cl)\<rparr> # assign_loop nds (ncs[cl := ncs ! cl + 1])
      else nd # assign_loop nds ncs)"

definition assign_codes :: "huff_node list \<Rightarrow> huff_node list" where
  "assign_codes nodes = assign_loop nodes (start_codes nodes)"

definition blank_node :: "nat \<Rightarrow> nat \<Rightarrow> huff_node" where
  "blank_node v cl = \<lparr>hn_value = v, hn_code = None, hn_len = cl\<rparr>"

definition from_distribution :: "nat list \<Rightarrow> huff_node list" where
  "from_distribution dist = assign_codes (map2 blank_node [0..<length dist] dist)"

definition static_litlen :: "huff_node list" where
  "static_litlen = assign_codes
     (map (\<lambda>c. blank_node c 8) [0..<144] @ map (\<lambda>c. blank_node c 9) [144..<256]
      @ map (\<lambda>c. blank_node c 7) [256..<280] @ map (\<lambda>c. blank_node c 8) [280..<288])"

definition static_dist :: "huff_node list" where
  "static_dist = map (\<lambda>c. \<lparr>hn_value = c, hn_code = Some (reverse_int c 5), hn_len = 5\<rparr>) [0..<30]"

section \<open>Match lengths and distances\<close>

definition LZH_WINDOW_SIZE :: nat where "LZH_WINDOW_SIZE = 0x4000"
definition LZH_MIN_MATCH :: nat where "LZH_MIN_MATCH = 3"
definition LZH_MAX_MATCH :: nat where "LZH_MAX_MATCH = 258"
definition LZH_END_BLOCK :: nat where "LZH_END_BLOCK = 256"
definition LZH_LIT_LAST :: nat where "LZH_LIT_LAST = 255"
definition LZH_LENGTH_FIRST :: nat where "LZH_LENGTH_FIRST = 257"
definition LZH_LITLEN_COUNT :: nat where "LZH_LITLEN_COUNT = 286"
definition LZH_DIST_COUNT :: nat where "LZH_DIST_COUNT = 30"
definition LZH_BITLEN_COUNT :: nat where "LZH_BITLEN_COUNT = 19"

definition LZH_LEN_EXTRA :: "nat list" where
  "LZH_LEN_EXTRA = [0,0,0,0,0,0,0,0,1,1,1,1,2,2,2,2,3,3,3,3,4,4,4,4,5,5,5,5,0,99,99]"

definition LZH_DIST_EXTRA :: "nat list" where
  "LZH_DIST_EXTRA = [0,0,0,0,1,1,2,2,3,3,4,4,5,5,6,6,7,7,8,8,9,9,10,10,11,11,12,12,13,13]"

definition LZH_BITLEN_RANKING :: "nat list" where
  "LZH_BITLEN_RANKING = [16,17,18,0,8,7,9,6,10,5,11,4,12,3,13,2,14,1,15]"

fun starts_from :: "nat \<Rightarrow> nat list \<Rightarrow> nat list" where
  "starts_from n [] = []"
| "starts_from n (x # xs) = n # starts_from (n + 2 ^ x) xs"

definition len_starts :: "nat list" where
  "len_starts = starts_from LZH_MIN_MATCH (take 28 LZH_LEN_EXTRA) @ [LZH_MAX_MATCH]"

definition dist_starts :: "nat list" where
  "dist_starts = starts_from 1 LZH_DIST_EXTRA"

section \<open>Blocks\<close>

datatype lz_token = Literal byte | EndBlock | Match nat nat

text \<open>\<^verbatim>\<open>starts[code]\<close> raises when the code is out of the table.\<close>

definition index_res :: "'a list \<Rightarrow> nat \<Rightarrow> 'a res" where
  "index_res xs i = (if i < length xs then Inr (xs ! i) else Inl IndexError)"

definition read_token :: "huff_node list \<Rightarrow> huff_node list \<Rightarrow> nat \<Rightarrow> reader \<Rightarrow> (lz_token \<times> reader) res" where
  "read_token litlen dist eob_len r =
     bind_res (read_node_staged litlen eob_len r) (\<lambda>(nd, r1).
       let v = hn_value nd in
       if v \<le> LZH_LIT_LAST then Inr (Literal (word_of_nat v), r1)
       else if v = LZH_END_BLOCK then Inr (EndBlock, r1)
       else
         let lc = v - LZH_LENGTH_FIRST in
         bind_res (index_res len_starts lc) (\<lambda>base.
         bind_res (read_bits (LZH_LEN_EXTRA ! lc) r1) (\<lambda>(ext, r2).
         if base + ext > LZH_MAX_MATCH then Inl DecompressError
         else
           bind_res (read_node dist r2) (\<lambda>(dnd, r3).
           let dc = hn_value dnd in
           bind_res (index_res dist_starts dc) (\<lambda>dbase.
           bind_res (read_bits (LZH_DIST_EXTRA ! dc) r3) (\<lambda>(dext, r4).
           if dbase + dext > LZH_WINDOW_SIZE then Inl DecompressError
           else Inr (Match (base + ext) (dbase + dext), r4)))))))"

record lzh =
  h_reader :: reader
  h_out :: bytes
  h_window :: bytes
  h_wpos :: nat

fun copy_slice :: "nat \<Rightarrow> nat \<Rightarrow> nat \<Rightarrow> bytes \<Rightarrow> bytes" where
  "copy_slice 0 wpos src w = w"
| "copy_slice (Suc n) wpos src w = copy_slice n (wpos + 1) (src + 1) (w[wpos := w ! src])"

function copy_match :: "nat \<Rightarrow> nat \<Rightarrow> lzh \<Rightarrow> lzh" where
  "copy_match copy_left src s =
     (if copy_left = 0 then s
      else
        let wpos = h_wpos s; chunk = min (LZH_WINDOW_SIZE - max src wpos) copy_left;
            w = copy_slice chunk wpos src (h_window s)
        in copy_match (copy_left - chunk) ((src + chunk) mod LZH_WINDOW_SIZE)
             (s\<lparr>h_window := w, h_out := h_out s @ py_slice wpos (wpos + chunk) w,
                h_wpos := (wpos + chunk) mod LZH_WINDOW_SIZE\<rparr>))"
  by pat_completeness auto
termination
  by (relation "inv_image (less_than <*lex*> less_than)
        (\<lambda>(n, src, s). (n, if src < LZH_WINDOW_SIZE \<and> h_wpos s < LZH_WINDOW_SIZE then 0 else 1 :: nat))")
    (auto simp: LZH_WINDOW_SIZE_def)

declare copy_match.simps [simp del]

definition put_literal :: "byte \<Rightarrow> lzh \<Rightarrow> lzh" where
  "put_literal b s =
     s\<lparr>h_window := (h_window s)[h_wpos s := b], h_out := h_out s @ [b],
       h_wpos := (h_wpos s + 1) mod LZH_WINDOW_SIZE\<rparr>"

definition put_match :: "nat \<Rightarrow> nat \<Rightarrow> lzh \<Rightarrow> lzh" where
  "put_match n d s = copy_match n ((h_wpos s + LZH_WINDOW_SIZE - d) mod LZH_WINDOW_SIZE) s"

definition eob_length :: "huff_node list \<Rightarrow> nat" where
  "eob_length litlen =
     (case filter (\<lambda>n. hn_value n = LZH_END_BLOCK \<and> 0 < hn_len n) litlen of
        [] \<Rightarrow> max_bits litlen
      | n # _ \<Rightarrow> hn_len n)"

lemma read_bits_less: "read_bits n r = Inr (v, r') \<Longrightarrow> bits_left r' + n = bits_left r"
  by (rule read_bits_left(1))

lemma peek_bits_left: "peek_bits n r = Inr (v, r') \<Longrightarrow> bits_left r' = bits_left r"
  by (auto simp: peek_bits_def map_res_Inr dest: fill_bits_left)

definition lut_ok :: "luts \<Rightarrow> bool" where
  "lut_ok luts \<longleftrightarrow> (\<forall>nd. Some nd \<in> set (snd luts) \<longrightarrow> 0 < hn_len nd)"

lemma build_lookup_ok: "lut_ok (build_lookup nodes)"
proof -
  have step: "lut_ok (fill_lut mb nd luts)" if "lut_ok luts" for mb nd luts
  proof (cases "hn_code nd")
    case (Some code)
    have "lut_ok (fold (\<lambda>i (ls, ns). let idx = code OR push_bit (hn_len nd) i in (ls[idx := hn_len nd], ns[idx := Some nd])) js luts)"
      if "0 < hn_len nd" for js
    proof (rule fold_invariant [where Q = "\<lambda>_. True" and P = lut_ok], goal_cases)
      case (3 i l)
      have "set ((snd l)[k := Some nd]) \<subseteq> insert (Some nd) (set (snd l))" for k by (rule set_update_subset_insert)
      with 3(2) that show ?case by (cases l) (fastforce simp: lut_ok_def Let_def)
    qed (simp_all add: \<open>lut_ok luts\<close>)
    then show ?thesis using that by (simp add: fill_lut_def Some)
  qed (simp add: fill_lut_def that)
  show ?thesis
    unfolding build_lookup_def Let_def
    by (rule fold_invariant [where Q = "\<lambda>_. True" and P = lut_ok]) (simp_all add: step, simp add: lut_ok_def)
qed

lemma build_lookup_length: "length (snd (build_lookup nodes)) = 2 ^ max_bits nodes"
proof -
  have step: "length (snd (fill_lut mb nd luts)) = length (snd luts)" for mb nd luts
  proof -
    have "length (snd (fold (\<lambda>i (ls, ns). let idx = code OR push_bit (hn_len nd) i in (ls[idx := hn_len nd], ns[idx := Some nd])) js l))
        = length (snd l)" for js code l
      by (induction js arbitrary: l) (auto simp: Let_def split: prod.splits)
    then show ?thesis by (simp add: fill_lut_def split: option.splits)
  qed
  have "length (snd (fold (fill_lut mb) nds luts)) = length (snd luts)" for mb nds luts
    by (induction nds arbitrary: luts) (simp_all add: step)
  then show ?thesis by (simp add: build_lookup_def Let_def)
qed

lemma take_node_less:
  assumes "take_node x r = Inr (nd, r')" and "\<And>nd. x = Some nd \<Longrightarrow> 0 < hn_len nd"
  shows "bits_left r' < bits_left r"
  using assms read_bits_left(1) by (fastforce simp: take_node_def skip_bits_def map_res_Inr split: option.splits)

lemma lookup_node:
  assumes "k < 2 ^ max_bits nodes" and "snd (build_lookup nodes) ! k = Some nd"
  shows "0 < hn_len nd"
  using build_lookup_ok [of nodes] assms nth_mem [of k "snd (build_lookup nodes)"]
  by (auto simp: lut_ok_def build_lookup_length)

lemma peek_bits_value: "peek_bits n r = Inr (v, r') \<Longrightarrow> v < 2 ^ n"
  by (auto simp: peek_bits_def map_res_Inr take_bit_eq_mask [symmetric])

lemma read_node_less:
  assumes "read_node nodes r = Inr (nd, r')" shows "bits_left r' < bits_left r"
proof -
  obtain raw r1 where r1: "peek_bits (max_bits nodes) r = Inr (raw, r1)"
      "take_node (snd (build_lookup nodes) ! raw) r1 = Inr (nd, r')"
    using assms by (auto simp: read_node_def bind_res_Inr)
  show ?thesis
    using take_node_less [OF r1(2)] lookup_node [OF peek_bits_value [OF r1(1)]] peek_bits_left [OF r1(1)] by auto
qed

lemma read_node_staged_less:
  assumes "read_node_staged nodes n r = Inr (nd, r')" shows "bits_left r' < bits_left r"
proof (cases "max_bits nodes \<le> n")
  case True
  then show ?thesis using assms read_node_less by (simp add: read_node_staged_def)
next
  case False
  obtain ls ns where l: "build_lookup nodes = (ls, ns)" by (metis surj_pair)
  then obtain raw r1 where r1: "peek_bits n r = Inr (raw, r1)"
      "(if ls ! raw = n \<and> ns ! raw \<noteq> None then take_node (ns ! raw) r1
          else bind_res (peek_bits (max_bits nodes) r1) (\<lambda>(raw2, r2). take_node (ns ! raw2) r2)) = Inr (nd, r')"
    using assms False by (auto simp: read_node_staged_def bind_res_Inr)
  note p = peek_bits_left [OF r1(1)] peek_bits_value [OF r1(1)]
  have "(2::nat) ^ n \<le> 2 ^ max_bits nodes" using False by (intro power_increasing) auto
  then have raw: "raw < 2 ^ max_bits nodes" using p(2) by linarith
  show ?thesis
  proof (cases "ls ! raw = n \<and> ns ! raw \<noteq> None")
    case True
    then show ?thesis using take_node_less [of "ns ! raw" r1] lookup_node [OF raw] r1(2) p(1) by (auto simp: l)
  next
    case False
    then obtain raw2 r2 where r2: "peek_bits (max_bits nodes) r1 = Inr (raw2, r2)" "take_node (ns ! raw2) r2 = Inr (nd, r')"
      using r1(2) by (auto simp: bind_res_Inr)
    show ?thesis
      using take_node_less [OF r2(2)] lookup_node [OF peek_bits_value [OF r2(1)]] peek_bits_left [OF r2(1)] p(1) by (auto simp: l)
  qed
qed

lemma read_token_less:
  assumes "read_token litlen dist n r = Inr (t, r')" shows "bits_left r' < bits_left r"
  using assms
  by (auto simp: read_token_def bind_res_Inr Let_def index_res_def split: if_splits
      dest!: read_node_staged_less read_node_less read_bits_left(1))

function read_block :: "huff_node list \<Rightarrow> huff_node list \<Rightarrow> lzh \<Rightarrow> lzh res" where
  "read_block litlen dist s =
     (case read_token litlen dist (eob_length litlen) (h_reader s) of
        Inl e \<Rightarrow> Inl e
      | Inr (t, r) \<Rightarrow>
          (case t of
             Literal b \<Rightarrow> read_block litlen dist (put_literal b (s\<lparr>h_reader := r\<rparr>))
           | EndBlock \<Rightarrow> Inr (s\<lparr>h_reader := r\<rparr>)
           | Match n d \<Rightarrow> read_block litlen dist (put_match n d (s\<lparr>h_reader := r\<rparr>))))"
  by pat_completeness auto

lemma copy_match_reader [simp]: "h_reader (copy_match n src s) = h_reader s"
proof (induction n src s rule: copy_match.induct)
  case (1 n src s)
  then show ?case by (subst copy_match.simps) (simp add: Let_def)
qed

lemma put_reader [simp]: "h_reader (put_literal b s) = h_reader s" "h_reader (put_match n d s) = h_reader s"
  by (simp_all add: put_literal_def put_match_def)

termination read_block
  by (relation "measure (\<lambda>(l, d, s). bits_left (h_reader s))") (auto dest: read_token_less)

declare read_block.simps [simp del]

section \<open>Dynamic trees\<close>

definition LZH_BITLEN_REPEAT_NZ :: nat where "LZH_BITLEN_REPEAT_NZ = 16"
definition LZH_BITLEN_REPEAT_Z3 :: nat where "LZH_BITLEN_REPEAT_Z3 = 17"
definition LZH_BITLEN_REPEAT_Z11 :: nat where "LZH_BITLEN_REPEAT_Z11 = 18"

definition repeat_lengths :: "nat \<Rightarrow> nat \<Rightarrow> nat \<Rightarrow> nat \<Rightarrow> nat list \<Rightarrow> reader \<Rightarrow> (nat list \<times> reader) res" where
  "repeat_lengths base width value count codes r =
     bind_res (read_bits width r) (\<lambda>(n, r1).
       if base + n > count - length codes then Inl DecompressError
       else Inr (codes @ replicate (base + n) value, r1))"

function read_encoded_lengths ::
    "huff_node list \<Rightarrow> nat \<Rightarrow> nat list \<Rightarrow> nat \<Rightarrow> reader \<Rightarrow> (nat list \<times> reader) res" where
  "read_encoded_lengths tree count codes lastlen r =
     (if length codes < count
      then case read_node tree r of
        Inl e \<Rightarrow> Inl e
      | Inr (nd, r1) \<Rightarrow>
          let c = hn_value nd in
          if c < 16 then read_encoded_lengths tree count (codes @ [c]) c r1
          else if c = LZH_BITLEN_REPEAT_NZ then
            (case repeat_lengths 3 2 lastlen count codes r1 of
               Inl e \<Rightarrow> Inl e
             | Inr (codes1, r2) \<Rightarrow> read_encoded_lengths tree count codes1 lastlen r2)
          else if c = LZH_BITLEN_REPEAT_Z3 then
            (case repeat_lengths 3 3 0 count codes r1 of
               Inl e \<Rightarrow> Inl e
             | Inr (codes1, r2) \<Rightarrow> read_encoded_lengths tree count codes1 0 r2)
          else if c = LZH_BITLEN_REPEAT_Z11 then
            (case repeat_lengths 11 7 0 count codes r1 of
               Inl e \<Rightarrow> Inl e
             | Inr (codes1, r2) \<Rightarrow> read_encoded_lengths tree count codes1 0 r2)
          else Inl DecompressError
      else Inr (codes, r))"
  by pat_completeness auto

lemma repeat_lengths_left:
  "repeat_lengths b w v n cs r = Inr (cs', r') \<Longrightarrow> bits_left r' \<le> bits_left r"
  by (auto simp: repeat_lengths_def bind_res_Inr split: if_splits dest: read_bits_left(1))

termination read_encoded_lengths
  by (relation "measure (\<lambda>(t, n, cs, l, r). bits_left r)")
    (auto dest!: read_node_less repeat_lengths_left)

declare read_encoded_lengths.simps [simp del]

fun read_ranked :: "nat list \<Rightarrow> nat list \<Rightarrow> reader \<Rightarrow> (nat list \<times> reader) res" where
  "read_ranked [] d r = Inr (d, r)"
| "read_ranked (k # ks) d r = bind_res (read_bits 3 r) (\<lambda>(v, r1). read_ranked ks (d[k := v]) r1)"

definition read_dynamic_trees :: "reader \<Rightarrow> ((huff_node list \<times> huff_node list) \<times> reader) res" where
  "read_dynamic_trees r =
     bind_res (read_bits 5 r) (\<lambda>(a, r1).
     bind_res (read_bits 5 r1) (\<lambda>(b, r2).
     bind_res (read_bits 4 r2) (\<lambda>(c, r3).
     if 257 + a > LZH_LITLEN_COUNT then Inl DecompressError
     else if 1 + b > LZH_DIST_COUNT then Inl DecompressError
     else
       bind_res (read_ranked (take (4 + c) LZH_BITLEN_RANKING) (replicate LZH_BITLEN_COUNT 0) r3) (\<lambda>(bl, r4).
       let tree = from_distribution bl in
       bind_res (read_encoded_lengths tree (257 + a) [] 0 r4) (\<lambda>(ll, r5).
       bind_res (read_encoded_lengths tree (1 + b) [] 0 r5) (\<lambda>(dl, r6).
       Inr ((from_distribution ll, from_distribution dl), r6)))))))"

section \<open>Streams\<close>

definition LZH_TREETYPE_STATIC :: nat where "LZH_TREETYPE_STATIC = 1"
definition LZH_TREETYPE_DYNAMIC :: nat where "LZH_TREETYPE_DYNAMIC = 2"

definition block_trees :: "nat \<Rightarrow> reader \<Rightarrow> ((huff_node list \<times> huff_node list) \<times> reader) res" where
  "block_trees btype r =
     (if btype = LZH_TREETYPE_STATIC then Inr ((static_litlen, static_dist), r)
      else if btype = LZH_TREETYPE_DYNAMIC then read_dynamic_trees r
      else Inl DecompressError)"


lemma read_ranked_left: "read_ranked ks d r = Inr (x, r') \<Longrightarrow> bits_left r' \<le> bits_left r"
  by (induction ks d r rule: read_ranked.induct) (fastforce simp: bind_res_Inr dest: read_bits_left(1))+

lemma read_encoded_lengths_left:
  "read_encoded_lengths t n cs l r = Inr (x, r') \<Longrightarrow> bits_left r' \<le> bits_left r"
proof (induction t n cs l r rule: read_encoded_lengths.induct)
  case (1 t n cs l r)
  show ?case
  proof (cases "length cs < n")
    case False
    then show ?thesis using "1.prems" by (simp add: read_encoded_lengths.simps)
  next
    case True
    then obtain nd r1 where nd: "read_node t r = Inr (nd, r1)"
      using "1.prems" by (subst (asm) read_encoded_lengths.simps) (auto split: sum.splits)
    have le: "bits_left r1 < bits_left r" by (rule read_node_less [OF nd])
    let ?c = "hn_value nd"
    consider "?c < 16" | "?c = 16" | "?c = 17" | "?c = 18" | "18 < ?c" by linarith
    then show ?thesis
    proof cases
      case 1
      then have "read_encoded_lengths t n (cs @ [?c]) ?c r1 = Inr (x, r')"
        using "1.prems" True nd by (subst (asm) read_encoded_lengths.simps) (simp add: Let_def)
      from "1.IH"(1) [OF True nd refl refl 1 this] le show ?thesis by simp
    next
      case 2
      then obtain cs' r2 where r: "repeat_lengths 3 2 l n cs r1 = Inr (cs', r2)" "read_encoded_lengths t n cs' l r2 = Inr (x, r')"
        using "1.prems" True nd
        by (subst (asm) read_encoded_lengths.simps) (auto simp: Let_def LZH_BITLEN_REPEAT_NZ_def split: sum.splits)
      from "1.IH"(2) [OF True nd refl refl _ _ r(1) refl r(2)] 2 le repeat_lengths_left [OF r(1)] show ?thesis
        by (simp add: LZH_BITLEN_REPEAT_NZ_def)
    next
      case 3
      then obtain cs' r2 where r: "repeat_lengths 3 3 0 n cs r1 = Inr (cs', r2)" "read_encoded_lengths t n cs' 0 r2 = Inr (x, r')"
        using "1.prems" True nd
        by (subst (asm) read_encoded_lengths.simps)
          (auto simp: Let_def LZH_BITLEN_REPEAT_NZ_def LZH_BITLEN_REPEAT_Z3_def split: sum.splits)
      from "1.IH"(3) [OF True nd refl refl _ _ _ r(1) refl r(2)] 3 le repeat_lengths_left [OF r(1)] show ?thesis
        by (simp add: LZH_BITLEN_REPEAT_NZ_def LZH_BITLEN_REPEAT_Z3_def)
    next
      case 4
      then obtain cs' r2 where r: "repeat_lengths 11 7 0 n cs r1 = Inr (cs', r2)" "read_encoded_lengths t n cs' 0 r2 = Inr (x, r')"
        using "1.prems" True nd
        by (subst (asm) read_encoded_lengths.simps)
          (auto simp: Let_def LZH_BITLEN_REPEAT_NZ_def LZH_BITLEN_REPEAT_Z3_def LZH_BITLEN_REPEAT_Z11_def split: sum.splits)
      from "1.IH"(4) [OF True nd refl refl _ _ _ _ r(1) refl r(2)] 4 le repeat_lengths_left [OF r(1)] show ?thesis
        by (simp add: LZH_BITLEN_REPEAT_NZ_def LZH_BITLEN_REPEAT_Z3_def LZH_BITLEN_REPEAT_Z11_def)
    next
      case 5
      then show ?thesis
        using "1.prems" True nd
        by (subst (asm) read_encoded_lengths.simps)
          (simp add: Let_def LZH_BITLEN_REPEAT_NZ_def LZH_BITLEN_REPEAT_Z3_def LZH_BITLEN_REPEAT_Z11_def)
    qed
  qed
qed

lemma block_trees_left: "block_trees b r = Inr (t, r') \<Longrightarrow> bits_left r' \<le> bits_left r"
  by (auto simp: block_trees_def read_dynamic_trees_def bind_res_Inr Let_def split: if_splits
      dest!: read_encoded_lengths_left read_ranked_left read_bits_left(1))

lemma read_block_left: "read_block l d s = Inr s' \<Longrightarrow> bits_left (h_reader s') < bits_left (h_reader s)"
proof (induction l d s rule: read_block.induct)
  case (1 l d s)
  obtain t r where t: "read_token l d (eob_length l) (h_reader s) = Inr (t, r)"
    using "1.prems" by (subst (asm) read_block.simps) (auto split: sum.splits)
  then have less: "bits_left r < bits_left (h_reader s)" by (rule read_token_less)
  show ?case
  proof (cases t)
    case (Literal b)
    then have "read_block l d (put_literal b (s\<lparr>h_reader := r\<rparr>)) = Inr s'"
      using "1.prems" t by (subst (asm) read_block.simps) simp
    from "1.IH"(1) [OF t refl Literal this] less show ?thesis by simp
  next
    case EndBlock
    then show ?thesis using "1.prems" t less by (subst (asm) read_block.simps) auto
  next
    case (Match n x)
    then have "read_block l d (put_match n x (s\<lparr>h_reader := r\<rparr>)) = Inr s'"
      using "1.prems" t by (subst (asm) read_block.simps) simp
    from "1.IH"(2) [OF t refl Match this] less show ?thesis by simp
  qed
qed

definition block_head :: "reader \<Rightarrow> (bool \<times> (huff_node list \<times> huff_node list) \<times> reader) res" where
  "block_head r =
     bind_res (read_bits 1 r) (\<lambda>(last_block, r1).
     bind_res (read_bits 2 r1) (\<lambda>(btype, r2).
     map_res (\<lambda>(trees, r3). (last_block \<noteq> 0, trees, r3)) (block_trees btype r2)))"

lemma block_head_left: "block_head r = Inr (b, t, r') \<Longrightarrow> bits_left r' \<le> bits_left r"
  by (auto simp: block_head_def bind_res_Inr map_res_Inr dest!: block_trees_left read_bits_left(1))

function lzh_blocks :: "lzh \<Rightarrow> lzh res" where
  "lzh_blocks s =
     (case block_head (h_reader s) of
        Inl e \<Rightarrow> Inl e
      | Inr (last_block, (litlen, dist), r) \<Rightarrow>
          (case read_block litlen dist (s\<lparr>h_reader := r\<rparr>) of
             Inl e \<Rightarrow> Inl e
           | Inr s1 \<Rightarrow> if last_block then Inr s1 else lzh_blocks s1))"
  by pat_completeness auto
termination
  by (relation "measure (\<lambda>s. bits_left (h_reader s))") (auto dest!: read_block_left block_head_left)

declare lzh_blocks.simps [simp del]

definition read_lzh_head :: "reader \<Rightarrow> reader res" where
  "read_lzh_head r =
     bind_res (reader_read HDR_SIZE r) (\<lambda>(h, r1).
     bind_res (parse_header h) (\<lambda>hdr.
       if algo_id hdr \<noteq> HDR_ALG_LZH then Inl DecompressError
       else bind_res (read_bits 2 r1) (\<lambda>(noise, r2).
         if noise \<noteq> 0 then skip_bits noise r2 else Inr r2)))"

definition lzh_decompress :: "bytes \<Rightarrow> bytes res" where
  "lzh_decompress data =
     bind_res (read_lzh_head (new_reader data)) (\<lambda>r.
     map_res h_out (lzh_blocks
       \<lparr>h_reader = r, h_out = [], h_window = replicate LZH_WINDOW_SIZE 0, h_wpos = 0\<rparr>))"

section \<open>The stream without the window\<close>

text \<open>
  What the stream says: its literals and matches, block by block, whatever is done with them.
\<close>

function block_tokens :: "huff_node list \<Rightarrow> huff_node list \<Rightarrow> reader \<Rightarrow> (lz_token list \<times> reader) res" where
  "block_tokens litlen dist r =
     (case read_token litlen dist (eob_length litlen) r of
        Inl e \<Rightarrow> Inl e
      | Inr (t, r1) \<Rightarrow>
          if t = EndBlock then Inr ([], r1)
          else map_res (\<lambda>(ts, r2). (t # ts, r2)) (block_tokens litlen dist r1))"
  by pat_completeness auto
termination
  by (relation "measure (\<lambda>(l, d, r). bits_left r)") (auto dest: read_token_less)

declare block_tokens.simps [simp del]

lemma block_tokens_left: "block_tokens l d r = Inr (ts, r') \<Longrightarrow> bits_left r' < bits_left r"
proof (induction l d r arbitrary: ts rule: block_tokens.induct)
  case (1 l d r)
  obtain t r1 where t: "read_token l d (eob_length l) r = Inr (t, r1)"
    using "1.prems" by (subst (asm) block_tokens.simps) (auto split: sum.splits)
  note less = read_token_less [OF t]
  show ?case
  proof (cases "t = EndBlock")
    case True
    then show ?thesis using "1.prems" t less by (subst (asm) block_tokens.simps) auto
  next
    case False
    then obtain ts1 where "block_tokens l d r1 = Inr (ts1, r')"
      using "1.prems" t by (subst (asm) block_tokens.simps) (auto simp: map_res_Inr)
    from "1.IH" [OF t refl False this] less show ?thesis by simp
  qed
qed

function stream_tokens :: "reader \<Rightarrow> lz_token list res" where
  "stream_tokens r =
     (case block_head r of
        Inl e \<Rightarrow> Inl e
      | Inr (last_block, (litlen, dist), r1) \<Rightarrow>
          (case block_tokens litlen dist r1 of
             Inl e \<Rightarrow> Inl e
           | Inr (ts, r2) \<Rightarrow> if last_block then Inr ts else map_res ((@) ts) (stream_tokens r2)))"
  by pat_completeness auto
termination
  by (relation "measure bits_left") (auto dest!: block_tokens_left block_head_left)

declare stream_tokens.simps [simp del]

fun lz_write :: "bytes \<Rightarrow> lz_token \<Rightarrow> bytes" where
  "lz_write hist (Literal b) = hist @ [b]"
| "lz_write hist (Match n d) = copy_bytes n d hist"
| "lz_write hist EndBlock = hist"


section \<open>The window is the end of the output\<close>

lemma W_pos [simp]: "0 < LZH_WINDOW_SIZE" by (simp add: LZH_WINDOW_SIZE_def)

definition win_ok :: "bytes \<Rightarrow> bytes \<Rightarrow> bool" where
  "win_ok hist w \<longleftrightarrow> length w = LZH_WINDOW_SIZE \<and> LZH_WINDOW_SIZE \<le> length hist \<and>
     (\<forall>j < length hist. length hist \<le> j + LZH_WINDOW_SIZE \<longrightarrow> w ! (j mod LZH_WINDOW_SIZE) = hist ! j)"

lemma mod_neq_near:
  fixes j n :: nat
  assumes "j < n" and "n < j + LZH_WINDOW_SIZE"
  shows "j mod LZH_WINDOW_SIZE \<noteq> n mod LZH_WINDOW_SIZE"
proof
  assume "j mod LZH_WINDOW_SIZE = n mod LZH_WINDOW_SIZE"
  then have "LZH_WINDOW_SIZE dvd n - j" using mod_eq_dvd_iff_nat [of j n LZH_WINDOW_SIZE] assms(1) by simp
  moreover have "0 < n - j" "n - j < LZH_WINDOW_SIZE" using assms by simp_all
  ultimately show False using dvd_imp_le by fastforce
qed

lemma win_ok_push:
  assumes "win_ok hist w" shows "win_ok (hist @ [b]) (w[length hist mod LZH_WINDOW_SIZE := b])"
proof -
  have "w[length hist mod LZH_WINDOW_SIZE := b] ! (j mod LZH_WINDOW_SIZE) = (hist @ [b]) ! j" if "j < length hist + 1" "length hist + 1 \<le> j + LZH_WINDOW_SIZE" for j
  proof (cases "j = length hist")
    case True
    then show ?thesis using assms by (simp add: win_ok_def nth_append)
  next
    case False
    then have j: "j < length hist" "length hist < j + LZH_WINDOW_SIZE" using that by simp_all
    then have "j mod LZH_WINDOW_SIZE \<noteq> length hist mod LZH_WINDOW_SIZE" by (rule mod_neq_near)
    then show ?thesis using assms j by (simp add: win_ok_def nth_append)
  qed
  then show ?thesis using assms by (simp add: win_ok_def)
qed

lemma win_ok_read:
  assumes "win_ok hist w" and "1 \<le> d" and "d \<le> LZH_WINDOW_SIZE"
  shows "w ! ((length hist - d) mod LZH_WINDOW_SIZE) = hist ! (length hist - d)"
proof -
  have "length hist - d < length hist" "length hist \<le> length hist - d + LZH_WINDOW_SIZE"
    using assms W_pos unfolding win_ok_def by linarith+
  then show ?thesis using assms(1) unfolding win_ok_def by blast
qed

lemma copy_slice_win:
  assumes "win_ok hist w" and "1 \<le> d" and "d \<le> LZH_WINDOW_SIZE" and "wpos = length hist mod LZH_WINDOW_SIZE" and "src = (length hist - d) mod LZH_WINDOW_SIZE"
    and "wpos + n \<le> LZH_WINDOW_SIZE" and "src + n \<le> LZH_WINDOW_SIZE"
  shows "win_ok (copy_bytes n d hist) (copy_slice n wpos src w)"
  using assms
proof (induction n arbitrary: hist w wpos src)
  case (Suc n)
  let ?b = "hist ! (length hist - d)"
  have le: "d \<le> length hist" using Suc.prems(1,3) by (simp add: win_ok_def)
  have b: "w ! src = ?b" using win_ok_read [OF Suc.prems(1-3)] Suc.prems(5) by simp
  have p: "win_ok (hist @ [?b]) (w[wpos := ?b])" using win_ok_push [OF Suc.prems(1)] Suc.prems(4) by simp
  show ?case
  proof (cases n)
    case 0
    then show ?thesis using p b by simp
  next
    case (Suc m)
    have "wpos + 1 < LZH_WINDOW_SIZE" "src + 1 < LZH_WINDOW_SIZE" using Suc.prems(6,7) Suc by simp_all
    then have m: "wpos + 1 = length (hist @ [?b]) mod LZH_WINDOW_SIZE" "src + 1 = (length (hist @ [?b]) - d) mod LZH_WINDOW_SIZE"
      using Suc.prems(4,5) le by (simp_all add: mod_Suc Suc_diff_le)
    from Suc.IH [OF p Suc.prems(2,3) m] Suc.prems(6,7) b show ?thesis by simp
  qed
qed simp

lemma win_ok_slice:
  assumes "win_ok hist w" and "k \<le> length hist" and "(k mod LZH_WINDOW_SIZE) + n \<le> LZH_WINDOW_SIZE" and "length hist = k + n"
  shows "py_slice (k mod LZH_WINDOW_SIZE) (k mod LZH_WINDOW_SIZE + n) w = drop k hist"
proof (rule nth_equalityI)
  have lw: "length w = LZH_WINDOW_SIZE" using assms(1) by (simp add: win_ok_def)
  show "length (py_slice (k mod LZH_WINDOW_SIZE) (k mod LZH_WINDOW_SIZE + n) w) = length (drop k hist)"
    using assms(2-4) lw by (simp add: py_slice_def)
  fix i assume "i < length (py_slice (k mod LZH_WINDOW_SIZE) (k mod LZH_WINDOW_SIZE + n) w)"
  then have i: "i < n" using lw assms(3) by (simp add: py_slice_def)
  have "(k + i) mod LZH_WINDOW_SIZE = k mod LZH_WINDOW_SIZE + i"
    using i assms(3) by (metis add_less_cancel_left less_le_trans mod_add_left_eq mod_less)
  moreover have "w ! ((k + i) mod LZH_WINDOW_SIZE) = hist ! (k + i)"
    using assms(1,4) i assms(3) unfolding win_ok_def by (metis add.commute add_le_mono add_less_cancel_left le_add2 le_trans nat_less_le)
  ultimately show "py_slice (k mod LZH_WINDOW_SIZE) (k mod LZH_WINDOW_SIZE + n) w ! i = drop k hist ! i"
    using i assms(2,3) lw by (simp add: py_slice_def)
qed

lemma copy_match_win:
  assumes "win_ok hist (h_window s)" and "h_wpos s = length hist mod LZH_WINDOW_SIZE" and "src = (length hist - d) mod LZH_WINDOW_SIZE"
    and "1 \<le> d" and "d \<le> LZH_WINDOW_SIZE"
  shows "win_ok (copy_bytes n d hist) (h_window (copy_match n src s)) \<and>
    h_wpos (copy_match n src s) = (length hist + n) mod LZH_WINDOW_SIZE \<and>
    h_out (copy_match n src s) = h_out s @ drop (length hist) (copy_bytes n d hist)"
  using assms
proof (induction n src s arbitrary: hist rule: copy_match.induct)
  case (1 n src s)
  show ?case
  proof (cases "n = 0")
    case True
    then show ?thesis using "1.prems" by (simp add: copy_match.simps)
  next
    case False
    define wpos where "wpos = h_wpos s"
    define c where "c = min (LZH_WINDOW_SIZE - max src wpos) n"
    define w where "w = copy_slice c wpos src (h_window s)"
    define s1 where "s1 = s\<lparr>h_window := w, h_out := h_out s @ py_slice wpos (wpos + c) w, h_wpos := (wpos + c) mod LZH_WINDOW_SIZE\<rparr>"
    define h1 where "h1 = copy_bytes c d hist"
    have lt: "wpos < LZH_WINDOW_SIZE" "src < LZH_WINDOW_SIZE" using "1.prems"(2,3) by (simp_all add: wpos_def)
    then have c: "wpos + c \<le> LZH_WINDOW_SIZE" "src + c \<le> LZH_WINDOW_SIZE" "c \<le> n" by (simp_all add: c_def)
    have le: "d \<le> length hist" using "1.prems"(1,5) by (simp add: win_ok_def)
    have w1: "win_ok h1 w"
      unfolding w_def h1_def
      by (rule copy_slice_win [OF "1.prems"(1,4,5) _ "1.prems"(3) c(1,2)]) (simp add: wpos_def "1.prems"(2))
    have p1: "h_wpos s1 = length h1 mod LZH_WINDOW_SIZE" by (simp add: s1_def h1_def wpos_def "1.prems"(2) mod_add_left_eq)
    have m1: "(src + c) mod LZH_WINDOW_SIZE = (length h1 - d) mod LZH_WINDOW_SIZE"
      using le by (simp add: h1_def "1.prems"(3) mod_add_left_eq)
    have o1: "h_out s1 = h_out s @ drop (length hist) h1"
      using win_ok_slice [OF w1, of "length hist" c] c(1) by (simp add: s1_def h1_def wpos_def "1.prems"(2))
    have st: "copy_match n src s = copy_match (n - c) ((src + c) mod LZH_WINDOW_SIZE) s1"
      using False by (subst copy_match.simps) (simp add: Let_def s1_def w_def c_def wpos_def)
    have n: "copy_bytes n d hist = copy_bytes (n - c) d h1" using copy_bytes_add [of c "n - c" d hist] c(3) by (simp add: h1_def)
    obtain ys where ys: "copy_bytes (n - c) d h1 = h1 @ ys" using copy_bytes_prefix by blast
    have "win_ok h1 (h_window s1)" using w1 by (simp add: s1_def)
    then have "win_ok (copy_bytes (n - c) d h1) (h_window (copy_match (n - c) ((src + c) mod LZH_WINDOW_SIZE) s1)) \<and>
      h_wpos (copy_match (n - c) ((src + c) mod LZH_WINDOW_SIZE) s1) = (length h1 + (n - c)) mod LZH_WINDOW_SIZE \<and>
      h_out (copy_match (n - c) ((src + c) mod LZH_WINDOW_SIZE) s1) = h_out s1 @ drop (length h1) (copy_bytes (n - c) d h1)"
      using "1.IH" [OF False refl refl refl, of h1] p1 m1 "1.prems"(4,5)
      unfolding s1_def w_def c_def wpos_def by blast
    then show ?thesis
      unfolding st n using c(3) by (simp add: ys o1) (simp add: h1_def)
  qed
qed


text \<open>What a token can be.\<close>

fun token_ok :: "lz_token \<Rightarrow> bool" where
  "token_ok (Match n d) \<longleftrightarrow> LZH_MIN_MATCH \<le> n \<and> n \<le> LZH_MAX_MATCH \<and> 1 \<le> d \<and> d \<le> LZH_WINDOW_SIZE"
| "token_ok _ \<longleftrightarrow> True"

lemma starts_from_min: "x \<in> set (starts_from n xs) \<Longrightarrow> n \<le> x"
  by (induction n xs rule: starts_from.induct) (auto dest: add_leD1)

lemma len_starts_min: "lc < length len_starts \<Longrightarrow> LZH_MIN_MATCH \<le> len_starts ! lc"
  using nth_mem [of lc len_starts]
  by (auto simp: len_starts_def LZH_MAX_MATCH_def LZH_MIN_MATCH_def dest: starts_from_min simp del: starts_from.simps)

lemma dist_starts_min: "dc < length dist_starts \<Longrightarrow> Suc 0 \<le> dist_starts ! dc"
  using starts_from_min [of "dist_starts ! dc" "Suc 0" LZH_DIST_EXTRA] nth_mem [of dc dist_starts] by (simp add: dist_starts_def)

lemma read_token_ok: "read_token l d n r = Inr (t, r') \<Longrightarrow> token_ok t"
  by (auto simp: read_token_def bind_res_Inr Let_def index_res_def split: if_splits
      dest!: len_starts_min dist_starts_min)

lemma block_tokens_ok: "block_tokens l d r = Inr (ts, r') \<Longrightarrow> list_all token_ok ts"
proof (induction l d r arbitrary: ts rule: block_tokens.induct)
  case (1 l d r)
  obtain t r1 where t: "read_token l d (eob_length l) r = Inr (t, r1)"
    using "1.prems" by (subst (asm) block_tokens.simps) (auto split: sum.splits)
  show ?case
  proof (cases "t = EndBlock")
    case True
    then show ?thesis using "1.prems" t by (subst (asm) block_tokens.simps) auto
  next
    case False
    then obtain ts1 where "block_tokens l d r1 = Inr (ts1, r')" "ts = t # ts1"
      using "1.prems" t by (subst (asm) block_tokens.simps) (auto simp: map_res_Inr)
    then show ?thesis using "1.IH" [OF t refl False] read_token_ok [OF t] by simp
  qed
qed

lemma stream_tokens_ok: "stream_tokens r = Inr ts \<Longrightarrow> list_all token_ok ts"
proof (induction r arbitrary: ts rule: stream_tokens.induct)
  case (1 r)
  obtain lb l d r1 where h: "block_head r = Inr (lb, (l, d), r1)"
    using "1.prems" by (subst (asm) stream_tokens.simps) (auto split: sum.splits)
  obtain ts1 r2 where t: "block_tokens l d r1 = Inr (ts1, r2)"
    using "1.prems" h by (subst (asm) stream_tokens.simps) (auto split: sum.splits)
  show ?case
  proof (cases lb)
    case True
    then show ?thesis using "1.prems" h t block_tokens_ok [OF t] by (subst (asm) stream_tokens.simps) auto
  next
    case False
    then obtain ts2 where "stream_tokens r2 = Inr ts2" "ts = ts1 @ ts2"
      using "1.prems" h t by (subst (asm) stream_tokens.simps) (auto simp: map_res_Inr)
    then show ?thesis using "1.IH" [OF h refl refl refl t refl False] block_tokens_ok [OF t] by simp
  qed
qed

text \<open>The decoder's state against the output so far, preceded by a window of zeros.\<close>

definition zeros :: bytes where "zeros = replicate LZH_WINDOW_SIZE 0"

lemma length_zeros: "length zeros = LZH_WINDOW_SIZE" by (simp add: zeros_def)

definition lzh_ok :: "lzh \<Rightarrow> bool" where
  "lzh_ok s \<longleftrightarrow> win_ok (zeros @ h_out s) (h_window s) \<and> h_wpos s = length (zeros @ h_out s) mod LZH_WINDOW_SIZE"

lemma lzh_ok_reader [simp]: "lzh_ok (s\<lparr>h_reader := r\<rparr>) = lzh_ok s" by (simp add: lzh_ok_def)

lemma put_literal_ok:
  assumes "lzh_ok s"
  shows "lzh_ok (put_literal b s)" and "zeros @ h_out (put_literal b s) = lz_write (zeros @ h_out s) (Literal b)"
  using assms win_ok_push [of "zeros @ h_out s" "h_window s" b]
  by (simp_all add: lzh_ok_def put_literal_def mod_Suc_eq)

lemma put_match_ok:
  assumes "lzh_ok s" and "token_ok (Match n d)"
  shows "lzh_ok (put_match n d s)" and "zeros @ h_out (put_match n d s) = lz_write (zeros @ h_out s) (Match n d)"
proof -
  let ?h = "zeros @ h_out s" and ?src = "(h_wpos s + LZH_WINDOW_SIZE - d) mod LZH_WINDOW_SIZE"
  have d: "1 \<le> d" "d \<le> LZH_WINDOW_SIZE" using assms(2) by simp_all
  have w: "win_ok ?h (h_window s)" "h_wpos s = length ?h mod LZH_WINDOW_SIZE" using assms(1) by (simp_all add: lzh_ok_def)
  then have le: "d \<le> length ?h" using d(2) by (simp add: win_ok_def)
  have "?src = (length ?h mod LZH_WINDOW_SIZE + (LZH_WINDOW_SIZE - d)) mod LZH_WINDOW_SIZE" using d(2) by (simp add: w(2))
  also have "\<dots> = (length ?h + (LZH_WINDOW_SIZE - d)) mod LZH_WINDOW_SIZE" by (simp add: mod_add_left_eq)
  also have "length ?h + (LZH_WINDOW_SIZE - d) = (length ?h - d) + LZH_WINDOW_SIZE" using le d(2) by simp
  also have "((length ?h - d) + LZH_WINDOW_SIZE) mod LZH_WINDOW_SIZE = (length ?h - d) mod LZH_WINDOW_SIZE" by simp
  finally have src: "?src = (length ?h - d) mod LZH_WINDOW_SIZE" .
  note m = copy_match_win [OF w(1,2) src d, of n]
  obtain ys where ys: "copy_bytes n d ?h = ?h @ ys" using copy_bytes_prefix by blast
  have o: "h_out (put_match n d s) = h_out s @ ys" using m by (simp add: put_match_def ys)
  show *: "zeros @ h_out (put_match n d s) = lz_write ?h (Match n d)" by (simp add: o ys)
  have "length (zeros @ h_out (put_match n d s)) = length ?h + n" unfolding * by simp
  then show "lzh_ok (put_match n d s)"
    unfolding lzh_ok_def * using m by (simp add: put_match_def)
qed

definition same_result :: "bytes \<Rightarrow> lzh res \<Rightarrow> (lz_token list \<times> reader) res \<Rightarrow> bool" where
  "same_result hist x y \<longleftrightarrow>
     (case y of
        Inl e \<Rightarrow> x = Inl e
      | Inr (ts, r) \<Rightarrow> \<exists>s. x = Inr s \<and> lzh_ok s \<and> h_reader s = r \<and> zeros @ h_out s = foldl lz_write hist ts)"

lemma read_block_tokens:
  "lzh_ok s \<Longrightarrow> same_result (zeros @ h_out s) (read_block l d s) (block_tokens l d (h_reader s))"
proof (induction l d s rule: read_block.induct)
  case (1 l d s)
  show ?case
  proof (cases "read_token l d (eob_length l) (h_reader s)")
    case (Inl e)
    then show ?thesis by (simp add: read_block.simps [of l d s] block_tokens.simps [of l d "h_reader s"] same_result_def)
  next
    case (Inr tr)
    obtain t r where t: "read_token l d (eob_length l) (h_reader s) = Inr (t, r)" using Inr by (cases tr) simp
    have step: "same_result (zeros @ h_out s) (read_block l d s) (block_tokens l d (h_reader s))"
      if "t \<noteq> EndBlock" "read_block l d s = read_block l d s1" "zeros @ h_out s1 = lz_write (zeros @ h_out s) t"
        "h_reader s1 = r" "same_result (zeros @ h_out s1) (read_block l d s1) (block_tokens l d (h_reader s1))" for s1
      using that t by (subst block_tokens.simps) (auto simp: same_result_def split: sum.splits)
    show ?thesis
    proof (cases t)
      case (Literal b)
      let ?s = "put_literal b (s\<lparr>h_reader := r\<rparr>)"
      have "read_block l d s = read_block l d ?s" using t Literal by (subst read_block.simps) simp
      then show ?thesis
        using "1.IH"(1) [OF t refl Literal] put_literal_ok [of "s\<lparr>h_reader := r\<rparr>" b] "1.prems" Literal
        by (intro step [of ?s]) simp_all
    next
      case EndBlock
      then show ?thesis using t "1.prems"
        by (simp add: read_block.simps [of l d s] block_tokens.simps [of l d "h_reader s"] same_result_def)
    next
      case (Match n x)
      let ?s = "put_match n x (s\<lparr>h_reader := r\<rparr>)"
      have "read_block l d s = read_block l d ?s" using t Match by (subst read_block.simps) simp
      then show ?thesis
        using "1.IH"(2) [OF t refl Match] put_match_ok [of "s\<lparr>h_reader := r\<rparr>" n x] read_token_ok [OF t] "1.prems" Match
        by (intro step [of ?s]) simp_all
    qed
  qed
qed

lemma lzh_blocks_tokens:
  "lzh_ok s \<Longrightarrow> map_res h_out (lzh_blocks s) =
     map_res (\<lambda>ts. drop LZH_WINDOW_SIZE (foldl lz_write (zeros @ h_out s) ts)) (stream_tokens (h_reader s))"
proof (induction s rule: lzh_blocks.induct)
  case (1 s)
  show ?case
  proof (cases "block_head (h_reader s)")
    case (Inl e)
    then show ?thesis by (simp add: lzh_blocks.simps [of s] stream_tokens.simps [of "h_reader s"])
  next
    case (Inr x)
    obtain lb l d r where h: "block_head (h_reader s) = Inr (lb, (l, d), r)" using Inr by (cases x) auto
    have b: "same_result (zeros @ h_out s) (read_block l d (s\<lparr>h_reader := r\<rparr>)) (block_tokens l d r)"
      using read_block_tokens [of "s\<lparr>h_reader := r\<rparr>" l d] "1.prems" by simp
    show ?thesis
    proof (cases "block_tokens l d r")
      case (Inl e)
      then show ?thesis using b h by (simp add: lzh_blocks.simps [of s] stream_tokens.simps [of "h_reader s"] same_result_def)
    next
      case (Inr y)
      obtain ts r2 where t: "block_tokens l d r = Inr (ts, r2)" using Inr by (cases y) auto
      obtain s1 where s1: "read_block l d (s\<lparr>h_reader := r\<rparr>) = Inr s1" "lzh_ok s1" "h_reader s1 = r2"
          "zeros @ h_out s1 = foldl lz_write (zeros @ h_out s) ts"
        using b t by (auto simp: same_result_def)
      have z: "drop LZH_WINDOW_SIZE (zeros @ xs) = xs" for xs by (simp add: zeros_def)
      show ?thesis
      proof (cases lb)
        case True
        then show ?thesis using h t s1
          by (simp add: lzh_blocks.simps [of s] stream_tokens.simps [of "h_reader s"] length_zeros flip: s1(4))
      next
        case False
        then have "map_res h_out (lzh_blocks s1) =
            map_res (\<lambda>ts. drop LZH_WINDOW_SIZE (foldl lz_write (zeros @ h_out s1) ts)) (stream_tokens r2)"
          using "1.IH" [OF h refl refl refl s1(1) False] s1(2,3) by simp
        then show ?thesis using False h t s1(1)
          by (simp add: lzh_blocks.simps [of s] stream_tokens.simps [of "h_reader s"] s1(4))
            (cases "stream_tokens r2"; simp)
      qed
    qed
  qed
qed

lemma lzh_decompress_tokens:
  "lzh_decompress data = bind_res (read_lzh_head (new_reader data)) (\<lambda>r.
     map_res (\<lambda>ts. drop LZH_WINDOW_SIZE (foldl lz_write zeros ts)) (stream_tokens r))"
proof -
  have "lzh_ok \<lparr>h_reader = r, h_out = [], h_window = replicate LZH_WINDOW_SIZE 0, h_wpos = 0\<rparr>" for r
    by (simp add: lzh_ok_def win_ok_def zeros_def)
  from lzh_blocks_tokens [OF this] show ?thesis by (simp add: lzh_decompress_def)
qed

end
