(* ===== verification/Sap_Lz4.thy ===== *)
theory Sap_Lz4
  imports Sap_Lzh
begin

text \<open>
  \<^verbatim>\<open>lz4_block_decompress\<close> and \<^verbatim>\<open>sap_lz4_frame_decompress\<close> of \<^verbatim>\<open>src/saprfclib/compress.py\<close>, and the blocks
  they read: lists of literals and matches, encoded as the LZ4 block format has them.
\<close>

section \<open>LZ4 blocks\<close>

text \<open>The bytes that extend a length: up to the first that is not 255, or to the end of the data.\<close>

fun lz4_extend :: "bytes \<Rightarrow> nat \<Rightarrow> nat \<times> bytes" where
  "lz4_extend [] len = (len, [])"
| "lz4_extend (x # rest) len =
     (if x \<noteq> 255 then (len + unat x, rest) else lz4_extend rest (len + unat x))"

lemma lz4_extend_length: "lz4_extend rest len = (len', rest') \<Longrightarrow> length rest' \<le> length rest"
  by (induction rest len rule: lz4_extend.induct) (auto split: if_splits)

fun lz4_copy :: "nat \<Rightarrow> nat \<Rightarrow> bytes \<Rightarrow> bytes" where
  "lz4_copy 0 src out = out"
| "lz4_copy (Suc n) src out = lz4_copy n (src + 1) (out @ [out ! src])"

function lz4_loop :: "bytes \<Rightarrow> bytes \<Rightarrow> bytes res" where
  "lz4_loop [] out = Inr out"
| "lz4_loop (token # rest) out =
     (let nibble = drop_bit 4 (unat token) AND 0xF in
      case (if nibble = 15 then lz4_extend rest nibble else (nibble, rest)) of
        (lit_len, r1) \<Rightarrow>
          if length r1 < lit_len then Inl DecompressError
          else
            let out1 = out @ take lit_len r1; r2 = drop lit_len r1 in
            if r2 = [] then Inr out1
            else if length r2 < 2 then Inl DecompressError
            else
              let offset = unat (r2 ! 0) OR push_bit 8 (unat (r2 ! 1)); r3 = drop 2 r2 in
              if offset = 0 then Inl DecompressError
              else
                let base = (unat token AND 0xF) + 4 in
                case (if unat token AND 0xF = 15 then lz4_extend r3 base else (base, r3)) of
                  (match_len, r4) \<Rightarrow>
                    if length out1 < offset then Inl DecompressError
                    else lz4_loop r4 (lz4_copy match_len (length out1 - offset) out1))"
  by pat_completeness auto
termination
  by (relation "measure (\<lambda>(r, out). length r)")
    (auto simp: eq_commute [where b = "if _ then _ else _"] split: if_splits dest!: lz4_extend_length)

declare lz4_loop.simps(2) [simp del]

definition lz4_block_decompress :: "bytes \<Rightarrow> bytes res" where
  "lz4_block_decompress src = lz4_loop src []"

definition SAP_LZ4_MARKER :: byte where "SAP_LZ4_MARKER = 0x34"

definition sap_lz4_frame_decompress :: "bytes \<Rightarrow> bytes res" where
  "sap_lz4_frame_decompress data =
     (if data = [] then Inl DecompressError
      else if data ! 0 \<noteq> SAP_LZ4_MARKER then Inl DecompressError
      else if length data < 9 then Inl DecompressError
      else
        let uncomp = le_val (py_slice 1 5 data); comp = le_val (py_slice 5 9 data) in
        if length data < 9 + comp then Inl DecompressError
        else bind_res (lz4_block_decompress (py_slice 9 (9 + comp) data)) (\<lambda>result.
          if length result \<noteq> uncomp then Inl DecompressError else Inr result))"

section \<open>What a block says\<close>

text \<open>
  A sequence is its literals, the offset of a match and the length of the match; the encoding is that
  of the LZ4 block format.
\<close>

type_synonym lz4_seq = "bytes \<times> nat \<times> nat"

definition length_ext :: "nat \<Rightarrow> bytes" where
  "length_ext n = (if n < 15 then [] else replicate ((n - 15) div 255) 255 @ [word_of_nat ((n - 15) mod 255)])"

definition token_byte :: "nat \<Rightarrow> nat \<Rightarrow> byte" where
  "token_byte lits m = word_of_nat (16 * min 15 lits + min 15 m)"

fun lz4_seq_bytes :: "lz4_seq \<Rightarrow> bytes" where
  "lz4_seq_bytes (lits, offset, n) =
     token_byte (length lits) (n - 4) # length_ext (length lits) @ lits @ le_bytes 2 offset @ length_ext (n - 4)"

definition lz4_last_bytes :: "bytes \<Rightarrow> bytes" where
  "lz4_last_bytes lits = (if lits = [] then [] else token_byte (length lits) 0 # length_ext (length lits) @ lits)"

fun lz4_seq_write :: "bytes \<Rightarrow> lz4_seq \<Rightarrow> bytes" where
  "lz4_seq_write out (lits, offset, n) = copy_bytes n offset (out @ lits)"

fun lz4_seqs_ok :: "bytes \<Rightarrow> lz4_seq list \<Rightarrow> bool" where
  "lz4_seqs_ok out [] \<longleftrightarrow> True"
| "lz4_seqs_ok out ((lits, offset, n) # seqs) \<longleftrightarrow>
     0 < offset \<and> offset < 65536 \<and> offset \<le> length (out @ lits) \<and> 4 \<le> n \<and>
     lz4_seqs_ok (lz4_seq_write out (lits, offset, n)) seqs"

definition lz4_block :: "lz4_seq list \<Rightarrow> bytes \<Rightarrow> bytes" where
  "lz4_block seqs lits = concat (map lz4_seq_bytes seqs) @ lz4_last_bytes lits"

definition lz4_frame :: "nat \<Rightarrow> bytes \<Rightarrow> bytes" where
  "lz4_frame n block = SAP_LZ4_MARKER # le_bytes 4 n @ le_bytes 4 (length block) @ block"

lemma lz4_copy_bytes:
  "0 < d \<Longrightarrow> d \<le> length out \<Longrightarrow> lz4_copy n (length out - d) out = copy_bytes n d out"
proof (induction n arbitrary: out)
  case (Suc n)
  have "length out - d + 1 = length (out @ [out ! (length out - d)]) - d" using Suc.prems by simp
  with Suc.IH [of "out @ [out ! (length out - d)]"] Suc.prems show ?case by simp
qed simp

lemma token_nibbles:
  shows "drop_bit 4 (unat (token_byte a b)) AND 0xF = min 15 a" and "unat (token_byte a b) AND 0xF = min 15 b"
proof -
  have u: "unat (token_byte a b) = 16 * min 15 a + min 15 b"
    unfolding token_byte_def unat_word_of_nat_byte by simp
  have m: "x AND 0xF = x mod 16" for x :: nat
    using take_bit_eq_mask [of 4 x] by (simp add: mask_eq_exp_minus_1 take_bit_eq_mod)
  have "(16 * min 15 a + min 15 b) div 16 = min 15 a" "(16 * min 15 a + min 15 b) mod 16 = min 15 b" by simp_all
  then show "drop_bit 4 (unat (token_byte a b)) AND 0xF = min 15 a" "unat (token_byte a b) AND 0xF = min 15 b"
    unfolding m u by (simp_all add: drop_bit_eq_div)
qed

lemma unat_255: "unat (255 :: byte) = 255" by simp

lemma lz4_extend_255: "lz4_extend (replicate k 255 @ rest) len = lz4_extend rest (len + k * 255)"
proof (induction k arbitrary: len)
  case (Suc k)
  have "lz4_extend (replicate (Suc k) 255 @ rest) len = lz4_extend (replicate k 255 @ rest) (len + 255)"
    by (simp only: replicate_Suc append_Cons lz4_extend.simps unat_255 simp_thms if_False not_not)
  then show ?case by (simp only: Suc.IH mult_Suc add.assoc)
qed simp

lemma lz4_extend_ext:
  "15 \<le> n \<Longrightarrow> lz4_extend (length_ext n @ rest) (15 + k) = (n + k, rest)"
proof -
  assume n: "15 \<le> n"
  have m: "(n - 15) mod 255 < 255" by simp
  have "(word_of_nat ((n - 15) mod 255) :: byte) \<noteq> 255"
  proof
    assume "(word_of_nat ((n - 15) mod 255) :: byte) = 255"
    then have "unat (word_of_nat ((n - 15) mod 255) :: byte) = 255" by (simp only: unat_255)
    then show False using m unfolding unat_word_of_nat_byte by simp
  qed
  moreover have "(n - 15) div 255 * 255 + (n - 15) mod 255 = n - 15" by simp
  ultimately show ?thesis using n m
    by (simp add: length_ext_def lz4_extend_255 algebra_simps)
qed

lemma read_length:
  "(if min 15 n = 15 then lz4_extend (length_ext n @ rest) (min 15 n + k) else (min 15 n + k, length_ext n @ rest)) = (n + k, rest)"
  using lz4_extend_ext [of n rest k] by (auto simp: min_def length_ext_def)

lemma offset_bytes:
  "n < 65536 \<Longrightarrow> unat (le_bytes 2 n ! 0) OR push_bit 8 (unat (le_bytes 2 n ! 1)) = n"
proof -
  assume n: "n < 65536"
  have "n mod 256 OR push_bit 8 (n div 256) = n mod 256 + 2 ^ 8 * (n div 256)" by (rule or_push_bit) simp
  also have "\<dots> = n" by simp
  finally show ?thesis using n by (simp add: numeral_2_eq_2)
qed

lemma lz4_loop_step:
  assumes "(if drop_bit 4 (unat token) AND 0xF = 15 then lz4_extend r (drop_bit 4 (unat token) AND 0xF)
      else (drop_bit 4 (unat token) AND 0xF, r)) = (length lits, lits @ tail)"
    and "2 \<le> length tail" and "unat (tail ! 0) OR push_bit 8 (unat (tail ! 1)) = offset" and "0 < offset"
    and "(if unat token AND 0xF = 15 then lz4_extend (drop 2 tail) ((unat token AND 0xF) + 4)
      else ((unat token AND 0xF) + 4, drop 2 tail)) = (n, rest)"
    and "offset \<le> length (out @ lits)"
  shows "lz4_loop (token # r) out = lz4_loop rest (copy_bytes n offset (out @ lits))"
proof -
  have "tail \<noteq> []" "\<not> length (lits @ tail) < length lits" using assms(2) by auto
  moreover have "lz4_copy n (length (out @ lits) - offset) (out @ lits) = copy_bytes n offset (out @ lits)"
    by (rule lz4_copy_bytes [OF assms(4,6)])
  ultimately show ?thesis
    unfolding lz4_loop.simps Let_def assms(1) prod.case using assms(2-6)
    by (simp del: length_append cong: if_cong)
qed

lemma lz4_loop_seq:
  assumes "lz4_seqs_ok out [(lits, offset, n)]"
  shows "lz4_loop (lz4_seq_bytes (lits, offset, n) @ rest) out = lz4_loop rest (lz4_seq_write out (lits, offset, n))"
proof -
  have a: "0 < offset" "offset < 65536" "offset \<le> length (out @ lits)" "4 \<le> n" using assms by simp_all
  let ?tail = "le_bytes 2 offset @ length_ext (n - 4) @ rest"
  have l: "(if min 15 (length lits) = 15 then lz4_extend (length_ext (length lits) @ lits @ ?tail) (min 15 (length lits))
       else (min 15 (length lits), length_ext (length lits) @ lits @ ?tail)) = (length lits, lits @ ?tail)"
    using read_length [of "length lits" "lits @ ?tail" 0] by (simp only: add_0_right)
  have m: "(if min 15 (n - 4) = 15 then lz4_extend (length_ext (n - 4) @ rest) (min 15 (n - 4) + 4)
       else (min 15 (n - 4) + 4, length_ext (n - 4) @ rest)) = (n, rest)"
    using read_length [of "n - 4" rest 4] a(4) by simp
  have o: "unat (?tail ! 0) OR push_bit 8 (unat (?tail ! 1)) = offset" "length ?tail \<ge> 2" "drop 2 ?tail = length_ext (n - 4) @ rest"
    using offset_bytes [OF a(2)] by (simp_all add: nth_append)
  then have ne: "?tail \<noteq> []" by (metis list.size(3) not_numeral_le_zero)
  have "lz4_loop (token_byte (length lits) (n - 4) # length_ext (length lits) @ lits @ ?tail) out
      = lz4_loop rest (copy_bytes n offset (out @ lits))"
    by (rule lz4_loop_step [OF _ o(2,1) a(1) _ a(3)]; unfold token_nibbles o(3)) (fact l, fact m)
  then show ?thesis by simp
qed

lemma lz4_loop_last:
  "lz4_loop (lz4_last_bytes lits) out = Inr (out @ lits)"
proof (cases "lits = []")
  case False
  have l: "(if min 15 (length lits) = 15 then lz4_extend (length_ext (length lits) @ lits) (min 15 (length lits))
       else (min 15 (length lits), length_ext (length lits) @ lits)) = (length lits, lits)"
    using read_length [of "length lits" lits 0] by (simp only: add_0_right)
  show ?thesis
    using False l by (simp only: lz4_last_bytes_def if_False lz4_loop.simps token_nibbles Let_def prod.case) simp
qed (simp add: lz4_last_bytes_def)

lemma lz4_loop_seqs:
  "lz4_seqs_ok out seqs \<Longrightarrow> lz4_loop (concat (map lz4_seq_bytes seqs) @ rest) out = lz4_loop rest (foldl lz4_seq_write out seqs)"
proof (induction seqs arbitrary: out)
  case (Cons q seqs)
  obtain lits offset n where q: "q = (lits, offset, n)" by (metis prod_cases3)
  have "lz4_seqs_ok out [q]" "lz4_seqs_ok (lz4_seq_write out q) seqs" using Cons.prems by (simp_all add: q)
  then show ?case
    using lz4_loop_seq [of out lits offset n] Cons.IH [of "lz4_seq_write out q"] by (simp only: q) simp
qed simp

lemma lz4_block_decompress_block:
  "lz4_seqs_ok [] seqs \<Longrightarrow>
     lz4_block_decompress (lz4_block seqs lits) = Inr (foldl lz4_seq_write [] seqs @ lits)"
  by (simp add: lz4_block_decompress_def lz4_block_def lz4_loop_seqs lz4_loop_last)

lemma sap_lz4_frame_block:
  assumes "n < 2 ^ 32" and "length block < 2 ^ 32"
  shows "sap_lz4_frame_decompress (lz4_frame n block @ junk) =
    bind_res (lz4_block_decompress block) (\<lambda>result. if length result \<noteq> n then Inl DecompressError else Inr result)"
proof -
  let ?f = "lz4_frame n block @ junk"
  have s: "py_slice 1 5 ?f = le_bytes 4 n" "py_slice 5 9 ?f = le_bytes 4 (length block)"
    "py_slice 9 (9 + length block) ?f = block" "9 + length block \<le> length ?f" "?f ! 0 = SAP_LZ4_MARKER" "?f \<noteq> []"
    by (simp_all add: lz4_frame_def py_slice_def)
  show ?thesis
    using s(4-6) assms unfolding sap_lz4_frame_decompress_def Let_def s(1,2) by (simp add: s(3) del: append_is_Nil_conv)
qed

end
