(* ===== verification/Sap_Compress.thy ===== *)
theory Sap_Compress
  imports Lzc_Roundtrip Sap_Lz4 Invoke_Response
begin

text \<open>
  \<^verbatim>\<open>sapcompress_decompress\<close> of \<^verbatim>\<open>src/saprfclib/compress.py\<close>, the function the response parser of
  \<open>Invoke_Response\<close> takes as a parameter, with the properties of the compression formats.
\<close>

section \<open>The decompressor returns\<close>

lemma resolve_code_returns:
  assumes "\<forall>k d. codes k = Some d \<longrightarrow> cd_base d < k"
  shows "resolve_code codes nf buf c n \<noteq> None"
proof (induction c arbitrary: buf n rule: less_induct)
  case (less c)
  show ?case
  proof (cases "codes c")
    case None
    then show ?thesis by (subst resolve_code.simps) simp
  next
    case (Some d)
    then have "cd_base d < c" using assms by blast
    from less.IH [OF this] show ?thesis by (subst resolve_code.simps) (simp add: Some)
  qed
qed

text \<open>Entries point backwards, and the previous code has one if it needs one.\<close>

definition codes_ok :: "lzc \<Rightarrow> bool" where
  "codes_ok z \<longleftrightarrow> (\<forall>k d. z_codes z k = Some d \<longrightarrow> cd_base d < k) \<and> (\<forall>p. z_prev z = Some p \<longrightarrow> p < z_next_free z)"

lemma start_chunk_fields:
  "start_chunk z = Inr z' \<Longrightarrow> z_codes z' = z_codes z \<and> z_prev z' = z_prev z \<and> z_next_free z' = z_next_free z \<and> z_limit z' = z_limit z"
  by (auto simp: start_chunk_def Let_def map_res_Inr split: if_splits)

lemma read_code_fields:
  assumes "read_code z = Inr (c, z')"
  shows "z_codes z' = z_codes z \<and> z_prev z' = z_prev z \<and> z_next_free z' = z_next_free z \<and> z_limit z' = z_limit z"
proof -
  define z0 where "z0 = (if z_next_free z > z_max_code z then set_code_len (z_code_len z + 1) z else z)"
  have z0: "z_codes z0 = z_codes z" "z_prev z0 = z_prev z" "z_next_free z0 = z_next_free z" "z_limit z0 = z_limit z"
    by (simp_all add: z0_def set_code_len_def)
  obtain z2 where z2: "(if chunk_short z \<or> z_next_free z > z_max_code z then start_chunk z0 else Inr z) = Inr z2"
      and r: "(case z_chunk z2 of None \<Rightarrow> Inr (None, z2)
         | Some c \<Rightarrow>
             if bits_left c < z_code_len z2 then Inr (None, z2)
             else map_res (\<lambda>(v, c1). (Some v, z2\<lparr>z_chunk := Some c1\<rparr>)) (read_bits (z_code_len z2) c)) = Inr (c, z')"
    using assms unfolding read_code_def Let_def z0_def bind_res_Inr by blast
  have "z_codes z2 = z_codes z \<and> z_prev z2 = z_prev z \<and> z_next_free z2 = z_next_free z \<and> z_limit z2 = z_limit z"
    using z2 z0 start_chunk_fields [of z0 z2] by (auto split: if_splits)
  then show ?thesis using r by (auto simp: map_res_Inr split: option.splits if_splits)
qed

lemma codes_ok_put:
  assumes "codes_ok z" and "code_chain z c = Some (Inr (buf, n))" and "c < 2 ^ z_limit z"
  shows "codes_ok (put_code c buf n z)"
proof -
  have "c < z_next_free z \<or> c = z_next_free z \<and> z_prev z \<noteq> None"
    using assms(1,2) by (auto simp: code_chain_def codes_ok_def split: if_splits)
  then show ?thesis
    using assms(1,3) by (auto simp: put_code_def codes_ok_def Let_def less_Suc_eq split: option.splits if_splits)
qed

lemma code_chain_returns: "codes_ok z \<Longrightarrow> code_chain z c \<noteq> None"
  using resolve_code_returns [of "z_codes z"] by (auto simp: code_chain_def codes_ok_def)

lemma lzc_loop_returns: "codes_ok z \<Longrightarrow> lzc_loop cm z \<noteq> None"
proof (induction cm z rule: lzc_loop.induct)
  case (1 cm z)
  show ?case
  proof (cases "z_left z \<le> 0")
    case True
    then show ?thesis by (simp add: lzc_loop.simps)
  next
    case left: False
    show ?thesis
    proof (cases "read_code z")
      case (Inl e)
      then show ?thesis using left by (simp add: lzc_loop.simps [of cm z])
    next
      case (Inr cz)
      obtain code z1 where r: "read_code z = Inr (code, z1)" using Inr by (cases cz) auto
      have ok: "codes_ok z1" using "1.prems" read_code_fields [OF r] by (simp add: codes_ok_def)
      show ?thesis
      proof (cases "z_mode z = LZC_MULTI_BLOCK \<and> code = Some LZC_CODE_END_BLOCK")
        case True
        note eq = lzc_loop.simps [of cm z, unfolded if_not_P [OF left] r sum.case prod.case if_P [OF True]]
        show ?thesis
        proof (cases "start_block z1")
          case (Inl e)
          then show ?thesis by (simp add: eq)
        next
          case (Inr z2)
          have "codes_ok (z2\<lparr>z_prev := None, z_prev_def := None\<rparr>)"
            using ok start_chunk_fields [OF Inr [unfolded start_block_def]] by (simp add: codes_ok_def set_code_len_def)
          from "1.IH"(1) [OF left r refl True Inr this] show ?thesis
            by (simp add: eq Inr)
        qed
      next
        case False
        note eq = lzc_loop.simps [of cm z, unfolded if_not_P [OF left] r sum.case prod.case if_not_P [OF False]]
        show ?thesis
        proof (cases code)
          case None
          then show ?thesis by (simp add: eq)
        next
          case (Some c)
          show ?thesis
          proof (cases "2 ^ z_limit z1 \<le> c")
            case True
            then show ?thesis by (simp add: eq Some)
          next
            case lim: False
            obtain x where x: "code_chain z1 c = Some x" using code_chain_returns [OF ok] by blast
            show ?thesis
            proof (cases x)
              case (Inl e)
              then show ?thesis by (simp add: eq Some x lim)
            next
              case (Inr bn)
              obtain buf n where bn: "bn = (buf, n)" by (cases bn)
              have "codes_ok (put_code c buf n z1)" using codes_ok_put [OF ok] x Inr bn lim by simp
              from "1.IH"(2) [OF left r refl False Some lim x Inr bn [symmetric] this] show ?thesis
                using lim by (simp add: eq Some x Inr bn)
            qed
          qed
        qed
      qed
    qed
  qed
qed

lemma lzc_decompress_returns: "lzc_decompress data cm \<noteq> None"
proof -
  have "lzc_loop cm z \<noteq> None" if "start_chunk z0 = Inr z" "z_codes z0 = Map.empty" "z_prev z0 = None" for z z0
    using that start_chunk_fields [OF that(1)] by (intro lzc_loop_returns) (simp add: codes_ok_def)
  then show ?thesis by (auto simp: lzc_decompress_def Let_def split: sum.splits)
qed

section \<open>The interface\<close>

definition as_decompress_error :: "'a res \<Rightarrow> 'a res" where
  "as_decompress_error r = (case r of Inl e \<Rightarrow> Inl DecompressError | Inr x \<Rightarrow> Inr x)"

text \<open>\<open>None\<close> would be a call that does not return.\<close>

definition sapcompress_run :: "bytes \<Rightarrow> nat \<Rightarrow> bytes res option" where
  "sapcompress_run data out_length =
     (if length data < HDR_SIZE then Some (Inl DecompressError)
      else case as_decompress_error (parse_header data) of
        Inl e \<Rightarrow> Some (Inl e)
      | Inr hdr \<Rightarrow>
          if uncomp_len hdr \<noteq> out_length then Some (Inl DecompressError)
          else
            map_option (\<lambda>r. bind_res (as_decompress_error r) (\<lambda>result.
                if length result \<noteq> out_length then Inl DecompressError else Inr result))
              (if algo_id hdr = HDR_ALG_LZC then lzc_decompress data True
               else if algo_id hdr = HDR_ALG_LZH then Some (lzh_decompress data)
               else Some (Inl DecompressError)))"

definition sapcompress_decompress :: sap_decompressor where
  "sapcompress_decompress data n = (case sapcompress_run data n of Some r \<Rightarrow> r | None \<Rightarrow> Inl RuntimeError)"

text \<open>C29. Decompression returns for every input, however malformed: the walk through the LZC dictionary
  ends because entries point backwards, the loops over bits because every code takes some.  The only
  error is the decompression error, and a result has the announced length.\<close>

theorem sapcompress_returns:
  "\<exists>r. sapcompress_run data n = Some r \<and> sapcompress_decompress data n = r \<and>
     (case r of Inl e \<Rightarrow> e = DecompressError | Inr out \<Rightarrow> length out = n \<and> n = le_val (take 4 data))"
proof -
  obtain r where r: "lzc_decompress data True = Some r" using lzc_decompress_returns by blast
  have h: "uncomp_len hdr = le_val (take 4 data)" if "parse_header data = Inr hdr" for hdr
    using that by (auto simp: parse_header_def split: if_splits)
  show ?thesis
    using h by (auto simp: sapcompress_decompress_def sapcompress_run_def as_decompress_error_def r split: sum.splits)
qed

lemma lzc_table_read:
  assumes "length data < 2 ^ 32" and "9 \<le> limit" and "limit \<le> 16" and "mode \<in> {0, 1}"
  shows "\<exists>z. compress_lzc data limit mode = Inr z \<and>
    sapcompress_decompress z (length data) = Inr data \<and>
    (\<forall>wrapper chunks. length wrapper = 8 \<and> concat chunks = wrapper @ z \<longrightarrow>
       decompress_table_stream sapcompress_decompress chunks = Inr data)"
proof -
  obtain z where z: "compress_lzc data limit mode = Inr z" "lzc_decompress z True = Some (Inr data)"
    using lzc_round_trip [OF assms] by blast
  obtain h where h: "lzc_header (length data) limit mode = Inr h" "length h = 8"
    "\<And>rest. parse_header (h @ rest) =
      Inr \<lparr>uncomp_len = length data, algo_id = HDR_ALG_LZC, hdr_version = 1, hdr_config = push_bit 7 mode OR limit\<rparr>"
    by (rule parse_lzc_header [OF assms]) blast
  obtain rest where zh: "z = h @ rest"
    using z(1) h(1) assms(2,3) by (auto simp: compress_lzc_def lzc_consts split: list.splits)
  have run: "sapcompress_decompress z (length data) = Inr data"
    using h(2) h(3) [of rest] z(2) unfolding zh
    by (simp add: sapcompress_decompress_def sapcompress_run_def HDR_SIZE_def as_decompress_error_def)
  have hm: "take 4 h = le_bytes 4 (length data)" "py_slice 5 7 h = HDR_MAGIC"
    using h(1) by (auto simp: lzc_header_def Let_def HDR_MAGIC_def py_slice_def take_append split: if_splits)
  have "decompress_table_stream sapcompress_decompress chunks = Inr data"
    if "length wrapper = 8" "concat chunks = wrapper @ z" for wrapper chunks
  proof -
    have s: "py_slice 13 15 (wrapper @ z) = SAPCOMPRESS_MAGIC" "take 4 z = le_bytes 4 (length data)"
      using that(1) h(2) hm by (simp_all add: zh py_slice_def SAPCOMPRESS_MAGIC_def HDR_MAGIC_def)
    then show ?thesis
      using that h(2) run assms(1)
      by (simp add: decompress_table_stream_def SAPCOMPRESS_HDR_def LZ_WRAPPER_def as_value_error_def)
  qed
  with z(1) run show ?thesis by blast
qed

text \<open>C27. What the LZC compressor writes is decompressed to the data it was given, for every width of codes
  and both block modes; and the response parser, given the block behind an eight-byte wrapper and cut into
  any chunks, reads the table out of it.\<close>

theorem sapcompress_round_trip:
  assumes "length data < 2 ^ 32" and "9 \<le> limit" and "limit \<le> 16" and "mode \<in> {0, 1}"
  shows "\<exists>z. compress_lzc data limit mode = Inr z \<and>
    sapcompress_decompress z (length data) = Inr data \<and>
    (\<forall>wrapper chunks. length wrapper = 8 \<and> concat chunks = wrapper @ z \<longrightarrow>
       decompress_table_stream sapcompress_decompress chunks = Inr data)"
  by (rule lzc_table_read [OF assms])

theorem sapcompress_round_trip_witness:
  "\<exists>z. compress_lzc (replicate 20 0x41) 9 1 = Inr z \<and> sapcompress_decompress z 20 = Inr (replicate 20 0x41)"
  using sapcompress_round_trip [of "replicate 20 0x41" 9 1] by auto

text \<open>C28. The LZH decompressor, which keeps a ring of 16384 bytes and copies a match in slices, writes exactly
  what the literals and matches of its stream mean when each match is copied byte by byte from the
  output, and fails where they cannot be read.  Lengths and distances stay within their bounds.\<close>

theorem lzh_is_lz77:
  "lzh_decompress data =
     bind_res (read_lzh_head (new_reader data)) (\<lambda>r.
     map_res (\<lambda>ts. drop LZH_WINDOW_SIZE (foldl lz_write (replicate LZH_WINDOW_SIZE 0) ts)) (stream_tokens r)) \<and>
   (\<forall>r. case stream_tokens r of Inl e \<Rightarrow> True | Inr ts \<Rightarrow> list_all token_ok ts)"
  using lzh_decompress_tokens [of data] stream_tokens_ok by (auto simp: zeros_def split: sum.splits)

text \<open>A block that encodes a list of sequences of literals and matches decompresses to what they mean,
  overlapping matches included; behind the header of a frame it does so too, whatever follows the frame,
  and a frame that announces another length is refused.\<close>

lemma lz4_frame_round_trip:
  assumes "lz4_seqs_ok [] seqs" and "length (foldl lz4_seq_write [] seqs @ lits) < 2 ^ 32"
    and "length (lz4_block seqs lits) < 2 ^ 32"
  shows "lz4_block_decompress (lz4_block seqs lits) = Inr (foldl lz4_seq_write [] seqs @ lits) \<and>
    sap_lz4_frame_decompress (lz4_frame (length (foldl lz4_seq_write [] seqs @ lits)) (lz4_block seqs lits) @ junk)
      = Inr (foldl lz4_seq_write [] seqs @ lits) \<and>
    (\<forall>n < 2 ^ 32. n \<noteq> length (foldl lz4_seq_write [] seqs @ lits) \<longrightarrow>
       sap_lz4_frame_decompress (lz4_frame n (lz4_block seqs lits) @ junk) = Inl DecompressError)"
  using sap_lz4_frame_block [OF _ assms(3), of _ junk] assms(2) lz4_block_decompress_block [OF assms(1)] by auto

end
