(* ===== verification/Rfc_Metadata.thy ===== *)
theory Rfc_Metadata
  imports Sap_Compress Codec_Layout Reassembly
begin

text \<open>
  Function metadata: \<^verbatim>\<open>src/saprfclib/metadata.py\<close> and the readers of metadata replies in
  \<^verbatim>\<open>src/saprfclib/connection.py\<close>.

  A reply holds a fixed-width table, as one record for each row or as one compressed stream.  Its rows
  describe the parameters of a function (PARAMS) or the fields of a structure (DFIES, in two layouts)
  and become field, type and function descriptors, which a cache keeps by system and function name.
  A row whose text does not decode, or whose type is unknown, is skipped.
\<close>

section \<open>Type codes\<close>

definition RFCTYPE_INT8 :: nat where "RFCTYPE_INT8 = 31"
definition RFCTYPE_UTCLONG :: nat where "RFCTYPE_UTCLONG = 32"

definition DATATYPE_TO_RFCTYPE :: "(pystr \<times> nat) list" where
  "DATATYPE_TO_RFCTYPE =
     [(lit ''CHAR'', RFCTYPE_CHAR), (lit ''CLNT'', RFCTYPE_CHAR), (lit ''LANG'', RFCTYPE_CHAR),
      (lit ''CUKY'', RFCTYPE_CHAR), (lit ''UNIT'', RFCTYPE_CHAR), (lit ''LCHR'', RFCTYPE_CHAR),
      (lit ''NUMC'', RFCTYPE_NUM), (lit ''ACCP'', RFCTYPE_NUM), (lit ''DATS'', RFCTYPE_DATE),
      (lit ''TIMS'', RFCTYPE_TIME), (lit ''DEC'', RFCTYPE_BCD), (lit ''CURR'', RFCTYPE_BCD),
      (lit ''QUAN'', RFCTYPE_BCD), (lit ''INT1'', RFCTYPE_INT1), (lit ''INT2'', RFCTYPE_INT2),
      (lit ''INT4'', RFCTYPE_INT), (lit ''INT8'', RFCTYPE_INT8), (lit ''FLTP'', RFCTYPE_FLOAT),
      (lit ''RAW'', RFCTYPE_BYTE), (lit ''LRAW'', RFCTYPE_BYTE), (lit ''PREC'', RFCTYPE_BYTE),
      (lit ''STRG'', RFCTYPE_STRING), (lit ''SSTR'', RFCTYPE_STRING), (lit ''RSTR'', RFCTYPE_XSTRING),
      (lit ''D16D'', RFCTYPE_DECF16), (lit ''D16R'', RFCTYPE_DECF16), (lit ''D16N'', RFCTYPE_DECF16),
      (lit ''D34D'', RFCTYPE_DECF34), (lit ''D34R'', RFCTYPE_DECF34), (lit ''D34N'', RFCTYPE_DECF34),
      (lit ''UTCL'', RFCTYPE_UTCLONG), (lit ''STRU'', RFCTYPE_STRUCTURE), (lit ''TTYP'', RFCTYPE_TABLE)]"

definition DOUBLED_DATATYPES :: "pystr list" where
  "DOUBLED_DATATYPES =
     [lit ''CHAR'', lit ''CLNT'', lit ''LANG'', lit ''CUKY'', lit ''UNIT'', lit ''LCHR'', lit ''NUMC'',
      lit ''ACCP'', lit ''DATS'', lit ''TIMS'']"

definition EXID_TO_RFCTYPE :: "(pystr \<times> nat) list" where
  "EXID_TO_RFCTYPE =
     [(lit ''C'', RFCTYPE_CHAR), (lit ''D'', RFCTYPE_DATE), (lit ''P'', RFCTYPE_BCD), (lit ''T'', RFCTYPE_TIME),
      (lit ''X'', RFCTYPE_BYTE), (lit ''h'', RFCTYPE_TABLE), (lit ''N'', RFCTYPE_NUM), (lit ''F'', RFCTYPE_FLOAT),
      (lit ''I'', RFCTYPE_INT), (lit ''s'', RFCTYPE_INT2), (lit ''b'', RFCTYPE_INT1), (lit ''u'', RFCTYPE_STRUCTURE),
      (lit ''a'', RFCTYPE_DECF16), (lit ''v'', RFCTYPE_DECF16), (lit ''e'', RFCTYPE_DECF34),
      (lit ''g'', RFCTYPE_STRING), (lit ''y'', RFCTYPE_XSTRING), (lit ''8'', RFCTYPE_INT8)]"

definition PARAMCLASS_TO_DIRECTION :: "(pystr \<times> nat) list" where
  "PARAMCLASS_TO_DIRECTION =
     [(lit ''I'', RFC_IMPORT), (lit ''E'', RFC_EXPORT), (lit ''C'', RFC_CHANGING), (lit ''T'', RFC_TABLES)]"

definition CHAR_LIKE_TYPES :: "nat list" where
  "CHAR_LIKE_TYPES = [RFCTYPE_CHAR, RFCTYPE_DATE, RFCTYPE_TIME, RFCTYPE_NUM, RFCTYPE_STRING]"

definition CHAR_LIKE_EXID :: "pystr list" where
  "CHAR_LIKE_EXID = [lit ''C'', lit ''D'', lit ''T'', lit ''N'', lit ''g'']"

definition MAX_RECURSION_DEPTH :: nat where "MAX_RECURSION_DEPTH = 32"
definition MAX_ROWS :: nat where "MAX_ROWS = 10000"

section \<open>The rows of a reply\<close>

record row_collection =
  rc_size :: nat
  rc_count :: nat
  rc_rows :: "bytes list"
  rc_chunks :: "bytes list"

definition collect_row :: "nat \<Rightarrow> bytes \<Rightarrow> row_collection \<Rightarrow> row_collection" where
  "collect_row tag v c =
     (if tag = 0x0302 \<and> length v = 8 then c\<lparr>rc_size := be_val (take 4 v), rc_count := be_val (drop 4 v)\<rparr>
      else if tag = 0x0303 \<or> tag = 0x0304 then c\<lparr>rc_rows := rc_rows c @ [v]\<rparr>
      else if tag = 0x0305 then c\<lparr>rc_chunks := rc_chunks c @ [v]\<rparr>
      else c)"

function collect_rows :: "bytes \<Rightarrow> row_collection \<Rightarrow> row_collection" where
  "collect_rows d c =
     (case tlv_step d of T_Record t h v rest \<Rightarrow> collect_rows rest (collect_row t v c) | _ \<Rightarrow> c)"
  by pat_completeness auto
termination
  by (relation "measure (\<lambda>(d, c). length d)") (auto dest: tlv_step_decreases)

declare collect_rows.simps [simp del]

definition no_rows :: row_collection where
  "no_rows = \<lparr>rc_size = 0, rc_count = 0, rc_rows = [], rc_chunks = []\<rparr>"

definition row_stride :: "row_collection \<Rightarrow> bytes \<Rightarrow> nat option" where
  "row_stride c blob =
     (if 0 < rc_count c \<and> length blob mod rc_count c = 0 then Some (length blob div rc_count c)
      else if 0 < rc_size c then Some (rc_size c) else None)"

definition table_row_buffers :: "sap_decompressor \<Rightarrow> bytes \<Rightarrow> bytes list res" where
  "table_row_buffers sapdec response =
     (let c = collect_rows response no_rows in
      if rc_chunks c \<noteq> [] then
        (case decompress_table_stream sapdec (rc_chunks c) of
           Inl e \<Rightarrow> if isinstance e C_ValueError then Inr [] else Inl e
         | Inr blob \<Rightarrow>
             (case row_stride c blob of
                None \<Rightarrow> Inr []
              | Some stride \<Rightarrow>
                  if stride = 0 then Inl ValueError
                  else Inr (map (\<lambda>i. py_slice (i * stride) ((i + 1) * stride) blob) [0..<length blob div stride])))
      else Inr (filter (\<lambda>r. r \<noteq> []) (rc_rows c)))"

section \<open>PARAMS rows\<close>

record params_row =
  pr_class :: pystr
  pr_parameter :: pystr
  pr_tabname :: pystr
  pr_fieldname :: pystr
  pr_exid :: pystr
  pr_position :: nat
  pr_offset :: nat
  pr_intlength :: nat
  pr_decimals :: nat
  pr_default :: pystr
  pr_text :: pystr
  pr_optional :: pystr

definition rstrip_pad :: "pystr \<Rightarrow> pystr" where
  "rstrip_pad = rstrip_by (\<lambda>c. c = 32 \<or> c = 0)"

definition take_u16 :: "nat \<Rightarrow> bytes \<Rightarrow> (pystr \<times> bytes) res" where
  "take_u16 count d =
     (case utf16le_decode (take (count * 2) d) of
        None \<Rightarrow> Inl UnicodeError
      | Some s \<Rightarrow> Inr (rstrip_pad s, drop (count * 2) d))"

definition take_i4 :: "bytes \<Rightarrow> (nat \<times> bytes) res" where
  "take_i4 d = (if length d < 4 then Inl StructError else Inr (le_val (take 4 d), drop 4 d))"

definition read_params_row :: "bytes \<Rightarrow> params_row res" where
  "read_params_row d0 =
     bind_res (take_u16 1 d0) (\<lambda>(cls, d1).
     bind_res (take_u16 30 d1) (\<lambda>(parameter, d2).
     bind_res (take_u16 30 d2) (\<lambda>(tabname, d3).
     bind_res (take_u16 30 d3) (\<lambda>(fieldname, d4).
     bind_res (take_u16 1 d4) (\<lambda>(exid, d5).
     bind_res (take_i4 d5) (\<lambda>(position, d6).
     bind_res (take_i4 d6) (\<lambda>(offset, d7).
     bind_res (take_i4 d7) (\<lambda>(intlen, d8).
     bind_res (take_i4 d8) (\<lambda>(decs, d9).
     bind_res (take_u16 21 d9) (\<lambda>(deflt, d10).
     bind_res (take_u16 79 d10) (\<lambda>(descr, d11).
     map_res (\<lambda>(opt, d12).
       \<lparr>pr_class = cls, pr_parameter = parameter, pr_tabname = tabname, pr_fieldname = fieldname,
        pr_exid = exid, pr_position = position, pr_offset = offset, pr_intlength = intlen,
        pr_decimals = decs, pr_default = deflt, pr_text = descr, pr_optional = opt\<rparr>)
       (take_u16 1 d11))))))))))))"

text \<open>On a connection that is not Unicode the widths count characters.\<close>

definition widen_row :: "bool \<Rightarrow> params_row \<Rightarrow> params_row" where
  "widen_row unicode r =
     (if pr_exid r \<in> set CHAR_LIKE_EXID \<and> \<not> unicode
      then r\<lparr>pr_intlength := pr_intlength r * 2, pr_offset := pr_offset r * 2\<rparr> else r)"

definition good_results :: "'a res list \<Rightarrow> 'a list" where
  "good_results rs = List.map_filter (\<lambda>r. case r of Inl e \<Rightarrow> None | Inr x \<Rightarrow> Some x) rs"

definition parse_gfi_params_rows :: "sap_decompressor \<Rightarrow> bool \<Rightarrow> bytes \<Rightarrow> params_row list res" where
  "parse_gfi_params_rows sapdec unicode response =
     map_res (\<lambda>bufs. map (widen_row unicode) (good_results (map read_params_row bufs)))
       (table_row_buffers sapdec (strip_gw_header response))"

section \<open>Parameters\<close>

definition text_or_none :: "pystr \<Rightarrow> pystr option" where
  "text_or_none s = (let t = py_strip s in if t = [] then None else Some t)"

definition is_exception_row :: "(nat \<Rightarrow> pystr) \<Rightarrow> params_row \<Rightarrow> bool" where
  "is_exception_row uc r \<longleftrightarrow> py_upper uc (py_strip (pr_class r)) = lit ''X''"

definition parse_params_row :: "(nat \<Rightarrow> pystr) \<Rightarrow> params_row \<Rightarrow> field_desc res" where
  "parse_params_row uc r =
     (if pr_parameter r = [] then Inl ValueError
      else case map_of EXID_TO_RFCTYPE (pr_exid r) of
        None \<Rightarrow> Inl ValueError
      | Some t0 \<Rightarrow>
          (case map_of PARAMCLASS_TO_DIRECTION (pr_class r) of
             None \<Rightarrow> Inl ValueError
           | Some dir \<Rightarrow>
               let t = (if dir = RFC_TABLES then RFCTYPE_TABLE else t0);
                   halve = (\<lambda>n. if t \<in> set CHAR_LIKE_TYPES then n div 2 else n)
               in Inr (FieldDesc (pr_parameter r) t (halve (pr_intlength r)) (halve (pr_offset r))
                    (pr_intlength r) (pr_offset r) (int (pr_decimals r)) True None dir
                    (py_upper uc (py_strip (pr_optional r)) = lit ''X'')
                    (text_or_none (pr_default r)) (text_or_none (pr_text r)))))"

fun with_type :: "type_desc \<Rightarrow> field_desc \<Rightarrow> field_desc" where
  "with_type td (FieldDesc n r nl no ul uo d m _ dir opt dv pt) =
     FieldDesc n r nl no ul uo d m (Some td) dir opt dv pt"

text \<open>Rows with the rows nested below them.\<close>

datatype row_node = RowNode params_row "row_node list"

function (sequential)
  build_type_desc :: "(nat \<Rightarrow> pystr) \<Rightarrow> pystr \<Rightarrow> row_node list \<Rightarrow> nat \<Rightarrow> type_desc res"
and build_fields :: "(nat \<Rightarrow> pystr) \<Rightarrow> row_node list \<Rightarrow> nat \<Rightarrow> field_desc list res"
where
  "build_type_desc uc name nodes depth =
     (if depth > MAX_RECURSION_DEPTH then Inl ValueError
      else if length nodes > MAX_ROWS then Inl ValueError
      else map_res (\<lambda>fs. TypeDesc name fs (sum_list (map nuc_length fs)) (sum_list (map uc_length fs)))
             (build_fields uc nodes depth))"
| "build_fields uc [] depth = Inr []"
| "build_fields uc (RowNode r children # nodes) depth =
     bind_res (parse_params_row uc r) (\<lambda>f.
     bind_res
       (if rfctype f \<in> {RFCTYPE_STRUCTURE, RFCTYPE_TABLE}
        then map_res (\<lambda>td. with_type td f) (build_type_desc uc (fd_name f) children (depth + 1))
        else Inr f)
       (\<lambda>f'. map_res ((#) f') (build_fields uc nodes depth)))"
  by pat_completeness auto
termination
  by (relation "inv_image (less_than <*lex*> less_than)
    (\<lambda>x. case x of Inl (u, n, ns, d) \<Rightarrow> (size_list size ns, 1) | Inr (u, ns, d) \<Rightarrow> (size_list size ns, 0 :: nat))") auto

section \<open>Structure definitions\<close>

record dfies_row =
  df_name :: pystr
  df_position :: nat
  df_offset :: nat
  df_intlen :: nat
  df_decimals :: nat
  df_exid :: pystr

definition text_at :: "nat \<Rightarrow> nat \<Rightarrow> bytes \<Rightarrow> pystr res" where
  "text_at a b d = (case utf16le_decode (py_slice a b d) of None \<Rightarrow> Inl UnicodeError | Some s \<Rightarrow> Inr s)"

definition u16_at :: "nat \<Rightarrow> bytes \<Rightarrow> nat res" where
  "u16_at a d = (if length d < a + 2 then Inl StructError else Inr (le_val (py_slice a (a + 2) d)))"

definition read_dfies_row :: "bytes \<Rightarrow> dfies_row res" where
  "read_dfies_row d =
     bind_res (text_at 60 120 d) (\<lambda>fieldname.
     bind_res (u16_at 120 d) (\<lambda>position.
     bind_res (u16_at 124 d) (\<lambda>offset.
     bind_res (u16_at 128 d) (\<lambda>intlen.
     bind_res (u16_at 132 d) (\<lambda>decs.
     map_res (\<lambda>exid. \<lparr>df_name = rstrip_pad fieldname, df_position = position, df_offset = offset,
         df_intlen = intlen, df_decimals = decs, df_exid = rstrip_pad exid\<rparr>) (text_at 136 138 d))))))"

definition dfies_known :: "dfies_row \<Rightarrow> bool" where
  "dfies_known r \<longleftrightarrow> df_name r \<noteq> [] \<and> map_of EXID_TO_RFCTYPE (df_exid r) \<noteq> None"

definition parse_dfies_rows :: "sap_decompressor \<Rightarrow> bytes \<Rightarrow> dfies_row list res" where
  "parse_dfies_rows sapdec response =
     map_res (\<lambda>bufs. filter dfies_known (good_results (map read_dfies_row bufs)))
       (table_row_buffers sapdec (strip_gw_header response))"

definition dfies_field :: "dfies_row \<Rightarrow> field_desc" where
  "dfies_field r =
     (let t = the (map_of EXID_TO_RFCTYPE (df_exid r));
          halve = (\<lambda>n. if t \<in> set CHAR_LIKE_TYPES then n div 2 else n)
      in FieldDesc (df_name r) t (halve (df_intlen r)) (halve (df_offset r)) (df_intlen r) (df_offset r)
           (int (df_decimals r)) True None RFC_IMPORT False None None)"

definition build_type_desc_from_dfies :: "pystr \<Rightarrow> dfies_row list \<Rightarrow> type_desc res" where
  "build_type_desc_from_dfies tabname rows =
     (if rows = [] then Inl ValueError
      else
        let fs = map dfies_field (sort_key df_position rows)
        in Inr (TypeDesc tabname fs (sum_list (map nuc_length fs))
             (fold max (map (\<lambda>f. uc_offset f + uc_length f) fs) 0)))"

section \<open>Field information\<close>

text \<open>The records of one named table, up to the next table.\<close>

definition names_table :: "pystr \<Rightarrow> bytes \<Rightarrow> bool" where
  "names_table name v =
     (case utf16le_decode v of None \<Rightarrow> False | Some s \<Rightarrow> rstrip_pad s = name)"

function table_segment :: "pystr \<Rightarrow> bytes \<Rightarrow> bytes option \<Rightarrow> bytes" where
  "table_segment name d start =
     (case tlv_step d of
        T_Record t h v rest \<Rightarrow>
          if t = 0x0301 \<and> names_table name v then table_segment name rest (Some rest)
          else
            (case start of
               Some s \<Rightarrow> if t = 0x0301 then take (length s - length d) s else table_segment name rest start
             | None \<Rightarrow> table_segment name rest start)
      | _ \<Rightarrow> (case start of Some s \<Rightarrow> s | None \<Rightarrow> []))"
  by pat_completeness auto
termination
  by (relation "measure (\<lambda>(n, d, s). length d)") (auto dest: tlv_step_decreases)

declare table_segment.simps [simp del]

definition slice_named_table :: "bytes \<Rightarrow> pystr \<Rightarrow> bytes" where
  "slice_named_table response name = table_segment name response None"

record ddif_row =
  dd_name :: pystr
  dd_position :: int
  dd_offset :: int
  dd_leng :: int
  dd_intlen :: int
  dd_decimals :: int
  dd_datatype :: pystr

definition number_at :: "nat \<Rightarrow> nat \<Rightarrow> bytes \<Rightarrow> int res" where
  "number_at a b d =
     bind_res (text_at a b d) (\<lambda>s.
       let t = py_strip s in
       if t = [] then Inr 0 else case py_int t of None \<Rightarrow> Inl ValueError | Some n \<Rightarrow> Inr n)"

definition DDIF_MIN_ROW :: nat where "DDIF_MIN_ROW = 380"

definition read_ddif_row :: "bytes \<Rightarrow> ddif_row res" where
  "read_ddif_row d =
     (if length d < DDIF_MIN_ROW then Inl ValueError
      else
        bind_res (text_at 60 120 d) (\<lambda>fieldname.
        bind_res (number_at 122 130 d) (\<lambda>position.
        bind_res (number_at 130 142 d) (\<lambda>offset.
        bind_res (number_at 322 334 d) (\<lambda>leng.
        bind_res (number_at 334 346 d) (\<lambda>intlen.
        bind_res (number_at 358 370 d) (\<lambda>decs.
        map_res (\<lambda>datatype. \<lparr>dd_name = rstrip_pad fieldname, dd_position = position, dd_offset = offset,
            dd_leng = leng, dd_intlen = intlen, dd_decimals = decs, dd_datatype = rstrip_pad datatype\<rparr>)
          (text_at 370 378 d))))))))"

definition ddif_known :: "ddif_row \<Rightarrow> bool" where
  "ddif_known r \<longleftrightarrow> dd_name r \<noteq> [] \<and> map_of DATATYPE_TO_RFCTYPE (dd_datatype r) \<noteq> None"

definition DFIES_TAB :: pystr where "DFIES_TAB = lit ''DFIES_TAB''"

definition parse_ddif_dfies_rows :: "sap_decompressor \<Rightarrow> bytes \<Rightarrow> ddif_row list res" where
  "parse_ddif_dfies_rows sapdec response =
     map_res (\<lambda>bufs. filter ddif_known (good_results (map read_ddif_row bufs)))
       (table_row_buffers sapdec (slice_named_table (strip_gw_header response) DFIES_TAB))"

definition doubled :: "ddif_row \<Rightarrow> bool" where
  "doubled r \<longleftrightarrow> dd_datatype r \<in> set DOUBLED_DATATYPES"

definition unicode_reply :: "ddif_row list \<Rightarrow> bool" where
  "unicode_reply rows =
     (case filter (\<lambda>r. doubled r \<and> 0 < dd_leng r) rows of
        [] \<Rightarrow> True | r # _ \<Rightarrow> dd_intlen r = dd_leng r * 2)"

definition ddif_nuc_len :: "ddif_row \<Rightarrow> int" where
  "ddif_nuc_len r = (if doubled r then dd_leng r else dd_intlen r)"

definition ddif_uc_len :: "ddif_row \<Rightarrow> int" where
  "ddif_uc_len r = (if doubled r then dd_leng r * 2 else dd_intlen r)"

text \<open>The layout is made of whole numbers, as the columns were read: a negative width or offset stays one.\<close>

record ddif_place =
  dp_name :: pystr
  dp_rfctype :: nat
  dp_nuc_length :: int
  dp_nuc_offset :: int
  dp_uc_length :: int
  dp_uc_offset :: int
  dp_decimals :: int

record ddif_layout =
  dl_name :: pystr
  dl_fields :: "ddif_place list"
  dl_nuc_size :: int
  dl_uc_size :: int

fun ddif_fields :: "bool \<Rightarrow> ddif_row list \<Rightarrow> int \<Rightarrow> int \<Rightarrow> ddif_place list" where
  "ddif_fields unicode [] packed_nuc packed_uc = []"
| "ddif_fields unicode (r # rs) packed_nuc packed_uc =
     \<lparr>dp_name = dd_name r, dp_rfctype = the (map_of DATATYPE_TO_RFCTYPE (dd_datatype r)),
      dp_nuc_length = ddif_nuc_len r, dp_nuc_offset = packed_nuc, dp_uc_length = ddif_uc_len r,
      dp_uc_offset = (if unicode then dd_offset r else packed_uc), dp_decimals = dd_decimals r\<rparr>
     # ddif_fields unicode rs (packed_nuc + ddif_nuc_len r) (packed_uc + ddif_uc_len r)"

definition build_type_desc_from_ddif :: "pystr \<Rightarrow> ddif_row list \<Rightarrow> ddif_layout res" where
  "build_type_desc_from_ddif tabname ddif_rows =
     (if ddif_rows = [] then Inl ValueError
      else
        let rs = sort_key dd_position ddif_rows; u = unicode_reply rs; fs = ddif_fields u rs 0 0
        in Inr \<lparr>dl_name = tabname, dl_fields = fs, dl_nuc_size = sum_list (map dp_nuc_length fs),
             dl_uc_size = (if u then fold max (map (\<lambda>p. dp_uc_offset p + dp_uc_length p) fs) 0
                           else sum_list (map dp_uc_length fs))\<rparr>)"

text \<open>A layout without negative numbers is a descriptor of the codec.\<close>

definition layout_natural :: "ddif_layout \<Rightarrow> bool" where
  "layout_natural l \<longleftrightarrow>
     (\<forall>p \<in> set (dl_fields l). 0 \<le> dp_nuc_length p \<and> 0 \<le> dp_nuc_offset p \<and> 0 \<le> dp_uc_length p \<and> 0 \<le> dp_uc_offset p)
     \<and> 0 \<le> dl_nuc_size l \<and> 0 \<le> dl_uc_size l"

definition natural_field :: "ddif_place \<Rightarrow> field_desc" where
  "natural_field p =
     FieldDesc (dp_name p) (dp_rfctype p) (nat (dp_nuc_length p)) (nat (dp_nuc_offset p))
       (nat (dp_uc_length p)) (nat (dp_uc_offset p)) (dp_decimals p) True None RFC_IMPORT False None None"

definition natural_desc :: "ddif_layout \<Rightarrow> type_desc" where
  "natural_desc l =
     TypeDesc (dl_name l) (map natural_field (dl_fields l)) (nat (dl_nuc_size l)) (nat (dl_uc_size l))"

section \<open>The cache\<close>

type_synonym meta_cache = "pystr \<rightharpoonup> (pystr \<rightharpoonup> func_desc)"

definition cache_get :: "(nat \<Rightarrow> pystr) \<Rightarrow> meta_cache \<Rightarrow> pystr \<Rightarrow> pystr \<Rightarrow> func_desc option" where
  "cache_get uc c sys name = Option.bind (c sys) (\<lambda>m. m (py_upper uc name))"

definition cache_put :: "(nat \<Rightarrow> pystr) \<Rightarrow> pystr \<Rightarrow> func_desc \<Rightarrow> meta_cache \<Rightarrow> meta_cache" where
  "cache_put uc sys desc c =
     c(sys \<mapsto> (case c sys of None \<Rightarrow> Map.empty | Some m \<Rightarrow> m)(py_upper uc (fn_name desc) \<mapsto> desc))"

definition get_or_fetch ::
    "(nat \<Rightarrow> pystr) \<Rightarrow> (pystr \<Rightarrow> ('s, func_desc) act) \<Rightarrow> pystr \<Rightarrow> pystr \<Rightarrow> meta_cache \<Rightarrow> 's
      \<Rightarrow> func_desc res \<times> meta_cache \<times> 's" where
  "get_or_fetch uc fetch sys name c s =
     (case cache_get uc c sys name of
        Some d \<Rightarrow> (Inr d, c, s)
      | None \<Rightarrow>
          (case fetch name s of
             (Inl e, s') \<Rightarrow> (Inl e, c, s')
           | (Inr d, s') \<Rightarrow> (Inr d, cache_put uc sys d c, s')))"

section \<open>Both shapes of a table\<close>

lemma collect_written:
  assumes "\<forall>r \<in> set rs. ok_record r"
  shows "collect_rows (tlv_records rs @ tlv_end @ x # y # rest) c = fold (\<lambda>(t, v). collect_row t v) rs c"
  using assms
proof (induction rs arbitrary: c)
  case Nil
  then show ?case using tlv_step_terminator [of x y rest] by (simp add: collect_rows.simps)
next
  case (Cons r rs)
  obtain t v where r: "r = (t, v)" by (cases r)
  have "collect_rows (tlv_record_body t v @ tlv_records rs @ tlv_end @ x # y # rest) c =
      collect_rows (tlv_records rs @ tlv_end @ x # y # rest) (collect_row t v c)"
    using tlv_step_record [of t v] Cons.prems r by (subst collect_rows.simps) simp
  then show ?case using Cons by (simp add: r tlv_records_Cons)
qed

definition other_record :: "nat \<times> bytes \<Rightarrow> bool" where
  "other_record r \<longleftrightarrow> ok_record r \<and> fst r \<notin> {0x0302, 0x0303, 0x0304, 0x0305}"

lemma collect_others: "\<forall>r \<in> set rs. other_record r \<Longrightarrow> fold (\<lambda>(t, v). collect_row t v) rs c = c"
  by (induction rs arbitrary: c) (auto simp: other_record_def collect_row_def)

lemma collect_plain_rows:
  "fold (\<lambda>(t, v). collect_row t v) (map (Pair 0x0303) rows) c = c\<lparr>rc_rows := rc_rows c @ rows\<rparr>"
  by (induction rows arbitrary: c) (simp_all add: collect_row_def)

lemma collect_chunks:
  "fold (\<lambda>(t, v). collect_row t v) (map (Pair 0x0305) chunks) c = c\<lparr>rc_chunks := rc_chunks c @ chunks\<rparr>"
  by (induction chunks arbitrary: c) (simp_all add: collect_row_def)

text \<open>A table in a reply: its sz record, its rows or chunks, and other records around them.\<close>

definition table_reply :: "(nat \<times> bytes) list \<Rightarrow> nat \<Rightarrow> nat \<Rightarrow> nat \<Rightarrow> bytes list \<Rightarrow> (nat \<times> bytes) list \<Rightarrow> bytes" where
  "table_reply pre sz n tag parts post =
     tlv_records (pre @ (0x0302, be_bytes 4 sz @ be_bytes 4 n) # map (Pair tag) parts @ post)
     @ tlv_end @ [0, 0]"

lemma table_reply_plain:
  assumes "\<forall>r \<in> set (pre @ post). other_record r" and "\<forall>r \<in> set rows. r \<noteq> [] \<and> length r < 2 ^ 32"
  shows "table_row_buffers sapdec (table_reply pre sz n 0x0303 rows post) = Inr rows"
proof -
  have "\<forall>r \<in> set (pre @ (0x0302, be_bytes 4 sz @ be_bytes 4 n) # map (Pair 0x0303) rows @ post). ok_record r"
    using assms by (auto simp: other_record_def ok_record_def)
  from collect_written [OF this, of 0 0 "[]" no_rows]
  have "collect_rows (table_reply pre sz n 0x0303 rows post) no_rows =
      \<lparr>rc_size = sz mod 2 ^ 32, rc_count = n mod 2 ^ 32, rc_rows = rows, rc_chunks = []\<rparr>"
    using assms(1) by (simp add: table_reply_def collect_others collect_plain_rows collect_row_def no_rows_def)
  moreover have "filter (\<lambda>r. r \<noteq> []) rows = rows" using assms(2) by (simp add: filter_id_conv)
  ultimately show ?thesis by (simp add: table_row_buffers_def)
qed

lemma slices_of_rows:
  assumes "\<forall>r \<in> set rows. length r = w"
  shows "map (\<lambda>i. py_slice (i * w) ((i + 1) * w) (concat rows)) [0..<length rows] = rows"
  using assms
proof (induction rows rule: rev_induct)
  case (snoc r rows)
  have l: "length (concat rows) = length rows * w" using snoc.prems by (induction rows) auto
  have eq: "py_slice (i * w) ((i + 1) * w) (concat (rows @ [r])) = py_slice (i * w) ((i + 1) * w) (concat rows)"
    if "i \<in> set [0..<length rows]" for i
  proof -
    have "(i + 1) * w \<le> length rows * w" using that by (intro mult_le_mono1) simp
    then show ?thesis using l by (simp add: py_slice_def)
  qed
  have "map (\<lambda>i. py_slice (i * w) ((i + 1) * w) (concat (rows @ [r]))) [0..<length rows]
      = map (\<lambda>i. py_slice (i * w) ((i + 1) * w) (concat rows)) [0..<length rows]"
    by (rule map_cong [OF refl]) (rule eq)
  also have "\<dots> = rows" using snoc by simp
  finally have "map (\<lambda>i. py_slice (i * w) ((i + 1) * w) (concat (rows @ [r]))) [0..<length rows] = rows" .
  moreover have "py_slice (length rows * w) ((length rows + 1) * w) (concat (rows @ [r])) = r"
    using l snoc.prems by (simp add: py_slice_def)
  ultimately show ?case by simp
qed simp

lemma table_reply_compressed:
  assumes "\<forall>r \<in> set (pre @ post). other_record r" and "\<forall>c \<in> set chunks. length c < 2 ^ 32" and "chunks \<noteq> []"
    and "\<forall>r \<in> set rows. length r = w" and "0 < w" and "rows \<noteq> []" and "length rows < 2 ^ 32"
    and "decompress_table_stream sapdec chunks = Inr (concat rows)"
  shows "table_row_buffers sapdec (table_reply pre sz (length rows) 0x0305 chunks post) = Inr rows"
proof -
  have "\<forall>r \<in> set (pre @ (0x0302, be_bytes 4 sz @ be_bytes 4 (length rows)) # map (Pair 0x0305) chunks @ post). ok_record r"
    using assms by (auto simp: other_record_def ok_record_def)
  from collect_written [OF this, of 0 0 "[]" no_rows]
  have c: "collect_rows (table_reply pre sz (length rows) 0x0305 chunks post) no_rows =
      \<lparr>rc_size = sz mod 2 ^ 32, rc_count = length rows, rc_rows = [], rc_chunks = chunks\<rparr>"
    using assms(1,7) by (simp add: table_reply_def collect_others collect_chunks collect_row_def no_rows_def)
  have l: "length (concat rows) = length rows * w" using assms(4) by (induction rows) auto
  have "row_stride \<lparr>rc_size = sz mod 2 ^ 32, rc_count = length rows, rc_rows = [], rc_chunks = chunks\<rparr> (concat rows) = Some w"
    using assms(6) by (simp add: row_stride_def l)
  then show ?thesis
    using slices_of_rows [OF assms(4)] assms(3,5,8) l by (simp add: table_row_buffers_def c)
qed

lemma empty_compressed_table_raises:
  assumes "decompress_table_stream sapdec chunks = Inr []" and "chunks \<noteq> []" and "\<forall>c \<in> set chunks. length c < 2 ^ 32"
    and "0 < n" and "n < 2 ^ 32"
  shows "table_row_buffers sapdec (table_reply [] sz n 0x0305 chunks []) = Inl ValueError"
proof -
  have "\<forall>r \<in> set ((0x0302, be_bytes 4 sz @ be_bytes 4 n) # map (Pair 0x0305) chunks). ok_record r"
    using assms by (auto simp: ok_record_def)
  from collect_written [OF this, of 0 0 "[]" no_rows]
  have "collect_rows (table_reply [] sz n 0x0305 chunks []) no_rows =
      \<lparr>rc_size = sz mod 2 ^ 32, rc_count = n, rc_rows = [], rc_chunks = chunks\<rparr>"
    using assms(5) by (simp add: table_reply_def collect_chunks collect_row_def no_rows_def)
  then show ?thesis using assms by (simp add: table_row_buffers_def row_stride_def)
qed

section \<open>Rows as they are written\<close>

definition u16_field :: "nat \<Rightarrow> pystr \<Rightarrow> bytes" where
  "u16_field n s = concat (map (le_bytes 2) (ljust n 32 s))"

definition text_ok :: "nat \<Rightarrow> pystr \<Rightarrow> bool" where
  "text_ok n s \<longleftrightarrow> length s \<le> n \<and> is_bmp s \<and> (s = [] \<or> last s \<notin> {0, 32})"

lemma take_u16_field:
  assumes "text_ok n s" shows "take_u16 n (u16_field n s @ rest) = Inr (s, rest)"
proof -
  let ?t = "ljust n 32 s"
  have t: "is_bmp ?t" "length ?t = n" using assms is_bmp_padding [of s 32 n] by (simp_all add: text_ok_def)
  have "utf16le_encode ?t = Some (u16_field n s)"
    by (simp add: utf16le_encode_def utf16_units_bmp [OF t(1)] u16_field_def)
  then have "utf16le_decode (u16_field n s) = Some ?t" by (rule utf16le_roundtrip)
  moreover have "length (u16_field n s) = n * 2" using t(2) by (simp add: u16_field_def)
  moreover have "rstrip_pad ?t = s"
    using assms by (auto simp: rstrip_pad_def ljust_def text_ok_def rstrip_by_append_all rstrip_by_id)
  ultimately show ?thesis by (simp add: take_u16_def)
qed

lemma take_i4_field: "n < 2 ^ 32 \<Longrightarrow> take_i4 (le_bytes 4 n @ rest) = Inr (n, rest)"
  by (simp add: take_i4_def)

definition params_row_bytes :: "params_row \<Rightarrow> bytes" where
  "params_row_bytes r =
     u16_field 1 (pr_class r) @ u16_field 30 (pr_parameter r) @ u16_field 30 (pr_tabname r) @ u16_field 30 (pr_fieldname r)
     @ u16_field 1 (pr_exid r) @ le_bytes 4 (pr_position r) @ le_bytes 4 (pr_offset r) @ le_bytes 4 (pr_intlength r)
     @ le_bytes 4 (pr_decimals r) @ u16_field 21 (pr_default r) @ u16_field 79 (pr_text r) @ u16_field 1 (pr_optional r)"

definition params_row_ok :: "params_row \<Rightarrow> bool" where
  "params_row_ok r \<longleftrightarrow>
     text_ok 1 (pr_class r) \<and> text_ok 30 (pr_parameter r) \<and> text_ok 30 (pr_tabname r) \<and> text_ok 30 (pr_fieldname r) \<and>
     text_ok 1 (pr_exid r) \<and> pr_position r < 2 ^ 32 \<and> pr_offset r < 2 ^ 32 \<and> pr_intlength r < 2 ^ 32 \<and>
     pr_decimals r < 2 ^ 32 \<and> text_ok 21 (pr_default r) \<and> text_ok 79 (pr_text r) \<and> text_ok 1 (pr_optional r)"

lemma length_u16_field: "text_ok n s \<Longrightarrow> length (u16_field n s) = 2 * n"
  by (simp add: u16_field_def text_ok_def max_def)

lemma length_params_row: "params_row_ok r \<Longrightarrow> length (params_row_bytes r) = 402"
  by (simp add: params_row_ok_def params_row_bytes_def length_u16_field)

lemma read_params_row_bytes:
  assumes "params_row_ok r" shows "read_params_row (params_row_bytes r) = Inr r"
proof -
  have l: "take_u16 1 (u16_field 1 (pr_optional r)) = Inr (pr_optional r, [])"
    using take_u16_field [of 1 "pr_optional r" "[]"] assms by (simp add: params_row_ok_def)
  show ?thesis
    using assms unfolding params_row_ok_def params_row_bytes_def read_params_row_def
    by (simp add: take_u16_field take_i4_field l [unfolded One_nat_def])
qed

lemma good_results_Inr: "good_results (map f xs) = ys" if "\<And>x. x \<in> set xs \<Longrightarrow> f x = Inr (g x)" and "ys = map g xs"
  using that by (induction xs arbitrary: ys) (simp_all add: good_results_def List.map_filter_def)

text \<open>C17. The interface of a function is read from its metadata reply whichever of its two shapes the server
  chooses: rows written as one record each, or as one compressed stream cut into any chunks, give back
  exactly the rows, through the gateway frame and among other records.\<close>

theorem function_interface_read:
  assumes "\<forall>r \<in> set rows. params_row_ok r" and "rows \<noteq> []" and "length rows < 2 ^ 23"
    and "\<forall>r \<in> set (pre @ post). other_record r" and "ending hdr"
    and "compress_lzc (concat (map params_row_bytes rows)) limit mode = Inr z" and "mode \<in> {0, 1}"
    and "concat chunks = wrapper @ z" and "length wrapper = 8" and "\<forall>c \<in> set chunks. length c < 2 ^ 32"
  shows "parse_gfi_params_rows sapcompress_decompress True
      (gw_frame hdr (table_reply pre 402 (length rows) 0x0303 (map params_row_bytes rows) post)) = Inr rows \<and>
    parse_gfi_params_rows sapcompress_decompress True
      (gw_frame hdr (table_reply pre 402 (length rows) 0x0305 chunks post)) = Inr rows"
proof -
  let ?bs = "map params_row_bytes rows"
  have l: "\<forall>b \<in> set ?bs. length b = 402" using assms(1) by (auto simp: length_params_row)
  then have ne: "\<forall>b \<in> set ?bs. b \<noteq> [] \<and> length b < 2 ^ 32" by fastforce
  have rd: "map (widen_row True) (good_results (map read_params_row ?bs)) = rows"
    using assms(1) by (simp add: widen_row_def comp_def read_params_row_bytes good_results_Inr [where g = id] cong: map_cong)
  have "length (concat ?bs) = length rows * 402" using l by (induction rows) auto
  then have n: "length (concat ?bs) < 2 ^ 32" using assms(3) by simp
  have lim: "9 \<le> limit" "limit \<le> 16" using assms(6) by (auto simp: compress_lzc_def lzc_consts split: if_splits)
  from lzc_table_read [OF n lim assms(7)] assms(6,8,9)
  have "decompress_table_stream sapcompress_decompress chunks = Inr (concat ?bs)" by auto
  moreover have "chunks \<noteq> []" using assms(8,9) by auto
  ultimately have "table_row_buffers sapcompress_decompress (table_reply pre 402 (length ?bs) 0x0305 chunks post) = Inr ?bs"
    using assms(2,3) l by (intro table_reply_compressed [OF assms(4,10), of _ 402]) auto
  then show ?thesis
    using rd table_reply_plain [OF assms(4) ne] assms(5) by (simp add: parse_gfi_params_rows_def strip_gw_frame)
qed

definition demo_params_row :: params_row where
  "demo_params_row = \<lparr>pr_class = [73], pr_parameter = [65, 49], pr_tabname = [], pr_fieldname = [], pr_exid = [67],
     pr_position = 1, pr_offset = 0, pr_intlength = 60, pr_decimals = 0, pr_default = [], pr_text = [], pr_optional = [88]\<rparr>"

theorem function_interface_read_witness:
  "\<exists>z. compress_lzc (params_row_bytes demo_params_row) 13 1 = Inr z \<and>
    parse_gfi_params_rows sapcompress_decompress True
      (gw_frame (6 # replicate 79 0) (table_reply [] 402 1 0x0305 (map (\<lambda>b. [b]) (replicate 8 0 @ z)) []))
      = Inr [demo_params_row]"
proof -
  obtain z where z: "compress_lzc (params_row_bytes demo_params_row) 13 1 = Inr z"
    using lzc_table_read [of "params_row_bytes demo_params_row" 13 1] length_params_row [of demo_params_row]
    by (auto simp: demo_params_row_def params_row_ok_def text_ok_def is_bmp_def is_surrogate_def)
  have c: "concat (map (\<lambda>b. [b]) xs) = xs" for xs :: bytes by (induction xs) auto
  have ok: "params_row_ok demo_params_row"
    by (simp add: demo_params_row_def params_row_ok_def text_ok_def is_bmp_def is_surrogate_def)
  have "\<forall>c \<in> set (map (\<lambda>b. [b]) (replicate 8 0 @ z)). length c < 2 ^ 32" by auto
  from function_interface_read [of "[demo_params_row]" "[]" "[]" "6 # replicate 79 0" 13 1 z _ "replicate 8 0", OF _ _ _ _ _ _ _ c _ this]
  show ?thesis using z ok by (simp add: ending_def)
qed

section \<open>Layouts\<close>

fun placed :: "int \<Rightarrow> ddif_row list \<Rightarrow> bool" where
  "placed pos [] \<longleftrightarrow> True"
| "placed pos (r # rs) \<longleftrightarrow> pos \<le> dd_offset r \<and> placed (dd_offset r + ddif_uc_len r) rs"

lemma uc_len_sign: "0 \<le> ddif_uc_len r \<longleftrightarrow> 0 \<le> ddif_nuc_len r"
  by (simp add: ddif_uc_len_def ddif_nuc_len_def)

lemma natural_field_span [simp]:
  "field_span (with_mode u (natural_field p)) =
    (if u then (nat (dp_uc_offset p), nat (dp_uc_length p)) else (nat (dp_nuc_offset p), nat (dp_nuc_length p)))"
  by (simp add: natural_field_def field_span_def)

lemma fd_name_natural [simp]: "fd_name (natural_field p) = dp_name p"
  by (simp add: natural_field_def)

lemma ddif_field_names: "map dp_name (ddif_fields u rs pn pu) = map dd_name rs"
  by (induction rs arbitrary: pn pu) auto

lemma ddif_field_widths: "map (\<lambda>p. (dp_nuc_length p, dp_uc_length p)) (ddif_fields u rs pn pu)
    = map (\<lambda>r. (ddif_nuc_len r, ddif_uc_len r)) rs"
  by (induction rs arbitrary: pn pu) auto

lemma packed_nuc:
  assumes "\<forall>r \<in> set rs. 0 \<le> ddif_nuc_len r" and "0 \<le> pn"
  shows "0 \<le> sum_list (map dp_nuc_length (ddif_fields u rs pn pu)) \<and>
    layout_ok (nat pn) (map natural_field (ddif_fields u rs pn pu)) False
      (nat (pn + sum_list (map dp_nuc_length (ddif_fields u rs pn pu)))) \<and>
    (\<forall>p \<in> set (ddif_fields u rs pn pu). 0 \<le> dp_nuc_offset p)"
  using assms
proof (induction rs arbitrary: pn pu)
  case (Cons r rs)
  then show ?case
    using Cons.IH [of "pn + ddif_nuc_len r" "pu + ddif_uc_len r"] by (simp add: nat_add_distrib [symmetric] add.assoc)
qed simp

lemma packed_uc:
  assumes "\<forall>r \<in> set rs. 0 \<le> ddif_nuc_len r" and "0 \<le> pu"
  shows "0 \<le> sum_list (map dp_uc_length (ddif_fields False rs pn pu)) \<and>
    layout_ok (nat pu) (map natural_field (ddif_fields False rs pn pu)) True
      (nat (pu + sum_list (map dp_uc_length (ddif_fields False rs pn pu)))) \<and>
    (\<forall>p \<in> set (ddif_fields False rs pn pu). 0 \<le> dp_uc_offset p)"
  using assms
proof (induction rs arbitrary: pn pu)
  case (Cons r rs)
  then show ?case
    using Cons.IH [of "pu + ddif_uc_len r" "pn + ddif_nuc_len r"]
    by (simp add: nat_add_distrib [symmetric] add.assoc uc_len_sign)
qed simp

lemma placed_layout:
  "placed pos rs \<Longrightarrow> 0 \<le> pos \<Longrightarrow> pos \<le> sz \<Longrightarrow> \<forall>r \<in> set rs. 0 \<le> ddif_nuc_len r \<Longrightarrow>
     \<forall>p \<in> set (ddif_fields True rs pn pu). dp_uc_offset p + dp_uc_length p \<le> sz \<Longrightarrow>
     layout_ok (nat pos) (map natural_field (ddif_fields True rs pn pu)) True (nat sz)"
proof (induction rs arbitrary: pos pn pu)
  case (Cons r rs)
  then show ?case
    using Cons.IH [of "dd_offset r + ddif_uc_len r" "pn + ddif_nuc_len r" "pu + ddif_uc_len r"]
    by (simp add: nat_add_distrib [symmetric] uc_len_sign nat_mono)
qed simp

lemma unicode_offsets: "map dp_uc_offset (ddif_fields True rs pn pu) = map dd_offset rs"
  by (induction rs arbitrary: pn pu) auto

lemma fold_max_ge:
  fixes xs :: "int list" shows "a \<le> fold max xs a" "x \<in> set xs \<Longrightarrow> x \<le> fold max xs a"
proof (induction xs arbitrary: a)
  case (Cons y ys)
  { case 1 show ?case using Cons.IH(1) [of "max y a"] by simp }
  { case 2 show ?case using Cons.IH(1) [of "max y a"] Cons.IH(2) 2 by auto }
qed simp_all

lemma layout_built:
  assumes "build_type_desc_from_ddif tabname rows = Inr l"
  defines "rs \<equiv> sort_key dd_position rows"
  defines "fs \<equiv> ddif_fields (unicode_reply rs) rs 0 0"
  shows "dl_fields l = fs" "dl_nuc_size l = sum_list (map dp_nuc_length fs)"
    "dl_uc_size l = (if unicode_reply rs then fold max (map (\<lambda>p. dp_uc_offset p + dp_uc_length p) fs) 0
      else sum_list (map dp_uc_length fs))"
  using assms by (auto simp: build_type_desc_from_ddif_def Let_def split: if_splits)

text \<open>Which layouts hold no negative number.\<close>

lemma natural_layouts:
  assumes "build_type_desc_from_ddif tabname rows = Inr l"
  shows "layout_natural l \<longleftrightarrow>
    (\<forall>r \<in> set rows. 0 \<le> ddif_nuc_len r \<and> (unicode_reply (sort_key dd_position rows) \<longrightarrow> 0 \<le> dd_offset r))"
proof
  let ?rs = "sort_key dd_position rows"
  let ?fs = "ddif_fields (unicode_reply ?rs) ?rs 0 0"
  note l = layout_built [OF assms]
  assume n: "layout_natural l"
  have "map dp_nuc_length ?fs = map ddif_nuc_len ?rs"
    using arg_cong [OF ddif_field_widths [of "unicode_reply ?rs" ?rs 0 0], of "map fst"] by (simp add: comp_def)
  from arg_cong [OF this, of set] have "dp_nuc_length ` set ?fs = ddif_nuc_len ` set ?rs" by simp
  moreover have "dp_uc_offset ` set ?fs = dd_offset ` set ?rs" if "unicode_reply ?rs"
    using arg_cong [OF unicode_offsets [of ?rs 0 0], of set] that by simp
  moreover have "\<forall>x \<in> dp_nuc_length ` set ?fs. 0 \<le> x" "\<forall>x \<in> dp_uc_offset ` set ?fs. 0 \<le> x"
    using n unfolding layout_natural_def l by blast+
  ultimately have "\<forall>x \<in> ddif_nuc_len ` set ?rs. 0 \<le> x" "unicode_reply ?rs \<Longrightarrow> \<forall>x \<in> dd_offset ` set ?rs. 0 \<le> x"
    by metis+
  then show "\<forall>r \<in> set rows. 0 \<le> ddif_nuc_len r \<and> (unicode_reply ?rs \<longrightarrow> 0 \<le> dd_offset r)" by auto
next
  let ?rs = "sort_key dd_position rows"
  let ?u = "unicode_reply ?rs"
  let ?fs = "ddif_fields ?u ?rs 0 0"
  note l = layout_built [OF assms]
  assume "\<forall>r \<in> set rows. 0 \<le> ddif_nuc_len r \<and> (?u \<longrightarrow> 0 \<le> dd_offset r)"
  then have nn: "\<forall>r \<in> set ?rs. 0 \<le> ddif_nuc_len r" and off: "?u \<Longrightarrow> \<forall>r \<in> set ?rs. 0 \<le> dd_offset r" by auto
  have "\<forall>w \<in> set (map (\<lambda>p. (dp_nuc_length p, dp_uc_length p)) ?fs). 0 \<le> fst w \<and> 0 \<le> snd w"
    unfolding ddif_field_widths using nn by (auto simp: uc_len_sign)
  then have w: "\<forall>p \<in> set ?fs. 0 \<le> dp_nuc_length p \<and> 0 \<le> dp_uc_length p" by auto
  have o1: "\<forall>p \<in> set ?fs. 0 \<le> dp_uc_offset p"
  proof (cases ?u)
    case True
    have "map dp_uc_offset ?fs = map dd_offset ?rs" using True unicode_offsets [of ?rs 0 0] by simp
    from arg_cong [OF this, of set] have "dp_uc_offset ` set ?fs = dd_offset ` set ?rs" by simp
    moreover have "\<forall>x \<in> dd_offset ` set ?rs. 0 \<le> x" using off [OF True] by blast
    ultimately show ?thesis by (metis imageI)
  next
    case False
    then show ?thesis using packed_uc [OF nn, of 0 0] by simp
  qed
  show "layout_natural l"
    using w o1 packed_nuc [OF nn, of 0 ?u 0] packed_uc [OF nn, of 0 0] fold_max_ge(1) [of 0]
    by (simp add: layout_natural_def l)
qed

text \<open>C18. The layout of a structure built from field information.  The fields come in the order of their positions, with
  the widths of their rows.  The layout holds no negative number exactly if no row has a negative
  width and, when the server placed the fields, none a negative offset.  Then the descriptor made of it
  is sound: in the non-Unicode size the fields are packed without overlap; and in the Unicode size
  too, when the reply counts characters or when the offsets the server placed them at do not
  overlap.  Values that fit such a layout are encoded and come back (\<open>structured_value_roundtrip\<close>).\<close>

theorem structure_layouts_sound:
  assumes "build_type_desc_from_ddif tabname rows = Inr l"
  defines "sorted_rows \<equiv> sort_key dd_position rows"
  shows "map (\<lambda>p. (dp_name p, dp_nuc_length p, dp_uc_length p)) (dl_fields l)
      = map (\<lambda>r. (dd_name r, ddif_nuc_len r, ddif_uc_len r)) sorted_rows \<and>
    (layout_natural l \<longleftrightarrow>
      (\<forall>r \<in> set rows. 0 \<le> ddif_nuc_len r \<and> (unicode_reply sorted_rows \<longrightarrow> 0 \<le> dd_offset r))) \<and>
    (layout_natural l \<longrightarrow>
      layout_ok 0 (td_fields (natural_desc l)) False (row_size (natural_desc l) False) \<and>
      (\<not> unicode_reply sorted_rows \<or> placed 0 sorted_rows \<longrightarrow>
        layout_ok 0 (td_fields (natural_desc l)) True (row_size (natural_desc l) True)))"
proof (intro conjI impI)
  let ?u = "unicode_reply sorted_rows"
  let ?fs = "ddif_fields ?u sorted_rows 0 0"
  note l = layout_built [OF assms(1), folded sorted_rows_def]
  show "map (\<lambda>p. (dp_name p, dp_nuc_length p, dp_uc_length p)) (dl_fields l)
      = map (\<lambda>r. (dd_name r, ddif_nuc_len r, ddif_uc_len r)) sorted_rows"
    using ddif_field_names [of ?u sorted_rows 0 0] ddif_field_widths [of ?u sorted_rows 0 0]
    unfolding l by (simp add: list_eq_iff_nth_eq)
  show nat: "layout_natural l \<longleftrightarrow> (\<forall>r \<in> set rows. 0 \<le> ddif_nuc_len r \<and> (?u \<longrightarrow> 0 \<le> dd_offset r))"
    unfolding sorted_rows_def by (rule natural_layouts [OF assms(1)])
  assume "layout_natural l"
  then have nn: "\<forall>r \<in> set sorted_rows. 0 \<le> ddif_nuc_len r" by (simp add: nat sorted_rows_def)
  show "layout_ok 0 (td_fields (natural_desc l)) False (row_size (natural_desc l) False)"
    using packed_nuc [OF nn, of 0 ?u 0] by (simp add: natural_desc_def row_size_def l)
  assume c: "\<not> ?u \<or> placed 0 sorted_rows"
  show "layout_ok 0 (td_fields (natural_desc l)) True (row_size (natural_desc l) True)"
  proof (cases ?u)
    case True
    let ?ends = "map (\<lambda>p. dp_uc_offset p + dp_uc_length p) ?fs"
    have "\<forall>p \<in> set ?fs. dp_uc_offset p + dp_uc_length p \<le> fold max ?ends 0" by (auto intro!: fold_max_ge(2))
    then show ?thesis
      using True c nn placed_layout [of 0 sorted_rows "fold max ?ends 0" 0 0] fold_max_ge(1) [of 0 ?ends]
      by (simp add: natural_desc_def row_size_def l)
  next
    case False
    then show ?thesis using packed_uc [OF nn, of 0 0] by (simp add: natural_desc_def row_size_def l)
  qed
qed

definition demo_ddif :: "ddif_row list" where
  "demo_ddif =
     [\<lparr>dd_name = [66], dd_position = 2, dd_offset = 0, dd_leng = 10, dd_intlen = 4, dd_decimals = 0, dd_datatype = lit ''INT4''\<rparr>,
      \<lparr>dd_name = [65], dd_position = 1, dd_offset = 0, dd_leng = 3, dd_intlen = 3, dd_decimals = 0, dd_datatype = lit ''CHAR''\<rparr>]"

theorem structure_layouts_sound_witness:
  "\<exists>l. build_type_desc_from_ddif [84] demo_ddif = Inr l \<and> map dp_name (dl_fields l) = [[65], [66]] \<and>
     layout_natural l \<and> layout_ok 0 (td_fields (natural_desc l)) True (row_size (natural_desc l) True)"
proof -
  obtain l where l: "build_type_desc_from_ddif [84] demo_ddif = Inr l"
    by (simp add: build_type_desc_from_ddif_def demo_ddif_def Let_def)
  have s: "sort_key dd_position demo_ddif = rev demo_ddif" by (simp add: demo_ddif_def)
  have u: "\<not> unicode_reply (rev demo_ddif)"
    by (simp add: demo_ddif_def unicode_reply_def doubled_def DOUBLED_DATATYPES_def)
  note t = structure_layouts_sound [OF l, unfolded s]
  have n: "layout_natural l"
    using t u by (simp add: demo_ddif_def ddif_nuc_len_def)
  have "map (\<lambda>p. (dp_name p, dp_nuc_length p, dp_uc_length p)) (dl_fields l)
      = map (\<lambda>r. (dd_name r, ddif_nuc_len r, ddif_uc_len r)) (rev demo_ddif)" using t by blast
  from arg_cong [OF this, of "map fst"] have "map dp_name (dl_fields l) = [[65], [66]]"
    by (simp add: comp_def demo_ddif_def)
  moreover have "layout_ok 0 (td_fields (natural_desc l)) True (row_size (natural_desc l) True)"
    by (rule t [THEN conjunct2, THEN conjunct2, THEN mp, OF n, THEN conjunct2, THEN mp, OF disjI1 [OF u]])
  ultimately show ?thesis using l n by (intro exI [of _ l] conjI)
qed

text \<open>A negative width is accepted, and the next field is placed before it.\<close>

lemma negative_width_accepted:
  "\<exists>l p q. build_type_desc_from_ddif t
      [\<lparr>dd_name = [65], dd_position = 1, dd_offset = 0, dd_leng = 4, dd_intlen = - 4, dd_decimals = 0, dd_datatype = lit ''RAW''\<rparr>,
       \<lparr>dd_name = [66], dd_position = 2, dd_offset = 4, dd_leng = 4, dd_intlen = 4, dd_decimals = 0, dd_datatype = lit ''RAW''\<rparr>]
    = Inr l \<and> dl_fields l = [p, q] \<and> dp_nuc_length p = - 4 \<and> dp_nuc_offset q = - 4 \<and> \<not> layout_natural l"
  by (simp add: build_type_desc_from_ddif_def Let_def ddif_nuc_len_def doubled_def DOUBLED_DATATYPES_def
      layout_natural_def)

end
