(* ===== verification/Rfc_Calls.thy ===== *)
theory Rfc_Calls
  imports Rfc_Metadata Client_Session Gw_Frames
begin

text \<open>
  A call of a connection, \<^verbatim>\<open>AsyncConnection.call\<close> of \<^verbatim>\<open>src/saprfclib/connection.py\<close>, to which a classic
  connection delegates: fetching the descriptor of the function, with the layouts of its structures,
  filtering the parameters, the exchange itself, converting dates and times, and counting the call;
  and \<^verbatim>\<open>ping\<close>.

  The transport is a pair of operations on a state \<open>'n\<close>.  What the network did is kept when a step
  fails.  The lock, which keeps one call in flight, the log and cancellation are left out.
\<close>

section \<open>Dates and times\<close>

datatype call_value = PlainValue pyval | DateValue nat nat nat | TimeValue nat nat nat

text \<open>
  The patterns of \<^verbatim>\<open>strptime\<close>, alternatives in order, on ASCII digits.  A pattern gives the values it
  may read with what is left of the text; the first way to read all fields is taken, and nothing may
  be left.
\<close>

definition digit_num :: "nat \<Rightarrow> nat" where "digit_num c = c - 48"

fun one_digit :: "nat \<Rightarrow> nat \<Rightarrow> pystr \<Rightarrow> (nat \<times> pystr) list" where
  "one_digit lo hi (c # s) = (if 48 + lo \<le> c \<and> c \<le> 48 + hi then [(digit_num c, s)] else [])"
| "one_digit lo hi [] = []"

fun digit_pair :: "nat \<Rightarrow> nat \<Rightarrow> nat \<Rightarrow> nat \<Rightarrow> pystr \<Rightarrow> (nat \<times> pystr) list" where
  "digit_pair a b lo hi (c # d # s) =
     (if 48 + a \<le> c \<and> c \<le> 48 + b \<and> 48 + lo \<le> d \<and> d \<le> 48 + hi
      then [(digit_num c * 10 + digit_num d, s)] else [])"
| "digit_pair a b lo hi _ = []"

definition month_pattern :: "pystr \<Rightarrow> (nat \<times> pystr) list" where
  "month_pattern s = digit_pair 1 1 0 2 s @ digit_pair 0 0 1 9 s @ one_digit 1 9 s"

definition day_pattern :: "pystr \<Rightarrow> (nat \<times> pystr) list" where
  "day_pattern s = digit_pair 3 3 0 1 s @ digit_pair 1 2 0 9 s @ digit_pair 0 0 1 9 s @ one_digit 1 9 s
     @ (case s of [] \<Rightarrow> [] | c # s' \<Rightarrow> if c = 32 then one_digit 1 9 s' else [])"

definition hour_pattern :: "pystr \<Rightarrow> (nat \<times> pystr) list" where
  "hour_pattern s = digit_pair 2 2 0 3 s @ digit_pair 0 1 0 9 s @ one_digit 0 9 s"

definition minute_pattern :: "pystr \<Rightarrow> (nat \<times> pystr) list" where
  "minute_pattern s = digit_pair 0 5 0 9 s @ one_digit 0 9 s"

definition second_pattern :: "pystr \<Rightarrow> (nat \<times> pystr) list" where
  "second_pattern s = digit_pair 6 6 0 1 s @ digit_pair 0 5 0 9 s @ one_digit 0 9 s"

definition days_in_month :: "nat \<Rightarrow> nat \<Rightarrow> nat" where
  "days_in_month y m =
     (if m \<in> {4, 6, 9, 11} then 30
      else if m = 2 then (if 4 dvd y \<and> (\<not> 100 dvd y \<or> 400 dvd y) then 29 else 28) else 31)"

definition first_reading :: "('a \<times> pystr) list \<Rightarrow> 'a option" where
  "first_reading rs = (case rs of (v, []) # _ \<Rightarrow> Some v | _ \<Rightarrow> None)"

definition year_pattern :: "pystr \<Rightarrow> (nat \<times> pystr) list" where
  "year_pattern s =
     [(a * 100 + b, s2). (a, s1) \<leftarrow> digit_pair 0 9 0 9 s, (b, s2) \<leftarrow> digit_pair 0 9 0 9 s1]"

definition parse_date :: "pystr \<Rightarrow> call_value option" where
  "parse_date s =
     (case first_reading [((y, m, d), s3). (y, s1) \<leftarrow> year_pattern s, (m, s2) \<leftarrow> month_pattern s1, (d, s3) \<leftarrow> day_pattern s2] of
        None \<Rightarrow> None
      | Some (y, m, d) \<Rightarrow> if 1 \<le> y \<and> d \<le> days_in_month y m then Some (DateValue y m d) else None)"

definition parse_time :: "pystr \<Rightarrow> call_value option" where
  "parse_time s =
     (case first_reading [((h, m, x), s3). (h, s1) \<leftarrow> hour_pattern s, (m, s2) \<leftarrow> minute_pattern s1, (x, s3) \<leftarrow> second_pattern s2] of
        None \<Rightarrow> None
      | Some (h, m, x) \<Rightarrow> if x < 60 then Some (TimeValue h m x) else None)"

definition convert_value :: "nat \<Rightarrow> pystr \<Rightarrow> call_value" where
  "convert_value t raw =
     (let s = py_strip raw in
      if t = RFCTYPE_DATE then
        (if s = [] \<or> s = lit ''00000000'' then PlainValue VNone
         else case parse_date s of None \<Rightarrow> PlainValue (VStr raw) | Some d \<Rightarrow> d)
      else if t = RFCTYPE_TIME then
        (if s = [] \<or> s = lit ''000000'' then PlainValue VNone
         else case parse_time s of None \<Rightarrow> PlainValue (VStr raw) | Some d \<Rightarrow> d)
      else PlainValue (VStr raw))"

definition convert_date_time_fields :: "(nat \<Rightarrow> pystr) \<Rightarrow> func_desc \<Rightarrow> params \<Rightarrow> (pystr \<times> call_value) list" where
  "convert_date_time_fields uc desc result =
     (let by_name = map_of (rev (map (\<lambda>f. (py_upper uc (fd_name f), f)) (parameters desc))) in
      map (\<lambda>(k, v).
        (k, case by_name (py_upper uc k) of
              None \<Rightarrow> PlainValue v
            | Some f \<Rightarrow> (case v of VStr s \<Rightarrow> convert_value (rfctype f) s | _ \<Rightarrow> PlainValue v))) result)"

section \<open>The connection\<close>

record 'n call_env =
  cl_send :: "bytes \<Rightarrow> ('n, unit) act"
  cl_recv :: "('n, bytes) act"
  cl_sent :: "'n \<Rightarrow> nat"
  cl_received :: "'n \<Rightarrow> nat"
  cl_upper :: "nat \<Rightarrow> pystr"
  cl_float :: "pyval \<Rightarrow> 64 word res"
  cl_utf8 :: "bytes \<Rightarrow> pystr"
  cl_bx :: "bytes \<Rightarrow> pyval res"
  cl_micro :: "64 word \<Rightarrow> 64 word"
  cl_seconds :: "64 word \<Rightarrow> rat"
  cl_text :: "exn \<Rightarrow> pystr"
  cl_describe :: "exn \<Rightarrow> pystr"
  cl_strict :: bool
  cl_odd :: "ddif_layout \<Rightarrow> type_desc"

record 'n call_conn =
  k_net :: 'n
  k_session :: session
  k_cache :: meta_cache
  k_structs :: "pystr \<rightharpoonup> type_desc"
  k_seen :: "(pystr \<times> pystr list) list"
  k_metrics :: metrics
  k_duration :: "64 word option"
  k_anon :: "pystr option"

definition session_handle :: "session \<Rightarrow> bytes" where
  "session_handle s =
     (case handle s of None \<Rightarrow> replicate 8 32 | Some h \<Rightarrow> if h = [] then replicate 8 32 else h)"

definition unicode_of :: "session \<Rightarrow> bool" where
  "unicode_of s = (case attributes s of None \<Rightarrow> True | Some a \<Rightarrow> conn_attrs.unicode_mode a)"

text \<open>The key of the cache; \<open>fresh\<close> is a token generated for a system without an id.\<close>

definition metadata_cache_key :: "pystr \<Rightarrow> 'n call_conn \<Rightarrow> pystr option \<times> 'n call_conn" where
  "metadata_cache_key fresh c =
     (case attributes (k_session c) of
        None \<Rightarrow> (None, c)
      | Some a \<Rightarrow>
          if sys_id a \<noteq> [] then (Some (sys_id a), c)
          else
            (case k_anon c of
               Some k \<Rightarrow> (Some k, c)
             | None \<Rightarrow> let k = 0 # lit ''anon-'' @ fresh in (Some k, c\<lparr>k_anon := Some k\<rparr>)))"

definition filter_call_params ::
    "(nat \<Rightarrow> pystr) \<Rightarrow> bool \<Rightarrow> pystr \<Rightarrow> func_desc \<Rightarrow> params \<Rightarrow> (pystr \<times> pystr list) list
      \<Rightarrow> params \<times> (pystr \<times> pystr list) list" where
  "filter_call_params uc strict func_name desc ps seen =
     (let unknown = unknown_parameters uc desc ps; k = (py_upper uc func_name, unknown) in
      if unknown = [] \<or> strict then (ps, seen)
      else (drop_unknown_parameters uc desc ps, if k \<in> set seen then seen else seen @ [k]))"

section \<open>Fetching descriptors\<close>

text \<open>One request and one frame of the reply, with the errors the frame reports.\<close>

definition metadata_exchange :: "'n call_env \<Rightarrow> session \<Rightarrow> bytes res \<Rightarrow> ('n, bytes) act" where
  "metadata_exchange env s tlv n =
     (case bind_res tlv (build_invoke_frame (session_handle s)) of
        Inl e \<Rightarrow> (Inl e, n)
      | Inr frame \<Rightarrow>
          (case cl_send env frame n of
             (Inl e, n1) \<Rightarrow> (Inl e, n1)
           | (Inr u, n1) \<Rightarrow>
               (case cl_recv env n1 of
                  (Inl e, n2) \<Rightarrow> (Inl e, n2)
                | (Inr resp, n2) \<Rightarrow>
                    (map_res (\<lambda>_. resp) (raise_for_rfc_error (cl_utf8 env) (strip_gw_header resp) None), n2))))"

definition bare_field :: "pystr \<Rightarrow> nat \<Rightarrow> nat \<Rightarrow> bool \<Rightarrow> nat \<Rightarrow> field_desc" where
  "bare_field name t uc u dir = FieldDesc name t (uc div 2) 0 uc 0 0 u None dir False None None"

definition bootstrap_desc :: "bool \<Rightarrow> func_desc" where
  "bootstrap_desc u =
     \<lparr>fn_name = lit ''RFC_GET_FUNCTION_INTERFACE'',
      parameters = [bare_field (lit ''FUNCNAME'') RFCTYPE_CHAR 60 u RFC_IMPORT,
        bare_field (lit ''PARAMS'') RFCTYPE_TABLE 0 u RFC_EXPORT]\<rparr>"

definition structure_definition_desc :: "bool \<Rightarrow> func_desc" where
  "structure_definition_desc u =
     \<lparr>fn_name = lit ''RFC_GET_STRUCTURE_DEFINITION'',
      parameters = [bare_field (lit ''TABNAME'') RFCTYPE_CHAR 60 u RFC_IMPORT,
        bare_field (lit ''FIELDS'') RFCTYPE_TABLE 0 u RFC_EXPORT]\<rparr>"

definition build_ddif_fieldinfo_desc :: "bool \<Rightarrow> func_desc" where
  "build_ddif_fieldinfo_desc u =
     \<lparr>fn_name = lit ''DDIF_FIELDINFO_GET'',
      parameters =
        [bare_field (lit ''DDOBJTYPE'') RFCTYPE_CHAR 12 u RFC_EXPORT,
         bare_field (lit ''DFIES_TAB'') RFCTYPE_CHAR 0 u RFC_EXPORT,
         bare_field (lit ''FIXED_VALUES'') RFCTYPE_CHAR 0 u RFC_EXPORT,
         bare_field (lit ''ALL_TYPES'') RFCTYPE_CHAR 2 u RFC_IMPORT,
         bare_field (lit ''FIELDNAME'') RFCTYPE_CHAR 60 u RFC_IMPORT,
         bare_field (lit ''GROUP_NAMES'') RFCTYPE_CHAR 2 u RFC_IMPORT,
         bare_field (lit ''LANGU'') RFCTYPE_CHAR 2 u RFC_IMPORT,
         bare_field (lit ''TABNAME'') RFCTYPE_CHAR 60 u RFC_IMPORT]\<rparr>"

definition ddif_fieldinfo_params :: "pystr \<Rightarrow> params" where
  "ddif_fieldinfo_params tabname =
     [(lit ''ALL_TYPES'', VStr (lit ''X'')), (lit ''FIELDNAME'', VStr []), (lit ''GROUP_NAMES'', VStr []),
      (lit ''LANGU'', VStr []), (lit ''TABNAME'', VStr tabname)]"

definition invoke_request :: "'n call_env \<Rightarrow> func_desc \<Rightarrow> params \<Rightarrow> bytes res" where
  "invoke_request env desc ps = build_invoke_request (cl_upper env) (cl_float env) (fn_name desc) desc ps RFC_VERSION"

text \<open>
  The descriptors of the codec hold natural numbers.  A layout with a negative number, which a server
  may send, is therefore turned into whatever descriptor \<open>cl_odd\<close> gives: nothing is
  assumed of it, and nothing here depends on it.
\<close>

definition layout_desc :: "'n call_env \<Rightarrow> ddif_layout \<Rightarrow> type_desc" where
  "layout_desc env l = (if layout_natural l then natural_desc l else cl_odd env l)"

definition struct_via_ddif :: "'n call_env \<Rightarrow> session \<Rightarrow> pystr \<Rightarrow> ('n, type_desc option) act" where
  "struct_via_ddif env s tabname n =
     (case metadata_exchange env s
         (invoke_request env (build_ddif_fieldinfo_desc (unicode_of s)) (ddif_fieldinfo_params tabname)) n of
        (r, n1) \<Rightarrow>
          (bind_res r (\<lambda>resp.
             bind_res (parse_ddif_dfies_rows sapcompress_decompress resp) (\<lambda>rows.
               if rows = [] then Inr None
               else map_res (Some \<circ> layout_desc env) (build_type_desc_from_ddif tabname rows))), n1))"

definition struct_via_definition :: "'n call_env \<Rightarrow> session \<Rightarrow> pystr \<Rightarrow> ('n, type_desc) act" where
  "struct_via_definition env s tabname n =
     (case metadata_exchange env s
         (invoke_request env (structure_definition_desc (unicode_of s)) [(lit ''TABNAME'', VStr tabname)]) n of
        (r, n1) \<Rightarrow>
          (bind_res r (\<lambda>resp.
             bind_res (parse_dfies_rows sapcompress_decompress resp) (build_type_desc_from_dfies tabname)), n1))"

definition call_struct_bootstrap :: "'n call_env \<Rightarrow> session \<Rightarrow> pystr \<Rightarrow> ('n, type_desc) act" where
  "call_struct_bootstrap env s tabname n =
     (case struct_via_ddif env s tabname n of
        (Inr (Some td), n1) \<Rightarrow> (Inr td, n1)
      | (Inr None, n1) \<Rightarrow> struct_via_definition env s tabname n1
      | (Inl e, n1) \<Rightarrow>
          if isinstance e C_AbapApplicationError \<or> isinstance e C_AbapSystemFailure
          then struct_via_definition env s tabname n1 else (Inl e, n1))"

text \<open>A layout that cannot be fetched, for whatever reason, leaves its parameter without one.\<close>

fun attach_layouts ::
    "'n call_env \<Rightarrow> session \<Rightarrow> (field_desc \<times> pystr option) list \<Rightarrow> (pystr \<rightharpoonup> type_desc) \<Rightarrow> 'n
      \<Rightarrow> field_desc list \<times> (pystr \<rightharpoonup> type_desc) \<times> 'n" where
  "attach_layouts env s [] structs n = ([], structs, n)"
| "attach_layouts env s ((f, None) # fs) structs n =
     (case attach_layouts env s fs structs n of (fs', st, n') \<Rightarrow> (f # fs', st, n'))"
| "attach_layouts env s ((f, Some tab) # fs) structs n =
     (case (if structs tab = None
            then (case call_struct_bootstrap env s tab n of
                    (Inl e, n1) \<Rightarrow> (structs, n1) | (Inr td, n1) \<Rightarrow> (structs(tab \<mapsto> td), n1))
            else (structs, n)) of
        (structs1, n1) \<Rightarrow>
          (case attach_layouts env s fs structs1 n1 of
             (fs', st, n') \<Rightarrow> ((case structs1 tab of None \<Rightarrow> f | Some td \<Rightarrow> with_type td f) # fs', st, n')))"

definition lookup_of :: "params_row \<Rightarrow> field_desc \<Rightarrow> field_desc \<times> pystr option" where
  "lookup_of r f =
     (f, if rfctype f \<in> {RFCTYPE_STRUCTURE, RFCTYPE_TABLE} \<and> pr_tabname r \<noteq> [] then Some (pr_tabname r) else None)"

definition interface_fields :: "(nat \<Rightarrow> pystr) \<Rightarrow> params_row list \<Rightarrow> (field_desc \<times> pystr option) list" where
  "interface_fields uc rows = good_results (map (\<lambda>r. map_res (lookup_of r) (parse_params_row uc r)) rows)"

definition call_bootstrap ::
    "'n call_env \<Rightarrow> session \<Rightarrow> pystr \<Rightarrow> (pystr \<rightharpoonup> type_desc) \<Rightarrow> 'n
      \<Rightarrow> func_desc res \<times> (pystr \<rightharpoonup> type_desc) \<times> 'n" where
  "call_bootstrap env s func_name structs n =
     (case metadata_exchange env s
         (invoke_request env (bootstrap_desc (unicode_of s)) [(lit ''FUNCNAME'', VStr func_name)]) n of
        (Inl e, n1) \<Rightarrow> (Inl e, structs, n1)
      | (Inr resp, n1) \<Rightarrow>
          (case parse_gfi_params_rows sapcompress_decompress (unicode_of s) resp of
             Inl e \<Rightarrow> (Inl e, structs, n1)
           | Inr rows \<Rightarrow>
               (case attach_layouts env s (interface_fields (cl_upper env) rows) structs n1 of
                  (fs, st, n2) \<Rightarrow> (Inr \<lparr>fn_name = py_upper (cl_upper env) func_name, parameters = fs\<rparr>, st, n2))))"

section \<open>A call\<close>

definition lost_connection :: "exn \<Rightarrow> bool" where
  "lost_connection e \<longleftrightarrow>
     isinstance e C_OSError \<or> isinstance e C_IncompleteReadError \<or> isinstance e C_EOFError \<or> isinstance e C_TimeoutError"

text \<open>The descriptor, from the cache or from the system.\<close>

definition descriptor :: "'n call_env \<Rightarrow> pystr \<Rightarrow> pystr \<Rightarrow> ('n call_conn, func_desc) act" where
  "descriptor env fresh func_name c0 =
     (case metadata_cache_key fresh c0 of
        (ck, c) \<Rightarrow>
          (case Option.bind ck (\<lambda>k. cache_get (cl_upper env) (k_cache c) k func_name) of
             Some d \<Rightarrow> (Inr d, c)
           | None \<Rightarrow>
               (case call_bootstrap env (k_session c) func_name (k_structs c) (k_net c) of
                  (Inl e, st, n) \<Rightarrow>
                    (Inl (if lost_connection e then CommunicationError (cl_text env e) else e),
                     c\<lparr>k_structs := st, k_net := n\<rparr>)
                | (Inr d, st, n) \<Rightarrow>
                    (Inr d, c\<lparr>k_structs := st, k_net := n,
                       k_cache := (case ck of None \<Rightarrow> k_cache c | Some k \<Rightarrow> cache_put (cl_upper env) k d (k_cache c))\<rparr>))))"

text \<open>The exchange under \<^verbatim>\<open>_fail_closed\<close>; the duration is kept even if the reply raises.\<close>

definition call_exchange :: "'n call_env \<Rightarrow> pystr \<Rightarrow> bytes \<Rightarrow> func_desc \<Rightarrow> (nat \<Rightarrow> pystr option) \<Rightarrow> ('n call_conn, params) act" where
  "call_exchange env func_name request desc dm_names c =
     (let (outcome, n, dur) =
        (case cl_send env request (k_net c) of
           (Inl e, n1) \<Rightarrow> (Inl e, n1, k_duration c)
         | (Inr u, n1) \<Rightarrow>
             (case join_response_frames (cl_recv env) n1 of
                (Inl e, n2) \<Rightarrow> (Inl e, n2, k_duration c)
              | (Inr resp, n2) \<Rightarrow>
                  (parse_invoke_response (cl_upper env) (cl_utf8 env) sapcompress_decompress (cl_bx env) resp desc dm_names,
                   n2, extract_server_duration (cl_micro env) resp)))
      in case fail_closed (cl_describe env) func_name outcome (k_session c) of
           (r, s) \<Rightarrow> (r, c\<lparr>k_net := n, k_duration := dur, k_session := s\<rparr>))"

definition dm_names_of :: "(nat \<times> pystr) list \<Rightarrow> nat \<Rightarrow> pystr option" where
  "dm_names_of ids = map_of ids"

definition call_body ::
    "'n call_env \<Rightarrow> pystr \<Rightarrow> pystr \<Rightarrow> params \<Rightarrow> ('n call_conn, (pystr \<times> call_value) list) act" where
  "call_body env fresh func_name ps c =
     (case descriptor env fresh func_name c of
        (Inl e, c1) \<Rightarrow> (Inl e, c1)
      | (Inr desc, c1) \<Rightarrow>
          (case filter_call_params (cl_upper env) (cl_strict env) func_name desc ps (k_seen c1) of
             (call_ps, seen) \<Rightarrow>
               let c2 = c1\<lparr>k_seen := seen\<rparr> in
               (case bind_res (build_invoke_request (cl_upper env) (cl_float env) func_name desc call_ps RFC_VERSION)
                   (build_invoke_frame (session_handle (k_session c2))) of
                  Inl e \<Rightarrow> (Inl e, c2)
                | Inr request \<Rightarrow>
                    (case call_exchange env func_name request desc
                        (dm_names_of (dm_table_ids (cl_upper env) desc call_ps)) c2 of
                       (r, c3) \<Rightarrow> (map_res (convert_date_time_fields (cl_upper env) desc) r, c3)))))"

definition settle :: "'n call_conn \<Rightarrow> 'n call_conn" where
  "settle c = (if state (k_session c) = IN_CALL then c\<lparr>k_session := snd (mark_ready (k_session c))\<rparr> else c)"

definition call_instrumented ::
    "'n call_env \<Rightarrow> pystr \<Rightarrow> pystr \<Rightarrow> params \<Rightarrow> ('n call_conn, (pystr \<times> call_value) list) act" where
  "call_instrumented env fresh func_name ps c0 =
     (let c = c0\<lparr>k_duration := None\<rparr> in
      case mark_in_call (k_session c) of
        (Inl e, s) \<Rightarrow> (Inl e, c\<lparr>k_session := s\<rparr>)
      | (Inr u, s) \<Rightarrow>
          (case call_body env fresh func_name ps (c\<lparr>k_session := s\<rparr>) of (r, c1) \<Rightarrow> (r, settle c1)))"

text \<open>\<open>elapsed\<close> is what the clock says.\<close>

definition call ::
    "'n call_env \<Rightarrow> pystr \<Rightarrow> rat \<Rightarrow> pystr \<Rightarrow> params \<Rightarrow> ('n call_conn, (pystr \<times> call_value) list) act" where
  "call env fresh elapsed func_name ps c =
     (case call_instrumented env fresh func_name ps c of
        (r, c1) \<Rightarrow>
          (r, c1\<lparr>k_metrics := record_call
             \<lparr>cs_func_name = func_name, duration_s = elapsed,
              cs_request_bytes = cl_sent env (k_net c1) - cl_sent env (k_net c),
              cs_response_bytes = cl_received env (k_net c1) - cl_received env (k_net c),
              failed = (case r of Inl e \<Rightarrow> True | Inr x \<Rightarrow> False),
              server_duration_s = map_option (cl_seconds env) (k_duration c1)\<rparr> (k_metrics c1)\<rparr>))"

section \<open>Ping\<close>

function rfcping_ok_from :: "bytes \<Rightarrow> bool res" where
  "rfcping_ok_from d =
     (case tlv_step d of
        T_End \<Rightarrow> Inl ValueError
      | T_Terminator \<Rightarrow> Inl ValueError
      | T_Short t \<Rightarrow> Inl ValueError
      | T_Overrun t \<Rightarrow> Inl ValueError
      | T_Record t h v rest \<Rightarrow>
          if t = TAG_RETURN_CODE then (if length v \<noteq> 4 then Inl ValueError else Inr (be_val v = 0))
          else rfcping_ok_from rest)"
  by pat_completeness auto
termination
  by (relation "measure length") (auto dest: tlv_step_decreases)

declare rfcping_ok_from.simps [simp del]

definition rfcping_ok :: "bytes \<Rightarrow> bool res" where
  "rfcping_ok resp = rfcping_ok_from (strip_gw_header resp)"

definition rfcping_request_tlv :: "'n call_env \<Rightarrow> bytes res" where
  "rfcping_request_tlv env = invoke_request env \<lparr>fn_name = lit ''RFCPING'', parameters = []\<rparr> []"

definition ping :: "'n call_env \<Rightarrow> ('n call_conn, bool) act" where
  "ping env c =
     (case mark_in_call (k_session c) of
        (Inl e, s) \<Rightarrow> (Inl e, c\<lparr>k_session := s\<rparr>)
      | (Inr u, s) \<Rightarrow>
          (case bind_res (rfcping_request_tlv env) (build_invoke_frame (session_handle s)) of
             Inl e \<Rightarrow> (Inl e, settle (c\<lparr>k_session := s\<rparr>))
           | Inr frame \<Rightarrow>
               (case (case cl_send env frame (k_net c) of
                        (Inl e, n1) \<Rightarrow> (Inl e, n1) | (Inr u, n1) \<Rightarrow> cl_recv env n1) of
                  (outcome, n) \<Rightarrow>
                    (case fail_closed (cl_describe env) (lit ''RFCPING'') outcome s of
                       (r, s1) \<Rightarrow> (bind_res r rfcping_ok, settle (c\<lparr>k_net := n, k_session := s1\<rparr>))))))"

section \<open>What a call does to its connection\<close>

lemma fail_closed_session:
  assumes "fail_closed d f out s = (r, t)"
  shows "t = s \<or> (\<exists>w e. t = mark_broken w s \<and> out = Inl e
      \<and> (r = Inl e \<or> r = Inl (CommunicationError (d e)))
      \<and> \<not> isinstance e C_AbapApplicationError \<and> \<not> isinstance e C_AbapSystemFailure)"
  using assms by (auto simp: fail_closed_def Let_def split: sum.splits if_splits)

lemma fail_closed_ok: "fail_closed d f (Inr x) s = (Inr x, s)"
  by (simp add: fail_closed_def)

lemma descriptor_keeps:
  assumes "descriptor env fresh name c = (r, c1)"
  shows "k_session c1 = k_session c \<and> k_metrics c1 = k_metrics c"
  using assms by (auto simp: descriptor_def metadata_cache_key_def Let_def split: option.splits prod.splits sum.splits if_splits)

definition abap_error :: "exn \<Rightarrow> bool" where
  "abap_error e \<longleftrightarrow> isinstance e C_AbapApplicationError \<or> isinstance e C_AbapSystemFailure"

lemma call_exchange_session:
  assumes "call_exchange env name request desc dm c = (r, c1)"
  shows "k_metrics c1 = k_metrics c \<and> k_cache c1 = k_cache c \<and> k_anon c1 = k_anon c \<and>
    (k_session c1 = k_session c \<or>
     (\<exists>w e. k_session c1 = mark_broken w (k_session c) \<and> r = Inl e \<and> \<not> abap_error e))"
proof -
  have abap: "\<not> abap_error (CommunicationError x)" for x by (simp add: abap_error_def isinstance_def)
  obtain out n dur where c1: "c1 = c\<lparr>k_net := n, k_duration := dur, k_session := k_session c1\<rparr>"
      and f: "fail_closed (cl_describe env) name out (k_session c) = (r, k_session c1)"
    using assms unfolding call_exchange_def Let_def by (simp split: prod.splits) force
  have "k_metrics c1 = k_metrics c \<and> k_cache c1 = k_cache c \<and> k_anon c1 = k_anon c"
    by (subst c1, subst (2) c1, subst (3) c1) simp
  then show ?thesis using fail_closed_session [OF f] abap unfolding abap_error_def by blast
qed

lemma call_body_session:
  assumes "call_body env fresh name ps c = (r, c1)"
  shows "k_metrics c1 = k_metrics c \<and>
    (k_session c1 = k_session c \<or>
     (\<exists>w e. k_session c1 = mark_broken w (k_session c) \<and> r = Inl e \<and> \<not> abap_error e))"
proof (cases "descriptor env fresh name c")
  case (Pair d c0)
  note keep = descriptor_keeps [OF Pair]
  have not_abap: "\<not> abap_error (CommunicationError x)" for x by (simp add: abap_error_def isinstance_def)
  show ?thesis
  proof (cases d)
    case (Inl e)
    then show ?thesis using assms keep by (simp add: call_body_def Pair)
  next
    case (Inr desc)
    obtain cps seen where f: "filter_call_params (cl_upper env) (cl_strict env) name desc ps (k_seen c0) = (cps, seen)"
      by fastforce
    define c2 where "c2 = c0\<lparr>k_seen := seen\<rparr>"
    show ?thesis
    proof (cases "bind_res (build_invoke_request (cl_upper env) (cl_float env) name desc cps RFC_VERSION)
                   (build_invoke_frame (session_handle (k_session c2)))")
      case (Inl e)
      then show ?thesis using assms keep by (auto simp: call_body_def Pair Inr f c2_def)
    next
      case req: (Inr request)
      obtain x c3 where x: "call_exchange env name request desc (dm_names_of (dm_table_ids (cl_upper env) desc cps)) c2 = (x, c3)"
        by fastforce
      have r: "r = map_res (convert_date_time_fields (cl_upper env) desc) x" "c1 = c3"
        using assms req x by (simp_all add: call_body_def Pair Inr f c2_def)
      show ?thesis
        using call_exchange_session [OF x] keep r by (auto simp: c2_def)
    qed
  qed
qed

lemma settle_simps:
  "k_metrics (settle c) = k_metrics c" "k_net (settle c) = k_net c" "k_cache (settle c) = k_cache c"
  "k_structs (settle c) = k_structs c" "k_anon (settle c) = k_anon c" "k_duration (settle c) = k_duration c"
  by (simp_all add: settle_def)

lemma settle_session:
  "k_session (settle c) = (if state (k_session c) = IN_CALL then (k_session c)\<lparr>state := READY\<rparr> else k_session c)"
  by (simp add: settle_def mark_ready_def require_state_def)

lemma call_instrumented_refused:
  assumes "state (k_session c) \<noteq> READY"
  shows "call_instrumented env fresh name ps c = (Inl ValueError, c\<lparr>k_duration := None\<rparr>)"
  using assms by (simp add: call_instrumented_def Let_def mark_in_call_def require_state_def)

lemma call_instrumented_ready:
  assumes "state (k_session c) = READY" "call_instrumented env fresh name ps c = (r, c1)"
  shows "k_metrics c1 = k_metrics c \<and>
    (k_session c1 = k_session c \<or>
     (\<exists>w e. k_session c1 = mark_broken w (k_session c) \<and> r = Inl e \<and> \<not> abap_error e))"
proof -
  define c0 where "c0 = c\<lparr>k_duration := None, k_session := (k_session c)\<lparr>state := IN_CALL\<rparr>\<rparr>"
  obtain c2 where b: "call_body env fresh name ps c0 = (r, c2)" "c1 = settle c2"
    using assms by (auto simp: call_instrumented_def Let_def mark_in_call_def require_state_def c0_def split: prod.splits)
  have "(k_session c)\<lparr>state := READY\<rparr> = k_session c" using assms(1) by simp
  then show ?thesis using call_body_session [OF b(1)] b(2)
    by (auto simp: settle_simps settle_session c0_def mark_broken_def)
qed

section \<open>Descriptors are fetched once\<close>

lemma call_body_cache:
  assumes "call_body env fresh name ps c = (r, c1)" "descriptor env fresh name c = (d, c0)"
  shows "k_cache c1 = k_cache c0 \<and> k_anon c1 = k_anon c0 \<and> attributes (k_session c1) = attributes (k_session c0)"
proof (cases d)
  case (Inl e)
  then show ?thesis using assms by (simp add: call_body_def)
next
  case (Inr desc)
  obtain cps seen where f: "filter_call_params (cl_upper env) (cl_strict env) name desc ps (k_seen c0) = (cps, seen)"
    by fastforce
  have keep: "k_cache c3 = k_cache c2 \<and> k_anon c3 = k_anon c2 \<and> attributes (k_session c3) = attributes (k_session c2)"
    if "call_exchange env name request desc dm c2 = (x, c3)" for request dm c2 x c3
    using call_exchange_session [OF that] by (auto simp: mark_broken_def)
  show ?thesis using assms(1) keep
    by (auto simp: call_body_def assms(2) Inr f Let_def split: sum.splits prod.splits)
qed


lemma session_state_unread:
  "session_handle (s\<lparr>state := x\<rparr>) = session_handle s"
  "unicode_of (s\<lparr>state := x\<rparr>) = unicode_of s"
  by (simp_all add: session_handle_def unicode_of_def)

lemma metadata_exchange_state [simp]: "metadata_exchange env (s\<lparr>state := x\<rparr>) = metadata_exchange env s"
  by (simp add: metadata_exchange_def [abs_def] session_state_unread fun_eq_iff)

lemma struct_via_state [simp]:
  "struct_via_ddif env (s\<lparr>state := x\<rparr>) tab n = struct_via_ddif env s tab n"
  "struct_via_definition env (s\<lparr>state := x\<rparr>) tab n = struct_via_definition env s tab n"
  by (simp_all add: struct_via_ddif_def struct_via_definition_def session_state_unread)

lemma call_struct_bootstrap_state [simp]:
  "call_struct_bootstrap env (s\<lparr>state := x\<rparr>) tab n = call_struct_bootstrap env s tab n"
  unfolding call_struct_bootstrap_def struct_via_state ..

lemma attach_layouts_state [simp]:
  "attach_layouts env (s\<lparr>state := x\<rparr>) fs structs n = attach_layouts env s fs structs n"
proof (induction fs arbitrary: structs n)
  case (Cons f fs)
  obtain g t where f: "f = (g, t)" by (cases f)
  show ?case by (cases t) (simp_all add: f Cons)
qed simp

lemma call_bootstrap_state [simp]:
  "call_bootstrap env (s\<lparr>state := x\<rparr>) name structs n = call_bootstrap env s name structs n"
  by (simp add: call_bootstrap_def session_state_unread cong: sum.case_cong prod.case_cong)

lemma metadata_cache_key_state:
  assumes "metadata_cache_key fresh c = (k, c1)"
  shows "metadata_cache_key fresh (c\<lparr>k_duration := None, k_session := (k_session c)\<lparr>state := x\<rparr>\<rparr>)
    = (k, c1\<lparr>k_duration := None, k_session := (k_session c1)\<lparr>state := x\<rparr>\<rparr>)"
  using assms by (auto simp: metadata_cache_key_def Let_def split: option.splits if_splits)

definition kept_cache :: "(nat \<Rightarrow> pystr) \<Rightarrow> pystr option \<Rightarrow> func_desc res \<Rightarrow> meta_cache \<Rightarrow> meta_cache" where
  "kept_cache up ck q cache =
     (case q of Inl e \<Rightarrow> cache | Inr d \<Rightarrow> (case ck of None \<Rightarrow> cache | Some k \<Rightarrow> cache_put up k d cache))"

lemma descriptor_hit:
  assumes "metadata_cache_key fresh c = (ck, c0)"
    "Option.bind ck (\<lambda>k. cache_get (cl_upper env) (k_cache c0) k name) = Some d"
  shows "descriptor env fresh name c = (Inr d, c0)"
  by (simp add: descriptor_def assms)

lemma descriptor_miss:
  assumes "metadata_cache_key fresh c = (ck, c0)"
    "Option.bind ck (\<lambda>k. cache_get (cl_upper env) (k_cache c0) k name) = None"
    "call_bootstrap env (k_session c0) name (k_structs c0) (k_net c0) = (q, st, n)"
  shows "descriptor env fresh name c =
    (case q of Inl e \<Rightarrow> Inl (if lost_connection e then CommunicationError (cl_text env e) else e) | Inr d \<Rightarrow> Inr d,
     c0\<lparr>k_structs := st, k_net := n,
       k_cache := kept_cache (cl_upper env) ck q (k_cache c0)\<rparr>)"
  by (cases q) (simp_all add: descriptor_def assms kept_cache_def)

lemma descriptor_state:
  assumes "descriptor env fresh name c = (r, c1)"
  shows "descriptor env fresh name (c\<lparr>k_duration := None, k_session := (k_session c)\<lparr>state := x\<rparr>\<rparr>)
    = (r, c1\<lparr>k_duration := None, k_session := (k_session c1)\<lparr>state := x\<rparr>\<rparr>)"
proof -
  obtain ck c0 where k: "metadata_cache_key fresh c = (ck, c0)" by fastforce
  note k' = metadata_cache_key_state [OF k, of x]
  show ?thesis
  proof (cases "Option.bind ck (\<lambda>k. cache_get (cl_upper env) (k_cache c0) k name)")
    case None
    obtain q st n where b: "call_bootstrap env (k_session c0) name (k_structs c0) (k_net c0) = (q, st, n)"
      by (metis prod_cases3)
    show ?thesis
      using assms descriptor_miss [OF k None b]
        descriptor_miss [OF k', of env name q st n] None b
      by (cases c0) auto
  next
    case (Some d)
    then show ?thesis using assms descriptor_hit [OF k Some] descriptor_hit [OF k', of env name d] by simp
  qed
qed

text \<open>The key under which a connection keeps descriptors, once it has one.\<close>

definition kept_key :: "'n call_conn \<Rightarrow> pystr option" where
  "kept_key c = (case attributes (k_session c) of None \<Rightarrow> None
     | Some a \<Rightarrow> if sys_id a \<noteq> [] then Some (sys_id a) else k_anon c)"

definition cached :: "'n call_env \<Rightarrow> 'n call_conn \<Rightarrow> pystr \<Rightarrow> func_desc \<Rightarrow> bool" where
  "cached env c name d \<longleftrightarrow>
     (\<exists>k. kept_key c = Some k \<and> cache_get (cl_upper env) (k_cache c) k name = Some d)"

lemma kept_key_cong:
  assumes "k_anon c1 = k_anon c" "k_session c1 = k_session c"
  shows "kept_key c1 = kept_key c"
  unfolding kept_key_def assms ..

lemma cached_key:
  assumes "kept_key c = Some k"
  shows "metadata_cache_key fresh c = (Some k, c)"
  using assms by (auto simp: kept_key_def metadata_cache_key_def Let_def split: option.splits if_splits)

lemma cached_descriptor:
  assumes "cached env c name d"
  shows "descriptor env fresh name c = (Inr d, c)"
  using assms by (auto simp: cached_def descriptor_def cached_key)

lemma cached_cong:
  assumes "k_cache c1 = k_cache c" "k_anon c1 = k_anon c" "attributes (k_session c1) = attributes (k_session c)"
    "py_upper (cl_upper env) name = py_upper (cl_upper env) name'"
  shows "cached env c1 name d \<longleftrightarrow> cached env c name' d"
  unfolding cached_def kept_key_def cache_get_def assms ..

lemma bootstrap_name:
  assumes "call_bootstrap env s name structs n = (Inr d, st, n1)"
  shows "fn_name d = py_upper (cl_upper env) name"
  using assms by (auto simp: call_bootstrap_def split: prod.splits sum.splits)

text \<open>What is fetched is kept, and nothing kept is lost.\<close>

lemma descriptor_caches:
  assumes up: "\<And>s. py_upper (cl_upper env) (py_upper (cl_upper env) s) = py_upper (cl_upper env) s"
    and d: "descriptor env fresh name c = (Inr d, c1)" and a: "attributes (k_session c) = Some a"
  shows "cached env c1 name d"
proof -
  obtain k c0 where k: "metadata_cache_key fresh c = (Some k, c0)" "kept_key c0 = Some k" "k_cache c0 = k_cache c"
    "attributes (k_session c0) = Some a"
  proof (cases "kept_key c")
    case None
    then show ?thesis using that [of "0 # lit ''anon-'' @ fresh" "c\<lparr>k_anon := Some (0 # lit ''anon-'' @ fresh)\<rparr>"] a
      by (auto simp: metadata_cache_key_def kept_key_def Let_def split: if_splits)
  next
    case (Some k)
    then show ?thesis using that [of k c] a cached_key by blast
  qed
  show ?thesis
  proof (cases "cache_get (cl_upper env) (k_cache c) k name")
    case None
    then obtain st n where b: "call_bootstrap env (k_session c0) name (k_structs c0) (k_net c0) = (Inr d, st, n)"
        and c1: "c1 = c0\<lparr>k_structs := st, k_net := n, k_cache := cache_put (cl_upper env) k d (k_cache c0)\<rparr>"
      using d by (auto simp: descriptor_def k split: prod.splits sum.splits)
    have "kept_key c1 = Some k" using k(2) kept_key_cong [of c1 c0] by (simp add: c1)
    then show ?thesis using bootstrap_name [OF b] by (simp add: cached_def c1 cache_get_def cache_put_def up)
  next
    case (Some d')
    then show ?thesis using d k by (auto simp: descriptor_def cached_def)
  qed
qed

lemma descriptor_keeps_cached:
  assumes up: "\<And>s. py_upper (cl_upper env) (py_upper (cl_upper env) s) = py_upper (cl_upper env) s"
    and d: "descriptor env fresh name' c = (r, c1)" and c: "cached env c name d"
  shows "cached env c1 name d"
proof -
  obtain k where k: "kept_key c = Some k" "cache_get (cl_upper env) (k_cache c) k name = Some d"
    using c by (auto simp: cached_def)
  show ?thesis
  proof (cases "cache_get (cl_upper env) (k_cache c) k name'")
    case None
    then obtain r' st n where b: "call_bootstrap env (k_session c) name' (k_structs c) (k_net c) = (r', st, n)"
        and c1: "c1 = c\<lparr>k_structs := st, k_net := n, k_cache :=
          (case r' of Inl e \<Rightarrow> k_cache c | Inr x \<Rightarrow> cache_put (cl_upper env) k x (k_cache c))\<rparr>"
      using d by (auto simp: descriptor_def cached_key [OF k(1)] split: prod.splits sum.splits)
    have "kept_key c1 = Some k" using k(1) kept_key_cong [of c1 c] by (simp add: c1)
    moreover have "py_upper (cl_upper env) name' \<noteq> py_upper (cl_upper env) name" using None k(2) by (auto simp: cache_get_def)
    ultimately show ?thesis using bootstrap_name [of env "k_session c" name' "k_structs c" "k_net c"] b k(2)
      by (auto simp: cached_def c1 cache_get_def cache_put_def up split: sum.splits option.splits)
  next
    case (Some d')
    then show ?thesis using d c by (auto simp: descriptor_def cached_key [OF k(1)])
  qed
qed

lemma call_after_descriptor:
  assumes "call env fresh elapsed name ps c = (r, c1)" "state (k_session c) = READY"
    "descriptor env fresh name c = (d, c0)"
  shows "k_cache c1 = k_cache c0 \<and> k_anon c1 = k_anon c0 \<and> attributes (k_session c1) = attributes (k_session c0)"
proof -
  let ?c = "c\<lparr>k_duration := None, k_session := (k_session c)\<lparr>state := IN_CALL\<rparr>\<rparr>"
  obtain c2 where b: "call_body env fresh name ps ?c = (r, c2)" and s: "k_cache c1 = k_cache (settle c2)"
      "k_anon c1 = k_anon (settle c2)" "k_session c1 = k_session (settle c2)"
    using assms(1,2)
    by (auto simp: call_def call_instrumented_def Let_def mark_in_call_def require_state_def split: prod.splits)
  show ?thesis
    using call_body_cache [OF b descriptor_state [OF assms(3)]] descriptor_keeps [OF assms(3)] s
    by (simp add: settle_simps settle_session)
qed

inductive later_calls :: "'n call_env \<Rightarrow> 'n call_conn \<Rightarrow> 'n call_conn \<Rightarrow> bool" for env where
  lc_none: "later_calls env c c"
| lc_call: "later_calls env c c1 \<Longrightarrow> call env fresh elapsed name ps c1 = (r, c2) \<Longrightarrow> later_calls env c c2"

lemma call_keeps_cached:
  assumes up: "\<And>s. py_upper (cl_upper env) (py_upper (cl_upper env) s) = py_upper (cl_upper env) s"
    and "call env fresh elapsed name' ps c = (r, c1)" and "cached env c name d"
  shows "cached env c1 name d"
proof (cases "state (k_session c) = READY")
  case True
  obtain q c0 where q: "descriptor env fresh name' c = (q, c0)" by fastforce
  show ?thesis
    using call_after_descriptor [OF assms(2) True q] descriptor_keeps_cached [OF up q assms(3)]
      cached_cong [of c1 c0 env name name d] by simp
next
  case False
  then have "k_cache c1 = k_cache c" "k_anon c1 = k_anon c" "k_session c1 = k_session c"
    using assms(2) call_instrumented_refused [OF False, of env fresh name' ps] by (auto simp: call_def)
  then show ?thesis using assms(3) cached_cong [of c1 c env name name d] by simp
qed

end
