(* ===== verification/Call_Service.thy ===== *)
theory Call_Service
  imports Rfc_Calls Call_Delivery Logon_Bodies
begin

text \<open>
  Calls of a connection: what a call leaves behind, how often an interface is fetched, what happens to a
  metadata reply of several frames, and a call from the client's \<^verbatim>\<open>call\<close> through a gateway to the
  server's handler and back.
\<close>

section \<open>The far side\<close>

text \<open>A gateway cuts a reply into frames that a client can join again: the first holds the first record, the
  last the end of the terminator.\<close>

definition well_cut :: "(bytes \<times> bytes) list \<Rightarrow> bytes \<Rightarrow> bool" where
  "well_cut chunks resp \<longleftrightarrow>
     concat (map snd chunks) = resp \<and> chunks \<noteq> [] \<and> length chunks \<le> MAX_RESPONSE_FRAMES \<and>
     6 \<le> length (snd (hd chunks)) \<and> length (concat (map snd (butlast chunks))) + 2 < length resp \<and>
     list_all (\<lambda>(h, c). ending h \<and> c \<noteq> []) chunks \<and> list_all (\<lambda>(h, c). continuing h) (butlast chunks)"

text \<open>A server behind a gateway: a frame sent is dispatched, and the frames of the reply queue up.\<close>

definition far_send ::
    "runtime \<Rightarrow> ('s, 'u, 'e) rfc_server \<Rightarrow> (bytes \<Rightarrow> (bytes \<times> bytes) list) \<Rightarrow> bytes
      \<Rightarrow> (('s, 'u, 'e) world \<times> bytes list, unit) act" where
  "far_send rt srv pieces frame n =
     (case n of (w, waiting) \<Rightarrow>
       (case dispatch_inbound rt srv frame w of
          (Inl e, w1) \<Rightarrow> (Inr (), w1, waiting)
        | (Inr resp, w1) \<Rightarrow> (Inr (), w1, waiting @ map (case_prod gw_frame) (pieces resp))))"

definition far_recv :: "('w \<times> bytes list, bytes) act" where
  "far_recv n = (case n of (w, waiting) \<Rightarrow> (case pop_frame waiting of (r, waiting1) \<Rightarrow> (r, w, waiting1)))"

lemma far_loop:
  "join_loop far_recv k raw tlv (w, waiting) = (case join_loop pop_frame k raw tlv waiting of (r, q) \<Rightarrow> (r, w, q))"
proof (induction pop_frame k raw tlv waiting rule: join_loop.induct)
  case (1 k raw tlv waiting)
  show ?case
  proof (cases waiting)
    case Nil
    then show ?thesis by (subst (1 2) join_loop.simps) (simp add: far_recv_def pop_frame_def)
  next
    case (Cons f fs)
    have p: "pop_frame waiting = (Inr f, fs)" by (simp add: Cons pop_frame_def)
    show ?thesis using 1 [OF _ _ _ p [symmetric]]
      by (subst (1 2) join_loop.simps) (auto simp: far_recv_def p Let_def)
  qed
qed

lemma far_joined:
  "join_response_frames far_recv (w, waiting) = (case join_response_frames pop_frame waiting of (r, q) \<Rightarrow> (r, w, q))"
  by (cases waiting) (simp_all add: join_response_frames_def far_recv_def pop_frame_def far_loop)

section \<open>What the frames carry\<close>

lemma params_upper_known:
  assumes "\<And>k v. (k, v) \<in> set ps \<Longrightarrow> py_upper uc k = n \<Longrightarrow> P (k, v)"
  shows "map_of (params_upper uc (filter P ps)) n = map_of (params_upper uc ps) n"
  using assms by (induction ps rule: rev_induct) (auto simp: params_upper_def map_of_update)

lemma request_args_dropped: "request_args uc desc (drop_unknown_parameters uc desc ps) = request_args uc desc ps"
proof -
  have "request_arg uc (params_upper uc (drop_unknown_parameters uc desc ps)) f = request_arg uc (params_upper uc ps) f"
    if "f \<in> set (parameters desc)" for f
  proof -
    have "map_of (params_upper uc (drop_unknown_parameters uc desc ps)) (py_upper uc (fd_name f))
        = map_of (params_upper uc ps) (py_upper uc (fd_name f))"
      unfolding drop_unknown_parameters_def
      by (rule params_upper_known) (use that in \<open>auto simp: known_names_def\<close>)
    then show ?thesis by (simp add: request_arg_def)
  qed
  then show ?thesis by (simp add: request_args_def cong: map_cong)
qed

lemma none_unknown_dropped: "unknown_parameters uc desc (drop_unknown_parameters uc desc ps) = []"
proof -
  have "filter (\<lambda>n. py_upper uc n \<notin> set (known_names uc desc)) (map fst (drop_unknown_parameters uc desc ps)) = []"
    by (auto simp: drop_unknown_parameters_def filter_empty_conv)
  then show ?thesis by (simp add: unknown_parameters_def)
qed

lemma filtered_call:
  assumes "filter_call_params uc False name desc ps seen = (call_ps, seen1)"
  shows "unknown_parameters uc desc call_ps = []" "request_args uc desc call_ps = request_args uc desc ps"
  using assms request_args_dropped none_unknown_dropped
  by (auto simp: filter_call_params_def Let_def split: if_splits)

lemma call_frame_stripped:
  assumes "length h = 8" and "build_invoke_frame h tlv = Inr frame"
  shows "strip_gw_header frame = tlv @ be_bytes 4 (length tlv) @ INVOKE_FOOTER_MAGIC"
proof -
  have f: "frame = rfc_header h @ RFC_MARKER @ tlv @ be_bytes 4 (length tlv) @ INVOKE_FOOTER_MAGIC"
    using assms(2) by (simp add: build_invoke_frame_def split: if_splits)
  have "length (rfc_header h @ RFC_MARKER) = 80" using length_rfc_header [OF assms(1)] by (simp add: RFC_MARKER_def)
  moreover have "take 1 frame = [6]" unfolding f by (rule rfc_header_first [OF assms(1)])
  ultimately show ?thesis
    by (simp add: strip_gw_header_def f flip: append_assoc)
qed

lemma result_stream_ok:
  assumes desc: "good_desc uc desc" and fit: "\<forall>(f, v) \<in> set (result_args uc desc ps). param_fits f v"
  shows "\<forall>r \<in> set (result_stream uc tf desc ps). ok_record r"
proof -
  have args: "args_ok uc (result_args uc desc ps)"
    using args_distinct [OF desc _ fit] result_fields by (auto simp: result_args_def)
  have each: "\<exists>d f v. g = group_of tf d f v \<and> ok_name (fd_name f) \<and> param_fits f v"
    if "g \<in> set (result_groups tf 0 (result_args uc desc ps))" for g
    using result_groups_each [OF that] args unfolding args_ok_def list_all_iff by blast
  have lt: "TAG_TABLE_CONTENT_ALT < 0xFFFF" by (simp add: TAG_TABLE_CONTENT_ALT_def)
  have "\<forall>r \<in> set (group_records TAG_TABLE_CONTENT_ALT g). ok_record r"
    if "g \<in> set (result_groups tf 0 (result_args uc desc ps))" for g
    using each [OF that] group_records_ok [OF _ _ lt] by metis
  moreover have "\<forall>r \<in> set result_head. ok_record r"
    by (simp add: result_head_def ok_record_def TAG_RESPONSE_START_def TAG_RETURN_CODE_def)
  ultimately show ?thesis by (auto simp: result_stream_def)
qed

lemma result_joined:
  assumes desc: "good_desc uc desc" and fit: "\<forall>(f, v) \<in> set (result_args uc desc ps). param_fits f v"
    and resp: "resp = tlv_records (result_stream uc tf desc ps) @ tlv_end @ [0, 0] @ [0xFF, 0xFF]"
    and cut: "well_cut chunks resp"
  shows "join_response_frames pop_frame (map (case_prod gw_frame) chunks @ rest) = (Inr resp, rest)"
proof -
  obtain rs where rs: "result_stream uc tf desc ps = (TAG_RESPONSE_START, []) # rs"
    by (simp add: result_stream_def result_head_def)
  have "length (tlv_records [(TAG_RESPONSE_START, [])]) = 6"
    by (simp add: tlv_records_def length_tlv_record_body)
  moreover have "length resp = length (tlv_records (result_stream uc tf desc ps)) + 6"
    by (simp add: resp)
  ultimately show ?thesis
    using reply_joined [of "(TAG_RESPONSE_START, [])" rs chunks 0 0 "[0xFF, 0xFF]" rest]
      result_stream_ok [OF desc fit, of tf] cut
    by (auto simp: well_cut_def rs resp list_all_iff)
qed

section \<open>A call from end to end\<close>

lemma exchange_served:
  assumes desc: "good_desc (upper_char rt) desc" and fn: "ok_name fn" "fn \<notin> system_names"
    and known: "unknown_parameters (upper_char rt) desc ps = []"
    and fit: "\<forall>(f, v) \<in> set (request_args (upper_char rt) desc ps). param_fits f v"
    and reg: "map_of (registry srv) (py_upper (upper_char rt) fn) = Some (Some desc, Plain h)"
    and noauth: "auth_check srv = None"
    and h: "h (named_values (request_args (upper_char rt) desc ps)) (app w) = (Inr (Some out), e')"
    and outfit: "\<forall>(f, v) \<in> set (result_args (upper_char rt) desc out). param_fits f v"
    and tlv: "build_invoke_request (upper_char rt) tf fn desc ps RFC_VERSION = Inr tlv"
    and frame: "build_invoke_frame cid tlv = Inr frame" and cid: "length cid = 8"
  shows "\<exists>resp. dispatch_inbound rt srv frame w = (Inr resp, w\<lparr>app := e'\<rparr>) \<and>
    resp = tlv_records (result_stream (upper_char rt) (to_float rt) desc out) @ tlv_end @ [0, 0] @ [0xFF, 0xFF]"
proof -
  obtain vb where vb: "version_bytes RFC_VERSION = Inr vb" "length vb < 2 ^ 32"
    using demo_version by (auto simp: good_version_def)
  define tail where "tail = [0xFF, 0xFF] @ be_bytes 4 (length tlv) @ INVOKE_FOOTER_MAGIC"
  define body where "body = tlv_records (request_stream (upper_char rt) tf vb fn desc ps) @ tlv_end @ [0, 0] @ tail"
  have "tlv = tlv_records (request_stream (upper_char rt) tf vb fn desc ps) @ tlv_end @ [0, 0] @ [0xFF, 0xFF]"
    using build_invoke_request_written [OF desc fn(1) vb known fit, of tf] tlv by simp
  then have bare: "strip_gw_header frame = body"
    using call_frame_stripped [OF cid frame] by (simp add: body_def tail_def)
  note rd = request_read [OF desc fn(1) vb fit body_def]
  have auth: "check_auth srv body w = (Inr True, w)" by (simp add: check_auth_def noauth ret_def)
  have "dispatch_inbound rt srv frame w = dispatch_sync rt srv call_handler body fn w"
    by (rule dispatch_sync_path(1) [OF bare rd(1) fn(2)])
  also have "\<dots> = reply (respond rt (Some desc) (Dict_Result out)) (w\<lparr>app := e'\<rparr>)"
    using sync_runs_handler [OF reg auth rd(2), of call_handler] h by (simp add: dict_result_def)
  finally show ?thesis
    using build_response_written [OF desc outfit, of "to_float rt"] by (simp add: respond_def reply_def)
qed


text \<open>C1. A call of a connection returns what the server's handler computed.  The connection is ready and knows
  the function's interface; the server, behind a gateway that may cut its reply into frames, has
  a handler registered.  Parameters the function does not have are dropped, the handler runs once, on exactly
  the importing, changing and table values supplied, and the call returns its exporting, changing and
  table values with dates and times converted.  No frame is left unread, the session is as it was and
  no failure is counted.\<close>

theorem connected_call_end_to_end:
  assumes env: "cl_send env = far_send rt srv pieces" "cl_recv env = far_recv" "cl_upper env = upper_char rt"
      "\<not> cl_strict env"
    and conn: "state (k_session c) = READY" "cached env c fn desc" "k_net c = (w, [])"
      "length (session_handle (k_session c)) = 8"
    and desc: "good_desc (upper_char rt) desc" and fn: "ok_name fn" "fn \<notin> system_names"
    and fit: "\<forall>(f, v) \<in> set (request_args (upper_char rt) desc ps). param_fits f v"
    and small: "\<And>tlv. build_invoke_request (upper_char rt) (cl_float env) fn desc
        (fst (filter_call_params (upper_char rt) False fn desc ps (k_seen c))) RFC_VERSION = Inr tlv
      \<Longrightarrow> length tlv < 2 ^ 32"
    and reg: "map_of (registry srv) (py_upper (upper_char rt) fn) = Some (Some desc, Plain h)"
    and noauth: "auth_check srv = None"
    and h: "h (named_values (request_args (upper_char rt) desc ps)) (app w) = (Inr (Some out), e')"
    and outfit: "\<forall>(f, v) \<in> set (result_args (upper_char rt) desc out). param_fits f v"
    and gateway: "\<And>resp. 12 \<le> length resp \<Longrightarrow> well_cut (pieces resp) resp"
  shows "\<exists>c1. call env fresh elapsed fn ps c =
      (Inr (convert_date_time_fields (upper_char rt) desc (named_values (result_args (upper_char rt) desc out))), c1) \<and>
    k_net c1 = (w\<lparr>app := e'\<rparr>, []) \<and> k_session c1 = k_session c \<and>
    failures (k_metrics c1) = failures (k_metrics c)"
proof -
  define c0 where "c0 = c\<lparr>k_duration := None, k_session := (k_session c)\<lparr>state := IN_CALL\<rparr>\<rparr>"
  obtain call_ps seen where f: "filter_call_params (upper_char rt) False fn desc ps (k_seen c) = (call_ps, seen)"
    by fastforce
  note args = filtered_call [OF f]
  obtain vb where vb: "version_bytes RFC_VERSION = Inr vb" "length vb < 2 ^ 32"
    using demo_version by (auto simp: good_version_def)
  obtain tlv where tlv: "build_invoke_request (upper_char rt) (cl_float env) fn desc call_ps RFC_VERSION = Inr tlv"
    using build_invoke_request_written [OF desc fn(1) vb args(1)] fit args(2) by metis
  obtain frame where frame: "build_invoke_frame (session_handle (k_session c)) tlv = Inr frame"
    using small tlv f by (simp add: build_invoke_frame_def)
  define resp where "resp = tlv_records (result_stream (upper_char rt) (to_float rt) desc out) @ tlv_end @ [0, 0] @ [0xFF, 0xFF]"
  have served: "dispatch_inbound rt srv frame w = (Inr resp, w\<lparr>app := e'\<rparr>)"
    using exchange_served [OF desc fn args(1) _ reg noauth _ outfit tlv frame conn(4), of w e'] fit h
    unfolding args(2) resp_def by blast
  have "12 \<le> length resp"
    by (simp add: resp_def result_stream_def result_head_def tlv_records_Cons length_tlv_record_body)
  from result_joined [OF desc outfit resp_def gateway [OF this], of "[]"]
  have joined: "join_response_frames pop_frame (map (case_prod gw_frame) (pieces resp)) = (Inr resp, [])" by simp
  have read: "parse_invoke_response (upper_char rt) u8 sapdec bx resp desc dm
      = Inr (named_values (result_args (upper_char rt) desc out))" for u8 sapdec bx dm
    by (rule response_read [OF desc outfit resp_def])
  have known: "descriptor env fresh fn c0 = (Inr desc, c0)"
    using conn(2) cached_cong [of c0 c env fn fn desc] by (intro cached_descriptor) (simp add: c0_def)
  define c1 where "c1 = c0\<lparr>k_seen := seen, k_net := (w\<lparr>app := e'\<rparr>, []),
    k_duration := extract_server_duration (cl_micro env) resp\<rparr>"
  have x: "call_exchange env fn frame desc dm (c0\<lparr>k_seen := seen\<rparr>)
      = (Inr (named_values (result_args (upper_char rt) desc out)), c1)" for dm
    by (simp add: call_exchange_def env far_send_def c0_def conn(3) served far_joined joined read fail_closed_ok c1_def)
  have body: "call_body env fresh fn ps c0
      = (Inr (convert_date_time_fields (upper_char rt) desc (named_values (result_args (upper_char rt) desc out))), c1)"
  proof -
    have "k_seen c0 = k_seen c" "session_handle (k_session c0) = session_handle (k_session c)"
      by (simp_all add: c0_def session_state_unread)
    then show ?thesis using env(4) by (simp add: call_body_def known env(3) f tlv frame x)
  qed
  have ready: "(k_session c)\<lparr>state := READY\<rparr> = k_session c" using conn(1) by simp
  have "call_instrumented env fresh fn ps c
      = (Inr (convert_date_time_fields (upper_char rt) desc (named_values (result_args (upper_char rt) desc out))), settle c1)"
    using body conn(1) by (simp add: call_instrumented_def mark_in_call_def require_state_def c0_def)
  then show ?thesis
    by (simp add: call_def settle_simps settle_session c1_def c0_def ready record_call_def)
qed


definition day_desc :: func_desc where
  "day_desc = \<lparr>fn_name = lit ''Z_DAY'', parameters =
     [FieldDesc (lit ''N'') RFCTYPE_INT2 2 0 2 0 0 True None RFC_IMPORT False None None,
      FieldDesc (lit ''DAY'') RFCTYPE_DATE 8 0 16 0 0 True None RFC_EXPORT False None None]\<rparr>"

definition day_call :: params where "day_call = [(lit ''n'', VInt 2), (lit ''OTHER'', VInt 9)]"
definition day_result :: params where "day_result = [(lit ''day'', VStr (lit ''20240229''))]"

lemma day_args:
  "request_args (\<lambda>c. [c]) day_desc day_call = [(parameters day_desc ! 0, VInt 2)]"
  "result_args (\<lambda>c. [c]) day_desc day_result = [(parameters day_desc ! 1, VStr (lit ''20240229''))]"
  by (simp_all add: request_args_def request_arg_def result_args_def result_arg_def day_desc_def
      params_upper_def py_upper_def upper_cp_def rfctype_defs RFC_IMPORT_def RFC_EXPORT_def
      RFC_TABLES_def RFC_CHANGING_def day_call_def day_result_def)

lemma day_good: "good_desc (\<lambda>c. [c]) day_desc" "ok_name (lit ''Z_DAY'')" "lit ''Z_DAY'' \<notin> system_names"
  by (simp_all add: good_desc_def day_desc_def py_upper_def upper_cp_def ok_name_short is_ascii_def
      is_pad_def system_names_def dest_names)

lemma date_fits:
  assumes "is_bmp s" and "length s = char_count f" and "char_count f * 2 = span_len f" and "decode_initial_or s = s"
  shows "scalar_fits RFCTYPE_DATE f (VStr s)"
  using encode_uc_fixed_bmp [of s f 32] assms
  by (auto simp: scalar_fits_def encode_scalar_def decode_scalar_def rfctype_defs INT_FORMATS_def OUT_OF_SCOPE_def ljust_def)

lemma day_fits: "param_fits (parameters day_desc ! 0) (VInt 2)" "param_fits (parameters day_desc ! 1) (VStr (lit ''20240229''))"
proof -
  show "param_fits (parameters day_desc ! 0) (VInt 2)"
    by (rule scalar_param_fits;
        simp add: day_desc_def rfctype_defs span_len_def field_span_def
        int_fits [where k = 2, unfolded rfctype_defs] INT_FORMATS_def)
  show "param_fits (parameters day_desc ! 1) (VStr (lit ''20240229''))"
    by (rule scalar_param_fits, simp add: day_desc_def, rule date_fits)
      (simp_all add: day_desc_def rfctype_defs span_len_def field_span_def char_count_def is_bmp_def is_surrogate_def
        decode_initial_or_def strip_by_def lstrip_by_def rstrip_by_def)
qed


definition one_frame :: "bytes \<Rightarrow> (bytes \<times> bytes) list" where
  "one_frame resp = [(6 # replicate 79 0, resp)]"

lemma one_frame_cut: "12 \<le> length resp \<Longrightarrow> well_cut (one_frame resp) resp"
  by (auto simp: well_cut_def one_frame_def MAX_RESPONSE_FRAMES_def ending_def)

type_synonym day_net = "(mem_tid_store, unit, nat) world \<times> bytes list"

definition day_handler :: "nat handler_fn" where
  "day_handler = Plain (\<lambda>req n. (Inr (Some day_result), n + 1))"

definition day_env :: "day_net call_env" where
  "day_env = \<lparr>cl_send = far_send demo_runtime (serving (lit ''Z_DAY'') (Some day_desc) day_handler) one_frame,
     cl_recv = far_recv, cl_sent = (\<lambda>n. 0), cl_received = (\<lambda>n. 0), cl_upper = (\<lambda>c. [c]),
     cl_float = (\<lambda>v. Inl TypeError), cl_utf8 = latin1_decode, cl_bx = (\<lambda>b. Inl ValueError), cl_micro = id,
     cl_seconds = (\<lambda>w. 0), cl_text = (\<lambda>e. []), cl_describe = (\<lambda>e. []), cl_strict = False,
     cl_odd = natural_desc\<rparr>"

definition day_conn :: "day_net call_conn" where
  "day_conn = \<lparr>k_net = (fresh_world, []),
     k_session = \<lparr>state = READY, broken_reason = [], attributes = Some
       \<lparr>sys_id = lit ''NPL'', sys_number = [], partner_host = [], ca_client = [], ca_user = [], ca_language = [],
        partner_rel = [], kernel_rel = [], ca_codepage = [], unicode_mode = True, rfc_role = []\<rparr>,
       codepage = None, handle = None, allow_restricted_logon = False\<rparr>,
     k_cache = [lit ''NPL'' \<mapsto> [lit ''Z_DAY'' \<mapsto> day_desc]], k_structs = Map.empty, k_seen = [],
     k_metrics = \<lparr>calls = 0, failures = 0, total_duration_s = 0, max_duration_s = 0, request_bytes = 0,
       response_bytes = 0, total_server_duration_s = 0, server_timed_calls = 0, last_call = None\<rparr>,
     k_duration = None, k_anon = None\<rparr>"

lemma day_ready: "state (k_session day_conn) = READY" "cached day_env day_conn (lit ''Z_DAY'') day_desc"
    "k_net day_conn = (fresh_world, [])" "length (session_handle (k_session day_conn)) = 8"
  by (simp_all add: day_conn_def cached_def kept_key_def cache_get_def day_env_def py_upper_def upper_cp_def session_handle_def)

definition day_kept :: params where "day_kept = [(lit ''n'', VInt 2)]"

lemma day_filter: "fst (filter_call_params (\<lambda>c. [c]) False (lit ''Z_DAY'') day_desc day_call []) = day_kept"
  by (simp add: day_kept_def filter_call_params_def Let_def unknown_parameters_def known_names_def day_desc_def day_call_def
      drop_unknown_parameters_def py_upper_def upper_cp_def)

lemma call_name_length: "is_ascii n \<Longrightarrow> length (name_bytes n) = 2 * length n"
  by (simp add: name_bytes_def utf16le_encode_def utf16_units_ascii length_concat comp_def sum_list_triv)

lemma day_small:
  assumes "build_invoke_request (\<lambda>c. [c]) (\<lambda>v. Inl TypeError) (lit ''Z_DAY'') day_desc day_kept RFC_VERSION = Inr tlv"
  shows "length tlv < 2 ^ 32"
proof -
  obtain seen where f: "filter_call_params (\<lambda>c. [c]) False (lit ''Z_DAY'') day_desc day_call [] = (day_kept, seen)"
    using day_filter by (metis prod.collapse)
  have args: "request_args (\<lambda>c. [c]) day_desc day_kept = [(parameters day_desc ! 0, VInt 2)]"
    using filtered_call(2) [OF f] day_args(1) by simp
  have p: "parameters day_desc ! 0 = FieldDesc (lit ''N'') RFCTYPE_INT2 2 0 2 0 0 True None RFC_IMPORT False None None"
    by (simp add: day_desc_def)
  have "scalar_fits RFCTYPE_INT2 (parameters day_desc ! 0) (VInt 2)"
    by (rule int_fits [where k = 2]) (simp_all add: day_desc_def span_len_def field_span_def INT_FORMATS_def rfctype_defs)
  then have v: "length (value_bytes (\<lambda>v. Inl TypeError) (parameters day_desc ! 0) (VInt 2)) = 2"
    by (auto simp: scalar_fits_def value_bytes_def encode.simps p span_len_def field_span_def rfctype_defs OUT_OF_SCOPE_def split: sum.splits)
  have "tlv = tlv_records (request_stream (\<lambda>c. [c]) (\<lambda>v. Inl TypeError) [0x37, 0, 0x35, 0, 0x34, 0] (lit ''Z_DAY'') day_desc day_kept)
      @ tlv_end @ [0, 0] @ [0xFF, 0xFF]"
    using build_invoke_request_written [OF day_good(1,2) sample_version _ filtered_call(1) [OF f], of "\<lambda>v. Inl TypeError"]
      args day_fits assms by simp
  moreover have "request_stream (\<lambda>c. [c]) (\<lambda>v. Inl TypeError) [0x37, 0, 0x35, 0, 0x34, 0] (lit ''Z_DAY'') day_desc day_kept
      = [(TAG_CALL_START, []), (TAG_RFC_VERSION, [0x37, 0, 0x35, 0, 0x34, 0]), (TAG_FUNC_NAME, name_bytes (lit ''Z_DAY'')),
         (TAG_PARAM_SECTION, []), (TAG_EXPORT_DECL, name_bytes (lit ''DAY'')), (TAG_PARAM_NAME, name_bytes (lit ''N'')),
         (TAG_PARAM_VALUE, value_bytes (\<lambda>v. Inl TypeError) (parameters day_desc ! 0) (VInt 2))]"
    unfolding request_stream_def args
    by (simp add: request_head_def request_groups_def group_of_def p rfctype_defs)
      (simp add: day_desc_def RFC_EXPORT_def RFC_IMPORT_def RFC_CHANGING_def RFC_TABLES_def)
  ultimately show ?thesis
    by (simp add: tlv_records_def length_tlv_record_body call_name_length is_ascii_def v)
qed

lemma day_parsed: "py_strip (lit ''20240229'') = lit ''20240229''" "parse_date (lit ''20240229'') = Some (DateValue 2024 2 29)"
proof -
  show "py_strip (lit ''20240229'') = lit ''20240229''"
    by (simp add: strip_by_def lstrip_by_def rstrip_by_def is_space_def ws_chars_def)
  show "parse_date (lit ''20240229'') = Some (DateValue 2024 2 29)"
    by (simp add: parse_date_def year_pattern_def month_pattern_def day_pattern_def first_reading_def digit_num_def days_in_month_def)
qed

theorem connected_call_end_to_end_witness:
  "\<exists>c1. call day_env [] 0 (lit ''Z_DAY'') day_call day_conn = (Inr [(lit ''DAY'', DateValue 2024 2 29)], c1) \<and>
    k_net c1 = (fresh_world\<lparr>app := 1\<rparr>, [])"
proof -
  have env: "cl_send day_env = far_send demo_runtime (serving (lit ''Z_DAY'') (Some day_desc) day_handler) one_frame"
      "cl_recv day_env = far_recv" "cl_upper day_env = upper_char demo_runtime" "\<not> cl_strict day_env"
    by (simp_all add: day_env_def demo_upper)
  have seen: "k_seen day_conn = []" by (simp add: day_conn_def)
  let ?h = "\<lambda>(req :: params) (n :: nat). (Inr (Some day_result) :: py_exc + params option, n + 1)"
  have reg: "map_of (registry (serving (lit ''Z_DAY'') (Some day_desc) day_handler)) (py_upper (upper_char demo_runtime) (lit ''Z_DAY''))
      = Some (Some day_desc, Plain ?h)"
    by (simp add: day_handler_def del: One_nat_def)
  have fit: "\<forall>(f, v) \<in> set (request_args (upper_char demo_runtime) day_desc day_call). param_fits f v"
    and out: "\<forall>(f, v) \<in> set (result_args (upper_char demo_runtime) day_desc day_result). param_fits f v"
    using day_fits by (simp_all add: day_args demo_upper)
  have small: "length tlv < 2 ^ 32" if "build_invoke_request (upper_char demo_runtime) (cl_float day_env) (lit ''Z_DAY'') day_desc
        (fst (filter_call_params (upper_char demo_runtime) False (lit ''Z_DAY'') day_desc day_call (k_seen day_conn))) RFC_VERSION = Inr tlv" for tlv
    using that unfolding demo_upper seen day_filter by (intro day_small) (simp add: day_env_def)
  have run: "?h (named_values (request_args (upper_char demo_runtime) day_desc day_call)) (app fresh_world) = (Inr (Some day_result), 1)"
    by (simp add: fresh_world_def)
  have date: "convert_date_time_fields (upper_char demo_runtime) day_desc
      (named_values (result_args (upper_char demo_runtime) day_desc day_result)) = [(lit ''DAY'', DateValue 2024 2 29)]"
    unfolding demo_upper day_args
    using day_parsed by (simp add: named_values_def convert_date_time_fields_def Let_def day_desc_def
       py_upper_def upper_cp_def convert_value_def rfctype_defs RFC_IMPORT_def RFC_EXPORT_def day_parsed)
  from connected_call_end_to_end [OF env day_ready day_good(1) [folded demo_upper] day_good(2,3) fit small reg _ run out one_frame_cut,
      of "[]" 0]
  show ?thesis unfolding date by auto
qed


section \<open>Metadata requests\<close>

lemma char_fits:
  assumes "is_bmp s" and "length s \<le> char_count f" and "char_count f * 2 = span_len f" and "rstrip_by (\<lambda>c. c = 32) s = s"
  shows "scalar_fits RFCTYPE_CHAR f (VStr s)"
  using char_roundtrip [OF assms(1,2), of "\<lambda>v. Inl TypeError"] assms
  by (auto simp: scalar_fits_def rfctype_defs OUT_OF_SCOPE_def)

lemma bootstrap_good: "good_desc uc (bootstrap_desc u)" "ok_name (lit ''RFC_GET_FUNCTION_INTERFACE'')"
  by (simp_all add: good_desc_def bootstrap_desc_def bare_field_def py_upper_def upper_cp_def ok_name_short is_ascii_def
      is_pad_def)

lemma bootstrap_args:
  "request_args uc (bootstrap_desc u) [(lit ''FUNCNAME'', VStr name)]
    = [(bare_field (lit ''FUNCNAME'') RFCTYPE_CHAR 60 u RFC_IMPORT, VStr name)]"
  "unknown_parameters uc (bootstrap_desc u) [(lit ''FUNCNAME'', VStr name)] = []"
  by (simp_all add: request_args_def request_arg_def bootstrap_desc_def bare_field_def
      params_upper_def py_upper_def upper_cp_def rfctype_defs RFC_IMPORT_def RFC_EXPORT_def
      unknown_parameters_def known_names_def)

lemma bootstrap_request_built:
  assumes "is_ascii name" and "length name \<le> 30" and "rstrip_by (\<lambda>c. c = 32) name = name" and "u"
  shows "\<exists>frame. bind_res (invoke_request env (bootstrap_desc u) [(lit ''FUNCNAME'', VStr name)]) (build_invoke_frame cid) = Inr frame"
proof -
  let ?f = "bare_field (lit ''FUNCNAME'') RFCTYPE_CHAR 60 u RFC_IMPORT"
  let ?ps = "[(lit ''FUNCNAME'', VStr name)]"
  have bmp: "is_bmp name" using assms(1) by (auto simp: is_ascii_def is_bmp_def is_surrogate_def)
  have s: "scalar_fits (rfctype ?f) ?f (VStr name)"
    using char_fits [OF bmp, of ?f] assms by (simp add: bare_field_def char_count_def span_len_def field_span_def)
  then have fits: "param_fits ?f (VStr name)"
    by (rule scalar_param_fits) (simp_all add: bare_field_def rfctype_defs span_len_def field_span_def assms(4))
  have v: "length (value_bytes (cl_float env) ?f (VStr name)) = 60"
    using char_roundtrip [OF bmp, of ?f "cl_float env"] assms(2)
    by (auto simp: value_bytes_def encode.simps bare_field_def rfctype_defs OUT_OF_SCOPE_def char_count_def split: sum.splits)
  have fit: "\<forall>(f, v) \<in> set (request_args (cl_upper env) (bootstrap_desc u) ?ps). param_fits f v"
    unfolding bootstrap_args(1) using fits by simp
  have name: "fn_name (bootstrap_desc u) = lit ''RFC_GET_FUNCTION_INTERFACE''" by (simp add: bootstrap_desc_def)
  define st where "st = request_stream (cl_upper env) (cl_float env) [0x37, 0, 0x35, 0, 0x34, 0] (lit ''RFC_GET_FUNCTION_INTERFACE'') (bootstrap_desc u) ?ps"
  have "invoke_request env (bootstrap_desc u) ?ps = Inr (tlv_records st @ tlv_end @ [0, 0] @ [0xFF, 0xFF])"
    unfolding invoke_request_def name st_def
    by (rule build_invoke_request_written [OF bootstrap_good sample_version _ bootstrap_args(2) fit]) simp
  moreover have "st = [(TAG_CALL_START, []), (TAG_RFC_VERSION, [0x37, 0, 0x35, 0, 0x34, 0]),
         (TAG_FUNC_NAME, name_bytes (lit ''RFC_GET_FUNCTION_INTERFACE'')),
         (TAG_PARAM_SECTION, []), (TAG_EXPORT_DECL, name_bytes (lit ''PARAMS'')), (TAG_PARAM_NAME, name_bytes (lit ''FUNCNAME'')),
         (TAG_PARAM_VALUE, value_bytes (cl_float env) ?f (VStr name))]"
    unfolding st_def request_stream_def bootstrap_args(1)
    by (simp add: request_head_def request_groups_def group_of_def bare_field_def rfctype_defs)
      (simp add: bootstrap_desc_def bare_field_def RFC_EXPORT_def RFC_IMPORT_def RFC_CHANGING_def RFC_TABLES_def)
  ultimately show ?thesis using v
    by (simp add: build_invoke_frame_def tlv_records_def length_tlv_record_body call_name_length is_ascii_def)
qed


section \<open>Metadata replies of several frames\<close>

text \<open>A frame that is cut inside a record is not a readable message.\<close>

lemma cut_frame_refused:
  assumes "parse_tlv_stream (strip_gw_header f) = Inl e"
  shows "\<exists>m. raise_for_rfc_error u8 (strip_gw_header f) None = Inl (CommunicationError m)"
  using assms by (auto simp: raise_for_rfc_error_def split: option.splits)


section \<open>A connection that reads frames\<close>

definition frame_env :: "bytes list call_env" where
  "frame_env = \<lparr>cl_send = (\<lambda>b fs. (Inr (), fs)), cl_recv = pop_frame, cl_sent = (\<lambda>fs. 0), cl_received = (\<lambda>fs. 0),
     cl_upper = (\<lambda>c. [c]), cl_float = (\<lambda>v. Inl ValueError), cl_utf8 = latin1_decode, cl_bx = (\<lambda>b. Inl ValueError),
     cl_micro = id, cl_seconds = (\<lambda>w. 0), cl_text = (\<lambda>e. []), cl_describe = (\<lambda>e. []), cl_strict = False,
     cl_odd = natural_desc\<rparr>"

definition npl_attrs :: conn_attrs where
  "npl_attrs = \<lparr>sys_id = lit ''NPL'', sys_number = lit ''00'', partner_host = [], ca_client = [], ca_user = [],
     ca_language = [], partner_rel = [], kernel_rel = [], ca_codepage = [], unicode_mode = True, rfc_role = []\<rparr>"

definition frame_conn :: "bytes list \<Rightarrow> bytes list call_conn" where
  "frame_conn fs = \<lparr>k_net = fs,
     k_session = \<lparr>state = READY, broken_reason = [], attributes = Some npl_attrs, codepage = None,
       handle = None, allow_restricted_logon = False\<rparr>,
     k_cache = Map.empty, k_structs = Map.empty, k_seen = [],
     k_metrics = \<lparr>calls = 0, failures = 0, total_duration_s = 0, max_duration_s = 0, request_bytes = 0,
       response_bytes = 0, total_server_duration_s = 0, server_timed_calls = 0, last_call = None\<rparr>,
     k_duration = None, k_anon = None\<rparr>"

lemma frame_conn_simps [simp]:
  "cl_send frame_env b q = (Inr (), q)" "cl_recv frame_env = pop_frame" "cl_upper frame_env = (\<lambda>c. [c])"
  "state (k_session (frame_conn fs)) = READY" "attributes (k_session (frame_conn fs)) = Some npl_attrs"
  "sys_id npl_attrs = lit ''NPL''" "conn_attrs.unicode_mode npl_attrs" "k_net (frame_conn fs) = fs"
  "k_cache (frame_conn fs) = Map.empty" "k_metrics (frame_conn fs) = \<lparr>calls = 0, failures = 0, total_duration_s = 0,
     max_duration_s = 0, request_bytes = 0, response_bytes = 0, total_server_duration_s = 0, server_timed_calls = 0, last_call = None\<rparr>"
  by (simp_all add: frame_env_def frame_conn_def npl_attrs_def)

lemma ping_name: "is_ascii (lit ''RFC_PING'')" "length (lit ''RFC_PING'') \<le> 30"
    "rstrip_by (\<lambda>c. c = 32) (lit ''RFC_PING'') = lit ''RFC_PING''"
  by (simp_all add: is_ascii_def rstrip_by_def)


text \<open>C11. However a call ends, the connection is settled and the call is counted.  On a ready
  connection the session afterwards is what it was, or it is broken; it is what it was after a result
  and after an ABAP error, which leave the connection usable.  A connection that is not
  ready refuses the call, sending nothing.  Either way the counters grow by one call, by one failure
  exactly when the call raised, and by the bytes the transport carried meanwhile.\<close>

theorem call_leaves_session_settled:
  assumes "call env fresh elapsed name ps c = (r, c1)"
  shows "(if state (k_session c) = READY
     then k_session c1 = k_session c \<or>
       (\<exists>w e. k_session c1 = mark_broken w (k_session c) \<and> r = Inl e \<and> \<not> abap_error e)
     else r = Inl ValueError \<and> k_net c1 = k_net c \<and> k_session c1 = k_session c \<and> k_cache c1 = k_cache c) \<and>
   calls (k_metrics c1) = calls (k_metrics c) + 1 \<and>
   failures (k_metrics c1) = failures (k_metrics c) + (case r of Inl e \<Rightarrow> 1 | Inr x \<Rightarrow> 0) \<and>
   request_bytes (k_metrics c1) = request_bytes (k_metrics c) + (cl_sent env (k_net c1) - cl_sent env (k_net c)) \<and>
   response_bytes (k_metrics c1) =
     response_bytes (k_metrics c) + (cl_received env (k_net c1) - cl_received env (k_net c))"
proof -
  obtain c2 where i: "call_instrumented env fresh name ps c = (r, c2)"
    using assms by (auto simp: call_def split: prod.splits)
  have c1: "k_session c1 = k_session c2" "k_net c1 = k_net c2" "k_cache c1 = k_cache c2"
    using assms i by (auto simp: call_def)
  have m: "k_metrics c2 = k_metrics c"
    using call_instrumented_ready [OF _ i] call_instrumented_refused [of c env fresh name ps] i
    by (cases "state (k_session c) = READY") auto
  have count: "calls (k_metrics c1) = calls (k_metrics c) + 1"
      "failures (k_metrics c1) = failures (k_metrics c) + (case r of Inl e \<Rightarrow> 1 | Inr x \<Rightarrow> 0)"
      "request_bytes (k_metrics c1) = request_bytes (k_metrics c) + (cl_sent env (k_net c2) - cl_sent env (k_net c))"
      "response_bytes (k_metrics c1) = response_bytes (k_metrics c) + (cl_received env (k_net c2) - cl_received env (k_net c))"
    using assms i m by (auto simp: call_def record_call_def split: sum.splits)
  show ?thesis
  proof (cases "state (k_session c) = READY")
    case True
    then show ?thesis using call_instrumented_ready [OF True i] count c1 by simp
  next
    case False
    then show ?thesis using call_instrumented_refused [OF False, of env fresh name ps] i count c1 by simp
  qed
qed

theorem call_leaves_session_settled_witness:
  "\<exists>r c1. call frame_env [] 0 (lit ''RFC_PING'') [] (frame_conn []) = (r, c1) \<and>
    calls (k_metrics c1) = 1 \<and> state (k_session c1) \<in> {READY, BROKEN}"
proof -
  obtain r c1 where c: "call frame_env [] 0 (lit ''RFC_PING'') [] (frame_conn []) = (r, c1)" by fastforce
  show ?thesis using c call_leaves_session_settled [OF c] by (auto simp: mark_broken_def)
qed


text \<open>A reply that describes no parameters.\<close>

definition bare_reply :: bytes where
  "bare_reply = [5, 0, 0, 0, 5, 0, 0xFF, 0xFF, 0, 0, 0xFF, 0xFF]"

lemma bare_steps:
  "tlv_step bare_reply = T_Record 0x500 4 [] [0xFF, 0xFF, 0, 0, 0xFF, 0xFF]"
  "tlv_step [0xFF, 0xFF, 0, 0, 0xFF, 0xFF] = T_Terminator"
  by (simp_all add: tlv_step_def bare_reply_def py_slice_def be_val_def skip_close_def)

lemma bare_accepted: "raise_for_rfc_error u8 bare_reply None = Inr ()"
proof -
  have "parse_tlv_stream bare_reply = Inr [0x500 \<mapsto> []]"
    by (simp add: parse_tlv_stream_def parse_tlv_stream_from.simps bare_steps)
  moreover have "parse_gateway_error u8 bare_reply = None"
    by (simp add: parse_gateway_error_def GATEWAY_ERROR_MARKER_def starts_with_def bare_reply_def)
  ultimately show ?thesis
    by (simp add: raise_for_rfc_error_def raise_for_tags_def TAG_RETURN_CODE_def TAG_EXCEPTION_NUMBER_def Let_def)
qed

lemma bare_rows: "parse_gfi_params_rows d u bare_reply = Inr []"
proof -
  have "collect_rows bare_reply no_rows = no_rows"
    by (simp add: collect_rows.simps bare_steps collect_row_def)
  then have "table_row_buffers d bare_reply = Inr []" by (simp add: table_row_buffers_def no_rows_def)
  moreover have "strip_gw_header bare_reply = bare_reply" by (simp add: strip_gw_header_def bare_reply_def)
  ultimately show ?thesis by (simp add: parse_gfi_params_rows_def good_results_def)
qed

definition ping_desc :: func_desc where
  "ping_desc = \<lparr>fn_name = lit ''RFC_PING'', parameters = []\<rparr>"

lemma ping_fetched: "fst (descriptor frame_env fresh (lit ''RFC_PING'') (frame_conn [bare_reply])) = Inr ping_desc"
proof -
  let ?c = "frame_conn [bare_reply]"
  have u: "unicode_of (k_session ?c)" by (simp add: unicode_of_def)
  obtain frame where frame: "bind_res (invoke_request frame_env (bootstrap_desc (unicode_of (k_session ?c)))
      [(lit ''FUNCNAME'', VStr (lit ''RFC_PING''))]) (build_invoke_frame (session_handle (k_session ?c))) = Inr frame"
    using bootstrap_request_built [OF ping_name u] by blast
  have bare: "strip_gw_header bare_reply = bare_reply" by (simp add: strip_gw_header_def bare_reply_def)
  have x: "metadata_exchange frame_env (k_session ?c) (invoke_request frame_env (bootstrap_desc (unicode_of (k_session ?c)))
      [(lit ''FUNCNAME'', VStr (lit ''RFC_PING''))]) (k_net ?c) = (Inr bare_reply, [])"
    unfolding metadata_exchange_def frame by (simp add: pop_frame_def bare bare_accepted)
  have "py_upper (\<lambda>c. [c]) (lit ''RFC_PING'') = lit ''RFC_PING''" by (simp add: py_upper_def upper_cp_def)
  then have b: "call_bootstrap frame_env (k_session ?c) (lit ''RFC_PING'') (k_structs ?c) (k_net ?c) = (Inr ping_desc, k_structs ?c, [])"
    unfolding call_bootstrap_def x by (simp add: bare_rows interface_fields_def good_results_def ping_desc_def)
  have key: "metadata_cache_key fresh ?c = (Some (lit ''NPL''), ?c)" by (simp add: metadata_cache_key_def)
  show ?thesis using descriptor_miss [OF key _ b] by (simp add: cache_get_def)
qed

text \<open>C12. The interface of a function is fetched once.  After a call that got the descriptor of its function,
  whether the call then succeeded or not, and after any further calls on the connection, successful
  or failed, every call of the function, in whatever case its name is written, takes that descriptor
  from the cache, without touching the network.  The hypothesis on upper-casing is that it is
  idempotent, as Unicode promises.\<close>

theorem descriptor_fetched_once:
  assumes "\<And>s. py_upper (cl_upper env) (py_upper (cl_upper env) s) = py_upper (cl_upper env) s"
    and "state (k_session c) = READY" and "attributes (k_session c) = Some a"
    and "fst (descriptor env fresh name c) = Inr d"
    and "call env fresh elapsed name ps c = (r, c1)" and "later_calls env c1 c2"
    and "py_upper (cl_upper env) name' = py_upper (cl_upper env) name"
  shows "descriptor env fresh' name' c2 = (Inr d, c2)"
proof -
  obtain c0 where d: "descriptor env fresh name c = (Inr d, c0)" using assms(4) by (metis prod.collapse)
  have "cached env c1 name d"
    using descriptor_caches [OF assms(1) d assms(3)] call_after_descriptor [OF assms(5,2) d]
      cached_cong [of c1 c0 env name name d] by simp
  with assms(6) have "cached env c2 name d"
    by (induction rule: later_calls.induct) (auto intro: call_keeps_cached [OF assms(1)])
  then have "cached env c2 name' d" using assms(7) cached_cong [of c2 c2 env name' name d] by simp
  then show ?thesis by (rule cached_descriptor)
qed

text \<open>Two more calls after the first, one of them of another function.\<close>

theorem descriptor_fetched_once_witness:
  "\<exists>r c1 q c2. call frame_env [] 0 (lit ''RFC_PING'') [] (frame_conn [bare_reply]) = (r, c1) \<and>
    call frame_env [] 0 (lit ''Z_OTHER'') [] c1 = (q, c2) \<and>
    descriptor frame_env [] (lit ''rfc_ping'') c2 = (Inr ping_desc, c2)"
proof -
  obtain r c1 where c1: "call frame_env [] 0 (lit ''RFC_PING'') [] (frame_conn [bare_reply]) = (r, c1)" by fastforce
  obtain q c2 where c2: "call frame_env [] 0 (lit ''Z_OTHER'') [] c1 = (q, c2)" by fastforce
  have up: "py_upper (cl_upper frame_env) (py_upper (cl_upper frame_env) s) = py_upper (cl_upper frame_env) s" for s
    by (induction s) (auto simp: py_upper_def upper_cp_def)
  have "later_calls frame_env c1 c2" by (rule lc_call [OF lc_none c2])
  from descriptor_fetched_once [OF up _ _ ping_fetched c1 this, of npl_attrs "lit ''rfc_ping''" "[]"]
  have "descriptor frame_env [] (lit ''rfc_ping'') c2 = (Inr ping_desc, c2)"
    by (simp add: py_upper_def upper_cp_def)
  then show ?thesis using c1 c2 by blast
qed

end
