(* ===== verification/Conn_Pool.thy ===== *)
theory Conn_Pool
  imports Rfc_Calls "HOL-Library.Multiset"
begin

text \<open>
  The pools of connections, \<^verbatim>\<open>src/saprfclib/pool.py\<close>.

  Everything a pool does under its lock is one function on its state; what happens between, a health
  check or the opening of a connection, is a task in flight.  A system is a pool with the multiset of
  its tasks, and a step of it is a task entering or leaving the locked region.  The synchronous and
  the asynchronous pool share the functions; they differ in what a timeout does to a task.
\<close>

section \<open>Metrics\<close>

record pool_metrics =
  pm_acquires :: int
  pm_timeouts :: int
  pm_hits :: int
  pm_creates :: int
  pm_discards :: int
  pm_total_wait_s :: rat
  pm_max_wait_s :: rat

definition new_pool_metrics :: pool_metrics where
  "new_pool_metrics = \<lparr>pm_acquires = 0, pm_timeouts = 0, pm_hits = 0, pm_creates = 0, pm_discards = 0,
     pm_total_wait_s = 0, pm_max_wait_s = 0\<rparr>"

definition record_wait :: "rat \<Rightarrow> pool_metrics \<Rightarrow> pool_metrics" where
  "record_wait waited m =
     m\<lparr>pm_total_wait_s := pm_total_wait_s m + waited, pm_max_wait_s := max (pm_max_wait_s m) waited\<rparr>"

definition mean_wait_s :: "pool_metrics \<Rightarrow> rat" where
  "mean_wait_s m =
     (let attempts = pm_acquires m + pm_timeouts m
      in if attempts \<noteq> 0 then pm_total_wait_s m / of_int attempts else 0)"

definition hit_rate :: "pool_metrics \<Rightarrow> rat" where
  "hit_rate m = (if pm_acquires m \<noteq> 0 then of_int (pm_hits m) / of_int (pm_acquires m) else 0)"

definition metrics_as_dict :: "pool_metrics \<Rightarrow> (pystr \<times> rat) list" where
  "metrics_as_dict m =
     [(lit ''acquires'', of_int (pm_acquires m)), (lit ''timeouts'', of_int (pm_timeouts m)),
      (lit ''hits'', of_int (pm_hits m)), (lit ''creates'', of_int (pm_creates m)),
      (lit ''discards'', of_int (pm_discards m)), (lit ''total_wait_s'', pm_total_wait_s m),
      (lit ''mean_wait_s'', mean_wait_s m), (lit ''max_wait_s'', pm_max_wait_s m), (lit ''hit_rate'', hit_rate m)]"

section \<open>The state\<close>

record 'c pool =
  p_idle :: "'c list"
  p_in_use :: "'c set"
  p_created :: int
  p_max :: int
  p_closed :: bool
  p_discarded :: nat
  p_metrics :: pool_metrics

definition empty_pool :: "int \<Rightarrow> 'c pool" where
  "empty_pool max_size =
     \<lparr>p_idle = [], p_in_use = {}, p_created = 0, p_max = max_size, p_closed = False, p_discarded = 0,
      p_metrics = new_pool_metrics\<rparr>"

definition check_sizes :: "int \<Rightarrow> int \<Rightarrow> unit res" where
  "check_sizes min_size max_size =
     (if min_size < 0 then Inl ValueError
      else if max_size < 1 then Inl ValueError
      else if min_size > max_size then Inl ValueError else Inr ())"

definition add_warm :: "'c \<Rightarrow> 'c pool \<Rightarrow> 'c pool" where
  "add_warm c p = p\<lparr>p_idle := p_idle p @ [c], p_created := p_created p + 1\<rparr>"

text \<open>Opening \<open>k\<close> connections before any is lent.\<close>

primrec warm_up :: "('n, 'c) act \<Rightarrow> nat \<Rightarrow> 'c pool \<Rightarrow> 'n \<Rightarrow> 'c pool res \<times> 'n" where
  "warm_up opn 0 p n = (Inr p, n)"
| "warm_up opn (Suc k) p n =
     (case opn n of (Inl e, n1) \<Rightarrow> (Inl e, n1) | (Inr c, n1) \<Rightarrow> warm_up opn k (add_warm c p) n1)"

definition new_pool :: "('n, 'c) act \<Rightarrow> int \<Rightarrow> int \<Rightarrow> 'n \<Rightarrow> 'c pool res \<times> 'n" where
  "new_pool opn min_size max_size n =
     (case check_sizes min_size max_size of
        Inl e \<Rightarrow> (Inl e, n) | Inr u \<Rightarrow> warm_up opn (nat min_size) (empty_pool max_size) n)"

section \<open>Under the lock\<close>

datatype 'c turn = Closed_Pool | Check 'c | Open_New | Time_Out | Wait

text \<open>One turn of the loop of \<^verbatim>\<open>_checkout\<close>; \<open>expired\<close> tells that the deadline has passed.\<close>

definition checkout_turn :: "bool \<Rightarrow> rat \<Rightarrow> 'c pool \<Rightarrow> 'c turn \<times> 'c pool" where
  "checkout_turn expired waited p =
     (if p_closed p then (Closed_Pool, p)
      else case p_idle p of
        c # rest \<Rightarrow> (Check c, p\<lparr>p_idle := rest, p_in_use := insert c (p_in_use p)\<rparr>)
      | [] \<Rightarrow>
          if p_created p < p_max p then
            (Open_New, p\<lparr>p_created := p_created p + 1,
               p_metrics := (p_metrics p)\<lparr>pm_creates := pm_creates (p_metrics p) + 1\<rparr>\<rparr>)
          else if expired then
            (Time_Out, p\<lparr>p_metrics := record_wait waited
               ((p_metrics p)\<lparr>pm_timeouts := pm_timeouts (p_metrics p) + 1\<rparr>)\<rparr>)
          else (Wait, p))"

definition checked_healthy :: "rat \<Rightarrow> 'c pool \<Rightarrow> 'c pool" where
  "checked_healthy waited p =
     p\<lparr>p_metrics := record_wait waited
        ((p_metrics p)\<lparr>pm_hits := pm_hits (p_metrics p) + 1, pm_acquires := pm_acquires (p_metrics p) + 1\<rparr>)\<rparr>"

definition checked_dead :: "'c \<Rightarrow> 'c pool \<Rightarrow> 'c pool" where
  "checked_dead c p =
     p\<lparr>p_in_use := p_in_use p - {c}, p_created := p_created p - 1, p_discarded := p_discarded p + 1,
        p_metrics := (p_metrics p)\<lparr>pm_discards := pm_discards (p_metrics p) + 1\<rparr>\<rparr>"

definition opened :: "rat \<Rightarrow> 'c \<Rightarrow> 'c pool \<Rightarrow> 'c pool" where
  "opened waited c p =
     p\<lparr>p_in_use := insert c (p_in_use p),
        p_metrics := record_wait waited ((p_metrics p)\<lparr>pm_acquires := pm_acquires (p_metrics p) + 1\<rparr>)\<rparr>"

definition open_failed :: "'c pool \<Rightarrow> 'c pool" where
  "open_failed p =
     p\<lparr>p_created := p_created p - 1,
        p_metrics := (p_metrics p)\<lparr>pm_creates := pm_creates (p_metrics p) - 1\<rparr>\<rparr>"

text \<open>Releasing tells whether the connection has to be closed.\<close>

definition release :: "'c \<Rightarrow> 'c pool \<Rightarrow> bool \<times> 'c pool" where
  "release c p =
     (let p1 = p\<lparr>p_in_use := p_in_use p - {c}\<rparr> in
      if p_closed p then (True, p1\<lparr>p_created := p_created p - 1\<rparr>)
      else (False, p1\<lparr>p_idle := p_idle p @ [c]\<rparr>))"

definition close_pool :: "'c pool \<Rightarrow> 'c list \<times> 'c pool" where
  "close_pool p =
     (if p_closed p then ([], p)
      else (p_idle p, p\<lparr>p_closed := True, p_idle := [], p_created := p_created p - int (length (p_idle p))\<rparr>))"

definition timeout_error :: "nat \<Rightarrow> 'c pool \<Rightarrow> exn" where
  "timeout_error discarded p =
     PoolTimeoutError \<lparr>pd_discarded = discarded, pd_active = card (p_in_use p), pd_idle = length (p_idle p),
       pd_max_size = nat (p_max p)\<rparr>"

definition pool_stats :: "'c pool \<Rightarrow> (pystr \<times> rat) list" where
  "pool_stats p = metrics_as_dict (p_metrics p) @
     [(lit ''in_use'', of_nat (card (p_in_use p))), (lit ''idle'', of_nat (length (p_idle p))),
      (lit ''size'', of_int (p_created p)), (lit ''max_size'', of_int (p_max p))]"

section \<open>Health checks\<close>

definition is_retired :: "'n call_conn \<Rightarrow> bool" where
  "is_retired c \<longleftrightarrow> state (k_session c) = BROKEN"

text \<open>\<open>ping_ok\<close> on a connection of \<open>Rfc_Calls\<close>.\<close>

definition ping_ok :: "'n call_env \<Rightarrow> 'n call_conn \<Rightarrow> bool \<times> 'n call_conn" where
  "ping_ok env c =
     (if is_retired c then (False, c)
      else case ping env c of (Inl e, c1) \<Rightarrow> (False, c1) | (Inr b, c1) \<Rightarrow> (b, c1))"

section \<open>One caller\<close>

text \<open>What the pool calls: the health check, opening and closing, on the state \<open>'n\<close> of the connections.\<close>

record ('n, 'c) pool_env =
  pe_ping_ok :: "'c \<Rightarrow> 'n \<Rightarrow> bool \<times> 'n"
  pe_open :: "('n, 'c) act"
  pe_close :: "'c \<Rightarrow> 'n \<Rightarrow> 'n"

text \<open>
  \<^verbatim>\<open>_checkout\<close> of a caller with the pool to itself: nobody will release a connection while it waits, so it
  waits until its deadline.  \<open>waited\<close> is what the clock says at the end.
\<close>

function checkout ::
    "('n, 'c) pool_env \<Rightarrow> rat \<Rightarrow> nat \<Rightarrow> 'c pool \<Rightarrow> 'n \<Rightarrow> 'c res \<times> 'c pool \<times> 'n" where
  "checkout env waited discarded p n =
     (case checkout_turn True waited p of
        (Closed_Pool, p1) \<Rightarrow> (Inl RuntimeError, p1, n)
      | (Check c, p1) \<Rightarrow>
          (case pe_ping_ok env c n of
             (True, n1) \<Rightarrow> (Inr c, checked_healthy waited p1, n1)
           | (False, n1) \<Rightarrow> checkout env waited (discarded + 1) (checked_dead c p1) (pe_close env c n1))
      | (Open_New, p1) \<Rightarrow>
          (case pe_open env n of
             (Inl e, n1) \<Rightarrow> (Inl e, open_failed p1, n1)
           | (Inr c, n1) \<Rightarrow> (Inr c, opened waited c p1, n1))
      | (Time_Out, p1) \<Rightarrow> (Inl (timeout_error discarded p1), p1, n)
      | (Wait, p1) \<Rightarrow> (Inl (timeout_error discarded p1), p1, n))"
  by pat_completeness auto
termination
  by (relation "measure (\<lambda>(env, waited, discarded, p, n). length (p_idle p))")
    (auto simp: checkout_turn_def checked_dead_def split: if_splits list.splits)

declare checkout.simps [simp del]

definition release_to_pool :: "('n, 'c) pool_env \<Rightarrow> 'c \<Rightarrow> 'c pool \<Rightarrow> 'n \<Rightarrow> 'c pool \<times> 'n" where
  "release_to_pool env c p n =
     (case release c p of (close_it, p1) \<Rightarrow> (p1, if close_it then pe_close env c n else n))"

definition close_all :: "('n, 'c) pool_env \<Rightarrow> 'c pool \<Rightarrow> 'n \<Rightarrow> 'c pool \<times> 'n" where
  "close_all env p n = (case close_pool p of (cs, p1) \<Rightarrow> (p1, fold (pe_close env) cs n))"

text \<open>\<^verbatim>\<open>acquire\<close> with the body of its \<^verbatim>\<open>with\<close> block; the connection goes back also when the body raises.\<close>

definition with_connection ::
    "('n, 'c) pool_env \<Rightarrow> rat \<Rightarrow> ('c \<Rightarrow> ('n, 'a) act) \<Rightarrow> 'c pool \<Rightarrow> 'n \<Rightarrow> 'a res \<times> 'c pool \<times> 'n" where
  "with_connection env waited body p n =
     (case checkout env waited 0 p n of
        (Inl e, p1, n1) \<Rightarrow> (Inl e, p1, n1)
      | (Inr c, p1, n1) \<Rightarrow>
          (case body c n1 of (r, n2) \<Rightarrow>
            (case release_to_pool env c p1 n2 of (p2, n3) \<Rightarrow> (r, p2, n3))))"

section \<open>Many callers\<close>

datatype 'c task = Checking 'c | Opening | Lent 'c

fun task_of :: "'c turn \<Rightarrow> 'c task multiset" where
  "task_of (Check c) = {#Checking c#}"
| "task_of Open_New = {#Opening#}"
| "task_of _ = {#}"

definition owned :: "'c pool \<Rightarrow> 'c set" where
  "owned p = p_in_use p \<union> set (p_idle p)"

inductive pool_step :: "'c pool \<times> 'c task multiset \<Rightarrow> 'c pool \<times> 'c task multiset \<Rightarrow> bool" where
  ps_turn: "checkout_turn expired w p = (t, p') \<Longrightarrow> pool_step (p, ts) (p', ts + task_of t)"
| ps_healthy: "pool_step (p, add_mset (Checking c) ts) (checked_healthy w p, add_mset (Lent c) ts)"
| ps_dead: "pool_step (p, add_mset (Checking c) ts) (checked_dead c p, ts)"
| ps_opened: "c \<notin> owned p \<Longrightarrow> pool_step (p, add_mset Opening ts) (opened w c p, add_mset (Lent c) ts)"
| ps_failed: "pool_step (p, add_mset Opening ts) (open_failed p, ts)"
| ps_release: "pool_step (p, add_mset (Lent c) ts) (snd (release c p), ts)"
| ps_close: "pool_step (p, ts) (snd (close_pool p), ts)"

text \<open>A pool as it is constructed: its warm connections are idle and distinct.\<close>

definition warm_pool :: "int \<Rightarrow> 'c list \<Rightarrow> 'c pool" where
  "warm_pool max_size cs = fold add_warm cs (empty_pool max_size)"

inductive pool_reach :: "'c pool \<times> 'c task multiset \<Rightarrow> bool" where
  pr_new: "distinct cs \<Longrightarrow> 1 \<le> m \<Longrightarrow> int (length cs) \<le> m \<Longrightarrow> pool_reach (warm_pool m cs, {#})"
| pr_step: "pool_reach s \<Longrightarrow> pool_step s t \<Longrightarrow> pool_reach t"

text \<open>
  The asynchronous pool.  \<^verbatim>\<open>acquire\<close> cancels \<^verbatim>\<open>_checkout\<close> when its time is up, wherever that is, and the
  handlers in \<^verbatim>\<open>_checkout\<close> do not catch a cancellation: the task ends and the pool stays as it
  was.  The tasks lost so are the third part of the state.  It is warmed up by
  \<^verbatim>\<open>start\<close>, meant to be called before any connection is lent.
\<close>

definition cancelled :: "rat \<Rightarrow> 'c pool \<Rightarrow> 'c pool" where
  "cancelled waited p =
     p\<lparr>p_metrics := record_wait waited ((p_metrics p)\<lparr>pm_timeouts := pm_timeouts (p_metrics p) + 1\<rparr>)\<rparr>"

type_synonym 'c async_system = "'c pool \<times> 'c task multiset \<times> 'c task multiset"

inductive async_step :: "'c async_system \<Rightarrow> 'c async_system \<Rightarrow> bool" where
  as_step: "pool_step (p, ts) (p', ts') \<Longrightarrow> async_step (p, ts, lost) (p', ts', lost)"
| as_cancel_wait: "async_step (p, ts, lost) (cancelled w p, ts, lost)"
| as_cancel_check: "async_step (p, add_mset (Checking c) ts, lost) (cancelled w p, ts, add_mset (Checking c) lost)"
| as_cancel_open: "async_step (p, add_mset Opening ts, lost) (cancelled w p, ts, add_mset Opening lost)"

inductive async_reach :: "'c async_system \<Rightarrow> bool" where
  ar_new: "distinct cs \<Longrightarrow> 1 \<le> m \<Longrightarrow> int (length cs) \<le> m \<Longrightarrow> async_reach (warm_pool m cs, {#}, {#})"
| ar_step: "async_reach s \<Longrightarrow> async_step s t \<Longrightarrow> async_reach t"

section \<open>The invariant\<close>

fun task_conn :: "'c task \<Rightarrow> 'c multiset" where
  "task_conn (Checking c) = {#c#}"
| "task_conn Opening = {#}"
| "task_conn (Lent c) = {#c#}"

definition conns :: "'c task multiset \<Rightarrow> 'c multiset" where
  "conns ts = sum_mset (image_mset task_conn ts)"

lemma conns_simps [simp]:
  "conns {#} = {#}" "conns (add_mset t ts) = task_conn t + conns ts" "conns (ts + us) = conns ts + conns us"
  by (simp_all add: conns_def)

text \<open>Every slot that is counted is an idle connection or a task; every connection has one place.\<close>

definition pool_inv :: "'c pool \<Rightarrow> 'c task multiset \<Rightarrow> bool" where
  "pool_inv p ts \<longleftrightarrow>
     finite (p_in_use p) \<and> conns ts = mset_set (p_in_use p) \<and>
     distinct (p_idle p) \<and> p_in_use p \<inter> set (p_idle p) = {} \<and>
     p_created p = int (length (p_idle p)) + int (size ts) \<and> p_created p \<le> p_max p \<and>
     (p_closed p \<longrightarrow> p_idle p = []) \<and>
     pm_hits (p_metrics p) + pm_creates (p_metrics p) = pm_acquires (p_metrics p) + int (count ts Opening)"

lemmas pool_op_defs = checkout_turn_def checked_healthy_def checked_dead_def opened_def open_failed_def
  release_def close_pool_def record_wait_def Let_def

lemma lent_once:
  assumes "finite A" "add_mset c ts = mset_set A"
  shows "c \<in> A" "ts = mset_set (A - {c})"
proof -
  have "c \<in># mset_set A" by (simp flip: assms(2))
  then show "c \<in> A" using assms(1) by simp
  then show "ts = mset_set (A - {c})" using assms by (metis add_mset_remove_trivial mset_set_Diff mset_set.empty mset_set.insert
      empty_subsetI finite.emptyI insert_absorb insert_subset empty_iff)
qed

lemma pool_step_keeps:
  assumes "pool_step (p, ts) (p', ts')" and "pool_inv p ts"
  shows "pool_inv p' ts' \<and> p_max p' = p_max p"
  using assms(1)
proof cases
  case (ps_turn expired w t)
  then show ?thesis using assms(2)
    by (auto simp: checkout_turn_def record_wait_def pool_inv_def split: if_splits list.splits)
next
  case (ps_healthy c us w)
  then show ?thesis using assms(2) by (auto simp: checked_healthy_def record_wait_def pool_inv_def)
next
  case (ps_dead c)
  then have "c \<in> p_in_use p" "conns ts' = mset_set (p_in_use p - {c})"
    using assms(2) lent_once [of "p_in_use p" c "conns ts'"] by (auto simp: pool_inv_def)
  then show ?thesis using assms(2) ps_dead by (auto simp: checked_dead_def pool_inv_def)
next
  case (ps_opened c us w)
  then show ?thesis using assms(2) by (auto simp: opened_def record_wait_def pool_inv_def owned_def)
next
  case ps_failed
  then show ?thesis using assms(2) by (auto simp: open_failed_def pool_inv_def)
next
  case (ps_release c)
  then have "c \<in> p_in_use p" "conns ts' = mset_set (p_in_use p - {c})"
    using assms(2) lent_once [of "p_in_use p" c "conns ts'"] by (auto simp: pool_inv_def)
  then show ?thesis using assms(2) ps_release by (auto simp: release_def Let_def pool_inv_def)
next
  case ps_close
  then show ?thesis using assms(2) by (auto simp: close_pool_def pool_inv_def)
qed

lemma warm_pool_simps:
  "p_idle (warm_pool m cs) = cs" "p_in_use (warm_pool m cs) = {}" "p_created (warm_pool m cs) = int (length cs)"
  "p_max (warm_pool m cs) = m" "p_closed (warm_pool m cs) = False" "p_metrics (warm_pool m cs) = new_pool_metrics"
proof -
  have "fold add_warm cs p = p\<lparr>p_idle := p_idle p @ cs, p_created := p_created p + int (length cs)\<rparr>" for p :: "'a pool"
    by (induction cs arbitrary: p) (simp_all add: add_warm_def)
  then show "p_idle (warm_pool m cs) = cs" "p_in_use (warm_pool m cs) = {}" "p_created (warm_pool m cs) = int (length cs)"
    "p_max (warm_pool m cs) = m" "p_closed (warm_pool m cs) = False" "p_metrics (warm_pool m cs) = new_pool_metrics"
    by (simp_all add: warm_pool_def empty_pool_def)
qed

lemma warm_pool_inv: "distinct cs \<Longrightarrow> int (length cs) \<le> m \<Longrightarrow> pool_inv (warm_pool m cs) {#}"
  by (simp add: pool_inv_def warm_pool_simps new_pool_metrics_def)

lemma pool_reach_inv: "pool_reach (p, ts) \<Longrightarrow> pool_inv p ts"
proof (induction "(p, ts)" arbitrary: p ts rule: pool_reach.induct)
  case (pr_step s)
  then show ?case using pool_step_keeps [of "fst s" "snd s" p ts] by (cases s) auto
qed (auto intro: warm_pool_inv)

text \<open>A lost task is a task that never leaves, so the asynchronous pool keeps the same invariant.\<close>

lemma async_step_keeps:
  assumes "async_step (p, ts, lost) (p', ts', lost')" and "pool_inv p (ts + lost)"
  shows "pool_inv p' (ts' + lost') \<and> p_max p' = p_max p \<and> lost \<subseteq># lost'"
  using assms(1)
proof cases
  case as_step
  have frame: "pool_step (p, ts + lost) (p', ts' + lost)"
    using as_step(2)
  proof cases
    case (ps_turn e w t)
    then show ?thesis using pool_step.ps_turn [of e w p t p' "ts + lost"] by (simp add: ac_simps)
  qed (auto intro: pool_step.intros)
  show ?thesis using pool_step_keeps [OF frame assms(2)] as_step(1) by simp
qed (use assms(2) in \<open>auto simp: cancelled_def record_wait_def pool_inv_def\<close>)

lemma async_reach_inv: "async_reach (p, ts, lost) \<Longrightarrow> pool_inv p (ts + lost)"
proof (induction "(p, ts, lost)" arbitrary: p ts lost rule: async_reach.induct)
  case (ar_step s)
  obtain q us ls where s: "s = (q, us, ls)" by (cases s)
  show ?case using ar_step async_step_keeps [of q us ls p ts lost] unfolding s by blast
qed (auto intro: warm_pool_inv)

section \<open>A caller with the pool to itself\<close>

text \<open>Checking connections in turn while they turn out dead, and closing them.\<close>

fun refused :: "('n, 'c) pool_env \<Rightarrow> 'c list \<Rightarrow> 'n \<Rightarrow> 'n option" where
  "refused env [] n = Some n"
| "refused env (c # cs) n =
     (case pe_ping_ok env c n of (True, n1) \<Rightarrow> None | (False, n1) \<Rightarrow> refused env cs (pe_close env c n1))"

definition after_dead :: "'c list \<Rightarrow> 'c list \<Rightarrow> 'c pool \<Rightarrow> 'c pool" where
  "after_dead cs rest p =
     p\<lparr>p_idle := rest, p_in_use := p_in_use p - set cs, p_created := p_created p - int (length cs),
       p_discarded := p_discarded p + length cs,
       p_metrics := (p_metrics p)\<lparr>pm_discards := pm_discards (p_metrics p) + int (length cs)\<rparr>\<rparr>"

lemma checkout_skips_dead:
  assumes "\<not> p_closed p" and "p_idle p = cs @ rest" and "refused env cs n = Some n1"
  shows "checkout env waited k p n = checkout env waited (k + length cs) (after_dead cs rest p) n1"
  using assms
proof (induction cs arbitrary: p k n)
  case Nil
  then have "after_dead [] rest p = p" by (cases p) (simp add: after_dead_def)
  then show ?case using Nil by simp
next
  case (Cons c cs)
  obtain n2 where ping: "pe_ping_ok env c n = (False, n2)" and more: "refused env cs (pe_close env c n2) = Some n1"
    using Cons.prems(3) by (auto split: prod.splits bool.splits)
  define p1 where "p1 = checked_dead c (p\<lparr>p_idle := cs @ rest, p_in_use := insert c (p_in_use p)\<rparr>)"
  have "checkout env waited k p n = checkout env waited (k + 1) p1 (pe_close env c n2)"
    using Cons.prems(1,2) by (subst checkout.simps) (simp add: checkout_turn_def ping p1_def)
  also have "\<dots> = checkout env waited (k + 1 + length cs) (after_dead cs rest p1) n1"
    using Cons.prems(1) more by (intro Cons.IH) (simp_all add: p1_def checked_dead_def)
  also have "after_dead cs rest p1 = after_dead (c # cs) rest p"
    by (cases p) (auto simp: p1_def checked_dead_def after_dead_def)
  finally show ?case by simp
qed

text \<open>A connection whose session broke is not lent again, and nothing is sent to find out.\<close>

lemma retired_fails_check: "state (k_session c) = BROKEN \<Longrightarrow> ping_ok env c = (False, c)"
  by (simp add: ping_ok_def is_retired_def)

text \<open>Two defects of bookkeeping.  A pool that lends before \<^verbatim>\<open>start\<close> grows past its maximum; a
  connection released twice by hand is idle twice, and the next two callers share it.\<close>

lemma late_start_exceeds_maximum:
  assumes "\<not> p_closed p" and "p_idle p = []" and "p_created p = p_max p - 1"
    and "checkout_turn False w p = (t, p1)"
  shows "t = Open_New \<and> p_created (add_warm d (opened w c p1)) = p_max p + 1"
  using assms by (auto simp: checkout_turn_def opened_def add_warm_def)

lemma double_release_shares:
  assumes "\<not> p_closed p" and "p_idle p = []"
    and "checkout_turn False w (snd (release c (snd (release c p)))) = (t, p1)"
    and "checkout_turn False w (checked_healthy w p1) = (u, p2)"
  shows "t = Check c \<and> u = Check c"
  using assms by (auto simp: release_def Let_def checkout_turn_def checked_healthy_def)

section \<open>Properties\<close>

text \<open>C19. However its callers interleave, a pool never lends one connection twice and never outgrows its
  maximum.  In every reachable state of the pool and its tasks the connections lent or under check are
  distinct and are exactly those marked in use, none of them is idle, and the number
  created is the number idle plus the number of tasks, at most the maximum; a caller waits only
  when the maximum of tasks is in flight; once every task is done, every connection is idle; a closed pool
  keeps none; and the hits and creations counted are the acquisitions and the connections being opened.\<close>

theorem pool_single_owner:
  assumes "pool_reach (p, ts)"
  shows "(\<forall>c. count (conns ts) c \<le> 1) \<and> set_mset (conns ts) = p_in_use p \<and> distinct (p_idle p) \<and>
    p_in_use p \<inter> set (p_idle p) = {} \<and>
    p_created p = int (length (p_idle p)) + int (size ts) \<and> p_created p \<le> p_max p \<and>
    (fst (checkout_turn False w p) = Wait \<longrightarrow> int (size ts) = p_max p) \<and>
    (ts = {#} \<longrightarrow> p_in_use p = {} \<and> p_created p = int (length (p_idle p))) \<and>
    (p_closed p \<longrightarrow> p_idle p = []) \<and>
    pm_hits (p_metrics p) + pm_creates (p_metrics p) = pm_acquires (p_metrics p) + int (count ts Opening)"
proof -
  have i: "pool_inv p ts" by (rule pool_reach_inv [OF assms])
  then have c: "conns ts = mset_set (p_in_use p)" "finite (p_in_use p)" by (simp_all add: pool_inv_def)
  have one: "\<forall>c. count (conns ts) c \<le> 1" unfolding c(1) using c(2) by (simp add: count_mset_set')
  have s: "set_mset (conns ts) = p_in_use p" using c by simp
  have w: "fst (checkout_turn False w p) = Wait \<longrightarrow> int (size ts) = p_max p"
    using i by (auto simp: checkout_turn_def pool_inv_def split: if_splits list.splits)
  have e: "ts = {#} \<longrightarrow> p_in_use p = {} \<and> p_created p = int (length (p_idle p))"
    using i s unfolding pool_inv_def by fastforce
  show ?thesis using i one s w e by (simp add: pool_inv_def)
qed

theorem pool_single_owner_witness:
  "p_created (checked_healthy 0 (snd (checkout_turn False 0 (warm_pool 2 [7 :: nat])))) \<le> 2"
proof -
  let ?p = "snd (checkout_turn False 0 (warm_pool 2 [7 :: nat]))"
  have t: "checkout_turn False 0 (warm_pool 2 [7 :: nat]) = (Check 7, ?p)"
    by (simp add: checkout_turn_def warm_pool_simps)
  have "pool_reach (warm_pool 2 [7 :: nat], {#})" by (rule pr_new) simp_all
  from pr_step [OF this ps_turn [OF t]] have "pool_reach (?p, {#Checking 7#})" by simp
  from pr_step [OF this ps_healthy] have r: "pool_reach (checked_healthy 0 ?p, {#Lent 7#})" .
  have "p_max (checked_healthy 0 ?p) = 2" by (simp add: checked_healthy_def checkout_turn_def warm_pool_simps)
  then show ?thesis using pool_single_owner [OF r, of 0] by simp
qed

text \<open>C20. A caller gets the first idle connection that is healthy.  The idle connections before it that
  fail their check are closed and no longer counted; if none is healthy one is opened in their place, and
  if opening it fails the slot is given back; only a pool with every connection lent lets the
  caller wait, until the deadline, and then tells how many are lent.\<close>

theorem checkout_finds_healthy:
  assumes "\<not> p_closed p" and "p_idle p = dead @ rest" and "refused env dead n = Some n1"
  shows "(\<forall>c cs n2. rest = c # cs \<longrightarrow> pe_ping_ok env c n1 = (True, n2) \<longrightarrow>
      (\<exists>q. checkout env waited 0 p n = (Inr c, q, n2) \<and> p_idle q = cs \<and>
        p_in_use q = insert c (p_in_use p - set dead) \<and> p_created q = p_created p - int (length dead))) \<and>
    (rest = [] \<longrightarrow> p_created p \<le> p_max p \<longrightarrow> dead \<noteq> [] \<or> p_created p < p_max p \<longrightarrow>
      (\<exists>q. checkout env waited 0 p n = (fst (pe_open env n1), q, snd (pe_open env n1)) \<and> p_idle q = [] \<and>
        (case fst (pe_open env n1) of
           Inl e \<Rightarrow> p_in_use q = p_in_use p - set dead \<and> p_created q = p_created p - int (length dead)
         | Inr c \<Rightarrow> p_in_use q = insert c (p_in_use p - set dead) \<and>
             p_created q = p_created p - int (length dead) + 1))) \<and>
    (rest = [] \<longrightarrow> dead = [] \<longrightarrow> p_created p = p_max p \<longrightarrow>
      (\<exists>q d. checkout env waited 0 p n = (Inl (PoolTimeoutError d), q, n) \<and>
        pd_active d = card (p_in_use p) \<and> p_idle q = [] \<and> p_in_use q = p_in_use p \<and> p_created q = p_created p))"
proof -
  note skip = checkout_skips_dead [OF assms, of waited 0, simplified]
  have open': "\<not> p_closed (after_dead dead rest p)" using assms(1) by (simp add: after_dead_def)
  have hit: "\<exists>q. checkout env waited 0 p n = (Inr c, q, n2) \<and> p_idle q = cs \<and>
        p_in_use q = insert c (p_in_use p - set dead) \<and> p_created q = p_created p - int (length dead)"
    if "rest = c # cs" "pe_ping_ok env c n1 = (True, n2)" for c cs n2
    using that open' unfolding skip
    by (subst checkout.simps) (simp add: checkout_turn_def after_dead_def checked_healthy_def)
  have grow: "\<exists>q. checkout env waited 0 p n = (fst (pe_open env n1), q, snd (pe_open env n1)) \<and> p_idle q = [] \<and>
        (case fst (pe_open env n1) of
           Inl e \<Rightarrow> p_in_use q = p_in_use p - set dead \<and> p_created q = p_created p - int (length dead)
         | Inr c \<Rightarrow> p_in_use q = insert c (p_in_use p - set dead) \<and>
             p_created q = p_created p - int (length dead) + 1)"
    if "rest = []" "p_created p \<le> p_max p" "dead \<noteq> [] \<or> p_created p < p_max p"
  proof -
    have room: "p_created (after_dead dead rest p) < p_max (after_dead dead rest p)"
      using that(2,3) by (cases dead) (auto simp: after_dead_def)
    obtain r n2 where o: "pe_open env n1 = (r, n2)" by fastforce
    show ?thesis using open' room that(1) unfolding skip
      by (subst checkout.simps)
        (cases r; simp add: checkout_turn_def after_dead_def opened_def open_failed_def o)
  qed
  have full: "\<exists>q d. checkout env waited 0 p n = (Inl (PoolTimeoutError d), q, n) \<and>
        pd_active d = card (p_in_use p) \<and> p_idle q = [] \<and> p_in_use q = p_in_use p \<and> p_created q = p_created p"
    if "rest = []" "dead = []" "p_created p = p_max p"
    using that assms(1,2) by (subst checkout.simps) (simp add: checkout_turn_def timeout_error_def)
  show ?thesis using hit grow full by blast
qed

text \<open>A pool of numbered connections of which only the even ones are alive; the state lists the closed ones.\<close>

definition even_env :: "(nat list, nat) pool_env" where
  "even_env = \<lparr>pe_ping_ok = (\<lambda>c n. (even c, n)), pe_open = (\<lambda>n. (Inr 10, n)), pe_close = (\<lambda>c n. n @ [c])\<rparr>"

theorem checkout_finds_healthy_witness:
  "\<exists>q. checkout even_env 0 0 (warm_pool 3 [1, 3, 4]) [] = (Inr 4, q, [1, 3]) \<and> p_idle q = [] \<and> p_created q = 1"
proof -
  have "\<not> p_closed (warm_pool 3 [1, 3, 4 :: nat])" "p_idle (warm_pool 3 [1, 3, 4 :: nat]) = [1, 3] @ [4]"
      "refused even_env [1, 3] [] = Some [1, 3]"
    by (simp_all add: warm_pool_simps even_env_def)
  from checkout_finds_healthy [OF this, of 0]
  show ?thesis by (auto simp: even_env_def warm_pool_simps)
qed

text \<open>C21. Timeouts drain the asynchronous pool for good.  A timeout that strikes while a connection is being
  opened or checked never gives its slot back: for every maximum there is a reachable state in which no task is
  left, none was ever lent, and yet from there on, whatever happens, no caller is given a
  connection to check or the right to open one: it waits or is told that the pool is closed.\<close>

theorem timed_out_acquires_exhaust_pool:
  assumes "1 \<le> m"
  shows "\<exists>p lost. async_reach (p :: 'c pool, {#}, lost) \<and> p_max p = m \<and> p_idle p = [] \<and> p_in_use p = {} \<and>
    (\<forall>p' ts' lost'. async_step\<^sup>*\<^sup>* (p, {#}, lost) (p', ts', lost') \<longrightarrow>
       ts' = {#} \<and> fst (checkout_turn expired w p') \<in> {Wait, Time_Out, Closed_Pool})"
proof -
  have drain: "\<exists>p. async_reach (p :: 'c pool, {#}, replicate_mset k Opening) \<and> p_max p = m \<and> p_idle p = [] \<and>
      p_in_use p = {} \<and> p_created p = int k \<and> \<not> p_closed p" if "int k \<le> m" for k
    using that
  proof (induction k)
    case 0
    have "async_reach (warm_pool m ([] :: 'c list), {#}, {#})" using assms by (intro ar_new) simp_all
    then show ?case
      by (intro exI [of _ "warm_pool m []"]) (simp add: warm_pool_simps)
  next
    case (Suc k)
    then obtain p :: "'c pool" where p: "async_reach (p, {#}, replicate_mset k Opening)" "p_max p = m" "p_idle p = []"
        "p_in_use p = {}" "p_created p = int k" "\<not> p_closed p" by auto
    define q where "q = snd (checkout_turn False 0 p)"
    have t: "checkout_turn False 0 p = (Open_New, q)" using p Suc.prems by (simp add: checkout_turn_def q_def)
    have "async_reach (q, {#Opening#}, replicate_mset k Opening)"
      using ar_step [OF p(1) as_step [OF ps_turn [OF t]]] by simp
    from ar_step [OF this as_cancel_open]
    have "async_reach (cancelled 0 q, {#}, replicate_mset (Suc k) Opening)" by simp
    then show ?case using p Suc.prems
      by (intro exI [of _ "cancelled 0 q"]) (simp add: q_def cancelled_def checkout_turn_def)
  qed
  obtain p :: "'c pool" where p: "async_reach (p, {#}, replicate_mset (nat m) Opening)" "p_max p = m" "p_idle p = []" "p_in_use p = {}"
    using drain [of "nat m"] assms by auto
  have stuck: "async_reach (p', ts', lost') \<and> p_max p' = m \<and> replicate_mset (nat m) Opening \<subseteq># lost'"
    if "async_step\<^sup>*\<^sup>* (p, {#}, replicate_mset (nat m) Opening) (p', ts', lost')" for p' ts' lost'
    using that
  proof (induction "(p', ts', lost')" arbitrary: p' ts' lost' rule: rtranclp_induct)
    case base
    then show ?case using p by simp
  next
    case (step s)
    obtain q us ls where s: "s = (q, us, ls)" by (cases s)
    have h: "async_reach (q, us, ls)" "p_max q = m" "replicate_mset (nat m) Opening \<subseteq># ls" using step(3) [OF s] by auto
    have "p_max p' = p_max q \<and> ls \<subseteq># lost'"
      using async_step_keeps [OF step(2) [unfolded s] async_reach_inv [OF h(1)]] by simp
    then show ?case using h ar_step [OF h(1) step(2) [unfolded s]] by (auto intro: subset_mset.order_trans)
  qed
  have "ts' = {#} \<and> fst (checkout_turn expired w p') \<in> {Wait, Time_Out, Closed_Pool}"
    if "async_step\<^sup>*\<^sup>* (p, {#}, replicate_mset (nat m) Opening) (p', ts', lost')" for p' ts' lost'
  proof -
    note k = stuck [OF that]
    have "pool_inv p' (ts' + lost')" using async_reach_inv k by blast
    moreover have "int (size lost') \<ge> m" using k size_mset_mono [of "replicate_mset (nat m) Opening" lost'] assms by simp
    ultimately have n: "size ts' = 0" "length (p_idle p') = 0" "p_created p' = m"
      using k unfolding pool_inv_def size_union of_nat_add by linarith+
    then show ?thesis using k by (simp add: checkout_turn_def)
  qed
  then show ?thesis using p by blast
qed

theorem timed_out_acquires_exhaust_pool_witness:
  "\<exists>p lost. async_reach (p :: nat pool, {#}, lost) \<and> p_in_use p = {} \<and> fst (checkout_turn False 0 p) \<in> {Wait, Time_Out, Closed_Pool}"
proof -
  have "\<exists>p lost. async_reach (p :: nat pool, {#}, lost) \<and> p_max p = 3 \<and> p_idle p = [] \<and> p_in_use p = {} \<and>
    (\<forall>p' ts' lost'. async_step\<^sup>*\<^sup>* (p, {#}, lost) (p', ts', lost') \<longrightarrow>
       ts' = {#} \<and> fst (checkout_turn False 0 p') \<in> {Wait, Time_Out, Closed_Pool})"
    by (rule timed_out_acquires_exhaust_pool) simp
  then show ?thesis by blast
qed

end
