(* ===== verification/Sap_Router.thy ===== *)
theory Sap_Router
  imports Server_Frames Client_Session Ni_Transport
begin

text \<open>
  SAProuter routes and the message server, \<^verbatim>\<open>src/saprfclib/router.py\<close>: route strings and the route
  request, the binary protocol of the message server (frames, list replies in text, the older table of
  entries) with the resolution of a logon group, and its HTTP interface.

  A transport is a pair of operations on a state \<open>'n\<close>; the HTTP client is a function from a URL.
\<close>

section \<open>Route strings\<close>

record route_hop =
  rh_host :: pystr
  rh_service :: pystr
  rh_password :: pystr
  rh_talk_mode :: nat

definition hop_to :: "pystr \<Rightarrow> route_hop" where
  "hop_to h = \<lparr>rh_host = h, rh_service = [], rh_password = [], rh_talk_mode = 0\<rparr>"

definition update_last :: "(route_hop \<Rightarrow> route_hop) \<Rightarrow> route_hop list \<Rightarrow> route_hop list" where
  "update_last f hops = butlast hops @ [f (last hops)]"

fun parse_hops :: "pystr list \<Rightarrow> route_hop list \<Rightarrow> route_hop list res" where
  "parse_hops [] hops = Inr hops"
| "parse_hops [marker] hops = Inl ValueError"
| "parse_hops (marker # v # rest) hops =
     (if marker = lit ''H'' then parse_hops rest (hops @ [hop_to v])
      else if marker = lit ''S'' then
        (if hops = [] then Inl ValueError
         else parse_hops rest (update_last (\<lambda>h. h\<lparr>rh_service := v\<rparr>) hops))
      else if marker = lit ''P'' then
        (if hops = [] then Inl ValueError
         else parse_hops rest (update_last (\<lambda>h. h\<lparr>rh_password := v\<rparr>) hops))
      else Inl ValueError)"

definition parse_route_string :: "pystr \<Rightarrow> route_hop list res" where
  "parse_route_string route =
     (if \<not> starts_with (lit ''/'') route then Inl ValueError
      else bind_res (parse_hops (tl (split_on 47 route)) [])
        (\<lambda>hops. if hops = [] then Inl ValueError else Inr hops))"

section \<open>The route request\<close>

definition NI_ROUTE_MARKER :: bytes where "NI_ROUTE_MARKER = blit ''NI_ROUTE''"

definition null_term :: "pystr \<Rightarrow> bytes res" where
  "null_term s = map_res (\<lambda>b. b @ [0]) (opt_res UnicodeError (ascii_encode s))"

definition route_entry :: "pystr \<Rightarrow> pystr \<Rightarrow> pystr \<Rightarrow> bytes res" where
  "route_entry host service password =
     map_res concat (seq_res [null_term host, null_term service, null_term password])"

definition counted_entry :: "bytes \<Rightarrow> bytes res" where
  "counted_entry e = map_res (\<lambda>l. l @ e) (pack_u32 (length e))"

definition build_ni_route :: "route_hop list \<Rightarrow> pystr \<Rightarrow> pystr \<Rightarrow> bytes res" where
  "build_ni_route hops dest_host dest_service =
     (if hops = [] then Inl ValueError
      else bind_res (seq_res (map (\<lambda>h. route_entry (rh_host h) (rh_service h) (rh_password h)) hops)) (\<lambda>entries.
        bind_res (route_entry dest_host dest_service []) (\<lambda>dest.
        bind_res (pack_u32 (length hops)) (\<lambda>count.
        bind_res (pack_u32 (length (concat entries) + length dest)) (\<lambda>total.
        bind_res (seq_res (map counted_entry entries)) (\<lambda>parts.
          Inr (NI_ROUTE_MARKER @ [0] @ [2] @ [0x28] @ [2] @ count @ total @ concat parts @ dest)))))))"

text \<open>\<open>shown\<close> is the \<^verbatim>\<open>repr\<close> of bytes.\<close>

definition open_route ::
    "(bytes \<Rightarrow> ('n, unit) act) \<Rightarrow> ('n, bytes) act \<Rightarrow> (bytes \<Rightarrow> pystr) \<Rightarrow> route_hop list \<Rightarrow> pystr \<Rightarrow> pystr \<Rightarrow> ('n, unit) act" where
  "open_route send recv shown hops dest_host dest_service n =
     (case build_ni_route hops dest_host dest_service of
        Inl e \<Rightarrow> (Inl e, n)
      | Inr msg \<Rightarrow>
          (case send msg n of
             (Inl e, n1) \<Rightarrow> (Inl e, n1)
           | (Inr u, n1) \<Rightarrow>
               (case recv n1 of
                  (Inl e, n2) \<Rightarrow> (Inl e, n2)
                | (Inr ack, n2) \<Rightarrow>
                    (if is_ni_pong ack then Inr ()
                     else Inl (SapRfcError (lit ''SAProuter answered the route request with '' @ shown (take 16 ack)
                       @ lit '' rather than the expected NI_PONG acknowledgement; refusing to continue on a connection whose framing is no longer known'')), n2))))"

section \<open>The table of servers\<close>

definition SAPMS_MAGIC :: bytes where "SAPMS_MAGIC = blit ''**MESSAGE**''"
definition SAPMS_HEADER_SIZE :: nat where "SAPMS_HEADER_SIZE = 118"
definition SAPMS_ENTRY_SIZE :: nat where "SAPMS_ENTRY_SIZE = 160"
definition ENTRY_HOSTADDRV4_OFFSET :: nat where "ENTRY_HOSTADDRV4_OFFSET = 141"
definition ENTRY_PORT_OFFSET :: nat where "ENTRY_PORT_OFFSET = 145"

definition inet_ntoa :: "bytes \<Rightarrow> pystr" where
  "inet_ntoa bs = join_with [46] (map (dec_digits \<circ> unat) bs)"

definition server_entry :: "bytes \<Rightarrow> nat \<Rightarrow> (pystr \<times> nat) res" where
  "server_entry frame i =
     (let start = SAPMS_HEADER_SIZE + i * SAPMS_ENTRY_SIZE;
          ip = py_slice (start + ENTRY_HOSTADDRV4_OFFSET) (start + ENTRY_HOSTADDRV4_OFFSET + 4) frame
      in if start + SAPMS_ENTRY_SIZE > length frame then Inl ValueError
         else if length ip < 4 then Inl ValueError
         else Inr (inet_ntoa ip, be_val (py_slice (start + ENTRY_PORT_OFFSET) (start + ENTRY_PORT_OFFSET + 2) frame)))"

definition parse_sapms_server_list :: "bytes \<Rightarrow> (pystr \<times> nat) list res" where
  "parse_sapms_server_list frame =
     (if length frame < SAPMS_HEADER_SIZE then Inl ValueError
      else if be_val (take 4 frame) \<noteq> length frame - 4 then Inl ValueError
      else if py_slice 4 15 frame \<noteq> SAPMS_MAGIC then Inl ValueError
      else if (length frame - SAPMS_HEADER_SIZE) mod SAPMS_ENTRY_SIZE \<noteq> 0 then Inl ValueError
      else seq_res (map (server_entry frame) [0..<(length frame - SAPMS_HEADER_SIZE) div SAPMS_ENTRY_SIZE]))"

section \<open>Frames of the message server\<close>

definition SAPMS_MAGIC_FULL :: bytes where "SAPMS_MAGIC_FULL = SAPMS_MAGIC @ [0]"
definition SAPMS_HEADER_LEN :: nat where "SAPMS_HEADER_LEN = 110"
definition SAPMS_VERSION :: byte where "SAPMS_VERSION = 4"
definition OFF_VERSION :: nat where "OFF_VERSION = 12"
definition OFF_ERRORNO :: nat where "OFF_ERRORNO = 13"
definition OFF_TONAME :: nat where "OFF_TONAME = 14"
definition OFF_MSGTYPE :: nat where "OFF_MSGTYPE = 54"
definition OFF_FLAG :: nat where "OFF_FLAG = 66"
definition OFF_OPERATION :: nat where "OFF_OPERATION = 67"
definition OFF_FROMNAME :: nat where "OFF_FROMNAME = 68"
definition OFF_SERVNO :: nat where "OFF_SERVNO = 108"
definition NAME_LEN :: nat where "NAME_LEN = 40"
definition FLAG_CLIENT :: byte where "FLAG_CLIENT = 2"
definition OP_ATTACH :: byte where "OP_ATTACH = 8"
definition OP_REQUEST :: byte where "OP_REQUEST = 1"
definition OP_DETACH :: byte where "OP_DETACH = 4"
definition OPCODE_REQUEST :: bytes where "OPCODE_REQUEST = [0x1E, 0, 1, 1]"
definition OPCODE_REPLY :: bytes where "OPCODE_REPLY = [0x1E, 0, 1, 3]"
definition SEL_SERVER_LIST :: byte where "SEL_SERVER_LIST = 0x1D"
definition SEL_GROUP_LIST :: byte where "SEL_GROUP_LIST = 0x1F"
definition REQUEST_BODY_LEN :: nat where "REQUEST_BODY_LEN = 52"

definition MS_ERRORS :: "(int \<times> pystr) list" where
  "MS_ERRORS =
     [(- 12, lit ''invalid client version''), (- 18, lit ''message server shutdown''),
      (- 20, lit ''access denied''), (- 25, lit ''message server soft shutdown'')]"

definition int_digits :: "int \<Rightarrow> pystr" where
  "int_digits z = (if z < 0 then 45 # dec_digits (nat (- z)) else dec_digits (nat z))"

definition decode_ms_errorno :: "bytes \<Rightarrow> int res" where
  "decode_ms_errorno body =
     (if length body \<le> OFF_ERRORNO then Inl ValueError
      else let raw = int (unat (body ! OFF_ERRORNO)) in Inr (if raw > 127 then raw - 256 else raw))"

definition describe_ms_errorno :: "int \<Rightarrow> pystr" where
  "describe_ms_errorno code =
     (case map_of MS_ERRORS code of None \<Rightarrow> lit ''message server error '' @ int_digits code | Some t \<Rightarrow> t)"

text \<open>\<^verbatim>\<open>encode("ascii", "replace")\<close> writes a question mark for a character it cannot encode.\<close>

definition ms_name :: "pystr \<Rightarrow> bytes" where
  "ms_name name = ljust NAME_LEN 32 (take NAME_LEN (map (\<lambda>c. if c < 128 then word_of_nat c else 63) name))"

definition build_sapms_frame ::
    "byte \<Rightarrow> pystr \<Rightarrow> pystr \<Rightarrow> byte \<Rightarrow> nat \<Rightarrow> nat \<Rightarrow> byte \<Rightarrow> bytes \<Rightarrow> bytes res" where
  "build_sapms_frame operation toname fromname flag msgtype servno version body =
     (let buf = replicate SAPMS_HEADER_LEN 0;
          buf = put_slice 0 (length SAPMS_MAGIC_FULL) SAPMS_MAGIC_FULL buf;
          buf = buf[OFF_VERSION := version];
          buf = buf[OFF_ERRORNO := 0];
          buf = put_slice OFF_TONAME (OFF_TONAME + NAME_LEN) (ms_name toname) buf;
          buf = buf[OFF_MSGTYPE := word_of_nat (msgtype mod 256)];
          buf = buf[OFF_FLAG := flag];
          buf = buf[OFF_OPERATION := operation];
          buf = put_slice OFF_FROMNAME (OFF_FROMNAME + NAME_LEN) (ms_name fromname) buf
      in if servno < 2 ^ 16 then Inr (pack_at OFF_SERVNO (be_bytes 2 servno) buf @ body) else Inl StructError)"

definition build_ms_list_request :: "byte \<Rightarrow> bytes res" where
  "build_ms_list_request selector =
     build_sapms_frame OP_REQUEST (lit ''MSG_SERVER'') (lit ''-'') FLAG_CLIENT 0 0 SAPMS_VERSION
       ((put_slice 0 4 OPCODE_REQUEST (replicate REQUEST_BODY_LEN 0))[4 := FLAG_CLIENT, 11 := selector])"

definition build_sapms_login_frame :: "bytes res" where
  "build_sapms_login_frame = build_sapms_frame OP_ATTACH (lit ''-'') (lit ''-'') FLAG_CLIENT 0 0 SAPMS_VERSION []"

definition build_sapms_server_list_request :: "bytes res" where
  "build_sapms_server_list_request = build_ms_list_request SEL_SERVER_LIST"

definition build_sapms_group_list_request :: "bytes res" where
  "build_sapms_group_list_request = build_ms_list_request SEL_GROUP_LIST"

definition build_sapms_detach_frame :: "bytes res" where
  "build_sapms_detach_frame = build_sapms_frame OP_DETACH (lit ''-'') (lit ''-'') FLAG_CLIENT 0 0 SAPMS_VERSION []"

definition sapms_body :: "bytes \<Rightarrow> bytes" where
  "sapms_body frame = (if py_slice 4 16 frame = SAPMS_MAGIC_FULL then drop 4 frame else frame)"

definition name_field :: "nat \<Rightarrow> bytes \<Rightarrow> pystr" where
  "name_field off body = rstrip_by is_space (ascii_replace (py_slice off (off + NAME_LEN) body))"

definition parse_sapms_reply :: "bytes \<Rightarrow> (int \<times> pystr \<times> pystr \<times> byte) res" where
  "parse_sapms_reply frame =
     (let body = sapms_body frame in
      if length body < SAPMS_HEADER_LEN then Inl ValueError
      else if take (length SAPMS_MAGIC_FULL) body \<noteq> SAPMS_MAGIC_FULL then Inl ValueError
      else map_res (\<lambda>errorno. (errorno, name_field OFF_TONAME body, name_field OFF_FROMNAME body, body ! OFF_MSGTYPE))
        (decode_ms_errorno body))"

section \<open>Lists in text\<close>

lemma splitlines_decreases:
  "dropWhile P s = c # r \<Longrightarrow> length (if b then tl r else r) < length s"
proof -
  assume "dropWhile P s = c # r"
  then have "length (c # r) \<le> length s" by (metis length_dropWhile_le)
  then show ?thesis by (cases r; cases b) auto
qed

function splitlines :: "pystr \<Rightarrow> pystr list" where
  "splitlines s =
     (if s = [] then []
      else first_line s #
        (case dropWhile (\<lambda>c. \<not> is_line_break c) s of
           [] \<Rightarrow> []
         | c # r \<Rightarrow> splitlines (if c = 13 \<and> starts_with [10] r then tl r else r)))"
  by pat_completeness auto

termination
  by (relation "measure length") (auto dest: splitlines_decreases [where b = True] splitlines_decreases [where b = False])

declare splitlines.simps [simp del]

text \<open>\<^verbatim>\<open>pair.partition("=")\<close>, and the pairs of a line.\<close>

definition pair_of :: "pystr \<Rightarrow> (pystr \<times> pystr) option" where
  "pair_of s =
     (case dropWhile (\<lambda>c. c \<noteq> 61) s of
        [] \<Rightarrow> None | c # v \<Rightarrow> Some (py_strip (takeWhile (\<lambda>c. c \<noteq> 61) s), py_strip v))"

type_synonym ms_record = "(pystr \<times> pystr) list"

definition add_pair :: "pystr \<Rightarrow> ms_record \<Rightarrow> ms_record" where
  "add_pair s r = (case pair_of s of None \<Rightarrow> r | Some (k, v) \<Rightarrow> AList.update k v r)"

definition record_of_line :: "pystr \<Rightarrow> ms_record" where
  "record_of_line line = fold add_pair (split_on 124 line) []"

definition records_of_text :: "pystr \<Rightarrow> ms_record list" where
  "records_of_text txt =
     filter (\<lambda>r. r \<noteq> []) (map record_of_line (filter (\<lambda>l. py_strip l \<noteq> []) (splitlines txt)))"

definition parse_ms_list_reply :: "bytes \<Rightarrow> ms_record list res" where
  "parse_ms_list_reply frame =
     (let body = sapms_body frame; payload = drop SAPMS_HEADER_LEN body in
      if length body < SAPMS_HEADER_LEN + 4 then Inl ValueError
      else if take 4 payload \<noteq> OPCODE_REPLY then Inl ValueError
      else Inr (records_of_text (py_strip (rstrip_by (\<lambda>c. c = 0) (latin1_decode (drop 4 payload))))))"

section \<open>Resolving a logon group\<close>

definition refused_by_server :: "pystr \<Rightarrow> int \<Rightarrow> exn" where
  "refused_by_server what errorno =
     SapRfcError (lit ''message server refused the '' @ what @ lit '': '' @ describe_ms_errorno errorno
       @ lit '' (return code '' @ int_digits errorno @ lit '')'')"

definition field_of :: "pystr \<Rightarrow> ms_record \<Rightarrow> pystr" where
  "field_of k r = (case map_of r k of None \<Rightarrow> [] | Some v \<Rightarrow> v)"

definition chosen_server :: "ms_record list \<Rightarrow> (pystr \<times> int) res" where
  "chosen_server records =
     (case records of
        [] \<Rightarrow> Inl ValueError
      | chosen # others \<Rightarrow>
          let ashost = field_of (lit ''HOSTNAME'') chosen in
          if ashost = [] \<or> ashost = lit ''0.0.0.0'' then Inl ValueError
          else case py_int (field_of (lit ''PORT'') chosen) of
            None \<Rightarrow> Inl ValueError
          | Some port \<Rightarrow>
              if 0 \<le> port - 3200 \<and> port - 3200 \<le> 99 then Inr (ashost, port - 3200) else Inl ValueError)"

text \<open>A message sent and its answer.\<close>

definition ms_exchange ::
    "(bytes \<Rightarrow> ('n, unit) act) \<Rightarrow> ('n, bytes) act \<Rightarrow> bytes res \<Rightarrow> ('n, bytes) act" where
  "ms_exchange send recv msg n =
     (case msg of
        Inl e \<Rightarrow> (Inl e, n)
      | Inr m \<Rightarrow> (case send m n of (Inl e, n1) \<Rightarrow> (Inl e, n1) | (Inr u, n1) \<Rightarrow> recv n1))"

definition check_attach :: "bytes \<Rightarrow> unit res" where
  "check_attach reply =
     bind_res (parse_sapms_reply reply) (\<lambda>(errorno, to_name, from_name, msgtype).
       if errorno \<noteq> 0 then Inl (refused_by_server (lit ''attach'') errorno) else Inr ())"

definition listed_servers :: "bytes \<Rightarrow> ms_record list res" where
  "listed_servers reply =
     bind_res (decode_ms_errorno (sapms_body reply)) (\<lambda>errorno.
       if errorno \<noteq> 0 then Inl (refused_by_server (lit ''server-list request'') errorno)
       else parse_ms_list_reply reply)"

definition resolve_full ::
    "(bytes \<Rightarrow> ('n, unit) act) \<Rightarrow> ('n, bytes) act \<Rightarrow> pystr \<Rightarrow> pystr \<Rightarrow> ('n, pystr \<times> int) act" where
  "resolve_full send recv grp sysid n =
     (case ms_exchange send recv build_sapms_login_frame n of
        (Inl e, n1) \<Rightarrow> (Inl e, n1)
      | (Inr attach_reply, n1) \<Rightarrow>
          (case check_attach attach_reply of
             Inl e \<Rightarrow> (Inl e, n1)
           | Inr u \<Rightarrow>
               (case ms_exchange send recv build_sapms_server_list_request n1 of
                  (Inl e, n2) \<Rightarrow> (Inl e, n2)
                | (Inr list_reply, n2) \<Rightarrow>
                    (case listed_servers list_reply of
                       Inl e \<Rightarrow> (Inl e, n2)
                     | Inr records \<Rightarrow>
                         (case (case build_sapms_detach_frame of Inl e \<Rightarrow> (Inl e, n2) | Inr m \<Rightarrow> send m n2) of
                            (Inl e, n3) \<Rightarrow> if isinstance e C_OSError then (chosen_server records, n3) else (Inl e, n3)
                          | (Inr u, n3) \<Rightarrow> (chosen_server records, n3))))))"

definition resolve ::
    "(bytes \<Rightarrow> ('n, unit) act) \<Rightarrow> ('n, bytes) act \<Rightarrow> pystr \<Rightarrow> ('n, pystr \<times> int) act" where
  "resolve send recv grp = resolve_full send recv grp []"

section \<open>The HTTP interface\<close>

definition quote_safe :: "byte \<Rightarrow> bool" where
  "quote_safe b \<longleftrightarrow>
     (let c = unat b in (65 \<le> c \<and> c \<le> 90) \<or> (97 \<le> c \<and> c \<le> 122) \<or> is_digit c \<or> c \<in> set (lit ''_.-~/''))"

text \<open>\<^verbatim>\<open>urllib.parse.quote\<close>.\<close>

definition py_quote :: "pystr \<Rightarrow> pystr res" where
  "py_quote s =
     map_res (\<lambda>bs. concat (map (\<lambda>b. if quote_safe b then [unat b]
        else [37, hex_digit (unat b div 16), hex_digit (unat b mod 16)]) bs))
       (opt_res UnicodeError (utf8_encode s))"

definition ms_http_url :: "pystr \<Rightarrow> int \<Rightarrow> pystr option \<Rightarrow> pystr res" where
  "ms_http_url mshost http_port grp =
     (let url = lit ''http://'' @ mshost @ lit '':'' @ int_digits http_port @ lit ''/msgserver/text/logon?version=1.2''
      in case grp of
           None \<Rightarrow> Inr url
         | Some g \<Rightarrow> if g = [] then Inr url else map_res (\<lambda>q. url @ lit ''&group='' @ q) (py_quote g))"

definition http_row :: "pystr \<Rightarrow> (pystr \<times> pystr \<times> int \<times> pystr) option" where
  "http_row line =
     (let parts = split_on 9 line in
      if length parts < 3 then None
      else case py_int (py_strip (parts ! 2)) of
        None \<Rightarrow> None
      | Some port \<Rightarrow> Some (py_strip (parts ! 0), py_strip (parts ! 1), port,
          if length parts > 3 then py_strip (parts ! 3) else []))"

definition parse_ms_http_logon :: "pystr \<Rightarrow> (pystr \<times> pystr \<times> int \<times> pystr) list" where
  "parse_ms_http_logon body = List.map_filter http_row (drop 2 (splitlines body))"

definition parse_ms_http_lglist :: "pystr \<Rightarrow> (pystr \<times> pystr \<times> int) list" where
  "parse_ms_http_lglist body =
     map (\<lambda>(g, h, port, x). (g, h, port)) (List.map_filter http_row (drop 1 (splitlines body)))"

definition resolve_rfc_server_http ::
    "(pystr \<Rightarrow> bytes res) \<Rightarrow> (bytes \<Rightarrow> pystr) \<Rightarrow> pystr \<Rightarrow> int \<Rightarrow> pystr option \<Rightarrow> (pystr \<times> int) res" where
  "resolve_rfc_server_http fetch u8 mshost http_port grp =
     bind_res (ms_http_url mshost http_port grp) (\<lambda>url.
       case fetch url of
         Inl e \<Rightarrow> if isinstance e C_OSError \<or> isinstance e C_ValueError then Inl MessageServerHttpError else Inl e
       | Inr body \<Rightarrow>
           (case List.find (\<lambda>(service, host, port, x). service = lit ''RFC'') (parse_ms_http_logon (u8 body)) of
              None \<Rightarrow> Inl MessageServerHttpError
            | Some (service, host, port, x) \<Rightarrow> Inr (host, port)))"

section \<open>Route strings are read back\<close>

definition hop_tokens :: "route_hop \<Rightarrow> pystr list" where
  "hop_tokens h =
     [lit ''H'', rh_host h] @ (if rh_service h = [] then [] else [lit ''S'', rh_service h])
       @ (if rh_password h = [] then [] else [lit ''P'', rh_password h])"

definition route_text :: "route_hop list \<Rightarrow> pystr" where
  "route_text hops = concat (map (\<lambda>t. 47 # t) (concat (map hop_tokens hops)))"

definition plain_hop :: "route_hop \<Rightarrow> bool" where
  "plain_hop h \<longleftrightarrow> 47 \<notin> set (rh_host h) \<and> 47 \<notin> set (rh_service h) \<and> 47 \<notin> set (rh_password h) \<and> rh_talk_mode h = 0"

lemma split_tokens:
  "list_all (\<lambda>t. c \<notin> set t) ts \<Longrightarrow> split_on c (concat (map (\<lambda>t. c # t) ts)) = [] # ts"
proof (induction ts)
  case (Cons t ts)
  then show ?case
    by (cases ts) (auto simp: split_on_no_sep split_on_append_sep)
qed simp

lemma parse_hop:
  assumes "rh_talk_mode h = 0"
  shows "parse_hops (hop_tokens h @ rest) hops = parse_hops rest (hops @ [h])"
  using assms by (cases h) (auto simp: hop_tokens_def hop_to_def update_last_def)

lemma parse_hops_tokens:
  "list_all plain_hop hops \<Longrightarrow> parse_hops (concat (map hop_tokens hops)) acc = Inr (acc @ hops)"
proof (induction hops arbitrary: acc)
  case (Cons h hops)
  then show ?case using parse_hop [of h "concat (map hop_tokens hops)" acc] by (simp add: plain_hop_def)
qed simp

lemma route_string_read:
  assumes "hops \<noteq> []" and "list_all plain_hop hops"
  shows "parse_route_string (route_text hops) = Inr hops"
proof -
  have "list_all (\<lambda>t. 47 \<notin> set t) (concat (map hop_tokens hops))"
    using assms(2) by (auto simp: list_all_iff plain_hop_def hop_tokens_def)
  then have "split_on 47 (route_text hops) = [] # concat (map hop_tokens hops)"
    unfolding route_text_def by (rule split_tokens)
  moreover have "starts_with (lit ''/'') (route_text hops)"
    using assms(1) by (cases hops) (simp_all add: route_text_def hop_tokens_def starts_with_def)
  ultimately show ?thesis using parse_hops_tokens [OF assms(2), of "[]"] assms(1)
    by (simp add: parse_route_string_def)
qed

section \<open>A route request says which route it is for\<close>

definition wire_hop :: "route_hop \<Rightarrow> bool" where
  "wire_hop h \<longleftrightarrow> 0 \<notin> set (rh_host h) \<and> 0 \<notin> set (rh_service h) \<and> 0 \<notin> set (rh_password h) \<and> rh_talk_mode h = 0"

lemma word_of_ascii: "c < 128 \<Longrightarrow> d < 128 \<Longrightarrow> (word_of_nat c :: byte) = word_of_nat d \<longleftrightarrow> c = d"
  by (metis unat_word_of_nat_byte mod_less less_trans[of _ "128 :: nat" 256] numeral_less_iff semiring_norm(76,78,80,81))

lemma terminated_unique:
  assumes "map (word_of_nat :: nat \<Rightarrow> byte) s @ 0 # xs = map word_of_nat t @ 0 # ys"
    and "is_ascii s" "is_ascii t" "0 \<notin> set s" "0 \<notin> set t"
  shows "s = t \<and> xs = ys"
  using assms
proof (induction s arbitrary: t)
  have z: "c = 0" if "word_of_nat c = (0 :: byte)" "c < 128" for c
    using that word_of_ascii [of c 0] by simp
  case Nil
  then show ?case using z by (cases t) (auto simp: is_ascii_def)
next
  have z: "c = 0" if "word_of_nat c = (0 :: byte)" "c < 128" for c
    using that word_of_ascii [of c 0] by simp
  case (Cons c s)
  then obtain d t' where t: "t = d # t'" using z by (cases t) (auto simp: is_ascii_def)
  with Cons show ?case by (auto simp: word_of_ascii is_ascii_def)
qed

lemma null_term_Inr: "null_term s = Inr b \<longleftrightarrow> is_ascii s \<and> b = map word_of_nat s @ [0]"
  by (auto simp: null_term_def ascii_encode_def)

lemma route_entry_unique:
  assumes "route_entry h s p = Inr e" "route_entry h' s' p' = Inr e'" and "e @ xs = e' @ ys"
    and "0 \<notin> set h \<union> set s \<union> set p" "0 \<notin> set h' \<union> set s' \<union> set p'"
  shows "h = h' \<and> s = s' \<and> p = p' \<and> xs = ys"
proof -
  have e: "e = map word_of_nat h @ 0 # map word_of_nat s @ 0 # map word_of_nat p @ [0]" "is_ascii h" "is_ascii s" "is_ascii p"
    using assms(1) by (auto simp: route_entry_def seq_res_Inr_Cons null_term_Inr map_res_Inr)
  have e': "e' = map word_of_nat h' @ 0 # map word_of_nat s' @ 0 # map word_of_nat p' @ [0]" "is_ascii h'" "is_ascii s'" "is_ascii p'"
    using assms(2) by (auto simp: route_entry_def seq_res_Inr_Cons null_term_Inr map_res_Inr)
  have "map word_of_nat h @ 0 # (map word_of_nat s @ 0 # map word_of_nat p @ 0 # xs)
      = map word_of_nat h' @ 0 # (map word_of_nat s' @ 0 # map word_of_nat p' @ 0 # ys)"
    using assms(3) e(1) e'(1) by simp
  from terminated_unique [OF this] have 1: "h = h'"
      "map word_of_nat s @ 0 # map word_of_nat p @ 0 # xs = map word_of_nat s' @ 0 # (map word_of_nat p' @ 0 # ys)"
    using e e' assms(4,5) by auto
  from terminated_unique [OF 1(2)] have 2: "s = s'" "map word_of_nat p @ 0 # xs = map word_of_nat p' @ 0 # ys"
    using e e' assms(4,5) by auto
  from terminated_unique [OF 2(2)] show ?thesis using 1 2 e e' assms(4,5) by auto
qed

lemma seq_res_list: "seq_res (map f xs) = Inr ys \<longleftrightarrow> list_all2 (\<lambda>x y. f x = Inr y) xs ys"
proof (induction xs arbitrary: ys)
  case (Cons x xs)
  then show ?case by (cases ys) (auto simp: seq_res_Inr_Cons)
qed auto

definition entry_of_hop :: "route_hop \<Rightarrow> bytes res" where
  "entry_of_hop h = route_entry (rh_host h) (rh_service h) (rh_password h)"

lemma entries_unique:
  assumes "list_all2 (\<lambda>h e. entry_of_hop h = Inr e) hs es" "list_all2 (\<lambda>e p. counted_entry e = Inr p) es ps"
    and "list_all2 (\<lambda>h e. entry_of_hop h = Inr e) hs' es'" "list_all2 (\<lambda>e p. counted_entry e = Inr p) es' ps'"
    and "length hs = length hs'" and "concat ps @ d = concat ps' @ d'"
    and "list_all wire_hop hs" "list_all wire_hop hs'"
  shows "hs = hs' \<and> d = d'"
  using assms
proof (induction hs arbitrary: hs' es es' ps ps')
  case (Cons h hs)
  obtain h' hs1 where hs': "hs' = h' # hs1" using Cons.prems(5) by (cases hs') auto
  obtain e es1 p ps1 where e: "es = e # es1" "ps = p # ps1" "entry_of_hop h = Inr e" "counted_entry e = Inr p"
      "list_all2 (\<lambda>h e. entry_of_hop h = Inr e) hs es1" "list_all2 (\<lambda>e p. counted_entry e = Inr p) es1 ps1"
    using Cons.prems(1,2) by (auto simp: list_all2_Cons1)
  obtain e' es2 p' ps2 where e': "es' = e' # es2" "ps' = p' # ps2" "entry_of_hop h' = Inr e'" "counted_entry e' = Inr p'"
      "list_all2 (\<lambda>h e. entry_of_hop h = Inr e) hs1 es2" "list_all2 (\<lambda>e p. counted_entry e = Inr p) es2 ps2"
    using Cons.prems(3,4) by (auto simp: list_all2_Cons1 hs')
  have p: "p = be_bytes 4 (length e) @ e" "p' = be_bytes 4 (length e') @ e'"
    using e(4) e'(4) by (auto simp: counted_entry_def pack_u32_def split: if_splits)
  have "e @ concat ps1 @ d = e' @ concat ps2 @ d'"
    using Cons.prems(6) by (simp add: e(2) e'(2) p)
  from route_entry_unique [OF _ _ this] have u: "rh_host h = rh_host h'" "rh_service h = rh_service h'"
      "rh_password h = rh_password h'" "concat ps1 @ d = concat ps2 @ d'"
    using e(3) e'(3) Cons.prems(7,8) by (auto simp: entry_of_hop_def wire_hop_def hs')
  have "hs = hs1 \<and> d = d'"
    using Cons.IH [OF e(5,6) e'(5,6) _ u(4)] Cons.prems(5,7,8) by (simp add: hs')
  moreover have "h = h'" using u(1-3) Cons.prems(7,8) by (simp add: hs' wire_hop_def)
  ultimately show ?case by (simp add: hs')
qed simp

lemma build_ni_route_parts:
  assumes "build_ni_route hs host service = Inr b"
  shows "\<exists>es d c t ps. list_all2 (\<lambda>h e. entry_of_hop h = Inr e) hs es \<and> route_entry host service [] = Inr d \<and>
    pack_u32 (length hs) = Inr c \<and> pack_u32 (length (concat es) + length d) = Inr t \<and>
    list_all2 (\<lambda>e p. counted_entry e = Inr p) es ps \<and>
    b = NI_ROUTE_MARKER @ [0] @ [2] @ [0x28] @ [2] @ c @ t @ concat ps @ d"
proof (cases "seq_res (map entry_of_hop hs)")
  case es: (Inr es)
  have hops: "hs \<noteq> []" and rest: "bind_res (route_entry host service []) (\<lambda>dest.
        bind_res (pack_u32 (length hs)) (\<lambda>count.
        bind_res (pack_u32 (length (concat es) + length dest)) (\<lambda>total.
        bind_res (seq_res (map counted_entry es)) (\<lambda>parts.
          Inr (NI_ROUTE_MARKER @ [0] @ [2] @ [0x28] @ [2] @ count @ total @ concat parts @ dest))))) = Inr b"
    using assms es by (auto simp: build_ni_route_def simp flip: entry_of_hop_def split: if_splits)
  obtain d where d: "route_entry host service [] = Inr d" using rest by (cases "route_entry host service []") simp_all
  obtain c where c: "pack_u32 (length hs) = Inr c" using rest d by (cases "pack_u32 (length hs)") simp_all
  obtain t where t: "pack_u32 (length (concat es) + length d) = Inr t"
    using rest d c by (cases "pack_u32 (length (concat es) + length d)") simp_all
  obtain ps where ps: "seq_res (map counted_entry es) = Inr ps" using rest d c t by (cases "seq_res (map counted_entry es)") simp_all
  have "b = NI_ROUTE_MARKER @ [0] @ [2] @ [0x28] @ [2] @ c @ t @ concat ps @ d" using rest d c t ps by simp
  then show ?thesis using d c t es [unfolded seq_res_list] ps [unfolded seq_res_list] by blast
qed (use assms in \<open>simp add: build_ni_route_def flip: entry_of_hop_def split: if_splits\<close>)

lemma route_request_unique:
  assumes "build_ni_route hs host service = Inr b" and "build_ni_route hs' host' service' = Inr b"
    and "list_all wire_hop hs" "list_all wire_hop hs'"
    and "0 \<notin> set host \<union> set service" "0 \<notin> set host' \<union> set service'"
  shows "hs = hs' \<and> host = host' \<and> service = service'"
proof -
  obtain es d c t ps where b: "list_all2 (\<lambda>h e. entry_of_hop h = Inr e) hs es" "route_entry host service [] = Inr d"
      "pack_u32 (length hs) = Inr c" "pack_u32 (length (concat es) + length d) = Inr t"
      "list_all2 (\<lambda>e p. counted_entry e = Inr p) es ps"
      "b = NI_ROUTE_MARKER @ [0] @ [2] @ [0x28] @ [2] @ c @ t @ concat ps @ d"
    using build_ni_route_parts [OF assms(1)] by blast
  obtain es' d' c' t' ps' where b': "list_all2 (\<lambda>h e. entry_of_hop h = Inr e) hs' es'" "route_entry host' service' [] = Inr d'"
      "pack_u32 (length hs') = Inr c'" "pack_u32 (length (concat es') + length d') = Inr t'"
      "list_all2 (\<lambda>e p. counted_entry e = Inr p) es' ps'"
      "b = NI_ROUTE_MARKER @ [0] @ [2] @ [0x28] @ [2] @ c' @ t' @ concat ps' @ d'"
    using build_ni_route_parts [OF assms(2)] by blast
  have c: "c = be_bytes 4 (length hs)" "length hs < 2 ^ 32" "c' = be_bytes 4 (length hs')" "length hs' < 2 ^ 32"
      "length t = 4" "length t' = 4"
    using b(3,4) b'(3,4) by (auto simp: pack_u32_def split: if_splits)
  have "length c = 4" "length c' = 4" using c(1,3) by simp_all
  moreover have "c @ t @ concat ps @ d = c' @ t' @ concat ps' @ d'" using b(6) b'(6) by simp
  ultimately have "c = c'" and "t @ concat ps @ d = t' @ concat ps' @ d'" by (simp_all add: append_eq_append_conv)
  then have rest: "concat ps @ d = concat ps' @ d'" using c(5,6) by (simp add: append_eq_append_conv)
  have "be_val c = length hs" "be_val c' = length hs'" using c(2,4) unfolding c(1,3) by simp_all
  then have n: "length hs = length hs'" using \<open>c = c'\<close> by simp
  have hs: "hs = hs'" and d: "d = d'" using entries_unique [OF b(1,5) b'(1,5) n rest assms(3,4)] by simp_all
  have "d @ [] = d' @ []" using d by simp
  from route_entry_unique [OF b(2) b'(2) this] show ?thesis using hs assms(5,6) by auto
qed

section \<open>Frames are read back\<close>

lemma length_ms_name [simp]: "length (ms_name n) = 40"
  by (simp add: ms_name_def NAME_LEN_def)

lemmas sapms_layout = SAPMS_HEADER_LEN_def OFF_VERSION_def OFF_ERRORNO_def OFF_TONAME_def OFF_MSGTYPE_def
  OFF_FLAG_def OFF_OPERATION_def OFF_FROMNAME_def OFF_SERVNO_def NAME_LEN_def

lemma length_magic: "length SAPMS_MAGIC_FULL = 12"
  by (simp add: SAPMS_MAGIC_FULL_def SAPMS_MAGIC_def)

lemma sapms_frame_shape:
  assumes "servno < 2 ^ 16"
  shows "build_sapms_frame op to_name from_name flag msgtype servno version body =
    Inr (SAPMS_MAGIC_FULL @ [version, 0] @ ms_name to_name @ [word_of_nat (msgtype mod 256)] @ replicate 11 0 @ [flag, op]
      @ ms_name from_name @ be_bytes 2 servno @ body)"
proof -
  obtain M T F where M: "M = SAPMS_MAGIC_FULL" "length M = 12" and T: "T = ms_name to_name" "length T = 40"
      and F: "F = ms_name from_name" "length F = 40"
    by (simp add: length_magic)
  obtain P Q R :: bytes where P: "P = replicate 40 0" "length P = 40" and Q: "Q = replicate 11 0" "length Q = 11"
      and R: "R = replicate 2 0" "length R = 2" by simp
  have "replicate 98 (0 :: byte) = [0, 0] @ replicate 40 0 @ [0] @ replicate 11 0 @ [0, 0] @ replicate 40 0 @ replicate 2 0"
    by (simp flip: replicate_add replicate_Suc add: append_Cons_eq_iff replicate_append_same [symmetric])
  then have 0: "put_slice 0 12 M (replicate 110 0) = M @ [0, 0] @ P @ [0] @ Q @ [0, 0] @ P @ R"
    by (simp add: put_slice_def P Q R)
  have 1: "(M @ [0, 0] @ P @ [0] @ Q @ [0, 0] @ P @ R)[12 := version, 13 := 0] = M @ [version, 0] @ P @ [0] @ Q @ [0, 0] @ P @ R"
    by (simp add: list_update_append M(2))
  have 2: "put_slice 14 54 T (M @ [version, 0] @ P @ [0] @ Q @ [0, 0] @ P @ R) = M @ [version, 0] @ T @ [0] @ Q @ [0, 0] @ P @ R"
    by (simp add: put_slice_def M(2) P(2))
  have 3: "(M @ [version, 0] @ T @ [0] @ Q @ [0, 0] @ P @ R)[54 := t, 66 := flag, 67 := op]
      = M @ [version, 0] @ T @ [t] @ Q @ [flag, op] @ P @ R" for t
    by (simp add: list_update_append M(2) T(2) Q(2))
  have 4: "put_slice 68 108 F (M @ [version, 0] @ T @ [t] @ Q @ [flag, op] @ P @ R)
      = M @ [version, 0] @ T @ [t] @ Q @ [flag, op] @ F @ R" for t
    by (simp add: put_slice_def M(2) P(2) T(2) Q(2))
  have 5: "pack_at 108 (be_bytes 2 servno) (M @ [version, 0] @ T @ [t] @ Q @ [flag, op] @ F @ R)
      = M @ [version, 0] @ T @ [t] @ Q @ [flag, op] @ F @ be_bytes 2 servno" for t
    by (simp add: pack_at_def put_slice_def M(2) F(2) T(2) Q(2) R(2))
  show ?thesis
    using assms unfolding build_sapms_frame_def Let_def sapms_layout length_magic
    by (simp only: M(1) [symmetric] T(1) [symmetric] F(1) [symmetric] if_True 0 1 2 3 4 5 add_0 append.assoc Q(1) [symmetric]
        numeral_plus_numeral add_num_simps)
qed

lemma sapms_body_frame:
  "sapms_body (SAPMS_MAGIC_FULL @ v # w # ms_name to_name @ rest) = SAPMS_MAGIC_FULL @ v # w # ms_name to_name @ rest"
proof -
  have "py_slice 4 16 (SAPMS_MAGIC_FULL @ v # w # ms_name to_name @ rest) = drop 4 SAPMS_MAGIC_FULL @ v # w # take 2 (ms_name to_name)"
    by (simp add: py_slice_def length_magic)
  moreover have "drop 4 SAPMS_MAGIC_FULL @ v # w # take 2 (ms_name to_name) \<noteq> SAPMS_MAGIC_FULL"
    by (simp add: SAPMS_MAGIC_FULL_def SAPMS_MAGIC_def)
  ultimately show ?thesis by (simp add: sapms_body_def)
qed

lemma errorno_zero: "decode_ms_errorno (SAPMS_MAGIC_FULL @ v # 0 # rest) = Inr 0"
  by (simp add: decode_ms_errorno_def OFF_ERRORNO_def length_magic nth_append Let_def)

text \<open>A frame as a server sends it: no error, some names.\<close>

definition server_frame :: "pystr \<Rightarrow> pystr \<Rightarrow> byte \<Rightarrow> byte \<Rightarrow> bytes \<Rightarrow> bytes res" where
  "server_frame to_name from_name flag op body = build_sapms_frame op to_name from_name flag 0 0 SAPMS_VERSION body"

lemma server_frame_shape:
  assumes "server_frame to_name from_name flag op body = Inr f"
  shows "f = SAPMS_MAGIC_FULL @ SAPMS_VERSION # 0 # ms_name to_name @ (0 # replicate 11 0 @ [flag, op]
      @ ms_name from_name @ be_bytes 2 0 @ body)"
  using assms sapms_frame_shape [of 0 op to_name from_name flag 0 SAPMS_VERSION body] by (simp add: server_frame_def)

lemma attach_accepted:
  assumes "server_frame to_name from_name flag op body = Inr f" shows "check_attach f = Inr ()"
proof -
  note f = server_frame_shape [OF assms]
  have "sapms_body f = f" unfolding f by (rule sapms_body_frame)
  moreover have "decode_ms_errorno f = Inr 0" unfolding f by (rule errorno_zero)
  moreover have "length f \<ge> 110" "take 12 f = SAPMS_MAGIC_FULL" by (simp_all add: f length_magic)
  ultimately show ?thesis by (simp add: check_attach_def parse_sapms_reply_def SAPMS_HEADER_LEN_def length_magic Let_def)
qed

lemma list_reply_read:
  assumes "server_frame to_name from_name flag op (OPCODE_REPLY @ b) = Inr f"
  shows "listed_servers f = Inr (records_of_text (py_strip (rstrip_by (\<lambda>c. c = 0) (latin1_decode b))))"
proof -
  note f = server_frame_shape [OF assms]
  have body: "sapms_body f = f" unfolding f by (rule sapms_body_frame)
  have err: "decode_ms_errorno f = Inr 0" unfolding f by (rule errorno_zero)
  have l: "length f \<ge> 114" "drop 110 f = OPCODE_REPLY @ b" by (simp_all add: f length_magic OPCODE_REPLY_def)
  have "take 4 (OPCODE_REPLY @ b) = OPCODE_REPLY" "drop 4 (OPCODE_REPLY @ b) = b" by (simp_all add: OPCODE_REPLY_def)
  then show ?thesis using l by (simp add: listed_servers_def body err parse_ms_list_reply_def SAPMS_HEADER_LEN_def Let_def)
qed

section \<open>Lists in text are read back\<close>

definition pair_text :: "pystr \<times> pystr \<Rightarrow> pystr" where
  "pair_text kv = (case kv of (k, v) \<Rightarrow> k @ 61 # v)"

definition record_text :: "ms_record \<Rightarrow> pystr" where
  "record_text r = join_with [124] (map pair_text r)"

definition list_text :: "ms_record list \<Rightarrow> pystr" where
  "list_text rs = join_with [10] (map record_text rs)"

definition good_text :: "pystr \<Rightarrow> bool" where
  "good_text s \<longleftrightarrow> py_strip s = s \<and> (\<forall>c \<in> set s. c \<noteq> 124 \<and> c \<noteq> 0 \<and> c < 256 \<and> \<not> is_line_break c)"

definition good_ms_record :: "ms_record \<Rightarrow> bool" where
  "good_ms_record r \<longleftrightarrow> r \<noteq> [] \<and> distinct (map fst r) \<and>
     list_all (\<lambda>(k, v). good_text k \<and> good_text v \<and> 61 \<notin> set k) r"

lemma split_join:
  "list_all (\<lambda>x. c \<notin> set x) xs \<Longrightarrow> xs \<noteq> [] \<Longrightarrow> split_on c (join_with [c] xs) = xs"
  by (induction "[c]" xs rule: join_with.induct) (simp_all add: split_on_no_sep split_on_append_sep)

lemma set_join: "set (join_with s xs) \<subseteq> set s \<union> \<Union> (set ` set xs)"
  by (induction s xs rule: join_with.induct) auto

lemma strip_iff: "py_strip t = t \<longleftrightarrow> t = [] \<or> \<not> is_space (hd t) \<and> \<not> is_space (last t)"
proof (cases t)
  case (Cons c s)
  show ?thesis
  proof
    assume e: "py_strip t = t"
    have len: "length (dropWhile P xs) \<le> length xs" for P and xs :: pystr by (rule length_dropWhile_le)
    have "\<not> is_space c"
    proof
      assume "is_space c"
      then have "length (lstrip_by is_space t) < length t" using len [of is_space s] by (simp add: lstrip_by_def Cons)
      moreover have "length (py_strip t) \<le> length (lstrip_by is_space t)"
        using len [of is_space "rev (lstrip_by is_space t)"] by (simp add: strip_by_def rstrip_by_def)
      ultimately show False using e by simp
    qed
    then have l: "lstrip_by is_space t = t" by (simp add: lstrip_by_def Cons)
    have "\<not> is_space (last t)"
    proof
      assume "is_space (last t)"
      moreover obtain u where "rev t = last t # u" using Cons by (metis append_butlast_last_id list.discI rev_eq_Cons_iff rev_rev_ident)
      ultimately have "length (dropWhile is_space (rev t)) < length t" using len [of is_space u]
        by (metis dropWhile.simps(2) le_imp_less_Suc length_Cons length_rev)
      then show False using e by (simp add: strip_by_def rstrip_by_def l) (metis length_rev less_irrefl)
    qed
    then show "t = [] \<or> \<not> is_space (hd t) \<and> \<not> is_space (last t)" using \<open>\<not> is_space c\<close> Cons by simp
  next
    assume e: "t = [] \<or> \<not> is_space (hd t) \<and> \<not> is_space (last t)"
    then have l: "lstrip_by is_space t = t" using Cons by (simp add: lstrip_by_def)
    obtain u where "rev t = last t # u" using Cons by (metis append_butlast_last_id list.discI rev_eq_Cons_iff rev_rev_ident)
    then have "dropWhile is_space (rev t) = rev t" using e Cons by simp
    then show "py_strip t = t" by (simp add: strip_by_def rstrip_by_def l)
  qed
qed (simp add: strip_by_def lstrip_by_def rstrip_by_def)

lemma update_fresh: "k \<notin> fst ` set al \<Longrightarrow> AList.update k v al = al @ [(k, v)]"
  by (induction al) auto

lemma pair_read:
  assumes "good_text k" "good_text v" "61 \<notin> set k" shows "pair_of (pair_text (k, v)) = Some (k, v)"
proof -
  have "takeWhile (\<lambda>c. c \<noteq> 61) (k @ 61 # v) = k" "dropWhile (\<lambda>c. c \<noteq> 61) (k @ 61 # v) = 61 # v"
    using assms(3) by (subst takeWhile_append2 dropWhile_append2; auto)+
  then show ?thesis using assms by (simp add: pair_of_def pair_text_def good_text_def)
qed

lemma record_read:
  assumes "good_ms_record r" shows "record_of_line (record_text r) = r"
proof -
  have "list_all (\<lambda>x. 124 \<notin> set x) (map pair_text r)"
    using assms by (auto simp: good_ms_record_def list_all_iff pair_text_def good_text_def)
  then have s: "split_on 124 (record_text r) = map pair_text r"
    using assms unfolding record_text_def by (intro split_join) (simp_all add: good_ms_record_def)
  have "fold add_pair (map pair_text r) acc = acc @ r"
    if "list_all (\<lambda>(k, v). good_text k \<and> good_text v \<and> 61 \<notin> set k) r" "distinct (map fst (acc @ r))" for acc r
    using that
  proof (induction r arbitrary: acc)
    case (Cons p r)
    obtain k v where p: "p = (k, v)" by (cases p)
    have "add_pair (pair_text p) acc = acc @ [(k, v)]"
      using Cons.prems by (simp add: p add_pair_def pair_read update_fresh)
    then show ?case using Cons.IH [of "acc @ [(k, v)]"] Cons.prems by (simp add: p)
  qed simp
  from this [of r "[]"] show ?thesis using assms by (simp add: record_of_line_def s good_ms_record_def)
qed

lemma record_text_chars:
  assumes "good_ms_record r"
  shows "record_text r \<noteq> []" "61 \<in> set (record_text r)" "\<forall>c \<in> set (record_text r). c \<noteq> 0 \<and> c < 256 \<and> \<not> is_line_break c"
proof -
  obtain k v rs where r: "r = (k, v) # rs" using assms by (cases r) (auto simp: good_ms_record_def)
  have "record_text r = pair_text (k, v) @ (if rs = [] then [] else 124 # record_text rs)"
    by (cases rs) (simp_all add: r record_text_def)
  then show "record_text r \<noteq> []" "61 \<in> set (record_text r)" by (simp_all add: pair_text_def)
  have eq: "\<not> is_line_break 61" by (simp add: is_line_break_def)
  have "c \<noteq> 0 \<and> c < 256 \<and> \<not> is_line_break c" if c: "(k, v) \<in> set r" "c \<in> set (pair_text (k, v))" for k v c
  proof -
    have "good_text k" "good_text v" using assms c(1) by (auto simp: good_ms_record_def list_all_iff)
    moreover have "c \<in> set k \<or> c = 61 \<or> c \<in> set v" using c(2) by (simp add: pair_text_def) blast
    ultimately show ?thesis using eq by (auto simp: good_text_def)
  qed
  then have "\<forall>x \<in> set (map pair_text r). \<forall>c \<in> set x. c \<noteq> 0 \<and> c < 256 \<and> \<not> is_line_break c" by fastforce
  moreover have "c = 124 \<or> (\<exists>x \<in> set (map pair_text r). c \<in> set x)" if "c \<in> set (record_text r)" for c
    using that set_join [of "[124]" "map pair_text r"] by (auto simp: record_text_def)
  moreover have "\<not> is_line_break 124" by (simp add: is_line_break_def)
  ultimately show "\<forall>c \<in> set (record_text r). c \<noteq> 0 \<and> c < 256 \<and> \<not> is_line_break c" by fastforce
qed

lemma splitlines_one: "s \<noteq> [] \<Longrightarrow> \<forall>c \<in> set s. \<not> is_line_break c \<Longrightarrow> splitlines s = [s]"
proof -
  assume s: "s \<noteq> []" "\<forall>c \<in> set s. \<not> is_line_break c"
  then have t: "takeWhile (\<lambda>c. \<not> is_line_break c) s = s" "dropWhile (\<lambda>c. \<not> is_line_break c) s = []"
    by (simp_all add: takeWhile_eq_all_conv dropWhile_eq_Nil_conv)
  show ?thesis unfolding splitlines.simps [of s] first_line_def t using s(1) by simp
qed

lemma splitlines_more:
  "\<forall>c \<in> set s. \<not> is_line_break c \<Longrightarrow> splitlines (s @ 10 # t) = s # splitlines t"
proof -
  assume s: "\<forall>c \<in> set s. \<not> is_line_break c"
  have b: "is_line_break 10" by (simp add: is_line_break_def)
  have "takeWhile (\<lambda>c. \<not> is_line_break c) (s @ 10 # t) = s" "dropWhile (\<lambda>c. \<not> is_line_break c) (s @ 10 # t) = 10 # t"
    using s b by (simp_all add: takeWhile_append2 dropWhile_append2)
  then show ?thesis by (subst splitlines.simps) (simp add: first_line_def)
qed

lemma lines_read:
  assumes "list_all good_ms_record rs" shows "splitlines (list_text rs) = map record_text rs"
  using assms
proof (induction rs)
  case Nil
  then show ?case by (simp add: list_text_def splitlines.simps)
next
  case (Cons r rs)
  have r: "record_text r \<noteq> []" "\<forall>c \<in> set (record_text r). \<not> is_line_break c" using record_text_chars [of r] Cons.prems by simp_all
  show ?case
  proof (cases rs)
    case Nil
    then show ?thesis using splitlines_one [OF r] by (simp add: list_text_def)
  next
    case (Cons r' rs')
    have "list_text (r # rs) = record_text r @ 10 # list_text rs" by (simp add: list_text_def Cons)
    then show ?thesis using splitlines_more [OF r(2)] Cons.IH Cons.prems by simp
  qed
qed

lemma kept_by_dropWhile: "x \<in> set xs \<Longrightarrow> \<not> P x \<Longrightarrow> x \<in> set (dropWhile P xs)"
  by (induction xs) auto

lemma records_read:
  assumes "list_all good_ms_record rs" shows "records_of_text (list_text rs) = rs"
proof -
  have l: "py_strip (record_text r) \<noteq> []" if "r \<in> set rs" for r
  proof
    assume e: "py_strip (record_text r) = []"
    have "61 \<in> set (record_text r)" using record_text_chars(2) assms that by (simp add: list_all_iff)
    moreover have "\<not> is_space 61" by (simp add: is_space_def ws_chars_def)
    ultimately have "61 \<in> set (lstrip_by is_space (record_text r))" by (simp add: lstrip_by_def kept_by_dropWhile)
    moreover have "set (lstrip_by is_space (record_text r)) \<subseteq> Collect is_space"
      using e by (auto simp: strip_by_def rstrip_by_def dropWhile_eq_Nil_conv)
    ultimately show False using \<open>\<not> is_space 61\<close> by auto
  qed
  have "filter (\<lambda>l. py_strip l \<noteq> []) (map record_text rs) = map record_text rs"
    using l by (simp add: filter_id_conv)
  moreover have "map record_of_line (map record_text rs) = rs"
    using assms by (simp add: list_all_iff record_read map_idI)
  moreover have "filter (\<lambda>r. r \<noteq> []) rs = rs"
    using assms by (auto simp: filter_id_conv list_all_iff good_ms_record_def)
  ultimately show ?thesis by (simp only: records_of_text_def lines_read [OF assms])
qed

text \<open>Nothing at either end of a list is stripped.\<close>

lemma ends_of_text:
  assumes "rs \<noteq> []" "list_all good_ms_record rs"
  shows "py_strip (list_text rs) = list_text rs" "list_text rs \<noteq> []"
proof -
  have eq: "\<not> is_space 61" by (simp add: is_space_def ws_chars_def)
  have p: "pair_text p \<noteq> [] \<and> \<not> is_space (hd (pair_text p)) \<and> \<not> is_space (last (pair_text p))"
    if "good_ms_record r" "p \<in> set r" for r p
  proof -
    obtain k v where kv: "p = (k, v)" by (cases p)
    then have "py_strip k = k" "py_strip v = v" using that by (auto simp: good_ms_record_def list_all_iff good_text_def)
    then show ?thesis using eq by (cases k) (auto simp: kv pair_text_def strip_iff)
  qed
  have ends: "join_with s xs \<noteq> [] \<and> hd (join_with s xs) = hd (hd xs) \<and> last (join_with s xs) = last (last xs)"
    if "xs \<noteq> []" "\<forall>x \<in> set xs. x \<noteq> []" for s :: pystr and xs
    using that by (induction s xs rule: join_with.induct) auto
  have r: "record_text r \<noteq> [] \<and> \<not> is_space (hd (record_text r)) \<and> \<not> is_space (last (record_text r))"
    if g: "good_ms_record r" for r
  proof -
    have ne: "map pair_text r \<noteq> []" using g by (simp add: good_ms_record_def)
    have "hd (map pair_text r) \<in> pair_text ` set r" "last (map pair_text r) \<in> pair_text ` set r"
      using hd_in_set [OF ne] last_in_set [OF ne] by simp_all
    then show ?thesis using ends [OF ne, of "[124]"] p [OF g] unfolding record_text_def by auto
  qed
  have ne: "map record_text rs \<noteq> []" using assms by simp
  have "hd (map record_text rs) \<in> record_text ` set rs" "last (map record_text rs) \<in> record_text ` set rs"
    using hd_in_set [OF ne] last_in_set [OF ne] by simp_all
  then have "list_text rs \<noteq> [] \<and> \<not> is_space (hd (list_text rs)) \<and> \<not> is_space (last (list_text rs))"
    using ends [OF ne, of "[10]"] r assms(2) unfolding list_text_def by (auto simp: list_all_iff)
  then show "py_strip (list_text rs) = list_text rs" "list_text rs \<noteq> []" by (simp_all add: strip_iff)
qed

lemma text_bytes:
  assumes "list_all good_ms_record rs"
  shows "latin1_decode (map word_of_nat (list_text rs)) = list_text rs" "rstrip_by (\<lambda>c. c = 0) (list_text rs) = list_text rs"
proof -
  have c: "\<forall>c \<in> set (list_text rs). c \<noteq> 0 \<and> c < 256"
    using set_join [of "[10]" "map record_text rs"] record_text_chars(3) assms by (fastforce simp: list_text_def list_all_iff)
  then show "latin1_decode (map word_of_nat (list_text rs)) = list_text rs"
    by (simp add: latin1_decode_def map_idI)
  have "dropWhile (\<lambda>c. c = 0) xs = xs" if "0 \<notin> set xs" for xs :: pystr using that by (cases xs) auto
  from this [of "rev (list_text rs)"] show "rstrip_by (\<lambda>c. c = 0) (list_text rs) = list_text rs"
    using c by (auto simp: rstrip_by_def)
qed

section \<open>Properties\<close>

text \<open>C22. A route string says which hops to take, and the request built from it which router and which
  server to ask: a route written out is read back hop by hop, and no other route or destination gives the
  same request.\<close>

theorem route_reaches_router:
  assumes "hops \<noteq> []" and "list_all plain_hop hops" and "list_all wire_hop hops" and "list_all wire_hop hops'"
    and "0 \<notin> set host \<union> set service" and "0 \<notin> set host' \<union> set service'"
  shows "parse_route_string (route_text hops) = Inr hops \<and>
    (build_ni_route hops host service = Inr b \<longrightarrow> build_ni_route hops' host' service' = Inr b \<longrightarrow>
     hops' = hops \<and> host' = host \<and> service' = service)"
  using route_string_read [OF assms(1,2)] route_request_unique [OF _ _ assms(3-6)] by blast

definition demo_hops :: "route_hop list" where
  "demo_hops = [\<lparr>rh_host = lit ''saprouter'', rh_service = lit ''sapdp99'', rh_password = lit ''pw'', rh_talk_mode = 0\<rparr>]"

theorem route_reaches_router_witness:
  "parse_route_string (lit ''/H/saprouter/S/sapdp99/P/pw'') = Inr demo_hops \<and>
   build_ni_route demo_hops (lit ''app'') (lit ''3300'') \<noteq> build_ni_route demo_hops (lit ''app'') (lit ''3301'')"
proof -
  have h: "demo_hops \<noteq> []" "list_all plain_hop demo_hops" "list_all wire_hop demo_hops"
    by (simp_all add: demo_hops_def plain_hop_def wire_hop_def)
  obtain b where b: "build_ni_route demo_hops (lit ''app'') (lit ''3300'') = Inr b"
    by (simp add: build_ni_route_def demo_hops_def route_entry_def null_term_def ascii_encode_def is_ascii_def
        pack_u32_def counted_entry_def)
  have "route_text demo_hops = lit ''/H/saprouter/S/sapdp99/P/pw''"
    by (simp add: route_text_def demo_hops_def hop_tokens_def)
  then show ?thesis
    using route_reaches_router [OF h(1-3) h(3), of "lit ''app''" "lit ''3300''" "lit ''app''" "lit ''3301''" b] b by auto
qed

text \<open>A transport that keeps what was sent and hands out what waits.\<close>

definition ms_send :: "bytes \<Rightarrow> (bytes list \<times> bytes list, unit) act" where
  "ms_send m n = (case n of (sent, waiting) \<Rightarrow> (Inr (), sent @ [m], waiting))"

definition ms_recv :: "(bytes list \<times> bytes list, bytes) act" where
  "ms_recv n = (case n of (sent, []) \<Rightarrow> (Inl EOFError, sent, []) | (sent, m # ms) \<Rightarrow> (Inr m, sent, ms))"

text \<open>A logon group is resolved to the first server the message server lists.  When the server accepts the
  attachment and lists servers, each by its fields, the client sends exactly the attach frame, the
  server-list request and the detach frame, and returns the host of the first record with the system number
  of its dispatcher port.  The group's name takes no part in it: it is in none of the
  frames.\<close>

lemma group_logon_takes_first_server:
  assumes "server_frame to1 from1 flag1 op1 body1 = Inr attach_reply"
    and "server_frame to2 from2 flag2 op2 (OPCODE_REPLY @ map word_of_nat (list_text (r # rs))) = Inr list_reply"
    and "list_all good_ms_record (r # rs)"
    and "map_of r (lit ''HOSTNAME'') = Some host" and "host \<noteq> []" and "host \<noteq> lit ''0.0.0.0''"
    and "map_of r (lit ''PORT'') = Some (dec_digits (3200 + nr))" and "nr \<le> 99"
  shows "\<exists>login request detach. build_sapms_login_frame = Inr login \<and> build_sapms_server_list_request = Inr request \<and>
    build_sapms_detach_frame = Inr detach \<and>
    resolve_full ms_send ms_recv grp sysid (sent, [attach_reply, list_reply])
      = (Inr (host, int nr), (sent @ [login, request, detach], []))"
proof -
  obtain login request detach where f: "build_sapms_login_frame = Inr login" "build_sapms_server_list_request = Inr request"
      "build_sapms_detach_frame = Inr detach"
    by (simp add: build_sapms_login_frame_def build_sapms_server_list_request_def build_ms_list_request_def
        build_sapms_detach_frame_def sapms_frame_shape)
  have "listed_servers list_reply = Inr (r # rs)"
    using list_reply_read [OF assms(2)] text_bytes [OF assms(3)] ends_of_text [OF _ assms(3)] records_read [OF assms(3)] by simp
  moreover have "chosen_server (r # rs) = Inr (host, int nr)"
    using assms(4-8) by (simp add: chosen_server_def field_of_def)
  ultimately have "resolve_full ms_send ms_recv grp sysid (sent, [attach_reply, list_reply])
      = (Inr (host, int nr), (sent @ [login, request, detach], []))"
    using attach_accepted [OF assms(1)] by (simp add: resolve_full_def ms_exchange_def ms_send_def ms_recv_def f)
  then show ?thesis using f by blast
qed

definition demo_record :: ms_record where
  "demo_record = [(lit ''HOSTNAME'', lit ''app1''), (lit ''PORT'', dec_digits 3242)]"

end
