(* ===== verification/Socks_Proxy.thy ===== *)
theory Socks_Proxy
  imports Ni_Transport Py_Values "HOL-Library.List_Lexorder"
begin

text \<open>
  The tunnel through a SOCKS5 proxy, \<^verbatim>\<open>src/saprfclib/socks5.py\<close>: the messages of the handshake with
  the token sub-negotiation of the Connectivity Proxy, the handshake over a socket and over an asyncio
  stream, fetching the token, and reading the binding of the connectivity service; and the use of it in
  \<^verbatim>\<open>connection.py\<close>.

  The socket is read as in \<open>Ni_Transport\<close>.  The \<^verbatim>\<open>idna\<close> codec is a parameter, the HTTP client is a function from
  the request, and \<^verbatim>\<open>json.loads\<close> one from a text to an object;
  a truth value in it counts as 0 or 1.
\<close>

section \<open>Numbers of the protocol\<close>

definition SOCKS_VERSION :: byte where "SOCKS_VERSION = 5"
definition CMD_CONNECT :: byte where "CMD_CONNECT = 1"
definition RSV :: byte where "RSV = 0"
definition ATYP_IPV4 :: byte where "ATYP_IPV4 = 1"
definition ATYP_DOMAIN :: byte where "ATYP_DOMAIN = 3"
definition ATYP_IPV6 :: byte where "ATYP_IPV6 = 4"
definition AUTH_NONE :: byte where "AUTH_NONE = 0"
definition AUTH_SAP_JWT :: byte where "AUTH_SAP_JWT = 0x80"
definition AUTH_NO_ACCEPTABLE :: byte where "AUTH_NO_ACCEPTABLE = 0xFF"
definition JWT_SUBNEG_VERSION :: byte where "JWT_SUBNEG_VERSION = 1"
definition AUTH_SUCCESS :: byte where "AUTH_SUCCESS = 0"
definition MAX_REPLY_FIELD :: nat where "MAX_REPLY_FIELD = 4096"

definition REP_MEANING :: "(byte \<times> pystr) list" where
  "REP_MEANING =
     [(0, lit ''succeeded''), (1, lit ''general SOCKS server failure''),
      (2, lit ''connection not allowed (forbidden)''), (3, lit ''network unreachable''),
      (4, lit ''host unreachable''), (5, lit ''connection refused''), (6, lit ''TTL expired''),
      (7, lit ''command not supported''), (8, lit ''address type not supported'')]"

lemmas socks_numbers = SOCKS_VERSION_def CMD_CONNECT_def RSV_def ATYP_IPV4_def ATYP_DOMAIN_def ATYP_IPV6_def
  AUTH_NONE_def AUTH_SAP_JWT_def AUTH_NO_ACCEPTABLE_def JWT_SUBNEG_VERSION_def AUTH_SUCCESS_def

text \<open>\<^verbatim>\<open>{b:#04x}\<close>\<close>

definition lower_hex :: "nat \<Rightarrow> nat" where "lower_hex n = (if n < 10 then 48 + n else 87 + n)"

definition hex04 :: "byte \<Rightarrow> pystr" where
  "hex04 b = lit ''0x'' @ [lower_hex (unat b div 16), lower_hex (unat b mod 16)]"

section \<open>Method selection\<close>

definition build_greeting :: "byte list \<Rightarrow> bytes res" where
  "build_greeting methods =
     (if methods = [] \<or> length methods > 255 then Inl ValueError
      else Inr (SOCKS_VERSION # word_of_nat (length methods) # methods))"

definition no_method_text :: pystr where
  "no_method_text = lit (''SOCKS5 proxy rejected every offered authentication method (0xFF). '' @
     ''If the proxy requires SAP JWT authentication, supply proxy_jwt or the '' @
     ''proxy_client_id/proxy_client_secret/proxy_token_url triple'')"

definition parse_method_selection :: "bytes \<Rightarrow> byte res" where
  "parse_method_selection d =
     (case d of
        [version, method] \<Rightarrow>
          if version \<noteq> SOCKS_VERSION
          then Inl (ProxyError (lit ''SOCKS5 version mismatch: expected 0x05, got '' @ hex04 version))
          else if method = AUTH_NO_ACCEPTABLE then Inl (ProxyError no_method_text)
          else Inr method
      | _ \<Rightarrow> Inl (ProxyError (lit ''SOCKS5 method selection must be 2 bytes, got '' @ dec_digits (length d))))"

section \<open>The token\<close>

text \<open>\<^verbatim>\<open>base64.b64encode\<close>\<close>

definition b64_char :: "nat \<Rightarrow> byte" where
  "b64_char n =
     word_of_nat (if n < 26 then 65 + n else if n < 52 then 71 + n else if n < 62 then n - 4
       else if n = 62 then 43 else 47)"

fun b64encode :: "bytes \<Rightarrow> bytes" where
  "b64encode [] = []"
| "b64encode [a] = [b64_char (unat a div 4), b64_char (unat a mod 4 * 16), 61, 61]"
| "b64encode [a, b] =
     [b64_char (unat a div 4), b64_char (unat a mod 4 * 16 + unat b div 16), b64_char (unat b mod 16 * 4), 61]"
| "b64encode (a # b # c # r) =
     b64_char (unat a div 4) # b64_char (unat a mod 4 * 16 + unat b div 16)
       # b64_char (unat b mod 16 * 4 + unat c div 64) # b64_char (unat c mod 64) # b64encode r"

definition location_field :: "pystr \<Rightarrow> bytes res" where
  "location_field loc = (if loc = [] then Inr [] else map_res b64encode (opt_res UnicodeError (utf8_encode loc)))"

definition build_jwt_auth :: "pystr \<Rightarrow> pystr \<Rightarrow> bytes res" where
  "build_jwt_auth jwt loc =
     bind_res (opt_res UnicodeError (utf8_encode jwt)) (\<lambda>jwt_bytes.
     bind_res (location_field loc) (\<lambda>loc_b64.
       if length loc_b64 > 255 then Inl ValueError
       else if length jwt_bytes \<ge> 2 ^ 32 then Inl StructError
       else Inr (JWT_SUBNEG_VERSION # be_bytes 4 (length jwt_bytes) @ jwt_bytes
              @ word_of_nat (length loc_b64) # loc_b64)))"

definition parse_jwt_auth_reply :: "bytes \<Rightarrow> unit res" where
  "parse_jwt_auth_reply d =
     (case d of
        [version, status] \<Rightarrow>
          if version \<noteq> JWT_SUBNEG_VERSION
          then Inl (ProxyError (lit ''SOCKS5 JWT auth version mismatch: expected 0x01, got '' @ hex04 version))
          else if status \<noteq> AUTH_SUCCESS
          then Inl (ProxyError (lit ''SOCKS5 proxy rejected the JWT authentication (status '' @ hex04 status @ lit '')''))
          else Inr ()
      | _ \<Rightarrow> Inl (ProxyError (lit ''SOCKS5 JWT auth reply must be 2 bytes, got '' @ dec_digits (length d))))"

section \<open>Addresses\<close>

text \<open>
  \<^verbatim>\<open>socket.inet_pton\<close>.  A part of an IPv4 literal is a number up to 255 of at most three digits without
  a leading zero.  An IPv6 literal has groups of up to four hexadecimal digits, the last two of
  which may be an IPv4 literal, and at most one \<^verbatim>\<open>::\<close>, for one or more groups of zeros.
\<close>

definition pton_part :: "pystr \<Rightarrow> byte option" where
  "pton_part s =
     (if s \<noteq> [] \<and> length s \<le> 3 \<and> (\<forall>c \<in> set s. is_digit c) \<and> (hd s = 48 \<longrightarrow> length s = 1) \<and> digits_val s \<le> 255
      then Some (word_of_nat (digits_val s)) else None)"

definition inet_pton4 :: "pystr \<Rightarrow> bytes option" where
  "inet_pton4 s = (case split_on 46 s of [a, b, c, d] \<Rightarrow> those (map pton_part [a, b, c, d]) | _ \<Rightarrow> None)"

definition hex_val :: "nat \<Rightarrow> nat option" where
  "hex_val c =
     (if is_digit c then Some (c - 48) else if 65 \<le> c \<and> c \<le> 70 then Some (c - 55)
      else if 97 \<le> c \<and> c \<le> 102 then Some (c - 87) else None)"

definition pton_group :: "pystr \<Rightarrow> bytes option" where
  "pton_group s =
     (if s = [] \<or> length s > 4 then None
      else map_option (\<lambda>ds. be_bytes 2 (fold (\<lambda>d n. n * 16 + d) ds 0)) (those (map hex_val s)))"

fun pton_groups :: "bool \<Rightarrow> pystr list \<Rightarrow> bytes option" where
  "pton_groups v4 [] = Some []"
| "pton_groups v4 [g] = (if v4 \<and> 46 \<in> set g then inet_pton4 g else pton_group g)"
| "pton_groups v4 (g # gs) =
     Option.bind (pton_group g) (\<lambda>b. map_option ((@) b) (pton_groups v4 gs))"

definition pton_side :: "bool \<Rightarrow> pystr \<Rightarrow> bytes option" where
  "pton_side v4 s = (if s = [] then Some [] else pton_groups v4 (split_on 58 s))"

definition inet_pton6 :: "pystr \<Rightarrow> bytes option" where
  "inet_pton6 s =
     (case find_sub [58, 58] s of
        None \<Rightarrow> Option.bind (pton_side True s) (\<lambda>b. if length b = 16 then Some b else None)
      | Some i \<Rightarrow>
          Option.bind (pton_side False (take i s)) (\<lambda>a.
          Option.bind (pton_side True (drop (i + 2) s)) (\<lambda>b.
            if length a + length b \<le> 14 then Some (a @ replicate (16 - length a - length b) 0 @ b) else None)))"

definition address_type :: "(pystr \<Rightarrow> bytes res) \<Rightarrow> pystr \<Rightarrow> (byte \<times> bytes) res" where
  "address_type idna host =
     (if utf8_encode host = None then Inl UnicodeError
      else if 0 \<in> set host then Inl ValueError
      else case inet_pton4 host of
        Some a \<Rightarrow> Inr (ATYP_IPV4, a)
      | None \<Rightarrow>
          (case inet_pton6 host of
             Some a \<Rightarrow> Inr (ATYP_IPV6, a)
           | None \<Rightarrow>
               bind_res (if is_ascii host then opt_res UnicodeError (ascii_encode host) else idna host) (\<lambda>name.
                 if length name > 255 then Inl ValueError
                 else Inr (ATYP_DOMAIN, word_of_nat (length name) # name))))"

definition build_connect :: "(pystr \<Rightarrow> bytes res) \<Rightarrow> pystr \<Rightarrow> int \<Rightarrow> bytes res" where
  "build_connect idna host port =
     (if \<not> (0 < port \<and> port \<le> 0xFFFF) then Inl ValueError
      else map_res (\<lambda>(atyp, addr). [SOCKS_VERSION, CMD_CONNECT, RSV, atyp] @ addr @ be_bytes 2 (nat port))
             (address_type idna host))"

section \<open>The reply to the request\<close>

definition bound_address_len :: "byte \<Rightarrow> bytes \<Rightarrow> nat res" where
  "bound_address_len atyp tail =
     (if atyp = ATYP_IPV4 then Inr (4 + 2)
      else if atyp = ATYP_IPV6 then Inr (16 + 2)
      else if atyp = ATYP_DOMAIN then
        (case tail of
           [] \<Rightarrow> Inl (ProxyError (lit ''SOCKS5 CONNECT reply truncated before domain length''))
         | n # _ \<Rightarrow> Inr (1 + unat n + 2))
      else Inl (ProxyError (lit ''SOCKS5 CONNECT reply has unknown address type '' @ hex04 atyp)))"

definition connect_failed :: "byte \<Rightarrow> exn" where
  "connect_failed rep =
     ProxyError (lit ''SOCKS5 CONNECT failed: ''
       @ (case map_of REP_MEANING rep of None \<Rightarrow> lit ''unknown error'' | Some m \<Rightarrow> m)
       @ lit '' (REP '' @ hex04 rep @ lit '')'')"

definition parse_connect_reply :: "bytes \<Rightarrow> (byte \<times> nat) res" where
  "parse_connect_reply d =
     (case d of
        version # rep # rsv # atyp # tail \<Rightarrow>
          if version \<noteq> SOCKS_VERSION
          then Inl (ProxyError (lit ''SOCKS5 version mismatch in CONNECT reply: '' @ hex04 version))
          else if rep \<noteq> 0 then Inl (connect_failed rep)
          else bind_res (bound_address_len atyp tail) (\<lambda>addr_len.
            if length tail < addr_len then Inl (ProxyError (lit ''SOCKS5 CONNECT reply truncated in bound address''))
            else Inr (rep, be_val (py_slice (addr_len - 2) addr_len tail)))
      | _ \<Rightarrow> Inl (ProxyError (lit ''SOCKS5 CONNECT reply too short: '' @ dec_digits (length d) @ lit '' bytes'')))"

section \<open>The handshake\<close>

text \<open>The reader of the handshake, with a limit and an error of its own.\<close>

function socks_recv_loop :: "nat \<Rightarrow> bytes \<Rightarrow> segments \<Rightarrow> bytes res \<times> segments" where
  "socks_recv_loop n buf s =
     (if length buf < n then
        (let (chunk, s') = recv_into (n - length buf) s in
         if chunk = []
         then (Inl (ProxyError (lit ''SOCKS5 proxy closed the connection after '' @ dec_digits (length buf)
                 @ lit ''/'' @ dec_digits n @ lit '' bytes'')), s')
         else socks_recv_loop n (buf @ chunk) s')
      else (Inr buf, s))"
  by pat_completeness auto
termination
  by (relation "measure (\<lambda>(n, buf, s). n - length buf)") (auto simp: diff_less_mono2)

declare socks_recv_loop.simps [simp del]

definition socks_recv_exactly :: "nat \<Rightarrow> (segments, bytes) act" where
  "socks_recv_exactly n s =
     (if n > MAX_REPLY_FIELD
      then (Inl (ProxyError (lit ''SOCKS5 reply field '' @ dec_digits n @ lit '' exceeds cap 4096'')), s)
      else socks_recv_loop n [] s)"

record 'i tunnel =
  tn_in :: 'i
  tn_out :: bytes
  tn_open :: bool

definition in_turn :: "('s, 'a) act \<Rightarrow> ('a \<Rightarrow> ('s, 'b) act) \<Rightarrow> ('s, 'b) act" where
  "in_turn m f s = (case m s of (Inl e, s1) \<Rightarrow> (Inl e, s1) | (Inr a, s1) \<Rightarrow> f a s1)"

definition told :: "'a res \<Rightarrow> ('s, 'a) act" where "told r s = (r, s)"

definition send_all_of :: "bytes res \<Rightarrow> ('i tunnel, unit) act" where
  "send_all_of r t = (case r of Inl e \<Rightarrow> (Inl e, t) | Inr b \<Rightarrow> (Inr (), t\<lparr>tn_out := tn_out t @ b\<rparr>))"

definition read_of :: "(nat \<Rightarrow> ('i, bytes) act) \<Rightarrow> nat \<Rightarrow> ('i tunnel, bytes) act" where
  "read_of read n t = (case read n (tn_in t) of (r, i) \<Rightarrow> (r, t\<lparr>tn_in := i\<rparr>))"

text \<open>As many bytes as the address type announces.\<close>

definition recv_connect_reply :: "(nat \<Rightarrow> ('i, bytes) act) \<Rightarrow> ('i tunnel, byte \<times> nat) act" where
  "recv_connect_reply read =
     in_turn (read_of read 4) (\<lambda>head.
       if head ! 3 = ATYP_DOMAIN then
         in_turn (read_of read 1) (\<lambda>name_len.
         in_turn (read_of read (unat (hd name_len) + 2)) (\<lambda>rest.
           told (parse_connect_reply (head @ name_len @ rest))))
       else
         in_turn (told (bound_address_len (head ! 3) [0])) (\<lambda>n.
         in_turn (read_of read n) (\<lambda>rest.
           told (parse_connect_reply (head @ rest)))))"

definition select_method :: "(nat \<Rightarrow> ('i, bytes) act) \<Rightarrow> byte \<Rightarrow> ('i tunnel, unit) act" where
  "select_method read method =
     in_turn (send_all_of (build_greeting [method])) (\<lambda>_.
     in_turn (read_of read 2) (\<lambda>reply.
     in_turn (told (parse_method_selection reply)) (\<lambda>selected.
       told (if selected \<noteq> method
         then Inl (ProxyError (lit ''SOCKS5 proxy selected method '' @ hex04 selected @ lit '', not the offered '' @ hex04 method))
         else Inr ()))))"

definition authenticate :: "(nat \<Rightarrow> ('i, bytes) act) \<Rightarrow> pystr option \<Rightarrow> pystr \<Rightarrow> ('i tunnel, unit) act" where
  "authenticate read jwt loc =
     (case jwt of
        None \<Rightarrow> told (Inr ())
      | Some j \<Rightarrow>
          in_turn (send_all_of (build_jwt_auth j loc)) (\<lambda>_.
          in_turn (read_of read 2) (\<lambda>reply. told (parse_jwt_auth_reply reply))))"

definition socks5_handshake ::
    "(nat \<Rightarrow> ('i, bytes) act) \<Rightarrow> (pystr \<Rightarrow> bytes res) \<Rightarrow> pystr option \<Rightarrow> pystr \<Rightarrow> pystr \<Rightarrow> int \<Rightarrow> ('i tunnel, unit) act" where
  "socks5_handshake read idna jwt loc dest_host dest_port =
     in_turn (select_method read (if jwt = None then AUTH_NONE else AUTH_SAP_JWT)) (\<lambda>_.
     in_turn (authenticate read jwt loc) (\<lambda>_.
     in_turn (send_all_of (build_connect idna dest_host dest_port)) (\<lambda>_.
     in_turn (recv_connect_reply read) (\<lambda>_. told (Inr ())))))"

text \<open>Whatever goes wrong, the connection is closed.\<close>

definition socks5_connect_via ::
    "(nat \<Rightarrow> ('i, bytes) act) \<Rightarrow> (pystr \<Rightarrow> bytes res) \<Rightarrow> pystr option \<Rightarrow> pystr \<Rightarrow> pystr \<Rightarrow> int \<Rightarrow> ('i tunnel, unit) act" where
  "socks5_connect_via read idna jwt loc dest_host dest_port t =
     (case socks5_handshake read idna jwt loc dest_host dest_port t of
        (Inl e, t1) \<Rightarrow> (Inl e, t1\<lparr>tn_open := False\<rparr>) | (Inr u, t1) \<Rightarrow> (Inr u, t1))"

definition new_tunnel :: "'i \<Rightarrow> 'i tunnel" where
  "new_tunnel i = \<lparr>tn_in = i, tn_out = [], tn_open = True\<rparr>"

definition socks5_connect ::
    "(pystr \<Rightarrow> bytes res) \<Rightarrow> pystr option \<Rightarrow> pystr \<Rightarrow> pystr \<Rightarrow> int \<Rightarrow> segments \<Rightarrow> unit res \<times> segments tunnel" where
  "socks5_connect idna jwt loc dest_host dest_port s =
     socks5_connect_via socks_recv_exactly idna jwt loc dest_host dest_port (new_tunnel s)"

definition socks5_connect_async ::
    "(pystr \<Rightarrow> bytes res) \<Rightarrow> pystr option \<Rightarrow> pystr \<Rightarrow> pystr \<Rightarrow> int \<Rightarrow> bytes \<Rightarrow> unit res \<times> bytes tunnel" where
  "socks5_connect_async idna jwt loc dest_host dest_port s =
     socks5_connect_via readexactly idna jwt loc dest_host dest_port (new_tunnel s)"

section \<open>The token service\<close>

record http_request =
  rq_url :: pystr
  rq_body :: bytes
  rq_headers :: "(pystr \<times> pystr) list"

datatype http_reply = HttpError nat | UrlError pystr | HttpRaises exn | HttpObject pyval

definition basic_auth :: "pystr \<Rightarrow> pystr \<Rightarrow> pystr res" where
  "basic_auth client_id client_secret =
     map_res (\<lambda>b. lit ''Basic '' @ map unat (b64encode b))
       (opt_res UnicodeError (utf8_encode (client_id @ lit '':'' @ client_secret)))"

definition token_request :: "pystr \<Rightarrow> pystr \<Rightarrow> http_request" where
  "token_request token_url auth =
     \<lparr>rq_url = token_url, rq_body = blit ''grant_type=client_credentials'',
      rq_headers = [(lit ''Authorization'', auth), (lit ''Content-Type'', lit ''application/x-www-form-urlencoded''),
        (lit ''Accept'', lit ''application/json'')]\<rparr>"

definition lower_ascii :: "nat \<Rightarrow> nat" where
  "lower_ascii c = (if 65 \<le> c \<and> c \<le> 90 then c + 32 else c)"

definition no_token :: exn where
  "no_token = ProxyError (lit ''OAuth2 token response did not contain an access_token'')"

definition token_of :: "pyval \<Rightarrow> pystr res" where
  "token_of payload =
     (case payload of
        VDict kvs \<Rightarrow>
          (case map_of kvs (lit ''access_token'') of
             Some (VStr t) \<Rightarrow> if t = [] then Inl no_token else Inr t
           | _ \<Rightarrow> Inl no_token)
      | _ \<Rightarrow> Inl OtherException)"

definition fetch_connectivity_token :: "(http_request \<Rightarrow> http_reply) \<Rightarrow> pystr \<Rightarrow> pystr \<Rightarrow> pystr \<Rightarrow> pystr res" where
  "fetch_connectivity_token urlopen token_url client_id client_secret =
     (if \<not> starts_with (lit ''https://'') (map lower_ascii token_url)
      then Inl (ProxyError (lit ''OAuth2 token_url must be an https:// URL (refusing to send the secret in cleartext)''))
      else bind_res (basic_auth client_id client_secret) (\<lambda>auth.
        case urlopen (token_request token_url auth) of
          HttpError code \<Rightarrow> Inl (ProxyError (lit ''OAuth2 token request to the connectivity service failed (HTTP ''
            @ dec_digits code @ lit '')''))
        | UrlError reason \<Rightarrow> Inl (ProxyError (lit ''OAuth2 token request could not reach the token endpoint: '' @ reason))
        | HttpRaises e \<Rightarrow> Inl e
        | HttpObject payload \<Rightarrow> token_of payload))"

definition resolve_proxy_jwt ::
    "(http_request \<Rightarrow> http_reply) \<Rightarrow> pystr option \<Rightarrow> pystr option \<Rightarrow> pystr option \<Rightarrow> pystr option \<Rightarrow> pystr option res" where
  "resolve_proxy_jwt urlopen proxy_jwt client_id client_secret token_url =
     (if proxy_jwt \<noteq> None then Inr proxy_jwt
      else if truthy client_id \<or> truthy client_secret \<or> truthy token_url then
        (if truthy client_id \<and> truthy client_secret \<and> truthy token_url
         then map_res Some (fetch_connectivity_token urlopen (the token_url) (the client_id) (the client_secret))
         else Inl ValueError)
      else Inr None)"

text \<open>The result tells whether the user is warned.\<close>

definition validate_proxy_args ::
    "pystr option \<Rightarrow> pystr option \<Rightarrow> int option \<Rightarrow> bool \<Rightarrow> pystr option \<Rightarrow> pystr option \<Rightarrow> bool res" where
  "validate_proxy_args proxy_type proxy_host proxy_port has_factory wshost gwhost =
     (if proxy_type \<noteq> None \<and> has_factory then Inl ValueError
      else if wshost \<noteq> None \<and> (proxy_type \<noteq> None \<or> has_factory) then Inl ValueError
      else case proxy_type of
        None \<Rightarrow> Inr False
      | Some t \<Rightarrow>
          if t \<noteq> lit ''socks5'' then Inl ValueError
          else if proxy_host = None \<or> proxy_port = None then Inl ValueError
          else Inr (gwhost = None))"

section \<open>The binding of the service\<close>

definition SOCKS5_PORT_KEY :: pystr where "SOCKS5_PORT_KEY = lit ''onpremise_socks5_proxy_port''"
definition PROXY_HOST_KEY :: pystr where "PROXY_HOST_KEY = lit ''onpremise_proxy_host''"

type_synonym binding = "(pystr \<times> pyval) list"

definition quoted :: "pystr \<Rightarrow> pystr" where "quoted s = 39 # s @ [39]"

definition ends_with :: "'a list \<Rightarrow> 'a list \<Rightarrow> bool" where
  "ends_with p s = starts_with (rev p) (rev s)"

definition truthy_value :: "pyval option \<Rightarrow> bool" where
  "truthy_value v = (case v of None \<Rightarrow> False | Some x \<Rightarrow> py_truth x)"

definition token_endpoint :: "binding \<Rightarrow> pystr option" where
  "token_endpoint creds =
     (let v = map_of creds (lit ''token_service_url'');
          base = (if truthy_value v then v else map_of creds (lit ''url''))
      in case base of
           Some (VStr s) \<Rightarrow>
             if s = [] then None
             else let b = rstrip_by (\<lambda>c. c = 47) s
                  in Some (if ends_with (lit ''/oauth/token'') b then b else b @ lit ''/oauth/token'')
         | _ \<Rightarrow> None)"

text \<open>\<open>shown\<close> is the \<^verbatim>\<open>repr\<close> of the sorted keys.\<close>

definition credentials_from_binding :: "(pystr list \<Rightarrow> pystr) \<Rightarrow> binding \<Rightarrow> binding res" where
  "credentials_from_binding shown b =
     (if map_of b PROXY_HOST_KEY \<noteq> None \<or> map_of b SOCKS5_PORT_KEY \<noteq> None then Inr b
      else case map_of b (lit ''connectivity'') of
        Some instances \<Rightarrow>
          if \<not> py_truth instances then Inl (ProxyError (lit ''VCAP_SERVICES has an empty '' @ quoted (lit ''connectivity'') @ lit '' array''))
          else (case instances of
             VList (VDict i # _) \<Rightarrow>
               (case map_of i (lit ''credentials'') of
                  Some (VDict c) \<Rightarrow> Inr c
                | _ \<Rightarrow> Inl (ProxyError (lit ''connectivity binding has no '' @ quoted (lit ''credentials'') @ lit '' object'')))
           | VDict _ \<Rightarrow> Inl KeyError
           | VList _ \<Rightarrow> Inl OtherException
           | VStr _ \<Rightarrow> Inl OtherException
           | _ \<Rightarrow> Inl TypeError)
      | None \<Rightarrow>
          (case map_of b (lit ''credentials'') of
             Some (VDict c) \<Rightarrow> Inr c
           | _ \<Rightarrow> Inl (ProxyError (lit ''could not find connectivity credentials in the binding (keys: ''
                    @ shown (sort (map fst b)) @ lit '')''))))"

text \<open>A directory of bindings: its entries by name, each with its files if it is a directory.\<close>

type_synonym binding_dir = "(pystr \<times> (pystr \<times> pystr) list option) list"

definition binding_entry :: "(pystr \<Rightarrow> binding res) \<Rightarrow> (pystr \<times> pystr) list \<Rightarrow> binding option res" where
  "binding_entry loads files =
     (let is_connectivity = map_option py_strip (map_of files (lit ''type'')) = Some (lit ''connectivity'')
      in case map_of files (lit ''credentials'') of
           Some c \<Rightarrow>
             map_res (\<lambda>creds. if is_connectivity \<or> map_of creds SOCKS5_PORT_KEY \<noteq> None then Some creds else None) (loads c)
         | None \<Rightarrow>
             Inr (if is_connectivity \<or> map_of files SOCKS5_PORT_KEY \<noteq> None
                  then Some (map (\<lambda>(n, c). (n, VStr (py_strip c))) files) else None))"

fun first_binding :: "(pystr \<Rightarrow> binding res) \<Rightarrow> (pystr \<times> pystr) list option list \<Rightarrow> binding option res" where
  "first_binding loads [] = Inr None"
| "first_binding loads (None # es) = first_binding loads es"
| "first_binding loads (Some files # es) =
     bind_res (binding_entry loads files) (\<lambda>c.
       case c of Some creds \<Rightarrow> Inr (Some creds) | None \<Rightarrow> first_binding loads es)"

definition credentials_from_service_binding_root ::
    "(pystr \<Rightarrow> binding res) \<Rightarrow> (pystr \<Rightarrow> pystr) \<Rightarrow> (pystr \<Rightarrow> binding_dir option) \<Rightarrow> pystr \<Rightarrow> binding res" where
  "credentials_from_service_binding_root loads shown dirs root =
     (case dirs root of
        None \<Rightarrow> Inl (ProxyError (lit ''SERVICE_BINDING_ROOT '' @ shown root @ lit '' is not a directory''))
      | Some entries \<Rightarrow>
          bind_res (first_binding loads (map snd (sort_key fst entries))) (\<lambda>c.
            case c of
              Some creds \<Rightarrow> Inr creds
            | None \<Rightarrow> Inl (ProxyError (lit ''no connectivity service binding found under '' @ shown root))))"

text \<open>What the configuration is read from; \<open>se_str\<close> and \<open>se_int\<close> are \<^verbatim>\<open>str\<close> and \<^verbatim>\<open>int\<close> on other values.\<close>

record service_env =
  se_loads :: "pystr \<Rightarrow> binding res"
  se_keys :: "pystr list \<Rightarrow> pystr"
  se_repr :: "pystr \<Rightarrow> pystr"
  se_dirs :: "pystr \<Rightarrow> binding_dir option"
  se_vcap :: "pystr option"
  se_root :: "pystr option"
  se_str :: "pyval \<Rightarrow> pystr"
  se_int :: "pyval \<Rightarrow> int res"

definition value_str :: "service_env \<Rightarrow> pyval \<Rightarrow> pystr" where
  "value_str env v = (case v of VStr s \<Rightarrow> s | _ \<Rightarrow> se_str env v)"

definition value_int :: "service_env \<Rightarrow> pyval \<Rightarrow> int res" where
  "value_int env v =
     (case v of VInt i \<Rightarrow> Inr i | VStr s \<Rightarrow> opt_res ValueError (py_int s) | _ \<Rightarrow> se_int env v)"

datatype binding_source = FromEnvironment | FromText pystr | FromMapping binding

definition find_credentials :: "service_env \<Rightarrow> binding_source \<Rightarrow> binding res" where
  "find_credentials env source =
     (case source of
        FromMapping b \<Rightarrow> credentials_from_binding (se_keys env) b
      | FromText t \<Rightarrow> bind_res (se_loads env t) (credentials_from_binding (se_keys env))
      | FromEnvironment \<Rightarrow>
          if truthy (se_vcap env) then bind_res (se_loads env (the (se_vcap env))) (credentials_from_binding (se_keys env))
          else if truthy (se_root env)
          then credentials_from_service_binding_root (se_loads env) (se_repr env) (se_dirs env) (the (se_root env))
          else Inl (ProxyError (lit ''no binding given and neither VCAP_SERVICES nor SERVICE_BINDING_ROOT is set in the environment'')))"

definition proxy_secrets :: "service_env \<Rightarrow> binding \<Rightarrow> (pystr \<times> pyval) list res" where
  "proxy_secrets env creds =
     (let client_id = map_of creds (lit ''clientid''); client_secret = map_of creds (lit ''clientsecret'')
      in case token_endpoint creds of
           None \<Rightarrow> Inl (ProxyError (lit ''connectivity binding is missing clientid/clientsecret/token_service_url needed for SAP JWT proxy authentication (pass with_auth=False for a trusted-mode Connectivity Proxy)''))
         | Some token_url \<Rightarrow>
             if truthy_value client_id \<and> truthy_value client_secret \<and> token_url \<noteq> [] then
               Inr [(lit ''proxy_client_id'', VStr (value_str env (the client_id))),
                    (lit ''proxy_client_secret'', VStr (value_str env (the client_secret))),
                    (lit ''proxy_token_url'', VStr token_url)]
             else Inl (ProxyError (lit ''connectivity binding is missing clientid/clientsecret/token_service_url needed for SAP JWT proxy authentication (pass with_auth=False for a trusted-mode Connectivity Proxy)'')))"

definition proxy_kwargs :: "service_env \<Rightarrow> binding \<Rightarrow> bool \<Rightarrow> (pystr \<times> pyval) list res" where
  "proxy_kwargs env creds with_auth =
     (let host = map_of creds PROXY_HOST_KEY; port = map_of creds SOCKS5_PORT_KEY in
      if \<not> truthy_value host \<or> port = None \<or> port = Some VNone
      then Inl (ProxyError (lit ''connectivity binding is missing onpremise_proxy_host or onpremise_socks5_proxy_port''))
      else bind_res (value_int env (the port)) (\<lambda>p.
        let kwargs = [(lit ''proxy_type'', VStr (lit ''socks5'')),
            (lit ''proxy_host'', VStr (value_str env (the host))), (lit ''proxy_port'', VInt p)]
        in if with_auth then map_res ((@) kwargs) (proxy_secrets env creds) else Inr kwargs))"

definition connectivity_proxy_kwargs :: "service_env \<Rightarrow> binding_source \<Rightarrow> bool \<Rightarrow> (pystr \<times> pyval) list res" where
  "connectivity_proxy_kwargs env source with_auth =
     bind_res (find_credentials env source) (\<lambda>creds. proxy_kwargs env creds with_auth)"

section \<open>Readers of the handshake\<close>

text \<open>What the handshake needs of its reader: what is there is read whole.\<close>

locale socks_reader =
  fixes read :: "nat \<Rightarrow> ('i, bytes) act"
    and content :: "'i \<Rightarrow> bytes"
    and wf :: "'i \<Rightarrow> bool"
  assumes read_enough: "wf i \<Longrightarrow> n \<le> MAX_REPLY_FIELD \<Longrightarrow> n \<le> length (content i) \<Longrightarrow>
      \<exists>i'. read n i = (Inr (take n (content i)), i') \<and> content i' = drop n (content i) \<and> wf i'"
begin

lemma read_of_part:
  assumes "wf (tn_in t)" and "content (tn_in t) = p @ r" and "length p = n" and "n \<le> MAX_REPLY_FIELD"
  shows "\<exists>i. read_of read n t = (Inr p, t\<lparr>tn_in := i\<rparr>) \<and> content i = r \<and> wf i"
  using read_enough [OF assms(1,4)] assms(2,3) by (auto simp: read_of_def)

lemma method_selected:
  assumes "wf (tn_in t)" and "content (tn_in t) = [SOCKS_VERSION, m] @ r" and "m \<noteq> AUTH_NO_ACCEPTABLE"
  shows "\<exists>i. select_method read m t = (Inr (), t\<lparr>tn_in := i, tn_out := tn_out t @ [SOCKS_VERSION, 1, m]\<rparr>) \<and>
    content i = r \<and> wf i"
  using read_of_part [of "t\<lparr>tn_out := tn_out t @ [SOCKS_VERSION, 1, m]\<rparr>" "[SOCKS_VERSION, m]" r 2] assms
  by (cases t) (auto simp: select_method_def in_turn_def told_def send_all_of_def build_greeting_def
      parse_method_selection_def MAX_REPLY_FIELD_def)

lemma token_accepted:
  assumes "wf (tn_in t)" and "content (tn_in t) = [JWT_SUBNEG_VERSION, AUTH_SUCCESS] @ r" and "build_jwt_auth j loc = Inr a"
  shows "\<exists>i. authenticate read (Some j) loc t = (Inr (), t\<lparr>tn_in := i, tn_out := tn_out t @ a\<rparr>) \<and> content i = r \<and> wf i"
  using read_of_part [of "t\<lparr>tn_out := tn_out t @ a\<rparr>" "[JWT_SUBNEG_VERSION, AUTH_SUCCESS]" r 2] assms
  by (cases t) (auto simp: authenticate_def in_turn_def told_def send_all_of_def parse_jwt_auth_reply_def MAX_REPLY_FIELD_def)

end

lemma socks_recv_loop_enough:
  assumes "[] \<notin> set s" and "n \<le> length buf + length (concat s)" and "length buf \<le> n"
  shows "\<exists>s'. socks_recv_loop n buf s = (Inr (buf @ take (n - length buf) (concat s)), s') \<and>
    concat s' = drop (n - length buf) (concat s) \<and> [] \<notin> set s'"
  using assms
proof (induction n buf s rule: socks_recv_loop.induct)
  case (1 n buf s)
  show ?case
  proof (cases "length buf < n")
    case False
    with "1.prems" show ?thesis by (simp add: socks_recv_loop.simps)
  next
    case True
    obtain c s1 where r: "recv_into (n - length buf) s = (c, s1)" by fastforce
    note rc = recv_into_concat [OF r "1.prems"(1)]
    have c: "c \<noteq> []" using rc True "1.prems"(2) by (cases s) auto
    have step: "socks_recv_loop n buf s = socks_recv_loop n (buf @ c) s1"
      using True r c by (subst socks_recv_loop.simps) simp
    have s: "concat s = c @ concat s1" and le: "length c \<le> n - length buf" using rc by auto
    have "\<exists>s'. socks_recv_loop n (buf @ c) s1
         = (Inr ((buf @ c) @ take (n - length (buf @ c)) (concat s1)), s') \<and>
       concat s' = drop (n - length (buf @ c)) (concat s1) \<and> [] \<notin> set s'"
    proof (rule "1.IH" [OF True r [symmetric] refl c])
      show "[] \<notin> set s1" using rc by blast
      show "n \<le> length (buf @ c) + length (concat s1)" using "1.prems"(2) unfolding s by simp
      show "length (buf @ c) \<le> n" using le True by simp
    qed
    then show ?thesis using le by (simp add: step s)
  qed
qed

interpretation socks_sock: socks_reader socks_recv_exactly concat "\<lambda>s. [] \<notin> set s"
proof unfold_locales
  fix s :: segments and n
  assume "[] \<notin> set s" "n \<le> MAX_REPLY_FIELD" "n \<le> length (concat s)"
  then show "\<exists>s'. socks_recv_exactly n s = (Inr (take n (concat s)), s') \<and> concat s' = drop n (concat s) \<and> [] \<notin> set s'"
    using socks_recv_loop_enough [of s n "[]"] by (simp add: socks_recv_exactly_def)
qed

interpretation socks_stream: socks_reader readexactly "\<lambda>s. s" "\<lambda>s. True"
  by unfold_locales (simp add: readexactly_def)

section \<open>A proxy that accepts\<close>

text \<open>The field of a bound address, the reply with it, and all replies of the handshake.\<close>

definition bound_ok :: "byte \<Rightarrow> bytes \<Rightarrow> bool" where
  "bound_ok atyp field \<longleftrightarrow>
     atyp = ATYP_IPV4 \<and> length field = 4 \<or> atyp = ATYP_IPV6 \<and> length field = 16 \<or>
     atyp = ATYP_DOMAIN \<and> (\<exists>name. length name \<le> 255 \<and> field = word_of_nat (length name) # name)"

definition connect_reply :: "byte \<Rightarrow> byte \<Rightarrow> bytes \<Rightarrow> nat \<Rightarrow> bytes" where
  "connect_reply rsv atyp field port = [SOCKS_VERSION, 0, rsv, atyp] @ field @ be_bytes 2 port"

definition replies_before :: "pystr option \<Rightarrow> bytes" where
  "replies_before jwt =
     (case jwt of None \<Rightarrow> [SOCKS_VERSION, AUTH_NONE]
      | Some j \<Rightarrow> [SOCKS_VERSION, AUTH_SAP_JWT, JWT_SUBNEG_VERSION, AUTH_SUCCESS])"

lemma connect_reply_accepted:
  assumes "bound_ok atyp field"
  shows "parse_connect_reply (connect_reply rsv atyp field port) = Inr (0, port mod 2 ^ 16)"
proof -
  have "py_slice (length field) (length field + 2) (field @ be_bytes 2 port) = be_bytes 2 port"
    by (simp add: py_slice_def)
  moreover from assms have "bound_address_len atyp (field @ be_bytes 2 port) = Inr (length field + 2)"
    by (auto simp: bound_ok_def bound_address_len_def socks_numbers)
  ultimately show ?thesis by (simp add: parse_connect_reply_def connect_reply_def)
qed

context socks_reader
begin

lemma reply_read:
  assumes wf: "wf (tn_in t)" and c: "content (tn_in t) = connect_reply rsv atyp field port @ r" and ok: "bound_ok atyp field"
  shows "\<exists>i p. recv_connect_reply read t = (Inr p, t\<lparr>tn_in := i\<rparr>) \<and> content i = r \<and> wf i"
proof -
  let ?head = "[SOCKS_VERSION, 0, rsv, atyp]"
  obtain i where h: "read_of read 4 t = (Inr ?head, t\<lparr>tn_in := i\<rparr>)" "content i = field @ be_bytes 2 port @ r" "wf i"
    using read_of_part [OF wf, of ?head "field @ be_bytes 2 port @ r" 4] c
    by (auto simp: connect_reply_def MAX_REPLY_FIELD_def)
  note whole = connect_reply_accepted [OF ok, of rsv port]
  show ?thesis
  proof (cases "atyp = ATYP_DOMAIN")
    case True
    then obtain name where n: "field = word_of_nat (length name) # name" "length name \<le> 255"
      using ok by (auto simp: bound_ok_def socks_numbers)
    have k: "unat (word_of_nat (length name) :: byte) = length name" using n(2) by simp
    obtain i1 where l: "read_of read 1 (t\<lparr>tn_in := i\<rparr>) = (Inr [word_of_nat (length name)], t\<lparr>tn_in := i1\<rparr>)"
        "content i1 = name @ be_bytes 2 port @ r" "wf i1"
      using read_of_part [of "t\<lparr>tn_in := i\<rparr>" "[word_of_nat (length name)]" "name @ be_bytes 2 port @ r" 1] h n
      by (auto simp: MAX_REPLY_FIELD_def)
    obtain i2 where b: "read_of read (length name + 2) (t\<lparr>tn_in := i1\<rparr>) = (Inr (name @ be_bytes 2 port), t\<lparr>tn_in := i2\<rparr>)"
        "content i2 = r" "wf i2"
      using read_of_part [of "t\<lparr>tn_in := i1\<rparr>" "name @ be_bytes 2 port" r "length name + 2"] l n
      by (auto simp: MAX_REPLY_FIELD_def)
    have "recv_connect_reply read t = (Inr (0, port mod 2 ^ 16), t\<lparr>tn_in := i2\<rparr>)"
      using h l b k n whole True by (simp add: recv_connect_reply_def in_turn_def told_def connect_reply_def)
    then show ?thesis using b by blast
  next
    case False
    then have n: "bound_address_len atyp [0] = Inr (length field + 2)" "length field + 2 \<le> MAX_REPLY_FIELD"
      using ok by (auto simp: bound_ok_def bound_address_len_def socks_numbers MAX_REPLY_FIELD_def)
    obtain i1 where b: "read_of read (length field + 2) (t\<lparr>tn_in := i\<rparr>) = (Inr (field @ be_bytes 2 port), t\<lparr>tn_in := i1\<rparr>)"
        "content i1 = r" "wf i1"
      using read_of_part [of "t\<lparr>tn_in := i\<rparr>" "field @ be_bytes 2 port" r "length field + 2"] h n by auto
    have "recv_connect_reply read t = (Inr (0, port mod 2 ^ 16), t\<lparr>tn_in := i1\<rparr>)"
      using h b n whole False by (simp add: recv_connect_reply_def in_turn_def told_def connect_reply_def)
    then show ?thesis using b by blast
  qed
qed

lemma handshake_succeeds:
  assumes wf: "wf i" and c: "content i = replies_before jwt @ connect_reply rsv atyp field port @ rest"
    and ok: "bound_ok atyp field"
    and auth: "case jwt of None \<Rightarrow> a = [] | Some j \<Rightarrow> build_jwt_auth j loc = Inr a"
    and req: "build_connect idna host p = Inr q"
  shows "\<exists>i'. socks5_connect_via read idna jwt loc host p (new_tunnel i)
      = (Inr (), \<lparr>tn_in = i', tn_out = [SOCKS_VERSION, 1, if jwt = None then AUTH_NONE else AUTH_SAP_JWT] @ a @ q,
           tn_open = True\<rparr>) \<and> content i' = rest \<and> wf i'"
proof -
  define m where "m = (if jwt = None then AUTH_NONE else AUTH_SAP_JWT)"
  define r1 where "r1 = (if jwt = None then [] else [JWT_SUBNEG_VERSION, AUTH_SUCCESS]) @ connect_reply rsv atyp field port @ rest"
  have "content (tn_in (new_tunnel i)) = [SOCKS_VERSION, m] @ r1" and m: "m \<noteq> AUTH_NO_ACCEPTABLE"
    using c by (auto simp: new_tunnel_def r1_def m_def replies_before_def socks_numbers split: option.splits)
  then obtain i1 where 1: "select_method read m (new_tunnel i)
      = (Inr (), (new_tunnel i)\<lparr>tn_in := i1, tn_out := [SOCKS_VERSION, 1, m]\<rparr>)" "content i1 = r1" "wf i1"
    using method_selected [of "new_tunnel i" m r1] wf by (auto simp: new_tunnel_def)
  define t1 where "t1 = (new_tunnel i)\<lparr>tn_in := i1, tn_out := [SOCKS_VERSION, 1, m]\<rparr>"
  obtain i2 where 2: "authenticate read jwt loc t1 = (Inr (), t1\<lparr>tn_in := i2, tn_out := tn_out t1 @ a\<rparr>)"
      "content i2 = connect_reply rsv atyp field port @ rest" "wf i2"
  proof (cases jwt)
    case None
    then show ?thesis using that [of i1] 1 auth by (simp add: authenticate_def told_def r1_def t1_def)
  next
    case (Some j)
    then show ?thesis using that token_accepted [of t1 "connect_reply rsv atyp field port @ rest" j loc a] 1 auth
      by (auto simp: t1_def r1_def)
  qed
  define t2 where "t2 = t1\<lparr>tn_in := i2, tn_out := tn_out t1 @ a @ q\<rparr>"
  obtain i3 b where 3: "recv_connect_reply read t2 = (Inr b, t2\<lparr>tn_in := i3\<rparr>)" "content i3 = rest" "wf i3"
    using reply_read [of t2 rsv atyp field port rest] 2 ok by (auto simp: t2_def)
  have "socks5_connect_via read idna jwt loc host p (new_tunnel i) = (Inr (), t2\<lparr>tn_in := i3\<rparr>)"
    using 1(1) 2(1) 3(1) req
    by (simp add: socks5_connect_via_def socks5_handshake_def in_turn_def told_def send_all_of_def t2_def
        flip: m_def t1_def)
  then show ?thesis using 3 by (auto simp: t2_def t1_def new_tunnel_def m_def)
qed

end

section \<open>What the proxy reads\<close>

definition b64_val :: "byte \<Rightarrow> nat" where
  "b64_val b =
     (let c = unat b in if 97 \<le> c then c - 71 else if 65 \<le> c then c - 65 else if 48 \<le> c then c + 4
      else if c = 43 then 62 else 63)"

fun b64decode :: "bytes \<Rightarrow> bytes" where
  "b64decode (a # b # c # d # r) =
     (let n = ((b64_val a * 64 + b64_val b) * 64 + (if c = 61 then 0 else b64_val c)) * 64 + (if d = 61 then 0 else b64_val d)
      in take (if c = 61 then 1 else if d = 61 then 2 else 3) (be_bytes 3 n) @ b64decode r)"
| "b64decode _ = []"

lemma b64_val_char: "n < 64 \<Longrightarrow> b64_val (b64_char n) = n \<and> b64_char n \<noteq> 61"
proof -
  have "\<forall>n \<in> {..<64}. b64_val (b64_char n) = n \<and> b64_char n \<noteq> 61"
    by (simp add: lessThan_nat_numeral b64_val_def b64_char_def Let_def)
  then show "n < 64 \<Longrightarrow> b64_val (b64_char n) = n \<and> b64_char n \<noteq> 61" by simp
qed

lemma be_bytes_three: "be_bytes 3 ((unat a * 256 + unat b) * 256 + unat (c :: byte)) = [a, b, c]"
  using be_bytes_be_val [of "[a, b, c]" 3] by (simp add: be_val_def algebra_simps)

lemma b64_number:
  "((((a :: nat) div 4) * 64 + (a mod 4 * 16 + b div 16)) * 64 + (b mod 16 * 4 + c div 64)) * 64 + c mod 64
    = (a * 256 + b) * 256 + c"
proof -
  have "a = x * 4 + x' \<Longrightarrow> b = y * 16 + y' \<Longrightarrow> c = z * 64 + z' \<Longrightarrow>
    ((x * 64 + (x' * 16 + y)) * 64 + (y' * 4 + z)) * 64 + z' = (a * 256 + b) * 256 + c" for x x' y y' z z' :: nat
    by simp
  from this [of "a div 4" "a mod 4" "b div 16" "b mod 16" "c div 64" "c mod 64"] show ?thesis by simp
qed

lemma b64_parts:
  fixes a b c :: byte
  shows "unat a div 4 < 64 \<and> unat a mod 4 * 16 + unat b div 16 < 64 \<and> unat b mod 16 * 4 + unat c div 64 < 64 \<and>
    unat c mod 64 < 64 \<and> unat a mod 4 * 16 < 64 \<and> unat b mod 16 * 4 < 64"
proof -
  have "unat a div 4 < 64" "unat a mod 4 < 4" "unat b div 16 < 16" "unat b mod 16 < 16" "unat c div 64 < 4" "unat c mod 64 < 64"
    using byte_less_256 [of a] byte_less_256 [of b] byte_less_256 [of c] by (simp_all add: less_mult_imp_div_less)
  then show ?thesis by linarith
qed

lemma b64_round_trip [simp]: "b64decode (b64encode bs) = bs"
proof (induction bs rule: b64encode.induct)
  case (2 a)
  show ?case using b64_number [of "unat a" 0 0] be_bytes_three [of a 0 0] b64_parts [of a 0 0]
    by (simp add: b64_val_char Let_def)
next
  case (3 a b)
  show ?case using b64_number [of "unat a" "unat b" 0] be_bytes_three [of a b 0] b64_parts [of a b 0]
    by (simp add: b64_val_char Let_def)
next
  case (4 a b c r)
  show ?case using be_bytes_three [of a b c] b64_parts [of a b c] 4
    by (simp add: b64_val_char Let_def b64_number del: distrib_left_numeral distrib_right_numeral)
qed simp

text \<open>A proxy that reads the greeting, the token and the request one after the other.\<close>

fun read_greeting :: "bytes \<Rightarrow> (bytes \<times> bytes) option" where
  "read_greeting (v # n # r) = (if v = SOCKS_VERSION \<and> unat n \<le> length r then Some (take (unat n) r, drop (unat n) r) else None)"
| "read_greeting _ = None"

fun read_token_field :: "bytes \<Rightarrow> ((pystr \<times> pystr) \<times> bytes) option" where
  "read_token_field (v # r) =
     (let n = be_val (take 4 r)
      in case drop (4 + n) r of
           k # s \<Rightarrow>
             (case (utf8_decode (take n (drop 4 r)), utf8_decode (b64decode (take (unat k) s))) of
                (Some t, Some l) \<Rightarrow> Some ((t, l), drop (unat k) s)
              | _ \<Rightarrow> None)
         | [] \<Rightarrow> None)"
| "read_token_field [] = None"

fun read_request :: "bytes \<Rightarrow> (byte \<times> bytes \<times> nat) option" where
  "read_request (v # cmd # rsv # atyp # r) =
     (let n = (if atyp = ATYP_IPV4 then 4 else if atyp = ATYP_IPV6 then 16 else 1 + unat (hd r))
      in if v = SOCKS_VERSION \<and> cmd = CMD_CONNECT \<and> length r = n + 2
         then Some (atyp, take n r, be_val (drop n r)) else None)"
| "read_request _ = None"

definition read_dialogue :: "bool \<Rightarrow> bytes \<Rightarrow> (bytes \<times> (pystr \<times> pystr) option \<times> byte \<times> bytes \<times> nat) option" where
  "read_dialogue auth d =
     Option.bind (read_greeting d) (\<lambda>(methods, r).
       if auth then Option.bind (read_token_field r) (\<lambda>(t, s). map_option (\<lambda>q. (methods, Some t, q)) (read_request s))
       else map_option (\<lambda>q. (methods, None, q)) (read_request r))"

lemma token_read:
  assumes "build_jwt_auth j loc = Inr a"
  shows "read_token_field (a @ r) = Some ((j, loc), r)"
proof -
  obtain jb lb where a: "utf8_encode j = Some jb" "location_field loc = Inr lb" "length lb \<le> 255" "length jb < 2 ^ 32"
      "a = JWT_SUBNEG_VERSION # be_bytes 4 (length jb) @ jb @ word_of_nat (length lb) # lb"
    using assms by (cases "utf8_encode j"; cases "location_field loc") (auto simp: build_jwt_auth_def split: if_splits)
  have l: "utf8_decode (b64decode lb) = Some loc"
    using a(2) by (cases "utf8_encode loc") (auto simp: location_field_def utf8_roundtrip split: if_splits)
  have n: "be_val (be_bytes 4 (length jb)) = length jb" "unat (word_of_nat (length lb) :: byte) = length lb"
    using a(3,4) by simp_all
  show ?thesis using n l utf8_roundtrip [OF a(1)] by (simp add: a(5) Let_def)
qed

lemma length_of_those: "those xs = Some ys \<Longrightarrow> length ys = length xs"
  by (induction xs arbitrary: ys) (auto split: option.splits)

lemma pton4_length: "inet_pton4 s = Some a \<Longrightarrow> length a = 4"
  by (auto simp: inet_pton4_def split: list.splits option.splits dest!: length_of_those)

lemma address_type_ok:
  assumes "address_type idna host = Inr (atyp, addr)"
  shows "bound_ok atyp addr"
proof -
  have six: "length a = 16" if "inet_pton6 host = Some a" for a
    using that by (auto simp: inet_pton6_def bind_eq_Some_conv split: option.splits if_splits)
  show ?thesis using assms six pton4_length [of host]
    by (auto simp: address_type_def bound_ok_def bind_res_Inr split: option.splits if_splits)
qed

lemma connect_request_read:
  assumes "address_type idna host = Inr (atyp, addr)" and "0 < p" and "p \<le> 0xFFFF"
  shows "\<exists>q. build_connect idna host p = Inr q \<and> read_request q = Some (atyp, addr, nat p)"
proof -
  have p: "nat p < 2 ^ 16" using assms(3) by simp
  have "read_request ([SOCKS_VERSION, CMD_CONNECT, RSV, atyp] @ addr @ be_bytes 2 (nat p)) = Some (atyp, addr, nat p)"
    using address_type_ok [OF assms(1)] p by (auto simp: bound_ok_def socks_numbers Let_def)
  then show ?thesis using assms by (simp add: build_connect_def)
qed

section \<open>The token stays secret\<close>

text \<open>Two actions that cannot be told apart by what is read.\<close>

definition alike :: "('i tunnel, 'a) act \<Rightarrow> ('i tunnel, 'a) act \<Rightarrow> bool" where
  "alike m m' \<longleftrightarrow>
     (\<forall>t u. tn_in t = tn_in u \<longrightarrow> fst (m t) = fst (m' u) \<and> tn_in (snd (m t)) = tn_in (snd (m' u)))"

lemma alike_in_turn:
  assumes "alike m m'" and "\<And>a. alike (f a) (f' a)"
  shows "alike (in_turn m f) (in_turn m' f')"
  unfolding alike_def
proof (intro allI impI)
  fix t u :: "'a tunnel"
  assume "tn_in t = tn_in u"
  then have r: "fst (m t) = fst (m' u)" "tn_in (snd (m t)) = tn_in (snd (m' u))"
    using assms(1) by (auto simp: alike_def)
  obtain x t1 x' u1 where m: "m t = (x, t1)" "m' u = (x', u1)" by fastforce
  show "fst (in_turn m f t) = fst (in_turn m' f' u) \<and> tn_in (snd (in_turn m f t)) = tn_in (snd (in_turn m' f' u))"
    using r m assms(2) by (cases x) (auto simp: in_turn_def alike_def)
qed

lemma alike_steps [simp]:
  "alike (told x) (told x)"
  "alike (read_of read n) (read_of read n)"
  "alike (send_all_of r) (send_all_of r)"
  "alike (send_all_of (Inr a)) (send_all_of (Inr b))"
  by (auto simp: alike_def told_def read_of_def send_all_of_def split: prod.splits sum.splits)

lemma alike_handshakes:
  assumes "build_jwt_auth j loc = Inr a" and "build_jwt_auth j' loc = Inr a'"
  shows "alike (socks5_handshake read idna (Some j) loc host p) (socks5_handshake read idna (Some j') loc host p)"
proof -
  have "alike (authenticate read (Some j) loc) (authenticate read (Some j') loc)"
    by (auto simp: authenticate_def assms intro!: alike_in_turn)
  moreover have "alike (recv_connect_reply read) (recv_connect_reply read)"
    by (auto simp: recv_connect_reply_def intro!: alike_in_turn)
  moreover have "alike (select_method read m) (select_method read m)" for m
    by (auto simp: select_method_def intro!: alike_in_turn)
  ultimately show ?thesis by (auto simp: socks5_handshake_def intro!: alike_in_turn)
qed

lemma same_outcome:
  assumes "build_jwt_auth j loc = Inr a" and "build_jwt_auth j' loc = Inr a'"
  shows "fst (socks5_connect_via read idna (Some j) loc host p t) = fst (socks5_connect_via read idna (Some j') loc host p t)"
proof -
  have "fst (socks5_connect_via read idna jwt loc host p t) = fst (socks5_handshake read idna jwt loc host p t)" for jwt
    by (simp add: socks5_connect_via_def split: prod.splits sum.splits)
  then show ?thesis using alike_handshakes [OF assms, of read idna host p] by (simp add: alike_def)
qed

lemma socks_recv_closed:
  assumes "socks_recv_loop n buf s = (Inl e, s')"
  shows "\<exists>m. e = ProxyError m"
  using assms by (induction n buf s rule: socks_recv_loop.induct) (auto simp: socks_recv_loop.simps Let_def split: if_splits prod.splits)

lemma socks_recv_full:
  assumes "socks_recv_loop n buf s = (Inr d, s')" and "length buf \<le> n"
  shows "length d = n \<and> n \<le> length buf + length (concat s)"
  using assms
proof (induction n buf s rule: socks_recv_loop.induct)
  case (1 n buf s)
  obtain c s1 where r: "recv_into (n - length buf) s = (c, s1)" by fastforce
  have c: "length c \<le> n - length buf" "concat s = c @ concat s1"
    using r by (cases s; auto split: if_splits)+
  show ?case
  proof (cases "length buf < n")
    case True
    with "1.prems" r have "c \<noteq> []" "socks_recv_loop n (buf @ c) s1 = (Inr d, s')"
      by (auto simp: socks_recv_loop.simps [of n buf] split: if_splits)
    moreover have "length (buf @ c) \<le> n" using c(1) True by simp
    ultimately have "length d = n \<and> n \<le> length (buf @ c) + length (concat s1)"
      by (intro "1.IH" [OF True r [symmetric] refl])
    then show ?thesis using c(2) by simp
  qed (use "1.prems" in \<open>simp add: socks_recv_loop.simps\<close>)
qed

lemma socks_recv_fails:
  assumes "socks_recv_exactly n s = (Inl e, s')"
  shows "\<exists>m. e = ProxyError m"
  using assms socks_recv_closed by (auto simp: socks_recv_exactly_def split: if_splits)

text \<open>Without the proxy's consent the greeting is all that is sent.\<close>

lemma no_consent:
  assumes wf: "[] \<notin> set segs" and no: "\<not> starts_with [SOCKS_VERSION, AUTH_SAP_JWT] (concat segs)"
  shows "\<exists>m t. socks5_connect idna (Some j) loc host p segs = (Inl (ProxyError m), t) \<and>
    tn_out t = [SOCKS_VERSION, 1, AUTH_SAP_JWT] \<and> \<not> tn_open t"
proof -
  obtain r s where read: "socks_recv_exactly 2 segs = (r, s)" by fastforce
  define t where "t = \<lparr>tn_in = s, tn_out = [SOCKS_VERSION, 1, AUTH_SAP_JWT], tn_open = True\<rparr>"
  have "\<exists>m. select_method socks_recv_exactly AUTH_SAP_JWT (new_tunnel segs) = (Inl (ProxyError m), t)"
  proof (cases r)
    case (Inl e)
    then show ?thesis using socks_recv_fails read
      by (auto simp: select_method_def in_turn_def send_all_of_def build_greeting_def read_of_def new_tunnel_def t_def)
  next
    case (Inr d)
    have "2 \<le> length (concat segs)"
      using socks_recv_full [of 2 "[]" segs d s] read Inr by (simp add: socks_recv_exactly_def MAX_REPLY_FIELD_def)
    then obtain x y z where c: "concat segs = x # y # z" by (metis One_nat_def Suc_1 Suc_le_length_iff)
    have "d = [x, y]" using socks_sock.read_enough [OF wf, of 2] read Inr c by (auto simp: MAX_REPLY_FIELD_def)
    then show ?thesis using read Inr no
      by (auto simp: select_method_def in_turn_def send_all_of_def build_greeting_def read_of_def new_tunnel_def t_def
          told_def parse_method_selection_def c starts_with_def)
  qed
  then show ?thesis by (auto simp: socks5_connect_def socks5_connect_via_def socks5_handshake_def in_turn_def t_def)
qed

text \<open>A refusal with an address type of zero is reported by that type, not by its code.\<close>

lemma refusal_code_lost:
  assumes "[] \<notin> set (tn_in t)" and "concat (tn_in t) = [SOCKS_VERSION, rep, rsv, 0] @ r"
  shows "fst (recv_connect_reply socks_recv_exactly t)
    = Inl (ProxyError (lit ''SOCKS5 CONNECT reply has unknown address type 0x00''))"
proof -
  have h: "hex04 0 = lit ''0x00''" by (simp add: hex04_def lower_hex_def)
  have "bound_address_len 0 [0] = Inl (ProxyError (lit ''SOCKS5 CONNECT reply has unknown address type 0x00''))"
    unfolding bound_address_len_def h by (simp add: socks_numbers)
  then show ?thesis using socks_sock.read_of_part [OF assms, of 4]
    by (auto simp: recv_connect_reply_def in_turn_def told_def MAX_REPLY_FIELD_def socks_numbers)
qed

section \<open>Properties\<close>

text \<open>C24. The tunnel is opened and nothing but it.  With a proxy that accepts, however its answers are cut
  into segments, the client opens the tunnel; what it has sent the proxy reads as the one
  method offered, the token with the location, when there is one, and the address and port wanted; and what follows
  the proxy's answers is left for the connection.  The asynchronous client does the same.\<close>

theorem tunnel_opened:
  assumes "address_type idna host = Inr (atyp, addr)" and "0 < p" and "p \<le> 0xFFFF"
    and "case jwt of None \<Rightarrow> True | Some j \<Rightarrow> \<exists>a. build_jwt_auth j loc = Inr a"
    and "bound_ok bound field" and "[] \<notin> set segs"
    and "concat segs = replies_before jwt @ connect_reply rsv bound field port @ rest"
  shows "\<exists>s out. socks5_connect idna jwt loc host p segs = (Inr (), \<lparr>tn_in = s, tn_out = out, tn_open = True\<rparr>) \<and>
    concat s = rest \<and>
    socks5_connect_async idna jwt loc host p (concat segs) = (Inr (), \<lparr>tn_in = rest, tn_out = out, tn_open = True\<rparr>) \<and>
    read_dialogue (jwt \<noteq> None) out =
      Some ([if jwt = None then AUTH_NONE else AUTH_SAP_JWT], map_option (\<lambda>j. (j, loc)) jwt, atyp, addr, nat p)"
proof -
  obtain q where q: "build_connect idna host p = Inr q" "read_request q = Some (atyp, addr, nat p)"
    using connect_request_read [OF assms(1-3)] by blast
  obtain a where a: "case jwt of None \<Rightarrow> a = [] | Some j \<Rightarrow> build_jwt_auth j loc = Inr a"
    using assms(4) by (cases jwt) auto
  define out where "out = [SOCKS_VERSION, 1, if jwt = None then AUTH_NONE else AUTH_SAP_JWT] @ a @ q"
  have "read_dialogue (jwt \<noteq> None) out =
      Some ([if jwt = None then AUTH_NONE else AUTH_SAP_JWT], map_option (\<lambda>j. (j, loc)) jwt, atyp, addr, nat p)"
    using a q(2) by (cases jwt) (auto simp: read_dialogue_def out_def token_read)
  moreover obtain s where "socks5_connect idna jwt loc host p segs = (Inr (), \<lparr>tn_in = s, tn_out = out, tn_open = True\<rparr>)"
      "concat s = rest"
    using socks_sock.handshake_succeeds [OF assms(6,7,5) a q(1)] by (auto simp: socks5_connect_def out_def)
  moreover have "socks5_connect_async idna jwt loc host p (concat segs) = (Inr (), \<lparr>tn_in = rest, tn_out = out, tn_open = True\<rparr>)"
    using socks_stream.handshake_succeeds [OF TrueI assms(7,5) a q(1)] by (auto simp: socks5_connect_async_def out_def)
  ultimately show ?thesis by blast
qed

theorem tunnel_opened_witness:
  "\<exists>s out. socks5_connect (\<lambda>h. Inl UnicodeError) (Some (lit ''eyJ'')) (lit ''loc'') (lit ''vhost'') 3300
      [[5], [0x80, 1, 0, 5, 0], [0, 1, 10, 0, 0, 1, 0, 0, 7]] = (Inr (), \<lparr>tn_in = s, tn_out = out, tn_open = True\<rparr>) \<and>
    concat s = [7] \<and>
    read_dialogue True out = Some ([0x80], Some (lit ''eyJ'', lit ''loc''), 3, 5 # blit ''vhost'', 3300)"
proof -
  have "address_type (\<lambda>h. Inl UnicodeError) (lit ''vhost'') = Inr (3, 5 # blit ''vhost'')"
    by (simp add: address_type_def utf8_encode_def is_surrogate_def inet_pton4_def inet_pton6_def pton_side_def
        pton_group_def hex_val_def is_digit_def is_ascii_def ascii_encode_def socks_numbers)
  moreover have "\<exists>a. build_jwt_auth (lit ''eyJ'') (lit ''loc'') = Inr a"
    by (simp add: build_jwt_auth_def location_field_def utf8_encode_def is_surrogate_def utf8_cp_def)
  moreover have "concat [[5], [0x80, 1, 0, 5, 0], [0, 1, 10, 0, 0, 1, 0, 0, 7]]
      = replies_before (Some (lit ''eyJ'')) @ connect_reply 0 1 [10, 0, 0, 1] 0 @ [7]"
    by (simp add: replies_before_def connect_reply_def socks_numbers be_bytes_def numeral_2_eq_2)
  ultimately show ?thesis
    using tunnel_opened [of "\<lambda>h. Inl UnicodeError" "lit ''vhost''" 3 "5 # blit ''vhost''" 3300 "lit ''loc''"
        "Some (lit ''eyJ'')" 1 "[10, 0, 0, 1]" "[[5], [0x80, 1, 0, 5, 0], [0, 1, 10, 0, 0, 1, 0, 0, 7]]" 0 0 "[7]"]
    by (auto simp: bound_ok_def socks_numbers)
qed

text \<open>C25. The token is not given away.  Whatever a proxy answers, the outcome does not tell two
  tokens apart: the same result or the very same exception with the same text, for the blocking and the asynchronous client; and a
  proxy that has not selected the token method is sent the greeting only, before the connection is closed
  with a proxy error.\<close>

theorem token_stays_secret:
  assumes "build_jwt_auth j loc = Inr a" and "build_jwt_auth j' loc = Inr a'" and "[] \<notin> set segs"
  shows "fst (socks5_connect idna (Some j) loc host p segs) = fst (socks5_connect idna (Some j') loc host p segs) \<and>
    fst (socks5_connect_async idna (Some j) loc host p i) = fst (socks5_connect_async idna (Some j') loc host p i) \<and>
    (\<not> starts_with [SOCKS_VERSION, AUTH_SAP_JWT] (concat segs) \<longrightarrow>
     (\<exists>m t. socks5_connect idna (Some j) loc host p segs = (Inl (ProxyError m), t) \<and>
       tn_out t = [SOCKS_VERSION, 1, AUTH_SAP_JWT] \<and> \<not> tn_open t))"
  using same_outcome [OF assms(1,2), of socks_recv_exactly] same_outcome [OF assms(1,2), of readexactly] no_consent [OF assms(3)]
  by (auto simp: socks5_connect_def socks5_connect_async_def)

theorem token_stays_secret_witness:
  "fst (socks5_connect (\<lambda>h. Inl UnicodeError) (Some (lit ''a'')) [] (lit ''h'') 1 [[5, 0x80], [1, 7]])
     = fst (socks5_connect (\<lambda>h. Inl UnicodeError) (Some (lit ''b'')) [] (lit ''h'') 1 [[5, 0x80], [1, 7]])"
proof -
  have "\<exists>a. build_jwt_auth (lit ''a'') [] = Inr a" "\<exists>a. build_jwt_auth (lit ''b'') [] = Inr a"
    by (simp_all add: build_jwt_auth_def location_field_def utf8_encode_def is_surrogate_def utf8_cp_def)
  then show ?thesis using token_stays_secret [of "lit ''a''" "[]" _ "lit ''b''" _ "[[5, 0x80], [1, 7]]"] by auto
qed

lemma proxy_kwargs_env:
  assumes "se_str e = se_str env" and "se_int e = se_int env"
  shows "proxy_kwargs e = proxy_kwargs env"
proof -
  have "value_str e = value_str env" "value_int e = value_int env"
    using assms by (auto simp: fun_eq_iff value_str_def value_int_def split: pyval.splits)
  note v = this
  have w: "proxy_secrets e = proxy_secrets env" by (rule ext) (unfold proxy_secrets_def v, rule refl)
  show ?thesis by (rule ext)+ (unfold proxy_kwargs_def v w, rule refl)
qed

text \<open>The shape of a service binding does not matter.  Credentials with the port of the proxy give the same
  connection parameters, or the same error, as they are, under their key, in the list of a
  \<^verbatim>\<open>VCAP_SERVICES\<close> text, and as the credentials file of the first binding directory, by name, that is one of the
  connectivity service; without authentication the parameters are type, host and port only.\<close>

lemma binding_shapes_agree:
  assumes "map_of creds SOCKS5_PORT_KEY \<noteq> None"
    and "map_of wrapped (lit ''credentials'') = Some (VDict creds)"
    and "map_of wrapped PROXY_HOST_KEY = None" "map_of wrapped SOCKS5_PORT_KEY = None" "map_of wrapped (lit ''connectivity'') = None"
    and "se_loads env vcap_text = Inr [(lit ''connectivity'', VList (VDict wrapped # others))]"
    and "se_dirs env root = Some dir" and "root \<noteq> []" and "vcap_text \<noteq> []"
    and "map snd (sort_key fst dir) = before @ Some files # after"
    and "\<forall>e \<in> set before. case e of None \<Rightarrow> True | Some fs \<Rightarrow> binding_entry (se_loads env) fs = Inr None"
    and "map_of files (lit ''credentials'') = Some creds_text" and "se_loads env creds_text = Inr creds"
  defines "plain \<equiv> connectivity_proxy_kwargs env (FromMapping creds)"
  shows "connectivity_proxy_kwargs env (FromMapping wrapped) = plain \<and>
    connectivity_proxy_kwargs env (FromText vcap_text) = plain \<and>
    connectivity_proxy_kwargs (env\<lparr>se_vcap := Some vcap_text\<rparr>) FromEnvironment = plain \<and>
    connectivity_proxy_kwargs (env\<lparr>se_vcap := None, se_root := Some root\<rparr>) FromEnvironment = plain \<and>
    (\<forall>kw. plain False = Inr kw \<longrightarrow> map fst kw = [lit ''proxy_type'', lit ''proxy_host'', lit ''proxy_port''])"
proof -
  have c: "credentials_from_binding sh creds = Inr creds" for sh using assms(1) by (simp add: credentials_from_binding_def)
  have w: "credentials_from_binding sh wrapped = Inr creds" for sh
    using assms(2-5) by (simp add: credentials_from_binding_def)
  have v: "credentials_from_binding sh [(lit ''connectivity'', VList (VDict wrapped # others))] = Inr creds" for sh
    using assms(2) by (simp add: credentials_from_binding_def PROXY_HOST_KEY_def SOCKS5_PORT_KEY_def)
  have "first_binding (se_loads env) (before @ Some files # after) = Inr (Some creds)"
    using assms(11)
  proof (induction before)
    case Nil
    then show ?case using assms(1,12,13) by (simp add: binding_entry_def)
  next
    case (Cons e before)
    then show ?case by (cases e) auto
  qed
  then have d: "credentials_from_service_binding_root (se_loads env) sh (se_dirs env) root = Inr creds" for sh
    using assms(7,10) by (simp add: credentials_from_service_binding_root_def)
  have kw: "connectivity_proxy_kwargs e source = plain"
    if "find_credentials e source = Inr creds" "se_str e = se_str env" "se_int e = se_int env" for e source
    using that c by (simp add: connectivity_proxy_kwargs_def plain_def find_credentials_def fun_eq_iff proxy_kwargs_env [of e env])
  have 1: "connectivity_proxy_kwargs env (FromMapping wrapped) = plain"
    and 2: "connectivity_proxy_kwargs env (FromText vcap_text) = plain"
    by (rule kw; use v [of "se_keys env"] in \<open>simp add: find_credentials_def w assms(6)\<close>)+
  have 3: "connectivity_proxy_kwargs (env\<lparr>se_vcap := Some vcap_text\<rparr>) FromEnvironment = plain" if "vcap_text \<noteq> []"
    by (rule kw) (use v [of "se_keys env"] in \<open>simp_all add: find_credentials_def that assms(6)\<close>)
  have 4: "connectivity_proxy_kwargs (env\<lparr>se_vcap := None, se_root := Some root\<rparr>) FromEnvironment = plain"
    by (rule kw) (simp_all add: find_credentials_def assms(8) d)
  have 5: "\<forall>kw. plain False = Inr kw \<longrightarrow> map fst kw = [lit ''proxy_type'', lit ''proxy_host'', lit ''proxy_port'']"
    by (auto simp: plain_def connectivity_proxy_kwargs_def proxy_kwargs_def Let_def bind_res_Inr split: if_splits)
  show ?thesis using 1 2 3 [OF assms(9)] 4 5 by blast
qed

end
