(* ===== verification/Snc_Frames.thy ===== *)
theory Snc_Frames
  imports Ni_Transport Py_Values Invoke_Request
begin

text \<open>
  \<^verbatim>\<open>src/saprfclib/snc.py\<close>, its frames: the header with its extension, the name of the partner in
  DER, the levels of protection, and the calls of the security library behind \<^verbatim>\<open>GssBinding\<close>.

  The library is native code and a parameter: a record of functions on a state \<open>'g\<close>, which return the
  status codes of GSS-API and the bytes of the output buffer.  The real and the duck-typed path of
  \<^verbatim>\<open>GssBinding\<close> differ in how they pass buffers only.
\<close>

section \<open>Constants\<close>

definition SNC_HEADER_SIZE :: nat where "SNC_HEADER_SIZE = 0x18"
definition SNC_VERSION :: nat where "SNC_VERSION = 6"
definition SNC_CTX_ID :: nat where "SNC_CTX_ID = 3"
definition SNC_HANDSHAKE_QOP :: nat where "SNC_HANDSHAKE_QOP = 0x7E"
definition SAP_SNC_OID :: bytes where "SAP_SNC_OID = [0x06, 0x06, 0x2B, 0x24, 0x03, 0x01, 0x25, 0x01]"
definition SNC_EXT_MAGIC :: bytes where "SNC_EXT_MAGIC = [0, 0, 0, 1]"
definition SNC_EXT_FLAGS :: bytes where "SNC_EXT_FLAGS = [4, 1]"
definition SNC_EYE :: bytes where "SNC_EYE = blit ''SNCFRAME''"

datatype snc_frame_type = FR_INIT | FR_ACCEPT | PLAIN | INTEGRITY | PRIVACY

fun frame_type_number :: "snc_frame_type \<Rightarrow> nat" where
  "frame_type_number FR_INIT = 2"
| "frame_type_number FR_ACCEPT = 4"
| "frame_type_number PLAIN = 7"
| "frame_type_number INTEGRITY = 8"
| "frame_type_number PRIVACY = 9"

definition RDN_OID :: "(pystr \<times> bytes) list" where
  "RDN_OID =
     [(lit ''CN'', [6, 3, 0x55, 4, 0x03]), (lit ''OU'', [6, 3, 0x55, 4, 0x0B]), (lit ''O'', [6, 3, 0x55, 4, 0x0A]),
      (lit ''C'', [6, 3, 0x55, 4, 0x06]), (lit ''L'', [6, 3, 0x55, 4, 0x07]), (lit ''ST'', [6, 3, 0x55, 4, 0x08])]"

text \<open>\<^verbatim>\<open>_QOP_PROTECTION\<close>: authentication only, integrity, privacy, default and maximum.\<close>

definition QOP_PROTECTION :: "(nat \<times> snc_frame_type) list" where
  "QOP_PROTECTION = [(1, PLAIN), (2, INTEGRITY), (3, PRIVACY), (8, PRIVACY), (9, PRIVACY)]"

definition validate_snc_qop :: "int \<Rightarrow> nat res" where
  "validate_snc_qop v =
     (if 0 \<le> v \<and> nat v \<in> fst ` set QOP_PROTECTION then Inr (nat v) else Inl ValueError)"

section \<open>The name of the partner\<close>

definition der_tlv :: "byte \<Rightarrow> bytes \<Rightarrow> bytes res" where
  "der_tlv tag content =
     (let n = length content in
      if n < 128 then Inr ([tag, word_of_nat n] @ content)
      else if n < 256 then Inr ([tag, 0x81, word_of_nat n] @ content)
      else if n div 256 < 256 then Inr ([tag, 0x82, word_of_nat (n div 256), word_of_nat (n mod 256)] @ content)
      else Inl ValueError)"

text \<open>\<^verbatim>\<open>s.partition("=")\<close>, of which the separator is dropped.\<close>

definition partition_eq :: "pystr \<Rightarrow> pystr \<times> pystr" where
  "partition_eq s = (takeWhile (\<lambda>c. c \<noteq> 61) s, drop 1 (dropWhile (\<lambda>c. c \<noteq> 61) s))"

definition rdn_der :: "(nat \<Rightarrow> pystr) \<Rightarrow> pystr \<Rightarrow> bytes res" where
  "rdn_der uc rdn =
     (case partition_eq rdn of
        (attr, value) \<Rightarrow>
          (case map_of RDN_OID (py_upper uc (py_strip attr)) of
             None \<Rightarrow> Inl ValueError
           | Some oid \<Rightarrow>
               bind_res (opt_res UnicodeError (ascii_encode (py_strip value))) (\<lambda>v.
               bind_res (der_tlv 0x13 v) (\<lambda>pstring.
               bind_res (der_tlv 0x30 (oid @ pstring)) (\<lambda>atv.
                 der_tlv 0x31 atv)))))"

definition build_dn_der :: "(nat \<Rightarrow> pystr) \<Rightarrow> pystr \<Rightarrow> bytes res" where
  "build_dn_der uc dn =
     bind_res (seq_res (map (rdn_der uc) (rev (map py_strip (split_on 44 dn))))) (\<lambda>parts.
       der_tlv 0x30 (concat parts))"

definition build_snc_ext_header :: "(nat \<Rightarrow> pystr) \<Rightarrow> pystr \<Rightarrow> bytes res" where
  "build_snc_ext_header uc partner_dn =
     bind_res (build_dn_der uc partner_dn) (\<lambda>dn_der.
       let remaining = 2 + 2 + 2 + length SAP_SNC_OID + 4 + length dn_der in
       if 2 ^ 16 \<le> remaining then Inl StructError
       else Inr (SNC_EXT_MAGIC @ be_bytes 2 remaining @ be_bytes 2 SNC_CTX_ID @ SNC_EXT_FLAGS
         @ be_bytes 2 (length SAP_SNC_OID) @ SAP_SNC_OID @ be_bytes 4 (length dn_der) @ dn_der))"

definition get_snc_adapter_info :: bytes where
  "get_snc_adapter_info = blit ''Internal SNC-Adapter (Rev 1.1) to CommonCryptoLib''"

definition strip_quotes :: "pystr \<Rightarrow> pystr" where
  "strip_quotes v =
     (if 2 \<le> length v \<and> List.hd v = 34 \<and> last v = 34 then butlast (tl v) else v)"

text \<open>\<open>alpha\<close> is \<^verbatim>\<open>str.isalpha\<close> of the other characters.\<close>

definition is_alpha :: "(nat \<Rightarrow> bool) \<Rightarrow> nat \<Rightarrow> bool" where
  "is_alpha alpha c = (if c < 128 then (65 \<le> c \<and> c \<le> 90) \<or> (97 \<le> c \<and> c \<le> 122) else alpha c)"

definition strip_snc_prefix :: "(nat \<Rightarrow> bool) \<Rightarrow> pystr \<Rightarrow> pystr" where
  "strip_snc_prefix alpha v =
     (if 2 \<le> length v \<and> v ! 1 = 58 \<and> is_alpha alpha (v ! 0) then drop 2 v else v)"

section \<open>Frames\<close>

text \<open>\<^verbatim>\<open>struct.pack("8s", eye)\<close>.\<close>

definition pack_eye :: "bytes \<Rightarrow> bytes" where
  "pack_eye eye = take 8 eye @ replicate (8 - length eye) 0"

definition build_snc_frame :: "bytes \<Rightarrow> nat \<Rightarrow> nat \<Rightarrow> nat \<Rightarrow> bytes \<Rightarrow> bytes \<Rightarrow> bytes \<Rightarrow> bytes res" where
  "build_snc_frame eye frame_type ctx_id qop gss_token app_data ext_header =
     (let hdrlen = SNC_HEADER_SIZE + length ext_header in
      if 2 ^ 8 \<le> frame_type \<or> 2 ^ 16 \<le> hdrlen \<or> 2 ^ 32 \<le> length gss_token \<or> 2 ^ 32 \<le> length app_data
        \<or> 2 ^ 16 \<le> ctx_id \<or> 2 ^ 16 \<le> qop
      then Inl StructError
      else Inr (pack_eye eye @ be_bytes 1 frame_type @ be_bytes 1 SNC_VERSION @ be_bytes 2 hdrlen
        @ be_bytes 4 (length gss_token) @ be_bytes 4 (length app_data) @ be_bytes 2 ctx_id @ be_bytes 2 qop
        @ ext_header @ gss_token @ app_data))"

record snc_frame =
  sf_type :: nat
  sf_ctx :: nat
  sf_qop :: nat
  sf_token :: bytes
  sf_data :: bytes

definition parse_snc_frame :: "bytes \<Rightarrow> snc_frame res" where
  "parse_snc_frame buf =
     (if length buf < SNC_HEADER_SIZE then Inl StructError
      else
        let frame_type = be_val (py_slice 8 9 buf);
            hdrlen = be_val (py_slice 10 12 buf);
            token_len = be_val (py_slice 12 16 buf);
            data_len = be_val (py_slice 16 20 buf);
            ctx_id = be_val (py_slice 20 22 buf);
            qop = be_val (py_slice 22 24 buf)
        in if MAX_FRAME_BYTES < token_len + data_len then Inl ValueError
           else
             let token_start = (if SNC_HEADER_SIZE \<le> hdrlen then hdrlen else SNC_HEADER_SIZE);
                 data_start = token_start + token_len
             in Inr \<lparr>sf_type = frame_type, sf_ctx = ctx_id, sf_qop = qop,
                  sf_token = py_slice token_start data_start buf,
                  sf_data = py_slice data_start (data_start + data_len) buf\<rparr>)"

section \<open>The security library\<close>

definition GSS_S_COMPLETE :: nat where "GSS_S_COMPLETE = 0"
definition GSS_S_CONTINUE_NEEDED :: nat where "GSS_S_CONTINUE_NEEDED = 1"

type_synonym 'g gss_bytes = "'g \<Rightarrow> (nat \<times> nat \<times> bytes) \<times> 'g"
type_synonym 'g gss_status = "'g \<Rightarrow> (nat \<times> nat) \<times> 'g"

record 'g gss_lib =
  gl_load :: "pystr \<Rightarrow> 'g res"
  gl_acquire_cred :: "'g gss_status"
  gl_import_name :: "bytes \<Rightarrow> 'g gss_status"
  gl_init_sec_context :: "bytes \<Rightarrow> 'g gss_bytes"
  gl_wrap :: "bytes \<Rightarrow> 'g gss_bytes"
  gl_unwrap :: "bytes \<Rightarrow> 'g gss_bytes"
  gl_get_mic :: "bytes \<Rightarrow> 'g gss_bytes"
  gl_verify_mic :: "bytes \<Rightarrow> bytes \<Rightarrow> 'g gss_status"

text \<open>\<^verbatim>\<open>major & GSS_S_CONTINUE_NEEDED\<close>.\<close>

definition gss_continues :: "nat \<Rightarrow> bool" where "gss_continues major \<longleftrightarrow> odd major"

definition gss_check :: "nat \<Rightarrow> nat \<Rightarrow> unit res" where
  "gss_check major minor =
     (if major = GSS_S_COMPLETE \<or> gss_continues major then Inr () else Inl (SncError None (Some major) (Some minor)))"

definition checked_bytes :: "'g gss_bytes \<Rightarrow> ('g, bytes) act" where
  "checked_bytes f g = (case f g of ((major, minor, out), g1) \<Rightarrow> (map_res (\<lambda>_. out) (gss_check major minor), g1))"

definition checked_status :: "'g gss_status \<Rightarrow> ('g, unit) act" where
  "checked_status f g = (case f g of ((major, minor), g1) \<Rightarrow> (gss_check major minor, g1))"

definition init_sec_context :: "'g gss_lib \<Rightarrow> bytes \<Rightarrow> ('g, nat \<times> bytes) act" where
  "init_sec_context lib token g =
     (case gl_init_sec_context lib token g of
        ((major, minor, out), g1) \<Rightarrow> (map_res (\<lambda>_. (major, out)) (gss_check major minor), g1))"

definition gss_wrap :: "'g gss_lib \<Rightarrow> bytes \<Rightarrow> ('g, bytes) act" where
  "gss_wrap lib payload = checked_bytes (gl_wrap lib payload)"

definition gss_unwrap :: "'g gss_lib \<Rightarrow> bytes \<Rightarrow> ('g, bytes) act" where
  "gss_unwrap lib token = checked_bytes (gl_unwrap lib token)"

definition gss_get_mic :: "'g gss_lib \<Rightarrow> bytes \<Rightarrow> ('g, bytes) act" where
  "gss_get_mic lib payload = checked_bytes (gl_get_mic lib payload)"

definition gss_verify_mic :: "'g gss_lib \<Rightarrow> bytes \<Rightarrow> bytes \<Rightarrow> ('g, unit) act" where
  "gss_verify_mic lib payload mic = checked_status (gl_verify_mic lib payload mic)"

definition acquire_cred :: "'g gss_lib \<Rightarrow> ('g, unit) act" where
  "acquire_cred lib = checked_status (gl_acquire_cred lib)"

definition import_gss_name :: "'g gss_lib \<Rightarrow> pystr \<Rightarrow> ('g, unit) act" where
  "import_gss_name lib nm g =
     (case utf8_encode nm of
        None \<Rightarrow> (Inl UnicodeError, g)
      | Some b \<Rightarrow> checked_status (gl_import_name lib b) g)"

text \<open>\<^verbatim>\<open>GssBinding.__init__\<close>; \<open>env_lib\<close> is the environment variable \<^verbatim>\<open>SNC_LIB\<close>.\<close>

definition gss_binding ::
    "'g gss_lib \<Rightarrow> (nat \<Rightarrow> bool) \<Rightarrow> pystr option \<Rightarrow> pystr \<Rightarrow> pystr \<Rightarrow> int \<Rightarrow> 'g res" where
  "gss_binding lib alpha env_lib snc_lib partner qop =
     (let path = (if snc_lib \<noteq> [] then Some snc_lib else env_lib) in
      if \<not> truthy path then Inl (SncError (Some (lit ''no SNC library path configured'')) None None)
      else
        bind_res (validate_snc_qop qop) (\<lambda>_.
        bind_res (gl_load lib (the path)) (\<lambda>g.
          case acquire_cred lib g of
            (Inl e, g1) \<Rightarrow> Inl e
          | (Inr u, g1) \<Rightarrow>
              (case import_gss_name lib (strip_snc_prefix alpha (strip_quotes partner)) g1 of
                 (Inl e, g2) \<Rightarrow> Inl e | (Inr u, g2) \<Rightarrow> Inr g2))))"

section \<open>The name of the partner is read back\<close>

fun der_read :: "byte \<Rightarrow> bytes \<Rightarrow> (bytes \<times> bytes) option" where
  "der_read tag (t # l # r) =
     (if t \<noteq> tag then None
      else if l < 0x80 then Some (take (unat l) r, drop (unat l) r)
      else if l = 0x81 then
        (let n = be_val (take 1 r) in Some (take n (drop 1 r), drop n (drop 1 r)))
      else (let n = be_val (take 2 r) in Some (take n (drop 2 r), drop n (drop 2 r))))"
| "der_read tag _ = None"

lemma der_tlv_read:
  assumes "der_tlv tag c = Inr b"
  shows "der_read tag (b @ r) = Some (c, r)"
proof -
  have s: "be_val [word_of_nat n] = n" if "n < 256" for n
    using be_val_be_bytes [of 1 n] that by (simp add: be_bytes_def)
  have t: "be_val [word_of_nat (n div 256), word_of_nat (n mod 256)] = n" if "n div 256 < 256" for n
    using that by (simp add: be_val_def)
  have u: "(word_of_nat n :: byte) < 0x80 \<and> unat (word_of_nat n :: byte) = n" if "n < 128" for n
    using that by (simp add: word_less_nat_alt unat_of_nat)
  show ?thesis using assms s t u [of "length c"]
    by (auto simp: der_tlv_def Let_def word_less_nat_alt split: if_splits)
qed


text \<open>An RDN is a set of one pair of an attribute and a printable string.\<close>

definition read_rdn :: "bytes \<Rightarrow> ((bytes \<times> bytes) \<times> bytes) option" where
  "read_rdn b =
     Option.bind (der_read 0x31 b) (\<lambda>(rdn, r).
     Option.bind (der_read 0x30 rdn) (\<lambda>(atv, e).
     Option.bind (der_read 0x13 (drop 5 atv)) (\<lambda>(v, e').
       if e = [] \<and> e' = [] then Some ((take 5 atv, v), r) else None)))"

primrec read_rdns :: "nat \<Rightarrow> bytes \<Rightarrow> (bytes \<times> bytes) list option" where
  "read_rdns 0 b = (if b = [] then Some [] else None)"
| "read_rdns (Suc n) b =
     (if b = [] then Some []
      else Option.bind (read_rdn b) (\<lambda>(x, r). map_option ((#) x) (read_rdns n r)))"

definition read_dn :: "bytes \<Rightarrow> (bytes \<times> bytes) list option" where
  "read_dn b = Option.bind (der_read 0x30 b) (\<lambda>(c, e). if e = [] then read_rdns (length c) c else None)"

text \<open>The attribute and the value an RDN names.\<close>

definition rdn_pair :: "(nat \<Rightarrow> pystr) \<Rightarrow> pystr \<Rightarrow> bytes \<times> bytes" where
  "rdn_pair uc rdn =
     (the (map_of RDN_OID (py_upper uc (py_strip (fst (partition_eq rdn))))),
      the (ascii_encode (py_strip (snd (partition_eq rdn)))))"

lemma oid_length: "map_of RDN_OID a = Some d \<Longrightarrow> length d = 5"
  by (auto simp: RDN_OID_def split: if_splits)

lemma der_tlv_nonempty: "der_tlv tag c = Inr b \<Longrightarrow> 2 \<le> length b"
  by (auto simp: der_tlv_def Let_def split: if_splits)

lemma rdn_read:
  assumes "rdn_der uc rdn = Inr b"
  shows "read_rdn (b @ r) = Some (rdn_pair uc rdn, r)" and "2 \<le> length b"
proof -
  obtain d v ps atv where *: "map_of RDN_OID (py_upper uc (py_strip (fst (partition_eq rdn)))) = Some d"
      "ascii_encode (py_strip (snd (partition_eq rdn))) = Some v" "der_tlv 0x13 v = Inr ps"
      "der_tlv 0x30 (d @ ps) = Inr atv" "der_tlv 0x31 atv = Inr b"
    using assms by (auto simp: rdn_der_def opt_res_def bind_res_Inr split: prod.splits option.splits)
  have "der_read 0x13 ps = Some (v, [])" "der_read 0x30 atv = Some (d @ ps, [])"
    using der_tlv_read [OF *(3), of "[]"] der_tlv_read [OF *(4), of "[]"] by simp_all
  then show "read_rdn (b @ r) = Some (rdn_pair uc rdn, r)"
    using der_tlv_read [OF *(5), of r] oid_length [OF *(1)] *(1,2) by (simp add: read_rdn_def rdn_pair_def)
  show "2 \<le> length b" by (rule der_tlv_nonempty [OF *(5)])
qed

lemma rdns_read:
  "seq_res (map (rdn_der uc) rs) = Inr bs \<Longrightarrow> length rs \<le> n \<Longrightarrow> read_rdns n (concat bs) = Some (map (rdn_pair uc) rs)"
proof (induction rs arbitrary: bs n)
  case Nil
  then show ?case by (cases n) auto
next
  case (Cons x rs)
  obtain b bs' where b: "rdn_der uc x = Inr b" "seq_res (map (rdn_der uc) rs) = Inr bs'" "bs = b # bs'"
    using Cons.prems(1) by (cases "rdn_der uc x") (auto simp: map_res_Inr)
  obtain k where n: "n = Suc k" "length rs \<le> k" using Cons.prems(2) by (cases n) auto
  have "b \<noteq> []" using rdn_read(2) [OF b(1)] by auto
  then show ?case using rdn_read(1) [OF b(1)] Cons.IH [OF b(2) n(2)] b(3) n(1) by simp
qed

lemma rdns_length: "seq_res (map (rdn_der uc) rs) = Inr bs \<Longrightarrow> length rs \<le> length (concat bs)"
proof (induction rs arbitrary: bs)
  case (Cons x rs)
  obtain b bs' where b: "rdn_der uc x = Inr b" "seq_res (map (rdn_der uc) rs) = Inr bs'" "bs = b # bs'"
    using Cons.prems(1) by (cases "rdn_der uc x") (auto simp: map_res_Inr)
  show ?case using rdn_read(2) [OF b(1)] Cons.IH [OF b(2)] b(3) by simp
qed simp

text \<open>The name is encoded as its attributes in reverse order.\<close>

lemma partner_name_read:
  assumes "build_dn_der uc dn = Inr b"
  shows "read_dn b = Some (map (rdn_pair uc) (rev (map py_strip (split_on 44 dn))))"
proof -
  let ?rs = "rev (map py_strip (split_on 44 dn))"
  obtain bs where bs: "seq_res (map (rdn_der uc) ?rs) = Inr bs" "der_tlv 0x30 (concat bs) = Inr b"
    using assms by (auto simp: build_dn_der_def bind_res_Inr)
  have "read_rdns (length (concat bs)) (concat bs) = Some (map (rdn_pair uc) ?rs)"
    by (rule rdns_read [OF bs(1) rdns_length [OF bs(1)]])
  then show ?thesis using der_tlv_read [OF bs(2), of "[]"] by (simp add: read_dn_def)
qed

end
