(* ===== verification/Rfc_Connect.thy ===== *)
theory Rfc_Connect
  imports Rfc_Calls Logon_Bodies Sap_Router Socks_Proxy Ni_Transport
begin

text \<open>
  \<^verbatim>\<open>connect\<close> and \<^verbatim>\<open>connect_async\<close> of \<^verbatim>\<open>src/saprfclib/connection.py\<close>, for the classic transport, with
  \<^verbatim>\<open>connect_tcp\<close> of \<^verbatim>\<open>transport.py\<close>: checking the credentials, the proxy, the message server, the
  socket, the route through a SAProuter, and the handshake of the new connection.

  The network is a function from an address to the segments its peer will send, or an exception; the
  state of \<^verbatim>\<open>connect\<close> is the list of the addresses that have been dialled.  Services of
  \<^verbatim>\<open>/etc/services\<close>, HTTP, JSON and the encoding of host names are parameters.  Time limits and
  socket options, the log and the loop thread are left out; so are SNC and WebSocket, which \<^verbatim>\<open>connect\<close> takes before the
  classic path and \<^verbatim>\<open>connect_async\<close> refuses.
\<close>

section \<open>The handshake of a connection\<close>

definition new_connection :: "'n \<Rightarrow> bool \<Rightarrow> meta_cache option \<Rightarrow> pystr option \<Rightarrow> 'n call_conn" where
  "new_connection net restricted cache anon =
     \<lparr>k_net = net, k_session = new_session restricted,
      k_cache = (case cache of None \<Rightarrow> Map.empty | Some m \<Rightarrow> m), k_structs = Map.empty, k_seen = [],
      k_metrics = new_metrics, k_duration = None, k_anon = anon\<rparr>"

fun send_each :: "(bytes \<Rightarrow> ('n, unit) act) \<Rightarrow> bytes list \<Rightarrow> ('n, unit) act" where
  "send_each send [] n = (Inr (), n)"
| "send_each send (m # ms) n =
     (case send m n of (Inl e, n1) \<Rightarrow> (Inl e, n1) | (Inr u, n1) \<Rightarrow> send_each send ms n1)"

text \<open>The replies a session still waits for.\<close>

fun legs_left :: "session_state \<Rightarrow> nat" where
  "legs_left CONNECTED = 4"
| "legs_left NI_VERSIONED = 3"
| "legs_left GW_CONNECTED = 2"
| "legs_left GW_DONE = 1"
| "legs_left _ = 0"

lemma feed_advances:
  "session_feed u8 resp s = (Inr out, s') \<Longrightarrow> legs_left (state s') < legs_left (state s)"
  by (cases "state s") (auto simp: handler_defs split: if_splits option.splits sum.splits)

definition leg_requests :: "'n call_env \<Rightarrow> logon_params \<Rightarrow> session_state \<Rightarrow> session \<Rightarrow> bytes \<Rightarrow> bytes list res" where
  "leg_requests env p prev s out =
     (if out \<noteq> [] then Inr [out] else build_leg_requests (cl_upper env) prev (handle s) p)"

function handshake_loop :: "'n call_env \<Rightarrow> logon_params \<Rightarrow> ('n call_conn, unit) act" where
  "handshake_loop env p c =
     (if state (k_session c) = READY then (Inr (), c)
      else case cl_recv env (k_net c) of
        (Inl e, n) \<Rightarrow> (Inl e, c\<lparr>k_net := n\<rparr>)
      | (Inr resp, n) \<Rightarrow>
          (case session_feed (cl_utf8 env) resp (k_session c) of
             (Inl e, s) \<Rightarrow> (Inl e, c\<lparr>k_net := n, k_session := s\<rparr>)
           | (Inr out, s) \<Rightarrow>
               (case leg_requests env p (state (k_session c)) s out of
                  Inl e \<Rightarrow> (Inl e, c\<lparr>k_net := n, k_session := s\<rparr>)
                | Inr ms \<Rightarrow>
                    (case send_each (cl_send env) ms n of
                       (Inl e, n1) \<Rightarrow> (Inl e, c\<lparr>k_net := n1, k_session := s\<rparr>)
                     | (Inr u, n1) \<Rightarrow> handshake_loop env p (c\<lparr>k_net := n1, k_session := s\<rparr>)))))"
  by pat_completeness auto
termination
  by (relation "measure (\<lambda>(env, p, c). legs_left (state (k_session c)))") (auto dest: feed_advances [OF sym])

declare handshake_loop.simps [simp del]

definition conn_handshake :: "'n call_env \<Rightarrow> logon_params \<Rightarrow> ('n call_conn, unit) act" where
  "conn_handshake env p c =
     (case session_start (Some (lp_local_ip p)) (k_session c) of
        (req, s) \<Rightarrow>
          (case cl_send env req (k_net c) of
             (Inl e, n) \<Rightarrow> (Inl e, c\<lparr>k_net := n, k_session := s\<rparr>)
           | (Inr u, n) \<Rightarrow> handshake_loop env p (c\<lparr>k_net := n, k_session := s\<rparr>)))"

section \<open>Ports of the message server\<close>

definition MS_BINARY_BASE :: int where "MS_BINARY_BASE = 3600"
definition MS_HTTP_BASE :: int where "MS_HTTP_BASE = 8100"

datatype port_arg = PortNumber int | PortName pystr
datatype sysnr_arg = SysNumber int | SysText pystr

text \<open>\<^verbatim>\<open>int(sysnr)\<close>.\<close>

definition sysnr_int :: "sysnr_arg \<Rightarrow> int res" where
  "sysnr_int a = (case a of SysNumber i \<Rightarrow> Inr i | SysText s \<Rightarrow> opt_res ValueError (py_int s))"

definition check_sysnr :: "sysnr_arg \<Rightarrow> nat res" where
  "check_sysnr a = bind_res (sysnr_int a) validate_sysnr"

definition resolve_ms_service :: "(pystr \<Rightarrow> int option) \<Rightarrow> port_arg option \<Rightarrow> int option res" where
  "resolve_ms_service service msserv =
     (case msserv of
        None \<Rightarrow> Inr None
      | Some (PortNumber i) \<Rightarrow> Inr (Some i)
      | Some (PortName s) \<Rightarrow>
          (let t = py_strip s in
           if all_digits t then map_res Some (opt_res ValueError (py_int t))
           else map_res Some (opt_res ValueError (service t))))"

definition ms_instance_from_services ::
    "(nat \<Rightarrow> pystr) \<Rightarrow> (pystr \<Rightarrow> int option) \<Rightarrow> pystr option \<Rightarrow> int option" where
  "ms_instance_from_services uc service sysid =
     (if \<not> truthy sysid then None
      else case service (lit ''sapms'' @ py_upper uc (the sysid)) of
        None \<Rightarrow> None
      | Some port \<Rightarrow>
          (let instance_nr = port - MS_BINARY_BASE in
           if 0 \<le> instance_nr \<and> instance_nr \<le> 99 then Some instance_nr else None))"

definition ms_port_or_raise ::
    "(nat \<Rightarrow> pystr) \<Rightarrow> (pystr \<Rightarrow> int option) \<Rightarrow> pystr option \<Rightarrow> port_arg option \<Rightarrow> int \<Rightarrow> int res" where
  "ms_port_or_raise uc service sysid msserv base =
     bind_res (resolve_ms_service service msserv) (\<lambda>explicit_port.
       case explicit_port of
         Some p \<Rightarrow> Inr p
       | None \<Rightarrow>
           (case ms_instance_from_services uc service sysid of
              Some nr \<Rightarrow> Inr (base + nr) | None \<Rightarrow> Inl ValueError))"

definition ms_port :: "(nat \<Rightarrow> pystr) \<Rightarrow> (pystr \<Rightarrow> int option) \<Rightarrow> pystr option \<Rightarrow> port_arg option \<Rightarrow> int res" where
  "ms_port uc service sysid msserv = ms_port_or_raise uc service sysid msserv MS_BINARY_BASE"

definition ms_http_port :: "(nat \<Rightarrow> pystr) \<Rightarrow> (pystr \<Rightarrow> int option) \<Rightarrow> pystr option \<Rightarrow> port_arg option \<Rightarrow> int res" where
  "ms_http_port uc service sysid msserv = ms_port_or_raise uc service sysid msserv MS_HTTP_BASE"

section \<open>Sockets\<close>

record network =
  nw_dial :: "pystr \<Rightarrow> int \<Rightarrow> segments res"
  nw_idna :: "pystr \<Rightarrow> bytes res"
  nw_service :: "pystr \<Rightarrow> int option"
  nw_fetch :: "pystr \<Rightarrow> bytes res"
  nw_urlopen :: "http_request \<Rightarrow> http_reply"
  nw_shown :: "bytes \<Rightarrow> pystr"
  nw_stamp :: pystr
  nw_local_ip :: pystr
  nw_hostname :: pystr
  nw_rnd :: bytes
  nw_seed :: "32 word"

text \<open>An open socket is what it will deliver and what has been written to it.\<close>

type_synonym tcp_socket = "segments \<times> bytes"
type_synonym dialled = "(pystr \<times> int) list"

datatype socket_factory =
    Direct
  | Custom "pystr \<Rightarrow> int \<Rightarrow> tcp_socket res"
  | ThroughProxy pystr int "pystr option" pystr

definition create_connection :: "network \<Rightarrow> pystr \<Rightarrow> int \<Rightarrow> (dialled, segments) act" where
  "create_connection nw host port dl = (nw_dial nw host port, dl @ [(host, port)])"

definition open_socket :: "network \<Rightarrow> socket_factory \<Rightarrow> pystr \<Rightarrow> int \<Rightarrow> (dialled, tcp_socket) act" where
  "open_socket nw fac host port dl =
     (case fac of
        Direct \<Rightarrow>
          (case create_connection nw host port dl of
             (Inl e, l) \<Rightarrow> (Inl e, l) | (Inr s, l) \<Rightarrow> (Inr (s, []), l))
      | Custom f \<Rightarrow> (f host port, dl)
      | ThroughProxy phost pport jwt loc \<Rightarrow>
          (case create_connection nw phost pport dl of
             (Inl e, l) \<Rightarrow> (Inl e, l)
           | (Inr s, l) \<Rightarrow>
               (case socks5_connect (nw_idna nw) jwt loc host port s of
                  (Inl e, t) \<Rightarrow> (Inl e, l) | (Inr u, t) \<Rightarrow> (Inr (tn_in t, tn_out t), l))))"

definition transport_on :: "rfc_trace option \<Rightarrow> 'i \<Rightarrow> bytes \<Rightarrow> 'i transport" where
  "transport_on tr i sent =
     \<lparr>inbound = i, outbound = sent, bytes_sent = 0, bytes_received = 0, trace = tr\<rparr>"

definition connect_tcp ::
    "network \<Rightarrow> rfc_trace option \<Rightarrow> socket_factory \<Rightarrow> pystr \<Rightarrow> int \<Rightarrow> (dialled, segments transport) act" where
  "connect_tcp nw tr fac host port dl =
     (case open_socket nw fac host port dl of
        (Inl e, l) \<Rightarrow> (Inl e, l) | (Inr (s, sent), l) \<Rightarrow> (Inr (transport_on tr s sent), l))"

definition connect_tcp_async ::
    "network \<Rightarrow> socket_factory \<Rightarrow> pystr \<Rightarrow> int \<Rightarrow> (dialled, bytes transport) act" where
  "connect_tcp_async nw fac host port dl =
     (case open_socket nw fac host port dl of
        (Inl e, l) \<Rightarrow> (Inl e, l) | (Inr (s, sent), l) \<Rightarrow> (Inr (transport_on None (concat s) sent), l))"

section \<open>Connecting\<close>

record connect_args =
  cx_ashost :: pystr
  cx_sysnr :: sysnr_arg
  cx_client :: pystr
  cx_user :: "pystr option"
  cx_passwd :: "pystr option"
  cx_lang :: pystr
  cx_restricted :: bool
  cx_cache :: "meta_cache option"
  cx_cache_key :: "pystr option"
  cx_saprouter :: "pystr option"
  cx_mshost :: "pystr option"
  cx_msserv :: "port_arg option"
  cx_ms_http_port :: "port_arg option"
  cx_ms_use_http :: bool
  cx_sysid :: "pystr option"
  cx_group :: "pystr option"
  cx_port :: "int option"
  cx_proxy_type :: "pystr option"
  cx_proxy_host :: "pystr option"
  cx_proxy_port :: "int option"
  cx_proxy_jwt :: "pystr option"
  cx_scc_location_id :: "pystr option"
  cx_client_id :: "pystr option"
  cx_client_secret :: "pystr option"
  cx_token_url :: "pystr option"
  cx_factory :: "(pystr \<Rightarrow> int \<Rightarrow> tcp_socket res) option"
  cx_gwhost :: "pystr option"
  cx_trace :: "rfc_trace option"

text \<open>\<^verbatim>\<open>x or default\<close> for texts.\<close>

definition text_or :: "pystr \<Rightarrow> pystr option \<Rightarrow> pystr" where
  "text_or d x = (if truthy x then the x else d)"

definition make_socks5_socket_factory :: "pystr \<Rightarrow> int \<Rightarrow> pystr option \<Rightarrow> pystr \<Rightarrow> socket_factory" where
  "make_socks5_socket_factory phost pport jwt loc = ThroughProxy phost pport jwt loc"

definition factory_for :: "network \<Rightarrow> pystr option \<Rightarrow> connect_args \<Rightarrow> socket_factory res" where
  "factory_for nw wshost a =
     bind_res (validate_proxy_args (cx_proxy_type a) (cx_proxy_host a) (cx_proxy_port a) (cx_factory a \<noteq> None)
         wshost (cx_gwhost a)) (\<lambda>warned.
       if cx_proxy_type a = Some (lit ''socks5'') then
         map_res (\<lambda>jwt. make_socks5_socket_factory (the (cx_proxy_host a)) (the (cx_proxy_port a)) jwt
             (text_or [] (cx_scc_location_id a)))
           (resolve_proxy_jwt (nw_urlopen nw) (cx_proxy_jwt a) (cx_client_id a) (cx_client_secret a) (cx_token_url a))
       else Inr (case cx_factory a of None \<Rightarrow> Direct | Some f \<Rightarrow> Custom f))"

definition ms_binary_resolve ::
    "network \<Rightarrow> int res \<Rightarrow> pystr \<Rightarrow> pystr option \<Rightarrow> (dialled, pystr \<times> int) act" where
  "ms_binary_resolve nw port mshost grp dl =
     (case port of
        Inl e \<Rightarrow> (Inl e, dl)
      | Inr p \<Rightarrow>
          (case connect_tcp nw None Direct mshost p dl of
             (Inl e, l) \<Rightarrow> (Inl e, l)
           | (Inr t, l) \<Rightarrow>
               (fst (resolve (send_message (nw_stamp nw)) (recv_message (nw_stamp nw)) (text_or (lit ''PUBLIC'') grp) t), l)))"

definition resolve_via_message_server ::
    "network \<Rightarrow> (nat \<Rightarrow> pystr) \<Rightarrow> (bytes \<Rightarrow> pystr) \<Rightarrow> pystr \<Rightarrow> connect_args \<Rightarrow> (dialled, pystr \<times> int) act" where
  "resolve_via_message_server nw uc u8 mshost a dl =
     (if cx_ms_use_http a then
        (bind_res (ms_http_port uc (nw_service nw) (cx_sysid a)
             (if cx_ms_http_port a \<noteq> None then cx_ms_http_port a else cx_msserv a)) (\<lambda>http_port.
         bind_res (resolve_rfc_server_http (nw_fetch nw) u8 mshost http_port (cx_group a)) (\<lambda>(host, rfc_port).
           let sysnr = rfc_port - 3300 in
           if 0 \<le> sysnr \<and> sysnr \<le> 99 then Inr (host, sysnr) else Inl ValueError)), dl)
      else ms_binary_resolve nw (ms_port uc (nw_service nw) (cx_sysid a) (cx_msserv a)) mshost (cx_group a) dl)"

text \<open>The route through a SAProuter, then the handshake; \<open>nr\<close> is evaluated in between.\<close>

definition transport_env ::
    "'i transport call_env \<Rightarrow> (nat \<Rightarrow> ('i, bytes) act) \<Rightarrow> pystr \<Rightarrow> 'i transport call_env" where
  "transport_env env read stamp =
     env\<lparr>cl_send := send_message stamp, cl_recv := recv_message_via read stamp,
         cl_sent := bytes_sent, cl_received := bytes_received\<rparr>"

definition logon_of :: "network \<Rightarrow> connect_args \<Rightarrow> pystr option \<Rightarrow> pystr option \<Rightarrow> pystr \<Rightarrow> int \<Rightarrow> logon_params" where
  "logon_of nw a user passwd ashost nr =
     \<lparr>lp_client = cx_client a, lp_user = user, lp_passwd = passwd, lp_gwhost = text_or ashost (cx_gwhost a),
      lp_sysnr = nr, lp_local_ip = nw_local_ip nw, lp_lang = cx_lang a, lp_snc = False,
      lp_hostname = nw_hostname nw, lp_rnd = nw_rnd nw, lp_seed = nw_seed nw\<rparr>"

definition routed ::
    "network \<Rightarrow> 'i transport call_env \<Rightarrow> pystr option \<Rightarrow> pystr \<Rightarrow> int \<Rightarrow> ('i transport, unit) act" where
  "routed nw env saprouter ashost port t =
     (case saprouter of
        None \<Rightarrow> (Inr (), t)
      | Some r \<Rightarrow>
          (case parse_route_string r of
             Inl e \<Rightarrow> (Inl e, t)
           | Inr hops \<Rightarrow> open_route (cl_send env) (cl_recv env) (nw_shown nw) hops ashost (int_digits port) t))"

definition establish ::
    "network \<Rightarrow> 'i transport call_env \<Rightarrow> connect_args \<Rightarrow> pystr option \<times> pystr option \<Rightarrow> pystr \<Rightarrow> int res \<Rightarrow> int
      \<Rightarrow> 'i transport \<Rightarrow> 'i transport call_conn res" where
  "establish nw env a cred ashost nr port t =
     (case routed nw env (cx_saprouter a) ashost port t of
        (Inl e, t1) \<Rightarrow> Inl e
      | (Inr u, t1) \<Rightarrow>
          bind_res nr (\<lambda>n.
            case conn_handshake env (logon_of nw a (fst cred) (snd cred) ashost n)
                (new_connection t1 (cx_restricted a) (cx_cache a) (cx_cache_key a)) of
              (Inl e, c) \<Rightarrow> Inl e | (Inr u, c) \<Rightarrow> Inr c))"

text \<open>What \<^verbatim>\<open>connect\<close> settles before it opens a socket: the credentials, the way to the gateway and its address.\<close>

record gateway =
  gt_cred :: "pystr option \<times> pystr option"
  gt_factory :: socket_factory
  gt_host :: pystr
  gt_sysnr :: nat
  gt_port :: int

definition find_gateway ::
    "network \<Rightarrow> (nat \<Rightarrow> pystr) \<Rightarrow> (bytes \<Rightarrow> pystr) \<Rightarrow> bool \<Rightarrow> connect_args \<Rightarrow> (dialled, gateway) act" where
  "find_gateway nw uc u8 has_snc a dl =
     (case resolve_credentials (cx_user a) (cx_passwd a) has_snc of
        Inl e \<Rightarrow> (Inl e, dl)
      | Inr cred \<Rightarrow>
      (case factory_for nw None a of
        Inl e \<Rightarrow> (Inl e, dl)
      | Inr fac \<Rightarrow>
      (case (case cx_mshost a of
               None \<Rightarrow> (Inr (cx_ashost a, cx_sysnr a), dl)
             | Some ms \<Rightarrow>
                 (case resolve_via_message_server nw uc u8 ms a dl of
                    (Inl e, l) \<Rightarrow> (Inl e, l) | (Inr (h, nr), l) \<Rightarrow> (Inr (h, SysNumber nr), l))) of
        (Inl e, l) \<Rightarrow> (Inl e, l)
      | (Inr (ashost, sysnr), l) \<Rightarrow>
          (map_res (\<lambda>nr. \<lparr>gt_cred = cred, gt_factory = fac, gt_host = ashost, gt_sysnr = nr,
              gt_port = (case cx_port a of Some p \<Rightarrow> p | None \<Rightarrow> (if has_snc then 4800 else 3300) + int nr)\<rparr>)
             (check_sysnr sysnr), l))))"

definition connect ::
    "network \<Rightarrow> segments transport call_env \<Rightarrow> connect_args \<Rightarrow> (dialled, segments transport call_conn) act" where
  "connect nw env0 a dl =
     (let env = transport_env env0 recv_exactly (nw_stamp nw) in
      case find_gateway nw (cl_upper env) (cl_utf8 env) False a dl of
        (Inl e, l) \<Rightarrow> (Inl e, l)
      | (Inr gw, l) \<Rightarrow>
          (case connect_tcp nw (cx_trace a) (gt_factory gw) (gt_host gw) (gt_port gw) l of
             (Inl e, l) \<Rightarrow> (Inl e, l)
           | (Inr t, l) \<Rightarrow> (establish nw env a (gt_cred gw) (gt_host gw) (Inr (int (gt_sysnr gw))) (gt_port gw) t, l)))"

text \<open>\<^verbatim>\<open>NotImplementedError\<close> is a \<^verbatim>\<open>RuntimeError\<close>.\<close>

definition connect_async ::
    "network \<Rightarrow> bytes transport call_env \<Rightarrow> bool \<Rightarrow> pystr option \<Rightarrow> connect_args
      \<Rightarrow> (dialled, bytes transport call_conn) act" where
  "connect_async nw env0 has_snc wshost a dl =
     (let env = transport_env env0 readexactly (nw_stamp nw) in
      case resolve_credentials (cx_user a) (cx_passwd a) has_snc of
        Inl e \<Rightarrow> (Inl e, dl)
      | Inr cred \<Rightarrow>
      if has_snc \<or> wshost \<noteq> None then (Inl RuntimeError, dl)
      else (case factory_for nw wshost a of
        Inl e \<Rightarrow> (Inl e, dl)
      | Inr fac \<Rightarrow>
      (case (case cx_mshost a of
               None \<Rightarrow> (Inr (cx_ashost a, cx_sysnr a), dl)
             | Some ms \<Rightarrow>
                 (case ms_binary_resolve nw (ms_port (cl_upper env) (nw_service nw) (cx_sysid a) None) ms (cx_group a) dl of
                    (Inl e, l) \<Rightarrow> (Inl e, l) | (Inr (h, nr), l) \<Rightarrow> (Inr (h, SysNumber nr), l))) of
        (Inl e, l) \<Rightarrow> (Inl e, l)
      | (Inr (ashost, sysnr), l) \<Rightarrow>
      (case (case cx_port a of Some p \<Rightarrow> Inr p | None \<Rightarrow> map_res ((+) 3300) (sysnr_int sysnr)) of
        Inl e \<Rightarrow> (Inl e, l)
      | Inr port \<Rightarrow>
          (case connect_tcp_async nw fac ashost port l of
             (Inl e, l) \<Rightarrow> (Inl e, l)
           | (Inr t, l) \<Rightarrow> (establish nw env a cred ashost (sysnr_int sysnr) port t, l))))))"

section \<open>A gateway that accepts\<close>

definition wire :: "bytes \<Rightarrow> bytes" where "wire m = be_bytes 4 (length m) @ m"

definition wires :: "bytes list \<Rightarrow> bytes" where "wires ms = concat (map wire ms)"

lemma wires_simps [simp]: "wires [] = []" "wires (m # ms) = wire m @ wires ms" "wires (ms @ ns) = wires ms @ wires ns"
  by (simp_all add: wires_def)

lemma message_sent:
  "length m < 2 ^ 32 \<Longrightarrow>
   \<exists>t'. send_message stamp m t = (Inr (), t') \<and> inbound t' = inbound t \<and> outbound t' = outbound t @ wire m"
  by (simp add: send_message_def build_ni_frame_def wire_def)

lemma messages_sent:
  "\<forall>m \<in> set ms. length m < 2 ^ 32 \<Longrightarrow>
   \<exists>t'. send_each (send_message stamp) ms t = (Inr (), t') \<and> inbound t' = inbound t \<and> outbound t' = outbound t @ wires ms"
proof (induction ms arbitrary: t)
  case (Cons m ms)
  then obtain t1 where t1: "send_message stamp m t = (Inr (), t1)" "inbound t1 = inbound t" "outbound t1 = outbound t @ wire m"
    using message_sent [of m stamp t] by auto
  with Cons.IH [of t1] Cons.prems show ?case by auto
qed simp

lemma transport_env_simps [simp]:
  "cl_send (transport_env env read stamp) = send_message stamp"
  "cl_recv (transport_env env read stamp) = recv_message_via read stamp"
  "cl_upper (transport_env env read stamp) = cl_upper env"
  "cl_utf8 (transport_env env read stamp) = cl_utf8 env"
  by (simp_all add: transport_env_def)

text \<open>The four frames of a gateway and an application server that accept, with the code page, the handle and the
  attributes they give.\<close>

record acceptance =
  ac_version :: bytes
  ac_gateway :: bytes
  ac_done :: bytes
  ac_logon :: bytes
  ac_codepage :: pystr
  ac_attributes :: conn_attrs

definition ac_frames :: "acceptance \<Rightarrow> bytes list" where
  "ac_frames g = [ac_version g, ac_gateway g, ac_done g, ac_logon g]"

definition ac_handle :: "acceptance \<Rightarrow> bytes" where "ac_handle g = py_slice 40 48 (ac_gateway g)"

definition logging_on :: "bool \<Rightarrow> acceptance \<Rightarrow> session" where
  "logging_on restricted g =
     \<lparr>state = GW_DONE, broken_reason = [], attributes = None, codepage = Some (ac_codepage g),
      handle = Some (ac_handle g), allow_restricted_logon = restricted\<rparr>"

definition accepting :: "(bytes \<Rightarrow> pystr) \<Rightarrow> bool \<Rightarrow> acceptance \<Rightarrow> bool" where
  "accepting u8 restricted g \<longleftrightarrow>
     list_all sendable (ac_frames g) \<and>
     24 \<le> length (ac_version g) \<and> ascii_decode (py_slice 20 24 (ac_version g)) = Some (ac_codepage g) \<and>
     48 \<le> length (ac_gateway g) \<and> 73 \<le> length (ac_done g) \<and>
     logon_outcome u8 (ac_logon g) (logging_on restricted g) = Inr (ac_attributes g)"

text \<open>What the client says to it.\<close>

definition client_frames ::
    "(nat \<Rightarrow> pystr) \<Rightarrow> logon_params \<Rightarrow> bytes \<Rightarrow> bytes list res" where
  "client_frames uc p h =
     bind_res (build_gw_connect_request (lp_rnd p) (lp_hostname p) (lp_gwhost p) (lp_sysnr p) (lp_snc p)) (\<lambda>connect_frame.
     bind_res (build_gw_info h (lp_gwhost p) (lp_snc p)) (\<lambda>info_frame.
     bind_res (build_logon_request uc (lp_rnd p) (lp_hostname p) (lp_seed p) (lp_client p) (lp_user p)
          (lp_passwd p) (lp_local_ip p) (blit ''python3'') (lp_lang p)) (\<lambda>tlv.
       Inr [build_ni_version_request (Some (lp_local_ip p)), connect_frame, info_frame,
            build_gw_done_client h (lp_snc p),
            if lp_snc p then COM_HEAD @ tlv else build_logon_frame h tlv False])))"

context exact_reader
begin

lemma frame_received:
  assumes "wf (inbound t)" and "content (inbound t) = wire f @ r" and "sendable f"
  shows "\<exists>t'. recv_message_via read stamp t = (Inr f, t') \<and> wf (inbound t') \<and> content (inbound t') = r \<and>
    outbound t' = outbound t"
  using recv_complete [OF assms(1), of f r stamp] assms(2,3)
  by (auto simp: wire_def sendable_def raise_for_ni_error_def)

lemma leg_passed:
  assumes "state (k_session c) \<noteq> READY" and "wf (inbound (k_net c))" and "content (inbound (k_net c)) = wire f @ r"
    and "sendable f" and "session_feed (cl_utf8 env) f (k_session c) = (Inr [], s)"
    and "build_leg_requests (cl_upper env) (state (k_session c)) (handle s) p = Inr ms"
    and "\<forall>m \<in> set ms. length m < 2 ^ 32"
  shows "\<exists>t. handshake_loop (transport_env env read stamp) p c
      = handshake_loop (transport_env env read stamp) p (c\<lparr>k_net := t, k_session := s\<rparr>) \<and>
    wf (inbound t) \<and> content (inbound t) = r \<and> outbound t = outbound (k_net c) @ wires ms"
proof -
  obtain t1 where t1: "recv_message_via read stamp (k_net c) = (Inr f, t1)" "wf (inbound t1)" "content (inbound t1) = r"
      "outbound t1 = outbound (k_net c)"
    using frame_received [OF assms(2-4)] by blast
  obtain t where t: "send_each (send_message stamp) ms t1 = (Inr (), t)" "inbound t = inbound t1" "outbound t = outbound t1 @ wires ms"
    using messages_sent [OF assms(7)] by blast
  have "handshake_loop (transport_env env read stamp) p c
      = handshake_loop (transport_env env read stamp) p (c\<lparr>k_net := t, k_session := s\<rparr>)"
    using assms(1,5,6) t1(1) t(1)
    by (subst handshake_loop.simps) (simp add: leg_requests_def)
  with t t1 show ?thesis by auto
qed

lemma handshake_accepted:
  assumes "accepting (cl_utf8 env) restricted g" and "wf (inbound t)"
    and "content (inbound t) = wires (ac_frames g) @ rest"
    and "client_frames (cl_upper env) p (ac_handle g) = Inr ms" and "\<forall>m \<in> set ms. length m < 2 ^ 32"
    and "\<not> lp_snc p"
  shows "\<exists>t'. conn_handshake (transport_env env read stamp) p (new_connection t restricted cache anon)
      = (Inr (), (new_connection t' restricted cache anon)
          \<lparr>k_session := (logging_on restricted g)\<lparr>attributes := Some (ac_attributes g), state := READY\<rparr>\<rparr>) \<and>
    content (inbound t') = rest \<and> outbound t' = outbound t @ wires ms"
proof -
  let ?env = "transport_env env read stamp" and ?c = "new_connection t restricted cache anon"
  obtain m1 m2 tlv where m: "build_gw_connect_request (lp_rnd p) (lp_hostname p) (lp_gwhost p) (lp_sysnr p) False = Inr m1"
      "build_gw_info (ac_handle g) (lp_gwhost p) False = Inr m2"
      "build_logon_request (cl_upper env) (lp_rnd p) (lp_hostname p) (lp_seed p) (lp_client p) (lp_user p)
          (lp_passwd p) (lp_local_ip p) (blit ''python3'') (lp_lang p) = Inr tlv"
      "ms = [build_ni_version_request (Some (lp_local_ip p)), m1, m2, build_gw_done_client (ac_handle g) False,
          build_logon_frame (ac_handle g) tlv False]"
    using assms(4,6) by (auto simp: client_frames_def bind_res_Inr)
  have g: "sendable (ac_version g)" "sendable (ac_gateway g)" "sendable (ac_done g)" "sendable (ac_logon g)"
    and a: "24 \<le> length (ac_version g)" "ascii_decode (py_slice 20 24 (ac_version g)) = Some (ac_codepage g)"
      "48 \<le> length (ac_gateway g)" "73 \<le> length (ac_done g)"
      "logon_outcome (cl_utf8 env) (ac_logon g) (logging_on restricted g) = Inr (ac_attributes g)"
    using assms(1) by (auto simp: accepting_def ac_frames_def)
  have h: "ac_handle g \<noteq> []" using a(3) by (auto simp: ac_handle_def py_slice_def)
  define s0 where "s0 = snd (session_start (Some (lp_local_ip p)) (new_session restricted))"
  define s1 where "s1 = s0\<lparr>codepage := Some (ac_codepage g), state := NI_VERSIONED\<rparr>"
  define s2 where "s2 = s1\<lparr>handle := Some (ac_handle g), state := GW_CONNECTED\<rparr>"
  define s4 where "s4 = (logging_on restricted g)\<lparr>attributes := Some (ac_attributes g), state := READY\<rparr>"
  have st: "state s0 = CONNECTED" "state s1 = NI_VERSIONED" "state s2 = GW_CONNECTED" "handle s2 = Some (ac_handle g)"
      "state (logging_on restricted g) = GW_DONE" "handle (logging_on restricted g) = Some (ac_handle g)" "state s4 = READY"
    and s3: "s2\<lparr>state := GW_DONE\<rparr> = logging_on restricted g"
    by (simp_all add: s0_def s1_def s2_def s4_def session_start_def logging_on_def new_session_def)
  obtain t0 where t0: "send_message stamp (build_ni_version_request (Some (lp_local_ip p))) t = (Inr (), t0)"
      "inbound t0 = inbound t" "outbound t0 = outbound t @ wire (build_ni_version_request (Some (lp_local_ip p)))"
    using message_sent [of _ stamp t] assms(5) m(4) by auto
  have 0: "conn_handshake ?env p ?c = handshake_loop ?env p (?c\<lparr>k_net := t0, k_session := s0\<rparr>)"
    using t0(1) by (simp add: conn_handshake_def new_connection_def s0_def session_start_def)
  have lm: "length m1 < 2 ^ 32" "length m2 < 2 ^ 32" "length (build_gw_done_client (ac_handle g) False) < 2 ^ 32"
      "length (build_logon_frame (ac_handle g) tlv False) < 2 ^ 32"
    using assms(5) m(4) by auto
  obtain t1 where 1: "handshake_loop ?env p (?c\<lparr>k_net := t0, k_session := s0\<rparr>)
        = handshake_loop ?env p (?c\<lparr>k_net := t1, k_session := s1\<rparr>)" "wf (inbound t1)"
      "content (inbound t1) = wire (ac_gateway g) @ wire (ac_done g) @ wire (ac_logon g) @ rest"
      "outbound t1 = outbound t0 @ wire m1"
    using leg_passed [of "?c\<lparr>k_net := t0, k_session := s0\<rparr>" "ac_version g" _ env s1 p "[m1]" stamp] t0(2) assms(2,3,6) g(1) m(1)
      feed_version [OF st(1) a(1,2)] lm(1) st(1)
    by (auto simp: ac_frames_def build_leg_requests_def s1_def)
  obtain t2 where 2: "handshake_loop ?env p (?c\<lparr>k_net := t1, k_session := s1\<rparr>)
        = handshake_loop ?env p (?c\<lparr>k_net := t2, k_session := s2\<rparr>)" "wf (inbound t2)"
      "content (inbound t2) = wire (ac_done g) @ wire (ac_logon g) @ rest"
      "outbound t2 = outbound t1 @ wire m2 @ wire (build_gw_done_client (ac_handle g) False)"
    using leg_passed [of "?c\<lparr>k_net := t1, k_session := s1\<rparr>" "ac_gateway g" _ env s2 p
        "[m2, build_gw_done_client (ac_handle g) False]" stamp] 1 assms(6) g(2) m(2)
      feed_gateway [OF st(2) a(3)] lm(2,3) st(2,4) h
    by (auto simp: build_leg_requests_def s2_def ac_handle_def)
  obtain t3 where 3: "handshake_loop ?env p (?c\<lparr>k_net := t2, k_session := s2\<rparr>)
        = handshake_loop ?env p (?c\<lparr>k_net := t3, k_session := logging_on restricted g\<rparr>)" "wf (inbound t3)"
      "content (inbound t3) = wire (ac_logon g) @ rest"
      "outbound t3 = outbound t2 @ wire (build_logon_frame (ac_handle g) tlv False)"
    using leg_passed [of "?c\<lparr>k_net := t2, k_session := s2\<rparr>" "ac_done g" _ env "logging_on restricted g" p
        "[build_logon_frame (ac_handle g) tlv False]" stamp] 2 assms(6) g(3) m(3)
      feed_done [OF st(3) a(4)] lm(4) st(3,6) h s3
    by (auto simp: build_leg_requests_def)
  obtain t4 where 4: "handshake_loop ?env p (?c\<lparr>k_net := t3, k_session := logging_on restricted g\<rparr>)
        = handshake_loop ?env p (?c\<lparr>k_net := t4, k_session := s4\<rparr>)"
      "content (inbound t4) = rest" "outbound t4 = outbound t3"
    using leg_passed [of "?c\<lparr>k_net := t3, k_session := logging_on restricted g\<rparr>" "ac_logon g" _ env s4 p "[]" stamp] 3 g(4)
      feed_logon [OF st(5) a(5)] st(5)
    by (auto simp: build_leg_requests_def s4_def)
  have "handshake_loop ?env p (?c\<lparr>k_net := t4, k_session := s4\<rparr>) = (Inr (), ?c\<lparr>k_net := t4, k_session := s4\<rparr>)"
    using st(7) by (subst handshake_loop.simps) simp
  moreover have "?c\<lparr>k_net := t4, k_session := s4\<rparr> = (new_connection t4 restricted cache anon)\<lparr>k_session := s4\<rparr>"
    by (simp add: new_connection_def)
  ultimately show ?thesis using 0 1 2 3 4 t0(3) m(4) by (auto simp: s4_def)
qed

end

text \<open>The conditions under which the client has something to say.\<close>

definition plain_logon :: "(nat \<Rightarrow> pystr) \<Rightarrow> logon_params \<Rightarrow> bool" where
  "plain_logon uc p \<longleftrightarrow>
     is_ascii (lp_gwhost p) \<and> 0 \<le> lp_sysnr p \<and> lp_sysnr p \<le> 99 \<and> length (lp_rnd p) = 16 \<and>
     (\<exists>b. encode_logon_language uc (lp_lang p) = Inr b) \<and>
     short_texts (lp_rnd p) (lp_hostname p) (lp_client p) (lp_user p) (lp_passwd p) (blit ''python3'')"

lemma ascii_text_bytes: "is_ascii s \<Longrightarrow> \<exists>b. ascii_bytes s = Inr b"
  by (auto simp: ascii_bytes_def opt_res_def ascii_encode_def)

lemma short_logon:
  assumes "build_logon_request uc token hn seed client user passwd ip (blit ''python3'') lang = Inr tlv"
    and "encode_logon_language uc lang = Inr b" and "short_texts token hn client user passwd (blit ''python3'')"
  shows "length tlv < 2 ^ 25"
proof -
  have "length b = 1" by (rule encode_logon_language_one_byte [OF assms(2)])
  then show ?thesis using assms(1,3) build_logon_request_records [OF assms(2,3), of seed ip]
    by (auto simp: logon_records_def short_texts_def logon_constants LOGON_TRAILER_def tlv_records_def length_tlv_record_body
        split: option.splits)
qed

lemma client_has_frames:
  assumes "plain_logon uc p" and "length h = 8"
  shows "\<exists>ms. client_frames uc p h = Inr ms \<and> (\<forall>m \<in> set ms. length m < 2 ^ 32)"
proof -
  note p = assms(1) [unfolded plain_logon_def]
  have "is_ascii (ljust 8 32 (take 8 (lp_gwhost p)))"
    using p by (auto simp: is_ascii_def ljust_def dest: in_set_takeD)
  then obtain host8 host where hosts: "ascii_bytes (ljust 8 32 (take 8 (lp_gwhost p))) = Inr host8" "ascii_bytes (lp_gwhost p) = Inr host"
    using p ascii_text_bytes by metis
  obtain m1 where m1: "build_gw_connect_request (lp_rnd p) (lp_hostname p) (lp_gwhost p) (lp_sysnr p) (lp_snc p) = Inr m1"
    using hosts p by (auto simp: build_gw_connect_request_def validate_sysnr_def Let_def)
  obtain m2 where m2: "build_gw_info h (lp_gwhost p) (lp_snc p) = Inr m2"
    using hosts by (auto simp: build_gw_info_def Let_def)
  obtain b where b: "encode_logon_language uc (lp_lang p) = Inr b" using p by blast
  obtain tlv where tlv: "build_logon_request uc (lp_rnd p) (lp_hostname p) (lp_seed p) (lp_client p) (lp_user p)
      (lp_passwd p) (lp_local_ip p) (blit ''python3'') (lp_lang p) = Inr tlv"
    using build_logon_request_records [OF b] p by blast
  have "length m1 = 453" "length m2 = 224" "length (build_gw_done_client h (lp_snc p)) = 80"
    "length (build_logon_frame h tlv False) < 2 ^ 32" "length (COM_HEAD @ tlv) < 2 ^ 32"
    using length_gw_connect [OF m1] length_gw_info [OF m2 assms(2)] length_gw_done_client [OF assms(2)] p
      short_logon [OF tlv b] length_rfc_header [OF assms(2)]
    by (simp_all add: build_logon_frame_def COM_HEAD_def)
  then show ?thesis using m1 m2 tlv by (simp add: client_frames_def length_ni_version_request)
qed

section \<open>The way to the gateway\<close>

text \<open>What is sent to a SAProuter, and what it answers.\<close>

definition route_messages :: "pystr option \<Rightarrow> pystr \<Rightarrow> int \<Rightarrow> bytes list res" where
  "route_messages saprouter ashost port =
     (case saprouter of
        None \<Rightarrow> Inr []
      | Some r \<Rightarrow> bind_res (parse_route_string r) (\<lambda>hops. map_res (\<lambda>m. [m]) (build_ni_route hops ashost (int_digits port))))"

definition pongs :: "pystr option \<Rightarrow> bytes \<Rightarrow> bytes list" where
  "pongs saprouter pong = (if saprouter = None then [] else [pong])"

text \<open>What is sent to a SOCKS5 proxy, what it answers, and whom the client dials.\<close>

definition proxy_dialogue :: "(pystr \<Rightarrow> bytes res) \<Rightarrow> socket_factory \<Rightarrow> pystr \<Rightarrow> int \<Rightarrow> bytes res" where
  "proxy_dialogue idna fac host port =
     (case fac of
        ThroughProxy phost pport jwt loc \<Rightarrow>
          bind_res (case jwt of None \<Rightarrow> Inr [] | Some j \<Rightarrow> build_jwt_auth j loc) (\<lambda>a.
            map_res (\<lambda>q. [SOCKS_VERSION, 1, if jwt = None then AUTH_NONE else AUTH_SAP_JWT] @ a @ q)
              (build_connect idna host port))
      | _ \<Rightarrow> Inr [])"

definition proxy_answer :: "socket_factory \<Rightarrow> byte \<Rightarrow> byte \<Rightarrow> bytes \<Rightarrow> nat \<Rightarrow> bytes" where
  "proxy_answer fac rsv bound field bport =
     (case fac of ThroughProxy phost pport jwt loc \<Rightarrow> replies_before jwt @ connect_reply rsv bound field bport | _ \<Rightarrow> [])"

definition first_address :: "socket_factory \<Rightarrow> pystr \<Rightarrow> int \<Rightarrow> pystr \<times> int" where
  "first_address fac host port =
     (case fac of ThroughProxy phost pport jwt loc \<Rightarrow> (phost, pport) | _ \<Rightarrow> (host, port))"

lemma socket_opened:
  assumes "\<not> (\<exists>f. fac = Custom f)" and "case_prod (nw_dial nw) (first_address fac host port) = Inr segs" and "[] \<notin> set segs"
    and "concat segs = proxy_answer fac rsv bound field bport @ r" and "bound_ok bound field"
    and "proxy_dialogue (nw_idna nw) fac host port = Inr said"
  shows "\<exists>s. open_socket nw fac host port dl = (Inr (s, said), dl @ [first_address fac host port]) \<and>
    [] \<notin> set s \<and> concat s = r"
proof (cases fac)
  case Direct
  then show ?thesis using assms
    by (auto simp: open_socket_def create_connection_def first_address_def proxy_answer_def proxy_dialogue_def)
next
  case (ThroughProxy phost pport jwt loc)
  obtain a q where aq: "case jwt of None \<Rightarrow> a = [] | Some j \<Rightarrow> build_jwt_auth j loc = Inr a"
      "build_connect (nw_idna nw) host port = Inr q"
      "said = [SOCKS_VERSION, 1, if jwt = None then AUTH_NONE else AUTH_SAP_JWT] @ a @ q"
    using assms(6) ThroughProxy by (auto simp: proxy_dialogue_def bind_res_Inr map_res_Inr split: option.splits)
  have "concat segs = replies_before jwt @ connect_reply rsv bound field bport @ r"
    using assms(4) ThroughProxy by (simp add: proxy_answer_def)
  from socks_sock.handshake_succeeds [OF assms(3) this assms(5) aq(1,2)] obtain s where
    "socks5_connect (nw_idna nw) jwt loc host port segs = (Inr (), \<lparr>tn_in = s, tn_out = said, tn_open = True\<rparr>)"
    "concat s = r" "[] \<notin> set s"
    by (auto simp: socks5_connect_def aq(3))
  then show ?thesis using assms(2) ThroughProxy
    by (auto simp: open_socket_def create_connection_def first_address_def)
qed (use assms(1) in blast)

context exact_reader
begin

lemma route_opened:
  assumes "route_messages saprouter ashost port = Inr ms" and "\<forall>m \<in> set ms. length m < 2 ^ 32"
    and "wf (inbound t)" and "content (inbound t) = wires (pongs saprouter pong) @ r"
    and "is_ni_pong pong" and "sendable pong"
  shows "\<exists>t'. routed nw (transport_env env read stamp) saprouter ashost port t = (Inr (), t') \<and>
    wf (inbound t') \<and> content (inbound t') = r \<and> outbound t' = outbound t @ wires ms"
proof (cases saprouter)
  case None
  then show ?thesis using assms by (simp add: routed_def route_messages_def pongs_def)
next
  case (Some s)
  then obtain hops m where m: "parse_route_string s = Inr hops" "build_ni_route hops ashost (int_digits port) = Inr m" "ms = [m]"
    using assms(1) by (auto simp: route_messages_def bind_res_Inr map_res_Inr)
  obtain t1 where t1: "send_message stamp m t = (Inr (), t1)" "inbound t1 = inbound t" "outbound t1 = outbound t @ wire m"
    using message_sent [of m stamp t] assms(2) m(3) by auto
  have "content (inbound t1) = wire pong @ r" using t1(2) assms(4) Some by (simp add: pongs_def)
  from frame_received [OF _ this assms(6), of stamp] t1(2) assms(3) obtain t2 where
    "recv_message_via read stamp t1 = (Inr pong, t2)" "wf (inbound t2)" "content (inbound t2) = r" "outbound t2 = outbound t1"
    by auto
  with t1 m Some assms(5) show ?thesis by (auto simp: routed_def open_route_def)
qed

lemma established:
  assumes "accepting (cl_utf8 env) (cx_restricted a) g" and "wf i"
    and "content i = wires (pongs (cx_saprouter a) pong) @ wires (ac_frames g) @ rest"
    and "is_ni_pong pong" and "sendable pong"
    and "route_messages (cx_saprouter a) ashost port = Inr route"
    and "client_frames (cl_upper env) (logon_of nw a (fst cred) (snd cred) ashost nr) (ac_handle g) = Inr ms"
    and "\<forall>m \<in> set (route @ ms). length m < 2 ^ 32"
  shows "\<exists>t. establish nw (transport_env env read stamp) a cred ashost (Inr nr) port (transport_on tr i said)
      = Inr ((new_connection t (cx_restricted a) (cx_cache a) (cx_cache_key a))
          \<lparr>k_session := (logging_on (cx_restricted a) g)\<lparr>attributes := Some (ac_attributes g), state := READY\<rparr>\<rparr>) \<and>
    content (inbound t) = rest \<and> outbound t = said @ wires (route @ ms)"
proof -
  have rt: "\<forall>m \<in> set route. length m < 2 ^ 32" and cf: "\<forall>m \<in> set ms. length m < 2 ^ 32" using assms(8) by auto
  obtain t1 where t1: "routed nw (transport_env env read stamp) (cx_saprouter a) ashost port (transport_on tr i said) = (Inr (), t1)"
      "wf (inbound t1)" "content (inbound t1) = wires (ac_frames g) @ rest" "outbound t1 = said @ wires route"
    using route_opened [OF assms(6) rt, of "transport_on tr i said" pong "wires (ac_frames g) @ rest" nw env stamp] assms(2-5)
    by (auto simp: transport_on_def)
  have "\<not> lp_snc (logon_of nw a (fst cred) (snd cred) ashost nr)" by (simp add: logon_of_def)
  from handshake_accepted [OF assms(1) t1(2,3) assms(7) cf this, of stamp "cx_cache a" "cx_cache_key a"] t1
  show ?thesis by (auto simp: establish_def)
qed

end

section \<open>A router is not dialled\<close>

lemma routeless_args [simp]:
  "factory_for nw w (a\<lparr>cx_saprouter := r\<rparr>) = factory_for nw w a"
  "resolve_via_message_server nw uc u8 ms (a\<lparr>cx_saprouter := r\<rparr>) = resolve_via_message_server nw uc u8 ms a"
  by (auto simp: factory_for_def resolve_via_message_server_def fun_eq_iff)

definition demo_acceptance :: acceptance where
  "demo_acceptance =
     \<lparr>ac_version = sample_version_reply, ac_gateway = replicate 48 0x30, ac_done = replicate 80 0, ac_logon = [],
      ac_codepage = lit ''4103'', ac_attributes = logon_attributes decode_ascii Map.empty (lit ''4103'')\<rparr>"

definition demo_stream :: bytes where
  "demo_stream = wires ((NI_PONG @ [0]) # ac_frames demo_acceptance) @ [1, 2]"

definition demo_network :: network where
  "demo_network =
     \<lparr>nw_dial = (\<lambda>h p. if h = lit ''gw'' \<and> p = 3342 then Inr [take 10 demo_stream, drop 10 demo_stream] else Inl OSError),
      nw_idna = (\<lambda>h. Inl UnicodeError), nw_service = (\<lambda>s. None), nw_fetch = (\<lambda>u. Inl OSError),
      nw_urlopen = (\<lambda>r. HttpRaises OSError), nw_shown = (\<lambda>b. []), nw_stamp = [], nw_local_ip = [],
      nw_hostname = lit ''host'', nw_rnd = replicate 16 0, nw_seed = 7\<rparr>"

definition demo_env :: "'n call_env" where
  "demo_env = \<lparr>cl_send = (\<lambda>b n. (Inr (), n)), cl_recv = (\<lambda>n. (Inl EOFError, n)), cl_sent = (\<lambda>n. 0),
     cl_received = (\<lambda>n. 0), cl_upper = (\<lambda>c. [c]), cl_float = (\<lambda>v. Inl TypeError), cl_utf8 = latin1_decode,
     cl_bx = (\<lambda>b. Inl ValueError), cl_micro = id, cl_seconds = (\<lambda>w. 0), cl_text = (\<lambda>e. []),
     cl_describe = (\<lambda>e. []), cl_strict = False,
     cl_odd = natural_desc\<rparr>"

definition demo_args :: connect_args where
  "demo_args =
     \<lparr>cx_ashost = lit ''gw'', cx_sysnr = SysNumber 42, cx_client = lit ''001'', cx_user = Some (lit ''USER''),
      cx_passwd = Some (lit ''secret''), cx_lang = lit ''E'', cx_restricted = False, cx_cache = None, cx_cache_key = None,
      cx_saprouter = Some (lit ''/H/r''), cx_mshost = None, cx_msserv = None, cx_ms_http_port = None,
      cx_ms_use_http = True, cx_sysid = None, cx_group = None, cx_port = None, cx_proxy_type = None,
      cx_proxy_host = None, cx_proxy_port = None, cx_proxy_jwt = None, cx_scc_location_id = None,
      cx_client_id = None, cx_client_secret = None, cx_token_url = None, cx_factory = None, cx_gwhost = None,
      cx_trace = None\<rparr>"

section \<open>Properties\<close>

text \<open>C13. Connecting succeeds.  With valid arguments, over a proxy that accepts or none, a SAProuter that
  acknowledges or none, and a gateway and an application server that accept, however the stream is cut: both
  clients dial one address, the proxy's or the gateway's; what they write is the dialogue with the proxy, the
  route request, and the five messages of the handshake, in this order and nothing else; and they return a
  connection that is ready, with the attributes of the logon reply, and has read nothing further.\<close>

theorem connect_reaches_ready:
  assumes "resolve_credentials (cx_user a) (cx_passwd a) False = Inr cred" and "cx_mshost a = None"
    and "factory_for nw None a = Inr fac" and "\<not> (\<exists>f. fac = Custom f)" and "check_sysnr (cx_sysnr a) = Inr nr"
    and "port = (case cx_port a of Some p \<Rightarrow> p | None \<Rightarrow> 3300 + int nr)"
    and "proxy_dialogue (nw_idna nw) fac (cx_ashost a) port = Inr said"
    and "route_messages (cx_saprouter a) (cx_ashost a) port = Inr route"
    and "plain_logon (cl_upper env) (logon_of nw a (fst cred) (snd cred) (cx_ashost a) (int nr))"
    and "\<forall>m \<in> set route. length m < 2 ^ 32"
    and "case_prod (nw_dial nw) (first_address fac (cx_ashost a) port) = Inr segs" and "[] \<notin> set segs"
    and "concat segs = proxy_answer fac rsv bound field bport @ wires (pongs (cx_saprouter a) pong @ ac_frames g) @ rest"
    and "bound_ok bound field" and "is_ni_pong pong" and "sendable pong"
    and "accepting (cl_utf8 env) (cx_restricted a) g"
    and "cl_upper env' = cl_upper env" and "cl_utf8 env' = cl_utf8 env"
  shows "\<exists>c c' ms. client_frames (cl_upper env) (logon_of nw a (fst cred) (snd cred) (cx_ashost a) (int nr)) (ac_handle g) = Inr ms \<and>
    connect nw env a [] = (Inr c, [first_address fac (cx_ashost a) port]) \<and>
    connect_async nw env' False None a [] = (Inr c', [first_address fac (cx_ashost a) port]) \<and>
    k_session c' = k_session c \<and> state (k_session c) = READY \<and> attributes (k_session c) = Some (ac_attributes g) \<and>
    handle (k_session c) = Some (ac_handle g) \<and>
    outbound (k_net c) = said @ wires (route @ ms) \<and> outbound (k_net c') = outbound (k_net c) \<and>
    concat (inbound (k_net c)) = rest \<and> inbound (k_net c') = rest"
proof -
  have script: "concat segs = proxy_answer fac rsv bound field bport @ wires (pongs (cx_saprouter a) pong) @ wires (ac_frames g) @ rest"
    using assms(13) by simp
  obtain s where s: "open_socket nw fac (cx_ashost a) port [] = (Inr (s, said), [first_address fac (cx_ashost a) port])"
      "[] \<notin> set s" "concat s = wires (pongs (cx_saprouter a) pong) @ wires (ac_frames g) @ rest"
    using socket_opened [OF assms(4,11,12) script assms(14,7), of "[]"] by auto
  have h: "length (ac_handle g) = 8" using assms(17) by (auto simp: ac_handle_def accepting_def)
  then obtain ms where ms: "client_frames (cl_upper env) (logon_of nw a (fst cred) (snd cred) (cx_ashost a) (int nr)) (ac_handle g) = Inr ms"
      "\<forall>m \<in> set (route @ ms). length m < 2 ^ 32"
    using client_has_frames [OF assms(9) h] assms(10) by auto
  have cf: "client_frames (cl_upper env') (logon_of nw a (fst cred) (snd cred) (cx_ashost a) (int nr)) (ac_handle g) = Inr ms"
    and ac: "accepting (cl_utf8 env') (cx_restricted a) g"
    using ms(1) assms(17-19) by simp_all
  have nr: "sysnr_int (cx_sysnr a) = Inr (int nr)"
    using assms(5) by (auto simp: check_sysnr_def bind_res_Inr validate_sysnr_def split: if_splits)
  note sync = sock.established [OF assms(17) s(2,3) assms(15,16,8) ms, of "nw_stamp nw" "cx_trace a" said]
  note async = stream.established [OF ac TrueI s(3) assms(15,16,8) cf ms(2), of "nw_stamp nw" None said]
  have p: "(case cx_port a of Some p \<Rightarrow> Inr p | None \<Rightarrow> map_res ((+) 3300) (sysnr_int (cx_sysnr a))) = Inr port"
    using assms(6) nr by (auto split: option.split)
  have "\<exists>c. connect nw env a [] = (Inr c, [first_address fac (cx_ashost a) port]) \<and>
      k_session c = (logging_on (cx_restricted a) g)\<lparr>attributes := Some (ac_attributes g), state := READY\<rparr> \<and>
      outbound (k_net c) = said @ wires (route @ ms) \<and> concat (inbound (k_net c)) = rest"
    using sync assms(1,2,3,5,6) s(1)
    by (auto simp: connect_def find_gateway_def connect_tcp_def new_connection_def Let_def)
  moreover have "\<exists>c. connect_async nw env' False None a [] = (Inr c, [first_address fac (cx_ashost a) port]) \<and>
      k_session c = (logging_on (cx_restricted a) g)\<lparr>attributes := Some (ac_attributes g), state := READY\<rparr> \<and>
      outbound (k_net c) = said @ wires (route @ ms) \<and> inbound (k_net c) = rest"
    using async assms(1,2,3) s(1) p nr
    by (auto simp: connect_async_def connect_tcp_async_def new_connection_def Let_def)
  ultimately show ?thesis using ms(1) by (auto simp: logging_on_def)
qed

theorem connect_reaches_ready_witness:
  "\<exists>c. connect demo_network demo_env demo_args [] = (Inr c, [(lit ''gw'', 3342)]) \<and> state (k_session c) = READY \<and>
    concat (inbound (k_net c)) = [1, 2]"
proof -
  have p: "session_parse_tlv [] = Inr Map.empty"
    by (simp add: session_parse_tlv_def session_parse_tlv_from.simps tlv_step_simple_def)
  have g: "accepting (cl_utf8 demo_env) (cx_restricted demo_args) demo_acceptance"
    by (simp add: accepting_def demo_acceptance_def ac_frames_def sendable_def MAX_FRAME_BYTES_def NI_RTERR_def starts_with_def
        sample_version_reply_def py_slice_def ascii_decode_def logon_outcome_def p is_live_reply_def Let_def logging_on_def
        demo_args_def)
  have lang: "encode_logon_language (\<lambda>c. [c]) (lit ''E'') = Inr [69]"
    by (simp add: encode_logon_language_def normalize_logon_language_def py_upper_def upper_cp_def strip_by_def
        lstrip_by_def rstrip_by_def is_space_def ws_chars_def is_ascii_def ascii_encode_def)
  have logon: "plain_logon (cl_upper demo_env) (logon_of demo_network demo_args (Some (lit ''USER'')) (Some (lit ''secret'')) (lit ''gw'') 42)"
    using lang by (simp add: plain_logon_def logon_of_def demo_network_def demo_args_def demo_env_def text_or_def truthy.simps is_ascii_def short_texts_def)
  have digits: "int_digits 3342 = lit ''3342''"
    by (simp add: int_digits_def dec_digits.simps)
  have "\<exists>route. route_messages (Some (lit ''/H/r'')) (lit ''gw'') 3342 = Inr route \<and> (\<forall>m \<in> set route. length m < 2 ^ 32)"
    by (simp add: route_messages_def parse_route_string_def starts_with_def digits build_ni_route_def route_entry_def null_term_def
        ascii_encode_def counted_entry_def pack_u32_def NI_ROUTE_MARKER_def hop_to_def update_last_def is_ascii_def)
  then obtain route where route: "route_messages (cx_saprouter demo_args) (cx_ashost demo_args) 3342 = Inr route"
      "\<forall>m \<in> set route. length m < 2 ^ 32"
    by (auto simp: demo_args_def)
  have pong: "is_ni_pong (NI_PONG @ [0])" "sendable (NI_PONG @ [0])"
    by (simp_all add: is_ni_pong_def sendable_def NI_PONG_def NI_RTERR_def starts_with_def MAX_FRAME_BYTES_def)
  have script: "concat [take 10 demo_stream, drop 10 demo_stream]
      = proxy_answer Direct 0 1 [0, 0, 0, 0] 0 @ wires (pongs (cx_saprouter demo_args) (NI_PONG @ [0]) @ ac_frames demo_acceptance) @ [1, 2]"
    using append_take_drop_id [of 10 demo_stream] by (simp add: proxy_answer_def pongs_def demo_args_def demo_stream_def
        del: take_append drop_append)
  have long: "10 < length demo_stream" by (simp add: demo_stream_def wire_def NI_PONG_def)
  have c: "resolve_credentials (cx_user demo_args) (cx_passwd demo_args) False = Inr (Some (lit ''USER''), Some (lit ''secret''))"
    "cx_mshost demo_args = None" "factory_for demo_network None demo_args = Inr Direct"
    "check_sysnr (cx_sysnr demo_args) = Inr 42" "(3342 :: int) = (case cx_port demo_args of Some p \<Rightarrow> p | None \<Rightarrow> 3300 + int 42)"
    by (simp_all add: resolve_credentials_def factory_for_def validate_proxy_args_def check_sysnr_def sysnr_int_def
        validate_sysnr_def demo_args_def)
  have n: "proxy_dialogue (nw_idna demo_network) Direct (cx_ashost demo_args) 3342 = Inr []"
    "case_prod (nw_dial demo_network) (first_address Direct (cx_ashost demo_args) 3342) = Inr [take 10 demo_stream, drop 10 demo_stream]"
    "[] \<notin> set [take 10 demo_stream, drop 10 demo_stream]" "bound_ok 1 [0, 0, 0, 0]" "\<not> (\<exists>f. Direct = Custom f)"
    using long by (auto simp: proxy_dialogue_def first_address_def demo_network_def demo_args_def bound_ok_def socks_numbers)
  have l: "plain_logon (cl_upper demo_env) (logon_of demo_network demo_args (fst (Some (lit ''USER''), Some (lit ''secret'')))
      (snd (Some (lit ''USER''), Some (lit ''secret''))) (cx_ashost demo_args) (int 42))"
    using logon by (simp add: demo_args_def)
  have "first_address Direct (cx_ashost demo_args) 3342 = (lit ''gw'', 3342)" by (simp add: first_address_def demo_args_def)
  with connect_reaches_ready [OF c(1-3) n(5) c(4,5) n(1) route(1) l route(2) n(2,3) script n(4) pong g, of demo_env]
  show ?thesis by (auto simp: demo_env_def)
qed

text \<open>C23. A SAProuter is never dialled.  Without a message server and a proxy the only address dialled is
  the host and the port of the gateway, by both clients, whatever the network does and whatever route is given; the
  route request, which is meant for the router, goes there.\<close>

theorem router_not_dialled:
  assumes "cx_mshost a = None" and "cx_proxy_type a = None" and "cx_factory a = None"
    and "resolve_credentials (cx_user a) (cx_passwd a) False = Inr cred" and "check_sysnr (cx_sysnr a) = Inr nr"
  shows "snd (connect nw env (a\<lparr>cx_saprouter := r\<rparr>) [])
      = [(cx_ashost a, case cx_port a of Some p \<Rightarrow> p | None \<Rightarrow> 3300 + int nr)] \<and>
    snd (connect_async nw env' False None (a\<lparr>cx_saprouter := r\<rparr>) [])
      = [(cx_ashost a, case cx_port a of Some p \<Rightarrow> p | None \<Rightarrow> 3300 + int nr)]"
proof -
  have f: "factory_for nw None a = Inr Direct"
    using assms(2,3) by (simp add: factory_for_def validate_proxy_args_def)
  have nr: "sysnr_int (cx_sysnr a) = Inr (int nr)"
    using assms(5) by (auto simp: check_sysnr_def bind_res_Inr validate_sysnr_def split: if_splits)
  show ?thesis using assms f nr
    by (auto simp: connect_def find_gateway_def connect_async_def connect_tcp_def connect_tcp_async_def open_socket_def create_connection_def Let_def
        split: sum.split option.split)
qed

theorem router_not_dialled_witness:
  "snd (connect demo_network demo_env (demo_args\<lparr>cx_saprouter := Some (lit ''/H/router/S/3299'')\<rparr>) []) = [(lit ''gw'', 3342)]"
proof -
  have "snd (connect demo_network demo_env (demo_args\<lparr>cx_saprouter := Some (lit ''/H/router/S/3299'')\<rparr>) [])
      = [(cx_ashost demo_args, case cx_port demo_args of Some p \<Rightarrow> p | None \<Rightarrow> 3300 + int 42)]"
    by (rule router_not_dialled [where cred = "(Some (lit ''USER''), Some (lit ''secret''))", THEN conjunct1])
      (simp_all add: demo_args_def resolve_credentials_def check_sysnr_def sysnr_int_def validate_sysnr_def)
  then show ?thesis by (simp add: demo_args_def)
qed

text \<open>A message server is asked directly, past the proxy.\<close>

lemma message_server_past_proxy:
  assumes "cx_mshost a = Some ms" and "\<not> cx_ms_use_http a"
    and "resolve_credentials (cx_user a) (cx_passwd a) False = Inr cred" and "factory_for nw None a = Inr fac"
    and "ms_port (cl_upper env) (nw_service nw) (cx_sysid a) (cx_msserv a) = Inr p"
  shows "\<exists>ds. snd (connect nw env a []) = (ms, p) # ds"
proof -
  have u: "cl_upper (transport_env env recv_exactly (nw_stamp nw)) = cl_upper env" by simp
  obtain q where "ms_binary_resolve nw (Inr p) ms (cx_group a) [] = (q, [(ms, p)])"
    by (cases "nw_dial nw ms p") (auto simp: ms_binary_resolve_def connect_tcp_def open_socket_def create_connection_def)
  then have "resolve_via_message_server nw (cl_upper env) (cl_utf8 env) ms a [] = (q, [(ms, p)])"
    using assms(2,5) by (simp add: resolve_via_message_server_def)
  then show ?thesis using assms(1,3,4)
    by (auto simp: connect_def find_gateway_def connect_tcp_def open_socket_def create_connection_def Let_def map_res_Inr
        split: sum.split socket_factory.split prod.split)
qed

end
