(* ===== verification/Snc_Transport.thy ===== *)
theory Snc_Transport
  imports Snc_Frames Rfc_Connect
begin

text \<open>
  \<^verbatim>\<open>SncTransport\<close> of \<^verbatim>\<open>src/saprfclib/snc.py\<close>: a transport that drives the handshake of the security
  library over an inner transport, and then protects what is sent by the chosen level.

  The inner transport is a pair of operations on a state \<open>'n\<close>, the library one on a state \<open>'g\<close>.  The handshake
  asks the library again as long as it wants to be continued, which nothing bounds: it is a partial
  function.
\<close>

section \<open>State\<close>

record ('n, 'g) snc_env =
  sv_send :: "bytes \<Rightarrow> ('n, unit) act"
  sv_recv :: "('n, bytes) act"
  sv_lib :: "'g gss_lib"
  sv_text :: "exn \<Rightarrow> pystr"
  sv_qop :: nat
  sv_eye :: bytes
  sv_ext_header :: bytes
  sv_adapter_info :: bytes

record ('n, 'g) snc_conn =
  sc_inner :: 'n
  sc_gss :: 'g
  sc_established :: bool
  sc_gw_handle :: bytes
  sc_use_gw :: bool

text \<open>\<^verbatim>\<open>SncTransport.__init__\<close> over the operations of its inner transport.\<close>

definition new_snc_transport ::
    "'g gss_lib \<Rightarrow> (nat \<Rightarrow> pystr) \<Rightarrow> (nat \<Rightarrow> bool) \<Rightarrow> (exn \<Rightarrow> pystr) \<Rightarrow> pystr option \<Rightarrow> (bytes \<Rightarrow> ('n, unit) act) \<Rightarrow> ('n, bytes) act
      \<Rightarrow> 'n \<Rightarrow> pystr \<Rightarrow> pystr \<Rightarrow> int \<Rightarrow> bool \<Rightarrow> (('n, 'g) snc_env \<times> ('n, 'g) snc_conn) res" where
  "new_snc_transport lib uc alpha shown env_lib send recv inner snc_lib partner qop sso =
     (if sso then Inl RuntimeError
      else
        bind_res (validate_snc_qop qop) (\<lambda>q.
        bind_res (gss_binding lib alpha env_lib snc_lib partner qop) (\<lambda>g.
        bind_res (build_snc_ext_header uc (strip_snc_prefix alpha (strip_quotes partner))) (\<lambda>ext.
          Inr (\<lparr>sv_send = send, sv_recv = recv, sv_lib = lib, sv_text = shown, sv_qop = q, sv_eye = SNC_EYE,
                 sv_ext_header = ext, sv_adapter_info = get_snc_adapter_info\<rparr>,
               \<lparr>sc_inner = inner, sc_gss = g, sc_established = False, sc_gw_handle = replicate 8 32,
                 sc_use_gw = False\<rparr>)))))"

section \<open>The envelope of the gateway\<close>

definition build_gw_snc_frame :: "bytes \<Rightarrow> bytes \<Rightarrow> bytes res" where
  "build_gw_snc_frame gw_handle snc_frame =
     (if 2 ^ 32 \<le> length snc_frame then Inl StructError
      else
        let p = replicate 80 0;
            p = pack_at 0 [0x06] p;
            p = pack_at 1 [0xCB] p;
            p = pack_at 2 [0x02] p;
            p = pack_at 4 (be_bytes 2 0xFFFF) p;
            p = pack_at 10 [0x28] p;
            p = pack_at 26 (le_bytes 2 0x0800) p;
            p = pack_at 30 (le_bytes 2 0x0C05) p;
            p = put_slice 40 48 gw_handle p;
            p = pack_at 48 (le_bytes 4 0x00850000) p;
            p = pack_at 76 [0xFF] p;
            p = pack_at 77 [0xFF] p;
            p = pack_at 78 [0x00] p;
            p = pack_at 79 [0x09] p
        in Inr (p @ snc_frame @ be_bytes 4 (length snc_frame) @ INVOKE_FOOTER_MAGIC))"

definition strip_gw_snc_frame :: "bytes \<Rightarrow> bytes res" where
  "strip_gw_snc_frame raw =
     (if length raw < 80 + SNC_HEADER_SIZE
      then Inl (CommunicationError (lit ''GW-wrapped SNC frame too short: '' @ dec_digits (length raw) @ lit '' bytes''))
      else Inr (drop 80 raw))"

section \<open>Frames over the inner transport\<close>

definition lost_inner :: "('n, 'g) snc_env \<Rightarrow> exn \<Rightarrow> exn" where
  "lost_inner env e =
     (if isinstance e C_OSError \<or> isinstance e C_EOFError then CommunicationError (sv_text env e) else e)"

definition inner_send :: "('n, 'g) snc_env \<Rightarrow> bytes \<Rightarrow> (('n, 'g) snc_conn, unit) act" where
  "inner_send env b t = (case sv_send env b (sc_inner t) of (r, n) \<Rightarrow> (r, t\<lparr>sc_inner := n\<rparr>))"

definition inner_recv :: "('n, 'g) snc_env \<Rightarrow> (('n, 'g) snc_conn, bytes) act" where
  "inner_recv env t =
     (case sv_recv env (sc_inner t) of
        (Inl e, n) \<Rightarrow> (Inl (lost_inner env e), t\<lparr>sc_inner := n\<rparr>)
      | (Inr b, n) \<Rightarrow> (Inr b, t\<lparr>sc_inner := n\<rparr>))"

definition send_snc_frame ::
    "('n, 'g) snc_env \<Rightarrow> snc_frame_type \<Rightarrow> bytes \<Rightarrow> bytes \<Rightarrow> bytes \<Rightarrow> nat option \<Rightarrow> (('n, 'g) snc_conn, unit) act" where
  "send_snc_frame env frame_type gss_token app_data ext_header qop t =
     (case bind_res (build_snc_frame (sv_eye env) (frame_type_number frame_type) SNC_CTX_ID
              (case qop of None \<Rightarrow> sv_qop env | Some q \<Rightarrow> q) gss_token app_data ext_header)
             (\<lambda>frame. if sc_use_gw t then build_gw_snc_frame (sc_gw_handle t) frame else Inr frame) of
        Inl e \<Rightarrow> (Inl e, t)
      | Inr w \<Rightarrow>
          (case inner_send env w t of
             (Inl e, t1) \<Rightarrow> (Inl (lost_inner env e), t1) | (Inr u, t1) \<Rightarrow> (Inr (), t1)))"

definition unframe :: "('n, 'g) snc_conn \<Rightarrow> bytes \<Rightarrow> snc_frame res" where
  "unframe t raw = bind_res (if sc_use_gw t then strip_gw_snc_frame raw else Inr raw) parse_snc_frame"

definition recv_snc_frame :: "('n, 'g) snc_env \<Rightarrow> (('n, 'g) snc_conn, snc_frame) act" where
  "recv_snc_frame env t =
     (case inner_recv env t of (Inl e, t1) \<Rightarrow> (Inl e, t1) | (Inr raw, t1) \<Rightarrow> (unframe t1 raw, t1))"

text \<open>A call of the library from the transport.\<close>

definition by_library :: "('g, 'a) act \<Rightarrow> (('n, 'g) snc_conn, 'a) act" where
  "by_library f t = (case f (sc_gss t) of (r, g) \<Rightarrow> (r, t\<lparr>sc_gss := g\<rparr>))"

section \<open>The handshake\<close>

text \<open>One step of the library and the token it wants sent; the result is the status and whether the
  next token is still the first.\<close>

definition handshake_turn ::
    "('n, 'g) snc_env \<Rightarrow> bytes \<Rightarrow> bool \<Rightarrow> (('n, 'g) snc_conn, nat \<times> bool) act" where
  "handshake_turn env input_token first_round t =
     (case by_library (init_sec_context (sv_lib env) input_token) t of
        (Inl e, t1) \<Rightarrow> (Inl e, t1)
      | (Inr (major, out_token), t1) \<Rightarrow>
          if out_token = [] then (Inr (major, first_round), t1)
          else
            (case send_snc_frame env FR_INIT out_token (sv_adapter_info env)
                (if first_round then sv_ext_header env else []) (Some SNC_HANDSHAKE_QOP) t1 of
               (Inl e, t2) \<Rightarrow> (Inl e, t2) | (Inr u, t2) \<Rightarrow> (Inr (major, False), t2)))"

partial_function (option) snc_handshake ::
    "('n, 'g) snc_env \<Rightarrow> bytes \<Rightarrow> bool \<Rightarrow> ('n, 'g) snc_conn \<Rightarrow> (unit res \<times> ('n, 'g) snc_conn) option" where
  "snc_handshake env input_token first_round t =
     (case handshake_turn env input_token first_round t of
        (Inl e, t1) \<Rightarrow> Some (Inl e, t1)
      | (Inr (major, still_first), t1) \<Rightarrow>
          if major = GSS_S_COMPLETE then Some (Inr (), t1\<lparr>sc_established := True\<rparr>)
          else if \<not> gss_continues major then Some (Inl (SncError None (Some major) None), t1)
          else
            (case recv_snc_frame env t1 of
               (Inl e, t2) \<Rightarrow> Some (Inl e, t2)
             | (Inr f, t2) \<Rightarrow> snc_handshake env (sf_token f) still_first t2))"

definition activate_snc ::
    "('n, 'g) snc_env \<Rightarrow> bytes option \<Rightarrow> ('n, 'g) snc_conn \<Rightarrow> (unit res \<times> ('n, 'g) snc_conn) option" where
  "activate_snc env gw_handle t =
     snc_handshake env [] True
       (case gw_handle of None \<Rightarrow> t | Some h \<Rightarrow> t\<lparr>sc_gw_handle := h, sc_use_gw := True\<rparr>)"

section \<open>Data\<close>

definition snc_send_message :: "('n, 'g) snc_env \<Rightarrow> bytes \<Rightarrow> (('n, 'g) snc_conn, unit) act" where
  "snc_send_message env payload t =
     (if \<not> sc_established t then inner_send env payload t
      else case map_of QOP_PROTECTION (sv_qop env) of
        None \<Rightarrow> (Inl KeyError, t)
      | Some PRIVACY \<Rightarrow>
          (case by_library (gss_wrap (sv_lib env) payload) t of
             (Inl e, t1) \<Rightarrow> (Inl e, t1)
           | (Inr wrapped, t1) \<Rightarrow> send_snc_frame env PRIVACY wrapped [] [] None t1)
      | Some INTEGRITY \<Rightarrow>
          (case by_library (gss_get_mic (sv_lib env) payload) t of
             (Inl e, t1) \<Rightarrow> (Inl e, t1)
           | (Inr mic, t1) \<Rightarrow> send_snc_frame env INTEGRITY mic payload [] None t1)
      | Some p \<Rightarrow> send_snc_frame env PLAIN [] payload [] None t)"

definition deliver_frame :: "('n, 'g) snc_env \<Rightarrow> snc_frame \<Rightarrow> (('n, 'g) snc_conn, bytes) act" where
  "deliver_frame env f t =
     (if sf_type f = frame_type_number PRIVACY then by_library (gss_unwrap (sv_lib env) (sf_token f)) t
      else if sf_type f = frame_type_number INTEGRITY then
        (case by_library (gss_verify_mic (sv_lib env) (sf_data f) (sf_token f)) t of
           (Inl e, t1) \<Rightarrow> (Inl e, t1) | (Inr u, t1) \<Rightarrow> (Inr (sf_data f), t1))
      else (Inr (sf_data f), t))"

definition snc_recv_message :: "('n, 'g) snc_env \<Rightarrow> (('n, 'g) snc_conn, bytes) act" where
  "snc_recv_message env t =
     (case inner_recv env t of
        (Inl e, t1) \<Rightarrow> (Inl e, t1)
      | (Inr raw, t1) \<Rightarrow>
          if \<not> sc_established t1 then (Inr raw, t1)
          else if \<not> sc_use_gw t1 \<and> take (length (sv_eye env)) raw \<noteq> sv_eye env then (Inr raw, t1)
          else
            (case unframe t1 raw of Inl e \<Rightarrow> (Inl e, t1) | Inr f \<Rightarrow> deliver_frame env f t1))"

section \<open>Frames are read back\<close>

lemma length_pack_eye [simp]: "length (pack_eye eye) = 8"
  by (simp add: pack_eye_def)

lemma frame_parsed:
  assumes "build_snc_frame eye ft ctx qop token app ext = Inr f" and "length token + length app \<le> MAX_FRAME_BYTES"
  shows "parse_snc_frame (f @ r) = Inr \<lparr>sf_type = ft, sf_ctx = ctx, sf_qop = qop, sf_token = token, sf_data = app\<rparr>"
proof -
  have b: "ft < 256 ^ 1" "SNC_HEADER_SIZE + length ext < 256 ^ 2" "length token < 256 ^ 4" "length app < 256 ^ 4"
      "ctx < 256 ^ 2" "qop < 256 ^ 2"
    and f: "f = pack_eye eye @ be_bytes 1 ft @ be_bytes 1 SNC_VERSION @ be_bytes 2 (SNC_HEADER_SIZE + length ext)
        @ be_bytes 4 (length token) @ be_bytes 4 (length app) @ be_bytes 2 ctx @ be_bytes 2 qop @ ext @ token @ app"
    using assms(1) by (auto simp: build_snc_frame_def Let_def split: if_splits)
  have s: "py_slice 8 9 (f @ r) = be_bytes 1 ft" "py_slice 10 12 (f @ r) = be_bytes 2 (SNC_HEADER_SIZE + length ext)"
    "py_slice 12 16 (f @ r) = be_bytes 4 (length token)" "py_slice 16 20 (f @ r) = be_bytes 4 (length app)"
    "py_slice 20 22 (f @ r) = be_bytes 2 ctx" "py_slice 22 24 (f @ r) = be_bytes 2 qop"
    "SNC_HEADER_SIZE \<le> length (f @ r)"
    "py_slice (SNC_HEADER_SIZE + length ext) (SNC_HEADER_SIZE + length ext + length token) (f @ r) = token"
    "py_slice (SNC_HEADER_SIZE + length ext + length token) (SNC_HEADER_SIZE + length ext + length token + length app) (f @ r) = app"
    by (simp_all add: f py_slice_def SNC_HEADER_SIZE_def)
  have l: "\<not> length (f @ r) < SNC_HEADER_SIZE" using s(7) by simp
  have v: "be_val (be_bytes 1 ft) = ft" "be_val (be_bytes 2 (SNC_HEADER_SIZE + length ext)) = SNC_HEADER_SIZE + length ext"
    "be_val (be_bytes 4 (length token)) = length token" "be_val (be_bytes 4 (length app)) = length app"
    "be_val (be_bytes 2 ctx) = ctx" "be_val (be_bytes 2 qop) = qop"
    using b by (simp_all only: be_val_be_bytes mod_less)
  have m: "\<not> MAX_FRAME_BYTES < length token + length app" using assms(2) by simp
  show ?thesis
    unfolding parse_snc_frame_def s Let_def if_not_P [OF l] v if_not_P [OF m] if_P [OF le_add1] by (simp only: s)
qed

lemma frame_at_least_header: "build_snc_frame eye ft ctx qop token app ext = Inr f \<Longrightarrow> SNC_HEADER_SIZE \<le> length f"
  by (auto simp: build_snc_frame_def Let_def SNC_HEADER_SIZE_def split: if_splits)

lemma frame_eye: "build_snc_frame eye ft ctx qop token app ext = Inr f \<Longrightarrow> length eye = 8 \<Longrightarrow> take 8 f = eye"
  by (auto simp: build_snc_frame_def Let_def pack_eye_def split: if_splits)

lemma envelope_stripped:
  assumes "build_gw_snc_frame h f = Inr w" and "length h = 8" and "SNC_HEADER_SIZE \<le> length f"
  shows "\<exists>r. strip_gw_snc_frame w = Inr (f @ r)"
proof -
  have "\<exists>p. length p = 80 \<and> w = p @ f @ be_bytes 4 (length f) @ INVOKE_FOOTER_MAGIC"
    using assms(1,2) by (auto simp: build_gw_snc_frame_def Let_def length_pack_at length_put_slice split: if_splits)
  then show ?thesis using assms(3) by (auto simp: strip_gw_snc_frame_def)
qed

lemma frame_unframed:
  assumes "build_snc_frame eye ft ctx qop token app ext = Inr f" and "length token + length app \<le> MAX_FRAME_BYTES"
    and "if sc_use_gw s then build_gw_snc_frame (sc_gw_handle s) f = Inr w \<and> length (sc_gw_handle s) = 8 else w = f"
    and "sc_use_gw t = sc_use_gw s"
  shows "unframe t w = Inr \<lparr>sf_type = ft, sf_ctx = ctx, sf_qop = qop, sf_token = token, sf_data = app\<rparr>"
  using assms(3,4) envelope_stripped [of "sc_gw_handle s" f w] frame_at_least_header [OF assms(1)] frame_parsed [OF assms(1,2)]
    frame_parsed [OF assms(1,2), of "[]"]
  by (auto simp: unframe_def split: if_splits)

section \<open>Two ends of a secured channel\<close>

text \<open>What GSS-API documents of two contexts established with each other, in related states: what one
  wraps the other unwraps, what one signs the other accepts, and both stay related; \<open>ov\<close> bounds what
  a token is longer than the message.\<close>

definition secure_pair :: "'g gss_lib \<Rightarrow> 'h gss_lib \<Rightarrow> ('g \<Rightarrow> 'h \<Rightarrow> bool) \<Rightarrow> nat \<Rightarrow> bool" where
  "secure_pair lib lib' R ov \<longleftrightarrow>
     (\<forall>g h p. R g h \<longrightarrow>
        (\<exists>m m' w g1 h1. gl_wrap lib p g = ((0, m, w), g1) \<and> gl_unwrap lib' w h = ((0, m', p), h1) \<and> R g1 h1 \<and>
          length w \<le> length p + ov) \<and>
        (\<exists>m m' c g1 h1. gl_get_mic lib p g = ((0, m, c), g1) \<and> gl_verify_mic lib' p c h = ((0, m'), h1) \<and> R g1 h1 \<and>
          length c \<le> ov))"

definition secured_end :: "('n, 'g) snc_env \<Rightarrow> ('n, 'g) snc_conn \<Rightarrow> bool" where
  "secured_end env t \<longleftrightarrow>
     sc_established t \<and> sv_eye env = SNC_EYE \<and> map_of QOP_PROTECTION (sv_qop env) \<noteq> None \<and>
     (sc_use_gw t \<longrightarrow> length (sc_gw_handle t) = 8)"

lemma secured_end_cong:
  "secured_end env t \<Longrightarrow> sc_established t' = sc_established t \<Longrightarrow> sc_use_gw t' = sc_use_gw t \<Longrightarrow>
   sc_gw_handle t' = sc_gw_handle t \<Longrightarrow> secured_end env t'"
  by (simp add: secured_end_def)

lemma qop_levels: "map_of QOP_PROTECTION q = Some p \<Longrightarrow> q < 2 ^ 16 \<and> p \<in> {PLAIN, INTEGRITY, PRIVACY}"
  by (auto simp: QOP_PROTECTION_def split: if_splits)

lemma gss_ok [simp]: "gss_check 0 m = Inr ()"
  by (simp add: gss_check_def GSS_S_COMPLETE_def)

lemma length_eye [simp]: "length SNC_EYE = 8"
  by (simp add: SNC_EYE_def)

text \<open>Every level of protection sends one frame, which the other end delivers.\<close>

lemma payload_protected:
  assumes "secure_pair (sv_lib env) (sv_lib env') R ov" and "R (sc_gss s) h"
    and "sc_established s" and "map_of QOP_PROTECTION (sv_qop env) \<noteq> None"
  shows "\<exists>ft token app g1 h1. snc_send_message env p s = send_snc_frame env ft token app [] None (s\<lparr>sc_gss := g1\<rparr>) \<and>
    (\<forall>t c q. sc_gss t = h \<longrightarrow> deliver_frame env' \<lparr>sf_type = frame_type_number ft, sf_ctx = c, sf_qop = q, sf_token = token, sf_data = app\<rparr> t
      = (Inr p, t\<lparr>sc_gss := h1\<rparr>)) \<and> R g1 h1 \<and> length token + length app \<le> length p + ov"
proof -
  obtain k where k: "map_of QOP_PROTECTION (sv_qop env) = Some k" "k \<in> {PLAIN, INTEGRITY, PRIVACY}"
    using assms(4) qop_levels by blast
  consider "k = PLAIN" | "k = INTEGRITY" | "k = PRIVACY" using k(2) by blast
  then show ?thesis
  proof cases
    case 1
    then show ?thesis using k(1) assms(2,3)
      by (intro exI [of _ PLAIN] exI [of _ "[]"] exI [of _ p] exI [of _ "sc_gss s"] exI [of _ h])
        (simp add: snc_send_message_def deliver_frame_def)
  next
    case 2
    obtain m m' c g1 h1 where "gl_get_mic (sv_lib env) p (sc_gss s) = ((0, m, c), g1)"
        "gl_verify_mic (sv_lib env') p c h = ((0, m'), h1)" "R g1 h1" "length c \<le> ov"
      using assms(1,2) unfolding secure_pair_def by blast
    then show ?thesis using 2 k(1) assms(3)
      by (intro exI [of _ INTEGRITY] exI [of _ c] exI [of _ p] exI [of _ g1] exI [of _ h1])
        (simp add: snc_send_message_def deliver_frame_def by_library_def gss_get_mic_def gss_verify_mic_def
          checked_bytes_def checked_status_def)
  next
    case 3
    obtain m m' w g1 h1 where "gl_wrap (sv_lib env) p (sc_gss s) = ((0, m, w), g1)"
        "gl_unwrap (sv_lib env') w h = ((0, m', p), h1)" "R g1 h1" "length w \<le> length p + ov"
      using assms(1,2) unfolding secure_pair_def by blast
    then show ?thesis using 3 k(1) assms(3)
      by (intro exI [of _ PRIVACY] exI [of _ w] exI [of _ "[]"] exI [of _ g1] exI [of _ h1])
        (simp add: snc_send_message_def deliver_frame_def by_library_def gss_wrap_def gss_unwrap_def checked_bytes_def)
  qed
qed

lemma envelope_first:
  assumes "build_gw_snc_frame h f = Inr w" and "length h = 8"
  shows "take 1 w = [6]"
proof -
  have "take 1 (pack_at 0 [6 :: byte] (replicate 80 0)) = [6]" by (simp add: pack_at_def put_slice_def)
  then show ?thesis using assms
    by (auto simp: build_gw_snc_frame_def Let_def pack_at_def take_put_slice length_put_slice simp del: One_nat_def split: if_splits)
qed

text \<open>A frame that is put on the wire, in the envelope or bare.\<close>

lemma frame_made:
  assumes "ft < 2 ^ 8" and "ctx < 2 ^ 16" and "q < 2 ^ 16" and "length token + length app + 112 \<le> MAX_FRAME_BYTES"
    and "sc_use_gw s \<longrightarrow> length (sc_gw_handle s) = 8"
  shows "\<exists>f w. build_snc_frame SNC_EYE ft ctx q token app [] = Inr f \<and>
    (if sc_use_gw s then build_gw_snc_frame (sc_gw_handle s) f = Inr w \<and> length (sc_gw_handle s) = 8 else w = f) \<and>
    sendable w \<and> length w < 2 ^ 32 \<and> (sc_use_gw s \<or> take 8 w = SNC_EYE)"
proof -
  obtain f where f: "build_snc_frame SNC_EYE ft ctx q token app [] = Inr f" and lf: "length f = 24 + length token + length app"
    using assms(1-4) by (auto simp: build_snc_frame_def Let_def SNC_HEADER_SIZE_def MAX_FRAME_BYTES_def)
  have eye: "take 8 f = SNC_EYE" using frame_eye [OF f] by simp
  obtain w where w: "if sc_use_gw s then build_gw_snc_frame (sc_gw_handle s) f = Inr w \<and> length (sc_gw_handle s) = 8 else w = f"
    using lf assms(4,5)
    by (cases "sc_use_gw s") (auto simp: build_gw_snc_frame_def Let_def MAX_FRAME_BYTES_def)
  have lw: "length w \<le> 112 + length token + length app" using w lf
    by (auto simp: build_gw_snc_frame_def Let_def length_pack_at length_put_slice INVOKE_FOOTER_MAGIC_def split: if_splits)
  have nr: "\<not> starts_with NI_RTERR w"
  proof (cases "sc_use_gw s")
    case True
    then have "take 1 w = [6]" using w envelope_first [of "sc_gw_handle s" f w] by simp
    then show ?thesis by (cases w) (auto simp: starts_with_def NI_RTERR_def)
  next
    case False
    have "length NI_RTERR = 8" "SNC_EYE \<noteq> NI_RTERR" by code_simp+
    then show ?thesis using False w eye by (simp add: starts_with_def)
  qed
  have "sendable w" "length w < 2 ^ 32" using nr lw assms(4) by (simp_all add: sendable_def MAX_FRAME_BYTES_def)
  then show ?thesis using f w eye by (intro exI [of _ f] exI [of _ w]) auto
qed

lemma frame_put:
  assumes "sv_send env = send_message stamp" and "secured_end env s" and "length token + length app + 112 \<le> MAX_FRAME_BYTES"
  shows "\<exists>f w n. send_snc_frame env ft token app [] None s = (Inr (), s\<lparr>sc_inner := n\<rparr>) \<and>
    inbound n = inbound (sc_inner s) \<and> outbound n = outbound (sc_inner s) @ wire w \<and> sendable w \<and>
    (sc_use_gw s \<or> take 8 w = SNC_EYE) \<and>
    build_snc_frame (sv_eye env) (frame_type_number ft) SNC_CTX_ID (sv_qop env) token app [] = Inr f \<and>
    (if sc_use_gw s then build_gw_snc_frame (sc_gw_handle s) f = Inr w \<and> length (sc_gw_handle s) = 8 else w = f)"
proof -
  have e: "sv_eye env = SNC_EYE" "sc_use_gw s \<longrightarrow> length (sc_gw_handle s) = 8" "sv_qop env < 2 ^ 16"
    using assms(2) qop_levels by (auto simp: secured_end_def)
  have k: "frame_type_number ft < 2 ^ 8" "SNC_CTX_ID < 2 ^ 16" by (cases ft) (simp_all add: SNC_CTX_ID_def)
  obtain f w where fw: "build_snc_frame SNC_EYE (frame_type_number ft) SNC_CTX_ID (sv_qop env) token app [] = Inr f"
      "if sc_use_gw s then build_gw_snc_frame (sc_gw_handle s) f = Inr w \<and> length (sc_gw_handle s) = 8 else w = f"
      "sendable w" "length w < 2 ^ 32" "sc_use_gw s \<or> take 8 w = SNC_EYE"
    using frame_made [OF k e(3) assms(3) e(2)] by blast
  obtain n where n: "send_message stamp w (sc_inner s) = (Inr (), n)" "inbound n = inbound (sc_inner s)"
      "outbound n = outbound (sc_inner s) @ wire w"
    using message_sent [OF fw(4), of stamp "sc_inner s"] by blast
  have "send_snc_frame env ft token app [] None s = (Inr (), s\<lparr>sc_inner := n\<rparr>)"
    using fw(1,2) n(1) assms(1) e(1) by (auto simp: send_snc_frame_def inner_send_def split: if_splits)
  then show ?thesis using fw n(2,3) e(1) by (intro exI [of _ f] exI [of _ w] exI [of _ n]) simp
qed

text \<open>Several messages.\<close>

fun recv_each :: "('s, bytes) act \<Rightarrow> nat \<Rightarrow> ('s, bytes list) act" where
  "recv_each recv 0 s = (Inr [], s)"
| "recv_each recv (Suc n) s =
     (case recv s of
        (Inl e, s1) \<Rightarrow> (Inl e, s1)
      | (Inr p, s1) \<Rightarrow>
          (case recv_each recv n s1 of (Inl e, s2) \<Rightarrow> (Inl e, s2) | (Inr ps, s2) \<Rightarrow> (Inr (p # ps), s2)))"

context exact_reader
begin

lemma frame_taken:
  assumes "sv_recv env = recv_message_via read stamp" and "secured_end env t" and "wf (inbound (sc_inner t))"
    and "content (inbound (sc_inner t)) = wire w @ r" and "sendable w" and "sc_use_gw t \<or> take 8 w = SNC_EYE"
    and "\<And>n. unframe (t\<lparr>sc_inner := n\<rparr>) w = Inr f"
  shows "\<exists>n. snc_recv_message env t = deliver_frame env f (t\<lparr>sc_inner := n\<rparr>) \<and> wf (inbound n) \<and> content (inbound n) = r"
proof -
  obtain n where "recv_message_via read stamp (sc_inner t) = (Inr w, n)" "wf (inbound n)" "content (inbound n) = r"
    using frame_received [OF assms(3-5)] by blast
  then show ?thesis using assms(1,2,6,7)
    by (intro exI [of _ n]) (auto simp: snc_recv_message_def inner_recv_def secured_end_def)
qed

text \<open>One message from end to end.\<close>

lemma message_secured:
  assumes "secure_pair (sv_lib env) (sv_lib env') R ov" and "R (sc_gss s) (sc_gss t)"
    and "secured_end env s" and "secured_end env' t" and "sc_use_gw t = sc_use_gw s"
    and "sv_send env = send_message stamp" and "sv_recv env' = recv_message_via read stamp'"
    and "length p + ov + 112 \<le> MAX_FRAME_BYTES"
  shows "\<exists>s1 w h1. snc_send_message env p s = (Inr (), s1) \<and> outbound (sc_inner s1) = outbound (sc_inner s) @ wire w \<and>
    secured_end env s1 \<and> sc_use_gw s1 = sc_use_gw s \<and> R (sc_gss s1) h1 \<and>
    (\<forall>n r. wf (inbound n) \<longrightarrow> content (inbound n) = wire w @ r \<longrightarrow>
      (\<exists>n'. snc_recv_message env' (t\<lparr>sc_inner := n\<rparr>) = (Inr p, t\<lparr>sc_gss := h1, sc_inner := n'\<rparr>) \<and>
        wf (inbound n') \<and> content (inbound n') = r))"
proof -
  have e: "sc_established s" "map_of QOP_PROTECTION (sv_qop env) \<noteq> None" using assms(3) by (simp_all add: secured_end_def)
  obtain ft token app g1 h1 where p: "snc_send_message env p s = send_snc_frame env ft token app [] None (s\<lparr>sc_gss := g1\<rparr>)"
      "\<And>t' c q. sc_gss t' = sc_gss t \<Longrightarrow>
        deliver_frame env' \<lparr>sf_type = frame_type_number ft, sf_ctx = c, sf_qop = q, sf_token = token, sf_data = app\<rparr> t'
          = (Inr p, t'\<lparr>sc_gss := h1\<rparr>)"
      "R g1 h1" "length token + length app \<le> length p + ov"
    using payload_protected [where env = env and env' = env' and R = R and s = s and p = p, OF assms(1,2) e] by blast
  have l: "length token + length app + 112 \<le> MAX_FRAME_BYTES" using p(4) assms(8) by simp
  have s: "secured_end env (s\<lparr>sc_gss := g1\<rparr>)" using assms(3) by (simp add: secured_end_def)
  obtain f w n where w: "send_snc_frame env ft token app [] None (s\<lparr>sc_gss := g1\<rparr>) = (Inr (), s\<lparr>sc_gss := g1, sc_inner := n\<rparr>)"
      "outbound n = outbound (sc_inner s) @ wire w" "sendable w" "sc_use_gw s \<or> take 8 w = SNC_EYE"
    and f: "build_snc_frame (sv_eye env) (frame_type_number ft) SNC_CTX_ID (sv_qop env) token app [] = Inr f"
      "if sc_use_gw s then build_gw_snc_frame (sc_gw_handle s) f = Inr w \<and> length (sc_gw_handle s) = 8 else w = f"
    using frame_put [OF assms(6) s l, of ft] by (auto cong: if_cong)
  have "length token + length app \<le> MAX_FRAME_BYTES" using l by simp
  note unframed = frame_unframed [OF f(1) this f(2)]
  have "\<exists>n'. snc_recv_message env' (t\<lparr>sc_inner := n\<rparr>) = (Inr p, t\<lparr>sc_gss := h1, sc_inner := n'\<rparr>) \<and>
      wf (inbound n') \<and> content (inbound n') = r"
    if i: "wf (inbound n)" "content (inbound n) = wire w @ r" for n r
  proof -
    let ?t = "t\<lparr>sc_inner := n\<rparr>"
    have e: "secured_end env' ?t" using assms(4) by (simp add: secured_end_def)
    have g: "sc_use_gw ?t \<or> take 8 w = SNC_EYE" using w(4) assms(5) by simp
    have u: "unframe (?t\<lparr>sc_inner := n'\<rparr>) w = Inr \<lparr>sf_type = frame_type_number ft, sf_ctx = SNC_CTX_ID,
         sf_qop = sv_qop env, sf_token = token, sf_data = app\<rparr>" for n'
      by (rule unframed) (simp add: assms(5))
    have c: "wf (inbound (sc_inner ?t))" "content (inbound (sc_inner ?t)) = wire w @ r" using i by simp_all
    obtain n' where "snc_recv_message env' ?t = deliver_frame env' \<lparr>sf_type = frame_type_number ft, sf_ctx = SNC_CTX_ID,
         sf_qop = sv_qop env, sf_token = token, sf_data = app\<rparr> (?t\<lparr>sc_inner := n'\<rparr>)" "wf (inbound n')" "content (inbound n') = r"
      using frame_taken [OF assms(7) e c w(3) g u] by blast
    moreover have "t\<lparr>sc_inner := n', sc_gss := h1\<rparr> = t\<lparr>sc_gss := h1, sc_inner := n'\<rparr>" by (cases t) simp
    ultimately show ?thesis using p(2) by (intro exI [of _ n']) simp
  qed
  moreover have "secured_end env (s\<lparr>sc_gss := g1, sc_inner := n\<rparr>)" using s by (simp add: secured_end_def)
  ultimately show ?thesis using p(1,3) w(1,2)
    by (intro exI [of _ "s\<lparr>sc_gss := g1, sc_inner := n\<rparr>"] exI [of _ w] exI [of _ h1]) simp
qed

lemma messages_secured:
  assumes "secure_pair (sv_lib env) (sv_lib env') R ov" and "sv_send env = send_message stamp"
    and "sv_recv env' = recv_message_via read stamp'"
  shows "R (sc_gss s) (sc_gss t) \<Longrightarrow> secured_end env s \<Longrightarrow> secured_end env' t \<Longrightarrow> sc_use_gw t = sc_use_gw s \<Longrightarrow>
    \<forall>p \<in> set ps. length p + ov + 112 \<le> MAX_FRAME_BYTES \<Longrightarrow>
    \<exists>s1 ws. send_each (snc_send_message env) ps s = (Inr (), s1) \<and> outbound (sc_inner s1) = outbound (sc_inner s) @ wires ws \<and>
      (\<forall>n r. wf (inbound n) \<longrightarrow> content (inbound n) = wires ws @ r \<longrightarrow>
        (\<exists>t1. recv_each (snc_recv_message env') (length ps) (t\<lparr>sc_inner := n\<rparr>) = (Inr ps, t1) \<and>
          content (inbound (sc_inner t1)) = r))"
proof (induction ps arbitrary: s t)
  case Nil
  show ?case by (intro exI [of _ s] exI [of _ "[]"]) simp
next
  case (Cons p ps)
  have l: "length p + ov + 112 \<le> MAX_FRAME_BYTES" using Cons.prems(5) by simp
  obtain s1 w h1 where 1: "snc_send_message env p s = (Inr (), s1)" "outbound (sc_inner s1) = outbound (sc_inner s) @ wire w"
      "secured_end env s1" "sc_use_gw s1 = sc_use_gw s" "R (sc_gss s1) h1"
    and m: "\<And>n r. wf (inbound n) \<Longrightarrow> content (inbound n) = wire w @ r \<Longrightarrow>
      \<exists>n'. snc_recv_message env' (t\<lparr>sc_inner := n\<rparr>) = (Inr p, t\<lparr>sc_gss := h1, sc_inner := n'\<rparr>) \<and>
        wf (inbound n') \<and> content (inbound n') = r"
    using message_secured [where R = R and s = s and t = t and p = p, OF assms(1) Cons.prems(1-4) assms(2,3) l] by blast
  let ?t = "t\<lparr>sc_gss := h1\<rparr>"
  have "secured_end env' ?t" using Cons.prems(3) by (simp add: secured_end_def)
  then obtain s2 ws where 2: "send_each (snc_send_message env) ps s1 = (Inr (), s2)"
      "outbound (sc_inner s2) = outbound (sc_inner s1) @ wires ws"
    and r: "\<And>n r. wf (inbound n) \<Longrightarrow> content (inbound n) = wires ws @ r \<Longrightarrow>
        \<exists>t1. recv_each (snc_recv_message env') (length ps) (?t\<lparr>sc_inner := n\<rparr>) = (Inr ps, t1) \<and>
          content (inbound (sc_inner t1)) = r"
    using Cons.IH [of s1 ?t] 1(3-5) Cons.prems(4,5) by auto
  have "\<exists>t1. recv_each (snc_recv_message env') (length (p # ps)) (t\<lparr>sc_inner := n\<rparr>) = (Inr (p # ps), t1) \<and>
      content (inbound (sc_inner t1)) = q"
    if n: "wf (inbound n)" "content (inbound n) = wires (w # ws) @ q" for n q
  proof -
    obtain n' where n': "snc_recv_message env' (t\<lparr>sc_inner := n\<rparr>) = (Inr p, t\<lparr>sc_gss := h1, sc_inner := n'\<rparr>)"
        "wf (inbound n')" "content (inbound n') = wires ws @ q"
      using m [of n "wires ws @ q"] n by auto
    obtain t1 where "recv_each (snc_recv_message env') (length ps) (t\<lparr>sc_gss := h1, sc_inner := n'\<rparr>) = (Inr ps, t1)"
        "content (inbound (sc_inner t1)) = q"
      using r [OF n'(2,3)] by auto
    with n'(1) show ?thesis by simp
  qed
  then show ?case using 1(1,2) 2 by (intro exI [of _ s2] exI [of _ "w # ws"]) simp
qed

end


section \<open>The handshake\<close>

text \<open>A run of the library: the tokens it takes and gives, until it is established.\<close>

fun gss_run :: "'g gss_lib \<Rightarrow> bytes \<Rightarrow> (bytes \<times> bytes) list \<Rightarrow> bytes \<Rightarrow> 'g \<Rightarrow> 'g \<Rightarrow> bool" where
  "gss_run lib input [] out g g' \<longleftrightarrow> (\<exists>m. gl_init_sec_context lib input g = ((GSS_S_COMPLETE, m, out), g'))"
| "gss_run lib input ((o1, reply) # rs) out g g' \<longleftrightarrow>
     (\<exists>major m g1. odd major \<and> gl_init_sec_context lib input g = ((major, m, o1), g1) \<and> gss_run lib reply rs out g1 g')"

text \<open>The frames that carry the tokens: the extension goes with the first, empty tokens are not sent.\<close>

definition gw_of :: "('n, 'g) snc_conn \<Rightarrow> bytes option" where
  "gw_of t = (if sc_use_gw t then Some (sc_gw_handle t) else None)"

definition init_frame :: "('n, 'g) snc_env \<Rightarrow> bytes option \<Rightarrow> bool \<Rightarrow> bytes \<Rightarrow> bytes res" where
  "init_frame env gw first tk =
     bind_res (build_snc_frame (sv_eye env) 2 SNC_CTX_ID SNC_HANDSHAKE_QOP tk (sv_adapter_info env)
         (if first then sv_ext_header env else []))
       (\<lambda>f. case gw of None \<Rightarrow> Inr f | Some h \<Rightarrow> build_gw_snc_frame h f)"

fun init_frames :: "('n, 'g) snc_env \<Rightarrow> bytes option \<Rightarrow> bool \<Rightarrow> bytes list \<Rightarrow> bytes res list" where
  "init_frames env gw first [] = []"
| "init_frames env gw first (tk # tks) =
     (if tk = [] then [] else [init_frame env gw first tk]) @ init_frames env gw (first \<and> tk = []) tks"

definition answers :: "('n, 'g) snc_conn \<Rightarrow> bytes \<times> bytes \<Rightarrow> bytes \<Rightarrow> bool" where
  "answers t r w \<longleftrightarrow> sendable w \<and> (\<exists>f. unframe t w = Inr f \<and> sf_token f = snd r)"

lemma unframe_cong: "sc_use_gw t' = sc_use_gw t \<Longrightarrow> unframe t' w = unframe t w"
  by (simp add: unframe_def)

lemma turn_taken:
  assumes "gl_init_sec_context (sv_lib env) input (sc_gss t) = ((major, m, out), g1)" and "major = 0 \<or> odd major"
    and "sv_send env = send_message stamp" and "seq_res (init_frames env (gw_of t) first [out]) = Inr fs"
    and "\<forall>f \<in> set fs. length f < 2 ^ 32"
  shows "\<exists>n. handshake_turn env input first t = (Inr (major, first \<and> out = []), t\<lparr>sc_gss := g1, sc_inner := n\<rparr>) \<and>
    inbound n = inbound (sc_inner t) \<and> outbound n = outbound (sc_inner t) @ wires fs"
proof -
  have i: "init_sec_context (sv_lib env) input (sc_gss t) = (Inr (major, out), g1)"
    using assms(1,2) by (auto simp: init_sec_context_def gss_check_def GSS_S_COMPLETE_def gss_continues_def)
  show ?thesis
  proof (cases "out = []")
    case True
    then show ?thesis using i assms(4)
      by (intro exI [of _ "sc_inner t"]) (simp add: handshake_turn_def by_library_def)
  next
    case False
    then obtain w where w: "init_frame env (gw_of t) first out = Inr w" "fs = [w]"
      using assms(4) by (cases "init_frame env (gw_of t) first out") auto
    then have "length w < 2 ^ 32" using assms(5) by simp
    from message_sent [OF this, of stamp "sc_inner t"] obtain n where n: "send_message stamp w (sc_inner t) = (Inr (), n)"
        "inbound n = inbound (sc_inner t)" "outbound n = outbound (sc_inner t) @ wire w"
      by blast
    have "send_snc_frame env FR_INIT out (sv_adapter_info env) (if first then sv_ext_header env else [])
        (Some SNC_HANDSHAKE_QOP) (t\<lparr>sc_gss := g1\<rparr>) = (Inr (), t\<lparr>sc_gss := g1, sc_inner := n\<rparr>)"
      using w(1) n(1) assms(3)
      by (auto simp: send_snc_frame_def init_frame_def gw_of_def inner_send_def bind_res_Inr split: if_splits)
    then show ?thesis using i False n w(2)
      by (intro exI [of _ n]) (simp add: handshake_turn_def by_library_def)
  qed
qed

context exact_reader
begin

lemma handshake_run:
  assumes "sv_send env = send_message stamp" and "sv_recv env = recv_message_via read stamp'"
  shows "gss_run (sv_lib env) input rounds out (sc_gss t) g' \<Longrightarrow>
    seq_res (init_frames env (gw_of t) first (map fst rounds @ [out])) = Inr fs \<Longrightarrow> \<forall>f \<in> set fs. length f < 2 ^ 32 \<Longrightarrow>
    list_all2 (answers t) rounds ws \<Longrightarrow> wf (inbound (sc_inner t)) \<Longrightarrow> content (inbound (sc_inner t)) = wires ws @ rest \<Longrightarrow>
    \<exists>n. snc_handshake env input first t = Some (Inr (), t\<lparr>sc_gss := g', sc_inner := n, sc_established := True\<rparr>) \<and>
      outbound n = outbound (sc_inner t) @ wires fs \<and> content (inbound n) = rest \<and> wf (inbound n)"
proof (induction rounds arbitrary: input t first fs ws)
  case Nil
  then obtain m where "gl_init_sec_context (sv_lib env) input (sc_gss t) = ((0, m, out), g')"
    by (auto simp: GSS_S_COMPLETE_def)
  from turn_taken [OF this _ assms(1), of first fs] Nil.prems(2,3) obtain n where
    n: "handshake_turn env input first t = (Inr (0, first \<and> out = []), t\<lparr>sc_gss := g', sc_inner := n\<rparr>)"
      "inbound n = inbound (sc_inner t)" "outbound n = outbound (sc_inner t) @ wires fs"
    by auto
  then show ?case using Nil.prems(4-6)
    by (intro exI [of _ n]) (simp add: snc_handshake.simps GSS_S_COMPLETE_def)
next
  case (Cons r rounds)
  obtain o1 reply where r: "r = (o1, reply)" by (cases r)
  obtain major m g1 where g: "odd major" "gl_init_sec_context (sv_lib env) input (sc_gss t) = ((major, m, o1), g1)"
      "gss_run (sv_lib env) reply rounds out g1 g'"
    using Cons.prems(1) r by auto
  obtain w ws' where ws: "ws = w # ws'" "answers t r w" "list_all2 (answers t) rounds ws'"
    using Cons.prems(4) by (cases ws) auto
  obtain fs1 fs2 where fs: "seq_res (init_frames env (gw_of t) first [o1]) = Inr fs1"
      "seq_res (init_frames env (gw_of t) (first \<and> o1 = []) (map fst rounds @ [out])) = Inr fs2" "fs = fs1 @ fs2"
    using Cons.prems(2) r seq_res_append [of "init_frames env (gw_of t) first [o1]"]
    by (auto simp: bind_res_Inr map_res_Inr)
  have l: "\<forall>f \<in> set fs1. length f < 2 ^ 32" "\<forall>f \<in> set fs2. length f < 2 ^ 32" using Cons.prems(3) fs(3) by auto
  obtain n where n: "handshake_turn env input first t = (Inr (major, first \<and> o1 = []), t\<lparr>sc_gss := g1, sc_inner := n\<rparr>)"
      "inbound n = inbound (sc_inner t)" "outbound n = outbound (sc_inner t) @ wires fs1"
    using turn_taken [OF g(2) disjI2 [OF g(1)] assms(1) fs(1) l(1)] by blast
  have "wf (inbound n)" "content (inbound n) = wire w @ wires ws' @ rest" using n(2) Cons.prems(5,6) ws(1) by simp_all
  from frame_received [OF this, of stamp'] ws(2) obtain n1 where
    n1: "recv_message_via read stamp' n = (Inr w, n1)" "wf (inbound n1)" "content (inbound n1) = wires ws' @ rest"
      "outbound n1 = outbound n"
    by (auto simp: answers_def)
  let ?t = "t\<lparr>sc_gss := g1, sc_inner := n1\<rparr>"
  obtain f where f: "unframe t w = Inr f" "sf_token f = reply" using ws(2) r by (auto simp: answers_def)
  have "unframe ?t w = Inr f" using f(1) unframe_cong [of ?t t w] by simp
  then have rf: "recv_snc_frame env (t\<lparr>sc_gss := g1, sc_inner := n\<rparr>) = (Inr f, ?t)"
    using n1(1) assms(2) by (simp add: recv_snc_frame_def inner_recv_def)
  have "gw_of ?t = gw_of t" by (simp add: gw_of_def)
  moreover have "answers ?t = answers t" using unframe_cong [of ?t t] by (simp add: answers_def fun_eq_iff)
  ultimately obtain n2 where "snc_handshake env reply (first \<and> o1 = []) ?t
        = Some (Inr (), ?t\<lparr>sc_gss := g', sc_inner := n2, sc_established := True\<rparr>)"
      "outbound n2 = outbound n1 @ wires fs2" "content (inbound n2) = rest" "wf (inbound n2)"
    using Cons.IH [of reply ?t "first \<and> o1 = []" fs2 ws'] g(3) fs(2) l(2) ws(3) n1(2,3) by auto
  moreover have "?t\<lparr>sc_gss := g', sc_inner := n2, sc_established := True\<rparr> = t\<lparr>sc_gss := g', sc_inner := n2, sc_established := True\<rparr>"
    by (cases t) simp
  moreover have "major \<noteq> 0" using g(1) by (cases "major = 0") auto
  ultimately show ?case using n rf f(2) g(1) n1(4) fs(3)
    by (intro exI [of _ n2]) (simp add: snc_handshake.simps [of env input] GSS_S_COMPLETE_def gss_continues_def)
qed

end

text \<open>The handshake establishes the channel.  When the library asks to be continued any number of times and
  then completes, and the peer answers each token with a frame that carries the next, the client sends every token the library
  gave that is not empty, in order and nothing else, the extension header with the first only, whatever the cut
  of the stream; and the channel is established, in the envelope of the gateway if a handle was given.\<close>

lemma handshake_establishes:
  assumes "t = (case gw_handle of None \<Rightarrow> t0 | Some h \<Rightarrow> t0\<lparr>sc_gw_handle := h, sc_use_gw := True\<rparr>)"
    and "sv_send env = send_message stamp" and "sv_recv env = recv_message stamp'"
    and "gss_run (sv_lib env) [] rounds out (sc_gss t0) g'"
    and "seq_res (init_frames env (gw_of t) True (map fst rounds @ [out])) = Inr fs" and "\<forall>f \<in> set fs. length f < 2 ^ 32"
    and "list_all2 (answers t) rounds ws" and "[] \<notin> set (inbound (sc_inner t0))"
    and "concat (inbound (sc_inner t0)) = wires ws @ rest"
  shows "\<exists>n. activate_snc env gw_handle t0 = Some (Inr (), t\<lparr>sc_gss := g', sc_inner := n, sc_established := True\<rparr>) \<and>
    outbound n = outbound (sc_inner t0) @ wires fs \<and> concat (inbound n) = rest"
proof -
  have r: "sv_recv env = recv_message_via recv_exactly stamp'" using assms(3) by (simp add: recv_message_def fun_eq_iff)
  have t: "sc_gss t = sc_gss t0" "sc_inner t = sc_inner t0" using assms(1) by (simp_all split: option.splits)
  from sock.handshake_run [OF assms(2) r, of "[]" rounds out t g' True fs ws rest] assms(4-9)
  show ?thesis by (auto simp: activate_snc_def t simp flip: assms(1))
qed

text \<open>A library that numbers its messages.\<close>

definition demo_gss :: "nat gss_lib" where
  "demo_gss =
     \<lparr>gl_load = (\<lambda>p. Inr 0), gl_acquire_cred = (\<lambda>g. ((0, 0), g)), gl_import_name = (\<lambda>b g. ((0, 0), g)),
      gl_init_sec_context = (\<lambda>tk g. (if tk = [] then (1, 0, [1]) else (0, 0, [3]), g + 1)),
      gl_wrap = (\<lambda>p g. ((0, 0, word_of_nat g # p), g + 1)),
      gl_unwrap = (\<lambda>w g. (if w \<noteq> [] \<and> w ! 0 = word_of_nat g then (0, 0, tl w) else (0x60000, 0, []), g + 1)),
      gl_get_mic = (\<lambda>p g. ((0, 0, [word_of_nat g]), g + 1)),
      gl_verify_mic = (\<lambda>p c g. (if c = [word_of_nat g] then (0, 0) else (0x60000, 0), g + 1))\<rparr>"

definition demo_snc_env :: "nat \<Rightarrow> (segments transport, nat) snc_env" where
  "demo_snc_env q =
     \<lparr>sv_send = send_message [], sv_recv = recv_message [], sv_lib = demo_gss, sv_text = (\<lambda>e. []), sv_qop = q,
      sv_eye = SNC_EYE, sv_ext_header = [9, 9], sv_adapter_info = [8]\<rparr>"

definition demo_snc :: "bytes list \<Rightarrow> (segments transport, nat) snc_conn" where
  "demo_snc segs =
     \<lparr>sc_inner = transport_on None segs [], sc_gss = 0, sc_established = False, sc_gw_handle = [], sc_use_gw = False\<rparr>"

lemma demo_pair: "secure_pair demo_gss demo_gss (=) 1"
  by (simp add: secure_pair_def demo_gss_def)

section \<open>Properties\<close>

text \<open>C15. A secured channel delivers.  Between two established ends whose libraries are in step, at every level
  of protection of the sender and with or without the envelope, any messages that fit are sent, and received whole
  and in order whatever the cut of the stream, and nothing more is read.\<close>

theorem secured_channel_delivers:
  assumes "secure_pair (sv_lib env) (sv_lib env') R ov" and "R (sc_gss s) (sc_gss t)"
    and "secured_end env s" and "secured_end env' t" and "sc_use_gw t = sc_use_gw s"
    and "sv_send env = send_message stamp" and "sv_recv env' = recv_message stamp'"
    and "\<forall>p \<in> set ps. length p + ov + 112 \<le> MAX_FRAME_BYTES"
  shows "\<exists>s1 sent. send_each (snc_send_message env) ps s = (Inr (), s1) \<and> outbound (sc_inner s1) = outbound (sc_inner s) @ sent \<and>
    (\<forall>n r. [] \<notin> set (inbound n) \<longrightarrow> concat (inbound n) = sent @ r \<longrightarrow>
      (\<exists>t1. recv_each (snc_recv_message env') (length ps) (t\<lparr>sc_inner := n\<rparr>) = (Inr ps, t1) \<and>
        concat (inbound (sc_inner t1)) = r))"
proof -
  have "sv_recv env' = recv_message_via recv_exactly stamp'" using assms(7) by (simp add: recv_message_def fun_eq_iff)
  from sock.messages_secured [where R = R and s = s and t = t and ps = ps, OF assms(1,6) this assms(2-5,8)]
  show ?thesis by blast
qed

theorem secured_channel_delivers_witness:
  "\<exists>s1 sent. send_each (snc_send_message (demo_snc_env 3)) [[5, 6], []] ((demo_snc [])\<lparr>sc_established := True\<rparr>) = (Inr (), s1) \<and>
    outbound (sc_inner s1) = sent"
proof -
  let ?env = "demo_snc_env 3" and ?t = "(demo_snc [])\<lparr>sc_established := True\<rparr>"
  have e: "secured_end ?env ?t"
    by (simp add: secured_end_def demo_snc_env_def demo_snc_def QOP_PROTECTION_def)
  have c: "secure_pair (sv_lib ?env) (sv_lib ?env) (=) 1" "sv_send ?env = send_message []" "sv_recv ?env = recv_message []"
    using demo_pair by (simp_all add: demo_snc_env_def)
  have l: "\<forall>p \<in> set [[5, 6], [] :: bytes]. length p + 1 + 112 \<le> MAX_FRAME_BYTES" by (simp add: MAX_FRAME_BYTES_def)
  have o: "outbound (sc_inner ?t) = []" by (simp add: demo_snc_def transport_on_def)
  from secured_channel_delivers [where R = "(=)", OF c(1) refl e e refl c(2,3) l] o show ?thesis by (metis append_Nil)
qed

text \<open>C16. Protection is applied to what is sent and not demanded of what is received.  On an established
  channel at privacy the inner transport gets a function of the wrapped message: messages that are wrapped alike are sent alike.
  But whoever can write to the stream can have any text delivered by such a channel as a frame marked plain, and the
  library is not asked; without the envelope even a message that is no frame at all.\<close>

theorem unprotected_frames_accepted:
  assumes "sc_established t" and "map_of QOP_PROTECTION (sv_qop env) = Some PRIVACY" and "sv_eye env = SNC_EYE"
    and "length p + 112 \<le> MAX_FRAME_BYTES" and "sc_use_gw t \<longrightarrow> length (sc_gw_handle t) = 8"
    and "sv_recv env = recv_message stamp"
  shows "(gl_wrap (sv_lib env) q (sc_gss t) = gl_wrap (sv_lib env) q' (sc_gss t) \<longrightarrow>
      snc_send_message env q t = snc_send_message env q' t) \<and>
    (\<exists>f w. build_snc_frame SNC_EYE 7 SNC_CTX_ID 0 [] p [] = Inr f \<and>
      (if sc_use_gw t then build_gw_snc_frame (sc_gw_handle t) f = Inr w else w = f) \<and>
      (\<forall>n r. [] \<notin> set (inbound n) \<longrightarrow> concat (inbound n) = wire w @ r \<longrightarrow>
        (\<exists>n'. snc_recv_message env (t\<lparr>sc_inner := n\<rparr>) = (Inr p, t\<lparr>sc_inner := n'\<rparr>) \<and> concat (inbound n') = r))) \<and>
    (\<not> sc_use_gw t \<longrightarrow> \<not> starts_with SNC_EYE p \<longrightarrow> sendable p \<longrightarrow>
      (\<forall>n r. [] \<notin> set (inbound n) \<longrightarrow> concat (inbound n) = wire p @ r \<longrightarrow>
        (\<exists>n'. snc_recv_message env (t\<lparr>sc_inner := n\<rparr>) = (Inr p, t\<lparr>sc_inner := n'\<rparr>) \<and> concat (inbound n') = r)))"
proof (intro conjI impI)
  show "snc_send_message env q t = snc_send_message env q' t"
    if "gl_wrap (sv_lib env) q (sc_gss t) = gl_wrap (sv_lib env) q' (sc_gss t)"
    using that assms(1,2) by (simp add: snc_send_message_def by_library_def gss_wrap_def checked_bytes_def)
  have e: "secured_end env t" using assms(1-3,5) by (simp add: secured_end_def)
  have r_def: "sv_recv env = recv_message_via recv_exactly stamp" using assms(6) by (simp add: recv_message_def fun_eq_iff)
  have "length ([] :: bytes) + length p + 112 \<le> MAX_FRAME_BYTES" using assms(4) by simp
  from frame_made [of 7 SNC_CTX_ID 0, OF _ _ _ this assms(5)] obtain f w where
    f: "build_snc_frame SNC_EYE 7 SNC_CTX_ID 0 [] p [] = Inr f"
      "if sc_use_gw t then build_gw_snc_frame (sc_gw_handle t) f = Inr w \<and> length (sc_gw_handle t) = 8 else w = f"
      "sendable w" "sc_use_gw t \<or> take 8 w = SNC_EYE"
    by (auto simp: SNC_CTX_ID_def)
  have "length ([] :: bytes) + length p \<le> MAX_FRAME_BYTES" using assms(4) by simp
  note u = frame_unframed [OF f(1) this f(2)]
  have "\<exists>n'. snc_recv_message env (t\<lparr>sc_inner := n\<rparr>) = (Inr p, t\<lparr>sc_inner := n'\<rparr>) \<and> concat (inbound n') = r"
    if n: "[] \<notin> set (inbound n)" "concat (inbound n) = wire w @ r" for n r
  proof -
    let ?t = "t\<lparr>sc_inner := n\<rparr>"
    have t: "secured_end env ?t" using e by (simp add: secured_end_def)
    have i: "[] \<notin> set (inbound (sc_inner ?t))" "concat (inbound (sc_inner ?t)) = wire w @ r" using n by simp_all
    have g: "sc_use_gw ?t \<or> take 8 w = SNC_EYE" using f(4) by simp
    have v: "unframe (?t\<lparr>sc_inner := k\<rparr>) w = Inr \<lparr>sf_type = 7, sf_ctx = SNC_CTX_ID, sf_qop = 0, sf_token = [], sf_data = p\<rparr>" for k
      by (rule u) simp
    obtain n' where n': "snc_recv_message env ?t = deliver_frame env
        \<lparr>sf_type = 7, sf_ctx = SNC_CTX_ID, sf_qop = 0, sf_token = [], sf_data = p\<rparr> (?t\<lparr>sc_inner := n'\<rparr>)" "concat (inbound n') = r"
      using sock.frame_taken [OF r_def t i f(3) g v] by blast
    then show ?thesis by (intro exI [of _ n']) (simp add: deliver_frame_def)
  qed
  then show "\<exists>f w. build_snc_frame SNC_EYE 7 SNC_CTX_ID 0 [] p [] = Inr f \<and>
      (if sc_use_gw t then build_gw_snc_frame (sc_gw_handle t) f = Inr w else w = f) \<and>
      (\<forall>n r. [] \<notin> set (inbound n) \<longrightarrow> concat (inbound n) = wire w @ r \<longrightarrow>
        (\<exists>n'. snc_recv_message env (t\<lparr>sc_inner := n\<rparr>) = (Inr p, t\<lparr>sc_inner := n'\<rparr>) \<and> concat (inbound n') = r))"
    using f(1,2) by (intro exI [of _ f] exI [of _ w]) (auto split: if_splits)
  show "\<forall>n r. [] \<notin> set (inbound n) \<longrightarrow> concat (inbound n) = wire p @ r \<longrightarrow>
      (\<exists>n'. snc_recv_message env (t\<lparr>sc_inner := n\<rparr>) = (Inr p, t\<lparr>sc_inner := n'\<rparr>) \<and> concat (inbound n') = r)"
    if bare: "\<not> sc_use_gw t" "\<not> starts_with SNC_EYE p" "sendable p"
  proof (intro allI impI)
    fix n :: "segments transport" and q
    assume n: "[] \<notin> set (inbound n)" "concat (inbound n) = wire p @ q"
    obtain n' where "recv_message_via recv_exactly stamp n = (Inr p, n')" "concat (inbound n') = q"
      using sock.frame_received [OF n bare(3)] by blast
    then show "\<exists>n'. snc_recv_message env (t\<lparr>sc_inner := n\<rparr>) = (Inr p, t\<lparr>sc_inner := n'\<rparr>) \<and> concat (inbound n') = q"
      using bare(1,2) assms(1,3) r_def
      by (intro exI [of _ n']) (auto simp: snc_recv_message_def inner_recv_def starts_with_def)
  qed
qed

theorem unprotected_frames_accepted_witness:
  "\<exists>n'. snc_recv_message (demo_snc_env 3) ((demo_snc [])\<lparr>sc_established := True, sc_inner := transport_on None [wire [104, 105]] []\<rparr>)
    = (Inr [104, 105], (demo_snc [])\<lparr>sc_established := True, sc_inner := n'\<rparr>)"
proof -
  let ?t = "(demo_snc [])\<lparr>sc_established := True\<rparr>"
  have t: "sc_established ?t" "map_of QOP_PROTECTION (sv_qop (demo_snc_env 3)) = Some PRIVACY" "sv_eye (demo_snc_env 3) = SNC_EYE"
    "length [104 :: byte, 105] + 112 \<le> MAX_FRAME_BYTES" "sc_use_gw ?t \<longrightarrow> length (sc_gw_handle ?t) = 8"
    "sv_recv (demo_snc_env 3) = recv_message []"
    by (simp_all add: demo_snc_env_def demo_snc_def QOP_PROTECTION_def MAX_FRAME_BYTES_def)
  have p: "\<not> sc_use_gw ?t" "\<not> starts_with SNC_EYE [104, 105]" "sendable [104, 105]"
    by (simp_all add: demo_snc_def starts_with_def SNC_EYE_def sendable_def MAX_FRAME_BYTES_def NI_RTERR_def)
  from unprotected_frames_accepted [OF t] p
  have "\<forall>n r. [] \<notin> set (inbound n) \<longrightarrow> concat (inbound n) = wire [104, 105] @ r \<longrightarrow>
      (\<exists>n'. snc_recv_message (demo_snc_env 3) (?t\<lparr>sc_inner := n\<rparr>) = (Inr [104, 105], ?t\<lparr>sc_inner := n'\<rparr>) \<and> concat (inbound n') = r)"
    by blast
  then show ?thesis by (auto simp: transport_on_def wire_def dest!: spec [of _ "transport_on None [wire [104, 105]] []"])
qed

end
