(* ===== verification/Snc_Connect.thy ===== *)
theory Snc_Connect
  imports Snc_Transport
begin

text \<open>
  Connections over SNC of \<^verbatim>\<open>src/saprfclib/connection.py\<close>: \<^verbatim>\<open>Connection._handshake\<close>, which has the security library
  establish the channel once the gateway has answered, and the branch of \<^verbatim>\<open>connect\<close> that opens such a connection.  The version is
  exchanged on the plain transport; the gateway's frames pass through the SNC transport
  unprotected; the logon is the first message that is protected.
\<close>

section \<open>The synchronous handshake\<close>

text \<open>\<open>act\<close> is the transport's \<^verbatim>\<open>activate_snc\<close>.\<close>

definition leg_sent ::
    "'n call_env \<Rightarrow> logon_params \<Rightarrow> session_state \<Rightarrow> session \<Rightarrow> 'n call_conn \<Rightarrow> unit res \<times> 'n call_conn" where
  "leg_sent env p prev s c =
     (case build_leg_requests (cl_upper env) prev (handle s) p of
        Inl e \<Rightarrow> (Inl e, c)
      | Inr ms \<Rightarrow> (case send_each (cl_send env) ms (k_net c) of (r, n) \<Rightarrow> (r, c\<lparr>k_net := n\<rparr>)))"

function sync_handshake_loop ::
    "'n call_env \<Rightarrow> (bytes option \<Rightarrow> 'n \<Rightarrow> (unit res \<times> 'n) option) \<Rightarrow> logon_params \<Rightarrow> 'n call_conn
      \<Rightarrow> (unit res \<times> 'n call_conn) option" where
  "sync_handshake_loop env act p c =
     (if state (k_session c) = READY then Some (Inr (), c)
      else case cl_recv env (k_net c) of
        (Inl e, n) \<Rightarrow> Some (Inl e, c\<lparr>k_net := n\<rparr>)
      | (Inr resp, n) \<Rightarrow>
          (case session_feed (cl_utf8 env) resp (k_session c) of
             (Inl e, s) \<Rightarrow> Some (Inl e, c\<lparr>k_net := n, k_session := s\<rparr>)
           | (Inr out, s) \<Rightarrow>
               (case (if out \<noteq> [] then
                        (case cl_send env out n of (r, n1) \<Rightarrow> Some (r, c\<lparr>k_net := n1, k_session := s\<rparr>))
                      else
                        (case (if state (k_session c) = GW_CONNECTED then act (handle s) n else Some (Inr (), n)) of
                           None \<Rightarrow> None
                         | Some (Inl e, n1) \<Rightarrow> Some (Inl e, c\<lparr>k_net := n1, k_session := s\<rparr>)
                         | Some (Inr u, n1) \<Rightarrow>
                             Some (leg_sent env p (state (k_session c)) s (c\<lparr>k_net := n1, k_session := s\<rparr>)))) of
                  None \<Rightarrow> None
                | Some (Inl e, c1) \<Rightarrow> Some (Inl e, c1)
                | Some (Inr u, c1) \<Rightarrow> sync_handshake_loop env act p (c1\<lparr>k_session := s\<rparr>))))"
  by pat_completeness auto
termination
  by (relation "measure (\<lambda>(env, act, p, c). legs_left (state (k_session c)))") (auto dest: feed_advances [OF sym])

declare sync_handshake_loop.simps [simp del]

definition sync_handshake ::
    "'n call_env \<Rightarrow> (bytes option \<Rightarrow> 'n \<Rightarrow> (unit res \<times> 'n) option) \<Rightarrow> logon_params \<Rightarrow> 'n call_conn
      \<Rightarrow> (unit res \<times> 'n call_conn) option" where
  "sync_handshake env act p c =
     (case (if state (k_session c) = DISCONNECTED then
              (case session_start (Some (lp_local_ip p)) (k_session c) of
                 (req, s) \<Rightarrow> (case cl_send env req (k_net c) of (r, n) \<Rightarrow> (r, c\<lparr>k_net := n, k_session := s\<rparr>)))
            else if state (k_session c) = NI_VERSIONED then leg_sent env p CONNECTED (k_session c) c
            else (Inr (), c)) of
        (Inl e, c1) \<Rightarrow> Some (Inl e, c1)
      | (Inr u, c1) \<Rightarrow> sync_handshake_loop env act p c1)"

section \<open>Connecting over SNC\<close>

record snc_args =
  sx_lib :: pystr
  sx_partnername :: pystr
  sx_qop :: "int option"
  sx_sso :: bool
  sx_env_lib :: "pystr option"

text \<open>\<^verbatim>\<open>snc_qop or 3\<close>.\<close>

definition chosen_qop :: "int option \<Rightarrow> int" where
  "chosen_qop q = (case q of None \<Rightarrow> 3 | Some i \<Rightarrow> if i = 0 then 3 else i)"

definition version_exchange ::
    "'i transport call_env \<Rightarrow> pystr \<Rightarrow> bool \<Rightarrow> 'i transport \<Rightarrow> session res \<times> 'i transport" where
  "version_exchange env local_ip restricted t =
     (case session_start (Some local_ip) (new_session restricted) of
        (req, s) \<Rightarrow>
          (case cl_send env req t of
             (Inl e, t1) \<Rightarrow> (Inl e, t1)
           | (Inr u, t1) \<Rightarrow>
               (case cl_recv env t1 of
                  (Inl e, t2) \<Rightarrow> (Inl e, t2)
                | (Inr resp, t2) \<Rightarrow>
                    (case session_feed (cl_utf8 env) resp s of (Inl e, s1) \<Rightarrow> (Inl e, t2) | (Inr out, s1) \<Rightarrow> (Inr s1, t2)))))"

definition snc_call_env ::
    "('i transport, 'g) snc_env \<Rightarrow> ('i transport, 'g) snc_conn call_env \<Rightarrow> ('i transport, 'g) snc_conn call_env" where
  "snc_call_env senv env = env\<lparr>cl_send := snc_send_message senv, cl_recv := snc_recv_message senv\<rparr>"

definition snc_establish ::
    "network \<Rightarrow> 'i transport call_env \<Rightarrow> ('i transport, 'g) snc_conn call_env \<Rightarrow> 'g gss_lib \<Rightarrow> (nat \<Rightarrow> bool) \<Rightarrow> (exn \<Rightarrow> pystr)
      \<Rightarrow> snc_args \<Rightarrow> connect_args \<Rightarrow> gateway \<Rightarrow> 'i transport \<Rightarrow> ('i transport, 'g) snc_conn call_conn res option" where
  "snc_establish nw tenv env0 lib alpha shown x a gw t =
     (case version_exchange tenv (nw_local_ip nw) (cx_restricted a) t of
        (Inl e, t1) \<Rightarrow> Some (Inl e)
      | (Inr s, t1) \<Rightarrow>
      (case bind_res (validate_snc_qop (chosen_qop (sx_qop x))) (\<lambda>q.
              new_snc_transport lib (cl_upper tenv) alpha shown (sx_env_lib x) (cl_send tenv) (cl_recv tenv) t1 (sx_lib x)
                (sx_partnername x) (int q) (sx_sso x)) of
        Inl e \<Rightarrow> Some (Inl e)
      | Inr (senv, sc) \<Rightarrow>
          (let env = snc_call_env senv env0;
               conn = (new_connection sc (cx_restricted a) (cx_cache a) (cx_cache_key a))\<lparr>k_session := s\<rparr>
           in case (case cx_saprouter a of
                      None \<Rightarrow> (Inr (), sc)
                    | Some r \<Rightarrow>
                        (case parse_route_string r of
                           Inl e \<Rightarrow> (Inl e, sc)
                         | Inr hops \<Rightarrow> open_route (cl_send env) (cl_recv env) (nw_shown nw) hops (gt_host gw)
                             (int_digits (gt_port gw)) sc)) of
                (Inl e, sc1) \<Rightarrow> Some (Inl e)
              | (Inr u, sc1) \<Rightarrow>
                  (case sync_handshake env (activate_snc senv)
                      ((logon_of nw a (fst (gt_cred gw)) (snd (gt_cred gw)) (gt_host gw) (int (gt_sysnr gw)))\<lparr>lp_snc := True\<rparr>)
                      (conn\<lparr>k_net := sc1\<rparr>) of
                     None \<Rightarrow> None
                   | Some (r, c) \<Rightarrow> Some (map_res (\<lambda>_. c) r)))))"

definition connect_over_snc ::
    "network \<Rightarrow> segments transport call_env \<Rightarrow> (segments transport, 'g) snc_conn call_env \<Rightarrow> 'g gss_lib \<Rightarrow> (nat \<Rightarrow> bool)
      \<Rightarrow> (exn \<Rightarrow> pystr) \<Rightarrow> snc_args \<Rightarrow> connect_args \<Rightarrow> dialled
      \<Rightarrow> ((segments transport, 'g) snc_conn call_conn res \<times> dialled) option" where
  "connect_over_snc nw tenv0 env lib alpha shown x a dl =
     (let tenv = transport_env tenv0 recv_exactly (nw_stamp nw) in
      case find_gateway nw (cl_upper tenv) (cl_utf8 tenv) True a dl of
        (Inl e, l) \<Rightarrow> Some (Inl e, l)
      | (Inr gw, l) \<Rightarrow>
          (case connect_tcp nw (cx_trace a) (gt_factory gw) (gt_host gw) (gt_port gw) l of
             (Inl e, l) \<Rightarrow> Some (Inl e, l)
           | (Inr t, l) \<Rightarrow>
               map_option (\<lambda>r. (r, l)) (snc_establish nw tenv env lib alpha shown x a gw t)))"

section \<open>A gateway and a library that accept\<close>

lemma snc_env_simps [simp]:
  "cl_send (snc_call_env senv env) = snc_send_message senv" "cl_recv (snc_call_env senv env) = snc_recv_message senv"
  "cl_upper (snc_call_env senv env) = cl_upper env" "cl_utf8 (snc_call_env senv env) = cl_utf8 env"
  by (simp_all add: snc_call_env_def)

lemma plain_messages_sent:
  assumes "sv_send senv = send_message stamp"
  shows "\<not> sc_established sc \<Longrightarrow> \<forall>m \<in> set ms. length m < 2 ^ 32 \<Longrightarrow>
    \<exists>n. send_each (snc_send_message senv) ms sc = (Inr (), sc\<lparr>sc_inner := n\<rparr>) \<and> inbound n = inbound (sc_inner sc) \<and>
      outbound n = outbound (sc_inner sc) @ wires ms"
proof (induction ms arbitrary: sc)
  case Nil
  show ?case by (intro exI [of _ "sc_inner sc"]) simp
next
  case (Cons m ms)
  obtain n where n: "send_message stamp m (sc_inner sc) = (Inr (), n)" "inbound n = inbound (sc_inner sc)"
      "outbound n = outbound (sc_inner sc) @ wire m"
    using message_sent [of m stamp "sc_inner sc"] Cons.prems(2) by auto
  have s: "snc_send_message senv m sc = (Inr (), sc\<lparr>sc_inner := n\<rparr>)"
    using n(1) Cons.prems(1) assms by (simp add: snc_send_message_def inner_send_def)
  obtain n2 where "send_each (snc_send_message senv) ms (sc\<lparr>sc_inner := n\<rparr>) = (Inr (), sc\<lparr>sc_inner := n2\<rparr>)"
      "inbound n2 = inbound n" "outbound n2 = outbound n @ wires ms"
    using Cons.IH [of "sc\<lparr>sc_inner := n\<rparr>"] Cons.prems by auto
  with n s show ?case by auto
qed

context exact_reader
begin

lemma plain_frame_received:
  assumes "sv_recv senv = recv_message_via read stamp" and "\<not> sc_established sc" and "wf (inbound (sc_inner sc))"
    and "content (inbound (sc_inner sc)) = wire f @ r" and "sendable f"
  shows "\<exists>n. snc_recv_message senv sc = (Inr f, sc\<lparr>sc_inner := n\<rparr>) \<and> wf (inbound n) \<and> content (inbound n) = r \<and>
    outbound n = outbound (sc_inner sc)"
  using frame_received [OF assms(3-5), of stamp] assms(1,2) by (auto simp: snc_recv_message_def inner_recv_def)

text \<open>A leg before the channel is established.\<close>

lemma plain_leg:
  assumes "sv_send senv = send_message stamp" and "sv_recv senv = recv_message_via read stamp'"
    and "\<not> sc_established (k_net c)" and "state (k_session c) \<notin> {READY, GW_CONNECTED}"
    and "wf (inbound (sc_inner (k_net c)))" and "content (inbound (sc_inner (k_net c))) = wire f @ r" and "sendable f"
    and "session_feed (cl_utf8 env) f (k_session c) = (Inr [], s)"
    and "build_leg_requests (cl_upper env) (state (k_session c)) (handle s) p = Inr ms" and "\<forall>m \<in> set ms. length m < 2 ^ 32"
  shows "\<exists>n. sync_handshake_loop (snc_call_env senv env) act p c
      = sync_handshake_loop (snc_call_env senv env) act p (c\<lparr>k_net := (k_net c)\<lparr>sc_inner := n\<rparr>, k_session := s\<rparr>) \<and>
    wf (inbound n) \<and> content (inbound n) = r \<and> outbound n = outbound (sc_inner (k_net c)) @ wires ms"
proof -
  obtain n1 where n1: "snc_recv_message senv (k_net c) = (Inr f, (k_net c)\<lparr>sc_inner := n1\<rparr>)" "wf (inbound n1)"
      "content (inbound n1) = r" "outbound n1 = outbound (sc_inner (k_net c))"
    using plain_frame_received [OF assms(2,3,5-7)] by blast
  obtain n where n: "send_each (snc_send_message senv) ms ((k_net c)\<lparr>sc_inner := n1\<rparr>) = (Inr (), (k_net c)\<lparr>sc_inner := n\<rparr>)"
      "inbound n = inbound n1" "outbound n = outbound n1 @ wires ms"
    using plain_messages_sent [OF assms(1), of "(k_net c)\<lparr>sc_inner := n1\<rparr>" ms] assms(3,10) by auto
  have "sync_handshake_loop (snc_call_env senv env) act p c
      = sync_handshake_loop (snc_call_env senv env) act p (c\<lparr>k_net := (k_net c)\<lparr>sc_inner := n\<rparr>, k_session := s\<rparr>)"
    using assms(4,8,9) n1(1) n(1) by (subst sync_handshake_loop.simps) (simp add: leg_sent_def)
  with n n1 show ?thesis by auto
qed

text \<open>The leg on which the channel is established: the first message on it is sent wrapped.\<close>

lemma secured_leg:
  assumes "sv_send senv = send_message stamp" and "sv_recv senv = recv_message_via read stamp'"
    and "\<not> sc_established (k_net c)" and "state (k_session c) = GW_CONNECTED"
    and "wf (inbound (sc_inner (k_net c)))"
    and "content (inbound (sc_inner (k_net c))) = wire f @ wires ws @ r" and "sendable f"
    and "session_feed (cl_utf8 env) f (k_session c) = (Inr [], s)" and "handle s = Some h" and "length h = 8"
    and "build_leg_requests (cl_upper env) GW_CONNECTED (Some h) p = Inr [logon]"
    and "gss_run (sv_lib senv) [] rounds out (sc_gss (k_net c)) g1"
    and "seq_res (init_frames senv (Some h) True (map fst rounds @ [out])) = Inr fs" and "\<forall>f \<in> set fs. length f < 2 ^ 32"
    and "list_all2 (answers ((k_net c)\<lparr>sc_use_gw := True\<rparr>)) rounds ws"
    and "sv_eye senv = SNC_EYE" and "map_of QOP_PROTECTION (sv_qop senv) = Some PRIVACY"
    and "gl_wrap (sv_lib senv) logon g1 = ((0, m, token), g2)" and "length token + 112 \<le> MAX_FRAME_BYTES"
  shows "\<exists>fr w sc. sync_handshake_loop (snc_call_env senv env) (activate_snc senv) p c
      = sync_handshake_loop (snc_call_env senv env) (activate_snc senv) p (c\<lparr>k_net := sc, k_session := s\<rparr>) \<and>
    secured_end senv sc \<and> sc_use_gw sc \<and> sc_gss sc = g2 \<and> wf (inbound (sc_inner sc)) \<and> content (inbound (sc_inner sc)) = r \<and>
    build_snc_frame SNC_EYE 9 SNC_CTX_ID (sv_qop senv) token [] [] = Inr fr \<and> build_gw_snc_frame h fr = Inr w \<and>
    outbound (sc_inner sc) = outbound (sc_inner (k_net c)) @ wires fs @ wire w"
proof -
  obtain n1 where n1: "snc_recv_message senv (k_net c) = (Inr f, (k_net c)\<lparr>sc_inner := n1\<rparr>)" "wf (inbound n1)"
      "content (inbound n1) = wires ws @ r" "outbound n1 = outbound (sc_inner (k_net c))"
    using plain_frame_received [OF assms(2,3,5-7)] by blast
  define t where "t = (k_net c)\<lparr>sc_inner := n1, sc_gw_handle := h, sc_use_gw := True\<rparr>"
  have t: "sc_gss t = sc_gss (k_net c)" "gw_of t = Some h" "sc_inner t = n1" by (simp_all add: t_def gw_of_def)
  have "unframe t = unframe ((k_net c)\<lparr>sc_use_gw := True\<rparr>)" by (simp add: t_def unframe_def fun_eq_iff)
  then have "answers t = answers ((k_net c)\<lparr>sc_use_gw := True\<rparr>)" by (simp add: answers_def fun_eq_iff)
  then have a: "list_all2 (answers t) rounds ws" using assms(15) by simp
  obtain n2 where n2: "snc_handshake senv [] True t = Some (Inr (), t\<lparr>sc_gss := g1, sc_inner := n2, sc_established := True\<rparr>)"
      "wf (inbound n2)" "outbound n2 = outbound n1 @ wires fs" "content (inbound n2) = r"
    using handshake_run [OF assms(1,2), of "[]" rounds out t g1 True fs ws r] assms(12-14) a n1(2,3) t by auto
  define u where "u = t\<lparr>sc_gss := g1, sc_inner := n2, sc_established := True\<rparr>"
  define v where "v = u\<lparr>sc_gss := g2\<rparr>"
  have act: "activate_snc senv (Some h) ((k_net c)\<lparr>sc_inner := n1\<rparr>) = Some (Inr (), u)"
    using n2(1) by (simp add: activate_snc_def u_def t_def)
  have w: "snc_send_message senv logon u = send_snc_frame senv PRIVACY token [] [] None v"
    using assms(17,18) by (simp add: snc_send_message_def by_library_def gss_wrap_def checked_bytes_def u_def v_def)
  have e: "secured_end senv v" using assms(10,16,17) by (simp add: secured_end_def v_def u_def t_def)
  have "length token + length ([] :: bytes) + 112 \<le> MAX_FRAME_BYTES" using assms(19) by simp
  from frame_put [OF assms(1) e this, of PRIVACY] obtain fr w' n where
    fr: "send_snc_frame senv PRIVACY token [] [] None v = (Inr (), v\<lparr>sc_inner := n\<rparr>)" "inbound n = inbound n2"
      "outbound n = outbound n2 @ wire w'" "build_snc_frame SNC_EYE 9 SNC_CTX_ID (sv_qop senv) token [] [] = Inr fr"
      "build_gw_snc_frame h fr = Inr w'"
    using assms(16) by (auto simp: v_def u_def t_def)
  have "sync_handshake_loop (snc_call_env senv env) (activate_snc senv) p c
      = sync_handshake_loop (snc_call_env senv env) (activate_snc senv) p (c\<lparr>k_net := v\<lparr>sc_inner := n\<rparr>, k_session := s\<rparr>)"
    using assms(4,8,9,11) n1(1) act w fr(1) by (subst sync_handshake_loop.simps) (simp add: leg_sent_def)
  moreover have "secured_end senv (v\<lparr>sc_inner := n\<rparr>)" using e by (simp add: secured_end_def)
  ultimately show ?thesis using fr n1(4) n2
    by (intro exI [of _ fr] exI [of _ w'] exI [of _ "v\<lparr>sc_inner := n\<rparr>"]) (simp add: v_def u_def t_def)
qed

end

text \<open>What the transport of a connection is made of.\<close>

definition snc_env_of :: "pystr \<Rightarrow> 'g gss_lib \<Rightarrow> (exn \<Rightarrow> pystr) \<Rightarrow> nat \<Rightarrow> bytes \<Rightarrow> (segments transport, 'g) snc_env" where
  "snc_env_of stamp lib shown q ext =
     \<lparr>sv_send = send_message stamp, sv_recv = recv_message_via recv_exactly stamp, sv_lib = lib, sv_text = shown, sv_qop = q,
      sv_eye = SNC_EYE, sv_ext_header = ext, sv_adapter_info = get_snc_adapter_info\<rparr>"

text \<open>An answer of the peer in the envelope.\<close>

definition gw_answers :: "bytes \<times> bytes \<Rightarrow> bytes \<Rightarrow> bool" where
  "gw_answers r w \<longleftrightarrow> sendable w \<and> (\<exists>f. bind_res (strip_gw_snc_frame w) parse_snc_frame = Inr f \<and> sf_token f = snd r)"

lemma gw_answers: "sc_use_gw t \<Longrightarrow> answers t = gw_answers"
  by (simp add: answers_def gw_answers_def unframe_def fun_eq_iff)

lemma last_leg:
  assumes "sv_recv senv = recv_message_via recv_exactly stamp" and "secured_end senv (k_net c)" and "sc_use_gw (k_net c)"
    and "state (k_session c) = GW_DONE" and "[] \<notin> set (inbound (sc_inner (k_net c)))"
    and "concat (inbound (sc_inner (k_net c))) = wire w @ r" and "sendable w"
    and "bind_res (strip_gw_snc_frame w) parse_snc_frame = Inr f" and "sf_type f = 9"
    and "gl_unwrap (sv_lib senv) (sf_token f) (sc_gss (k_net c)) = ((0, m, reply), g1)"
    and "logon_outcome (cl_utf8 env) reply (k_session c) = Inr att"
  shows "\<exists>n. sync_handshake_loop (snc_call_env senv env) act p c
      = Some (Inr (), c\<lparr>k_net := (k_net c)\<lparr>sc_inner := n, sc_gss := g1\<rparr>,
          k_session := (k_session c)\<lparr>attributes := Some att, state := READY\<rparr>\<rparr>) \<and>
    concat (inbound n) = r \<and> outbound n = outbound (sc_inner (k_net c))"
proof -
  obtain n where n: "recv_message_via recv_exactly stamp (sc_inner (k_net c)) = (Inr w, n)" "concat (inbound n) = r"
      "outbound n = outbound (sc_inner (k_net c))"
    using sock.frame_received [OF assms(5-7)] by blast
  define t where "t = (k_net c)\<lparr>sc_inner := n\<rparr>"
  have t: "sc_established t" "sc_use_gw t" "sc_gss t = sc_gss (k_net c)" using assms(2,3) by (simp_all add: t_def secured_end_def)
  have "unframe t w = Inr f" using assms(8) t(2) by (simp add: unframe_def)
  then have "snc_recv_message senv (k_net c) = (Inr reply, t\<lparr>sc_gss := g1\<rparr>)"
    using n(1) t assms(1,9,10)
    by (simp add: snc_recv_message_def inner_recv_def deliver_frame_def by_library_def gss_unwrap_def checked_bytes_def flip: t_def)
  moreover have "session_feed (cl_utf8 env) reply (k_session c) = (Inr [], (k_session c)\<lparr>attributes := Some att, state := READY\<rparr>)"
    by (rule feed_logon [OF assms(4,11)])
  moreover define c1 where "c1 = c\<lparr>k_net := t\<lparr>sc_gss := g1\<rparr>, k_session := (k_session c)\<lparr>attributes := Some att, state := READY\<rparr>\<rparr>"
  moreover have "sync_handshake_loop (snc_call_env senv env) act p c1 = Some (Inr (), c1)"
    by (subst sync_handshake_loop.simps) (simp add: c1_def)
  ultimately have "sync_handshake_loop (snc_call_env senv env) act p c = Some (Inr (), c1)"
    using assms(4) by (subst sync_handshake_loop.simps) (simp add: leg_sent_def build_leg_requests_def)
  then show ?thesis using n by (intro exI [of _ n]) (simp add: c1_def t_def)
qed

lemma transport_made:
  assumes "validate_snc_qop i = Inr q" and "gss_binding lib alpha env_lib path partner (int q) = Inr g0"
    and "build_snc_ext_header uc (strip_snc_prefix alpha (strip_quotes partner)) = Inr ext"
  shows "new_snc_transport lib uc alpha shown env_lib (send_message stamp) (recv_message_via recv_exactly stamp) t path partner (int q) False
    = Inr (snc_env_of stamp lib shown q ext,
        \<lparr>sc_inner = t, sc_gss = g0, sc_established = False, sc_gw_handle = replicate 8 32, sc_use_gw = False\<rparr>)"
  using assms by (auto simp: new_snc_transport_def snc_env_of_def validate_snc_qop_def split: if_splits)

text \<open>The legs of a session that has its version, over a channel that is established on the way.\<close>

lemma snc_handshake_accepted:
  assumes "accepting (cl_utf8 env) restricted g"
    and "client_frames (cl_upper env) p (ac_handle g) = Inr [m0, m1, m2, m3, logon]"
    and "\<forall>m \<in> set [m0, m1, m2, m3, logon]. length m < 2 ^ 32" and "lp_snc p"
    and "\<not> sc_established sc" and "sc_gss sc = g0"
    and "gss_run lib [] rounds out g0 g1"
    and "seq_res (init_frames (snc_env_of stamp lib shown q ext) (Some (ac_handle g)) True (map fst rounds @ [out])) = Inr fs"
    and "\<forall>f \<in> set fs. length f < 2 ^ 32" and "list_all2 gw_answers rounds ws"
    and "map_of QOP_PROTECTION q = Some PRIVACY" and "gl_wrap lib logon g1 = ((0, m, token), g2)"
    and "length token + 112 \<le> MAX_FRAME_BYTES" and "sendable w4"
    and "bind_res (strip_gw_snc_frame w4) parse_snc_frame = Inr f4" and "sf_type f4 = 9"
    and "gl_unwrap lib (sf_token f4) g2 = ((0, m', ac_logon g), g3)"
    and "[] \<notin> set (inbound (sc_inner sc))"
    and "concat (inbound (sc_inner sc)) = wire (ac_gateway g) @ wire (ac_done g) @ wires ws @ wire w4 @ rest"
    and "k_session c = (new_session restricted)\<lparr>codepage := Some (ac_codepage g), state := NI_VERSIONED\<rparr>" and "k_net c = sc"
  shows "\<exists>c1 fr w. sync_handshake (snc_call_env (snc_env_of stamp lib shown q ext) env) (activate_snc (snc_env_of stamp lib shown q ext)) p c
      = Some (Inr (), c1) \<and>
    k_session c1 = (logging_on restricted g)\<lparr>attributes := Some (ac_attributes g), state := READY\<rparr> \<and>
    build_snc_frame SNC_EYE 9 SNC_CTX_ID q token [] [] = Inr fr \<and> build_gw_snc_frame (ac_handle g) fr = Inr w \<and>
    outbound (sc_inner (k_net c1)) = outbound (sc_inner sc) @ wires [m1, m2, m3] @ wires fs @ wire w \<and>
    concat (inbound (sc_inner (k_net c1))) = rest"
proof -
  let ?senv = "snc_env_of stamp lib shown q ext"
  let ?env = "snc_call_env ?senv env" and ?act = "activate_snc ?senv"
  have senv: "sv_send ?senv = send_message stamp" "sv_recv ?senv = recv_message_via recv_exactly stamp" "sv_lib ?senv = lib"
      "sv_eye ?senv = SNC_EYE" "sv_qop ?senv = q"
    by (simp_all add: snc_env_of_def)
  have ac: "sendable (ac_gateway g)" "sendable (ac_done g)" "48 \<le> length (ac_gateway g)" "73 \<le> length (ac_done g)"
      "logon_outcome (cl_utf8 env) (ac_logon g) (logging_on restricted g) = Inr (ac_attributes g)"
    using assms(1) by (auto simp: accepting_def ac_frames_def)
  have h: "length (ac_handle g) = 8" using ac(3) by (simp add: ac_handle_def)
  then have hn: "ac_handle g \<noteq> []" by auto
  obtain tlv where m: "build_gw_connect_request (lp_rnd p) (lp_hostname p) (lp_gwhost p) (lp_sysnr p) (lp_snc p) = Inr m1"
      "build_gw_info (ac_handle g) (lp_gwhost p) (lp_snc p) = Inr m2" "m3 = build_gw_done_client (ac_handle g) (lp_snc p)"
      "build_logon_request (cl_upper env) (lp_rnd p) (lp_hostname p) (lp_seed p) (lp_client p) (lp_user p)
          (lp_passwd p) (lp_local_ip p) (blit ''python3'') (lp_lang p) = Inr tlv" "logon = COM_HEAD @ tlv"
    using assms(2,4) by (auto simp: client_frames_def bind_res_Inr)
  define s1 where "s1 = (new_session restricted)\<lparr>codepage := Some (ac_codepage g), state := NI_VERSIONED\<rparr>"
  define s2 where "s2 = s1\<lparr>handle := Some (ac_handle g), state := GW_CONNECTED\<rparr>"
  define s3 where "s3 = logging_on restricted g"
  have st: "state s1 = NI_VERSIONED" "state s2 = GW_CONNECTED" "handle s2 = Some (ac_handle g)" "handle s1 = None"
      "s2\<lparr>state := GW_DONE\<rparr> = s3" "state s3 = GW_DONE" "handle s3 = Some (ac_handle g)"
    by (simp_all add: s1_def s2_def s3_def logging_on_def new_session_def)
  have c: "k_session c = s1" using assms(20) by (simp add: s1_def)
  have l: "\<forall>x \<in> set [m1]. length x < 2 ^ 32" "\<forall>x \<in> set [m2, m3]. length x < 2 ^ 32" using assms(3) by auto
  obtain n0 where n0: "send_each (snc_send_message ?senv) [m1] sc = (Inr (), sc\<lparr>sc_inner := n0\<rparr>)"
      "inbound n0 = inbound (sc_inner sc)" "outbound n0 = outbound (sc_inner sc) @ wires [m1]"
    using plain_messages_sent [OF senv(1) assms(5) l(1)] by blast
  define c0 where "c0 = c\<lparr>k_net := sc\<lparr>sc_inner := n0\<rparr>\<rparr>"
  have "leg_sent ?env p CONNECTED s1 c = (Inr (), c0)"
    using n0(1) m(1) assms(21) by (simp add: leg_sent_def build_leg_requests_def st c0_def del: send_each.simps)
  then have 0: "sync_handshake ?env ?act p c = sync_handshake_loop ?env ?act p c0"
    using c st(1) by (simp add: sync_handshake_def)
  have f1: "session_feed (cl_utf8 env) (ac_gateway g) s1 = (Inr [], s2)"
    using feed_gateway [OF st(1) ac(3)] by (simp add: s2_def ac_handle_def)
  have f2: "session_feed (cl_utf8 env) (ac_done g) s2 = (Inr [], s3)"
    using feed_done [OF st(2) ac(4)] st(5) by simp
  have b1: "build_leg_requests (cl_upper env) NI_VERSIONED (Some (ac_handle g)) p = Inr [m2, m3]"
    using m(2,3) hn by (simp add: build_leg_requests_def)
  have b2: "build_leg_requests (cl_upper env) GW_CONNECTED (Some (ac_handle g)) p = Inr [logon]"
    using m(4,5) hn assms(4) by (simp add: build_leg_requests_def)
  obtain n1 where 1: "sync_handshake_loop ?env ?act p c0
        = sync_handshake_loop ?env ?act p (c0\<lparr>k_net := sc\<lparr>sc_inner := n1\<rparr>, k_session := s2\<rparr>)"
      "[] \<notin> set (inbound n1)" "concat (inbound n1) = wire (ac_done g) @ wires ws @ wire w4 @ rest"
      "outbound n1 = outbound n0 @ wires [m2, m3]"
    using sock.plain_leg [OF senv(1,2), of c0 "ac_gateway g" "wire (ac_done g) @ wires ws @ wire w4 @ rest" env s2 p "[m2, m3]" ?act]
      assms(5,18,19) n0(2) ac(1) f1 b1 l(2) c st(1,3) by (auto simp: c0_def)
  define c2 where "c2 = c0\<lparr>k_net := sc\<lparr>sc_inner := n1\<rparr>, k_session := s2\<rparr>"
  have k2: "k_net c2 = sc\<lparr>sc_inner := n1\<rparr>" "k_session c2 = s2" by (simp_all add: c2_def)
  have a: "list_all2 (answers ((k_net c2)\<lparr>sc_use_gw := True\<rparr>)) rounds ws"
    using assms(10) gw_answers [of "(k_net c2)\<lparr>sc_use_gw := True\<rparr>"] by simp
  have p2: "\<not> sc_established (k_net c2)" "state (k_session c2) = GW_CONNECTED" "[] \<notin> set (inbound (sc_inner (k_net c2)))"
      "concat (inbound (sc_inner (k_net c2))) = wire (ac_done g) @ wires ws @ wire w4 @ rest"
      "session_feed (cl_utf8 env) (ac_done g) (k_session c2) = (Inr [], s3)"
      "gss_run (sv_lib ?senv) [] rounds out (sc_gss (k_net c2)) g1" "gl_wrap (sv_lib ?senv) logon g1 = ((0, m, token), g2)"
      "map_of QOP_PROTECTION (sv_qop ?senv) = Some PRIVACY"
    using k2 assms(5-7,11,12) st(2) 1(2,3) f2 senv by simp_all
  obtain fr w sc3 where 3: "sync_handshake_loop ?env ?act p c2 = sync_handshake_loop ?env ?act p (c2\<lparr>k_net := sc3, k_session := s3\<rparr>)"
      "secured_end ?senv sc3" "sc_use_gw sc3" "sc_gss sc3 = g2" "[] \<notin> set (inbound (sc_inner sc3))"
      "concat (inbound (sc_inner sc3)) = wire w4 @ rest"
      "build_snc_frame SNC_EYE 9 SNC_CTX_ID q token [] [] = Inr fr" "build_gw_snc_frame (ac_handle g) fr = Inr w"
      "outbound (sc_inner sc3) = outbound n1 @ wires fs @ wire w"
    using sock.secured_leg [OF senv(1,2) p2(1-4) ac(2) p2(5) st(7) h b2 p2(6) assms(8,9) a senv(4) p2(8) p2(7) assms(13)] k2 senv(5)
    by auto
  define c3 where "c3 = c2\<lparr>k_net := sc3, k_session := s3\<rparr>"
  have p3: "secured_end ?senv (k_net c3)" "sc_use_gw (k_net c3)" "state (k_session c3) = GW_DONE"
      "[] \<notin> set (inbound (sc_inner (k_net c3)))" "concat (inbound (sc_inner (k_net c3))) = wire w4 @ rest"
      "gl_unwrap (sv_lib ?senv) (sf_token f4) (sc_gss (k_net c3)) = ((0, m', ac_logon g), g3)"
      "logon_outcome (cl_utf8 env) (ac_logon g) (k_session c3) = Inr (ac_attributes g)"
    using 3 st(6) assms(17) ac(5) senv(3) by (simp_all add: c3_def s3_def)
  obtain n4 where 4: "sync_handshake_loop ?env ?act p c3 = Some (Inr (), c3\<lparr>k_net := (k_net c3)\<lparr>sc_inner := n4, sc_gss := g3\<rparr>,
          k_session := (k_session c3)\<lparr>attributes := Some (ac_attributes g), state := READY\<rparr>\<rparr>)"
      "concat (inbound n4) = rest" "outbound n4 = outbound (sc_inner (k_net c3))"
    using last_leg [OF senv(2) p3(1-5) assms(14-16) p3(6,7)] by blast
  define c4 where "c4 = c3\<lparr>k_net := (k_net c3)\<lparr>sc_inner := n4, sc_gss := g3\<rparr>,
          k_session := (k_session c3)\<lparr>attributes := Some (ac_attributes g), state := READY\<rparr>\<rparr>"
  have "sync_handshake ?env ?act p c = Some (Inr (), c4)"
    using 0 1(1) 3(1) 4(1) by (simp add: c2_def c3_def c4_def)
  moreover have "k_session c4 = (logging_on restricted g)\<lparr>attributes := Some (ac_attributes g), state := READY\<rparr>"
      "outbound (sc_inner (k_net c4)) = outbound (sc_inner sc) @ wires [m1, m2, m3] @ wires fs @ wire w"
      "concat (inbound (sc_inner (k_net c4))) = rest"
    using n0(3) 1(4) 3(9) 4(2,3) by (simp_all add: c4_def c3_def s3_def)
  ultimately show ?thesis using 3(7,8) by blast
qed

text \<open>A dialogue of the library with its peer: the rounds and the last token of the handshake, the frames they
  are sent in and those that answer them, the wrapped logon, and the frame with the wrapped reply.\<close>

record snc_dialogue =
  sd_rounds :: "(bytes \<times> bytes) list"
  sd_last :: bytes
  sd_frames :: "bytes list"
  sd_answers :: "bytes list"
  sd_logon :: bytes
  sd_reply :: bytes

definition secures ::
    "(segments transport, 'g) snc_env \<Rightarrow> bytes \<Rightarrow> bytes \<Rightarrow> bytes \<Rightarrow> 'g \<Rightarrow> snc_dialogue \<Rightarrow> bool" where
  "secures senv h logon reply g0 d \<longleftrightarrow>
     (\<exists>g1 g2 g3 m m' f.
        gss_run (sv_lib senv) [] (sd_rounds d) (sd_last d) g0 g1 \<and>
        seq_res (init_frames senv (Some h) True (map fst (sd_rounds d) @ [sd_last d])) = Inr (sd_frames d) \<and>
        (\<forall>f \<in> set (sd_frames d). length f < 2 ^ 32) \<and> list_all2 gw_answers (sd_rounds d) (sd_answers d) \<and>
        gl_wrap (sv_lib senv) logon g1 = ((0, m, sd_logon d), g2) \<and> length (sd_logon d) + 112 \<le> MAX_FRAME_BYTES \<and>
        sendable (sd_reply d) \<and> bind_res (strip_gw_snc_frame (sd_reply d)) parse_snc_frame = Inr f \<and> sf_type f = 9 \<and>
        gl_unwrap (sv_lib senv) (sf_token f) g2 = ((0, m', reply), g3))"

lemma version_exchanged:
  assumes "accepting (cl_utf8 env) restricted g" and "[] \<notin> set (inbound t)" and "concat (inbound t) = wire (ac_version g) @ r"
    and "length (build_ni_version_request (Some ip)) < 2 ^ 32"
  shows "\<exists>n. version_exchange (transport_env env recv_exactly stamp) ip restricted t
      = (Inr ((new_session restricted)\<lparr>codepage := Some (ac_codepage g), state := NI_VERSIONED\<rparr>), n) \<and>
    [] \<notin> set (inbound n) \<and> concat (inbound n) = r \<and> outbound n = outbound t @ wire (build_ni_version_request (Some ip))"
proof -
  have a: "sendable (ac_version g)" "24 \<le> length (ac_version g)" "ascii_decode (py_slice 20 24 (ac_version g)) = Some (ac_codepage g)"
    using assms(1) by (auto simp: accepting_def ac_frames_def)
  obtain n1 where n1: "send_message stamp (build_ni_version_request (Some ip)) t = (Inr (), n1)" "inbound n1 = inbound t"
      "outbound n1 = outbound t @ wire (build_ni_version_request (Some ip))"
    using message_sent [OF assms(4), of stamp t] by auto
  obtain n where n: "recv_message_via recv_exactly stamp n1 = (Inr (ac_version g), n)" "[] \<notin> set (inbound n)"
      "concat (inbound n) = r" "outbound n = outbound n1"
    using sock.frame_received [of n1 "ac_version g" r stamp] n1(2) assms(2,3) a(1) by auto
  have s: "session_start (Some ip) (new_session restricted)
      = (build_ni_version_request (Some ip), (new_session restricted)\<lparr>state := CONNECTED\<rparr>)"
    by (simp add: session_start_def new_session_def)
  show ?thesis using n1 n s feed_version [OF _ a(2,3), of "(new_session restricted)\<lparr>state := CONNECTED\<rparr>" "cl_utf8 env"]
    by (intro exI [of _ n]) (simp add: version_exchange_def)
qed

section \<open>A demonstration\<close>

lemma demo_ext_header:
  "\<exists>ext. build_snc_ext_header (\<lambda>c. [c]) (strip_snc_prefix (\<lambda>c. False) (strip_quotes (lit ''p:CN=S''))) = Inr ext \<and> length ext < 200"
  by (simp add: strip_quotes_def strip_snc_prefix_def is_alpha_def build_snc_ext_header_def build_dn_der_def split_on.simps rdn_der_def
      partition_eq_def strip_by_def lstrip_by_def rstrip_by_def is_space_def ws_chars_def py_upper_def upper_cp_def RDN_OID_def
      ascii_encode_def is_ascii_def der_tlv_def Let_def SNC_EXT_MAGIC_def SNC_EXT_FLAGS_def SAP_SNC_OID_def)


lemma demo_messages:
  "\<exists>m0 m1 m2 m3 logon. client_frames (\<lambda>c. [c]) ((logon_of demo_network (demo_args\<lparr>cx_saprouter := None\<rparr>) (Some (lit ''USER'')) (Some (lit ''secret'')) (lit ''gw'') 42)\<lparr>lp_snc := True\<rparr>)
      (replicate 8 48) = Inr [m0, m1, m2, m3, logon] \<and> (\<forall>m \<in> set [m0, m1, m2, m3, logon]. length m < 2 ^ 32) \<and> length logon < 2 ^ 26"
proof -
  let ?p = "(logon_of demo_network (demo_args\<lparr>cx_saprouter := None\<rparr>) (Some (lit ''USER'')) (Some (lit ''secret'')) (lit ''gw'') 42)\<lparr>lp_snc := True\<rparr>"
  have lang: "encode_logon_language (\<lambda>c. [c]) (lit ''E'') = Inr [69]"
    by (simp add: encode_logon_language_def normalize_logon_language_def py_upper_def upper_cp_def strip_by_def
        lstrip_by_def rstrip_by_def is_space_def ws_chars_def is_ascii_def ascii_encode_def)
  have p: "plain_logon (\<lambda>c. [c]) ?p"
    using lang by (simp add: plain_logon_def logon_of_def demo_network_def demo_args_def text_or_def truthy.simps is_ascii_def short_texts_def)
  have "length (replicate 8 48 :: bytes) = 8" by simp
  from client_has_frames [OF p this] obtain ms where
    ms: "client_frames (\<lambda>c. [c]) ?p (replicate 8 48) = Inr ms" "\<forall>m \<in> set ms. length m < 2 ^ 32"
    by blast
  then obtain m0 m1 m2 m3 tlv where m: "ms = [m0, m1, m2, m3, COM_HEAD @ tlv]"
    "build_logon_request (\<lambda>c. [c]) (lp_rnd ?p) (lp_hostname ?p) (lp_seed ?p) (lp_client ?p) (lp_user ?p)
        (lp_passwd ?p) (lp_local_ip ?p) (blit ''python3'') (lp_lang ?p) = Inr tlv"
    by (auto simp: client_frames_def bind_res_Inr)
  have "length tlv < 2 ^ 25" using short_logon [OF m(2)] p by (auto simp: plain_logon_def)
  then show ?thesis using ms m(1) by (auto simp: COM_HEAD_def)
qed


text \<open>A frame in the envelope, and what it is read as.\<close>

lemma enveloped:
  fixes h :: bytes
  assumes "ft < 2 ^ 8" and "q < 2 ^ 16" and "length token + 112 \<le> MAX_FRAME_BYTES" and "length h = 8"
  shows "\<exists>w f. sendable w \<and> bind_res (strip_gw_snc_frame w) parse_snc_frame = Inr f \<and> sf_type f = ft \<and> sf_qop f = q \<and> sf_token f = token"
proof -
  define s :: "(unit, unit) snc_conn" where
    "s = \<lparr>sc_inner = (), sc_gss = (), sc_established = True, sc_gw_handle = h, sc_use_gw = True\<rparr>"
  have c: "SNC_CTX_ID < 2 ^ 16" by (simp add: SNC_CTX_ID_def)
  have l: "length token + length ([] :: bytes) + 112 \<le> MAX_FRAME_BYTES" using assms(3) by simp
  have g: "sc_use_gw s \<longrightarrow> length (sc_gw_handle s) = 8" using assms(4) by (simp add: s_def)
  obtain f w where f: "build_snc_frame SNC_EYE ft SNC_CTX_ID q token [] [] = Inr f"
      "if sc_use_gw s then build_gw_snc_frame (sc_gw_handle s) f = Inr w \<and> length (sc_gw_handle s) = 8 else w = f" "sendable w"
    using frame_made [OF assms(1) c assms(2) l g] by blast
  have "length token + length ([] :: bytes) \<le> MAX_FRAME_BYTES" using l by simp
  from frame_unframed [OF f(1) this f(2) refl] f(3) show ?thesis by (auto simp: unframe_def s_def)
qed


definition demo_peer :: "bytes list \<Rightarrow> bytes \<Rightarrow> network" where
  "demo_peer ws w = demo_network\<lparr>nw_dial := (\<lambda>h p.
     if h = lit ''gw'' \<and> p = 4842
     then Inr [wires (take 3 (ac_frames demo_acceptance)) @ wires ws @ wire w @ [1, 2]] else Inl OSError)\<rparr>"

definition demo_snc_args :: snc_args where
  "demo_snc_args = \<lparr>sx_lib = lit ''lib'', sx_partnername = lit ''p:CN=S'', sx_qop = None, sx_sso = False, sx_env_lib = None\<rparr>"

section \<open>Properties\<close>

text \<open>C14. With SNC the logon is protected.  When the gateway is found and reached without a router, the level is
  one of privacy and the library accepts its name and its partner, and then takes the rounds of the handshake, wraps the logon and
  unwraps the reply: connecting returns a connection that is ready with the attributes of the reply.  What was written
  is the four messages that carry no secret, the tokens of the handshake, and one frame marked private with
  the wrapped logon, in this order and nothing else; nothing further was read.\<close>

theorem snc_logon_protected:
  assumes "find_gateway nw (cl_upper tenv) (cl_utf8 tenv) True a dl = (Inr gw, dl1)" and "cx_saprouter a = None"
    and "open_socket nw (gt_factory gw) (gt_host gw) (gt_port gw) dl1 = (Inr (segs, said), dl2)" and "[] \<notin> set segs"
    and "validate_snc_qop (chosen_qop (sx_qop x)) = Inr q" and "map_of QOP_PROTECTION q = Some PRIVACY" and "\<not> sx_sso x"
    and "gss_binding lib alpha (sx_env_lib x) (sx_lib x) (sx_partnername x) (int q) = Inr g0"
    and "build_snc_ext_header (cl_upper tenv) (strip_snc_prefix alpha (strip_quotes (sx_partnername x))) = Inr ext"
    and "accepting (cl_utf8 tenv) (cx_restricted a) g" and "cl_utf8 env = cl_utf8 tenv"
    and "client_frames (cl_upper env) ((logon_of nw a (fst (gt_cred gw)) (snd (gt_cred gw)) (gt_host gw) (int (gt_sysnr gw)))\<lparr>lp_snc := True\<rparr>)
      (ac_handle g) = Inr [version, conn, info, done, logon]"
    and "\<forall>m \<in> set [version, conn, info, done, logon]. length m < 2 ^ 32"
    and "secures (snc_env_of (nw_stamp nw) lib shown q ext) (ac_handle g) logon (ac_logon g) g0 d"
    and "concat segs = wires [ac_version g, ac_gateway g, ac_done g] @ wires (sd_answers d) @ wire (sd_reply d) @ rest"
  shows "\<exists>c f w. connect_over_snc nw tenv env lib alpha shown x a dl = Some (Inr c, dl2) \<and>
    state (k_session c) = READY \<and> attributes (k_session c) = Some (ac_attributes g) \<and> handle (k_session c) = Some (ac_handle g) \<and>
    build_snc_frame SNC_EYE 9 SNC_CTX_ID q (sd_logon d) [] [] = Inr f \<and> build_gw_snc_frame (ac_handle g) f = Inr w \<and>
    outbound (sc_inner (k_net c)) = said @ wires [version, conn, info, done] @ wires (sd_frames d) @ wire w \<and>
    concat (inbound (sc_inner (k_net c))) = rest"
proof -
  let ?p = "(logon_of nw a (fst (gt_cred gw)) (snd (gt_cred gw)) (gt_host gw) (int (gt_sysnr gw)))\<lparr>lp_snc := True\<rparr>"
  let ?senv = "snc_env_of (nw_stamp nw) lib shown q ext"
  have v: "version = build_ni_version_request (Some (nw_local_ip nw))"
    using assms(12) by (auto simp: client_frames_def bind_res_Inr logon_of_def)
  define t where "t = transport_on (cx_trace a) segs said"
  have t: "inbound t = segs" "outbound t = said" by (simp_all add: t_def transport_on_def)
  have r: "concat (inbound t) = wire (ac_version g) @ wire (ac_gateway g) @ wire (ac_done g) @ wires (sd_answers d) @ wire (sd_reply d) @ rest"
    using assms(15) t by simp
  have i: "[] \<notin> set (inbound t)" using assms(4) t by simp
  have l: "length (build_ni_version_request (Some (nw_local_ip nw))) < 2 ^ 32" using assms(13) v by simp
  define s1 where "s1 = (new_session (cx_restricted a))\<lparr>codepage := Some (ac_codepage g), state := NI_VERSIONED\<rparr>"
  obtain n where n: "version_exchange (transport_env tenv recv_exactly (nw_stamp nw)) (nw_local_ip nw) (cx_restricted a) t = (Inr s1, n)"
      "[] \<notin> set (inbound n)" "concat (inbound n) = wire (ac_gateway g) @ wire (ac_done g) @ wires (sd_answers d) @ wire (sd_reply d) @ rest"
      "outbound n = said @ wire version"
    using version_exchanged [OF assms(10) i r l] unfolding s1_def v t(2) by blast
  define sc where "sc = \<lparr>sc_inner = n, sc_gss = g0, sc_established = False, sc_gw_handle = replicate 8 32, sc_use_gw = False\<rparr>"
  have sc: "\<not> sc_established sc" "sc_gss sc = g0" "sc_inner sc = n" by (simp_all add: sc_def)
  have mk: "new_snc_transport lib (cl_upper tenv) alpha shown (sx_env_lib x) (send_message (nw_stamp nw))
      (recv_message_via recv_exactly (nw_stamp nw)) n (sx_lib x) (sx_partnername x) (int q) False = Inr (?senv, sc)"
    unfolding sc_def by (rule transport_made [OF assms(5,8,9)])
  define c0 where "c0 = (new_connection sc (cx_restricted a) (cx_cache a) (cx_cache_key a))\<lparr>k_session := s1\<rparr>"
  have c0: "k_session c0 = s1" "k_net c0 = sc" by (simp_all add: c0_def new_connection_def)
  obtain g1 g2 g3 m m' f4 where d: "gss_run lib [] (sd_rounds d) (sd_last d) g0 g1"
      "seq_res (init_frames ?senv (Some (ac_handle g)) True (map fst (sd_rounds d) @ [sd_last d])) = Inr (sd_frames d)"
      "\<forall>f \<in> set (sd_frames d). length f < 2 ^ 32" "list_all2 gw_answers (sd_rounds d) (sd_answers d)"
      "gl_wrap lib logon g1 = ((0, m, sd_logon d), g2)" "length (sd_logon d) + 112 \<le> MAX_FRAME_BYTES"
      "sendable (sd_reply d)" "bind_res (strip_gw_snc_frame (sd_reply d)) parse_snc_frame = Inr f4" "sf_type f4 = 9"
      "gl_unwrap lib (sf_token f4) g2 = ((0, m', ac_logon g), g3)"
    using assms(14) by (auto simp: secures_def snc_env_of_def)
  have ac: "accepting (cl_utf8 env) (cx_restricted a) g" using assms(10,11) by simp
  have j: "[] \<notin> set (inbound (sc_inner sc))"
      "concat (inbound (sc_inner sc)) = wire (ac_gateway g) @ wire (ac_done g) @ wires (sd_answers d) @ wire (sd_reply d) @ rest"
    using n(2,3) sc(3) by simp_all
  have k: "k_session c0 = (new_session (cx_restricted a))\<lparr>codepage := Some (ac_codepage g), state := NI_VERSIONED\<rparr>"
    using c0(1) by (simp add: s1_def)
  have snc: "lp_snc ?p" by simp
  obtain c fr w where c: "sync_handshake (snc_call_env ?senv env) (activate_snc ?senv) ?p c0 = Some (Inr (), c)"
      "k_session c = (logging_on (cx_restricted a) g)\<lparr>attributes := Some (ac_attributes g), state := READY\<rparr>"
      "build_snc_frame SNC_EYE 9 SNC_CTX_ID q (sd_logon d) [] [] = Inr fr" "build_gw_snc_frame (ac_handle g) fr = Inr w"
      "outbound (sc_inner (k_net c)) = outbound (sc_inner sc) @ wires [conn, info, done] @ wires (sd_frames d) @ wire w"
      "concat (inbound (sc_inner (k_net c))) = rest"
    using snc_handshake_accepted [OF ac assms(12,13) snc sc(1,2) d(1-4) assms(6) d(5-10) j k c0(2)] by blast
  have c0': "c0\<lparr>k_net := sc\<rparr> = c0" by (simp add: c0_def new_connection_def)
  have "snc_establish nw (transport_env tenv recv_exactly (nw_stamp nw)) env lib alpha shown x a gw t = Some (Inr c)"
    using n(1) mk assms(2,5,7) c(1) c0'
    by (simp add: snc_establish_def Let_def flip: c0_def)
  then have "connect_over_snc nw tenv env lib alpha shown x a dl = Some (Inr c, dl2)"
    using assms(1,3) by (simp add: connect_over_snc_def connect_tcp_def Let_def flip: t_def)
  then show ?thesis using c(2-6) n(4) sc(3) by (intro exI [of _ c] exI [of _ fr] exI [of _ w]) (simp add: logging_on_def)
qed

theorem snc_logon_protected_witness:
  "\<exists>w1 w2 c. connect_over_snc (demo_peer [w1] w2) demo_env demo_env demo_gss (\<lambda>c. False) (\<lambda>e. []) demo_snc_args
      (demo_args\<lparr>cx_saprouter := None\<rparr>) [] = Some (Inr c, [(lit ''gw'', 4842)]) \<and>
    state (k_session c) = READY \<and> concat (inbound (sc_inner (k_net c))) = [1, 2]"
proof -
  let ?a = "demo_args\<lparr>cx_saprouter := None\<rparr>" and ?h = "replicate 8 48 :: bytes"
  let ?t = "demo_env :: segments transport call_env" and ?e = "demo_env :: (segments transport, nat) snc_conn call_env"
  have h8: "length ?h = 8" by simp
  have q: "(3 :: nat) < 2 ^ 16" and ft: "(4 :: nat) < 2 ^ 8" "(9 :: nat) < 2 ^ 8" by simp_all
  have tk: "length [2 :: byte] + 112 \<le> MAX_FRAME_BYTES" "length [3 :: byte] + 112 \<le> MAX_FRAME_BYTES" by (simp_all add: MAX_FRAME_BYTES_def)
  obtain w1 f1 where w1: "sendable w1" "bind_res (strip_gw_snc_frame w1) parse_snc_frame = Inr f1" "sf_token f1 = [2]"
    using enveloped [OF ft(1) q tk(1) h8] by blast
  obtain w2 f2 where w2: "sendable w2" "bind_res (strip_gw_snc_frame w2) parse_snc_frame = Inr f2" "sf_type f2 = 9" "sf_token f2 = [3]"
    using enveloped [OF ft(2) q tk(2) h8] by blast
  obtain ext where ext: "build_snc_ext_header (\<lambda>c. [c]) (strip_snc_prefix (\<lambda>c. False) (strip_quotes (lit ''p:CN=S''))) = Inr ext"
      "length ext < 200"
    using demo_ext_header by blast
  let ?senv = "snc_env_of [] demo_gss (\<lambda>e. []) 3 ext"
  obtain fs where fs: "seq_res (init_frames ?senv (Some ?h) True [[1], [3]]) = Inr fs" "\<forall>f \<in> set fs. length f < 2 ^ 32"
    using ext(2) by (auto simp: init_frame_def snc_env_of_def build_snc_frame_def Let_def SNC_HEADER_SIZE_def SNC_CTX_ID_def
        SNC_HANDSHAKE_QOP_def build_gw_snc_frame_def get_snc_adapter_info_def length_pack_at length_put_slice INVOKE_FOOTER_MAGIC_def bind_res_Inr)
  obtain m0 m1 m2 m3 logon where m: "client_frames (\<lambda>c. [c]) ((logon_of demo_network ?a (Some (lit ''USER'')) (Some (lit ''secret'')) (lit ''gw'') 42)\<lparr>lp_snc := True\<rparr>)
      ?h = Inr [m0, m1, m2, m3, logon]" "\<forall>m \<in> set [m0, m1, m2, m3, logon]. length m < 2 ^ 32" "length logon < 2 ^ 26"
    using demo_messages by blast
  define d where "d = \<lparr>sd_rounds = [([1], [2])], sd_last = [3], sd_frames = fs, sd_answers = [w1], sd_logon = 2 # logon, sd_reply = w2\<rparr>"
  let ?nw = "demo_peer [w1] w2"
  have p: "session_parse_tlv [] = Inr Map.empty"
    by (simp add: session_parse_tlv_def session_parse_tlv_from.simps tlv_step_simple_def)
  have g: "accepting (cl_utf8 ?t) (cx_restricted ?a) demo_acceptance"
    by (simp add: accepting_def demo_acceptance_def ac_frames_def sendable_def MAX_FRAME_BYTES_def NI_RTERR_def starts_with_def
        sample_version_reply_def py_slice_def ascii_decode_def logon_outcome_def p is_live_reply_def Let_def logging_on_def
        demo_args_def demo_env_def)
  have h: "ac_handle demo_acceptance = ?h" by (simp add: ac_handle_def demo_acceptance_def py_slice_def numeral_eq_Suc)
  have c: "cl_upper ?t = (\<lambda>c. [c])" "cl_upper ?e = (\<lambda>c. [c])" "nw_stamp ?nw = []" "cx_saprouter ?a = None" "\<not> sx_sso demo_snc_args"
    by (simp_all add: demo_env_def demo_peer_def demo_network_def demo_snc_args_def)
  have lo: "logon_of ?nw = logon_of demo_network" by (simp add: logon_of_def demo_peer_def fun_eq_iff)
  have u8: "cl_utf8 ?e = cl_utf8 ?t" by (simp add: demo_env_def)
  define gw where "gw = \<lparr>gt_cred = (Some (lit ''USER''), Some (lit ''secret'')), gt_factory = Direct, gt_host = lit ''gw'', gt_sysnr = 42, gt_port = 4842\<rparr>"
  have fg: "find_gateway ?nw (cl_upper ?t) (cl_utf8 ?t) True ?a [] = (Inr gw, [])"
    by (simp add: find_gateway_def gw_def demo_args_def resolve_credentials_def factory_for_def validate_proxy_args_def check_sysnr_def
        sysnr_int_def validate_sysnr_def)
  define segs where "segs = [wires (take 3 (ac_frames demo_acceptance)) @ wires [w1] @ wire w2 @ [1 :: byte, 2]]"
  have so: "open_socket ?nw (gt_factory gw) (gt_host gw) (gt_port gw) [] = (Inr (segs, []), [(lit ''gw'', 4842)])"
    by (simp add: open_socket_def create_connection_def gw_def segs_def demo_peer_def)
  have ns: "[] \<notin> set segs" by (simp add: segs_def)
  have st: "concat segs = wires [ac_version demo_acceptance, ac_gateway demo_acceptance, ac_done demo_acceptance] @ wires (sd_answers d)
      @ wire (sd_reply d) @ [1, 2]"
    by (simp add: segs_def d_def ac_frames_def)
  have qp: "validate_snc_qop (chosen_qop (sx_qop demo_snc_args)) = Inr 3" "map_of QOP_PROTECTION 3 = Some PRIVACY"
    by (simp_all add: chosen_qop_def demo_snc_args_def validate_snc_qop_def QOP_PROTECTION_def)
  have gb: "gss_binding demo_gss (\<lambda>c. False) (sx_env_lib demo_snc_args) (sx_lib demo_snc_args) (sx_partnername demo_snc_args) (int 3) = Inr 0"
    by (simp add: gss_binding_def demo_snc_args_def truthy.simps validate_snc_qop_def QOP_PROTECTION_def demo_gss_def acquire_cred_def
        checked_status_def gss_check_def import_gss_name_def strip_quotes_def strip_snc_prefix_def is_alpha_def utf8_encode_def is_surrogate_def GSS_S_COMPLETE_def)
  have ex: "build_snc_ext_header (cl_upper ?t) (strip_snc_prefix (\<lambda>c. False) (strip_quotes (sx_partnername demo_snc_args))) = Inr ext"
    using ext(1) by (simp add: c demo_snc_args_def)
  have cf: "client_frames (cl_upper ?e) ((logon_of ?nw ?a (fst (gt_cred gw)) (snd (gt_cred gw)) (gt_host gw) (int (gt_sysnr gw)))\<lparr>lp_snc := True\<rparr>)
      (ac_handle demo_acceptance) = Inr [m0, m1, m2, m3, logon]"
    using m(1) by (simp add: c h lo gw_def)
  have se: "secures (snc_env_of (nw_stamp ?nw) demo_gss (\<lambda>e. []) 3 ext) (ac_handle demo_acceptance) logon (ac_logon demo_acceptance) 0 d"
    unfolding secures_def h c
  proof (intro exI conjI)
    show "gss_run (sv_lib ?senv) [] (sd_rounds d) (sd_last d) 0 2"
      by (simp add: d_def snc_env_of_def demo_gss_def GSS_S_COMPLETE_def)
    show "seq_res (init_frames ?senv (Some ?h) True (map fst (sd_rounds d) @ [sd_last d])) = Inr (sd_frames d)"
      "\<forall>f \<in> set (sd_frames d). length f < 2 ^ 32"
      using fs by (simp_all add: d_def)
    show "list_all2 gw_answers (sd_rounds d) (sd_answers d)" using w1 by (auto simp: d_def gw_answers_def)
    show "gl_wrap (sv_lib ?senv) logon 2 = ((0, 0, sd_logon d), 3)" by (simp add: d_def snc_env_of_def demo_gss_def)
    show "length (sd_logon d) + 112 \<le> MAX_FRAME_BYTES" using m(3) by (simp add: d_def MAX_FRAME_BYTES_def)
    show "sendable (sd_reply d)" "bind_res (strip_gw_snc_frame (sd_reply d)) parse_snc_frame = Inr f2" "sf_type f2 = 9"
      using w2 by (simp_all add: d_def)
    show "gl_unwrap (sv_lib ?senv) (sf_token f2) 3 = ((0, 0, ac_logon demo_acceptance), 4)"
      using w2(4) by (simp add: snc_env_of_def demo_gss_def demo_acceptance_def)
  qed
  from snc_logon_protected [OF fg c(4) so ns qp c(5) gb ex g u8 cf m(2) se st] show ?thesis by blast
qed

end
