(* ===== verification/Spec2Isabelle.thy ===== *)
theory Spec2Isabelle
  imports Logon_Bodies Ni_Transport Server_Session Server_Loop Tx_Network Sap_Compress
    Call_Service Conn_Pool Sap_Router Socks_Proxy Snc_Connect
begin

text \<open>
  A verification library for \<^verbatim>\<open>saprfclib\<close>, a client and a server of the RFC protocol in Python; the
  modelled files are under \<^verbatim>\<open>src/src/saprfclib/\<close>.

  \<^bold>\<open>The program.\<close>  A client opens a connection to a gateway (\<^verbatim>\<open>connection.py\<close>, \<^verbatim>\<open>session.py\<close>), logs on,
  and calls functions: a call's parameters are encoded by their descriptors (\<^verbatim>\<open>codec.py\<close>), written as a
  stream of tagged records (\<^verbatim>\<open>invoke.py\<close>), put into gateway frames and length-prefixed messages
  (\<^verbatim>\<open>transport.py\<close>); the reply is joined from its frames, checked for errors, and decoded.  A server
  registers with a gateway (\<^verbatim>\<open>server_session.py\<close>, \<^verbatim>\<open>server.py\<close>), reads requests with the same walkers,
  runs the application's handlers and writes responses.  Transactional calls and background units
  carry ids; the server's stores (\<^verbatim>\<open>stores.py\<close>) keep which were executed, and the client's stores keep
  the requests it could not deliver.

  \<^bold>\<open>Theories.\<close>
  \<^item> \<^verbatim>\<open>Py_Prelude\<close>, \<^verbatim>\<open>Py_Values\<close>: Python's byte strings (lists of \<open>8 word\<close>), strings (lists of code
    points), slices, codecs, integers, decimals and floats, and the values of the program's dicts.
  \<^item> \<^verbatim>\<open>Rfc_Exceptions\<close>: the classes of \<^verbatim>\<open>exceptions.py\<close>.  A function that may raise returns
    \<open>exn + 'a\<close>; a method that may raise and changes state is a function from a state to such a
    result and a state, so that what is changed before an exception is kept.
  \<^item> \<^verbatim>\<open>Tlv_Stream\<close>, \<^verbatim>\<open>Rfc_Errors\<close>, \<^verbatim>\<open>Param_Stream\<close>: writing and walking record streams, the
    classification of error replies, and streams of named values.
  \<^item> \<^verbatim>\<open>Codec\<close>, \<^verbatim>\<open>Decfloat\<close>, \<^verbatim>\<open>Codec_Layout\<close>, \<^verbatim>\<open>Call_Values\<close>: encoding and decoding of every type,
    the layout of structures and tables, and the values of a call.
  \<^item> \<^verbatim>\<open>Invoke_Request\<close>, \<^verbatim>\<open>Invoke_Response\<close>: the builders of calls, transactions and units; reading
    replies.
  \<^item> \<^verbatim>\<open>Sap_Lzc\<close>, \<^verbatim>\<open>Lzc_Roundtrip\<close>, \<^verbatim>\<open>Sap_Lzh\<close>, \<^verbatim>\<open>Sap_Lz4\<close>, \<^verbatim>\<open>Sap_Compress\<close>: the compression formats of
    \<^verbatim>\<open>compress.py\<close>: the dictionary coder with its round trip, the Huffman decoder with its window, LZ4
    blocks and frames, and the decompression interface, which the reader of replies takes as an
    argument.
  \<^item> \<^verbatim>\<open>Client_Session\<close>, \<^verbatim>\<open>Server_Session\<close>: the two handshake state machines, as step relations with
    invariants of their reachable states.
  \<^item> \<^verbatim>\<open>Ni_Transport\<close>, \<^verbatim>\<open>Reassembly\<close>: messages over a byte stream cut anywhere; joining a reply from
    its frames; what a failed call does to the session (\<open>fail_closed\<close>) and the call metrics.
  \<^item> \<^verbatim>\<open>Scramble\<close>, \<^verbatim>\<open>Gw_Frames\<close>, \<^verbatim>\<open>Logon_Bodies\<close>, \<^verbatim>\<open>Language_Codes\<close>, \<^verbatim>\<open>Rfc_Trace\<close>: passwords,
    gateway frames, logon bodies, logon languages, and the redacted trace.
  \<^item> \<^verbatim>\<open>Server_Frames\<close>, \<^verbatim>\<open>Server_Dispatch\<close>, \<^verbatim>\<open>Server_Loop\<close>: reading requests and writing responses on
    the server; dispatch of synchronous, transactional and background calls; the serving loop.
  \<^item> \<^verbatim>\<open>Tx_Stores\<close>: the in-memory and the SQLite stores behind one contract, the locales \<open>tid_store\<close>
    and \<open>unit_store\<close>, each interpreted on both.
  \<^item> \<^verbatim>\<open>Rfc_Metadata\<close>, \<^verbatim>\<open>Rfc_Calls\<close>: reading function interfaces and structure layouts from metadata
    replies, and the descriptor cache (\<^verbatim>\<open>metadata.py\<close>); the \<^verbatim>\<open>call\<close> and \<^verbatim>\<open>ping\<close> of a connection with the
    bootstrap of its metadata, the parameter policy, dates and times, and the metrics.
  \<^item> \<^verbatim>\<open>Conn_Pool\<close>: the pools of connections as steps of interleaved tasks (\<^verbatim>\<open>pool.py\<close>).
  \<^item> \<^verbatim>\<open>Sap_Router\<close>: route strings and requests, the message server and its resolution of logon groups
    (\<^verbatim>\<open>router.py\<close>).
  \<^item> \<^verbatim>\<open>Socks_Proxy\<close>: the SOCKS5 handshakes, the token service and the service bindings
    (\<^verbatim>\<open>socks5.py\<close>).
  \<^item> \<^verbatim>\<open>Rfc_Connect\<close>: \<^verbatim>\<open>connect\<close> and \<^verbatim>\<open>connect_async\<close>: ports, the message server, sockets, the route, and
    the handshake of a connection over a transport, which composes the theories above.
  \<^item> \<^verbatim>\<open>Snc_Frames\<close>, \<^verbatim>\<open>Snc_Transport\<close>, \<^verbatim>\<open>Snc_Connect\<close>: the frames of secure network communication and
    the calls of the security library, the transport that protects messages (\<^verbatim>\<open>snc.py\<close>), and the branch of
    \<^verbatim>\<open>connect\<close> that opens such a connection, with its synchronous handshake.
  \<^item> \<^verbatim>\<open>Tx_Client\<close>: submitting, retrying, parking, re-driving and the unit handles.
  \<^item> \<^verbatim>\<open>Call_Roundtrip\<close>, \<^verbatim>\<open>System_Requests\<close>, \<^verbatim>\<open>Call_Delivery\<close>, \<^verbatim>\<open>Tx_Delivery\<close>, \<^verbatim>\<open>Unit_Delivery\<close>,
    \<^verbatim>\<open>Tx_Network\<close>, \<^verbatim>\<open>Call_Service\<close>: the components composed.

  \<^bold>\<open>What is shown.\<close>  Values and calls come back as they were sent (\<^verbatim>\<open>Codec_Layout\<close>, \<^verbatim>\<open>Call_Roundtrip\<close>), also
  from a connection's \<^verbatim>\<open>call\<close> through the frames and the server's dispatch to the converted result
  (\<^verbatim>\<open>Call_Service\<close>); a call leaves its session as it was or broken, and fetches an interface once.  Metadata
  are read alike from both shapes of a reply (\<^verbatim>\<open>Rfc_Metadata\<close>).  A pool never lends a connection twice
  (\<^verbatim>\<open>Conn_Pool\<close>); its asynchronous form can be drained by timeouts.  A SOCKS5
  client opens the tunnel it was asked for and gives its token to a consenting proxy only (\<^verbatim>\<open>Socks_Proxy\<close>).  \<^verbatim>\<open>connect\<close> says
  to proxy, router and gateway what each expects and ends ready (\<^verbatim>\<open>Rfc_Connect\<close>); over SNC the logon leaves only
  wrapped by the security library, and a secured channel delivers, but does not demand protection of what it receives
  (\<^verbatim>\<open>Snc_Connect\<close>, \<^verbatim>\<open>Snc_Transport\<close>).  Transactions and units refine specifications over
  a set of executed ids and the application's state (\<open>spec_deliver\<close> in \<^verbatim>\<open>Tx_Delivery\<close>, \<open>spec_calls\<close>
  in \<^verbatim>\<open>Unit_Delivery\<close>): each is executed at most once whatever is shipped again, across restarts of the
  durable store, and over a network that loses requests and replies (\<open>spec_submit\<close> in
  \<^verbatim>\<open>Tx_Network\<close>).  The stores give the same answers (\<^verbatim>\<open>Tx_Stores\<close>).  The sessions keep their invariants and
  accept calls only in the right states; messages and replies are read whole and in order however the
  bytes arrive, and a truncated one is never taken for a whole one.  Errors are classified as the
  reply says and break the session exactly when the connection can no longer be used.

  \<^bold>\<open>Parameters.\<close>  What the code takes from elsewhere is an argument: decompression
  (\<open>sap_dec\<close>, which \<open>Sap_Compress\<close> gives), \<^verbatim>\<open>float()\<close> of foreign values, upper-casing of non-ASCII characters, the texts of
  foreign exceptions (\<open>runtime\<close>), the security library (\<open>gss_lib\<close>), and the application: a handler is any function on a request and the
  application's state, and it may raise.  Random seeds and generated ids are arguments.

  \<^bold>\<open>Bounds and termination.\<close>  Loops over data recurse on it or on a measure.  The join of a reply stops
  by the code's own limit of 256 frames.  A serving loop runs over the list of what is received.
  Retries recurse on the attempts that are left, which the code bounds by \<open>max_retries\<close>.  No fuel is
  used.  The handshake of the security library asks it as long as it wants to be continued, which nothing
  bounds: it is a partial function, and shown to return when the library completes.  Decompression is proved to return on every input; the walk through its dictionary is a partial
  function until then.

  \<^bold>\<open>Not modelled.\<close>  Sockets, threads, locks, delays and logging; the asyncio serving loop; the synchronous bodies of
  calls over SNC and WebSocket, and the branch of \<^verbatim>\<open>connect\<close> that opens a WebSocket; the
  BASXML reader; the native security library behind \<^verbatim>\<open>ctypes\<close>, the WebSocket transport
  (a third-party package), and the rendering of results as JSON.
\<close>

end
